(* ===== verification/Prelude.thy ===== *)
theory Prelude
  imports Main "HOL-Library.Word" "HOL-Library.Monad_Syntax"
begin

text \<open>
  Prelude: the types every component shares (a byte, a \<open>Uint8Array\<close>), the collections of
  rewrite rules the component proofs are built on, and generic lemmas on lists and words.

  Conventions of the whole development. A JavaScript \<open>number\<close> that the code uses as an
  integer is an \<open>int\<close>; the masks and typed-array stores that make it wrap are written out.
  A \<open>Uint8Array\<close> is a list of bytes. An operation that can throw returns \<open>option\<close>, where
  \<open>None\<close> stands for the exception, or a sum \<open>error + 'a\<close> where the code distinguishes
  its errors. Clocks (\<open>Date.now()\<close>) are arguments.
\<close>

type_synonym byte = "8 word"
type_synonym bytes = "byte list"

named_theorems wire "facts that evaluate reads of a byte buffer after writes to it"
named_theorems present "facts that a read of a long enough buffer succeeds"
named_theorems total "decoders that succeed on every long enough payload"
named_theorems ranges "definitions of the value ranges of the wire types"

subsection \<open>Lists\<close>

lemma take_drop_append_exact:
  "length xs = off \<Longrightarrow> take n (drop off (xs @ ys)) = take n ys"
  by simp

lemma list_all_nth_upt:
  "(\<forall>i<n. f i = g i) \<Longrightarrow> map f [0..<n] = map g [0..<n]"
  by simp

lemma nth_eq_take_drop:
  "i < length xs \<Longrightarrow> take 1 (drop i xs) = [xs ! i]"
  by (simp add: take_Suc_conv_app_nth Cons_nth_drop_Suc [symmetric])

lemma length_ge_SucE:
  assumes "Suc n \<le> length xs"
  obtains y ys where "xs = y # ys" and "n \<le> length ys"
  using assms by (cases xs) auto

subsection \<open>Bytes and integers\<close>

lemma uint_byte_range: "0 \<le> uint (b :: byte) \<and> uint b < 256"
  using uint_bounded [of b] by simp

lemma uint_word_of_int_byte: "uint (word_of_int v :: byte) = v mod 256"
  by (simp add: uint_word_of_int)

lemma word_of_int_uint_byte: "word_of_int (uint (b :: byte)) = b"
  by simp

lemma word_of_int_mod_byte: "(word_of_int (v mod 256) :: byte) = word_of_int v"
  by (rule word_uint_eqI) (simp add: uint_word_of_int)

lemma unat_of_nat_byte: "n < 256 \<Longrightarrow> unat (of_nat n :: byte) = n"
  by (simp add: unat_of_nat)

end
