(* ===== verification/Js_Bytes.thy ===== *)
theory Js_Bytes
  imports Prelude
begin

unbundle bit_operations_syntax

text \<open>
  The byte-level primitives of the JavaScript runtime that the codecs are written in:
  typed-array \<open>set\<close>, \<open>slice\<close> and \<open>subarray\<close>, the little-endian \<open>DataView\<close> accessors, and the
  conversions they perform. A \<open>DataView\<close> access or a typed-array \<open>set\<close> outside the buffer
  throws a RangeError, which is \<open>None\<close> here; a typed-array element store outside the buffer
  is ignored.
\<close>

subsection \<open>Typed arrays\<close>

definition newBytes :: "nat \<Rightarrow> bytes" where
  "newBytes n = replicate n 0"

text \<open>\<open>put off bs p\<close> overwrites \<open>p\<close> from \<open>off\<close>; \<open>setBytes\<close> is \<open>p.set(bs, off)\<close>.\<close>

definition put :: "nat \<Rightarrow> bytes \<Rightarrow> bytes \<Rightarrow> bytes" where
  "put off bs p = take off p @ bs @ drop (off + length bs) p"

definition setBytes :: "nat \<Rightarrow> bytes \<Rightarrow> bytes \<Rightarrow> bytes option" where
  "setBytes off bs p = (if off + length bs \<le> length p then Some (put off bs p) else None)"

definition getBytes :: "nat \<Rightarrow> nat \<Rightarrow> bytes \<Rightarrow> bytes option" where
  "getBytes off n p = (if off + n \<le> length p then Some (take n (drop off p)) else None)"

text \<open>\<open>p.slice(a, b)\<close> for \<open>0 \<le> a \<le> b\<close>: clamped to the end of the array.\<close>

definition slice :: "nat \<Rightarrow> nat \<Rightarrow> bytes \<Rightarrow> bytes" where
  "slice a b p = take (b - a) (drop a p)"

text \<open>\<open>p[i] = v\<close>: truncated to a byte, ignored outside the array.\<close>

definition putByte :: "nat \<Rightarrow> int \<Rightarrow> bytes \<Rightarrow> bytes" where
  "putByte i v p = p[i := word_of_int v]"

text \<open>\<open>p[i] ?? 0\<close>, and \<open>p[i]\<close> used as a number (\<open>None\<close> when it would be \<open>undefined\<close>).\<close>

definition byteOr0 :: "nat \<Rightarrow> bytes \<Rightarrow> int" where
  "byteOr0 i p = (if i < length p then uint (p ! i) else 0)"

definition byteAt :: "nat \<Rightarrow> bytes \<Rightarrow> int option" where
  "byteAt i p = (if i < length p then Some (uint (p ! i)) else None)"

lemma length_newBytes [simp, wire]: "length (newBytes n) = n"
  by (simp add: newBytes_def)

lemma length_put: "off + length bs \<le> length p \<Longrightarrow> length (put off bs p) = length p"
  by (simp add: put_def)

text \<open>
  The length of a chain of writes, in a form whose evaluation visits each write once.
\<close>

definition length_after :: "nat \<Rightarrow> nat \<Rightarrow> nat \<Rightarrow> nat" where
  "length_after n off k = min off n + k + (n - (off + k))"

lemma length_put_chain [wire]: "length (put off bs p) = length_after (length p) off (length bs)"
  by (simp add: put_def length_after_def min.commute)

lemma length_after_inside [wire]: "off + k \<le> n \<Longrightarrow> length_after n off k = n"
  by (simp add: length_after_def)

lemma length_putByte [simp, wire]: "length (putByte i v p) = length p"
  by (simp add: putByte_def)

lemma setBytes_Some [wire]:
  "off + length bs \<le> length p \<Longrightarrow> setBytes off bs p = Some (put off bs p)"
  by (simp add: setBytes_def)

lemma setBytes_length: "setBytes off bs p = Some q \<Longrightarrow> length q = length p"
  by (auto simp: setBytes_def length_put split: if_splits)

lemma length_slice [simp, wire]: "length (slice a b p) = min (b - a) (length p - a)"
  by (simp add: slice_def min.commute)

lemma getBytes_put_same [wire]:
  "length bs = n \<Longrightarrow> off + n \<le> length p \<Longrightarrow> getBytes off n (put off bs p) = Some bs"
  by (simp add: getBytes_def put_def)

lemma getBytes_put_before [wire]:
  assumes "off + n \<le> off'" and "off' + length bs \<le> length p"
  shows "getBytes off n (put off' bs p) = getBytes off n p"
proof -
  have "take n (drop off (take off' p @ xs)) = take n (drop off p)" for xs
    using assms by (auto simp: drop_take min_def)
  then show ?thesis using assms by (simp add: getBytes_def put_def)
qed

lemma getBytes_put_after [wire]:
  assumes "off' + length bs \<le> off" and "off' + length bs \<le> length p"
  shows "getBytes off n (put off' bs p) = getBytes off n p"
proof -
  have "drop off (put off' bs p) = drop (off - off' - length bs) (drop (off' + length bs) p)"
    using assms by (simp add: put_def)
  also have "\<dots> = drop off p" using assms by (simp add: drop_drop)
  finally show ?thesis using assms by (simp add: getBytes_def length_put)
qed

lemma getBytes_putByte_same [wire]:
  "off < length p \<Longrightarrow> getBytes off 1 (putByte off v p) = Some [word_of_int v]"
  by (simp add: getBytes_def putByte_def take_Suc_conv_app_nth Cons_nth_drop_Suc [symmetric])

lemma getBytes_putByte_other [wire]:
  assumes "i < off \<or> off + n \<le> i"
  shows "getBytes off n (putByte i v p) = getBytes off n p"
proof -
  have "take n (drop off (p[i := w])) = take n (drop off p)" for w
    using assms by (intro nth_equalityI) auto
  then show ?thesis by (simp add: getBytes_def putByte_def)
qed

lemma putByte_eq_put [wire]:
  "i < length p \<Longrightarrow> putByte i v p = put i [word_of_int v] p"
  by (simp add: putByte_def put_def upd_conv_take_nth_drop)

lemma byteAt_getBytes [wire]:
  "byteAt i p = map_option (\<lambda>bs. uint (hd bs)) (getBytes i 1 p)"
  by (simp add: byteAt_def getBytes_def hd_drop_conv_nth take_Suc)

lemma byteOr0_getBytes [wire]:
  "byteOr0 i p = (case getBytes i 1 p of None \<Rightarrow> 0 | Some bs \<Rightarrow> uint (hd bs))"
  by (simp add: byteOr0_def getBytes_def hd_drop_conv_nth take_Suc)

lemma slice_getBytes [wire]:
  "a + (b - a) \<le> length p \<Longrightarrow> slice a b p = the (getBytes a (b - a) p)"
  by (simp add: slice_def getBytes_def)

lemma getBytes_newBytes [wire]:
  "off + n \<le> m \<Longrightarrow> getBytes off n (newBytes m) = Some (replicate n 0)"
  by (simp add: getBytes_def newBytes_def)

subsection \<open>Little-endian integers\<close>

text \<open>
  \<open>le_bytes n v\<close> is what a little-endian integer setter of width \<open>n\<close> stores: the low \<open>n\<close>
  bytes of the two's complement of \<open>v\<close>, so the value wraps modulo \<open>256 ^ n\<close>.
\<close>

fun le_bytes :: "nat \<Rightarrow> int \<Rightarrow> bytes" where
  "le_bytes 0 v = []"
| "le_bytes (Suc n) v = word_of_int v # le_bytes n (v div 256)"

fun le_val :: "bytes \<Rightarrow> int" where
  "le_val [] = 0"
| "le_val (b # bs) = uint b + 256 * le_val bs"

definition le_signed :: "bytes \<Rightarrow> int" where
  "le_signed bs = (let u = le_val bs; m = 256 ^ length bs in if 2 * u < m then u else u - m)"

lemma length_le_bytes [simp, wire]: "length (le_bytes n v) = n"
  by (induction n arbitrary: v) auto

lemma le_val_le_bytes: "le_val (le_bytes n v) = v mod 256 ^ n"
proof (induction n arbitrary: v)
  case (Suc n)
  have "v mod (256 * 256 ^ n) = 256 * (v div 256 mod 256 ^ n) + v mod 256"
    by (rule zmod_zmult2_eq) simp
  with Suc show ?case by (simp add: uint_word_of_int add.commute)
qed simp

lemma le_val_range: "0 \<le> le_val bs \<and> le_val bs < 256 ^ length bs"
proof (induction bs)
  case (Cons b bs)
  have "uint b + 256 * le_val bs < 256 + 256 * (256 ^ length bs - 1)"
    using Cons uint_byte_range [of b] by (intro add_less_le_mono) auto
  then show ?case using Cons uint_byte_range [of b] by simp
qed simp

lemma le_bytes_le_val: "le_bytes (length bs) (le_val bs) = bs"
proof (induction bs)
  case (Cons b bs)
  have m: "(uint b + 256 * le_val bs) mod 256 = uint b"
    using uint_byte_range [of b] by simp
  have "(uint b + 256 * le_val bs) div 256 = le_val bs"
    using uint_byte_range [of b] by simp
  moreover have "(word_of_int (uint b + 256 * le_val bs) :: byte) = b"
    by (rule word_uint_eqI) (simp only: uint_word_of_int_byte m)
  ultimately show ?case using Cons by simp
qed simp

lemma le_signed_le_bytes:
  assumes "- (256 ^ n) \<le> 2 * v" and "2 * v < 256 ^ n"
  shows "le_signed (le_bytes n v) = v"
proof (cases "0 \<le> v")
  case True
  with assms have "v mod 256 ^ n = v" by simp
  with assms show ?thesis by (simp add: le_signed_def le_val_le_bytes)
next
  case False
  have "v mod 256 ^ n = (v + 256 ^ n) mod 256 ^ n" by simp
  also have "\<dots> = v + 256 ^ n" using False assms by (intro mod_pos_pos_trivial) auto
  finally show ?thesis using False assms by (simp add: le_signed_def le_val_le_bytes)
qed

subsection \<open>Floats\<close>

text \<open>
  A JavaScript number that only travels through \<open>setFloat32\<close>/\<open>getFloat32\<close> is modelled by
  the binary32 image those operations exchange. Rounding happens when the number is first
  stored; what the code sees afterwards is the 32-bit pattern, except that every NaN pattern
  reads back as the one NaN of the language.
\<close>

type_synonym f32 = "32 word"

definition f32_canon :: "f32 \<Rightarrow> f32" where
  "f32_canon w =
     (if w AND 0x7F800000 = 0x7F800000 \<and> w AND 0x007FFFFF \<noteq> 0 then 0x7FC00000 else w)"

text \<open>The patterns a JavaScript number can have: no NaN but the canonical one.\<close>

definition f32_ok :: "f32 \<Rightarrow> bool" where
  "f32_ok w \<longleftrightarrow> f32_canon w = w"

lemma f32_ok_canon: "f32_ok (f32_canon w)"
  by (simp add: f32_ok_def f32_canon_def)

subsection \<open>64-bit integers as numbers\<close>

text \<open>
  \<open>Number(big)\<close> rounds an integer to the nearest double, ties to even: exact up to \<open>2^53\<close>.
  The unsigned 64-bit values the codecs convert need at most 11 halvings.
\<close>

fun round_to_double :: "nat \<Rightarrow> int \<Rightarrow> int \<Rightarrow> int" where
  "round_to_double 0 scale x = x"
| "round_to_double (Suc fuel) scale x =
     (if x div scale < 2 ^ 53 then
        (let q = x div scale; r = x mod scale
         in (if 2 * r > scale \<or> (2 * r = scale \<and> odd q) then q + 1 else q) * scale)
      else round_to_double fuel (2 * scale) x)"

definition numberOfBigint :: "int \<Rightarrow> int" where
  "numberOfBigint x = round_to_double 12 1 x"

lemma numberOfBigint_exact: "0 \<le> x \<Longrightarrow> x < 2 ^ 53 \<Longrightarrow> numberOfBigint x = x"
  unfolding numberOfBigint_def by (simp add: eval_nat_numeral Let_def)

subsection \<open>DataView accessors\<close>

text \<open>The value ranges for which a setter stores its argument unchanged.\<close>

definition u8_ok :: "int \<Rightarrow> bool" where
  "u8_ok v \<longleftrightarrow> 0 \<le> v \<and> v < 2 ^ 8"

definition u16_ok :: "int \<Rightarrow> bool" where
  "u16_ok v \<longleftrightarrow> 0 \<le> v \<and> v < 2 ^ 16"

definition u32_ok :: "int \<Rightarrow> bool" where
  "u32_ok v \<longleftrightarrow> 0 \<le> v \<and> v < 2 ^ 32"

definition u64_ok :: "int \<Rightarrow> bool" where
  "u64_ok v \<longleftrightarrow> 0 \<le> v \<and> v < 2 ^ 64"

definition i8_ok :: "int \<Rightarrow> bool" where
  "i8_ok v \<longleftrightarrow> - (2 ^ 7) \<le> v \<and> v < 2 ^ 7"

definition i16_ok :: "int \<Rightarrow> bool" where
  "i16_ok v \<longleftrightarrow> - (2 ^ 15) \<le> v \<and> v < 2 ^ 15"

definition i32_ok :: "int \<Rightarrow> bool" where
  "i32_ok v \<longleftrightarrow> - (2 ^ 31) \<le> v \<and> v < 2 ^ 31"

declare u8_ok_def [ranges] u16_ok_def [ranges] u32_ok_def [ranges] u64_ok_def [ranges]
  i8_ok_def [ranges] i16_ok_def [ranges] i32_ok_def [ranges]

definition setUint8 :: "nat \<Rightarrow> int \<Rightarrow> bytes \<Rightarrow> bytes option" where
  "setUint8 off v p = setBytes off (le_bytes 1 v) p"

definition setUint16 :: "nat \<Rightarrow> int \<Rightarrow> bytes \<Rightarrow> bytes option" where
  "setUint16 off v p = setBytes off (le_bytes 2 v) p"

definition setUint32 :: "nat \<Rightarrow> int \<Rightarrow> bytes \<Rightarrow> bytes option" where
  "setUint32 off v p = setBytes off (le_bytes 4 v) p"

definition setBigUint64 :: "nat \<Rightarrow> int \<Rightarrow> bytes \<Rightarrow> bytes option" where
  "setBigUint64 off v p = setBytes off (le_bytes 8 v) p"

definition setInt8 :: "nat \<Rightarrow> int \<Rightarrow> bytes \<Rightarrow> bytes option" where
  "setInt8 off v p = setBytes off (le_bytes 1 v) p"

definition setInt16 :: "nat \<Rightarrow> int \<Rightarrow> bytes \<Rightarrow> bytes option" where
  "setInt16 off v p = setBytes off (le_bytes 2 v) p"

definition setInt32 :: "nat \<Rightarrow> int \<Rightarrow> bytes \<Rightarrow> bytes option" where
  "setInt32 off v p = setBytes off (le_bytes 4 v) p"

definition f32_bytes :: "f32 \<Rightarrow> bytes" where
  "f32_bytes w = le_bytes 4 (uint w)"

definition setFloat32 :: "nat \<Rightarrow> f32 \<Rightarrow> bytes \<Rightarrow> bytes option" where
  "setFloat32 off w p = setBytes off (f32_bytes w) p"

definition getUint8 :: "nat \<Rightarrow> bytes \<Rightarrow> int option" where
  "getUint8 off p = map_option le_val (getBytes off 1 p)"

definition getUint16 :: "nat \<Rightarrow> bytes \<Rightarrow> int option" where
  "getUint16 off p = map_option le_val (getBytes off 2 p)"

definition getUint32 :: "nat \<Rightarrow> bytes \<Rightarrow> int option" where
  "getUint32 off p = map_option le_val (getBytes off 4 p)"

definition getBigUint64 :: "nat \<Rightarrow> bytes \<Rightarrow> int option" where
  "getBigUint64 off p = map_option le_val (getBytes off 8 p)"

definition getInt8 :: "nat \<Rightarrow> bytes \<Rightarrow> int option" where
  "getInt8 off p = map_option le_signed (getBytes off 1 p)"

definition getInt16 :: "nat \<Rightarrow> bytes \<Rightarrow> int option" where
  "getInt16 off p = map_option le_signed (getBytes off 2 p)"

definition getInt32 :: "nat \<Rightarrow> bytes \<Rightarrow> int option" where
  "getInt32 off p = map_option le_signed (getBytes off 4 p)"

definition f32_of_bytes :: "bytes \<Rightarrow> f32" where
  "f32_of_bytes bs = f32_canon (word_of_int (le_val bs))"

definition getFloat32 :: "nat \<Rightarrow> bytes \<Rightarrow> f32 option" where
  "getFloat32 off p = map_option f32_of_bytes (getBytes off 4 p)"

lemma length_f32_bytes [simp, wire]: "length (f32_bytes w) = 4"
  by (simp add: f32_bytes_def)

lemmas view_set_defs =
  setUint8_def setUint16_def setUint32_def setBigUint64_def setInt8_def setInt16_def
  setInt32_def setFloat32_def

lemmas view_get_defs =
  getUint8_def getUint16_def getUint32_def getBigUint64_def getInt8_def getInt16_def
  getInt32_def getFloat32_def

declare view_set_defs [wire] view_get_defs [wire]

subsection \<open>The contract of a field accessor\<close>

text \<open>
  A field accessor is a pair of a setter's encoding and a getter's decoding of fixed width,
  which agree on the values the field can hold. Each accessor of the runtime provides this
  contract; the message codecs are clients of it, and so is any field at any offset.
\<close>

locale view_field =
  fixes width :: nat
    and enc :: "'v \<Rightarrow> bytes"
    and dec :: "bytes \<Rightarrow> 'v"
    and ok :: "'v \<Rightarrow> bool"
  assumes enc_length: "length (enc v) = width"
    and dec_enc: "ok v \<Longrightarrow> dec (enc v) = v"
begin

lemma read_back:
  assumes "ok v" and "off + width \<le> length p"
  shows "map_option dec (getBytes off width (put off (enc v) p)) = Some v"
  using assms by (simp add: getBytes_put_same enc_length dec_enc)

lemma read_elsewhere:
  assumes "off + width \<le> length p" and "off' + n \<le> off \<or> off + width \<le> off'"
  shows "getBytes off' n (put off (enc v) p) = getBytes off' n p"
  using assms by (auto simp: getBytes_put_before getBytes_put_after enc_length)

lemma enc_inject:
  assumes "ok v" and "ok w" and "enc v = enc w"
  shows "v = w"
  using assms by (metis dec_enc)

end

lemma le_val_u8 [wire]: "u8_ok v \<Longrightarrow> le_val (le_bytes 1 v) = v"
  by (subst le_val_le_bytes) (simp add: u8_ok_def)

lemma le_val_u16 [wire]: "u16_ok v \<Longrightarrow> le_val (le_bytes 2 v) = v"
  by (subst le_val_le_bytes) (simp add: u16_ok_def)

lemma le_val_u32 [wire]: "u32_ok v \<Longrightarrow> le_val (le_bytes 4 v) = v"
  by (subst le_val_le_bytes) (simp add: u32_ok_def)

lemma le_val_u64 [wire]: "u64_ok v \<Longrightarrow> le_val (le_bytes 8 v) = v"
  by (subst le_val_le_bytes) (simp add: u64_ok_def)

lemma le_signed_i8 [wire]: "i8_ok v \<Longrightarrow> le_signed (le_bytes 1 v) = v"
  by (rule le_signed_le_bytes) (simp_all add: i8_ok_def)

lemma le_signed_i16 [wire]: "i16_ok v \<Longrightarrow> le_signed (le_bytes 2 v) = v"
  by (rule le_signed_le_bytes) (simp_all add: i16_ok_def)

lemma le_signed_i32 [wire]: "i32_ok v \<Longrightarrow> le_signed (le_bytes 4 v) = v"
  by (rule le_signed_le_bytes) (simp_all add: i32_ok_def)

lemma f32_of_bytes_f32 [wire]: "f32_ok w \<Longrightarrow> f32_of_bytes (f32_bytes w) = w"
proof -
  have "le_val (f32_bytes w) = uint w"
    using uint_bounded [of w] by (simp only: f32_bytes_def le_val_le_bytes) simp
  then show "f32_ok w \<Longrightarrow> f32_of_bytes (f32_bytes w) = w"
    by (simp add: f32_of_bytes_def f32_ok_def)
qed

interpretation view_u8: view_field 1 "le_bytes 1" le_val u8_ok
  by unfold_locales (simp_all only: length_le_bytes le_val_u8)

interpretation view_u16: view_field 2 "le_bytes 2" le_val u16_ok
  by unfold_locales (simp_all only: length_le_bytes le_val_u16)

interpretation view_u32: view_field 4 "le_bytes 4" le_val u32_ok
  by unfold_locales (simp_all only: length_le_bytes le_val_u32)

interpretation view_u64: view_field 8 "le_bytes 8" le_val u64_ok
  by unfold_locales (simp_all only: length_le_bytes le_val_u64)

interpretation view_i8: view_field 1 "le_bytes 1" le_signed i8_ok
  by unfold_locales (simp_all only: length_le_bytes le_signed_i8)

interpretation view_i16: view_field 2 "le_bytes 2" le_signed i16_ok
  by unfold_locales (simp_all only: length_le_bytes le_signed_i16)

interpretation view_i32: view_field 4 "le_bytes 4" le_signed i32_ok
  by unfold_locales (simp_all only: length_le_bytes le_signed_i32)

interpretation view_f32: view_field 4 f32_bytes f32_of_bytes f32_ok
  by unfold_locales (simp_all only: length_f32_bytes f32_of_bytes_f32)

end
