(* ===== verification/Js_Text.thy ===== *)
theory Js_Text
  imports Js_Bytes
begin

text \<open>
  \<open>TextEncoder\<close> and \<open>TextDecoder\<close> (UTF-8), as the codecs use them. A string that reaches a
  codec is a list of Unicode scalar values; \<open>decodeUtf8\<close> is the decoder of the Encoding
  Standard, byte by byte, with its replacement characters and its byte-order-mark rule.
\<close>

type_synonym js_text = "nat list"

definition scalar_ok :: "nat \<Rightarrow> bool" where
  "scalar_ok c \<longleftrightarrow> c < 0xD800 \<or> (0xE000 \<le> c \<and> c < 0x110000)"

subsection \<open>Encoding\<close>

definition encodeScalar :: "nat \<Rightarrow> nat list" where
  "encodeScalar c =
     (if c < 0x80 then [c]
      else if c < 0x800 then [0xC0 + c div 64, 0x80 + c mod 64]
      else if c < 0x10000 then [0xE0 + c div 4096, 0x80 + c div 64 mod 64, 0x80 + c mod 64]
      else [0xF0 + c div 262144, 0x80 + c div 4096 mod 64, 0x80 + c div 64 mod 64, 0x80 + c mod 64])"

definition encodeUtf8 :: "js_text \<Rightarrow> bytes" where
  "encodeUtf8 s = map of_nat (concat (map encodeScalar s))"

subsection \<open>Decoding\<close>

text \<open>The decoder's state: bytes still needed, the code point so far, the next byte's bounds.\<close>

record utf8_state =
  needed :: nat
  codePoint :: nat
  lower :: nat
  upper :: nat

definition utf8_start :: utf8_state where
  "utf8_start = \<lparr>needed = 0, codePoint = 0, lower = 0x80, upper = 0xBF\<rparr>"

definition utf8_lead :: "nat \<Rightarrow> utf8_state \<times> js_text" where
  "utf8_lead b =
     (if b < 0x80 then (utf8_start, [b])
      else if 0xC2 \<le> b \<and> b \<le> 0xDF then
        (utf8_start\<lparr>needed := 1, codePoint := b - 0xC0\<rparr>, [])
      else if 0xE0 \<le> b \<and> b \<le> 0xEF then
        (utf8_start\<lparr>needed := 2, codePoint := b - 0xE0,
           lower := (if b = 0xE0 then 0xA0 else 0x80),
           upper := (if b = 0xED then 0x9F else 0xBF)\<rparr>, [])
      else if 0xF0 \<le> b \<and> b \<le> 0xF4 then
        (utf8_start\<lparr>needed := 3, codePoint := b - 0xF0,
           lower := (if b = 0xF0 then 0x90 else 0x80),
           upper := (if b = 0xF4 then 0x8F else 0xBF)\<rparr>, [])
      else (utf8_start, [0xFFFD]))"

definition utf8_byte :: "utf8_state \<Rightarrow> nat \<Rightarrow> utf8_state \<times> js_text" where
  "utf8_byte st b =
     (if needed st = 0 then utf8_lead b
      else if \<not> (lower st \<le> b \<and> b \<le> upper st) then
        (let (st', out) = utf8_lead b in (st', 0xFFFD # out))
      else
        (let cp = codePoint st * 64 + (b - 0x80)
         in if needed st = 1 then (utf8_start, [cp])
            else (\<lparr>needed = needed st - 1, codePoint = cp, lower = 0x80, upper = 0xBF\<rparr>, [])))"

fun utf8_run :: "utf8_state \<Rightarrow> nat list \<Rightarrow> js_text" where
  "utf8_run st [] = (if needed st = 0 then [] else [0xFFFD])"
| "utf8_run st (b # bs) = (let (st', out) = utf8_byte st b in out @ utf8_run st' bs)"

definition stripBom :: "js_text \<Rightarrow> js_text" where
  "stripBom s = (case s of [] \<Rightarrow> [] | c # cs \<Rightarrow> if c = 0xFEFF then cs else s)"

definition decodeUtf8 :: "bytes \<Rightarrow> js_text" where
  "decodeUtf8 bs = stripBom (utf8_run utf8_start (map unat bs))"

subsection \<open>Decoding undoes encoding\<close>

lemma mod_64_surrogates: "832 \<le> y \<Longrightarrow> y < 864 \<Longrightarrow> (y :: nat) mod 64 < 32"
proof -
  assume y: "832 \<le> y" "y < 864"
  have "((y - 832) + 64 * 13) mod 64 = (y - 832) mod 64" by (rule mod_mult_self2)
  moreover have "(y - 832) + 64 * 13 = y" using y by simp
  ultimately show ?thesis using y by simp
qed

lemma mod_64_plane16: "256 \<le> y \<Longrightarrow> y < 272 \<Longrightarrow> (y :: nat) mod 64 < 16"
proof -
  assume y: "256 \<le> y" "y < 272"
  have "((y - 256) + 64 * 4) mod 64 = (y - 256) mod 64" by (rule mod_mult_self2)
  moreover have "(y - 256) + 64 * 4 = y" using y by simp
  ultimately show ?thesis using y by simp
qed

lemma split_4096: "((c :: nat) div 4096 * 64 + c div 64 mod 64) * 64 + c mod 64 = c"
proof -
  have "c div 4096 = c div 64 div 64" by (simp only: div_mult2_eq [symmetric]) simp
  then show ?thesis by (simp only: div_mult_mod_eq)
qed

lemma split_262144:
  "(((c :: nat) div 262144 * 64 + c div 4096 mod 64) * 64 + c div 64 mod 64) * 64 + c mod 64 = c"
proof -
  have "c div 262144 = c div 4096 div 64" by (simp only: div_mult2_eq [symmetric]) simp
  then show ?thesis by (simp only: div_mult_mod_eq split_4096)
qed

text \<open>One sequence of each length, from its bit groups.\<close>

lemma utf8_run_two:
  assumes "2 \<le> a" "a < 32" "b < 64"
  shows "utf8_run utf8_start ((0xC0 + a) # (0x80 + b) # bs) = (a * 64 + b) # utf8_run utf8_start bs"
  using assms by (simp add: utf8_byte_def utf8_lead_def utf8_start_def Let_def)

lemma utf8_run_three:
  assumes "a < 16" "b < 64" "d < 64" "a = 0 \<longrightarrow> 32 \<le> b" "a = 13 \<longrightarrow> b < 32"
  shows "utf8_run utf8_start ((0xE0 + a) # (0x80 + b) # (0x80 + d) # bs)
    = ((a * 64 + b) * 64 + d) # utf8_run utf8_start bs"
  using assms by (auto simp: utf8_byte_def utf8_lead_def utf8_start_def Let_def)

lemma utf8_run_four:
  assumes "a < 5" "b < 64" "d < 64" "e < 64" "a = 0 \<longrightarrow> 16 \<le> b" "a = 4 \<longrightarrow> b < 16"
  shows "utf8_run utf8_start ((0xF0 + a) # (0x80 + b) # (0x80 + d) # (0x80 + e) # bs)
    = (((a * 64 + b) * 64 + d) * 64 + e) # utf8_run utf8_start bs"
  using assms by (auto simp: utf8_byte_def utf8_lead_def utf8_start_def Let_def)

lemma three_groups:
  assumes "scalar_ok c" "0x800 \<le> c" "c < 0x10000"
  shows "c div 4096 < 16" "c div 4096 = 0 \<longrightarrow> 32 \<le> c div 64 mod 64"
    "c div 4096 = 13 \<longrightarrow> c div 64 mod 64 < 32"
proof -
  show "c div 4096 < 16" using assms by simp
  show "c div 4096 = 0 \<longrightarrow> 32 \<le> c div 64 mod 64" using assms by auto
  show "c div 4096 = 13 \<longrightarrow> c div 64 mod 64 < 32"
  proof
    assume "c div 4096 = 13"
    then have "53248 \<le> c" "c < 0xE000" by auto
    with assms have "832 \<le> c div 64" "c div 64 < 864" by (auto simp: scalar_ok_def)
    then show "c div 64 mod 64 < 32" by (rule mod_64_surrogates)
  qed
qed

lemma four_groups:
  assumes "scalar_ok c" "0x10000 \<le> c"
  shows "c div 262144 < 5" "c div 262144 = 0 \<longrightarrow> 16 \<le> c div 4096 mod 64"
    "c div 262144 = 4 \<longrightarrow> c div 4096 mod 64 < 16"
proof -
  have lt: "c < 0x110000" using assms by (auto simp: scalar_ok_def)
  then show "c div 262144 < 5" by simp
  show "c div 262144 = 0 \<longrightarrow> 16 \<le> c div 4096 mod 64" using assms by auto
  show "c div 262144 = 4 \<longrightarrow> c div 4096 mod 64 < 16"
  proof
    assume "c div 262144 = 4"
    then have "256 \<le> c div 4096" "c div 4096 < 272" using lt by auto
    then show "c div 4096 mod 64 < 16" by (rule mod_64_plane16)
  qed
qed

lemma utf8_run_scalar:
  assumes "scalar_ok c"
  shows "utf8_run utf8_start (encodeScalar c @ bs) = c # utf8_run utf8_start bs"
proof -
  consider (one) "c < 0x80" | (two) "0x80 \<le> c" "c < 0x800"
    | (three) "0x800 \<le> c" "c < 0x10000" | (four) "0x10000 \<le> c" by linarith
  then show ?thesis
  proof cases
    case one
    then show ?thesis by (simp add: encodeScalar_def utf8_byte_def utf8_lead_def utf8_start_def)
  next
    case two
    then have "2 \<le> c div 64" "c div 64 < 32" by auto
    from utf8_run_two [OF this, of "c mod 64"] two show ?thesis by (simp add: encodeScalar_def)
  next
    case three
    have "c div 64 mod 64 < 64" "c mod 64 < 64" by simp_all
    from utf8_run_three [OF three_groups(1) [OF assms three] this three_groups(2,3) [OF assms three],
        unfolded split_4096] three
    show ?thesis by (simp add: encodeScalar_def)
  next
    case four
    have "c div 4096 mod 64 < 64" "c div 64 mod 64 < 64" "c mod 64 < 64" by simp_all
    from utf8_run_four [OF four_groups(1) [OF assms four] this four_groups(2,3) [OF assms four],
        unfolded split_262144] four
    show ?thesis by (simp add: encodeScalar_def)
  qed
qed

lemma utf8_run_encode:
  "list_all scalar_ok s \<Longrightarrow> utf8_run utf8_start (concat (map encodeScalar s)) = s"
  by (induction s) (simp_all add: utf8_run_scalar utf8_start_def [THEN arg_cong [of _ _ needed]])

lemma encodeScalar_bytes: "scalar_ok c \<Longrightarrow> \<forall>b\<in>set (encodeScalar c). b < 256"
  by (auto simp: encodeScalar_def scalar_ok_def)

lemma encodeScalar_nonzero: "c \<noteq> 0 \<Longrightarrow> 0 \<notin> set (encodeScalar c)"
  by (auto simp: encodeScalar_def)

lemma encodeUtf8_unat:
  assumes "list_all scalar_ok s"
  shows "map unat (encodeUtf8 s) = concat (map encodeScalar s)"
proof -
  have "\<forall>b\<in>set (concat (map encodeScalar s)). b < 256"
    using assms encodeScalar_bytes by (auto simp: list_all_iff)
  then have "map (unat \<circ> (of_nat :: nat \<Rightarrow> byte)) (concat (map encodeScalar s))
      = concat (map encodeScalar s)"
    by (intro map_idI) (auto simp: unat_of_nat)
  then show ?thesis by (simp only: encodeUtf8_def map_map)
qed

text \<open>A string the decoder gives back: scalar values, no leading byte-order mark.\<close>

definition text_ok :: "js_text \<Rightarrow> bool" where
  "text_ok s \<longleftrightarrow> list_all scalar_ok s \<and> (s \<noteq> [] \<longrightarrow> hd s \<noteq> 0xFEFF)"

theorem decodeUtf8_encodeUtf8: "text_ok s \<Longrightarrow> decodeUtf8 (encodeUtf8 s) = s"
  by (auto simp: decodeUtf8_def encodeUtf8_unat utf8_run_encode text_ok_def stripBom_def
      split: list.splits)

subsection \<open>trim\<close>

definition jsSpace :: "nat \<Rightarrow> bool" where
  "jsSpace c \<longleftrightarrow> (9 \<le> c \<and> c \<le> 13) \<or> c = 32 \<or> c = 160 \<or> c = 0x1680 \<or> (0x2000 \<le> c \<and> c \<le> 0x200A)
     \<or> c = 0x2028 \<or> c = 0x2029 \<or> c = 0x202F \<or> c = 0x205F \<or> c = 0x3000 \<or> c = 0xFEFF"

definition jsTrim :: "js_text \<Rightarrow> js_text" where
  "jsTrim s = rev (dropWhile jsSpace (rev (dropWhile jsSpace s)))"

subsection \<open>split\<close>

text \<open>\<open>s.split(c)\<close>, with the separators as a predicate.\<close>

fun splitWhere :: "(nat \<Rightarrow> bool) \<Rightarrow> js_text \<Rightarrow> js_text list" where
  "splitWhere sep [] = [[]]"
| "splitWhere sep (c # cs) =
     (if sep c then [] # splitWhere sep cs
      else (case splitWhere sep cs of [] \<Rightarrow> [[c]] | t # ts \<Rightarrow> (c # t) # ts))"

lemma splitWhere_piece:
  "\<forall>c\<in>set l. \<not> sep c \<Longrightarrow> sep s \<Longrightarrow> splitWhere sep (l @ s # cs) = l # splitWhere sep cs"
  by (induction l) auto

lemma splitWhere_none: "\<forall>c\<in>set l. \<not> sep c \<Longrightarrow> splitWhere sep l = [l]"
  by (induction l) auto

subsection \<open>Template strings\<close>

text \<open>A literal, and a number as \<open>${n}\<close> prints it.\<close>

definition textOf :: "string \<Rightarrow> js_text" where
  "textOf s = map of_char s"

fun decimal :: "nat \<Rightarrow> js_text" where
  "decimal n = (if n < 10 then [48 + n] else decimal (n div 10) @ [48 + n mod 10])"

declare decimal.simps [simp del]

end
