(* ===== verification/Mav_Messages.thy ===== *)
theory Mav_Messages
  imports Js_Text
begin

text \<open>
  The message types of \<open>packages/protocol-mavlink/src/messages.ts\<close>: one record per interface
  (the \<open>type\<close> tag is the constructor of \<open>mavlink_message\<close>), the envelope, and the message
  the generic codec produces. A number field is an \<open>int\<close>, a number that is stored as a
  binary32 is an \<open>f32\<close>, a \<open>bigint\<close> is an \<open>int\<close>, a string is a list of Unicode scalar values.
\<close>

record heartbeat =
  autopilot :: int
  vehicleType :: int
  baseMode :: int
  customMode :: int
  systemStatus :: int
  mavlinkVersion :: int

record param_value =
  paramId :: js_text
  paramValue :: f32
  paramType :: int
  paramCount :: int
  paramIndex :: int

record status_text =
  severity :: int
  "text" :: js_text
  statusId :: int
  chunkSequence :: int

record rc_channels =
  timeBootMs :: int
  channelCount :: int
  channels :: "int list"
  rssi :: int

record rc_channels_raw =
  timeBootMs :: int
  port :: int
  channels :: "int list"
  rssi :: int

record servo_output_raw =
  timeUsec :: int
  port :: int
  servos :: "int list"

record sys_status =
  sensorsPresent :: int
  sensorsEnabled :: int
  sensorsHealth :: int
  load :: int
  voltageBatteryMv :: int
  currentBatteryCa :: int
  batteryRemaining :: int
  dropRateComm :: int
  errorsComm :: int
  errorsCount1 :: int
  errorsCount2 :: int
  errorsCount3 :: int
  errorsCount4 :: int
  sensorsPresentExtended :: int
  sensorsEnabledExtended :: int
  sensorsHealthExtended :: int

record gps_raw_int =
  timeUsec :: int
  fixType :: int
  latitudeE7 :: int
  longitudeE7 :: int
  altitudeMm :: int
  eph :: int
  epv :: int
  vel :: int
  cog :: int
  satellitesVisible :: int

record global_position_int =
  timeBootMs :: int
  latitudeE7 :: int
  longitudeE7 :: int
  altitudeMm :: int
  relativeAltitudeMm :: int
  velocityXcms :: int
  velocityYcms :: int
  velocityZcms :: int
  headingCdeg :: int

record accel_mg =
  x :: int
  y :: int
  z :: int

record scaled_imu =
  timeBootMs :: int
  accelMg :: accel_mg
  temperatureCdeg :: int

record attitude =
  timeBootMs :: int
  rollRad :: f32
  pitchRad :: f32
  yawRad :: f32
  rollSpeedRadS :: f32
  pitchSpeedRadS :: f32
  yawSpeedRadS :: f32

record attitude_quaternion =
  timeBootMs :: int
  qw :: f32
  qx :: f32
  qy :: f32
  qz :: f32
  rollSpeedRadS :: f32
  pitchSpeedRadS :: f32
  yawSpeedRadS :: f32

record file_transfer_protocol =
  targetNetwork :: int
  targetSystem :: int
  targetComponent :: int
  payload :: bytes

record param_request_list =
  targetSystem :: int
  targetComponent :: int

record param_request_read =
  targetSystem :: int
  targetComponent :: int
  paramId :: js_text
  paramIndex :: int

record param_set =
  targetSystem :: int
  targetComponent :: int
  paramId :: js_text
  paramValue :: f32
  paramType :: int

record command_ack =
  command :: int
  result :: int
  progress :: int
  resultParam2 :: int
  targetSystem :: int
  targetComponent :: int

record command_long =
  command :: int
  targetSystem :: int
  targetComponent :: int
  confirmation :: int
  params :: "f32 list"

record gps_input =
  gpsId :: int
  ignoreFlags :: int
  fixType :: int
  latitudeE7 :: int
  longitudeE7 :: int
  altitudeM :: f32
  hdop :: f32
  vdop :: f32
  satellitesVisible :: int

record autopilot_version =
  capabilities :: int
  flightSwVersion :: int
  middlewareSwVersion :: int
  osSwVersion :: int
  boardVersion :: int
  flightCustomVersion :: bytes
  middlewareCustomVersion :: bytes
  osCustomVersion :: bytes
  vendorId :: int
  productId :: int
  uid :: int
  uid2 :: "bytes option"

record log_request_list =
  targetSystem :: int
  targetComponent :: int
  start :: int
  "end" :: int

record log_entry =
  timeUtc :: int
  size :: int
  id :: int
  numLogs :: int
  lastLogNum :: int

record log_request_data =
  targetSystem :: int
  targetComponent :: int
  id :: int
  ofs :: int
  count :: int

record log_data =
  id :: int
  ofs :: int
  count :: int
  data :: bytes

record log_request_end =
  targetSystem :: int
  targetComponent :: int

record log_erase =
  targetSystem :: int
  targetComponent :: int

record mag_cal_progress =
  compassId :: int
  calMask :: int
  calStatus :: int
  attempt :: int
  completionPct :: int
  completionMask :: bytes
  directionX :: f32
  directionY :: f32
  directionZ :: f32

record mag_cal_report =
  compassId :: int
  calMask :: int
  calStatus :: int
  autosaved :: int
  fitness :: f32
  ofsX :: f32
  ofsY :: f32
  ofsZ :: f32
  diagX :: f32
  diagY :: f32
  diagZ :: f32
  offdiagX :: f32
  offdiagY :: f32
  offdiagZ :: f32
  orientationConfidence :: f32
  oldOrientation :: int
  newOrientation :: int
  scaleFactor :: f32

record optical_flow =
  timeUsec :: int
  sensorId :: int
  flowX :: int
  flowY :: int
  flowCompMx :: f32
  flowCompMy :: f32
  groundDistance :: f32
  quality :: int
  flowRateX :: f32
  flowRateY :: f32

record distance_sensor =
  timeBootMs :: int
  minDistanceCm :: int
  maxDistanceCm :: int
  currentDistanceCm :: int
  sensorType :: int
  id :: int
  orientation :: int
  covariance :: int
  horizontalFov :: f32
  verticalFov :: f32
  signalQuality :: int

record available_mode =
  numberModes :: int
  modeIndex :: int
  standardMode :: int
  customMode :: int
  properties :: int
  name :: js_text

record available_modes_monitor =
  sequence :: int

record esc_telemetry =
  groupStartIndex :: int
  temperatureC :: "int list"
  voltageCv :: "int list"
  currentCa :: "int list"
  totalCurrentMah :: "int list"
  rpm :: "int list"
  count :: "int list"

record uavcan_node_status =
  timeUsec :: int
  uptimeSec :: int
  health :: int
  mode :: int
  subMode :: int
  vendorSpecificStatusCode :: int

record uavcan_node_info =
  timeUsec :: int
  uptimeSec :: int
  name :: js_text
  hwVersionMajor :: int
  hwVersionMinor :: int
  hwUniqueId :: bytes
  swVersionMajor :: int
  swVersionMinor :: int
  swVcsCommit :: int

record can_fd_frame =
  targetSystem :: int
  targetComponent :: int
  bus :: int
  len :: int
  id :: int
  data :: bytes

record can_frame =
  targetSystem :: int
  targetComponent :: int
  bus :: int
  len :: int
  id :: int
  data :: bytes

record setup_signing =
  targetSystem :: int
  targetComponent :: int
  secretKey :: bytes
  initialTimestamp :: int

text \<open>The generic message (\<open>mavlink-generic.ts\<close>): field values by name, in table order.\<close>

datatype generic_number = NInt int | NFloat f32 | NDouble "64 word"

datatype generic_value = GNumber generic_number | GNumbers "generic_number list" | GText js_text

record generic_message =
  name :: string
  messageId :: int
  fieldValues :: "(string \<times> generic_value) list"

datatype (plugins only: code size) mavlink_message =
    HEARTBEAT heartbeat
  | PARAM_VALUE param_value
  | STATUSTEXT status_text
  | RC_CHANNELS rc_channels
  | RC_CHANNELS_RAW rc_channels_raw
  | SERVO_OUTPUT_RAW servo_output_raw
  | SYS_STATUS sys_status
  | GPS_RAW_INT gps_raw_int
  | GLOBAL_POSITION_INT global_position_int
  | SCALED_IMU scaled_imu
  | ATTITUDE attitude
  | ATTITUDE_QUATERNION attitude_quaternion
  | FILE_TRANSFER_PROTOCOL file_transfer_protocol
  | PARAM_REQUEST_LIST param_request_list
  | PARAM_REQUEST_READ param_request_read
  | PARAM_SET param_set
  | COMMAND_ACK command_ack
  | COMMAND_LONG command_long
  | GPS_INPUT gps_input
  | AUTOPILOT_VERSION autopilot_version
  | LOG_REQUEST_LIST log_request_list
  | LOG_ENTRY log_entry
  | LOG_REQUEST_DATA log_request_data
  | LOG_DATA log_data
  | LOG_REQUEST_END log_request_end
  | LOG_ERASE log_erase
  | MAG_CAL_PROGRESS mag_cal_progress
  | MAG_CAL_REPORT mag_cal_report
  | OPTICAL_FLOW optical_flow
  | DISTANCE_SENSOR distance_sensor
  | AVAILABLE_MODE available_mode
  | AVAILABLE_MODES_MONITOR available_modes_monitor
  | ESC_TELEMETRY esc_telemetry
  | UAVCAN_NODE_STATUS uavcan_node_status
  | UAVCAN_NODE_INFO uavcan_node_info
  | CANFD_FRAME can_fd_frame
  | CAN_FRAME can_frame
  | SETUP_SIGNING setup_signing
  | GENERIC generic_message

record mavlink_header =
  systemId :: int
  componentId :: int
  sequence :: int

record mavlink_envelope =
  header :: mavlink_header
  message :: mavlink_message
  timestampMs :: "int option"
  byteLength :: "nat option"

end
