(* ===== verification/Mav_Constants.thy ===== *)
theory Mav_Constants
  imports Prelude
begin

text \<open>
  The MAVLink tables of \<open>packages/protocol-mavlink/src/constants.ts\<close>: message ids, the
  \<open>crc_extra\<close> byte of each message, full and minimal payload lengths, the frame geometry.
  The object literals become functions of the key; a key a table does not list is \<open>None\<close>.
\<close>

definition MAVLINK_V2_STX :: byte where "MAVLINK_V2_STX = 0xFD"
definition MAVLINK_V2_HEADER_LENGTH :: nat where "MAVLINK_V2_HEADER_LENGTH = 10"
definition MAVLINK_V2_CHECKSUM_LENGTH :: nat where "MAVLINK_V2_CHECKSUM_LENGTH = 2"
definition MAVLINK_V2_SIGNATURE_LENGTH :: nat where "MAVLINK_V2_SIGNATURE_LENGTH = 13"
definition MAVLINK_V2_INCOMPAT_FLAG_SIGNED :: byte where "MAVLINK_V2_INCOMPAT_FLAG_SIGNED = 0x01"
definition MAVLINK_PROTOCOL_VERSION :: int where "MAVLINK_PROTOCOL_VERSION = 3"

lemmas frame_consts = MAVLINK_V2_STX_def MAVLINK_V2_HEADER_LENGTH_def
  MAVLINK_V2_CHECKSUM_LENGTH_def MAVLINK_V2_SIGNATURE_LENGTH_def
  MAVLINK_V2_INCOMPAT_FLAG_SIGNED_def MAVLINK_PROTOCOL_VERSION_def

text \<open>The keys of \<open>MAVLINK_MESSAGE_IDS\<close>.\<close>

datatype message_key =
    ID_HEARTBEAT | ID_SYS_STATUS | ID_OPTICAL_FLOW | ID_DISTANCE_SENSOR | ID_CAN_FRAME |
  ID_CANFD_FRAME | ID_GPS_RAW_INT | ID_GLOBAL_POSITION_INT | ID_PARAM_REQUEST_READ |
  ID_PARAM_REQUEST_LIST | ID_PARAM_VALUE | ID_PARAM_SET | ID_ATTITUDE |
  ID_ATTITUDE_QUATERNION | ID_SCALED_IMU | ID_RC_CHANNELS | ID_RC_CHANNELS_RAW |
  ID_SERVO_OUTPUT_RAW | ID_FILE_TRANSFER_PROTOCOL | ID_COMMAND_ACK | ID_COMMAND_LONG |
  ID_AUTOPILOT_VERSION | ID_STATUSTEXT | ID_LOG_REQUEST_LIST | ID_LOG_ENTRY |
  ID_LOG_REQUEST_DATA | ID_LOG_DATA | ID_LOG_REQUEST_END | ID_LOG_ERASE |
  ID_MAG_CAL_PROGRESS | ID_MAG_CAL_REPORT | ID_UAVCAN_NODE_STATUS | ID_UAVCAN_NODE_INFO |
  ID_SETUP_SIGNING | ID_GPS_INPUT | ID_ESC_TELEMETRY_1_TO_4 | ID_ESC_TELEMETRY_5_TO_8 |
  ID_ESC_TELEMETRY_9_TO_12 | ID_AVAILABLE_MODES | ID_AVAILABLE_MODES_MONITOR

primrec MAVLINK_MESSAGE_IDS :: "message_key \<Rightarrow> int" where
  "MAVLINK_MESSAGE_IDS ID_HEARTBEAT = 0"
| "MAVLINK_MESSAGE_IDS ID_SYS_STATUS = 1"
| "MAVLINK_MESSAGE_IDS ID_OPTICAL_FLOW = 100"
| "MAVLINK_MESSAGE_IDS ID_DISTANCE_SENSOR = 132"
| "MAVLINK_MESSAGE_IDS ID_CAN_FRAME = 386"
| "MAVLINK_MESSAGE_IDS ID_CANFD_FRAME = 387"
| "MAVLINK_MESSAGE_IDS ID_GPS_RAW_INT = 24"
| "MAVLINK_MESSAGE_IDS ID_GLOBAL_POSITION_INT = 33"
| "MAVLINK_MESSAGE_IDS ID_PARAM_REQUEST_READ = 20"
| "MAVLINK_MESSAGE_IDS ID_PARAM_REQUEST_LIST = 21"
| "MAVLINK_MESSAGE_IDS ID_PARAM_VALUE = 22"
| "MAVLINK_MESSAGE_IDS ID_PARAM_SET = 23"
| "MAVLINK_MESSAGE_IDS ID_ATTITUDE = 30"
| "MAVLINK_MESSAGE_IDS ID_ATTITUDE_QUATERNION = 31"
| "MAVLINK_MESSAGE_IDS ID_SCALED_IMU = 26"
| "MAVLINK_MESSAGE_IDS ID_RC_CHANNELS = 65"
| "MAVLINK_MESSAGE_IDS ID_RC_CHANNELS_RAW = 35"
| "MAVLINK_MESSAGE_IDS ID_SERVO_OUTPUT_RAW = 36"
| "MAVLINK_MESSAGE_IDS ID_FILE_TRANSFER_PROTOCOL = 110"
| "MAVLINK_MESSAGE_IDS ID_COMMAND_ACK = 77"
| "MAVLINK_MESSAGE_IDS ID_COMMAND_LONG = 76"
| "MAVLINK_MESSAGE_IDS ID_AUTOPILOT_VERSION = 148"
| "MAVLINK_MESSAGE_IDS ID_STATUSTEXT = 253"
| "MAVLINK_MESSAGE_IDS ID_LOG_REQUEST_LIST = 117"
| "MAVLINK_MESSAGE_IDS ID_LOG_ENTRY = 118"
| "MAVLINK_MESSAGE_IDS ID_LOG_REQUEST_DATA = 119"
| "MAVLINK_MESSAGE_IDS ID_LOG_DATA = 120"
| "MAVLINK_MESSAGE_IDS ID_LOG_REQUEST_END = 122"
| "MAVLINK_MESSAGE_IDS ID_LOG_ERASE = 121"
| "MAVLINK_MESSAGE_IDS ID_MAG_CAL_PROGRESS = 191"
| "MAVLINK_MESSAGE_IDS ID_MAG_CAL_REPORT = 192"
| "MAVLINK_MESSAGE_IDS ID_UAVCAN_NODE_STATUS = 310"
| "MAVLINK_MESSAGE_IDS ID_UAVCAN_NODE_INFO = 311"
| "MAVLINK_MESSAGE_IDS ID_SETUP_SIGNING = 256"
| "MAVLINK_MESSAGE_IDS ID_GPS_INPUT = 232"
| "MAVLINK_MESSAGE_IDS ID_ESC_TELEMETRY_1_TO_4 = 11030"
| "MAVLINK_MESSAGE_IDS ID_ESC_TELEMETRY_5_TO_8 = 11031"
| "MAVLINK_MESSAGE_IDS ID_ESC_TELEMETRY_9_TO_12 = 11032"
| "MAVLINK_MESSAGE_IDS ID_AVAILABLE_MODES = 435"
| "MAVLINK_MESSAGE_IDS ID_AVAILABLE_MODES_MONITOR = 437"

definition MAVLINK_MESSAGE_CRCS :: "int \<Rightarrow> int option" where
  "MAVLINK_MESSAGE_CRCS = map_of (map (\<lambda>(k, v). (MAVLINK_MESSAGE_IDS k, v))
    [(ID_HEARTBEAT, 50), (ID_SYS_STATUS, 124), (ID_OPTICAL_FLOW, 175), (ID_DISTANCE_SENSOR, 85),
     (ID_CAN_FRAME, 132), (ID_CANFD_FRAME, 4), (ID_GPS_RAW_INT, 24), (ID_GLOBAL_POSITION_INT, 104),
     (ID_PARAM_REQUEST_READ, 214), (ID_PARAM_REQUEST_LIST, 159), (ID_PARAM_VALUE, 220),
     (ID_PARAM_SET, 168), (ID_ATTITUDE, 39), (ID_ATTITUDE_QUATERNION, 246), (ID_SCALED_IMU, 170),
     (ID_RC_CHANNELS, 118), (ID_RC_CHANNELS_RAW, 244), (ID_SERVO_OUTPUT_RAW, 222),
     (ID_FILE_TRANSFER_PROTOCOL, 84), (ID_COMMAND_ACK, 143), (ID_COMMAND_LONG, 152),
     (ID_AUTOPILOT_VERSION, 178), (ID_STATUSTEXT, 83), (ID_LOG_REQUEST_LIST, 128),
     (ID_LOG_ENTRY, 56), (ID_LOG_REQUEST_DATA, 116), (ID_LOG_DATA, 134), (ID_LOG_REQUEST_END, 203),
     (ID_LOG_ERASE, 237), (ID_MAG_CAL_PROGRESS, 92), (ID_MAG_CAL_REPORT, 36),
     (ID_UAVCAN_NODE_STATUS, 28), (ID_UAVCAN_NODE_INFO, 95), (ID_SETUP_SIGNING, 71),
     (ID_GPS_INPUT, 151), (ID_ESC_TELEMETRY_1_TO_4, 144), (ID_ESC_TELEMETRY_5_TO_8, 133),
     (ID_ESC_TELEMETRY_9_TO_12, 85), (ID_AVAILABLE_MODES, 134), (ID_AVAILABLE_MODES_MONITOR, 30)])"

definition MAVLINK_PAYLOAD_LENGTHS :: "int \<Rightarrow> nat option" where
  "MAVLINK_PAYLOAD_LENGTHS = map_of (map (\<lambda>(k, v). (MAVLINK_MESSAGE_IDS k, v))
    [(ID_HEARTBEAT, 9), (ID_SYS_STATUS, 43), (ID_OPTICAL_FLOW, 34), (ID_DISTANCE_SENSOR, 39),
     (ID_CAN_FRAME, 16), (ID_CANFD_FRAME, 72), (ID_GPS_RAW_INT, 30), (ID_GLOBAL_POSITION_INT, 28),
     (ID_PARAM_REQUEST_READ, 20), (ID_PARAM_REQUEST_LIST, 2), (ID_PARAM_VALUE, 25),
     (ID_PARAM_SET, 23), (ID_ATTITUDE, 28), (ID_ATTITUDE_QUATERNION, 32), (ID_SCALED_IMU, 24),
     (ID_RC_CHANNELS, 42), (ID_RC_CHANNELS_RAW, 22), (ID_SERVO_OUTPUT_RAW, 37),
     (ID_FILE_TRANSFER_PROTOCOL, 254), (ID_COMMAND_ACK, 10), (ID_COMMAND_LONG, 33),
     (ID_AUTOPILOT_VERSION, 78), (ID_STATUSTEXT, 54), (ID_LOG_REQUEST_LIST, 6), (ID_LOG_ENTRY, 14),
     (ID_LOG_REQUEST_DATA, 12), (ID_LOG_DATA, 97), (ID_LOG_REQUEST_END, 2), (ID_LOG_ERASE, 2),
     (ID_MAG_CAL_PROGRESS, 27), (ID_MAG_CAL_REPORT, 54), (ID_UAVCAN_NODE_STATUS, 17),
     (ID_UAVCAN_NODE_INFO, 116), (ID_SETUP_SIGNING, 42), (ID_GPS_INPUT, 63),
     (ID_ESC_TELEMETRY_1_TO_4, 44), (ID_ESC_TELEMETRY_5_TO_8, 44), (ID_ESC_TELEMETRY_9_TO_12, 44),
     (ID_AVAILABLE_MODES, 46), (ID_AVAILABLE_MODES_MONITOR, 1)])"

definition MAVLINK_MIN_PAYLOAD_LENGTHS :: "int \<Rightarrow> nat option" where
  "MAVLINK_MIN_PAYLOAD_LENGTHS = map_of (map (\<lambda>(k, v). (MAVLINK_MESSAGE_IDS k, v))
    [(ID_HEARTBEAT, 9), (ID_SYS_STATUS, 31), (ID_OPTICAL_FLOW, 26), (ID_DISTANCE_SENSOR, 14),
     (ID_CAN_FRAME, 16), (ID_CANFD_FRAME, 72), (ID_GLOBAL_POSITION_INT, 28),
     (ID_PARAM_REQUEST_READ, 20), (ID_PARAM_REQUEST_LIST, 2), (ID_PARAM_VALUE, 25),
     (ID_PARAM_SET, 23), (ID_ATTITUDE, 28), (ID_ATTITUDE_QUATERNION, 32), (ID_SCALED_IMU, 22),
     (ID_RC_CHANNELS, 42), (ID_RC_CHANNELS_RAW, 22), (ID_SERVO_OUTPUT_RAW, 21),
     (ID_FILE_TRANSFER_PROTOCOL, 254), (ID_COMMAND_ACK, 3), (ID_COMMAND_LONG, 33),
     (ID_AUTOPILOT_VERSION, 60), (ID_STATUSTEXT, 51), (ID_LOG_REQUEST_LIST, 6), (ID_LOG_ENTRY, 14),
     (ID_LOG_REQUEST_DATA, 12), (ID_LOG_DATA, 97), (ID_LOG_REQUEST_END, 2),
     (ID_MAG_CAL_PROGRESS, 27), (ID_MAG_CAL_REPORT, 44), (ID_UAVCAN_NODE_STATUS, 17),
     (ID_UAVCAN_NODE_INFO, 116), (ID_SETUP_SIGNING, 42), (ID_GPS_INPUT, 63),
     (ID_ESC_TELEMETRY_1_TO_4, 44), (ID_ESC_TELEMETRY_5_TO_8, 44), (ID_ESC_TELEMETRY_9_TO_12, 44),
     (ID_AVAILABLE_MODES, 46), (ID_AVAILABLE_MODES_MONITOR, 1)])"

text \<open>\<open>new Uint8Array(MAVLINK_PAYLOAD_LENGTHS[id])\<close>: a missing entry allocates nothing.\<close>

definition payloadLength :: "int \<Rightarrow> nat" where
  "payloadLength i = (case MAVLINK_PAYLOAD_LENGTHS i of None \<Rightarrow> 0 | Some n \<Rightarrow> n)"

definition minPayloadLength :: "int \<Rightarrow> nat" where
  "minPayloadLength i = (case MAVLINK_MIN_PAYLOAD_LENGTHS i of None \<Rightarrow> 0 | Some n \<Rightarrow> n)"

text \<open>The rows of the tables, evaluated once.\<close>

lemma payloadLength_simps [simp]:
  "payloadLength 0 = 9"
  "payloadLength 1 = 43"
  "payloadLength 100 = 34"
  "payloadLength 132 = 39"
  "payloadLength 386 = 16"
  "payloadLength 387 = 72"
  "payloadLength 24 = 30"
  "payloadLength 33 = 28"
  "payloadLength 20 = 20"
  "payloadLength 21 = 2"
  "payloadLength 22 = 25"
  "payloadLength 23 = 23"
  "payloadLength 30 = 28"
  "payloadLength 31 = 32"
  "payloadLength 26 = 24"
  "payloadLength 65 = 42"
  "payloadLength 35 = 22"
  "payloadLength 36 = 37"
  "payloadLength 110 = 254"
  "payloadLength 77 = 10"
  "payloadLength 76 = 33"
  "payloadLength 148 = 78"
  "payloadLength 253 = 54"
  "payloadLength 117 = 6"
  "payloadLength 118 = 14"
  "payloadLength 119 = 12"
  "payloadLength 120 = 97"
  "payloadLength 122 = 2"
  "payloadLength 121 = 2"
  "payloadLength 191 = 27"
  "payloadLength 192 = 54"
  "payloadLength 310 = 17"
  "payloadLength 311 = 116"
  "payloadLength 256 = 42"
  "payloadLength 232 = 63"
  "payloadLength 11030 = 44"
  "payloadLength 11031 = 44"
  "payloadLength 11032 = 44"
  "payloadLength 435 = 46"
  "payloadLength 437 = 1"
  by (simp_all add: payloadLength_def MAVLINK_PAYLOAD_LENGTHS_def)

lemma MAVLINK_PAYLOAD_LENGTHS_simps [simp]:
  "MAVLINK_PAYLOAD_LENGTHS 0 = Some 9"
  "MAVLINK_PAYLOAD_LENGTHS 1 = Some 43"
  "MAVLINK_PAYLOAD_LENGTHS 100 = Some 34"
  "MAVLINK_PAYLOAD_LENGTHS 132 = Some 39"
  "MAVLINK_PAYLOAD_LENGTHS 386 = Some 16"
  "MAVLINK_PAYLOAD_LENGTHS 387 = Some 72"
  "MAVLINK_PAYLOAD_LENGTHS 24 = Some 30"
  "MAVLINK_PAYLOAD_LENGTHS 33 = Some 28"
  "MAVLINK_PAYLOAD_LENGTHS 20 = Some 20"
  "MAVLINK_PAYLOAD_LENGTHS 21 = Some 2"
  "MAVLINK_PAYLOAD_LENGTHS 22 = Some 25"
  "MAVLINK_PAYLOAD_LENGTHS 23 = Some 23"
  "MAVLINK_PAYLOAD_LENGTHS 30 = Some 28"
  "MAVLINK_PAYLOAD_LENGTHS 31 = Some 32"
  "MAVLINK_PAYLOAD_LENGTHS 26 = Some 24"
  "MAVLINK_PAYLOAD_LENGTHS 65 = Some 42"
  "MAVLINK_PAYLOAD_LENGTHS 35 = Some 22"
  "MAVLINK_PAYLOAD_LENGTHS 36 = Some 37"
  "MAVLINK_PAYLOAD_LENGTHS 110 = Some 254"
  "MAVLINK_PAYLOAD_LENGTHS 77 = Some 10"
  "MAVLINK_PAYLOAD_LENGTHS 76 = Some 33"
  "MAVLINK_PAYLOAD_LENGTHS 148 = Some 78"
  "MAVLINK_PAYLOAD_LENGTHS 253 = Some 54"
  "MAVLINK_PAYLOAD_LENGTHS 117 = Some 6"
  "MAVLINK_PAYLOAD_LENGTHS 118 = Some 14"
  "MAVLINK_PAYLOAD_LENGTHS 119 = Some 12"
  "MAVLINK_PAYLOAD_LENGTHS 120 = Some 97"
  "MAVLINK_PAYLOAD_LENGTHS 122 = Some 2"
  "MAVLINK_PAYLOAD_LENGTHS 121 = Some 2"
  "MAVLINK_PAYLOAD_LENGTHS 191 = Some 27"
  "MAVLINK_PAYLOAD_LENGTHS 192 = Some 54"
  "MAVLINK_PAYLOAD_LENGTHS 310 = Some 17"
  "MAVLINK_PAYLOAD_LENGTHS 311 = Some 116"
  "MAVLINK_PAYLOAD_LENGTHS 256 = Some 42"
  "MAVLINK_PAYLOAD_LENGTHS 232 = Some 63"
  "MAVLINK_PAYLOAD_LENGTHS 11030 = Some 44"
  "MAVLINK_PAYLOAD_LENGTHS 11031 = Some 44"
  "MAVLINK_PAYLOAD_LENGTHS 11032 = Some 44"
  "MAVLINK_PAYLOAD_LENGTHS 435 = Some 46"
  "MAVLINK_PAYLOAD_LENGTHS 437 = Some 1"
  by (simp_all add: MAVLINK_PAYLOAD_LENGTHS_def)

lemma MAVLINK_MESSAGE_CRCS_simps [simp]:
  "MAVLINK_MESSAGE_CRCS 0 = Some 50"
  "MAVLINK_MESSAGE_CRCS 1 = Some 124"
  "MAVLINK_MESSAGE_CRCS 100 = Some 175"
  "MAVLINK_MESSAGE_CRCS 132 = Some 85"
  "MAVLINK_MESSAGE_CRCS 386 = Some 132"
  "MAVLINK_MESSAGE_CRCS 387 = Some 4"
  "MAVLINK_MESSAGE_CRCS 24 = Some 24"
  "MAVLINK_MESSAGE_CRCS 33 = Some 104"
  "MAVLINK_MESSAGE_CRCS 20 = Some 214"
  "MAVLINK_MESSAGE_CRCS 21 = Some 159"
  "MAVLINK_MESSAGE_CRCS 22 = Some 220"
  "MAVLINK_MESSAGE_CRCS 23 = Some 168"
  "MAVLINK_MESSAGE_CRCS 30 = Some 39"
  "MAVLINK_MESSAGE_CRCS 31 = Some 246"
  "MAVLINK_MESSAGE_CRCS 26 = Some 170"
  "MAVLINK_MESSAGE_CRCS 65 = Some 118"
  "MAVLINK_MESSAGE_CRCS 35 = Some 244"
  "MAVLINK_MESSAGE_CRCS 36 = Some 222"
  "MAVLINK_MESSAGE_CRCS 110 = Some 84"
  "MAVLINK_MESSAGE_CRCS 77 = Some 143"
  "MAVLINK_MESSAGE_CRCS 76 = Some 152"
  "MAVLINK_MESSAGE_CRCS 148 = Some 178"
  "MAVLINK_MESSAGE_CRCS 253 = Some 83"
  "MAVLINK_MESSAGE_CRCS 117 = Some 128"
  "MAVLINK_MESSAGE_CRCS 118 = Some 56"
  "MAVLINK_MESSAGE_CRCS 119 = Some 116"
  "MAVLINK_MESSAGE_CRCS 120 = Some 134"
  "MAVLINK_MESSAGE_CRCS 122 = Some 203"
  "MAVLINK_MESSAGE_CRCS 121 = Some 237"
  "MAVLINK_MESSAGE_CRCS 191 = Some 92"
  "MAVLINK_MESSAGE_CRCS 192 = Some 36"
  "MAVLINK_MESSAGE_CRCS 310 = Some 28"
  "MAVLINK_MESSAGE_CRCS 311 = Some 95"
  "MAVLINK_MESSAGE_CRCS 256 = Some 71"
  "MAVLINK_MESSAGE_CRCS 232 = Some 151"
  "MAVLINK_MESSAGE_CRCS 11030 = Some 144"
  "MAVLINK_MESSAGE_CRCS 11031 = Some 133"
  "MAVLINK_MESSAGE_CRCS 11032 = Some 85"
  "MAVLINK_MESSAGE_CRCS 435 = Some 134"
  "MAVLINK_MESSAGE_CRCS 437 = Some 30"
  by (simp_all add: MAVLINK_MESSAGE_CRCS_def)

lemma MAVLINK_MESSAGE_CRCS_range: "MAVLINK_MESSAGE_CRCS i = Some c \<Longrightarrow> 0 \<le> c \<and> c < 256"
  by (auto simp: MAVLINK_MESSAGE_CRCS_def split: if_splits)

text \<open>Every message with a \<open>crc_extra\<close> has a full payload length, of at least one byte and at most 254.\<close>

lemma crc_rows_have_lengths:
  "MAVLINK_MESSAGE_CRCS i = Some c \<Longrightarrow> \<exists>n. MAVLINK_PAYLOAD_LENGTHS i = Some n \<and> 1 \<le> n \<and> n \<le> 254"
  by (auto simp: MAVLINK_MESSAGE_CRCS_def MAVLINK_PAYLOAD_LENGTHS_def split: if_splits)

end
