(* ===== verification/Mav_Fields.thy ===== *)
theory Mav_Fields
  imports Mav_Messages Mav_Constants
begin

text \<open>
  The field helpers of \<open>mavlink-v2-codec.ts\<close>: fixed-width strings and byte arrays, the
  element loops over channel and parameter arrays, and the laws that evaluate a payload read
  after the writes of an encoder.
\<close>

subsection \<open>Helpers of the codec\<close>

definition encodeFixedString :: "js_text \<Rightarrow> nat \<Rightarrow> bytes" where
  "encodeFixedString s n = put 0 (slice 0 n (encodeUtf8 s)) (newBytes n)"

definition decodeFixedString :: "bytes \<Rightarrow> js_text" where
  "decodeFixedString bs = decodeUtf8 (takeWhile (\<lambda>b. b \<noteq> 0) bs)"

definition copyFixedBytes :: "bytes \<Rightarrow> nat \<Rightarrow> bytes" where
  "copyFixedBytes bs n = put 0 (slice 0 n bs) (newBytes n)"

text \<open>\<open>x >>> 0\<close>, and \<open>xs[i] ?? d\<close>.\<close>

definition toUint32 :: "int \<Rightarrow> int" where
  "toUint32 v = v mod 2 ^ 32"

definition nthOr :: "'a \<Rightarrow> 'a list \<Rightarrow> nat \<Rightarrow> 'a" where
  "nthOr d xs i = (if i < length xs then xs ! i else d)"

text \<open>The loops that set or get one element per index.\<close>

fun forSet :: "(nat \<Rightarrow> 'v \<Rightarrow> bytes \<Rightarrow> bytes option) \<Rightarrow> (nat \<Rightarrow> nat) \<Rightarrow> (nat \<Rightarrow> 'v) \<Rightarrow> nat list \<Rightarrow>
    bytes \<Rightarrow> bytes option" where
  "forSet setter off v [] p = Some p"
| "forSet setter off v (i # is) p = do { p \<leftarrow> setter (off i) (v i) p; forSet setter off v is p }"

fun forGet :: "(nat \<Rightarrow> bytes \<Rightarrow> 'v option) \<Rightarrow> (nat \<Rightarrow> nat) \<Rightarrow> nat list \<Rightarrow> bytes \<Rightarrow> 'v list option" where
  "forGet getter off [] p = Some []"
| "forGet getter off (i # is) p =
     do { x \<leftarrow> getter (off i) p; xs \<leftarrow> forGet getter off is p; Some (x # xs) }"

subsection \<open>Value ranges\<close>

definition u53_ok :: "int \<Rightarrow> bool" where
  "u53_ok v \<longleftrightarrow> 0 \<le> v \<and> v < 2 ^ 53"

text \<open>A string that survives a field of \<open>n\<close> bytes.\<close>

definition text_fits :: "nat \<Rightarrow> js_text \<Rightarrow> bool" where
  "text_fits n s \<longleftrightarrow> text_ok s \<and> 0 \<notin> set s \<and> length (encodeUtf8 s) \<le> n"

lemma u53_u64: "u53_ok v \<Longrightarrow> u64_ok v"
  by (simp add: u53_ok_def u64_ok_def)

lemma numberOfBigint_u53 [wire]: "u53_ok v \<Longrightarrow> numberOfBigint v = v"
  by (simp add: u53_ok_def numberOfBigint_exact)

lemma le_val_u53 [wire]: "u53_ok v \<Longrightarrow> le_val (le_bytes 8 v) = v"
  by (simp add: le_val_u64 u53_u64)

lemma max_0_u53 [wire]: "u53_ok v \<Longrightarrow> max 0 v = v"
  by (simp add: u53_ok_def)

lemma mask_u8 [wire]: "u8_ok v \<Longrightarrow> v AND 0xFF = v"
  using take_bit_eq_mask [of 8 v] by (simp add: u8_ok_def mask_eq_exp_minus_1 take_bit_int_eq_self)

lemma toUint32_u32 [wire]: "u32_ok v \<Longrightarrow> toUint32 v = v"
  by (simp add: toUint32_def u32_ok_def)

lemma uint_word_of_int_u8 [wire]: "u8_ok v \<Longrightarrow> uint (word_of_int v :: byte) = v"
  by (simp add: u8_ok_def uint_word_of_int)

lemma le_val_single [wire]: "u8_ok v \<Longrightarrow> le_val [word_of_int v] = v"
  by (simp add: uint_word_of_int_u8)

lemma le_signed_single [wire]: "i8_ok v \<Longrightarrow> le_signed [word_of_int v] = v"
  using le_signed_i8 [of v] by simp

lemma put_append_zeros:
  "off + length bs \<le> length p \<Longrightarrow> put off bs p @ zs = put off bs (p @ zs)"
  by (simp add: put_def)

lemma newBytes_append_zeros: "newBytes a @ replicate b 0 = newBytes (a + b)"
  by (simp add: newBytes_def replicate_add)

lemma u8_ok_uint: "u8_ok (uint (b :: byte))"
  using uint_byte_range [of b] by (simp add: u8_ok_def)

subsection \<open>Fixed-width fields\<close>

lemma length_encodeFixedString [simp, wire]: "length (encodeFixedString s n) = n"
  by (simp add: encodeFixedString_def put_def)

lemma length_copyFixedBytes [simp, wire]: "length (copyFixedBytes bs n) = n"
  by (simp add: copyFixedBytes_def put_def)

lemma copyFixedBytes_exact [wire]: "length bs = n \<Longrightarrow> copyFixedBytes bs n = bs"
  by (simp add: copyFixedBytes_def put_def slice_def)

lemma slice_exact [wire]: "length bs = n \<Longrightarrow> slice 0 n bs = bs"
  by (simp add: slice_def)

lemma getBytes_exact [wire]: "length bs = n \<Longrightarrow> getBytes 0 n bs = Some bs"
  by (simp add: getBytes_def)

lemma encodeUtf8_nonzero:
  assumes "list_all scalar_ok s" and "0 \<notin> set s"
  shows "0 \<notin> set (encodeUtf8 s)"
proof
  assume "0 \<in> set (encodeUtf8 s)"
  then have "unat (0 :: byte) \<in> set (map unat (encodeUtf8 s))" unfolding set_map by (rule imageI)
  then have "0 \<in> set (map unat (encodeUtf8 s))" by simp
  then have "0 \<in> set (concat (map encodeScalar s))" by (simp only: encodeUtf8_unat [OF assms(1)])
  then obtain c where "c \<in> set s" and "0 \<in> set (encodeScalar c)" by auto
  then have "c = 0" using encodeScalar_nonzero by blast
  with \<open>c \<in> set s\<close> assms(2) show False by simp
qed

lemma decode_encodeFixedString [wire]:
  assumes "text_fits n s"
  shows "decodeFixedString (encodeFixedString s n) = s"
proof -
  from assms have s: "text_ok s" "0 \<notin> set (encodeUtf8 s)" "length (encodeUtf8 s) \<le> n"
    by (auto simp: text_fits_def text_ok_def dest: encodeUtf8_nonzero)
  then have "encodeFixedString s n = encodeUtf8 s @ replicate (n - length (encodeUtf8 s)) 0"
    by (simp add: encodeFixedString_def put_def slice_def newBytes_def)
  moreover have "takeWhile (\<lambda>b. b \<noteq> 0) (encodeUtf8 s @ replicate k 0) = encodeUtf8 s" for k
  proof -
    have "\<And>b. b \<in> set (encodeUtf8 s) \<Longrightarrow> b \<noteq> 0" using s(2) by metis
    then have "takeWhile (\<lambda>b. b \<noteq> 0) (encodeUtf8 s @ replicate k 0)
        = encodeUtf8 s @ takeWhile (\<lambda>b. b \<noteq> 0) (replicate k 0)" by (rule takeWhile_append2)
    then show ?thesis by (cases k) simp_all
  qed
  ultimately show ?thesis using s(1) by (simp add: decodeFixedString_def decodeUtf8_encodeUtf8)
qed

subsection \<open>Loops over adjacent elements\<close>

lemma put_adjacent:
  assumes "off + length xs + length ys \<le> length p"
  shows "put (off + length xs) ys (put off xs p) = put off (xs @ ys) p"
proof (cases "xs = []")
  case False
  then have "off < length p" using assms by (cases xs) auto
  with assms show ?thesis by (simp add: put_def add.assoc add.commute [of "length ys"] min_def)
next
  case True
  with assms show ?thesis by (auto simp: put_def)
qed

lemma put_nil [simp]: "put off [] p = p"
  by (simp add: put_def)

lemma forSet_append:
  "forSet s off v (is @ js) p = do { p \<leftarrow> forSet s off v is p; forSet s off v js p }"
  by (induction "is" arbitrary: p) (auto split: bind_splits)

lemma forGet_append:
  "forGet g off (is @ js) p =
     do { xs \<leftarrow> forGet g off is p; ys \<leftarrow> forGet g off js p; Some (xs @ ys) }"
  by (induction "is") (auto split: bind_splits)

lemma forSet_map: "forSet s off v (map f is) p = forSet s (off \<circ> f) (v \<circ> f) is p"
  by (induction "is" arbitrary: p) (auto split: bind_splits)

lemma forGet_map: "forGet g off (map f is) p = forGet g (off \<circ> f) is p"
  by (induction "is") (auto split: bind_splits)

lemma getBytes_sub:
  assumes "getBytes off m p = Some blk" and "k + n \<le> m"
  shows "getBytes (off + k) n p = Some (take n (drop k blk))"
  using assms by (auto simp: getBytes_def drop_take add.commute split: if_splits)

lemma length_concat_map: "(\<And>x. length (f x) = w) \<Longrightarrow> length (concat (map f xs)) = length xs * w"
  by (induction xs) auto

lemma map_nthOr: "length xs = n \<Longrightarrow> map (nthOr d xs) [0..<n] = xs"
  by (intro nth_equalityI) (auto simp: nthOr_def)

context view_field begin

lemma forSet_block:
  "off + n * width \<le> length p \<Longrightarrow>
   forSet (\<lambda>o1 x. setBytes o1 (enc x)) (\<lambda>i. off + i * width) v [0..<n] p
     = Some (put off (concat (map (\<lambda>i. enc (v i)) [0..<n])) p)"
proof (induction n)
  case (Suc n)
  let ?blk = "concat (map (\<lambda>i. enc (v i)) [0..<n])"
  have len: "length ?blk = n * width" by (simp add: length_concat_map enc_length)
  have "put (off + length ?blk) (enc (v n)) (put off ?blk p) = put off (?blk @ enc (v n)) p"
    using Suc.prems len by (intro put_adjacent) (simp add: enc_length)
  with Suc len show ?case
    by (simp add: forSet_append setBytes_def length_put enc_length)
qed simp

lemma forGet_block:
  assumes "getBytes off (n * width) p = Some (concat (map (\<lambda>i. enc (v i)) [0..<n]))"
    and "\<forall>i<n. ok (v i)"
  shows "forGet (\<lambda>o1 q. map_option dec (getBytes o1 width q)) (\<lambda>i. off + i * width) [0..<n] p
    = Some (map v [0..<n])"
proof -
  have get: "getBytes (off + i * width) width p = Some (enc (v i))" if "i < n" for i
  proof -
    have split: "[0..<n] = [0..<i] @ i # [Suc i..<n]"
      using that by (metis upt_add_eq_append upt_conv_Cons le0 less_imp_add_positive add_0 less_or_eq_imp_le)
    have "i * width + width \<le> n * width"
      using that by (metis Suc_leI add.commute mult_Suc mult_le_mono1)
    from getBytes_sub [OF assms(1) this] show ?thesis
      unfolding split by (simp add: length_concat_map enc_length)
  qed
  have "forGet (\<lambda>o1 q. map_option dec (getBytes o1 width q)) (\<lambda>i. off + i * width) [0..<m] p
      = Some (map v [0..<m])" if "m \<le> n" for m
    using that assms(2) get by (induction m) (auto simp: forGet_append dec_enc)
  then show ?thesis by simp
qed

end

subsection \<open>Array fields\<close>

text \<open>The blocks of bytes the element loops write, and what the loops read from them.\<close>

definition u8_block :: "(nat \<Rightarrow> int) \<Rightarrow> nat \<Rightarrow> bytes" where
  "u8_block v n = concat (map (\<lambda>i. le_bytes 1 (v i)) [0..<n])"

definition u16_block :: "(nat \<Rightarrow> int) \<Rightarrow> nat \<Rightarrow> bytes" where
  "u16_block v n = concat (map (\<lambda>i. le_bytes 2 (v i)) [0..<n])"

definition f32_block :: "(nat \<Rightarrow> f32) \<Rightarrow> nat \<Rightarrow> bytes" where
  "f32_block v n = concat (map (\<lambda>i. f32_bytes (v i)) [0..<n])"

lemma length_u8_block [simp, wire]: "length (u8_block v n) = n"
  by (simp add: u8_block_def length_concat_map)

lemma length_u16_block [simp, wire]: "length (u16_block v n) = n * 2"
  by (simp add: u16_block_def length_concat_map)

lemma length_f32_block [simp, wire]: "length (f32_block v n) = n * 4"
  by (simp add: f32_block_def length_concat_map)

lemma setter_forms:
  "setUint8 = (\<lambda>o1 x. setBytes o1 (le_bytes 1 x))"
  "setUint16 = (\<lambda>o1 x. setBytes o1 (le_bytes 2 x))"
  "setFloat32 = (\<lambda>o1 x. setBytes o1 (f32_bytes x))"
  by (simp_all add: fun_eq_iff setUint8_def setUint16_def setFloat32_def)

lemma getter_forms:
  "getUint8 = (\<lambda>o1 q. map_option le_val (getBytes o1 1 q))"
  "getUint16 = (\<lambda>o1 q. map_option le_val (getBytes o1 2 q))"
  "getFloat32 = (\<lambda>o1 q. map_option f32_of_bytes (getBytes o1 4 q))"
  by (simp_all add: fun_eq_iff getUint8_def getUint16_def getFloat32_def)

lemma forSet_u8 [wire]:
  "off + n \<le> length p \<Longrightarrow>
   forSet setUint8 (\<lambda>i. off + i) v [0..<n] p = Some (put off (u8_block v n) p)"
  using view_u8.forSet_block [of off n p v] by (simp add: setter_forms u8_block_def)

lemma forSet_u16 [wire]:
  "off + n * 2 \<le> length p \<Longrightarrow>
   forSet setUint16 (\<lambda>i. off + i * 2) v [0..<n] p = Some (put off (u16_block v n) p)"
  using view_u16.forSet_block [of off n p v] by (simp only: setter_forms u16_block_def)

lemma forSet_f32 [wire]:
  "off + n * 4 \<le> length p \<Longrightarrow>
   forSet setFloat32 (\<lambda>i. off + i * 4) v [0..<n] p = Some (put off (f32_block v n) p)"
  using view_f32.forSet_block [of off n p v] by (simp only: setter_forms f32_block_def)

lemma forGet_u8 [wire]:
  "getBytes off n p = Some (u8_block v n) \<Longrightarrow> \<forall>i<n. u8_ok (v i) \<Longrightarrow>
   forGet getUint8 (\<lambda>i. off + i) [0..<n] p = Some (map v [0..<n])"
  using view_u8.forGet_block [of off n p v] by (simp add: getter_forms u8_block_def)

lemma forGet_u16 [wire]:
  "getBytes off (n * 2) p = Some (u16_block v n) \<Longrightarrow> \<forall>i<n. u16_ok (v i) \<Longrightarrow>
   forGet getUint16 (\<lambda>i. off + i * 2) [0..<n] p = Some (map v [0..<n])"
  using view_u16.forGet_block [of off n p v] by (simp only: getter_forms u16_block_def)

lemma forGet_f32 [wire]:
  "getBytes off (n * 4) p = Some (f32_block v n) \<Longrightarrow> \<forall>i<n. f32_ok (v i) \<Longrightarrow>
   forGet getFloat32 (\<lambda>i. off + i * 4) [0..<n] p = Some (map v [0..<n])"
  using view_f32.forGet_block [of off n p v] by (simp only: getter_forms f32_block_def)

lemmas forSet_f32_0 [wire] = forSet_f32 [of 0, simplified]
lemmas forGet_f32_0 [wire] = forGet_f32 [of 0, simplified]
lemmas forSet_u16_0 [wire] = forSet_u16 [of 0, simplified]
lemmas forGet_u16_0 [wire] = forGet_u16 [of 0, simplified]

lemma forSet_u16_from [wire]:
  assumes "off + (m - k) * 2 \<le> length p" and "k \<le> m"
  shows "forSet setUint16 (\<lambda>i. off + (i - k) * 2) v [k..<m] p
    = Some (put off (u16_block (\<lambda>i. v (k + i)) (m - k)) p)"
proof -
  have "[k..<m] = map ((+) k) [0..<m - k]" using assms(2) by (intro nth_equalityI) auto
  then show ?thesis
    using forSet_u16 [OF assms(1), of "\<lambda>i. v (k + i)"] by (simp add: forSet_map comp_def)
qed

lemma nthOr_ok: "length xs = n \<Longrightarrow> list_all ok xs \<Longrightarrow> \<forall>i<n. ok (nthOr d xs i)"
  by (simp add: nthOr_def list_all_length)

lemma nth_all_ok: "length xs = n \<Longrightarrow> list_all ok xs \<Longrightarrow> \<forall>i<n. ok (xs ! i)"
  by (simp add: list_all_length)

lemma drop_getBytes: "k \<le> length p \<Longrightarrow> drop k p = the (getBytes k (length p - k) p)"
  by (simp add: getBytes_def)

lemma map_nth_exact: "length xs = n \<Longrightarrow> map ((!) xs) [0..<n] = xs"
  using map_nth [of xs] by simp

lemmas nthOr_ok_instances [wire] =
  nthOr_ok [where ok = u8_ok] nthOr_ok [where ok = u16_ok] nthOr_ok [where ok = f32_ok]
  nth_all_ok [where ok = f32_ok]

declare map_nthOr [wire] map_nth_exact [wire]

subsection \<open>Reads that succeed\<close>

lemma getBytes_present: "off + n \<le> length p \<Longrightarrow> \<exists>bs. getBytes off n p = Some bs"
  by (simp add: getBytes_def)

lemma view_get_present [present]:
  "off + 1 \<le> length p \<Longrightarrow> getUint8 off p = Some (le_val (the (getBytes off 1 p)))"
  "off + 1 \<le> length p \<Longrightarrow> getInt8 off p = Some (le_signed (the (getBytes off 1 p)))"
  "off + 2 \<le> length p \<Longrightarrow> getUint16 off p = Some (le_val (the (getBytes off 2 p)))"
  "off + 2 \<le> length p \<Longrightarrow> getInt16 off p = Some (le_signed (the (getBytes off 2 p)))"
  "off + 4 \<le> length p \<Longrightarrow> getUint32 off p = Some (le_val (the (getBytes off 4 p)))"
  "off + 4 \<le> length p \<Longrightarrow> getInt32 off p = Some (le_signed (the (getBytes off 4 p)))"
  "off + 8 \<le> length p \<Longrightarrow> getBigUint64 off p = Some (le_val (the (getBytes off 8 p)))"
  "off + 4 \<le> length p \<Longrightarrow> getFloat32 off p = Some (f32_of_bytes (the (getBytes off 4 p)))"
  by (simp_all add: view_get_defs getBytes_def)

lemma byteAt_present [present]: "i < length p \<Longrightarrow> byteAt i p = Some (uint (p ! i))"
  by (simp add: byteAt_def)

lemma setBytes_present [present]:
  "off + length bs \<le> length p \<Longrightarrow> setBytes off bs p = Some (put off bs p)"
  by (simp add: setBytes_def)

declare length_put_chain [present] length_after_inside [present] length_slice [present]
  length_newBytes [present]

lemma byteAt_present_first [present]: "2 \<le> length p \<Longrightarrow> byteAt 0 p = Some (uint (p ! 0))"
  by (cases p) (simp_all add: byteAt_def)

lemma forGet_present:
  "(\<And>i. i \<in> set is \<Longrightarrow> \<exists>x. g (off i) p = Some x) \<Longrightarrow>
   forGet g off is p = Some (map (\<lambda>i. the (g (off i) p)) is)"
  by (induction "is") fastforce+

lemma forGet_u8_present [present]:
  "off + n \<le> length p \<Longrightarrow>
   forGet getUint8 ((+) off) [0..<n] p = Some (map (\<lambda>i. the (getUint8 (off + i) p)) [0..<n])"
  by (rule forGet_present) (auto simp: getUint8_def getBytes_def)

lemma forGet_u16_present [present]:
  "off + n * 2 \<le> length p \<Longrightarrow>
   forGet getUint16 (\<lambda>i. off + i * 2) [0..<n] p
     = Some (map (\<lambda>i. the (getUint16 (off + i * 2) p)) [0..<n])"
  by (rule forGet_present) (auto simp: getUint16_def getBytes_def)

lemma forGet_f32_present [present]:
  "off + n * 4 \<le> length p \<Longrightarrow>
   forGet getFloat32 (\<lambda>i. off + i * 4) [0..<n] p
     = Some (map (\<lambda>i. the (getFloat32 (off + i * 4) p)) [0..<n])"
  by (rule forGet_present) (auto simp: getFloat32_def getBytes_def)

lemmas forGet_present_0 [present] =
  forGet_u16_present [of 0, simplified] forGet_f32_present [of 0, simplified]

end
