(* ===== verification/Mav_Payload_A.thy ===== *)
theory Mav_Payload_A
  imports Mav_Fields
begin

text \<open>
  The payload encoders and decoders of \<open>mavlink-v2-codec.ts\<close>, first part: heartbeat, status,
  position, attitude, parameter, RC, servo, command and file-transfer messages. Each message
  has its encoder, the value ranges its fields can carry, its decoder, and the lemma that
  decoding what was encoded gives the message back.
\<close>

subsection \<open>HEARTBEAT\<close>

definition encodeHeartbeatPayload :: "heartbeat \<Rightarrow> bytes option" where
  "encodeHeartbeatPayload m = do {
     let p = newBytes (payloadLength (MAVLINK_MESSAGE_IDS ID_HEARTBEAT));
     p \<leftarrow> setUint32 0 (heartbeat.customMode m) p;
     p \<leftarrow> setUint8 4 (heartbeat.vehicleType m) p;
     p \<leftarrow> setUint8 5 (heartbeat.autopilot m) p;
     p \<leftarrow> setUint8 6 (heartbeat.baseMode m) p;
     p \<leftarrow> setUint8 7 (heartbeat.systemStatus m) p;
     p \<leftarrow> setUint8 8 (if heartbeat.mavlinkVersion m = 0 then MAVLINK_PROTOCOL_VERSION else heartbeat.mavlinkVersion m) p;
     Some p }"

definition heartbeat_ok :: "heartbeat \<Rightarrow> bool" where
  "heartbeat_ok m \<longleftrightarrow>
     u32_ok (heartbeat.customMode m) \<and> u8_ok (heartbeat.vehicleType m) \<and>
     u8_ok (heartbeat.autopilot m) \<and> u8_ok (heartbeat.baseMode m) \<and>
     u8_ok (heartbeat.systemStatus m) \<and> u8_ok (heartbeat.mavlinkVersion m)"

definition decodeHeartbeatPayload :: "bytes \<Rightarrow> heartbeat option" where
  "decodeHeartbeatPayload p = do {
     customMode \<leftarrow> getUint32 0 p;
     vehicleType \<leftarrow> getUint8 4 p;
     autopilot \<leftarrow> getUint8 5 p;
     baseMode \<leftarrow> getUint8 6 p;
     systemStatus \<leftarrow> getUint8 7 p;
     mavlinkVersion \<leftarrow> getUint8 8 p;
     Some \<lparr>heartbeat.autopilot = autopilot, heartbeat.vehicleType = vehicleType,
       heartbeat.baseMode = baseMode, heartbeat.customMode = customMode,
       heartbeat.systemStatus = systemStatus, heartbeat.mavlinkVersion = mavlinkVersion\<rparr> }"

lemma heartbeat_roundtrip:
  assumes "heartbeat_ok m"
    and "heartbeat.mavlinkVersion m \<noteq> 0"
  shows "\<exists>p. encodeHeartbeatPayload m = Some p \<and> length p = 9 \<and> decodeHeartbeatPayload p = Some m"
  using assms
  by (cases m) (simp add: encodeHeartbeatPayload_def decodeHeartbeatPayload_def heartbeat_ok_def wire frame_consts Let_def)

lemma decodeHeartbeatPayload_total [total]:
  "9 \<le> length p \<Longrightarrow> \<exists>m. decodeHeartbeatPayload p = Some m"
  by (simp add: decodeHeartbeatPayload_def present)

subsection \<open>PARAM_VALUE\<close>

definition encodeParamValuePayload :: "param_value \<Rightarrow> bytes option" where
  "encodeParamValuePayload m = do {
     let p = newBytes (payloadLength (MAVLINK_MESSAGE_IDS ID_PARAM_VALUE));
     p \<leftarrow> setFloat32 0 (param_value.paramValue m) p;
     p \<leftarrow> setUint16 4 (param_value.paramCount m) p;
     p \<leftarrow> setUint16 6 (param_value.paramIndex m) p;
     p \<leftarrow> setBytes 8 (encodeFixedString (param_value.paramId m) 16) p;
     p \<leftarrow> setUint8 24 (param_value.paramType m) p;
     Some p }"

definition param_value_ok :: "param_value \<Rightarrow> bool" where
  "param_value_ok m \<longleftrightarrow>
     f32_ok (param_value.paramValue m) \<and> u16_ok (param_value.paramCount m) \<and>
     u16_ok (param_value.paramIndex m) \<and> text_fits 16 (param_value.paramId m) \<and>
     u8_ok (param_value.paramType m)"

definition decodeParamValuePayload :: "bytes \<Rightarrow> param_value option" where
  "decodeParamValuePayload p = do {
     paramValue \<leftarrow> getFloat32 0 p;
     paramCount \<leftarrow> getUint16 4 p;
     paramIndex \<leftarrow> getUint16 6 p;
     let paramId = decodeFixedString (slice 8 24 p);
     paramType \<leftarrow> getUint8 24 p;
     Some \<lparr>param_value.paramId = paramId, param_value.paramValue = paramValue,
       param_value.paramType = paramType, param_value.paramCount = paramCount,
       param_value.paramIndex = paramIndex\<rparr> }"

lemma param_value_roundtrip:
  assumes "param_value_ok m"
  shows "\<exists>p. encodeParamValuePayload m = Some p \<and> length p = 25 \<and> decodeParamValuePayload p = Some m"
  using assms
  by (cases m) (simp add: encodeParamValuePayload_def decodeParamValuePayload_def param_value_ok_def wire frame_consts Let_def)

lemma decodeParamValuePayload_total [total]:
  "25 \<le> length p \<Longrightarrow> \<exists>m. decodeParamValuePayload p = Some m"
  by (simp add: decodeParamValuePayload_def present)

subsection \<open>STATUSTEXT\<close>

definition encodeStatusTextPayload :: "status_text \<Rightarrow> bytes option" where
  "encodeStatusTextPayload m = do {
     let p = newBytes (payloadLength (MAVLINK_MESSAGE_IDS ID_STATUSTEXT));
     p \<leftarrow> setUint8 0 (status_text.severity m) p;
     p \<leftarrow> setBytes 1 (encodeFixedString (status_text.text m) 50) p;
     p \<leftarrow> setUint16 51 (status_text.statusId m) p;
     p \<leftarrow> setUint8 53 (status_text.chunkSequence m) p;
     Some p }"

definition status_text_ok :: "status_text \<Rightarrow> bool" where
  "status_text_ok m \<longleftrightarrow>
     u8_ok (status_text.severity m) \<and> text_fits 50 (status_text.text m) \<and>
     u16_ok (status_text.statusId m) \<and> u8_ok (status_text.chunkSequence m)"

definition decodeStatusTextPayload :: "bytes \<Rightarrow> status_text option" where
  "decodeStatusTextPayload p = do {
     severity \<leftarrow> getUint8 0 p;
     let text = decodeFixedString (slice 1 51 p);
     statusId \<leftarrow> (if length p \<ge> 53 then getUint16 51 p else Some 0);
     chunkSequence \<leftarrow> (if length p \<ge> 54 then getUint8 53 p else Some 0);
     Some \<lparr>status_text.severity = severity, status_text.text = text, status_text.statusId = statusId,
       status_text.chunkSequence = chunkSequence\<rparr> }"

lemma status_text_roundtrip:
  assumes "status_text_ok m"
  shows "\<exists>p. encodeStatusTextPayload m = Some p \<and> length p = 54 \<and> decodeStatusTextPayload p = Some m"
  using assms
  by (cases m) (simp add: encodeStatusTextPayload_def decodeStatusTextPayload_def status_text_ok_def wire frame_consts Let_def)

lemma decodeStatusTextPayload_total [total]:
  "54 \<le> length p \<Longrightarrow> \<exists>m. decodeStatusTextPayload p = Some m"
  by (simp add: decodeStatusTextPayload_def present)

subsection \<open>RC_CHANNELS\<close>

definition encodeRcChannelsPayload :: "rc_channels \<Rightarrow> bytes option" where
  "encodeRcChannelsPayload m = do {
     let p = newBytes (payloadLength (MAVLINK_MESSAGE_IDS ID_RC_CHANNELS));
     p \<leftarrow> setUint32 0 (rc_channels.timeBootMs m) p;
     p \<leftarrow> forSet setUint16 (\<lambda>i. 4 + i * 2) (nthOr 0xFFFF (rc_channels.channels m)) [0..<18] p;
     p \<leftarrow> setUint8 40 (rc_channels.channelCount m) p;
     p \<leftarrow> setUint8 41 (rc_channels.rssi m) p;
     Some p }"

definition rc_channels_ok :: "rc_channels \<Rightarrow> bool" where
  "rc_channels_ok m \<longleftrightarrow>
     u32_ok (rc_channels.timeBootMs m) \<and> length (rc_channels.channels m) = 18 \<and>
     list_all u16_ok (rc_channels.channels m) \<and> u8_ok (rc_channels.channelCount m) \<and>
     u8_ok (rc_channels.rssi m)"

definition decodeRcChannelsPayload :: "bytes \<Rightarrow> rc_channels option" where
  "decodeRcChannelsPayload p = do {
     channels \<leftarrow> forGet getUint16 (\<lambda>i. 4 + i * 2) [0..<18] p;
     timeBootMs \<leftarrow> getUint32 0 p;
     channelCount \<leftarrow> getUint8 40 p;
     rssi \<leftarrow> getUint8 41 p;
     Some \<lparr>rc_channels.timeBootMs = timeBootMs, rc_channels.channelCount = channelCount,
       rc_channels.channels = channels, rc_channels.rssi = rssi\<rparr> }"

lemma rc_channels_roundtrip:
  assumes "rc_channels_ok m"
  shows "\<exists>p. encodeRcChannelsPayload m = Some p \<and> length p = 42 \<and> decodeRcChannelsPayload p = Some m"
  using assms
  by (cases m) (simp add: encodeRcChannelsPayload_def decodeRcChannelsPayload_def rc_channels_ok_def wire frame_consts Let_def)

lemma decodeRcChannelsPayload_total [total]:
  "42 \<le> length p \<Longrightarrow> \<exists>m. decodeRcChannelsPayload p = Some m"
  by (simp add: decodeRcChannelsPayload_def present)

subsection \<open>RC_CHANNELS_RAW\<close>

definition encodeRcChannelsRawPayload :: "rc_channels_raw \<Rightarrow> bytes option" where
  "encodeRcChannelsRawPayload m = do {
     let p = newBytes (payloadLength (MAVLINK_MESSAGE_IDS ID_RC_CHANNELS_RAW));
     p \<leftarrow> setUint32 0 (toUint32 (rc_channels_raw.timeBootMs m)) p;
     p \<leftarrow> forSet setUint16 (\<lambda>i. 4 + i * 2) (nthOr 0xFFFF (rc_channels_raw.channels m)) [0..<8] p;
     p \<leftarrow> setUint8 20 (rc_channels_raw.port m) p;
     p \<leftarrow> setUint8 21 (rc_channels_raw.rssi m) p;
     Some p }"

definition rc_channels_raw_ok :: "rc_channels_raw \<Rightarrow> bool" where
  "rc_channels_raw_ok m \<longleftrightarrow>
     u32_ok (rc_channels_raw.timeBootMs m) \<and> length (rc_channels_raw.channels m) = 8 \<and>
     list_all u16_ok (rc_channels_raw.channels m) \<and> u8_ok (rc_channels_raw.port m) \<and>
     u8_ok (rc_channels_raw.rssi m)"

definition decodeRcChannelsRawPayload :: "bytes \<Rightarrow> rc_channels_raw option" where
  "decodeRcChannelsRawPayload p = do {
     channels \<leftarrow> forGet getUint16 (\<lambda>i. 4 + i * 2) [0..<8] p;
     timeBootMs \<leftarrow> getUint32 0 p;
     port \<leftarrow> getUint8 20 p;
     rssi \<leftarrow> getUint8 21 p;
     Some \<lparr>rc_channels_raw.timeBootMs = timeBootMs, rc_channels_raw.port = port,
       rc_channels_raw.channels = channels, rc_channels_raw.rssi = rssi\<rparr> }"

lemma rc_channels_raw_roundtrip:
  assumes "rc_channels_raw_ok m"
  shows "\<exists>p. encodeRcChannelsRawPayload m = Some p \<and> length p = 22 \<and> decodeRcChannelsRawPayload p = Some m"
  using assms
  by (cases m) (simp add: encodeRcChannelsRawPayload_def decodeRcChannelsRawPayload_def rc_channels_raw_ok_def wire frame_consts Let_def)

lemma decodeRcChannelsRawPayload_total [total]:
  "22 \<le> length p \<Longrightarrow> \<exists>m. decodeRcChannelsRawPayload p = Some m"
  by (simp add: decodeRcChannelsRawPayload_def present)

subsection \<open>SERVO_OUTPUT_RAW\<close>

definition encodeServoOutputRawPayload :: "servo_output_raw \<Rightarrow> bytes option" where
  "encodeServoOutputRawPayload m = do {
     let p = newBytes (payloadLength (MAVLINK_MESSAGE_IDS ID_SERVO_OUTPUT_RAW));
     p \<leftarrow> setUint32 0 (toUint32 (servo_output_raw.timeUsec m)) p;
     p \<leftarrow> forSet setUint16 (\<lambda>i. 4 + i * 2) (nthOr 0 (servo_output_raw.servos m)) [0..<8] p;
     p \<leftarrow> setUint8 20 (servo_output_raw.port m) p;
     p \<leftarrow> forSet setUint16 (\<lambda>i. 21 + (i - 8) * 2) (nthOr 0 (servo_output_raw.servos m)) [8..<16] p;
     Some p }"

definition servo_output_raw_ok :: "servo_output_raw \<Rightarrow> bool" where
  "servo_output_raw_ok m \<longleftrightarrow>
     u32_ok (servo_output_raw.timeUsec m) \<and> length (servo_output_raw.servos m) = 16 \<and>
     list_all u16_ok (servo_output_raw.servos m) \<and> u8_ok (servo_output_raw.port m)"

text \<open>The extension servos: the loop stops at the first one that is not on the wire.\<close>

fun getServoExtensions :: "nat list \<Rightarrow> bytes \<Rightarrow> int list option" where
  "getServoExtensions [] p = Some []"
| "getServoExtensions (i # is) p =
     (let offset = 21 + i * 2
      in if offset + 2 > length p then Some []
         else do { x \<leftarrow> getUint16 offset p; xs \<leftarrow> getServoExtensions is p; Some (x # xs) })"

definition decodeServoOutputRawPayload :: "bytes \<Rightarrow> servo_output_raw option" where
  "decodeServoOutputRawPayload p = do {
     servos \<leftarrow> forGet getUint16 (\<lambda>i. 4 + i * 2) [0..<8] p;
     extensions \<leftarrow> getServoExtensions [0..<8] p;
     timeUsec \<leftarrow> getUint32 0 p;
     port \<leftarrow> (if length p > 20 then getUint8 20 p else Some 0);
     Some \<lparr>servo_output_raw.timeUsec = timeUsec, servo_output_raw.port = port,
       servo_output_raw.servos = servos @ extensions\<rparr> }"

lemma getServoExtensions_forGet:
  "\<forall>i\<in>set is. 21 + i * 2 + 2 \<le> length p \<Longrightarrow>
   getServoExtensions is p = forGet getUint16 (\<lambda>i. 21 + i * 2) is p"
  by (induction "is") (auto simp: Let_def)

lemma getServoExtensions_total: "\<exists>xs. getServoExtensions is p = Some xs"
  by (induction "is") (auto simp: Let_def getUint16_def getBytes_def)

lemma getServoExtensions_block:
  "getBytes 21 16 p = Some (u16_block v 8) \<Longrightarrow> \<forall>i<8. u16_ok (v i) \<Longrightarrow>
   getServoExtensions [0..<8] p = Some (map v [0..<8])"
  using forGet_u16 [of 21 8 p v]
  by (subst getServoExtensions_forGet) (auto simp: getBytes_def split: if_splits)

lemma nthOr_servos:
  assumes "length xs = 16"
  shows "map (nthOr d xs) [0..<8] @ map (\<lambda>i. nthOr d xs (8 + i)) [0..<8] = xs"
    and "list_all u16_ok ys \<Longrightarrow> length ys = 16 \<Longrightarrow> \<forall>i<8. u16_ok (nthOr e ys i)"
    and "list_all u16_ok ys \<Longrightarrow> length ys = 16 \<Longrightarrow> \<forall>i<8. u16_ok (nthOr e ys (8 + i))"
  using assms by (auto simp: nthOr_def list_all_length nth_append intro!: nth_equalityI)

lemma servo_output_raw_roundtrip:
  assumes "servo_output_raw_ok m"
  shows "\<exists>p. encodeServoOutputRawPayload m = Some p \<and> length p = 37 \<and> decodeServoOutputRawPayload p = Some m"
  using assms
  by (cases m) (simp add: encodeServoOutputRawPayload_def decodeServoOutputRawPayload_def servo_output_raw_ok_def wire frame_consts Let_def getServoExtensions_block nthOr_servos del: upt_rec_numeral)

lemma decodeServoOutputRawPayload_total [total]:
  "37 \<le> length p \<Longrightarrow> \<exists>m. decodeServoOutputRawPayload p = Some m"
  using getServoExtensions_total [of "[0..<8]" p]
  by (auto simp: decodeServoOutputRawPayload_def present)

subsection \<open>SYS_STATUS\<close>

definition encodeSysStatusPayload :: "sys_status \<Rightarrow> bytes option" where
  "encodeSysStatusPayload m = do {
     let p = newBytes (payloadLength (MAVLINK_MESSAGE_IDS ID_SYS_STATUS));
     p \<leftarrow> setUint32 0 (sys_status.sensorsPresent m) p;
     p \<leftarrow> setUint32 4 (sys_status.sensorsEnabled m) p;
     p \<leftarrow> setUint32 8 (sys_status.sensorsHealth m) p;
     p \<leftarrow> setUint16 12 (sys_status.load m) p;
     p \<leftarrow> setUint16 14 (sys_status.voltageBatteryMv m) p;
     p \<leftarrow> setInt16 16 (sys_status.currentBatteryCa m) p;
     p \<leftarrow> setUint16 18 (sys_status.dropRateComm m) p;
     p \<leftarrow> setUint16 20 (sys_status.errorsComm m) p;
     p \<leftarrow> setUint16 22 (sys_status.errorsCount1 m) p;
     p \<leftarrow> setUint16 24 (sys_status.errorsCount2 m) p;
     p \<leftarrow> setUint16 26 (sys_status.errorsCount3 m) p;
     p \<leftarrow> setUint16 28 (sys_status.errorsCount4 m) p;
     p \<leftarrow> setInt8 30 (sys_status.batteryRemaining m) p;
     p \<leftarrow> setUint32 31 (sys_status.sensorsPresentExtended m) p;
     p \<leftarrow> setUint32 35 (sys_status.sensorsEnabledExtended m) p;
     p \<leftarrow> setUint32 39 (sys_status.sensorsHealthExtended m) p;
     Some p }"

definition sys_status_ok :: "sys_status \<Rightarrow> bool" where
  "sys_status_ok m \<longleftrightarrow>
     u32_ok (sys_status.sensorsPresent m) \<and> u32_ok (sys_status.sensorsEnabled m) \<and>
     u32_ok (sys_status.sensorsHealth m) \<and> u16_ok (sys_status.load m) \<and>
     u16_ok (sys_status.voltageBatteryMv m) \<and> i16_ok (sys_status.currentBatteryCa m) \<and>
     u16_ok (sys_status.dropRateComm m) \<and> u16_ok (sys_status.errorsComm m) \<and>
     u16_ok (sys_status.errorsCount1 m) \<and> u16_ok (sys_status.errorsCount2 m) \<and>
     u16_ok (sys_status.errorsCount3 m) \<and> u16_ok (sys_status.errorsCount4 m) \<and>
     i8_ok (sys_status.batteryRemaining m) \<and> u32_ok (sys_status.sensorsPresentExtended m) \<and>
     u32_ok (sys_status.sensorsEnabledExtended m) \<and> u32_ok (sys_status.sensorsHealthExtended m)"

definition decodeSysStatusPayload :: "bytes \<Rightarrow> sys_status option" where
  "decodeSysStatusPayload p = do {
     sensorsPresent \<leftarrow> getUint32 0 p;
     sensorsEnabled \<leftarrow> getUint32 4 p;
     sensorsHealth \<leftarrow> getUint32 8 p;
     load \<leftarrow> getUint16 12 p;
     voltageBatteryMv \<leftarrow> getUint16 14 p;
     currentBatteryCa \<leftarrow> getInt16 16 p;
     dropRateComm \<leftarrow> getUint16 18 p;
     errorsComm \<leftarrow> getUint16 20 p;
     errorsCount1 \<leftarrow> getUint16 22 p;
     errorsCount2 \<leftarrow> getUint16 24 p;
     errorsCount3 \<leftarrow> getUint16 26 p;
     errorsCount4 \<leftarrow> getUint16 28 p;
     batteryRemaining \<leftarrow> getInt8 30 p;
     sensorsPresentExtended \<leftarrow> (if length p \<ge> 35 then getUint32 31 p else Some 0);
     sensorsEnabledExtended \<leftarrow> (if length p \<ge> 39 then getUint32 35 p else Some 0);
     sensorsHealthExtended \<leftarrow> (if length p \<ge> 43 then getUint32 39 p else Some 0);
     Some \<lparr>sys_status.sensorsPresent = sensorsPresent, sys_status.sensorsEnabled = sensorsEnabled,
       sys_status.sensorsHealth = sensorsHealth, sys_status.load = load,
       sys_status.voltageBatteryMv = voltageBatteryMv,
       sys_status.currentBatteryCa = currentBatteryCa,
       sys_status.batteryRemaining = batteryRemaining, sys_status.dropRateComm = dropRateComm,
       sys_status.errorsComm = errorsComm, sys_status.errorsCount1 = errorsCount1,
       sys_status.errorsCount2 = errorsCount2, sys_status.errorsCount3 = errorsCount3,
       sys_status.errorsCount4 = errorsCount4,
       sys_status.sensorsPresentExtended = sensorsPresentExtended,
       sys_status.sensorsEnabledExtended = sensorsEnabledExtended,
       sys_status.sensorsHealthExtended = sensorsHealthExtended\<rparr> }"

lemma sys_status_roundtrip:
  assumes "sys_status_ok m"
  shows "\<exists>p. encodeSysStatusPayload m = Some p \<and> length p = 43 \<and> decodeSysStatusPayload p = Some m"
  using assms
  by (cases m) (simp add: encodeSysStatusPayload_def decodeSysStatusPayload_def sys_status_ok_def wire frame_consts Let_def)

lemma decodeSysStatusPayload_total [total]:
  "43 \<le> length p \<Longrightarrow> \<exists>m. decodeSysStatusPayload p = Some m"
  by (simp add: decodeSysStatusPayload_def present)

subsection \<open>GPS_RAW_INT\<close>

definition encodeGpsRawIntPayload :: "gps_raw_int \<Rightarrow> bytes option" where
  "encodeGpsRawIntPayload m = do {
     let p = newBytes (payloadLength (MAVLINK_MESSAGE_IDS ID_GPS_RAW_INT));
     p \<leftarrow> setBigUint64 0 (max 0 (gps_raw_int.timeUsec m)) p;
     p \<leftarrow> setInt32 8 (gps_raw_int.latitudeE7 m) p;
     p \<leftarrow> setInt32 12 (gps_raw_int.longitudeE7 m) p;
     p \<leftarrow> setInt32 16 (gps_raw_int.altitudeMm m) p;
     p \<leftarrow> setUint16 20 (gps_raw_int.eph m) p;
     p \<leftarrow> setUint16 22 (gps_raw_int.epv m) p;
     p \<leftarrow> setUint16 24 (gps_raw_int.vel m) p;
     p \<leftarrow> setUint16 26 (gps_raw_int.cog m) p;
     let p = putByte 28 (gps_raw_int.fixType m AND 0xFF) p;
     let p = putByte 29 (gps_raw_int.satellitesVisible m AND 0xFF) p;
     Some p }"

definition gps_raw_int_ok :: "gps_raw_int \<Rightarrow> bool" where
  "gps_raw_int_ok m \<longleftrightarrow>
     u53_ok (gps_raw_int.timeUsec m) \<and> i32_ok (gps_raw_int.latitudeE7 m) \<and>
     i32_ok (gps_raw_int.longitudeE7 m) \<and> i32_ok (gps_raw_int.altitudeMm m) \<and>
     u16_ok (gps_raw_int.eph m) \<and> u16_ok (gps_raw_int.epv m) \<and> u16_ok (gps_raw_int.vel m) \<and>
     u16_ok (gps_raw_int.cog m) \<and> u8_ok (gps_raw_int.fixType m) \<and> u8_ok (gps_raw_int.satellitesVisible m)"

definition decodeGpsRawIntPayload :: "bytes \<Rightarrow> gps_raw_int option" where
  "decodeGpsRawIntPayload p = do {
     timeUsec \<leftarrow> map_option numberOfBigint (getBigUint64 0 p);
     latitudeE7 \<leftarrow> getInt32 8 p;
     longitudeE7 \<leftarrow> getInt32 12 p;
     altitudeMm \<leftarrow> getInt32 16 p;
     eph \<leftarrow> getUint16 20 p;
     epv \<leftarrow> getUint16 22 p;
     vel \<leftarrow> getUint16 24 p;
     cog \<leftarrow> getUint16 26 p;
     let fixType = byteOr0 28 p;
     let satellitesVisible = byteOr0 29 p;
     Some \<lparr>gps_raw_int.timeUsec = timeUsec, gps_raw_int.fixType = fixType,
       gps_raw_int.latitudeE7 = latitudeE7, gps_raw_int.longitudeE7 = longitudeE7,
       gps_raw_int.altitudeMm = altitudeMm, gps_raw_int.eph = eph, gps_raw_int.epv = epv,
       gps_raw_int.vel = vel, gps_raw_int.cog = cog,
       gps_raw_int.satellitesVisible = satellitesVisible\<rparr> }"

lemma gps_raw_int_roundtrip:
  assumes "gps_raw_int_ok m"
  shows "\<exists>p. encodeGpsRawIntPayload m = Some p \<and> length p = 30 \<and> decodeGpsRawIntPayload p = Some m"
  using assms
  by (cases m) (simp add: encodeGpsRawIntPayload_def decodeGpsRawIntPayload_def gps_raw_int_ok_def wire frame_consts Let_def)

lemma decodeGpsRawIntPayload_total [total]:
  "30 \<le> length p \<Longrightarrow> \<exists>m. decodeGpsRawIntPayload p = Some m"
  by (simp add: decodeGpsRawIntPayload_def present)

subsection \<open>GLOBAL_POSITION_INT\<close>

definition encodeGlobalPositionIntPayload :: "global_position_int \<Rightarrow> bytes option" where
  "encodeGlobalPositionIntPayload m = do {
     let p = newBytes (payloadLength (MAVLINK_MESSAGE_IDS ID_GLOBAL_POSITION_INT));
     p \<leftarrow> setUint32 0 (global_position_int.timeBootMs m) p;
     p \<leftarrow> setInt32 4 (global_position_int.latitudeE7 m) p;
     p \<leftarrow> setInt32 8 (global_position_int.longitudeE7 m) p;
     p \<leftarrow> setInt32 12 (global_position_int.altitudeMm m) p;
     p \<leftarrow> setInt32 16 (global_position_int.relativeAltitudeMm m) p;
     p \<leftarrow> setInt16 20 (global_position_int.velocityXcms m) p;
     p \<leftarrow> setInt16 22 (global_position_int.velocityYcms m) p;
     p \<leftarrow> setInt16 24 (global_position_int.velocityZcms m) p;
     p \<leftarrow> setUint16 26 (global_position_int.headingCdeg m) p;
     Some p }"

definition global_position_int_ok :: "global_position_int \<Rightarrow> bool" where
  "global_position_int_ok m \<longleftrightarrow>
     u32_ok (global_position_int.timeBootMs m) \<and> i32_ok (global_position_int.latitudeE7 m) \<and>
     i32_ok (global_position_int.longitudeE7 m) \<and> i32_ok (global_position_int.altitudeMm m) \<and>
     i32_ok (global_position_int.relativeAltitudeMm m) \<and> i16_ok (global_position_int.velocityXcms m) \<and>
     i16_ok (global_position_int.velocityYcms m) \<and> i16_ok (global_position_int.velocityZcms m) \<and>
     u16_ok (global_position_int.headingCdeg m)"

definition decodeGlobalPositionIntPayload :: "bytes \<Rightarrow> global_position_int option" where
  "decodeGlobalPositionIntPayload p = do {
     timeBootMs \<leftarrow> getUint32 0 p;
     latitudeE7 \<leftarrow> getInt32 4 p;
     longitudeE7 \<leftarrow> getInt32 8 p;
     altitudeMm \<leftarrow> getInt32 12 p;
     relativeAltitudeMm \<leftarrow> getInt32 16 p;
     velocityXcms \<leftarrow> getInt16 20 p;
     velocityYcms \<leftarrow> getInt16 22 p;
     velocityZcms \<leftarrow> getInt16 24 p;
     headingCdeg \<leftarrow> getUint16 26 p;
     Some \<lparr>global_position_int.timeBootMs = timeBootMs, global_position_int.latitudeE7 = latitudeE7,
       global_position_int.longitudeE7 = longitudeE7,
       global_position_int.altitudeMm = altitudeMm,
       global_position_int.relativeAltitudeMm = relativeAltitudeMm,
       global_position_int.velocityXcms = velocityXcms,
       global_position_int.velocityYcms = velocityYcms,
       global_position_int.velocityZcms = velocityZcms,
       global_position_int.headingCdeg = headingCdeg\<rparr> }"

lemma global_position_int_roundtrip:
  assumes "global_position_int_ok m"
  shows "\<exists>p. encodeGlobalPositionIntPayload m = Some p \<and> length p = 28 \<and> decodeGlobalPositionIntPayload p = Some m"
  using assms
  by (cases m) (simp add: encodeGlobalPositionIntPayload_def decodeGlobalPositionIntPayload_def global_position_int_ok_def wire frame_consts Let_def)

lemma decodeGlobalPositionIntPayload_total [total]:
  "28 \<le> length p \<Longrightarrow> \<exists>m. decodeGlobalPositionIntPayload p = Some m"
  by (simp add: decodeGlobalPositionIntPayload_def present)

subsection \<open>SCALED_IMU\<close>

definition encodeScaledImuPayload :: "scaled_imu \<Rightarrow> bytes option" where
  "encodeScaledImuPayload m = do {
     let p = newBytes 24;
     p \<leftarrow> setUint32 0 (scaled_imu.timeBootMs m) p;
     p \<leftarrow> setInt16 4 (accel_mg.x (scaled_imu.accelMg m)) p;
     p \<leftarrow> setInt16 6 (accel_mg.y (scaled_imu.accelMg m)) p;
     p \<leftarrow> setInt16 8 (accel_mg.z (scaled_imu.accelMg m)) p;
     p \<leftarrow> setInt16 22 (scaled_imu.temperatureCdeg m) p;
     Some p }"

definition scaled_imu_ok :: "scaled_imu \<Rightarrow> bool" where
  "scaled_imu_ok m \<longleftrightarrow>
     u32_ok (scaled_imu.timeBootMs m) \<and> i16_ok (accel_mg.x (scaled_imu.accelMg m)) \<and>
     i16_ok (accel_mg.y (scaled_imu.accelMg m)) \<and> i16_ok (accel_mg.z (scaled_imu.accelMg m)) \<and>
     i16_ok (scaled_imu.temperatureCdeg m)"

definition decodeScaledImuPayload :: "bytes \<Rightarrow> scaled_imu option" where
  "decodeScaledImuPayload p = do {
     timeBootMs \<leftarrow> getUint32 0 p;
     x \<leftarrow> getInt16 4 p;
     y \<leftarrow> getInt16 6 p;
     z \<leftarrow> getInt16 8 p;
     temperatureCdeg \<leftarrow> getInt16 22 p;
     Some \<lparr>scaled_imu.timeBootMs = timeBootMs,
       scaled_imu.accelMg = \<lparr>accel_mg.x = x, accel_mg.y = y, accel_mg.z = z\<rparr>,
       scaled_imu.temperatureCdeg = temperatureCdeg\<rparr> }"

lemma scaled_imu_roundtrip:
  assumes "scaled_imu_ok m"
  shows "\<exists>p. encodeScaledImuPayload m = Some p \<and> length p = 24 \<and> decodeScaledImuPayload p = Some m"
  using assms
  by (cases m) (simp add: encodeScaledImuPayload_def decodeScaledImuPayload_def scaled_imu_ok_def wire frame_consts Let_def)

lemma decodeScaledImuPayload_total [total]:
  "24 \<le> length p \<Longrightarrow> \<exists>m. decodeScaledImuPayload p = Some m"
  by (simp add: decodeScaledImuPayload_def present)

subsection \<open>ATTITUDE\<close>

definition encodeAttitudePayload :: "attitude \<Rightarrow> bytes option" where
  "encodeAttitudePayload m = do {
     let p = newBytes (payloadLength (MAVLINK_MESSAGE_IDS ID_ATTITUDE));
     p \<leftarrow> setUint32 0 (attitude.timeBootMs m) p;
     p \<leftarrow> setFloat32 4 (attitude.rollRad m) p;
     p \<leftarrow> setFloat32 8 (attitude.pitchRad m) p;
     p \<leftarrow> setFloat32 12 (attitude.yawRad m) p;
     p \<leftarrow> setFloat32 16 (attitude.rollSpeedRadS m) p;
     p \<leftarrow> setFloat32 20 (attitude.pitchSpeedRadS m) p;
     p \<leftarrow> setFloat32 24 (attitude.yawSpeedRadS m) p;
     Some p }"

definition attitude_ok :: "attitude \<Rightarrow> bool" where
  "attitude_ok m \<longleftrightarrow>
     u32_ok (attitude.timeBootMs m) \<and> f32_ok (attitude.rollRad m) \<and> f32_ok (attitude.pitchRad m) \<and>
     f32_ok (attitude.yawRad m) \<and> f32_ok (attitude.rollSpeedRadS m) \<and>
     f32_ok (attitude.pitchSpeedRadS m) \<and> f32_ok (attitude.yawSpeedRadS m)"

definition decodeAttitudePayload :: "bytes \<Rightarrow> attitude option" where
  "decodeAttitudePayload p = do {
     timeBootMs \<leftarrow> getUint32 0 p;
     rollRad \<leftarrow> getFloat32 4 p;
     pitchRad \<leftarrow> getFloat32 8 p;
     yawRad \<leftarrow> getFloat32 12 p;
     rollSpeedRadS \<leftarrow> getFloat32 16 p;
     pitchSpeedRadS \<leftarrow> getFloat32 20 p;
     yawSpeedRadS \<leftarrow> getFloat32 24 p;
     Some \<lparr>attitude.timeBootMs = timeBootMs, attitude.rollRad = rollRad,
       attitude.pitchRad = pitchRad, attitude.yawRad = yawRad,
       attitude.rollSpeedRadS = rollSpeedRadS, attitude.pitchSpeedRadS = pitchSpeedRadS,
       attitude.yawSpeedRadS = yawSpeedRadS\<rparr> }"

lemma attitude_roundtrip:
  assumes "attitude_ok m"
  shows "\<exists>p. encodeAttitudePayload m = Some p \<and> length p = 28 \<and> decodeAttitudePayload p = Some m"
  using assms
  by (cases m) (simp add: encodeAttitudePayload_def decodeAttitudePayload_def attitude_ok_def wire frame_consts Let_def)

lemma decodeAttitudePayload_total [total]:
  "28 \<le> length p \<Longrightarrow> \<exists>m. decodeAttitudePayload p = Some m"
  by (simp add: decodeAttitudePayload_def present)

subsection \<open>ATTITUDE_QUATERNION\<close>

definition decodeAttitudeQuaternionPayload :: "bytes \<Rightarrow> attitude_quaternion option" where
  "decodeAttitudeQuaternionPayload p = do {
     timeBootMs \<leftarrow> getUint32 0 p;
     qw \<leftarrow> getFloat32 4 p;
     qx \<leftarrow> getFloat32 8 p;
     qy \<leftarrow> getFloat32 12 p;
     qz \<leftarrow> getFloat32 16 p;
     rollSpeedRadS \<leftarrow> getFloat32 20 p;
     pitchSpeedRadS \<leftarrow> getFloat32 24 p;
     yawSpeedRadS \<leftarrow> getFloat32 28 p;
     Some \<lparr>attitude_quaternion.timeBootMs = timeBootMs, attitude_quaternion.qw = qw,
       attitude_quaternion.qx = qx, attitude_quaternion.qy = qy, attitude_quaternion.qz = qz,
       attitude_quaternion.rollSpeedRadS = rollSpeedRadS,
       attitude_quaternion.pitchSpeedRadS = pitchSpeedRadS,
       attitude_quaternion.yawSpeedRadS = yawSpeedRadS\<rparr> }"

lemma decodeAttitudeQuaternionPayload_total [total]:
  "32 \<le> length p \<Longrightarrow> \<exists>m. decodeAttitudeQuaternionPayload p = Some m"
  by (simp add: decodeAttitudeQuaternionPayload_def present)

subsection \<open>FILE_TRANSFER_PROTOCOL\<close>

definition encodeFileTransferProtocolPayload :: "file_transfer_protocol \<Rightarrow> bytes option" where
  "encodeFileTransferProtocolPayload m = do {
     let p = newBytes (payloadLength (MAVLINK_MESSAGE_IDS ID_FILE_TRANSFER_PROTOCOL));
     let p = putByte 0 (file_transfer_protocol.targetNetwork m AND 0xFF) p;
     let p = putByte 1 (file_transfer_protocol.targetSystem m AND 0xFF) p;
     let p = putByte 2 (file_transfer_protocol.targetComponent m AND 0xFF) p;
     p \<leftarrow> setBytes 3 (slice 0 (length p - 3) (file_transfer_protocol.payload m)) p;
     Some p }"

definition file_transfer_protocol_ok :: "file_transfer_protocol \<Rightarrow> bool" where
  "file_transfer_protocol_ok m \<longleftrightarrow>
     u8_ok (file_transfer_protocol.targetNetwork m) \<and> u8_ok (file_transfer_protocol.targetSystem m) \<and>
     u8_ok (file_transfer_protocol.targetComponent m) \<and> length (file_transfer_protocol.payload m) = 251"

definition decodeFileTransferProtocolPayload :: "bytes \<Rightarrow> file_transfer_protocol option" where
  "decodeFileTransferProtocolPayload p = do {
     let targetNetwork = byteOr0 0 p;
     let targetSystem = byteOr0 1 p;
     let targetComponent = byteOr0 2 p;
     let payload = drop 3 p;
     Some \<lparr>file_transfer_protocol.targetNetwork = targetNetwork,
       file_transfer_protocol.targetSystem = targetSystem,
       file_transfer_protocol.targetComponent = targetComponent,
       file_transfer_protocol.payload = payload\<rparr> }"

lemma file_transfer_protocol_roundtrip:
  assumes "file_transfer_protocol_ok m"
  shows "\<exists>p. encodeFileTransferProtocolPayload m = Some p \<and> length p = 254 \<and> decodeFileTransferProtocolPayload p = Some m"
  using assms
  by (cases m) (simp add: encodeFileTransferProtocolPayload_def decodeFileTransferProtocolPayload_def file_transfer_protocol_ok_def wire frame_consts Let_def drop_getBytes)

lemma decodeFileTransferProtocolPayload_total [total]:
  "254 \<le> length p \<Longrightarrow> \<exists>m. decodeFileTransferProtocolPayload p = Some m"
  by (simp add: decodeFileTransferProtocolPayload_def present)

subsection \<open>PARAM_REQUEST_LIST\<close>

definition encodeParamRequestListPayload :: "param_request_list \<Rightarrow> bytes option" where
  "encodeParamRequestListPayload m = do {
     let p = newBytes (payloadLength (MAVLINK_MESSAGE_IDS ID_PARAM_REQUEST_LIST));
     let p = putByte 0 (param_request_list.targetSystem m AND 0xFF) p;
     let p = putByte 1 (param_request_list.targetComponent m AND 0xFF) p;
     Some p }"

definition param_request_list_ok :: "param_request_list \<Rightarrow> bool" where
  "param_request_list_ok m \<longleftrightarrow>
     u8_ok (param_request_list.targetSystem m) \<and> u8_ok (param_request_list.targetComponent m)"

definition decodeParamRequestListPayload :: "bytes \<Rightarrow> param_request_list option" where
  "decodeParamRequestListPayload p = do {
     targetSystem \<leftarrow> byteAt 0 p;
     targetComponent \<leftarrow> byteAt 1 p;
     Some \<lparr>param_request_list.targetSystem = targetSystem,
       param_request_list.targetComponent = targetComponent\<rparr> }"

lemma param_request_list_roundtrip:
  assumes "param_request_list_ok m"
  shows "\<exists>p. encodeParamRequestListPayload m = Some p \<and> length p = 2 \<and> decodeParamRequestListPayload p = Some m"
  using assms
  by (cases m) (simp add: encodeParamRequestListPayload_def decodeParamRequestListPayload_def param_request_list_ok_def wire frame_consts Let_def)

lemma decodeParamRequestListPayload_total [total]:
  "2 \<le> length p \<Longrightarrow> \<exists>m. decodeParamRequestListPayload p = Some m"
  by (simp add: decodeParamRequestListPayload_def present)

subsection \<open>PARAM_REQUEST_READ\<close>

definition encodeParamRequestReadPayload :: "param_request_read \<Rightarrow> bytes option" where
  "encodeParamRequestReadPayload m = do {
     let p = newBytes (payloadLength (MAVLINK_MESSAGE_IDS ID_PARAM_REQUEST_READ));
     p \<leftarrow> setInt16 0 (param_request_read.paramIndex m) p;
     p \<leftarrow> setUint8 2 (param_request_read.targetSystem m) p;
     p \<leftarrow> setUint8 3 (param_request_read.targetComponent m) p;
     p \<leftarrow> setBytes 4 (encodeFixedString (param_request_read.paramId m) 16) p;
     Some p }"

definition param_request_read_ok :: "param_request_read \<Rightarrow> bool" where
  "param_request_read_ok m \<longleftrightarrow>
     i16_ok (param_request_read.paramIndex m) \<and> u8_ok (param_request_read.targetSystem m) \<and>
     u8_ok (param_request_read.targetComponent m) \<and> text_fits 16 (param_request_read.paramId m)"

definition decodeParamRequestReadPayload :: "bytes \<Rightarrow> param_request_read option" where
  "decodeParamRequestReadPayload p = do {
     paramIndex \<leftarrow> getInt16 0 p;
     targetSystem \<leftarrow> getUint8 2 p;
     targetComponent \<leftarrow> getUint8 3 p;
     let paramId = decodeFixedString (slice 4 20 p);
     Some \<lparr>param_request_read.targetSystem = targetSystem,
       param_request_read.targetComponent = targetComponent,
       param_request_read.paramId = paramId, param_request_read.paramIndex = paramIndex\<rparr> }"

lemma param_request_read_roundtrip:
  assumes "param_request_read_ok m"
  shows "\<exists>p. encodeParamRequestReadPayload m = Some p \<and> length p = 20 \<and> decodeParamRequestReadPayload p = Some m"
  using assms
  by (cases m) (simp add: encodeParamRequestReadPayload_def decodeParamRequestReadPayload_def param_request_read_ok_def wire frame_consts Let_def)

lemma decodeParamRequestReadPayload_total [total]:
  "20 \<le> length p \<Longrightarrow> \<exists>m. decodeParamRequestReadPayload p = Some m"
  by (simp add: decodeParamRequestReadPayload_def present)

subsection \<open>PARAM_SET\<close>

definition encodeParamSetPayload :: "param_set \<Rightarrow> bytes option" where
  "encodeParamSetPayload m = do {
     let p = newBytes (payloadLength (MAVLINK_MESSAGE_IDS ID_PARAM_SET));
     p \<leftarrow> setFloat32 0 (param_set.paramValue m) p;
     p \<leftarrow> setUint8 4 (param_set.targetSystem m) p;
     p \<leftarrow> setUint8 5 (param_set.targetComponent m) p;
     p \<leftarrow> setBytes 6 (encodeFixedString (param_set.paramId m) 16) p;
     p \<leftarrow> setUint8 22 (param_set.paramType m) p;
     Some p }"

definition param_set_ok :: "param_set \<Rightarrow> bool" where
  "param_set_ok m \<longleftrightarrow>
     f32_ok (param_set.paramValue m) \<and> u8_ok (param_set.targetSystem m) \<and>
     u8_ok (param_set.targetComponent m) \<and> text_fits 16 (param_set.paramId m) \<and>
     u8_ok (param_set.paramType m)"

definition decodeParamSetPayload :: "bytes \<Rightarrow> param_set option" where
  "decodeParamSetPayload p = do {
     paramValue \<leftarrow> getFloat32 0 p;
     targetSystem \<leftarrow> getUint8 4 p;
     targetComponent \<leftarrow> getUint8 5 p;
     let paramId = decodeFixedString (slice 6 22 p);
     paramType \<leftarrow> getUint8 22 p;
     Some \<lparr>param_set.targetSystem = targetSystem, param_set.targetComponent = targetComponent,
       param_set.paramId = paramId, param_set.paramValue = paramValue,
       param_set.paramType = paramType\<rparr> }"

lemma param_set_roundtrip:
  assumes "param_set_ok m"
  shows "\<exists>p. encodeParamSetPayload m = Some p \<and> length p = 23 \<and> decodeParamSetPayload p = Some m"
  using assms
  by (cases m) (simp add: encodeParamSetPayload_def decodeParamSetPayload_def param_set_ok_def wire frame_consts Let_def)

lemma decodeParamSetPayload_total [total]:
  "23 \<le> length p \<Longrightarrow> \<exists>m. decodeParamSetPayload p = Some m"
  by (simp add: decodeParamSetPayload_def present)

subsection \<open>COMMAND_ACK\<close>

definition encodeCommandAckPayload :: "command_ack \<Rightarrow> bytes option" where
  "encodeCommandAckPayload m = do {
     let p = newBytes (payloadLength (MAVLINK_MESSAGE_IDS ID_COMMAND_ACK));
     p \<leftarrow> setUint16 0 (command_ack.command m) p;
     p \<leftarrow> setUint8 2 (command_ack.result m) p;
     p \<leftarrow> setUint8 3 (command_ack.progress m) p;
     p \<leftarrow> setInt32 4 (command_ack.resultParam2 m) p;
     p \<leftarrow> setUint8 8 (command_ack.targetSystem m) p;
     p \<leftarrow> setUint8 9 (command_ack.targetComponent m) p;
     Some p }"

definition command_ack_ok :: "command_ack \<Rightarrow> bool" where
  "command_ack_ok m \<longleftrightarrow>
     u16_ok (command_ack.command m) \<and> u8_ok (command_ack.result m) \<and>
     u8_ok (command_ack.progress m) \<and> i32_ok (command_ack.resultParam2 m) \<and>
     u8_ok (command_ack.targetSystem m) \<and> u8_ok (command_ack.targetComponent m)"

definition decodeCommandAckPayload :: "bytes \<Rightarrow> command_ack option" where
  "decodeCommandAckPayload p = do {
     command \<leftarrow> getUint16 0 p;
     result \<leftarrow> getUint8 2 p;
     progress \<leftarrow> (if length p \<ge> 4 then getUint8 3 p else Some 0);
     resultParam2 \<leftarrow> (if length p \<ge> 8 then getInt32 4 p else Some 0);
     targetSystem \<leftarrow> (if length p \<ge> 9 then getUint8 8 p else Some 0);
     targetComponent \<leftarrow> (if length p \<ge> 10 then getUint8 9 p else Some 0);
     Some \<lparr>command_ack.command = command, command_ack.result = result,
       command_ack.progress = progress, command_ack.resultParam2 = resultParam2,
       command_ack.targetSystem = targetSystem, command_ack.targetComponent = targetComponent\<rparr> }"

lemma command_ack_roundtrip:
  assumes "command_ack_ok m"
  shows "\<exists>p. encodeCommandAckPayload m = Some p \<and> length p = 10 \<and> decodeCommandAckPayload p = Some m"
  using assms
  by (cases m) (simp add: encodeCommandAckPayload_def decodeCommandAckPayload_def command_ack_ok_def wire frame_consts Let_def)

lemma decodeCommandAckPayload_total [total]:
  "10 \<le> length p \<Longrightarrow> \<exists>m. decodeCommandAckPayload p = Some m"
  by (simp add: decodeCommandAckPayload_def present)

subsection \<open>COMMAND_LONG\<close>

definition encodeCommandLongPayload :: "command_long \<Rightarrow> bytes option" where
  "encodeCommandLongPayload m = do {
     let p = newBytes (payloadLength (MAVLINK_MESSAGE_IDS ID_COMMAND_LONG));
     p \<leftarrow> forSet setFloat32 (\<lambda>i. i * 4) (\<lambda>i. command_long.params m ! i)
            [0..<length (command_long.params m)] p;
     p \<leftarrow> setUint16 28 (command_long.command m) p;
     p \<leftarrow> setUint8 30 (command_long.targetSystem m) p;
     p \<leftarrow> setUint8 31 (command_long.targetComponent m) p;
     p \<leftarrow> setUint8 32 (command_long.confirmation m) p;
     Some p }"

definition command_long_ok :: "command_long \<Rightarrow> bool" where
  "command_long_ok m \<longleftrightarrow>
     length (command_long.params m) = 7 \<and> list_all f32_ok (command_long.params m) \<and>
     u16_ok (command_long.command m) \<and> u8_ok (command_long.targetSystem m) \<and>
     u8_ok (command_long.targetComponent m) \<and> u8_ok (command_long.confirmation m)"

definition decodeCommandLongPayload :: "bytes \<Rightarrow> command_long option" where
  "decodeCommandLongPayload p = do {
     params \<leftarrow> forGet getFloat32 (\<lambda>i. i * 4) [0..<7] p;
     command \<leftarrow> getUint16 28 p;
     targetSystem \<leftarrow> getUint8 30 p;
     targetComponent \<leftarrow> getUint8 31 p;
     confirmation \<leftarrow> getUint8 32 p;
     Some \<lparr>command_long.command = command, command_long.targetSystem = targetSystem,
       command_long.targetComponent = targetComponent,
       command_long.confirmation = confirmation, command_long.params = params\<rparr> }"

lemma command_long_roundtrip:
  assumes "command_long_ok m"
  shows "\<exists>p. encodeCommandLongPayload m = Some p \<and> length p = 33 \<and> decodeCommandLongPayload p = Some m"
  using assms
  by (cases m) (simp add: encodeCommandLongPayload_def decodeCommandLongPayload_def command_long_ok_def wire frame_consts Let_def)

lemma decodeCommandLongPayload_total [total]:
  "33 \<le> length p \<Longrightarrow> \<exists>m. decodeCommandLongPayload p = Some m"
  by (simp add: decodeCommandLongPayload_def present)

subsection \<open>GPS_INPUT\<close>

definition encodeGpsInputPayload :: "gps_input \<Rightarrow> bytes option" where
  "encodeGpsInputPayload m = do {
     let p = newBytes (payloadLength (MAVLINK_MESSAGE_IDS ID_GPS_INPUT));
     p \<leftarrow> setBigUint64 0 0 p;
     p \<leftarrow> setUint32 8 0 p;
     p \<leftarrow> setInt32 12 (gps_input.latitudeE7 m) p;
     p \<leftarrow> setInt32 16 (gps_input.longitudeE7 m) p;
     p \<leftarrow> setFloat32 20 (gps_input.altitudeM m) p;
     p \<leftarrow> setFloat32 24 (gps_input.hdop m) p;
     p \<leftarrow> setFloat32 28 (gps_input.vdop m) p;
     p \<leftarrow> setFloat32 32 0 p;
     p \<leftarrow> setFloat32 36 0 p;
     p \<leftarrow> setFloat32 40 0 p;
     p \<leftarrow> setFloat32 44 0 p;
     p \<leftarrow> setFloat32 48 0x40A00000 p;
     p \<leftarrow> setFloat32 52 0x40A00000 p;
     p \<leftarrow> setUint16 56 (gps_input.ignoreFlags m) p;
     p \<leftarrow> setUint16 58 0 p;
     p \<leftarrow> setUint8 60 (gps_input.gpsId m) p;
     p \<leftarrow> setUint8 61 (gps_input.fixType m) p;
     p \<leftarrow> setUint8 62 (gps_input.satellitesVisible m) p;
     Some p }"

definition gps_input_ok :: "gps_input \<Rightarrow> bool" where
  "gps_input_ok m \<longleftrightarrow>
     i32_ok (gps_input.latitudeE7 m) \<and> i32_ok (gps_input.longitudeE7 m) \<and>
     f32_ok (gps_input.altitudeM m) \<and> f32_ok (gps_input.hdop m) \<and> f32_ok (gps_input.vdop m) \<and>
     u16_ok (gps_input.ignoreFlags m) \<and> u8_ok (gps_input.gpsId m) \<and> u8_ok (gps_input.fixType m) \<and>
     u8_ok (gps_input.satellitesVisible m)"

lemma gps_input_encodes:
  assumes "gps_input_ok m"
  shows "\<exists>p. encodeGpsInputPayload m = Some p \<and> length p = 63"
  using assms by (simp add: encodeGpsInputPayload_def gps_input_ok_def wire frame_consts Let_def)

end
