(* ===== verification/Mav_Payload_B.thy ===== *)
theory Mav_Payload_B
  imports Mav_Fields
begin

text \<open>
  The payload encoders and decoders of \<open>mavlink-v2-codec.ts\<close>, second part: version, log,
  compass-calibration, sensor, mode, ESC, UAVCAN, CAN and signing-setup messages.
\<close>

subsection \<open>AUTOPILOT_VERSION\<close>

definition hasUid2 :: "autopilot_version \<Rightarrow> bool" where
  "hasUid2 m = (case autopilot_version.uid2 m of None \<Rightarrow> False | Some u \<Rightarrow> list_ex (\<lambda>b. b \<noteq> 0) u)"

definition encodeAutopilotVersionPayload :: "autopilot_version \<Rightarrow> bytes option" where
  "encodeAutopilotVersionPayload m = do {
     let p = newBytes (if hasUid2 m then payloadLength (MAVLINK_MESSAGE_IDS ID_AUTOPILOT_VERSION)
                       else minPayloadLength (MAVLINK_MESSAGE_IDS ID_AUTOPILOT_VERSION));
     p \<leftarrow> setBigUint64 0 (autopilot_version.capabilities m) p;
     p \<leftarrow> setBigUint64 8 (autopilot_version.uid m) p;
     p \<leftarrow> setUint32 16 (autopilot_version.flightSwVersion m) p;
     p \<leftarrow> setUint32 20 (autopilot_version.middlewareSwVersion m) p;
     p \<leftarrow> setUint32 24 (autopilot_version.osSwVersion m) p;
     p \<leftarrow> setUint32 28 (autopilot_version.boardVersion m) p;
     p \<leftarrow> setUint16 32 (autopilot_version.vendorId m) p;
     p \<leftarrow> setUint16 34 (autopilot_version.productId m) p;
     p \<leftarrow> setBytes 36 (copyFixedBytes (autopilot_version.flightCustomVersion m) 8) p;
     p \<leftarrow> setBytes 44 (copyFixedBytes (autopilot_version.middlewareCustomVersion m) 8) p;
     p \<leftarrow> setBytes 52 (copyFixedBytes (autopilot_version.osCustomVersion m) 8) p;
     (case autopilot_version.uid2 m of
        Some u \<Rightarrow> if hasUid2 m then setBytes 60 (copyFixedBytes u 18) p else Some p
      | None \<Rightarrow> Some p) }"

definition autopilot_version_ok :: "autopilot_version \<Rightarrow> bool" where
  "autopilot_version_ok m \<longleftrightarrow>
     u64_ok (autopilot_version.capabilities m) \<and> u64_ok (autopilot_version.uid m) \<and>
     u32_ok (autopilot_version.flightSwVersion m) \<and> u32_ok (autopilot_version.middlewareSwVersion m) \<and>
     u32_ok (autopilot_version.osSwVersion m) \<and> u32_ok (autopilot_version.boardVersion m) \<and>
     u16_ok (autopilot_version.vendorId m) \<and> u16_ok (autopilot_version.productId m) \<and>
     length (autopilot_version.flightCustomVersion m) = 8 \<and>
     length (autopilot_version.middlewareCustomVersion m) = 8 \<and>
     length (autopilot_version.osCustomVersion m) = 8 \<and>
     (case autopilot_version.uid2 m of None \<Rightarrow> True | Some u \<Rightarrow> length u = 18)"

definition decodeAutopilotVersionPayload :: "bytes \<Rightarrow> autopilot_version option" where
  "decodeAutopilotVersionPayload p = do {
     capabilities \<leftarrow> getBigUint64 0 p;
     uid \<leftarrow> getBigUint64 8 p;
     flightSwVersion \<leftarrow> getUint32 16 p;
     middlewareSwVersion \<leftarrow> getUint32 20 p;
     osSwVersion \<leftarrow> getUint32 24 p;
     boardVersion \<leftarrow> getUint32 28 p;
     vendorId \<leftarrow> getUint16 32 p;
     productId \<leftarrow> getUint16 34 p;
     let flightCustomVersion = slice 36 44 p;
     let middlewareCustomVersion = slice 44 52 p;
     let osCustomVersion = slice 52 60 p;
     let uid2 = (if length p \<ge> 78 then Some (slice 60 78 p) else None);
     Some \<lparr>autopilot_version.capabilities = capabilities,
       autopilot_version.flightSwVersion = flightSwVersion,
       autopilot_version.middlewareSwVersion = middlewareSwVersion,
       autopilot_version.osSwVersion = osSwVersion,
       autopilot_version.boardVersion = boardVersion,
       autopilot_version.flightCustomVersion = flightCustomVersion,
       autopilot_version.middlewareCustomVersion = middlewareCustomVersion,
       autopilot_version.osCustomVersion = osCustomVersion,
       autopilot_version.vendorId = vendorId, autopilot_version.productId = productId,
       autopilot_version.uid = uid, autopilot_version.uid2 = uid2\<rparr> }"

text \<open>
  Without a UID2 the sender stops at the base fields; the receiver pads the payload with
  zeros and reports a UID2 of eighteen zero bytes.
\<close>

definition autopilot_version_received :: "autopilot_version \<Rightarrow> autopilot_version" where
  "autopilot_version_received m =
     (if hasUid2 m then m else m\<lparr>autopilot_version.uid2 := Some (replicate 18 0)\<rparr>)"

lemma minPayloadLength_148: "minPayloadLength 148 = 60"
  by (simp add: minPayloadLength_def MAVLINK_MIN_PAYLOAD_LENGTHS_def)

lemmas autopilot_version_eval =
  encodeAutopilotVersionPayload_def decodeAutopilotVersionPayload_def autopilot_version_ok_def
  autopilot_version_received_def wire frame_consts Let_def

lemma autopilot_version_roundtrip:
  assumes "autopilot_version_ok m"
  shows "\<exists>p. encodeAutopilotVersionPayload m = Some p \<and> length p \<in> {60, 78} \<and>
    decodeAutopilotVersionPayload (p @ replicate (78 - length p) 0)
      = Some (autopilot_version_received m)"
proof (cases "hasUid2 m")
  case True
  then obtain u where u: "autopilot_version.uid2 m = Some u"
    by (auto simp: hasUid2_def split: option.splits)
  with True assms show ?thesis by (cases m) (simp add: autopilot_version_eval)
next
  case False
  with assms show ?thesis
    by (cases m; cases "autopilot_version.uid2 m")
      (simp_all add: autopilot_version_eval minPayloadLength_148 put_append_zeros newBytes_append_zeros)
qed

lemma decodeAutopilotVersionPayload_total [total]:
  "78 \<le> length p \<Longrightarrow> \<exists>m. decodeAutopilotVersionPayload p = Some m"
  by (simp add: decodeAutopilotVersionPayload_def present)

subsection \<open>LOG_REQUEST_LIST\<close>

definition encodeLogRequestListPayload :: "log_request_list \<Rightarrow> bytes option" where
  "encodeLogRequestListPayload m = do {
     let p = newBytes (payloadLength (MAVLINK_MESSAGE_IDS ID_LOG_REQUEST_LIST));
     p \<leftarrow> setUint16 0 (log_request_list.start m) p;
     p \<leftarrow> setUint16 2 (log_request_list.end m) p;
     p \<leftarrow> setUint8 4 (log_request_list.targetSystem m) p;
     p \<leftarrow> setUint8 5 (log_request_list.targetComponent m) p;
     Some p }"

definition log_request_list_ok :: "log_request_list \<Rightarrow> bool" where
  "log_request_list_ok m \<longleftrightarrow>
     u16_ok (log_request_list.start m) \<and> u16_ok (log_request_list.end m) \<and>
     u8_ok (log_request_list.targetSystem m) \<and> u8_ok (log_request_list.targetComponent m)"

definition decodeLogRequestListPayload :: "bytes \<Rightarrow> log_request_list option" where
  "decodeLogRequestListPayload p = do {
     start \<leftarrow> getUint16 0 p;
     end \<leftarrow> getUint16 2 p;
     targetSystem \<leftarrow> getUint8 4 p;
     targetComponent \<leftarrow> getUint8 5 p;
     Some \<lparr>log_request_list.targetSystem = targetSystem,
       log_request_list.targetComponent = targetComponent, log_request_list.start = start,
       log_request_list.end = end\<rparr> }"

lemma log_request_list_roundtrip:
  assumes "log_request_list_ok m"
  shows "\<exists>p. encodeLogRequestListPayload m = Some p \<and> length p = 6 \<and> decodeLogRequestListPayload p = Some m"
  using assms
  by (cases m) (simp add: encodeLogRequestListPayload_def decodeLogRequestListPayload_def log_request_list_ok_def wire frame_consts Let_def)

lemma decodeLogRequestListPayload_total [total]:
  "6 \<le> length p \<Longrightarrow> \<exists>m. decodeLogRequestListPayload p = Some m"
  by (simp add: decodeLogRequestListPayload_def present)

subsection \<open>LOG_ENTRY\<close>

definition encodeLogEntryPayload :: "log_entry \<Rightarrow> bytes option" where
  "encodeLogEntryPayload m = do {
     let p = newBytes (payloadLength (MAVLINK_MESSAGE_IDS ID_LOG_ENTRY));
     p \<leftarrow> setUint32 0 (log_entry.timeUtc m) p;
     p \<leftarrow> setUint32 4 (log_entry.size m) p;
     p \<leftarrow> setUint16 8 (log_entry.id m) p;
     p \<leftarrow> setUint16 10 (log_entry.numLogs m) p;
     p \<leftarrow> setUint16 12 (log_entry.lastLogNum m) p;
     Some p }"

definition log_entry_ok :: "log_entry \<Rightarrow> bool" where
  "log_entry_ok m \<longleftrightarrow>
     u32_ok (log_entry.timeUtc m) \<and> u32_ok (log_entry.size m) \<and> u16_ok (log_entry.id m) \<and>
     u16_ok (log_entry.numLogs m) \<and> u16_ok (log_entry.lastLogNum m)"

definition decodeLogEntryPayload :: "bytes \<Rightarrow> log_entry option" where
  "decodeLogEntryPayload p = do {
     timeUtc \<leftarrow> getUint32 0 p;
     size \<leftarrow> getUint32 4 p;
     id \<leftarrow> getUint16 8 p;
     numLogs \<leftarrow> getUint16 10 p;
     lastLogNum \<leftarrow> getUint16 12 p;
     Some \<lparr>log_entry.timeUtc = timeUtc, log_entry.size = size, log_entry.id = id,
       log_entry.numLogs = numLogs, log_entry.lastLogNum = lastLogNum\<rparr> }"

lemma log_entry_roundtrip:
  assumes "log_entry_ok m"
  shows "\<exists>p. encodeLogEntryPayload m = Some p \<and> length p = 14 \<and> decodeLogEntryPayload p = Some m"
  using assms
  by (cases m) (simp add: encodeLogEntryPayload_def decodeLogEntryPayload_def log_entry_ok_def wire frame_consts Let_def)

lemma decodeLogEntryPayload_total [total]:
  "14 \<le> length p \<Longrightarrow> \<exists>m. decodeLogEntryPayload p = Some m"
  by (simp add: decodeLogEntryPayload_def present)

subsection \<open>LOG_REQUEST_DATA\<close>

definition encodeLogRequestDataPayload :: "log_request_data \<Rightarrow> bytes option" where
  "encodeLogRequestDataPayload m = do {
     let p = newBytes (payloadLength (MAVLINK_MESSAGE_IDS ID_LOG_REQUEST_DATA));
     p \<leftarrow> setUint32 0 (log_request_data.ofs m) p;
     p \<leftarrow> setUint32 4 (log_request_data.count m) p;
     p \<leftarrow> setUint16 8 (log_request_data.id m) p;
     p \<leftarrow> setUint8 10 (log_request_data.targetSystem m) p;
     p \<leftarrow> setUint8 11 (log_request_data.targetComponent m) p;
     Some p }"

definition log_request_data_ok :: "log_request_data \<Rightarrow> bool" where
  "log_request_data_ok m \<longleftrightarrow>
     u32_ok (log_request_data.ofs m) \<and> u32_ok (log_request_data.count m) \<and>
     u16_ok (log_request_data.id m) \<and> u8_ok (log_request_data.targetSystem m) \<and>
     u8_ok (log_request_data.targetComponent m)"

definition decodeLogRequestDataPayload :: "bytes \<Rightarrow> log_request_data option" where
  "decodeLogRequestDataPayload p = do {
     ofs \<leftarrow> getUint32 0 p;
     count \<leftarrow> getUint32 4 p;
     id \<leftarrow> getUint16 8 p;
     targetSystem \<leftarrow> getUint8 10 p;
     targetComponent \<leftarrow> getUint8 11 p;
     Some \<lparr>log_request_data.targetSystem = targetSystem,
       log_request_data.targetComponent = targetComponent, log_request_data.id = id,
       log_request_data.ofs = ofs, log_request_data.count = count\<rparr> }"

lemma log_request_data_roundtrip:
  assumes "log_request_data_ok m"
  shows "\<exists>p. encodeLogRequestDataPayload m = Some p \<and> length p = 12 \<and> decodeLogRequestDataPayload p = Some m"
  using assms
  by (cases m) (simp add: encodeLogRequestDataPayload_def decodeLogRequestDataPayload_def log_request_data_ok_def wire frame_consts Let_def)

lemma decodeLogRequestDataPayload_total [total]:
  "12 \<le> length p \<Longrightarrow> \<exists>m. decodeLogRequestDataPayload p = Some m"
  by (simp add: decodeLogRequestDataPayload_def present)

subsection \<open>LOG_DATA\<close>

definition encodeLogDataPayload :: "log_data \<Rightarrow> bytes option" where
  "encodeLogDataPayload m = do {
     let p = newBytes (payloadLength (MAVLINK_MESSAGE_IDS ID_LOG_DATA));
     p \<leftarrow> setUint32 0 (log_data.ofs m) p;
     p \<leftarrow> setUint16 4 (log_data.id m) p;
     p \<leftarrow> setUint8 6 (log_data.count m) p;
     p \<leftarrow> setBytes 7 (slice 0 90 (log_data.data m)) p;
     Some p }"

definition log_data_ok :: "log_data \<Rightarrow> bool" where
  "log_data_ok m \<longleftrightarrow>
     u32_ok (log_data.ofs m) \<and> u16_ok (log_data.id m) \<and> u8_ok (log_data.count m) \<and>
     length (log_data.data m) = 90"

definition decodeLogDataPayload :: "bytes \<Rightarrow> log_data option" where
  "decodeLogDataPayload p = do {
     ofs \<leftarrow> getUint32 0 p;
     id \<leftarrow> getUint16 4 p;
     count \<leftarrow> getUint8 6 p;
     let data = slice 7 97 p;
     Some \<lparr>log_data.id = id, log_data.ofs = ofs, log_data.count = count, log_data.data = data\<rparr> }"

lemma log_data_roundtrip:
  assumes "log_data_ok m"
  shows "\<exists>p. encodeLogDataPayload m = Some p \<and> length p = 97 \<and> decodeLogDataPayload p = Some m"
  using assms
  by (cases m) (simp add: encodeLogDataPayload_def decodeLogDataPayload_def log_data_ok_def wire frame_consts Let_def)

lemma decodeLogDataPayload_total [total]:
  "97 \<le> length p \<Longrightarrow> \<exists>m. decodeLogDataPayload p = Some m"
  by (simp add: decodeLogDataPayload_def present)

subsection \<open>LOG_REQUEST_END\<close>

definition encodeLogRequestEndPayload :: "log_request_end \<Rightarrow> bytes option" where
  "encodeLogRequestEndPayload m = do {
     let p = newBytes (payloadLength (MAVLINK_MESSAGE_IDS ID_LOG_REQUEST_END));
     let p = putByte 0 (log_request_end.targetSystem m AND 0xFF) p;
     let p = putByte 1 (log_request_end.targetComponent m AND 0xFF) p;
     Some p }"

definition log_request_end_ok :: "log_request_end \<Rightarrow> bool" where
  "log_request_end_ok m \<longleftrightarrow>
     u8_ok (log_request_end.targetSystem m) \<and> u8_ok (log_request_end.targetComponent m)"

definition decodeLogRequestEndPayload :: "bytes \<Rightarrow> log_request_end option" where
  "decodeLogRequestEndPayload p = do {
     let targetSystem = byteOr0 0 p;
     let targetComponent = byteOr0 1 p;
     Some \<lparr>log_request_end.targetSystem = targetSystem,
       log_request_end.targetComponent = targetComponent\<rparr> }"

lemma log_request_end_roundtrip:
  assumes "log_request_end_ok m"
  shows "\<exists>p. encodeLogRequestEndPayload m = Some p \<and> length p = 2 \<and> decodeLogRequestEndPayload p = Some m"
  using assms
  by (cases m) (simp add: encodeLogRequestEndPayload_def decodeLogRequestEndPayload_def log_request_end_ok_def wire frame_consts Let_def)

lemma decodeLogRequestEndPayload_total [total]:
  "2 \<le> length p \<Longrightarrow> \<exists>m. decodeLogRequestEndPayload p = Some m"
  by (simp add: decodeLogRequestEndPayload_def present)

subsection \<open>LOG_ERASE\<close>

definition encodeLogErasePayload :: "log_erase \<Rightarrow> bytes option" where
  "encodeLogErasePayload m = do {
     let p = newBytes (payloadLength (MAVLINK_MESSAGE_IDS ID_LOG_ERASE));
     let p = putByte 0 (log_erase.targetSystem m AND 0xFF) p;
     let p = putByte 1 (log_erase.targetComponent m AND 0xFF) p;
     Some p }"

definition log_erase_ok :: "log_erase \<Rightarrow> bool" where
  "log_erase_ok m \<longleftrightarrow>
     u8_ok (log_erase.targetSystem m) \<and> u8_ok (log_erase.targetComponent m)"

definition decodeLogErasePayload :: "bytes \<Rightarrow> log_erase option" where
  "decodeLogErasePayload p = do {
     let targetSystem = byteOr0 0 p;
     let targetComponent = byteOr0 1 p;
     Some \<lparr>log_erase.targetSystem = targetSystem, log_erase.targetComponent = targetComponent\<rparr> }"

lemma log_erase_roundtrip:
  assumes "log_erase_ok m"
  shows "\<exists>p. encodeLogErasePayload m = Some p \<and> length p = 2 \<and> decodeLogErasePayload p = Some m"
  using assms
  by (cases m) (simp add: encodeLogErasePayload_def decodeLogErasePayload_def log_erase_ok_def wire frame_consts Let_def)

lemma decodeLogErasePayload_total [total]:
  "2 \<le> length p \<Longrightarrow> \<exists>m. decodeLogErasePayload p = Some m"
  by (simp add: decodeLogErasePayload_def present)

subsection \<open>MAG_CAL_PROGRESS\<close>

definition encodeMagCalProgressPayload :: "mag_cal_progress \<Rightarrow> bytes option" where
  "encodeMagCalProgressPayload m = do {
     let p = newBytes (payloadLength (MAVLINK_MESSAGE_IDS ID_MAG_CAL_PROGRESS));
     p \<leftarrow> setFloat32 0 (mag_cal_progress.directionX m) p;
     p \<leftarrow> setFloat32 4 (mag_cal_progress.directionY m) p;
     p \<leftarrow> setFloat32 8 (mag_cal_progress.directionZ m) p;
     p \<leftarrow> setUint8 12 (mag_cal_progress.compassId m) p;
     p \<leftarrow> setUint8 13 (mag_cal_progress.calMask m) p;
     p \<leftarrow> setUint8 14 (mag_cal_progress.calStatus m) p;
     p \<leftarrow> setUint8 15 (mag_cal_progress.attempt m) p;
     p \<leftarrow> setUint8 16 (mag_cal_progress.completionPct m) p;
     p \<leftarrow> setBytes 17 (slice 0 10 (mag_cal_progress.completionMask m)) p;
     Some p }"

definition mag_cal_progress_ok :: "mag_cal_progress \<Rightarrow> bool" where
  "mag_cal_progress_ok m \<longleftrightarrow>
     f32_ok (mag_cal_progress.directionX m) \<and> f32_ok (mag_cal_progress.directionY m) \<and>
     f32_ok (mag_cal_progress.directionZ m) \<and> u8_ok (mag_cal_progress.compassId m) \<and>
     u8_ok (mag_cal_progress.calMask m) \<and> u8_ok (mag_cal_progress.calStatus m) \<and>
     u8_ok (mag_cal_progress.attempt m) \<and> u8_ok (mag_cal_progress.completionPct m) \<and>
     length (mag_cal_progress.completionMask m) = 10"

definition decodeMagCalProgressPayload :: "bytes \<Rightarrow> mag_cal_progress option" where
  "decodeMagCalProgressPayload p = do {
     directionX \<leftarrow> getFloat32 0 p;
     directionY \<leftarrow> getFloat32 4 p;
     directionZ \<leftarrow> getFloat32 8 p;
     compassId \<leftarrow> getUint8 12 p;
     calMask \<leftarrow> getUint8 13 p;
     calStatus \<leftarrow> getUint8 14 p;
     attempt \<leftarrow> getUint8 15 p;
     completionPct \<leftarrow> getUint8 16 p;
     let completionMask = slice 17 27 p;
     Some \<lparr>mag_cal_progress.compassId = compassId, mag_cal_progress.calMask = calMask,
       mag_cal_progress.calStatus = calStatus, mag_cal_progress.attempt = attempt,
       mag_cal_progress.completionPct = completionPct,
       mag_cal_progress.completionMask = completionMask,
       mag_cal_progress.directionX = directionX, mag_cal_progress.directionY = directionY,
       mag_cal_progress.directionZ = directionZ\<rparr> }"

lemma mag_cal_progress_roundtrip:
  assumes "mag_cal_progress_ok m"
  shows "\<exists>p. encodeMagCalProgressPayload m = Some p \<and> length p = 27 \<and> decodeMagCalProgressPayload p = Some m"
  using assms
  by (cases m) (simp add: encodeMagCalProgressPayload_def decodeMagCalProgressPayload_def mag_cal_progress_ok_def wire frame_consts Let_def)

lemma decodeMagCalProgressPayload_total [total]:
  "27 \<le> length p \<Longrightarrow> \<exists>m. decodeMagCalProgressPayload p = Some m"
  by (simp add: decodeMagCalProgressPayload_def present)

subsection \<open>MAG_CAL_REPORT\<close>

definition encodeMagCalReportPayload :: "mag_cal_report \<Rightarrow> bytes option" where
  "encodeMagCalReportPayload m = do {
     let p = newBytes (payloadLength (MAVLINK_MESSAGE_IDS ID_MAG_CAL_REPORT));
     p \<leftarrow> setFloat32 0 (mag_cal_report.fitness m) p;
     p \<leftarrow> setFloat32 4 (mag_cal_report.ofsX m) p;
     p \<leftarrow> setFloat32 8 (mag_cal_report.ofsY m) p;
     p \<leftarrow> setFloat32 12 (mag_cal_report.ofsZ m) p;
     p \<leftarrow> setFloat32 16 (mag_cal_report.diagX m) p;
     p \<leftarrow> setFloat32 20 (mag_cal_report.diagY m) p;
     p \<leftarrow> setFloat32 24 (mag_cal_report.diagZ m) p;
     p \<leftarrow> setFloat32 28 (mag_cal_report.offdiagX m) p;
     p \<leftarrow> setFloat32 32 (mag_cal_report.offdiagY m) p;
     p \<leftarrow> setFloat32 36 (mag_cal_report.offdiagZ m) p;
     p \<leftarrow> setUint8 40 (mag_cal_report.compassId m) p;
     p \<leftarrow> setUint8 41 (mag_cal_report.calMask m) p;
     p \<leftarrow> setUint8 42 (mag_cal_report.calStatus m) p;
     p \<leftarrow> setUint8 43 (mag_cal_report.autosaved m) p;
     p \<leftarrow> setFloat32 44 (mag_cal_report.orientationConfidence m) p;
     p \<leftarrow> setUint8 48 (mag_cal_report.oldOrientation m) p;
     p \<leftarrow> setUint8 49 (mag_cal_report.newOrientation m) p;
     p \<leftarrow> setFloat32 50 (mag_cal_report.scaleFactor m) p;
     Some p }"

definition mag_cal_report_ok :: "mag_cal_report \<Rightarrow> bool" where
  "mag_cal_report_ok m \<longleftrightarrow>
     f32_ok (mag_cal_report.fitness m) \<and> f32_ok (mag_cal_report.ofsX m) \<and>
     f32_ok (mag_cal_report.ofsY m) \<and> f32_ok (mag_cal_report.ofsZ m) \<and>
     f32_ok (mag_cal_report.diagX m) \<and> f32_ok (mag_cal_report.diagY m) \<and>
     f32_ok (mag_cal_report.diagZ m) \<and> f32_ok (mag_cal_report.offdiagX m) \<and>
     f32_ok (mag_cal_report.offdiagY m) \<and> f32_ok (mag_cal_report.offdiagZ m) \<and>
     u8_ok (mag_cal_report.compassId m) \<and> u8_ok (mag_cal_report.calMask m) \<and>
     u8_ok (mag_cal_report.calStatus m) \<and> u8_ok (mag_cal_report.autosaved m) \<and>
     f32_ok (mag_cal_report.orientationConfidence m) \<and> u8_ok (mag_cal_report.oldOrientation m) \<and>
     u8_ok (mag_cal_report.newOrientation m) \<and> f32_ok (mag_cal_report.scaleFactor m)"

definition decodeMagCalReportPayload :: "bytes \<Rightarrow> mag_cal_report option" where
  "decodeMagCalReportPayload p = do {
     fitness \<leftarrow> getFloat32 0 p;
     ofsX \<leftarrow> getFloat32 4 p;
     ofsY \<leftarrow> getFloat32 8 p;
     ofsZ \<leftarrow> getFloat32 12 p;
     diagX \<leftarrow> getFloat32 16 p;
     diagY \<leftarrow> getFloat32 20 p;
     diagZ \<leftarrow> getFloat32 24 p;
     offdiagX \<leftarrow> getFloat32 28 p;
     offdiagY \<leftarrow> getFloat32 32 p;
     offdiagZ \<leftarrow> getFloat32 36 p;
     compassId \<leftarrow> getUint8 40 p;
     calMask \<leftarrow> getUint8 41 p;
     calStatus \<leftarrow> getUint8 42 p;
     autosaved \<leftarrow> getUint8 43 p;
     orientationConfidence \<leftarrow> (if length p \<ge> 48 then getFloat32 44 p else Some 0);
     oldOrientation \<leftarrow> (if length p \<ge> 49 then getUint8 48 p else Some 0);
     newOrientation \<leftarrow> (if length p \<ge> 50 then getUint8 49 p else Some 0);
     scaleFactor \<leftarrow> (if length p \<ge> 54 then getFloat32 50 p else Some 0);
     Some \<lparr>mag_cal_report.compassId = compassId, mag_cal_report.calMask = calMask,
       mag_cal_report.calStatus = calStatus, mag_cal_report.autosaved = autosaved,
       mag_cal_report.fitness = fitness, mag_cal_report.ofsX = ofsX, mag_cal_report.ofsY = ofsY,
       mag_cal_report.ofsZ = ofsZ, mag_cal_report.diagX = diagX, mag_cal_report.diagY = diagY,
       mag_cal_report.diagZ = diagZ, mag_cal_report.offdiagX = offdiagX,
       mag_cal_report.offdiagY = offdiagY, mag_cal_report.offdiagZ = offdiagZ,
       mag_cal_report.orientationConfidence = orientationConfidence,
       mag_cal_report.oldOrientation = oldOrientation,
       mag_cal_report.newOrientation = newOrientation, mag_cal_report.scaleFactor = scaleFactor\<rparr> }"

lemma mag_cal_report_roundtrip:
  assumes "mag_cal_report_ok m"
  shows "\<exists>p. encodeMagCalReportPayload m = Some p \<and> length p = 54 \<and> decodeMagCalReportPayload p = Some m"
  using assms
  by (cases m) (simp add: encodeMagCalReportPayload_def decodeMagCalReportPayload_def mag_cal_report_ok_def wire frame_consts Let_def)

lemma decodeMagCalReportPayload_total [total]:
  "54 \<le> length p \<Longrightarrow> \<exists>m. decodeMagCalReportPayload p = Some m"
  by (simp add: decodeMagCalReportPayload_def present)

subsection \<open>OPTICAL_FLOW\<close>

definition encodeOpticalFlowPayload :: "optical_flow \<Rightarrow> bytes option" where
  "encodeOpticalFlowPayload m = do {
     let p = newBytes 34;
     p \<leftarrow> setBigUint64 0 (optical_flow.timeUsec m) p;
     p \<leftarrow> setFloat32 8 (optical_flow.flowCompMx m) p;
     p \<leftarrow> setFloat32 12 (optical_flow.flowCompMy m) p;
     p \<leftarrow> setFloat32 16 (optical_flow.groundDistance m) p;
     p \<leftarrow> setInt16 20 (optical_flow.flowX m) p;
     p \<leftarrow> setInt16 22 (optical_flow.flowY m) p;
     p \<leftarrow> setUint8 24 (optical_flow.sensorId m) p;
     p \<leftarrow> setUint8 25 (optical_flow.quality m) p;
     p \<leftarrow> setFloat32 26 (optical_flow.flowRateX m) p;
     p \<leftarrow> setFloat32 30 (optical_flow.flowRateY m) p;
     Some p }"

definition optical_flow_ok :: "optical_flow \<Rightarrow> bool" where
  "optical_flow_ok m \<longleftrightarrow>
     u64_ok (optical_flow.timeUsec m) \<and> f32_ok (optical_flow.flowCompMx m) \<and>
     f32_ok (optical_flow.flowCompMy m) \<and> f32_ok (optical_flow.groundDistance m) \<and>
     i16_ok (optical_flow.flowX m) \<and> i16_ok (optical_flow.flowY m) \<and>
     u8_ok (optical_flow.sensorId m) \<and> u8_ok (optical_flow.quality m) \<and>
     f32_ok (optical_flow.flowRateX m) \<and> f32_ok (optical_flow.flowRateY m)"

definition decodeOpticalFlowPayload :: "bytes \<Rightarrow> optical_flow option" where
  "decodeOpticalFlowPayload p = do {
     timeUsec \<leftarrow> getBigUint64 0 p;
     flowCompMx \<leftarrow> getFloat32 8 p;
     flowCompMy \<leftarrow> getFloat32 12 p;
     groundDistance \<leftarrow> getFloat32 16 p;
     flowX \<leftarrow> getInt16 20 p;
     flowY \<leftarrow> getInt16 22 p;
     sensorId \<leftarrow> getUint8 24 p;
     quality \<leftarrow> getUint8 25 p;
     flowRateX \<leftarrow> (if length p \<ge> 30 then getFloat32 26 p else Some 0);
     flowRateY \<leftarrow> (if length p \<ge> 34 then getFloat32 30 p else Some 0);
     Some \<lparr>optical_flow.timeUsec = timeUsec, optical_flow.sensorId = sensorId,
       optical_flow.flowX = flowX, optical_flow.flowY = flowY,
       optical_flow.flowCompMx = flowCompMx, optical_flow.flowCompMy = flowCompMy,
       optical_flow.groundDistance = groundDistance, optical_flow.quality = quality,
       optical_flow.flowRateX = flowRateX, optical_flow.flowRateY = flowRateY\<rparr> }"

lemma optical_flow_roundtrip:
  assumes "optical_flow_ok m"
  shows "\<exists>p. encodeOpticalFlowPayload m = Some p \<and> length p = 34 \<and> decodeOpticalFlowPayload p = Some m"
  using assms
  by (cases m) (simp add: encodeOpticalFlowPayload_def decodeOpticalFlowPayload_def optical_flow_ok_def wire frame_consts Let_def)

lemma decodeOpticalFlowPayload_total [total]:
  "34 \<le> length p \<Longrightarrow> \<exists>m. decodeOpticalFlowPayload p = Some m"
  by (simp add: decodeOpticalFlowPayload_def present)

subsection \<open>DISTANCE_SENSOR\<close>

definition encodeDistanceSensorPayload :: "distance_sensor \<Rightarrow> bytes option" where
  "encodeDistanceSensorPayload m = do {
     let p = newBytes 39;
     p \<leftarrow> setUint32 0 (distance_sensor.timeBootMs m) p;
     p \<leftarrow> setUint16 4 (distance_sensor.minDistanceCm m) p;
     p \<leftarrow> setUint16 6 (distance_sensor.maxDistanceCm m) p;
     p \<leftarrow> setUint16 8 (distance_sensor.currentDistanceCm m) p;
     p \<leftarrow> setUint8 10 (distance_sensor.sensorType m) p;
     p \<leftarrow> setUint8 11 (distance_sensor.id m) p;
     p \<leftarrow> setUint8 12 (distance_sensor.orientation m) p;
     p \<leftarrow> setUint8 13 (distance_sensor.covariance m) p;
     p \<leftarrow> setFloat32 14 (distance_sensor.horizontalFov m) p;
     p \<leftarrow> setFloat32 18 (distance_sensor.verticalFov m) p;
     p \<leftarrow> setUint8 38 (distance_sensor.signalQuality m) p;
     Some p }"

definition distance_sensor_ok :: "distance_sensor \<Rightarrow> bool" where
  "distance_sensor_ok m \<longleftrightarrow>
     u32_ok (distance_sensor.timeBootMs m) \<and> u16_ok (distance_sensor.minDistanceCm m) \<and>
     u16_ok (distance_sensor.maxDistanceCm m) \<and> u16_ok (distance_sensor.currentDistanceCm m) \<and>
     u8_ok (distance_sensor.sensorType m) \<and> u8_ok (distance_sensor.id m) \<and>
     u8_ok (distance_sensor.orientation m) \<and> u8_ok (distance_sensor.covariance m) \<and>
     f32_ok (distance_sensor.horizontalFov m) \<and> f32_ok (distance_sensor.verticalFov m) \<and>
     u8_ok (distance_sensor.signalQuality m)"

definition decodeDistanceSensorPayload :: "bytes \<Rightarrow> distance_sensor option" where
  "decodeDistanceSensorPayload p = do {
     timeBootMs \<leftarrow> getUint32 0 p;
     minDistanceCm \<leftarrow> getUint16 4 p;
     maxDistanceCm \<leftarrow> getUint16 6 p;
     currentDistanceCm \<leftarrow> getUint16 8 p;
     sensorType \<leftarrow> getUint8 10 p;
     id \<leftarrow> getUint8 11 p;
     orientation \<leftarrow> getUint8 12 p;
     covariance \<leftarrow> getUint8 13 p;
     horizontalFov \<leftarrow> (if length p \<ge> 18 then getFloat32 14 p else Some 0);
     verticalFov \<leftarrow> (if length p \<ge> 22 then getFloat32 18 p else Some 0);
     signalQuality \<leftarrow> (if length p \<ge> 39 then getUint8 38 p else Some 0);
     Some \<lparr>distance_sensor.timeBootMs = timeBootMs, distance_sensor.minDistanceCm = minDistanceCm,
       distance_sensor.maxDistanceCm = maxDistanceCm,
       distance_sensor.currentDistanceCm = currentDistanceCm,
       distance_sensor.sensorType = sensorType, distance_sensor.id = id,
       distance_sensor.orientation = orientation, distance_sensor.covariance = covariance,
       distance_sensor.horizontalFov = horizontalFov, distance_sensor.verticalFov = verticalFov,
       distance_sensor.signalQuality = signalQuality\<rparr> }"

lemma distance_sensor_roundtrip:
  assumes "distance_sensor_ok m"
  shows "\<exists>p. encodeDistanceSensorPayload m = Some p \<and> length p = 39 \<and> decodeDistanceSensorPayload p = Some m"
  using assms
  by (cases m) (simp add: encodeDistanceSensorPayload_def decodeDistanceSensorPayload_def distance_sensor_ok_def wire frame_consts Let_def)

lemma decodeDistanceSensorPayload_total [total]:
  "39 \<le> length p \<Longrightarrow> \<exists>m. decodeDistanceSensorPayload p = Some m"
  by (simp add: decodeDistanceSensorPayload_def present)

subsection \<open>AVAILABLE_MODE\<close>

definition decodeAvailableModePayload :: "bytes \<Rightarrow> available_mode option" where
  "decodeAvailableModePayload src = do {
     p \<leftarrow> setBytes 0 (slice 0 (min (length src) 46) src) (newBytes 46);
     let rawName = slice 11 46 p;
     let modeName = jsTrim (decodeUtf8 (takeWhile (\<lambda>b. b \<noteq> 0) rawName));
     customMode \<leftarrow> getUint32 0 p;
     properties \<leftarrow> getUint32 4 p;
     numberModes \<leftarrow> byteAt 8 p;
     modeIndex \<leftarrow> byteAt 9 p;
     standardMode \<leftarrow> byteAt 10 p;
     Some \<lparr>available_mode.numberModes = numberModes, available_mode.modeIndex = modeIndex,
       available_mode.standardMode = standardMode, available_mode.customMode = customMode,
       available_mode.properties = properties, available_mode.name = modeName\<rparr> }"

lemma decodeAvailableModePayload_total [total]:
  "46 \<le> length p \<Longrightarrow> \<exists>m. decodeAvailableModePayload p = Some m"
  by (simp add: decodeAvailableModePayload_def present)

subsection \<open>AVAILABLE_MODES_MONITOR\<close>

definition decodeAvailableModesMonitorPayload :: "bytes \<Rightarrow> available_modes_monitor option" where
  "decodeAvailableModesMonitorPayload p = Some \<lparr>available_modes_monitor.sequence = byteOr0 0 p\<rparr>"

lemma decodeAvailableModesMonitorPayload_total [total]:
  "1 \<le> length p \<Longrightarrow> \<exists>m. decodeAvailableModesMonitorPayload p = Some m"
  by (simp add: decodeAvailableModesMonitorPayload_def present)

subsection \<open>ESC_TELEMETRY\<close>

definition ESC_TELEMETRY_GROUP_SIZE :: nat where "ESC_TELEMETRY_GROUP_SIZE = 4"

definition escGroups :: "esc_telemetry \<Rightarrow> int list list" where
  "escGroups m = [esc_telemetry.voltageCv m, esc_telemetry.currentCa m,
     esc_telemetry.totalCurrentMah m, esc_telemetry.rpm m, esc_telemetry.count m]"

fun setEscGroups :: "nat \<Rightarrow> int list list \<Rightarrow> bytes \<Rightarrow> bytes option" where
  "setEscGroups groupIndex [] p = Some p"
| "setEscGroups groupIndex (grp # grps) p = do {
     p \<leftarrow> forSet setUint16 (\<lambda>slot. groupIndex * 8 + slot * 2) (nthOr 0 grp)
            [0..<ESC_TELEMETRY_GROUP_SIZE] p;
     setEscGroups (Suc groupIndex) grps p }"

definition encodeEscTelemetryPayload :: "esc_telemetry \<Rightarrow> bytes option" where
  "encodeEscTelemetryPayload m = do {
     let p = newBytes 44;
     p \<leftarrow> setEscGroups 0 (escGroups m) p;
     p \<leftarrow> forSet setUint8 (\<lambda>slot. 40 + slot) (nthOr 0 (esc_telemetry.temperatureC m))
            [0..<ESC_TELEMETRY_GROUP_SIZE] p;
     Some p }"

definition esc_telemetry_ok :: "esc_telemetry \<Rightarrow> bool" where
  "esc_telemetry_ok m \<longleftrightarrow>
     (\<forall>g\<in>set (escGroups m). length g = 4 \<and> list_all u16_ok g) \<and>
     length (esc_telemetry.temperatureC m) = 4 \<and> list_all u8_ok (esc_telemetry.temperatureC m) \<and>
     esc_telemetry.groupStartIndex m \<in> {0, 4, 8}"

definition readEscTelemetryUint16Group :: "nat \<Rightarrow> bytes \<Rightarrow> int list option" where
  "readEscTelemetryUint16Group offset p =
     forGet getUint16 (\<lambda>i. offset + i * 2) [0..<ESC_TELEMETRY_GROUP_SIZE] p"

definition decodeEscTelemetryPayload :: "bytes \<Rightarrow> int \<Rightarrow> esc_telemetry option" where
  "decodeEscTelemetryPayload p groupStart = do {
     temperatureC \<leftarrow> forGet getUint8 (\<lambda>slot. 40 + slot) [0..<ESC_TELEMETRY_GROUP_SIZE] p;
     voltageCv \<leftarrow> readEscTelemetryUint16Group 0 p;
     currentCa \<leftarrow> readEscTelemetryUint16Group 8 p;
     totalCurrentMah \<leftarrow> readEscTelemetryUint16Group 16 p;
     rpm \<leftarrow> readEscTelemetryUint16Group 24 p;
     count \<leftarrow> readEscTelemetryUint16Group 32 p;
     Some \<lparr>esc_telemetry.groupStartIndex = groupStart,
       esc_telemetry.temperatureC = temperatureC, esc_telemetry.voltageCv = voltageCv,
       esc_telemetry.currentCa = currentCa, esc_telemetry.totalCurrentMah = totalCurrentMah,
       esc_telemetry.rpm = rpm, esc_telemetry.count = count\<rparr> }"

lemma setEscGroups_blocks:
  assumes "\<forall>g\<in>set gs. length g = 4" and "(k + length gs) * 8 \<le> length p"
  shows "setEscGroups k gs p = Some (put (k * 8) (concat (map (\<lambda>g. u16_block (nthOr 0 g) 4) gs)) p)"
  using assms
proof (induction gs arbitrary: k p)
  case (Cons g gs)
  have set: "forSet setUint16 (\<lambda>slot. k * 8 + slot * 2) (nthOr 0 g) [0..<4] p
      = Some (put (k * 8) (u16_block (nthOr 0 g) 4) p)"
    using Cons.prems by (intro forSet_u16) simp
  let ?rest = "concat (map (\<lambda>g. u16_block (nthOr 0 g) 4) gs)"
  have rest: "length ?rest = length gs * 8" by (induction gs) simp_all
  have "put (k * 8 + length (u16_block (nthOr 0 g) 4)) ?rest (put (k * 8) (u16_block (nthOr 0 g) 4) p)
      = put (k * 8) (u16_block (nthOr 0 g) 4 @ ?rest) p"
    using Cons.prems rest by (intro put_adjacent) simp
  then have join: "put (8 + k * 8) ?rest (put (k * 8) (u16_block (nthOr 0 g) 4) p)
      = put (k * 8) (u16_block (nthOr 0 g) 4 @ ?rest) p"
    by (simp add: add.commute)
  have "setEscGroups (Suc k) gs (put (k * 8) (u16_block (nthOr 0 g) 4) p)
      = Some (put (8 + k * 8) ?rest (put (k * 8) (u16_block (nthOr 0 g) 4) p))"
    using Cons.prems by (subst Cons.IH) (simp_all add: length_put)
  with set join show ?case by (simp add: ESC_TELEMETRY_GROUP_SIZE_def)
qed simp

lemma esc_telemetry_roundtrip:
  assumes "esc_telemetry_ok m"
  shows "\<exists>p. encodeEscTelemetryPayload m = Some p \<and> length p = 44 \<and>
    decodeEscTelemetryPayload p (esc_telemetry.groupStartIndex m) = Some m"
proof -
  let ?b = "\<lambda>g. u16_block (nthOr 0 g) 4"
  let ?groups = "put 0 (concat (map ?b (escGroups m))) (newBytes 44)"
  let ?p = "put 40 (u8_block (nthOr 0 (esc_telemetry.temperatureC m)) 4) ?groups"
  note eval = ESC_TELEMETRY_GROUP_SIZE_def escGroups_def esc_telemetry_ok_def
  have groups: "setEscGroups 0 (escGroups m) (newBytes 44) = Some ?groups"
    using assms setEscGroups_blocks [of "escGroups m" 0 "newBytes 44"]
    by (simp add: esc_telemetry_ok_def escGroups_def del: setEscGroups.simps)
  have enc: "encodeEscTelemetryPayload m = Some ?p"
    unfolding encodeEscTelemetryPayload_def Let_def groups
    by (simp add: eval wire)
  have group: "getBytes (k * 8) 8 ?p = Some (?b (escGroups m ! k))" if "k < 5" for k
  proof -
    have "k \<in> {0, 1, 2, 3, 4}" using that by auto
    then show ?thesis by (auto simp: escGroups_def put_def newBytes_def getBytes_def)
  qed
  have groups_get:
    "readEscTelemetryUint16Group (k * 8) ?p = Some (escGroups m ! k)" if "k < 5" for k
  proof -
    have "escGroups m ! k \<in> set (escGroups m)" using that by (intro nth_mem) (simp add: escGroups_def)
    then have ok: "length (escGroups m ! k) = 4" "list_all u16_ok (escGroups m ! k)"
      using assms by (auto simp: esc_telemetry_ok_def)
    have "forGet getUint16 (\<lambda>i. k * 8 + i * 2) [0..<4] ?p
        = Some (map (nthOr 0 (escGroups m ! k)) [0..<4])"
      using group [OF that] ok by (intro forGet_u16) (simp_all add: nthOr_ok)
    then show ?thesis
      using ok by (simp add: readEscTelemetryUint16Group_def ESC_TELEMETRY_GROUP_SIZE_def map_nthOr)
  qed
  have temps: "forGet getUint8 ((+) 40) [0..<4] ?p = Some (esc_telemetry.temperatureC m)"
    using assms forGet_u8 [of 40 4 ?p "nthOr 0 (esc_telemetry.temperatureC m)"]
    by (simp add: eval wire)
  show ?thesis
    using enc temps groups_get [of 0] groups_get [of 1] groups_get [of 2] groups_get [of 3]
      groups_get [of 4]
    by (cases m) (simp add: decodeEscTelemetryPayload_def ESC_TELEMETRY_GROUP_SIZE_def escGroups_def wire)
qed

lemma decodeEscTelemetryPayload_total [total]:
  "44 \<le> length p \<Longrightarrow> \<exists>m. decodeEscTelemetryPayload p k = Some m"
  by (simp add: decodeEscTelemetryPayload_def readEscTelemetryUint16Group_def ESC_TELEMETRY_GROUP_SIZE_def present)

subsection \<open>UAVCAN_NODE_STATUS\<close>

definition encodeUavcanNodeStatusPayload :: "uavcan_node_status \<Rightarrow> bytes option" where
  "encodeUavcanNodeStatusPayload m = do {
     let p = newBytes 17;
     p \<leftarrow> setBigUint64 0 (uavcan_node_status.timeUsec m) p;
     p \<leftarrow> setUint32 8 (uavcan_node_status.uptimeSec m) p;
     p \<leftarrow> setUint16 12 (uavcan_node_status.vendorSpecificStatusCode m) p;
     p \<leftarrow> setUint8 14 (uavcan_node_status.health m) p;
     p \<leftarrow> setUint8 15 (uavcan_node_status.mode m) p;
     p \<leftarrow> setUint8 16 (uavcan_node_status.subMode m) p;
     Some p }"

definition uavcan_node_status_ok :: "uavcan_node_status \<Rightarrow> bool" where
  "uavcan_node_status_ok m \<longleftrightarrow>
     u64_ok (uavcan_node_status.timeUsec m) \<and> u32_ok (uavcan_node_status.uptimeSec m) \<and>
     u16_ok (uavcan_node_status.vendorSpecificStatusCode m) \<and> u8_ok (uavcan_node_status.health m) \<and>
     u8_ok (uavcan_node_status.mode m) \<and> u8_ok (uavcan_node_status.subMode m)"

definition decodeUavcanNodeStatusPayload :: "bytes \<Rightarrow> uavcan_node_status option" where
  "decodeUavcanNodeStatusPayload p = do {
     timeUsec \<leftarrow> getBigUint64 0 p;
     uptimeSec \<leftarrow> getUint32 8 p;
     vendorSpecificStatusCode \<leftarrow> getUint16 12 p;
     health \<leftarrow> getUint8 14 p;
     mode \<leftarrow> getUint8 15 p;
     subMode \<leftarrow> getUint8 16 p;
     Some \<lparr>uavcan_node_status.timeUsec = timeUsec, uavcan_node_status.uptimeSec = uptimeSec,
       uavcan_node_status.health = health, uavcan_node_status.mode = mode,
       uavcan_node_status.subMode = subMode,
       uavcan_node_status.vendorSpecificStatusCode = vendorSpecificStatusCode\<rparr> }"

lemma uavcan_node_status_roundtrip:
  assumes "uavcan_node_status_ok m"
  shows "\<exists>p. encodeUavcanNodeStatusPayload m = Some p \<and> length p = 17 \<and> decodeUavcanNodeStatusPayload p = Some m"
  using assms
  by (cases m) (simp add: encodeUavcanNodeStatusPayload_def decodeUavcanNodeStatusPayload_def uavcan_node_status_ok_def wire frame_consts Let_def)

lemma decodeUavcanNodeStatusPayload_total [total]:
  "17 \<le> length p \<Longrightarrow> \<exists>m. decodeUavcanNodeStatusPayload p = Some m"
  by (simp add: decodeUavcanNodeStatusPayload_def present)

subsection \<open>UAVCAN_NODE_INFO\<close>

definition encodeUavcanNodeInfoPayload :: "uavcan_node_info \<Rightarrow> bytes option" where
  "encodeUavcanNodeInfoPayload m = do {
     let p = newBytes 116;
     p \<leftarrow> setBigUint64 0 (uavcan_node_info.timeUsec m) p;
     p \<leftarrow> setUint32 8 (uavcan_node_info.uptimeSec m) p;
     p \<leftarrow> setUint32 12 (uavcan_node_info.swVcsCommit m) p;
     p \<leftarrow> setBytes 16 (encodeFixedString (uavcan_node_info.name m) 80) p;
     p \<leftarrow> setUint8 96 (uavcan_node_info.hwVersionMajor m) p;
     p \<leftarrow> setUint8 97 (uavcan_node_info.hwVersionMinor m) p;
     p \<leftarrow> setBytes 98 (copyFixedBytes (uavcan_node_info.hwUniqueId m) 16) p;
     p \<leftarrow> setUint8 114 (uavcan_node_info.swVersionMajor m) p;
     p \<leftarrow> setUint8 115 (uavcan_node_info.swVersionMinor m) p;
     Some p }"

definition uavcan_node_info_ok :: "uavcan_node_info \<Rightarrow> bool" where
  "uavcan_node_info_ok m \<longleftrightarrow>
     u64_ok (uavcan_node_info.timeUsec m) \<and> u32_ok (uavcan_node_info.uptimeSec m) \<and>
     u32_ok (uavcan_node_info.swVcsCommit m) \<and> text_fits 80 (uavcan_node_info.name m) \<and>
     u8_ok (uavcan_node_info.hwVersionMajor m) \<and> u8_ok (uavcan_node_info.hwVersionMinor m) \<and>
     length (uavcan_node_info.hwUniqueId m) = 16 \<and> u8_ok (uavcan_node_info.swVersionMajor m) \<and>
     u8_ok (uavcan_node_info.swVersionMinor m)"

definition decodeUavcanNodeInfoPayload :: "bytes \<Rightarrow> uavcan_node_info option" where
  "decodeUavcanNodeInfoPayload p = do {
     timeUsec \<leftarrow> getBigUint64 0 p;
     uptimeSec \<leftarrow> getUint32 8 p;
     swVcsCommit \<leftarrow> getUint32 12 p;
     let name = decodeFixedString (slice 16 96 p);
     hwVersionMajor \<leftarrow> getUint8 96 p;
     hwVersionMinor \<leftarrow> getUint8 97 p;
     let hwUniqueId = slice 98 114 p;
     swVersionMajor \<leftarrow> getUint8 114 p;
     swVersionMinor \<leftarrow> getUint8 115 p;
     Some \<lparr>uavcan_node_info.timeUsec = timeUsec, uavcan_node_info.uptimeSec = uptimeSec,
       uavcan_node_info.name = name, uavcan_node_info.hwVersionMajor = hwVersionMajor,
       uavcan_node_info.hwVersionMinor = hwVersionMinor,
       uavcan_node_info.hwUniqueId = hwUniqueId,
       uavcan_node_info.swVersionMajor = swVersionMajor,
       uavcan_node_info.swVersionMinor = swVersionMinor,
       uavcan_node_info.swVcsCommit = swVcsCommit\<rparr> }"

lemma uavcan_node_info_roundtrip:
  assumes "uavcan_node_info_ok m"
  shows "\<exists>p. encodeUavcanNodeInfoPayload m = Some p \<and> length p = 116 \<and> decodeUavcanNodeInfoPayload p = Some m"
  using assms
  by (cases m) (simp add: encodeUavcanNodeInfoPayload_def decodeUavcanNodeInfoPayload_def uavcan_node_info_ok_def wire frame_consts Let_def)

lemma decodeUavcanNodeInfoPayload_total [total]:
  "116 \<le> length p \<Longrightarrow> \<exists>m. decodeUavcanNodeInfoPayload p = Some m"
  by (simp add: decodeUavcanNodeInfoPayload_def present)

subsection \<open>CANFD_FRAME\<close>

definition encodeCanFdFramePayload :: "can_fd_frame \<Rightarrow> bytes option" where
  "encodeCanFdFramePayload m = do {
     let p = newBytes 72;
     p \<leftarrow> setUint32 0 (can_fd_frame.id m) p;
     p \<leftarrow> setUint8 4 (can_fd_frame.targetSystem m) p;
     p \<leftarrow> setUint8 5 (can_fd_frame.targetComponent m) p;
     p \<leftarrow> setUint8 6 (can_fd_frame.bus m) p;
     p \<leftarrow> setUint8 7 (can_fd_frame.len m) p;
     p \<leftarrow> setBytes 8 (copyFixedBytes (can_fd_frame.data m) 64) p;
     Some p }"

definition can_fd_frame_ok :: "can_fd_frame \<Rightarrow> bool" where
  "can_fd_frame_ok m \<longleftrightarrow>
     u32_ok (can_fd_frame.id m) \<and> u8_ok (can_fd_frame.targetSystem m) \<and>
     u8_ok (can_fd_frame.targetComponent m) \<and> u8_ok (can_fd_frame.bus m) \<and>
     0 \<le> can_fd_frame.len m \<and> can_fd_frame.len m \<le> 64 \<and> length (can_fd_frame.data m) = 64"

definition decodeCanFdFramePayload :: "bytes \<Rightarrow> can_fd_frame option" where
  "decodeCanFdFramePayload src = do {
     p \<leftarrow> setBytes 0 (slice 0 (min (length src) 72) src) (newBytes 72);
     id \<leftarrow> getUint32 0 p;
     targetSystem \<leftarrow> byteAt 4 p;
     targetComponent \<leftarrow> byteAt 5 p;
     bus \<leftarrow> byteAt 6 p;
     len \<leftarrow> map_option (min 64) (byteAt 7 p);
     let data = slice 8 72 p;
     Some \<lparr>can_fd_frame.targetSystem = targetSystem, can_fd_frame.targetComponent = targetComponent,
       can_fd_frame.bus = bus, can_fd_frame.len = len, can_fd_frame.id = id,
       can_fd_frame.data = data\<rparr> }"

lemma can_fd_len_ok: "0 \<le> v \<Longrightarrow> v \<le> 64 \<Longrightarrow> u8_ok v"
  by (simp add: u8_ok_def)

lemma put_whole: "length bs = length p \<Longrightarrow> put 0 bs p = bs"
  by (simp add: put_def)

lemma can_fd_frame_roundtrip:
  assumes "can_fd_frame_ok m"
  shows "\<exists>p. encodeCanFdFramePayload m = Some p \<and> length p = 72 \<and> decodeCanFdFramePayload p = Some m"
  using assms
  by (cases m) (simp add: encodeCanFdFramePayload_def decodeCanFdFramePayload_def
      can_fd_frame_ok_def can_fd_len_ok put_whole wire frame_consts Let_def)

lemma decodeCanFdFramePayload_total [total]:
  "72 \<le> length p \<Longrightarrow> \<exists>m. decodeCanFdFramePayload p = Some m"
  by (simp add: decodeCanFdFramePayload_def present)

subsection \<open>CAN_FRAME\<close>

definition encodeCanFramePayload :: "can_frame \<Rightarrow> bytes option" where
  "encodeCanFramePayload m = do {
     let p = newBytes 16;
     p \<leftarrow> setUint32 0 (can_frame.id m) p;
     p \<leftarrow> setUint8 4 (can_frame.targetSystem m) p;
     p \<leftarrow> setUint8 5 (can_frame.targetComponent m) p;
     p \<leftarrow> setUint8 6 (can_frame.bus m) p;
     p \<leftarrow> setUint8 7 (can_frame.len m) p;
     p \<leftarrow> setBytes 8 (copyFixedBytes (can_frame.data m) 8) p;
     Some p }"

definition can_frame_ok :: "can_frame \<Rightarrow> bool" where
  "can_frame_ok m \<longleftrightarrow>
     u32_ok (can_frame.id m) \<and> u8_ok (can_frame.targetSystem m) \<and>
     u8_ok (can_frame.targetComponent m) \<and> u8_ok (can_frame.bus m) \<and> u8_ok (can_frame.len m) \<and>
     length (can_frame.data m) = 8"

definition decodeCanFramePayload :: "bytes \<Rightarrow> can_frame option" where
  "decodeCanFramePayload p = do {
     id \<leftarrow> getUint32 0 p;
     targetSystem \<leftarrow> getUint8 4 p;
     targetComponent \<leftarrow> getUint8 5 p;
     bus \<leftarrow> getUint8 6 p;
     len \<leftarrow> getUint8 7 p;
     let data = slice 8 16 p;
     Some \<lparr>can_frame.targetSystem = targetSystem, can_frame.targetComponent = targetComponent,
       can_frame.bus = bus, can_frame.len = len, can_frame.id = id, can_frame.data = data\<rparr> }"

lemma can_frame_roundtrip:
  assumes "can_frame_ok m"
  shows "\<exists>p. encodeCanFramePayload m = Some p \<and> length p = 16 \<and> decodeCanFramePayload p = Some m"
  using assms
  by (cases m) (simp add: encodeCanFramePayload_def decodeCanFramePayload_def can_frame_ok_def wire frame_consts Let_def)

lemma decodeCanFramePayload_total [total]:
  "16 \<le> length p \<Longrightarrow> \<exists>m. decodeCanFramePayload p = Some m"
  by (simp add: decodeCanFramePayload_def present)

subsection \<open>SETUP_SIGNING\<close>

definition encodeSetupSigningPayload :: "setup_signing \<Rightarrow> bytes option" where
  "encodeSetupSigningPayload m = do {
     let p = newBytes (payloadLength (MAVLINK_MESSAGE_IDS ID_SETUP_SIGNING));
     p \<leftarrow> setBigUint64 0 (setup_signing.initialTimestamp m) p;
     p \<leftarrow> setUint8 8 (setup_signing.targetSystem m AND 0xFF) p;
     p \<leftarrow> setUint8 9 (setup_signing.targetComponent m AND 0xFF) p;
     p \<leftarrow> setBytes 10 (slice 0 32 (setup_signing.secretKey m)) p;
     Some p }"

definition setup_signing_ok :: "setup_signing \<Rightarrow> bool" where
  "setup_signing_ok m \<longleftrightarrow>
     u64_ok (setup_signing.initialTimestamp m) \<and> u8_ok (setup_signing.targetSystem m) \<and>
     u8_ok (setup_signing.targetComponent m) \<and> length (setup_signing.secretKey m) = 32"

lemma setup_signing_encodes:
  assumes "setup_signing_ok m"
  shows "\<exists>p. encodeSetupSigningPayload m = Some p \<and> length p = 42"
  using assms by (simp add: encodeSetupSigningPayload_def setup_signing_ok_def wire frame_consts Let_def)

end
