(* ===== verification/Mav_Payload.thy ===== *)
theory Mav_Payload
  imports Mav_Payload_A Mav_Payload_B
begin

text \<open>
  The dispatch of \<open>mavlink-v2-codec.ts\<close> (\<open>encodePayload\<close>, \<open>decodePayload\<close>,
  \<open>messageIdFor\<close>), and the round trip of every message a payload can carry in both
  directions. The table-driven codec of \<open>mavlink-generic.ts\<close>, which serves every message
  id outside the hand-written table, is the argument \<open>gc\<close>.

  An encoder or decoder that throws gives \<open>None\<close>; \<open>decodePayload\<close> gives \<open>Some None\<close>
  where the code returns \<open>undefined\<close>.
\<close>

record generic_codec =
  mavlinkGenericCrcExtra :: "int \<Rightarrow> int option"
  genericIdByName :: "string \<Rightarrow> int option"
  encodeGenericPayload :: "string \<Rightarrow> (string \<times> generic_value) list \<Rightarrow> bytes option"
  decodeGenericPayload :: "int \<Rightarrow> bytes \<Rightarrow> generic_message option"

subsection \<open>Dispatch\<close>

fun encodePayload :: "generic_codec \<Rightarrow> mavlink_message \<Rightarrow> bytes option" where
  "encodePayload gc (HEARTBEAT m) = encodeHeartbeatPayload m"
| "encodePayload gc (SYS_STATUS m) = encodeSysStatusPayload m"
| "encodePayload gc (GPS_RAW_INT m) = encodeGpsRawIntPayload m"
| "encodePayload gc (GLOBAL_POSITION_INT m) = encodeGlobalPositionIntPayload m"
| "encodePayload gc (PARAM_REQUEST_LIST m) = encodeParamRequestListPayload m"
| "encodePayload gc (PARAM_REQUEST_READ m) = encodeParamRequestReadPayload m"
| "encodePayload gc (PARAM_VALUE m) = encodeParamValuePayload m"
| "encodePayload gc (PARAM_SET m) = encodeParamSetPayload m"
| "encodePayload gc (ATTITUDE m) = encodeAttitudePayload m"
| "encodePayload gc (RC_CHANNELS m) = encodeRcChannelsPayload m"
| "encodePayload gc (RC_CHANNELS_RAW m) = encodeRcChannelsRawPayload m"
| "encodePayload gc (SERVO_OUTPUT_RAW m) = encodeServoOutputRawPayload m"
| "encodePayload gc (FILE_TRANSFER_PROTOCOL m) = encodeFileTransferProtocolPayload m"
| "encodePayload gc (COMMAND_ACK m) = encodeCommandAckPayload m"
| "encodePayload gc (COMMAND_LONG m) = encodeCommandLongPayload m"
| "encodePayload gc (GPS_INPUT m) = encodeGpsInputPayload m"
| "encodePayload gc (AUTOPILOT_VERSION m) = encodeAutopilotVersionPayload m"
| "encodePayload gc (STATUSTEXT m) = encodeStatusTextPayload m"
| "encodePayload gc (LOG_REQUEST_LIST m) = encodeLogRequestListPayload m"
| "encodePayload gc (LOG_ENTRY m) = encodeLogEntryPayload m"
| "encodePayload gc (LOG_REQUEST_DATA m) = encodeLogRequestDataPayload m"
| "encodePayload gc (LOG_DATA m) = encodeLogDataPayload m"
| "encodePayload gc (LOG_REQUEST_END m) = encodeLogRequestEndPayload m"
| "encodePayload gc (LOG_ERASE m) = encodeLogErasePayload m"
| "encodePayload gc (MAG_CAL_PROGRESS m) = encodeMagCalProgressPayload m"
| "encodePayload gc (MAG_CAL_REPORT m) = encodeMagCalReportPayload m"
| "encodePayload gc (UAVCAN_NODE_STATUS m) = encodeUavcanNodeStatusPayload m"
| "encodePayload gc (UAVCAN_NODE_INFO m) = encodeUavcanNodeInfoPayload m"
| "encodePayload gc (OPTICAL_FLOW m) = encodeOpticalFlowPayload m"
| "encodePayload gc (DISTANCE_SENSOR m) = encodeDistanceSensorPayload m"
| "encodePayload gc (ESC_TELEMETRY m) = encodeEscTelemetryPayload m"
| "encodePayload gc (CAN_FRAME m) = encodeCanFramePayload m"
| "encodePayload gc (CANFD_FRAME m) = encodeCanFdFramePayload m"
| "encodePayload gc (SETUP_SIGNING m) = encodeSetupSigningPayload m"
| "encodePayload gc (SCALED_IMU m) = encodeScaledImuPayload m"
| "encodePayload gc (GENERIC m) =
     encodeGenericPayload gc (generic_message.name m) (generic_message.fieldValues m)"
| "encodePayload gc _ = None"

fun messageIdFor :: "generic_codec \<Rightarrow> mavlink_message \<Rightarrow> int option" where
  "messageIdFor gc (HEARTBEAT m) = Some (MAVLINK_MESSAGE_IDS ID_HEARTBEAT)"
| "messageIdFor gc (SYS_STATUS m) = Some (MAVLINK_MESSAGE_IDS ID_SYS_STATUS)"
| "messageIdFor gc (GPS_RAW_INT m) = Some (MAVLINK_MESSAGE_IDS ID_GPS_RAW_INT)"
| "messageIdFor gc (GLOBAL_POSITION_INT m) = Some (MAVLINK_MESSAGE_IDS ID_GLOBAL_POSITION_INT)"
| "messageIdFor gc (PARAM_REQUEST_LIST m) = Some (MAVLINK_MESSAGE_IDS ID_PARAM_REQUEST_LIST)"
| "messageIdFor gc (PARAM_REQUEST_READ m) = Some (MAVLINK_MESSAGE_IDS ID_PARAM_REQUEST_READ)"
| "messageIdFor gc (PARAM_VALUE m) = Some (MAVLINK_MESSAGE_IDS ID_PARAM_VALUE)"
| "messageIdFor gc (PARAM_SET m) = Some (MAVLINK_MESSAGE_IDS ID_PARAM_SET)"
| "messageIdFor gc (SCALED_IMU m) = Some (MAVLINK_MESSAGE_IDS ID_SCALED_IMU)"
| "messageIdFor gc (ATTITUDE m) = Some (MAVLINK_MESSAGE_IDS ID_ATTITUDE)"
| "messageIdFor gc (RC_CHANNELS m) = Some (MAVLINK_MESSAGE_IDS ID_RC_CHANNELS)"
| "messageIdFor gc (RC_CHANNELS_RAW m) = Some (MAVLINK_MESSAGE_IDS ID_RC_CHANNELS_RAW)"
| "messageIdFor gc (SERVO_OUTPUT_RAW m) = Some (MAVLINK_MESSAGE_IDS ID_SERVO_OUTPUT_RAW)"
| "messageIdFor gc (FILE_TRANSFER_PROTOCOL m) = Some (MAVLINK_MESSAGE_IDS ID_FILE_TRANSFER_PROTOCOL)"
| "messageIdFor gc (COMMAND_ACK m) = Some (MAVLINK_MESSAGE_IDS ID_COMMAND_ACK)"
| "messageIdFor gc (COMMAND_LONG m) = Some (MAVLINK_MESSAGE_IDS ID_COMMAND_LONG)"
| "messageIdFor gc (GPS_INPUT m) = Some (MAVLINK_MESSAGE_IDS ID_GPS_INPUT)"
| "messageIdFor gc (AUTOPILOT_VERSION m) = Some (MAVLINK_MESSAGE_IDS ID_AUTOPILOT_VERSION)"
| "messageIdFor gc (STATUSTEXT m) = Some (MAVLINK_MESSAGE_IDS ID_STATUSTEXT)"
| "messageIdFor gc (LOG_ERASE m) = Some (MAVLINK_MESSAGE_IDS ID_LOG_ERASE)"
| "messageIdFor gc (LOG_REQUEST_LIST m) = Some (MAVLINK_MESSAGE_IDS ID_LOG_REQUEST_LIST)"
| "messageIdFor gc (LOG_ENTRY m) = Some (MAVLINK_MESSAGE_IDS ID_LOG_ENTRY)"
| "messageIdFor gc (LOG_REQUEST_DATA m) = Some (MAVLINK_MESSAGE_IDS ID_LOG_REQUEST_DATA)"
| "messageIdFor gc (LOG_DATA m) = Some (MAVLINK_MESSAGE_IDS ID_LOG_DATA)"
| "messageIdFor gc (LOG_REQUEST_END m) = Some (MAVLINK_MESSAGE_IDS ID_LOG_REQUEST_END)"
| "messageIdFor gc (MAG_CAL_PROGRESS m) = Some (MAVLINK_MESSAGE_IDS ID_MAG_CAL_PROGRESS)"
| "messageIdFor gc (MAG_CAL_REPORT m) = Some (MAVLINK_MESSAGE_IDS ID_MAG_CAL_REPORT)"
| "messageIdFor gc (UAVCAN_NODE_STATUS m) = Some (MAVLINK_MESSAGE_IDS ID_UAVCAN_NODE_STATUS)"
| "messageIdFor gc (UAVCAN_NODE_INFO m) = Some (MAVLINK_MESSAGE_IDS ID_UAVCAN_NODE_INFO)"
| "messageIdFor gc (OPTICAL_FLOW m) = Some (MAVLINK_MESSAGE_IDS ID_OPTICAL_FLOW)"
| "messageIdFor gc (DISTANCE_SENSOR m) = Some (MAVLINK_MESSAGE_IDS ID_DISTANCE_SENSOR)"
| "messageIdFor gc (CAN_FRAME m) = Some (MAVLINK_MESSAGE_IDS ID_CAN_FRAME)"
| "messageIdFor gc (CANFD_FRAME m) = Some (MAVLINK_MESSAGE_IDS ID_CANFD_FRAME)"
| "messageIdFor gc (SETUP_SIGNING m) = Some (MAVLINK_MESSAGE_IDS ID_SETUP_SIGNING)"
| "messageIdFor gc (ESC_TELEMETRY m) = Some
     (if esc_telemetry.groupStartIndex m \<ge> 8 then MAVLINK_MESSAGE_IDS ID_ESC_TELEMETRY_9_TO_12
      else if esc_telemetry.groupStartIndex m \<ge> 4 then MAVLINK_MESSAGE_IDS ID_ESC_TELEMETRY_5_TO_8
      else MAVLINK_MESSAGE_IDS ID_ESC_TELEMETRY_1_TO_4)"
| "messageIdFor gc (GENERIC m) = genericIdByName gc (generic_message.name m)"
| "messageIdFor gc _ = None"

definition decodePayload :: "generic_codec \<Rightarrow> int \<Rightarrow> bytes \<Rightarrow> mavlink_message option option" where
  "decodePayload gc i p =
    (if i = MAVLINK_MESSAGE_IDS ID_HEARTBEAT then map_option (Some \<circ> HEARTBEAT) (decodeHeartbeatPayload p)
     else if i = MAVLINK_MESSAGE_IDS ID_SYS_STATUS then map_option (Some \<circ> SYS_STATUS) (decodeSysStatusPayload p)
     else if i = MAVLINK_MESSAGE_IDS ID_GPS_RAW_INT then map_option (Some \<circ> GPS_RAW_INT) (decodeGpsRawIntPayload p)
     else if i = MAVLINK_MESSAGE_IDS ID_GLOBAL_POSITION_INT then map_option (Some \<circ> GLOBAL_POSITION_INT) (decodeGlobalPositionIntPayload p)
     else if i = MAVLINK_MESSAGE_IDS ID_PARAM_REQUEST_LIST then map_option (Some \<circ> PARAM_REQUEST_LIST) (decodeParamRequestListPayload p)
     else if i = MAVLINK_MESSAGE_IDS ID_PARAM_REQUEST_READ then map_option (Some \<circ> PARAM_REQUEST_READ) (decodeParamRequestReadPayload p)
     else if i = MAVLINK_MESSAGE_IDS ID_PARAM_VALUE then map_option (Some \<circ> PARAM_VALUE) (decodeParamValuePayload p)
     else if i = MAVLINK_MESSAGE_IDS ID_PARAM_SET then map_option (Some \<circ> PARAM_SET) (decodeParamSetPayload p)
     else if i = MAVLINK_MESSAGE_IDS ID_ATTITUDE then map_option (Some \<circ> ATTITUDE) (decodeAttitudePayload p)
     else if i = MAVLINK_MESSAGE_IDS ID_ATTITUDE_QUATERNION then map_option (Some \<circ> ATTITUDE_QUATERNION) (decodeAttitudeQuaternionPayload p)
     else if i = MAVLINK_MESSAGE_IDS ID_SCALED_IMU then map_option (Some \<circ> SCALED_IMU) (decodeScaledImuPayload p)
     else if i = MAVLINK_MESSAGE_IDS ID_RC_CHANNELS then map_option (Some \<circ> RC_CHANNELS) (decodeRcChannelsPayload p)
     else if i = MAVLINK_MESSAGE_IDS ID_RC_CHANNELS_RAW then map_option (Some \<circ> RC_CHANNELS_RAW) (decodeRcChannelsRawPayload p)
     else if i = MAVLINK_MESSAGE_IDS ID_SERVO_OUTPUT_RAW then map_option (Some \<circ> SERVO_OUTPUT_RAW) (decodeServoOutputRawPayload p)
     else if i = MAVLINK_MESSAGE_IDS ID_FILE_TRANSFER_PROTOCOL then map_option (Some \<circ> FILE_TRANSFER_PROTOCOL) (decodeFileTransferProtocolPayload p)
     else if i = MAVLINK_MESSAGE_IDS ID_COMMAND_ACK then map_option (Some \<circ> COMMAND_ACK) (decodeCommandAckPayload p)
     else if i = MAVLINK_MESSAGE_IDS ID_COMMAND_LONG then map_option (Some \<circ> COMMAND_LONG) (decodeCommandLongPayload p)
     else if i = MAVLINK_MESSAGE_IDS ID_AUTOPILOT_VERSION then map_option (Some \<circ> AUTOPILOT_VERSION) (decodeAutopilotVersionPayload p)
     else if i = MAVLINK_MESSAGE_IDS ID_STATUSTEXT then map_option (Some \<circ> STATUSTEXT) (decodeStatusTextPayload p)
     else if i = MAVLINK_MESSAGE_IDS ID_LOG_REQUEST_LIST then map_option (Some \<circ> LOG_REQUEST_LIST) (decodeLogRequestListPayload p)
     else if i = MAVLINK_MESSAGE_IDS ID_LOG_ENTRY then map_option (Some \<circ> LOG_ENTRY) (decodeLogEntryPayload p)
     else if i = MAVLINK_MESSAGE_IDS ID_LOG_REQUEST_DATA then map_option (Some \<circ> LOG_REQUEST_DATA) (decodeLogRequestDataPayload p)
     else if i = MAVLINK_MESSAGE_IDS ID_LOG_DATA then map_option (Some \<circ> LOG_DATA) (decodeLogDataPayload p)
     else if i = MAVLINK_MESSAGE_IDS ID_LOG_REQUEST_END then map_option (Some \<circ> LOG_REQUEST_END) (decodeLogRequestEndPayload p)
     else if i = MAVLINK_MESSAGE_IDS ID_LOG_ERASE then map_option (Some \<circ> LOG_ERASE) (decodeLogErasePayload p)
     else if i = MAVLINK_MESSAGE_IDS ID_MAG_CAL_PROGRESS then map_option (Some \<circ> MAG_CAL_PROGRESS) (decodeMagCalProgressPayload p)
     else if i = MAVLINK_MESSAGE_IDS ID_MAG_CAL_REPORT then map_option (Some \<circ> MAG_CAL_REPORT) (decodeMagCalReportPayload p)
     else if i = MAVLINK_MESSAGE_IDS ID_UAVCAN_NODE_STATUS then map_option (Some \<circ> UAVCAN_NODE_STATUS) (decodeUavcanNodeStatusPayload p)
     else if i = MAVLINK_MESSAGE_IDS ID_UAVCAN_NODE_INFO then map_option (Some \<circ> UAVCAN_NODE_INFO) (decodeUavcanNodeInfoPayload p)
     else if i = MAVLINK_MESSAGE_IDS ID_OPTICAL_FLOW then map_option (Some \<circ> OPTICAL_FLOW) (decodeOpticalFlowPayload p)
     else if i = MAVLINK_MESSAGE_IDS ID_DISTANCE_SENSOR then map_option (Some \<circ> DISTANCE_SENSOR) (decodeDistanceSensorPayload p)
     else if i = MAVLINK_MESSAGE_IDS ID_ESC_TELEMETRY_1_TO_4 then map_option (Some \<circ> ESC_TELEMETRY) (decodeEscTelemetryPayload p 0)
     else if i = MAVLINK_MESSAGE_IDS ID_ESC_TELEMETRY_5_TO_8 then map_option (Some \<circ> ESC_TELEMETRY) (decodeEscTelemetryPayload p 4)
     else if i = MAVLINK_MESSAGE_IDS ID_ESC_TELEMETRY_9_TO_12 then map_option (Some \<circ> ESC_TELEMETRY) (decodeEscTelemetryPayload p 8)
     else if i = MAVLINK_MESSAGE_IDS ID_AVAILABLE_MODES then map_option (Some \<circ> AVAILABLE_MODE) (decodeAvailableModePayload p)
     else if i = MAVLINK_MESSAGE_IDS ID_AVAILABLE_MODES_MONITOR then map_option (Some \<circ> AVAILABLE_MODES_MONITOR) (decodeAvailableModesMonitorPayload p)
     else if i = MAVLINK_MESSAGE_IDS ID_CAN_FRAME then map_option (Some \<circ> CAN_FRAME) (decodeCanFramePayload p)
     else if i = MAVLINK_MESSAGE_IDS ID_CANFD_FRAME then map_option (Some \<circ> CANFD_FRAME) (decodeCanFdFramePayload p)
     else Some (if MAVLINK_MESSAGE_CRCS i = None then map_option GENERIC (decodeGenericPayload gc i p)
                else None))"

lemma decodePayload_rows:
  "decodePayload gc (MAVLINK_MESSAGE_IDS ID_HEARTBEAT) p = map_option (Some \<circ> HEARTBEAT) (decodeHeartbeatPayload p)"
  "decodePayload gc (MAVLINK_MESSAGE_IDS ID_SYS_STATUS) p = map_option (Some \<circ> SYS_STATUS) (decodeSysStatusPayload p)"
  "decodePayload gc (MAVLINK_MESSAGE_IDS ID_GPS_RAW_INT) p = map_option (Some \<circ> GPS_RAW_INT) (decodeGpsRawIntPayload p)"
  "decodePayload gc (MAVLINK_MESSAGE_IDS ID_GLOBAL_POSITION_INT) p = map_option (Some \<circ> GLOBAL_POSITION_INT) (decodeGlobalPositionIntPayload p)"
  "decodePayload gc (MAVLINK_MESSAGE_IDS ID_PARAM_REQUEST_LIST) p = map_option (Some \<circ> PARAM_REQUEST_LIST) (decodeParamRequestListPayload p)"
  "decodePayload gc (MAVLINK_MESSAGE_IDS ID_PARAM_REQUEST_READ) p = map_option (Some \<circ> PARAM_REQUEST_READ) (decodeParamRequestReadPayload p)"
  "decodePayload gc (MAVLINK_MESSAGE_IDS ID_PARAM_VALUE) p = map_option (Some \<circ> PARAM_VALUE) (decodeParamValuePayload p)"
  "decodePayload gc (MAVLINK_MESSAGE_IDS ID_PARAM_SET) p = map_option (Some \<circ> PARAM_SET) (decodeParamSetPayload p)"
  "decodePayload gc (MAVLINK_MESSAGE_IDS ID_ATTITUDE) p = map_option (Some \<circ> ATTITUDE) (decodeAttitudePayload p)"
  "decodePayload gc (MAVLINK_MESSAGE_IDS ID_ATTITUDE_QUATERNION) p = map_option (Some \<circ> ATTITUDE_QUATERNION) (decodeAttitudeQuaternionPayload p)"
  "decodePayload gc (MAVLINK_MESSAGE_IDS ID_SCALED_IMU) p = map_option (Some \<circ> SCALED_IMU) (decodeScaledImuPayload p)"
  "decodePayload gc (MAVLINK_MESSAGE_IDS ID_RC_CHANNELS) p = map_option (Some \<circ> RC_CHANNELS) (decodeRcChannelsPayload p)"
  "decodePayload gc (MAVLINK_MESSAGE_IDS ID_RC_CHANNELS_RAW) p = map_option (Some \<circ> RC_CHANNELS_RAW) (decodeRcChannelsRawPayload p)"
  "decodePayload gc (MAVLINK_MESSAGE_IDS ID_SERVO_OUTPUT_RAW) p = map_option (Some \<circ> SERVO_OUTPUT_RAW) (decodeServoOutputRawPayload p)"
  "decodePayload gc (MAVLINK_MESSAGE_IDS ID_FILE_TRANSFER_PROTOCOL) p = map_option (Some \<circ> FILE_TRANSFER_PROTOCOL) (decodeFileTransferProtocolPayload p)"
  "decodePayload gc (MAVLINK_MESSAGE_IDS ID_COMMAND_ACK) p = map_option (Some \<circ> COMMAND_ACK) (decodeCommandAckPayload p)"
  "decodePayload gc (MAVLINK_MESSAGE_IDS ID_COMMAND_LONG) p = map_option (Some \<circ> COMMAND_LONG) (decodeCommandLongPayload p)"
  "decodePayload gc (MAVLINK_MESSAGE_IDS ID_AUTOPILOT_VERSION) p = map_option (Some \<circ> AUTOPILOT_VERSION) (decodeAutopilotVersionPayload p)"
  "decodePayload gc (MAVLINK_MESSAGE_IDS ID_STATUSTEXT) p = map_option (Some \<circ> STATUSTEXT) (decodeStatusTextPayload p)"
  "decodePayload gc (MAVLINK_MESSAGE_IDS ID_LOG_REQUEST_LIST) p = map_option (Some \<circ> LOG_REQUEST_LIST) (decodeLogRequestListPayload p)"
  "decodePayload gc (MAVLINK_MESSAGE_IDS ID_LOG_ENTRY) p = map_option (Some \<circ> LOG_ENTRY) (decodeLogEntryPayload p)"
  "decodePayload gc (MAVLINK_MESSAGE_IDS ID_LOG_REQUEST_DATA) p = map_option (Some \<circ> LOG_REQUEST_DATA) (decodeLogRequestDataPayload p)"
  "decodePayload gc (MAVLINK_MESSAGE_IDS ID_LOG_DATA) p = map_option (Some \<circ> LOG_DATA) (decodeLogDataPayload p)"
  "decodePayload gc (MAVLINK_MESSAGE_IDS ID_LOG_REQUEST_END) p = map_option (Some \<circ> LOG_REQUEST_END) (decodeLogRequestEndPayload p)"
  "decodePayload gc (MAVLINK_MESSAGE_IDS ID_LOG_ERASE) p = map_option (Some \<circ> LOG_ERASE) (decodeLogErasePayload p)"
  "decodePayload gc (MAVLINK_MESSAGE_IDS ID_MAG_CAL_PROGRESS) p = map_option (Some \<circ> MAG_CAL_PROGRESS) (decodeMagCalProgressPayload p)"
  "decodePayload gc (MAVLINK_MESSAGE_IDS ID_MAG_CAL_REPORT) p = map_option (Some \<circ> MAG_CAL_REPORT) (decodeMagCalReportPayload p)"
  "decodePayload gc (MAVLINK_MESSAGE_IDS ID_UAVCAN_NODE_STATUS) p = map_option (Some \<circ> UAVCAN_NODE_STATUS) (decodeUavcanNodeStatusPayload p)"
  "decodePayload gc (MAVLINK_MESSAGE_IDS ID_UAVCAN_NODE_INFO) p = map_option (Some \<circ> UAVCAN_NODE_INFO) (decodeUavcanNodeInfoPayload p)"
  "decodePayload gc (MAVLINK_MESSAGE_IDS ID_OPTICAL_FLOW) p = map_option (Some \<circ> OPTICAL_FLOW) (decodeOpticalFlowPayload p)"
  "decodePayload gc (MAVLINK_MESSAGE_IDS ID_DISTANCE_SENSOR) p = map_option (Some \<circ> DISTANCE_SENSOR) (decodeDistanceSensorPayload p)"
  "decodePayload gc (MAVLINK_MESSAGE_IDS ID_ESC_TELEMETRY_1_TO_4) p = map_option (Some \<circ> ESC_TELEMETRY) (decodeEscTelemetryPayload p 0)"
  "decodePayload gc (MAVLINK_MESSAGE_IDS ID_ESC_TELEMETRY_5_TO_8) p = map_option (Some \<circ> ESC_TELEMETRY) (decodeEscTelemetryPayload p 4)"
  "decodePayload gc (MAVLINK_MESSAGE_IDS ID_ESC_TELEMETRY_9_TO_12) p = map_option (Some \<circ> ESC_TELEMETRY) (decodeEscTelemetryPayload p 8)"
  "decodePayload gc (MAVLINK_MESSAGE_IDS ID_AVAILABLE_MODES) p = map_option (Some \<circ> AVAILABLE_MODE) (decodeAvailableModePayload p)"
  "decodePayload gc (MAVLINK_MESSAGE_IDS ID_AVAILABLE_MODES_MONITOR) p = map_option (Some \<circ> AVAILABLE_MODES_MONITOR) (decodeAvailableModesMonitorPayload p)"
  "decodePayload gc (MAVLINK_MESSAGE_IDS ID_CAN_FRAME) p = map_option (Some \<circ> CAN_FRAME) (decodeCanFramePayload p)"
  "decodePayload gc (MAVLINK_MESSAGE_IDS ID_CANFD_FRAME) p = map_option (Some \<circ> CANFD_FRAME) (decodeCanFdFramePayload p)"
  by (simp_all add: decodePayload_def)

text \<open>The zeros a receiver restores: \<open>payload.set(...)\<close> into an array of the declared length.\<close>

definition zeroPad :: "int \<Rightarrow> bytes \<Rightarrow> bytes" where
  "zeroPad i p =
     put 0 p (newBytes (max (case MAVLINK_PAYLOAD_LENGTHS i of None \<Rightarrow> length p | Some n \<Rightarrow> n) (length p)))"

subsection \<open>The messages that travel both ways\<close>

text \<open>The values a message can carry, and the message its receiver sees.\<close>

fun message_ok :: "mavlink_message \<Rightarrow> bool" where
  "message_ok (HEARTBEAT m) \<longleftrightarrow> heartbeat_ok m \<and> heartbeat.mavlinkVersion m \<noteq> 0"
| "message_ok (SYS_STATUS m) \<longleftrightarrow> sys_status_ok m"
| "message_ok (GPS_RAW_INT m) \<longleftrightarrow> gps_raw_int_ok m"
| "message_ok (GLOBAL_POSITION_INT m) \<longleftrightarrow> global_position_int_ok m"
| "message_ok (PARAM_REQUEST_LIST m) \<longleftrightarrow> param_request_list_ok m"
| "message_ok (PARAM_REQUEST_READ m) \<longleftrightarrow> param_request_read_ok m"
| "message_ok (PARAM_VALUE m) \<longleftrightarrow> param_value_ok m"
| "message_ok (PARAM_SET m) \<longleftrightarrow> param_set_ok m"
| "message_ok (ATTITUDE m) \<longleftrightarrow> attitude_ok m"
| "message_ok (RC_CHANNELS m) \<longleftrightarrow> rc_channels_ok m"
| "message_ok (RC_CHANNELS_RAW m) \<longleftrightarrow> rc_channels_raw_ok m"
| "message_ok (SERVO_OUTPUT_RAW m) \<longleftrightarrow> servo_output_raw_ok m"
| "message_ok (FILE_TRANSFER_PROTOCOL m) \<longleftrightarrow> file_transfer_protocol_ok m"
| "message_ok (COMMAND_ACK m) \<longleftrightarrow> command_ack_ok m"
| "message_ok (COMMAND_LONG m) \<longleftrightarrow> command_long_ok m"
| "message_ok (AUTOPILOT_VERSION m) \<longleftrightarrow> autopilot_version_ok m"
| "message_ok (STATUSTEXT m) \<longleftrightarrow> status_text_ok m"
| "message_ok (LOG_REQUEST_LIST m) \<longleftrightarrow> log_request_list_ok m"
| "message_ok (LOG_ENTRY m) \<longleftrightarrow> log_entry_ok m"
| "message_ok (LOG_REQUEST_DATA m) \<longleftrightarrow> log_request_data_ok m"
| "message_ok (LOG_DATA m) \<longleftrightarrow> log_data_ok m"
| "message_ok (LOG_REQUEST_END m) \<longleftrightarrow> log_request_end_ok m"
| "message_ok (LOG_ERASE m) \<longleftrightarrow> log_erase_ok m"
| "message_ok (MAG_CAL_PROGRESS m) \<longleftrightarrow> mag_cal_progress_ok m"
| "message_ok (MAG_CAL_REPORT m) \<longleftrightarrow> mag_cal_report_ok m"
| "message_ok (UAVCAN_NODE_STATUS m) \<longleftrightarrow> uavcan_node_status_ok m"
| "message_ok (UAVCAN_NODE_INFO m) \<longleftrightarrow> uavcan_node_info_ok m"
| "message_ok (OPTICAL_FLOW m) \<longleftrightarrow> optical_flow_ok m"
| "message_ok (DISTANCE_SENSOR m) \<longleftrightarrow> distance_sensor_ok m"
| "message_ok (ESC_TELEMETRY m) \<longleftrightarrow> esc_telemetry_ok m"
| "message_ok (CAN_FRAME m) \<longleftrightarrow> can_frame_ok m"
| "message_ok (CANFD_FRAME m) \<longleftrightarrow> can_fd_frame_ok m"
| "message_ok (SCALED_IMU m) \<longleftrightarrow> scaled_imu_ok m"
| "message_ok _ \<longleftrightarrow> False"

fun received :: "mavlink_message \<Rightarrow> mavlink_message" where
  "received (AUTOPILOT_VERSION m) = AUTOPILOT_VERSION (autopilot_version_received m)"
| "received m = m"

lemma esc_telemetry_carried:
  assumes "esc_telemetry_ok m"
  shows "(esc_telemetry.groupStartIndex m = 0 \<or> esc_telemetry.groupStartIndex m = 4 \<or>
      esc_telemetry.groupStartIndex m = 8) \<and>
    (\<exists>p. encodeEscTelemetryPayload m = Some p \<and> length p = 44 \<and>
      decodeEscTelemetryPayload p (esc_telemetry.groupStartIndex m) = Some m)"
  using assms esc_telemetry_roundtrip [OF assms] by (simp add: esc_telemetry_ok_def)

lemmas payload_roundtrips =
  heartbeat_roundtrip
  sys_status_roundtrip
  gps_raw_int_roundtrip
  global_position_int_roundtrip
  param_request_list_roundtrip
  param_request_read_roundtrip
  param_value_roundtrip
  param_set_roundtrip
  attitude_roundtrip
  rc_channels_roundtrip
  rc_channels_raw_roundtrip
  servo_output_raw_roundtrip
  file_transfer_protocol_roundtrip
  command_ack_roundtrip
  command_long_roundtrip
  autopilot_version_roundtrip
  status_text_roundtrip
  log_request_list_roundtrip
  log_entry_roundtrip
  log_request_data_roundtrip
  log_data_roundtrip
  log_request_end_roundtrip
  log_erase_roundtrip
  mag_cal_progress_roundtrip
  mag_cal_report_roundtrip
  uavcan_node_status_roundtrip
  uavcan_node_info_roundtrip
  optical_flow_roundtrip
  distance_sensor_roundtrip
  esc_telemetry_carried
  can_frame_roundtrip
  can_fd_frame_roundtrip
  scaled_imu_roundtrip

lemmas payload_totals =
  decodeHeartbeatPayload_total
  decodeSysStatusPayload_total
  decodeGpsRawIntPayload_total
  decodeGlobalPositionIntPayload_total
  decodeParamRequestListPayload_total
  decodeParamRequestReadPayload_total
  decodeParamValuePayload_total
  decodeParamSetPayload_total
  decodeAttitudePayload_total
  decodeAttitudeQuaternionPayload_total
  decodeScaledImuPayload_total
  decodeRcChannelsPayload_total
  decodeRcChannelsRawPayload_total
  decodeServoOutputRawPayload_total
  decodeFileTransferProtocolPayload_total
  decodeCommandAckPayload_total
  decodeCommandLongPayload_total
  decodeAutopilotVersionPayload_total
  decodeStatusTextPayload_total
  decodeLogRequestListPayload_total
  decodeLogEntryPayload_total
  decodeLogRequestDataPayload_total
  decodeLogDataPayload_total
  decodeLogRequestEndPayload_total
  decodeLogErasePayload_total
  decodeMagCalProgressPayload_total
  decodeMagCalReportPayload_total
  decodeUavcanNodeStatusPayload_total
  decodeUavcanNodeInfoPayload_total
  decodeOpticalFlowPayload_total
  decodeDistanceSensorPayload_total
  decodeEscTelemetryPayload_total
  decodeAvailableModePayload_total
  decodeAvailableModesMonitorPayload_total
  decodeCanFramePayload_total
  decodeCanFdFramePayload_total

text \<open>The declared lengths, evaluated once.\<close>

lemma declared_lengths [simp]:
  "MAVLINK_PAYLOAD_LENGTHS 0 = Some 9"
  "MAVLINK_PAYLOAD_LENGTHS 1 = Some 43"
  "MAVLINK_PAYLOAD_LENGTHS 100 = Some 34"
  "MAVLINK_PAYLOAD_LENGTHS 132 = Some 39"
  "MAVLINK_PAYLOAD_LENGTHS 386 = Some 16"
  "MAVLINK_PAYLOAD_LENGTHS 387 = Some 72"
  "MAVLINK_PAYLOAD_LENGTHS 24 = Some 30"
  "MAVLINK_PAYLOAD_LENGTHS 33 = Some 28"
  "MAVLINK_PAYLOAD_LENGTHS 20 = Some 20"
  "MAVLINK_PAYLOAD_LENGTHS 21 = Some 2"
  "MAVLINK_PAYLOAD_LENGTHS 22 = Some 25"
  "MAVLINK_PAYLOAD_LENGTHS 23 = Some 23"
  "MAVLINK_PAYLOAD_LENGTHS 30 = Some 28"
  "MAVLINK_PAYLOAD_LENGTHS 31 = Some 32"
  "MAVLINK_PAYLOAD_LENGTHS 26 = Some 24"
  "MAVLINK_PAYLOAD_LENGTHS 65 = Some 42"
  "MAVLINK_PAYLOAD_LENGTHS 35 = Some 22"
  "MAVLINK_PAYLOAD_LENGTHS 36 = Some 37"
  "MAVLINK_PAYLOAD_LENGTHS 110 = Some 254"
  "MAVLINK_PAYLOAD_LENGTHS 77 = Some 10"
  "MAVLINK_PAYLOAD_LENGTHS 76 = Some 33"
  "MAVLINK_PAYLOAD_LENGTHS 148 = Some 78"
  "MAVLINK_PAYLOAD_LENGTHS 253 = Some 54"
  "MAVLINK_PAYLOAD_LENGTHS 117 = Some 6"
  "MAVLINK_PAYLOAD_LENGTHS 118 = Some 14"
  "MAVLINK_PAYLOAD_LENGTHS 119 = Some 12"
  "MAVLINK_PAYLOAD_LENGTHS 120 = Some 97"
  "MAVLINK_PAYLOAD_LENGTHS 122 = Some 2"
  "MAVLINK_PAYLOAD_LENGTHS 121 = Some 2"
  "MAVLINK_PAYLOAD_LENGTHS 191 = Some 27"
  "MAVLINK_PAYLOAD_LENGTHS 192 = Some 54"
  "MAVLINK_PAYLOAD_LENGTHS 310 = Some 17"
  "MAVLINK_PAYLOAD_LENGTHS 311 = Some 116"
  "MAVLINK_PAYLOAD_LENGTHS 256 = Some 42"
  "MAVLINK_PAYLOAD_LENGTHS 232 = Some 63"
  "MAVLINK_PAYLOAD_LENGTHS 11030 = Some 44"
  "MAVLINK_PAYLOAD_LENGTHS 11031 = Some 44"
  "MAVLINK_PAYLOAD_LENGTHS 11032 = Some 44"
  "MAVLINK_PAYLOAD_LENGTHS 435 = Some 46"
  "MAVLINK_PAYLOAD_LENGTHS 437 = Some 1"
  by (simp_all add: MAVLINK_PAYLOAD_LENGTHS_def)

lemma zeroPad_full: "MAVLINK_PAYLOAD_LENGTHS i = Some n \<Longrightarrow> length p = n \<Longrightarrow> zeroPad i p = p"
  by (simp add: zeroPad_def put_def)

lemma zeroPad_short:
  "MAVLINK_PAYLOAD_LENGTHS i = Some n \<Longrightarrow> length p \<le> n \<Longrightarrow> zeroPad i p = p @ replicate (n - length p) 0"
  by (simp add: zeroPad_def put_def newBytes_def)

lemma length_zeroPad_ge:
  "MAVLINK_PAYLOAD_LENGTHS i = Some n \<Longrightarrow> n \<le> length (zeroPad i p)"
  by (simp add: zeroPad_def put_def)

lemma zeroPad_undeclared: "MAVLINK_PAYLOAD_LENGTHS i = None \<Longrightarrow> zeroPad i p = p"
  by (simp add: zeroPad_def put_def newBytes_def)

text \<open>
  A payload is \<open>carried\<close> by the dialect when it is encoded, fits a frame, belongs to a
  message id with a \<open>crc_extra\<close>, and its zero-padded form decodes.
\<close>

definition carried :: "generic_codec \<Rightarrow> mavlink_message \<Rightarrow> int \<Rightarrow> bytes \<Rightarrow> bool" where
  "carried gc m i p \<longleftrightarrow> messageIdFor gc m = Some i \<and> encodePayload gc m = Some p \<and>
     0 < length p \<and> length p \<le> 255 \<and>
     (\<exists>n. MAVLINK_PAYLOAD_LENGTHS i = Some n \<and> length p \<le> n) \<and> 0 \<le> i \<and> i < 2 ^ 24 \<and> MAVLINK_MESSAGE_CRCS i \<noteq> None \<and>
     decodePayload gc i (zeroPad i p) = Some (Some (received m))"

lemma payload_carried:
  assumes "message_ok m"
  shows "\<exists>i p. carried gc m i p"
  using assms
  by (cases m)
    (auto simp: carried_def decodePayload_rows [simplified] zeroPad_full zeroPad_short
      dest!: payload_roundtrips)

lemma decodePayload_total:
  assumes "\<And>n. MAVLINK_PAYLOAD_LENGTHS i = Some n \<Longrightarrow> n \<le> length p"
  shows "\<exists>r. decodePayload gc i p = Some r"
  using assms unfolding decodePayload_def
  by (auto dest: payload_totals intro: decodeEscTelemetryPayload_total
      simp: decodeAvailableModesMonitorPayload_def)

end
