(* ===== verification/Sha256.thy ===== *)
theory Sha256
  imports Js_Bytes
begin

text \<open>
  \<open>sha256.ts\<close>: the synchronous SHA-256 the frame signatures are computed with. A 32-bit
  number under \<open>>>> 0\<close> and the elements of a \<open>Uint32Array\<close> are 32-bit words; the big-endian
  \<open>DataView\<close> accessors are written out.
\<close>

subsection \<open>Words and constants\<close>

definition K :: "32 word list" where
  "K = concat [
    [0x428a2f98, 0x71374491, 0xb5c0fbcf, 0xe9b5dba5],
    [0x3956c25b, 0x59f111f1, 0x923f82a4, 0xab1c5ed5],
    [0xd807aa98, 0x12835b01, 0x243185be, 0x550c7dc3],
    [0x72be5d74, 0x80deb1fe, 0x9bdc06a7, 0xc19bf174],
    [0xe49b69c1, 0xefbe4786, 0x0fc19dc6, 0x240ca1cc],
    [0x2de92c6f, 0x4a7484aa, 0x5cb0a9dc, 0x76f988da],
    [0x983e5152, 0xa831c66d, 0xb00327c8, 0xbf597fc7],
    [0xc6e00bf3, 0xd5a79147, 0x06ca6351, 0x14292967],
    [0x27b70a85, 0x2e1b2138, 0x4d2c6dfc, 0x53380d13],
    [0x650a7354, 0x766a0abb, 0x81c2c92e, 0x92722c85],
    [0xa2bfe8a1, 0xa81a664b, 0xc24b8b70, 0xc76c51a3],
    [0xd192e819, 0xd6990624, 0xf40e3585, 0x106aa070],
    [0x19a4c116, 0x1e376c08, 0x2748774c, 0x34b0bcb5],
    [0x391c0cb3, 0x4ed8aa4a, 0x5b9cca4f, 0x682e6ff3],
    [0x748f82ee, 0x78a5636f, 0x84c87814, 0x8cc70208],
    [0x90befffa, 0xa4506ceb, 0xbef9a3f7, 0xc67178f2]]"

definition rotr :: "32 word \<Rightarrow> nat \<Rightarrow> 32 word" where
  "rotr x n = drop_bit n x OR push_bit (32 - n) x"

definition be32_bytes :: "32 word \<Rightarrow> bytes" where
  "be32_bytes x = [ucast (drop_bit 24 x), ucast (drop_bit 16 x), ucast (drop_bit 8 x), ucast x]"

definition be32_at :: "nat \<Rightarrow> bytes \<Rightarrow> 32 word" where
  "be32_at off p = push_bit 24 (ucast (p ! off)) OR push_bit 16 (ucast (p ! (off + 1)))
     OR push_bit 8 (ucast (p ! (off + 2))) OR ucast (p ! (off + 3))"

subsection \<open>The digest\<close>

text \<open>The message, \<open>0x80\<close>, zeros, and the 64-bit bit length, in blocks of 64 bytes.\<close>

definition sha_padded :: "bytes \<Rightarrow> bytes" where
  "sha_padded message =
     (let messageLength = length message;
          paddedLength = ((messageLength + 8) mod 2 ^ 32) div 64 * 64 + 64;
          padded = put 0 message (newBytes paddedLength);
          padded = putByte messageLength 0x80 padded;
          padded = put (paddedLength - 8) (be32_bytes (of_nat (messageLength div 0x20000000))) padded
      in put (paddedLength - 4) (be32_bytes (of_nat (messageLength * 8))) padded)"

definition sha_schedule :: "nat \<Rightarrow> bytes \<Rightarrow> 32 word list" where
  "sha_schedule chunkStart padded =
     fold (\<lambda>i w.
         let s0 = rotr (w ! (i - 15)) 7 XOR rotr (w ! (i - 15)) 18 XOR drop_bit 3 (w ! (i - 15));
             s1 = rotr (w ! (i - 2)) 17 XOR rotr (w ! (i - 2)) 19 XOR drop_bit 10 (w ! (i - 2))
         in w @ [w ! (i - 16) + s0 + w ! (i - 7) + s1])
       [16..<64] (map (\<lambda>i. be32_at (chunkStart + i * 4) padded) [0..<16])"

type_synonym sha_state =
  "32 word \<times> 32 word \<times> 32 word \<times> 32 word \<times> 32 word \<times> 32 word \<times> 32 word \<times> 32 word"

fun sha_round :: "32 word list \<Rightarrow> nat \<Rightarrow> sha_state \<Rightarrow> sha_state" where
  "sha_round w i (a, b, c, d, e, f, g, h) =
     (let S1 = rotr e 6 XOR rotr e 11 XOR rotr e 25;
          ch = (e AND f) XOR (NOT e AND g);
          temp1 = h + S1 + ch + K ! i + w ! i;
          S0 = rotr a 2 XOR rotr a 13 XOR rotr a 22;
          maj = (a AND b) XOR (a AND c) XOR (b AND c);
          temp2 = S0 + maj
      in (temp1 + temp2, a, b, c, d + temp1, e, f, g))"

fun sha_add :: "sha_state \<Rightarrow> sha_state \<Rightarrow> sha_state" where
  "sha_add (h0, h1, h2, h3, h4, h5, h6, h7) (a, b, c, d, e, f, g, h) =
     (h0 + a, h1 + b, h2 + c, h3 + d, h4 + e, h5 + f, h6 + g, h7 + h)"

definition sha_chunk :: "bytes \<Rightarrow> nat \<Rightarrow> sha_state \<Rightarrow> sha_state" where
  "sha_chunk padded chunkStart st =
     sha_add st (fold (sha_round (sha_schedule chunkStart padded)) [0..<64] st)"

definition sha_init :: sha_state where
  "sha_init = (0x6a09e667, 0xbb67ae85, 0x3c6ef372, 0xa54ff53a,
     0x510e527f, 0x9b05688c, 0x1f83d9ab, 0x5be0cd19)"

fun sha_output :: "sha_state \<Rightarrow> bytes" where
  "sha_output (h0, h1, h2, h3, h4, h5, h6, h7) =
     concat (map be32_bytes [h0, h1, h2, h3, h4, h5, h6, h7])"

definition sha256 :: "bytes \<Rightarrow> bytes" where
  "sha256 message =
     (let padded = sha_padded message
      in sha_output (fold (sha_chunk padded) (map (\<lambda>k. k * 64) [0..<length padded div 64]) sha_init))"

subsection \<open>Shape of the computation\<close>

lemma length_be32_bytes [simp]: "length (be32_bytes x) = 4"
  by (simp add: be32_bytes_def)

lemma length_sha_output: "length (sha_output st) = 32"
  by (cases st rule: sha_output.cases) simp

lemma length_sha256 [simp]: "length (sha256 message) = 32"
  by (simp add: sha256_def Let_def length_sha_output)

lemma length_K: "length K = 64"
  by (simp add: K_def)

lemma sha_schedule_prefix:
  fixes upd :: "nat \<Rightarrow> 32 word list \<Rightarrow> 32 word"
  shows "length (fold (\<lambda>i w. w @ [upd i w]) is w0) = length w0 + length is"
  by (induction "is" arbitrary: w0) auto

text \<open>Every index the rounds read is inside the schedule and the constant table.\<close>

lemma length_sha_schedule: "length (sha_schedule chunkStart padded) = 64"
  by (simp add: sha_schedule_def Let_def sha_schedule_prefix del: upt_rec_numeral)

text \<open>The padded message is a whole number of blocks, and keeps the message as its prefix.\<close>

lemma padded_room: "k + 9 \<le> (k + 8) div 64 * 64 + (64 :: nat)"
  using div_mult_mod_eq [of "k + 8" 64] mod_less_divisor [of 64 "k + 8"] by linarith

lemma sha_padded_form:
  assumes "length message + 8 < 2 ^ 32" and "n = (length message + 8) div 64 * 64 + 64"
  obtains hi lo where "length hi = 4" and "length lo = 4" and "length message + 9 \<le> n"
    and "sha_padded message
      = put (n - 4) lo (put (n - 8) hi (putByte (length message) 0x80 (put 0 message (newBytes n))))"
proof -
  have "(length message + 8) mod 2 ^ 32 = length message + 8" using assms(1) by simp
  then have "sha_padded message = put (n - 4) (be32_bytes (of_nat (length message * 8)))
      (put (n - 8) (be32_bytes (of_nat (length message div 0x20000000)))
        (putByte (length message) 0x80 (put 0 message (newBytes n))))"
    by (simp only: sha_padded_def Let_def assms(2))
  moreover have "length message + 9 \<le> n" unfolding assms(2) by (rule padded_room)
  ultimately show thesis using that length_be32_bytes by blast
qed

lemma length_sha_padded:
  assumes "length message + 8 < 2 ^ 32"
  shows "length (sha_padded message) = (length message + 8) div 64 * 64 + 64"
proof -
  obtain n where n: "n = (length message + 8) div 64 * 64 + 64" by simp
  from assms n obtain hi lo where "length hi = 4" "length lo = 4" "length message + 9 \<le> n"
    and "sha_padded message
      = put (n - 4) lo (put (n - 8) hi (putByte (length message) 0x80 (put 0 message (newBytes n))))"
    by (rule sha_padded_form)
  then have "length (sha_padded message) = n" by (simp add: length_put)
  then show ?thesis by (simp only: n)
qed

lemma sha_padded_message:
  assumes "length message + 8 < 2 ^ 32"
  shows "take (length message) (sha_padded message) = message"
    and "sha_padded message ! length message = 0x80"
proof -
  obtain n where n: "n = (length message + 8) div 64 * 64 + 64" by simp
  from assms n obtain hi lo where lens: "length hi = 4" "length lo = 4" "length message + 9 \<le> n"
    and form: "sha_padded message
      = put (n - 4) lo (put (n - 8) hi (putByte (length message) 0x80 (put 0 message (newBytes n))))"
    by (rule sha_padded_form)
  have put8: "n - 8 \<ge> length message + 1" "n - 4 \<ge> length message + 1" using lens by linarith+
  have start: "getBytes 0 (length message) (sha_padded message) = Some message"
    "getBytes (length message) 1 (sha_padded message) = Some [0x80]"
    unfolding form using lens put8 by (simp_all add: wire)
  from start(1) show "take (length message) (sha_padded message) = message"
    by (simp add: getBytes_def split: if_splits)
  from start(2) show "sha_padded message ! length message = 0x80"
    by (auto simp: getBytes_def take_Suc_conv_app_nth hd_drop_conv_nth take_Suc split: if_splits)
qed

end
