(* ===== verification/Mav_Signing.thy ===== *)
theory Mav_Signing
  imports Mav_Payload Sha256
begin

unbundle bit_operations_syntax

text \<open>
  The state of \<open>MavlinkV2Codec\<close> and its signing half (\<open>mavlink-v2-codec.ts\<close>): keys,
  timestamps, the signature, the sender's monotonic timestamp, and the receiver's check of
  signature, replay and staleness.

  A signing clock is the sequence of the numbers its calls return; the codec counts the
  calls it has made in \<open>clockCalls\<close>. The per-stream maps are keyed by the three numbers the
  code joins into a string with colons. The calls of a registered rejection handler are
  collected in \<open>rejectionCalls\<close>.
\<close>

subsection \<open>State\<close>

type_synonym stream_key = "int \<times> int \<times> int"

record signing_config =
  secretKey :: bytes
  linkId :: int
  enabled :: bool
  clock :: "nat \<Rightarrow> int"

record signing_request =
  secretKey :: bytes
  linkId :: "int option"
  enabled :: "bool option"
  clock :: "(nat \<Rightarrow> int) option"

datatype rejection_reason = BadSignature | ReplayTimestamp | TimestampTooOld

record signature_rejection =
  reason :: rejection_reason
  systemId :: int
  componentId :: int
  linkId :: int

record codec =
  buffer :: bytes
  signing :: "signing_config option"
  clockCalls :: nat
  lastSentTimestamp :: "stream_key \<Rightarrow> int option"
  lastSeenTimestamp :: "stream_key \<Rightarrow> int option"
  signatureRejections :: nat
  onSignatureRejection :: bool
  rejectionCalls :: "signature_rejection list"

definition newCodec :: codec where
  "newCodec = \<lparr>buffer = [], signing = None, clockCalls = 0, lastSentTimestamp = Map.empty,
     lastSeenTimestamp = Map.empty, signatureRejections = 0, onSignatureRejection = False,
     rejectionCalls = []\<rparr>"

subsection \<open>Keys and timestamps\<close>

definition MAVLINK_V2_SIGNING_KEY_LENGTH :: nat where "MAVLINK_V2_SIGNING_KEY_LENGTH = 32"
definition MAVLINK_V2_SIGNING_EPOCH_UNIX_SECONDS :: int where
  "MAVLINK_V2_SIGNING_EPOCH_UNIX_SECONDS = 1420070400"
definition MAVLINK_V2_SIGNING_TIMESTAMP_MAX :: int where
  "MAVLINK_V2_SIGNING_TIMESTAMP_MAX = 2 ^ 48 - 1"
definition MAVLINK_V2_SIGNING_MAX_AGE_UNITS :: int where
  "MAVLINK_V2_SIGNING_MAX_AGE_UNITS = 6000000"

definition deriveSigningKeyFromPassphrase :: "js_text \<Rightarrow> bytes" where
  "deriveSigningKeyFromPassphrase passphrase = sha256 (encodeUtf8 passphrase)"

text \<open>Both functions of \<open>Date.now()\<close>, in milliseconds.\<close>

definition currentSigningTimestamp :: "int \<Rightarrow> int" where
  "currentSigningTimestamp now =
     (let ms = now - MAVLINK_V2_SIGNING_EPOCH_UNIX_SECONDS * 1000
      in if ms \<le> 0 then 0 else ms * 100)"

definition defaultSigningClock :: "int \<Rightarrow> int" where
  "defaultSigningClock now =
     (let unitsSinceEpoch = (now - MAVLINK_V2_SIGNING_EPOCH_UNIX_SECONDS * 1000) * 100
      in if unitsSinceEpoch < 0 then 0
         else if unitsSinceEpoch > MAVLINK_V2_SIGNING_TIMESTAMP_MAX
         then MAVLINK_V2_SIGNING_TIMESTAMP_MAX
         else unitsSinceEpoch)"

definition streamKey :: "int \<Rightarrow> int \<Rightarrow> int \<Rightarrow> stream_key" where
  "streamKey sys cmp link = (sys AND 0xFF, cmp AND 0xFF, link AND 0xFF)"

fun writeUintLE :: "nat \<Rightarrow> nat \<Rightarrow> int \<Rightarrow> bytes \<Rightarrow> bytes" where
  "writeUintLE 0 off remaining out = out"
| "writeUintLE (Suc n) off remaining out =
     writeUintLE n (Suc off) (remaining div 256) (putByte off (remaining AND 0xFF) out)"

definition writeUint48LE :: "bytes \<Rightarrow> nat \<Rightarrow> int \<Rightarrow> bytes" where
  "writeUint48LE out off v = writeUintLE 6 off v out"

fun readUintLE :: "nat \<Rightarrow> nat \<Rightarrow> int \<Rightarrow> int \<Rightarrow> bytes \<Rightarrow> int" where
  "readUintLE 0 off acc scale bs = acc"
| "readUintLE (Suc n) off acc scale bs =
     readUintLE n (Suc off) (acc + uint (bs ! off) * scale) (scale * 256) bs"

definition readUint48LE :: "bytes \<Rightarrow> nat \<Rightarrow> int" where
  "readUint48LE bs off = readUintLE 6 off 0 1 bs"

text \<open>\<open>now\<close> is the sequence of the values \<open>Date.now()\<close> returns to the default clock.\<close>

definition setSigningConfig ::
    "(nat \<Rightarrow> int) \<Rightarrow> signing_request option \<Rightarrow> codec \<Rightarrow> codec option" where
  "setSigningConfig now config c = (case config of
       None \<Rightarrow> Some (c\<lparr>signing := None\<rparr>)
     | Some r \<Rightarrow>
         if length (signing_request.secretKey r) \<noteq> MAVLINK_V2_SIGNING_KEY_LENGTH then None
         else Some (c\<lparr>signing := Some
           \<lparr>signing_config.secretKey = signing_request.secretKey r,
            signing_config.linkId =
              (case signing_request.linkId r of None \<Rightarrow> 0 | Some l \<Rightarrow> l) AND 0xFF,
            signing_config.enabled =
              (case signing_request.enabled r of None \<Rightarrow> True | Some e \<Rightarrow> e),
            signing_config.clock =
              (case signing_request.clock r of None \<Rightarrow> (\<lambda>i. defaultSigningClock (now i))
               | Some f \<Rightarrow> f)\<rparr>\<rparr>))"

definition setSignatureRejectionHandler :: "bool \<Rightarrow> codec \<Rightarrow> codec" where
  "setSignatureRejectionHandler registered c = c\<lparr>onSignatureRejection := registered\<rparr>"

subsection \<open>Signing\<close>

definition computeSignature :: "bytes \<Rightarrow> bytes \<Rightarrow> int \<Rightarrow> int \<Rightarrow> bytes" where
  "computeSignature key completeFrame link timestamp =
     (let input = key @ completeFrame @ newBytes 7;
          offset = length key + length completeFrame;
          input = putByte offset (link AND 0xFF) input;
          input = writeUint48LE input (offset + 1) timestamp
      in take (MAVLINK_V2_SIGNATURE_LENGTH - 7) (sha256 input))"

text \<open>\<open>signing.clock()\<close>: the next value of the clock.\<close>

definition readClock :: "signing_config \<Rightarrow> codec \<Rightarrow> int \<times> codec" where
  "readClock s c =
     (signing_config.clock s (clockCalls c), c\<lparr>clockCalls := Suc (clockCalls c)\<rparr>)"

definition nextSendTimestamp :: "signing_config \<Rightarrow> stream_key \<Rightarrow> codec \<Rightarrow> int \<times> codec" where
  "nextSendTimestamp s streamId c =
     (let (now, c) = readClock s c;
          last = (case lastSentTimestamp c streamId of None \<Rightarrow> -1 | Some t \<Rightarrow> t);
          next = (if now > last then now else last + 1);
          clamped = min next MAVLINK_V2_SIGNING_TIMESTAMP_MAX
      in (clamped, c\<lparr>lastSentTimestamp := (lastSentTimestamp c)(streamId \<mapsto> clamped)\<rparr>))"

definition rejectFrame :: "rejection_reason \<Rightarrow> int \<Rightarrow> int \<Rightarrow> int \<Rightarrow> codec \<Rightarrow> codec" where
  "rejectFrame why sys cmp link c =
     (let c = c\<lparr>signatureRejections := Suc (signatureRejections c)\<rparr>
      in if onSignatureRejection c
         then c\<lparr>rejectionCalls := rejectionCalls c @
           [\<lparr>signature_rejection.reason = why, signature_rejection.systemId = sys,
             signature_rejection.componentId = cmp, signature_rejection.linkId = link\<rparr>]\<rparr>
         else c)"

text \<open>The comparison of the signature bytes: an exclusive or over all of them.\<close>

fun signatureDiff :: "bytes \<Rightarrow> bytes \<Rightarrow> byte" where
  "signatureDiff (e # es) (r # rs) = (e XOR r) OR signatureDiff es rs"
| "signatureDiff (e # es) [] = e OR signatureDiff es []"
| "signatureDiff [] rs = 0"

definition verifySignedFrame :: "signing_config \<Rightarrow> bytes \<Rightarrow> nat \<Rightarrow> codec \<Rightarrow> bool \<times> codec" where
  "verifySignedFrame s frame payloadLen c =
     (let baseLength = MAVLINK_V2_HEADER_LENGTH + payloadLen + MAVLINK_V2_CHECKSUM_LENGTH;
          trailerOffset = baseLength;
          link = uint (frame ! trailerOffset);
          timestamp = readUint48LE frame (trailerOffset + 1);
          sys = uint (frame ! 5);
          cmp = uint (frame ! 6);
          baseFrame = take baseLength frame;
          expected = computeSignature (signing_config.secretKey s) baseFrame link timestamp;
          signatureBytes = slice (trailerOffset + 7) (trailerOffset + 13) frame
      in if length expected \<noteq> length signatureBytes \<or> signatureDiff expected signatureBytes \<noteq> 0
         then (False, rejectFrame BadSignature sys cmp link c)
         else
           let key = streamKey sys cmp link;
               replayed = (case lastSeenTimestamp c key of None \<Rightarrow> False
                           | Some lastSeen \<Rightarrow> timestamp \<le> lastSeen)
           in if replayed then (False, rejectFrame ReplayTimestamp sys cmp link c)
              else
                let (localNow, c) = readClock s c
                in if timestamp < localNow - MAVLINK_V2_SIGNING_MAX_AGE_UNITS
                   then (False, rejectFrame TimestampTooOld sys cmp link c)
                   else (True, c\<lparr>lastSeenTimestamp := (lastSeenTimestamp c)(key \<mapsto> timestamp)\<rparr>))"

subsection \<open>48-bit fields\<close>

lemma mask_255: "v AND 0xFF = v mod 256" for v :: int
  using take_bit_eq_mask [of 8 v] by (simp add: mask_eq_exp_minus_1 take_bit_eq_mod)

lemma word_of_int_mask [simp]: "(word_of_int (v AND 0xFF) :: byte) = word_of_int v"
  by (simp add: mask_255 word_of_int_mod_byte)

lemma writeUintLE_put:
  "off + n \<le> length p \<Longrightarrow> writeUintLE n off v p = put off (le_bytes n v) p"
proof (induction n arbitrary: off v p)
  case (Suc n)
  have "writeUintLE (Suc n) off v p
      = put (Suc off) (le_bytes n (v div 256)) (putByte off (v AND 0xFF) p)"
    using Suc by simp
  also have "putByte off (v AND 0xFF) p = put off [word_of_int v] p"
    using Suc.prems by (simp add: putByte_eq_put)
  also have "put (Suc off) (le_bytes n (v div 256)) (put off [word_of_int v] p)
      = put off ([word_of_int v] @ le_bytes n (v div 256)) p"
    using Suc.prems put_adjacent [of off "[word_of_int v]" "le_bytes n (v div 256)" p] by simp
  finally show ?case by simp
qed simp

lemma readUintLE_le_val:
  "off + n \<le> length p \<Longrightarrow>
   readUintLE n off acc scale p = acc + scale * le_val (take n (drop off p))"
proof (induction n arbitrary: off acc scale)
  case (Suc n)
  then have "take (Suc n) (drop off p) = p ! off # take n (drop (Suc off) p)"
    by (simp add: Cons_nth_drop_Suc [symmetric])
  with Suc show ?case by (simp add: algebra_simps)
qed simp

lemma readUint48LE_trailer:
  "length base = off \<Longrightarrow> length bs = 6 \<Longrightarrow> readUint48LE (base @ bs @ rest) off = le_val bs"
  by (simp add: readUint48LE_def readUintLE_le_val)

lemma computeSignature_input:
  "computeSignature key frame link timestamp
     = take 6 (sha256 (key @ frame @ word_of_int link # le_bytes 6 timestamp))"
proof -
  let ?n = "length key + length frame"
  have zeros: "newBytes 7 = 0 # newBytes 6" by (simp add: newBytes_def eval_nat_numeral)
  have "putByte ?n (link AND 0xFF) (key @ frame @ newBytes 7)
      = key @ frame @ word_of_int link # newBytes 6"
    by (simp add: putByte_def list_update_append zeros)
  moreover have "writeUint48LE (key @ frame @ word_of_int link # newBytes 6) (?n + 1) timestamp
      = key @ frame @ word_of_int link # le_bytes 6 timestamp"
    by (simp add: writeUint48LE_def writeUintLE_put put_def)
  ultimately show ?thesis
    by (simp add: computeSignature_def Let_def MAVLINK_V2_SIGNATURE_LENGTH_def)
qed

lemma length_computeSignature [simp]: "length (computeSignature key frame link timestamp) = 6"
  by (simp add: computeSignature_input)

lemma signatureDiff_zero: "length es = length rs \<Longrightarrow> signatureDiff es rs = 0 \<longleftrightarrow> es = rs"
proof (induction es rs rule: list_induct2)
  case (Cons e es r rs)
  have both: "p = 0 \<and> q = 0 \<longleftrightarrow> p OR q = 0" for p q :: byte
    by (metis or.right_neutral or_eq_0_iff)
  have "e XOR r = 0 \<longleftrightarrow> e = r"
    by (metis bit.xor_self xor.assoc xor.left_neutral)
  then show ?case using Cons by (simp add: both [symmetric])
qed simp

subsection \<open>What the receiver accepts\<close>

text \<open>The trailer of a signed frame.\<close>

definition trailer :: "int \<Rightarrow> int \<Rightarrow> bytes \<Rightarrow> bytes" where
  "trailer link timestamp signature = word_of_int link # le_bytes 6 timestamp @ signature"

lemma length_trailer [simp]: "length (trailer link timestamp signature) = 7 + length signature"
  by (simp add: trailer_def)

definition u48_ok :: "int \<Rightarrow> bool" where
  "u48_ok v \<longleftrightarrow> 0 \<le> v \<and> v < 2 ^ 48"

lemma le_val_u48: "u48_ok v \<Longrightarrow> le_val (le_bytes 6 v) = v"
  by (subst le_val_le_bytes) (simp add: u48_ok_def)

text \<open>The three tests a signed frame has to pass, and the state after each outcome.\<close>

definition fresh :: "codec \<Rightarrow> stream_key \<Rightarrow> int \<Rightarrow> bool" where
  "fresh c key timestamp \<longleftrightarrow>
     (case lastSeenTimestamp c key of None \<Rightarrow> True | Some lastSeen \<Rightarrow> lastSeen < timestamp)"

definition recent :: "signing_config \<Rightarrow> codec \<Rightarrow> int \<Rightarrow> bool" where
  "recent s c timestamp \<longleftrightarrow>
     signing_config.clock s (clockCalls c) - MAVLINK_V2_SIGNING_MAX_AGE_UNITS \<le> timestamp"

definition frame_stream :: "bytes \<Rightarrow> int \<Rightarrow> stream_key" where
  "frame_stream frame link = streamKey (uint (frame ! 5)) (uint (frame ! 6)) link"

lemma verifySignedFrame_cases:
  assumes "length base = 12 + n" and "length signature = 6"
    and "u8_ok link" and "u48_ok timestamp"
  shows "verifySignedFrame s (base @ trailer link timestamp signature) n c =
    (let key = frame_stream base link;
         reject = (\<lambda>why c. rejectFrame why (uint (base ! 5)) (uint (base ! 6)) link c);
         ticked = c\<lparr>clockCalls := Suc (clockCalls c)\<rparr>
     in if signature \<noteq> computeSignature (signing_config.secretKey s) base link timestamp
        then (False, reject BadSignature c)
        else if \<not> fresh c key timestamp then (False, reject ReplayTimestamp c)
        else if \<not> recent s c timestamp then (False, reject TimestampTooOld ticked)
        else (True, ticked\<lparr>lastSeenTimestamp := (lastSeenTimestamp c)(key \<mapsto> timestamp)\<rparr>))"
proof -
  define f where "f = base @ trailer link timestamp signature"
  have parts: "f ! 5 = base ! 5" "f ! 6 = base ! 6" "uint (f ! (12 + n)) = link"
    "take (12 + n) f = base" "readUint48LE f (12 + n + 1) = timestamp"
    "slice (12 + n + 7) (12 + n + 13) f = signature"
    using assms readUint48LE_trailer [of "base @ [word_of_int link]" "12 + n + 1" "le_bytes 6 timestamp" signature]
    by (simp_all add: f_def nth_append trailer_def slice_def uint_word_of_int_u8 le_val_u48)
  have diff: "signatureDiff (computeSignature k base link timestamp) signature = 0
      \<longleftrightarrow> signature = computeSignature k base link timestamp" for k
    using assms(2) by (auto simp: signatureDiff_zero)
  have replayed: "(case lastSeenTimestamp c key of None \<Rightarrow> False | Some t \<Rightarrow> timestamp \<le> t)
      = (\<not> fresh c key timestamp)" for key
    by (auto simp: fresh_def split: option.splits)
  have index: "10 + n + 2 = 12 + n" by simp
  show ?thesis
    unfolding verifySignedFrame_def frame_consts Let_def f_def [symmetric] index parts
      length_computeSignature assms(2) diff replayed
    by (simp add: readClock_def recent_def frame_stream_def not_less)
qed

subsection \<open>Replay protection\<close>

text \<open>The receiver's window of a stream only moves forward.\<close>

definition seen_le :: "codec \<Rightarrow> codec \<Rightarrow> bool" where
  "seen_le c d \<longleftrightarrow> (\<forall>key t. lastSeenTimestamp c key = Some t \<longrightarrow>
     (\<exists>u. lastSeenTimestamp d key = Some u \<and> t \<le> u))"

lemma seen_le_refl [intro]: "seen_le c c"
  by (simp add: seen_le_def)

lemma seen_le_trans: "seen_le c d \<Longrightarrow> seen_le d e \<Longrightarrow> seen_le c e"
  unfolding seen_le_def by (meson order_trans)

lemma seen_le_same: "lastSeenTimestamp c = lastSeenTimestamp d \<Longrightarrow> seen_le c d"
  by (simp add: seen_le_def)

lemma rejectFrame_seen [simp]:
  "lastSeenTimestamp (rejectFrame why sys cmp link c) = lastSeenTimestamp c"
  by (simp add: rejectFrame_def Let_def)

lemma rejectFrame_buffer [simp]: "buffer (rejectFrame why sys cmp link c) = buffer c"
  by (simp add: rejectFrame_def Let_def)

lemma rejectFrame_signing [simp]: "signing (rejectFrame why sys cmp link c) = signing c"
  by (simp add: rejectFrame_def Let_def)

lemma rejectFrame_count [simp]:
  "signatureRejections (rejectFrame why sys cmp link c) = Suc (signatureRejections c)"
  by (simp add: rejectFrame_def Let_def)

lemma verifySignedFrame_buffer [simp]:
  "buffer (snd (verifySignedFrame s frame n c)) = buffer c"
  by (simp add: verifySignedFrame_def Let_def readClock_def)

lemma verifySignedFrame_signing [simp]:
  "signing (snd (verifySignedFrame s frame n c)) = signing c"
  by (simp add: verifySignedFrame_def Let_def readClock_def)

lemma verifySignedFrame_count:
  "signatureRejections (snd (verifySignedFrame s frame n c))
     = (if fst (verifySignedFrame s frame n c) then 0 else 1) + signatureRejections c"
  by (simp add: verifySignedFrame_def Let_def readClock_def)

lemma verifySignedFrame_seen_le: "seen_le c (snd (verifySignedFrame s frame n c))"
  by (auto simp: verifySignedFrame_def Let_def readClock_def seen_le_def split: option.splits)

lemma verifySignedFrame_seen:
  "snd (verifySignedFrame s frame n c) = d \<Longrightarrow>
   lastSeenTimestamp d = (if fst (verifySignedFrame s frame n c)
     then (lastSeenTimestamp c)
       (streamKey (uint (frame ! 5)) (uint (frame ! 6)) (uint (frame ! (12 + n)))
          \<mapsto> readUint48LE frame (12 + n + 1))
     else lastSeenTimestamp c)"
proof -
  have index: "10 + n + 2 = 12 + n" by simp
  show "snd (verifySignedFrame s frame n c) = d \<Longrightarrow> ?thesis"
    unfolding verifySignedFrame_def frame_consts Let_def index
    by (auto simp: readClock_def)
qed

lemma verifySignedFrame_seen_rejects:
  assumes "lastSeenTimestamp c (streamKey (uint (frame ! 5)) (uint (frame ! 6)) (uint (frame ! (12 + n))))
      = Some t"
    and "readUint48LE frame (12 + n + 1) \<le> t"
  shows "\<not> fst (verifySignedFrame s frame n c)"
proof -
  have index: "10 + n + 2 = 12 + n" by simp
  show ?thesis
    using assms unfolding verifySignedFrame_def frame_consts Let_def index by simp
qed

text \<open>A history of verified frames, accepted or not.\<close>

fun verifyAll :: "signing_config \<Rightarrow> (bytes \<times> nat) list \<Rightarrow> codec \<Rightarrow> codec" where
  "verifyAll s [] c = c"
| "verifyAll s ((frame, n) # fs) c = verifyAll s fs (snd (verifySignedFrame s frame n c))"

lemma verifyAll_seen_le: "seen_le c (verifyAll s fs c)"
proof (induction s fs c rule: verifyAll.induct)
  case (2 s frame n fs c)
  then show ?case using seen_le_trans [OF verifySignedFrame_seen_le] by simp
qed auto

lemma accepted_once:
  assumes "fst (verifySignedFrame s frame n c)"
    and "d = verifyAll s' fs (snd (verifySignedFrame s frame n c))"
  shows "\<not> fst (verifySignedFrame s'' frame n d)"
proof -
  let ?key = "streamKey (uint (frame ! 5)) (uint (frame ! 6)) (uint (frame ! (12 + n)))"
  let ?t = "readUint48LE frame (12 + n + 1)"
  have "lastSeenTimestamp (snd (verifySignedFrame s frame n c)) ?key = Some ?t"
    using assms(1) verifySignedFrame_seen [OF refl, of s frame n c] by simp
  then obtain u where "lastSeenTimestamp d ?key = Some u" "?t \<le> u"
    using verifyAll_seen_le assms(2) unfolding seen_le_def by blast
  then show ?thesis by (rule verifySignedFrame_seen_rejects)
qed

subsection \<open>Monotonic send timestamps\<close>

definition sent_ok :: "codec \<Rightarrow> bool" where
  "sent_ok c \<longleftrightarrow>
     (\<forall>key t. lastSentTimestamp c key = Some t \<longrightarrow> t \<le> MAVLINK_V2_SIGNING_TIMESTAMP_MAX)"

lemma sent_ok_new: "sent_ok newCodec"
  by (simp add: sent_ok_def newCodec_def)

lemma nextSendTimestamp_props:
  assumes "nextSendTimestamp s key c = (t, d)" and "sent_ok c"
  shows "lastSentTimestamp d = (lastSentTimestamp c)(key \<mapsto> t)" and "sent_ok d"
    and "t \<le> MAVLINK_V2_SIGNING_TIMESTAMP_MAX"
    and "lastSentTimestamp c key = Some u \<Longrightarrow> u < t \<or> t = MAVLINK_V2_SIGNING_TIMESTAMP_MAX"
    and "clockCalls d = Suc (clockCalls c)" and "signing d = signing c" and "buffer d = buffer c"
  using assms
  by (auto simp: nextSendTimestamp_def readClock_def Let_def sent_ok_def min_def split: if_splits)

lemma nextSendTimestamp_not_below_clock:
  assumes "nextSendTimestamp s key c = (t, d)"
  shows "min (signing_config.clock s (clockCalls c)) MAVLINK_V2_SIGNING_TIMESTAMP_MAX \<le> t"
  using assms
  by (auto simp: nextSendTimestamp_def readClock_def Let_def min_def split: if_splits option.splits)

text \<open>The timestamps of a history of signed frames on several streams.\<close>

fun sendAll :: "signing_config \<Rightarrow> stream_key list \<Rightarrow> codec \<Rightarrow> (stream_key \<times> int) list" where
  "sendAll s [] c = []"
| "sendAll s (key # keys) c =
     (let (t, c) = nextSendTimestamp s key c in (key, t) # sendAll s keys c)"

definition advances :: "int \<Rightarrow> int \<Rightarrow> bool" where
  "advances t u \<longleftrightarrow> u \<le> MAVLINK_V2_SIGNING_TIMESTAMP_MAX \<and>
     (t < u \<or> u = MAVLINK_V2_SIGNING_TIMESTAMP_MAX)"

lemma advances_trans: "advances t u \<Longrightarrow> advances u v \<Longrightarrow> advances t v"
  by (auto simp: advances_def)

lemma sendAll_above:
  assumes "sent_ok c" and "lastSentTimestamp c key = Some t"
  shows "\<forall>u\<in>set (map snd (filter (\<lambda>p. fst p = key) (sendAll s keys c))). advances t u"
  using assms
proof (induction keys arbitrary: c t)
  case (Cons k ks)
  obtain u d where next_send: "nextSendTimestamp s k c = (u, d)" by fastforce
  note props = nextSendTimestamp_props [OF next_send Cons.prems(1)]
  show ?case
  proof (cases "k = key")
    case True
    have tu: "advances t u" using props(3) props(4) [of t] True Cons.prems(2) by (simp add: advances_def)
    moreover have "\<forall>v\<in>set (map snd (filter (\<lambda>p. fst p = key) (sendAll s ks d))). advances u v"
      using Cons.IH [OF props(2)] props(1) True by simp
    ultimately show ?thesis
      using True next_send advances_trans [OF tu] by auto
  next
    case False
    then show ?thesis using Cons.IH [OF props(2)] Cons.prems(2) props(1) next_send by simp
  qed
qed simp

lemma sendAll_advances:
  assumes "sent_ok c"
  shows "sorted_wrt advances (map snd (filter (\<lambda>p. fst p = key) (sendAll s keys c)))"
  using assms
proof (induction keys arbitrary: c)
  case (Cons k ks)
  obtain u d where next_send: "nextSendTimestamp s k c = (u, d)" by fastforce
  note props = nextSendTimestamp_props [OF next_send Cons.prems(1)]
  have "k = key \<Longrightarrow> lastSentTimestamp d key = Some u" using props(1) by simp
  then show ?case
    using Cons.IH [OF props(2)] next_send sendAll_above [OF props(2), of key u s ks] by simp
qed simp

end
