(* ===== verification/Crc_Algebra.thy ===== *)
theory Crc_Algebra
  imports Prelude
begin

unbundle bit_operations_syntax

text \<open>
  What the three checksums of the repository have in common: the X.25 CRC of MAVLink
  frames, the CRC-32 of the serial bootloader and the CRC-16 of DroneCAN transfers. Each
  folds a byte into the state by an exclusive or followed by a linear, invertible map; two
  linear maps are equal when they agree on the single-bit words, so a table-driven or
  unrolled implementation is compared with the bit-by-bit definition on 16 or 32 words.
\<close>

subsection \<open>Linear maps on words\<close>

locale xor_linear =
  fixes f :: "'a::len word \<Rightarrow> 'b::len word"
  assumes xor: "f (x XOR y) = f x XOR f y"
begin

lemma zero: "f 0 = 0"
  using xor [of 0 0] by simp

end

lemma take_bit_Suc_xor:
  "take_bit (Suc n) (x :: 'a::len word) = take_bit n x XOR (if bit x n then push_bit n 1 else 0)"
  by (rule bit_eqI) (auto simp: bit_simps less_Suc_eq)

lemma xor_linear_eq:
  fixes f g :: "'a::len word \<Rightarrow> 'b::len word"
  assumes f: "xor_linear f" and g: "xor_linear g"
    and basis: "list_all (\<lambda>n. f (push_bit n 1) = g (push_bit n 1)) [0..<LENGTH('a)]"
  shows "f x = g x"
proof -
  have "f (take_bit n x) = g (take_bit n x)" if "n \<le> LENGTH('a)" for n
    using that
  proof (induction n)
    case (Suc n)
    then show ?case
      using basis
      by (simp add: list_all_iff take_bit_Suc_xor xor_linear.xor [OF f] xor_linear.xor [OF g]
          xor_linear.zero [OF f] xor_linear.zero [OF g])
  qed (simp add: xor_linear.zero [OF f] xor_linear.zero [OF g])
  from this [of "LENGTH('a)"] show ?thesis by (simp add: take_bit_length_eq)
qed

lemma xor_linear_id: "xor_linear (\<lambda>x. x)"
  by unfold_locales simp

lemma xor_linear_comp: "xor_linear f \<Longrightarrow> xor_linear g \<Longrightarrow> xor_linear (\<lambda>x. g (f x))"
  by (simp add: xor_linear_def)

lemma xor_linear_xor:
  "xor_linear f \<Longrightarrow> xor_linear g \<Longrightarrow> xor_linear (\<lambda>x. f x XOR g x)"
  by (simp add: xor_linear_def ac_simps)

lemma xor_linear_drop_bit: "xor_linear (drop_bit n)"
  by unfold_locales (simp add: drop_bit_xor)

lemma xor_linear_push_bit: "xor_linear (push_bit n)"
  by unfold_locales (simp add: push_bit_xor)

lemma xor_linear_ucast: "xor_linear (ucast :: 'a::len word \<Rightarrow> 'b::len word)"
  by unfold_locales (rule bit_eqI, auto simp: bit_simps)

lemma xor_linear_and: "xor_linear (\<lambda>x. x AND m)"
  by unfold_locales (rule bit_eqI, auto simp: bit_simps)

lemma xor_linear_if_bit: "xor_linear (\<lambda>x. if bit x n then m else 0)"
  by unfold_locales (auto simp: bit_simps)

lemma xor_linear_funpow:
  fixes f :: "'a::len word \<Rightarrow> 'a word"
  shows "xor_linear f \<Longrightarrow> xor_linear (f ^^ n)"
  by (induction n) (simp_all add: xor_linear_def)

lemmas xor_linear_intros =
  xor_linear_xor xor_linear_id xor_linear_drop_bit xor_linear_push_bit xor_linear_and
  xor_linear_ucast xor_linear_if_bit

subsection \<open>The contract of a byte-wise checksum\<close>

text \<open>
  A checksum folds one byte at a time; neither the state nor the byte may be forgotten by
  a step. Then a changed byte always changes the checksum.
\<close>

locale byte_crc =
  fixes accumulate :: "'b \<Rightarrow> 's \<Rightarrow> 's"
  assumes state_inject: "accumulate b s = accumulate b t \<Longrightarrow> s = t"
    and byte_inject: "accumulate b s = accumulate c s \<Longrightarrow> b = c"
begin

lemma fold_inject: "fold accumulate bs s = fold accumulate bs t \<longleftrightarrow> s = t"
proof (induction bs arbitrary: s t)
  case (Cons b bs)
  then show ?case using state_inject by auto
qed simp

lemma fold_append: "fold accumulate (xs @ ys) s = fold accumulate ys (fold accumulate xs s)"
  by simp

lemma single_byte_detected:
  assumes "fold accumulate (xs @ b # ys) s = fold accumulate (xs @ c # ys) s"
  shows "b = c"
  using assms byte_inject by (simp add: fold_inject)

text \<open>Folding the last byte reaches every state at most once: a checksum byte is determined.\<close>

lemma prefix_determined:
  assumes "fold accumulate (xs @ zs) s = fold accumulate (ys @ zs) t"
  shows "fold accumulate xs s = fold accumulate ys t"
  using assms by (simp add: fold_inject)

end

text \<open>A step of the form \<open>T (s XOR inject b)\<close> with \<open>T\<close> left-invertible meets the contract.\<close>

lemma byte_crcI:
  fixes T :: "'s::len word \<Rightarrow> 's word" and inject :: "'b \<Rightarrow> 's word"
  assumes "\<And>b s. accumulate b s = T (s XOR inject b)"
    and "\<And>s. U (T s) = s" and "inj inject"
  shows "byte_crc accumulate"
proof
  have T: "T s = T t \<longleftrightarrow> s = t" for s t by (metis assms(2))
  fix b c s t
  have cancel: "x XOR z = y XOR z \<longleftrightarrow> x = y" for x y z :: "'s word"
    by (metis bit.xor_self xor.assoc xor.right_neutral)
  show "accumulate b s = accumulate b t \<Longrightarrow> s = t"
    by (simp add: assms(1) T cancel)
  show "accumulate b s = accumulate c s \<Longrightarrow> b = c"
    using injD [OF assms(3)] cancel [of _ s] by (simp add: assms(1) T xor.commute [of s])
qed

text \<open>One step of a reflected (least significant bit first) polynomial division.\<close>

definition reflected_step :: "'s::len word \<Rightarrow> 's word \<Rightarrow> 's word" where
  "reflected_step poly c = (if bit c 0 then poly XOR drop_bit 1 c else drop_bit 1 c)"

lemma reflected_step_linear: "xor_linear (reflected_step poly)"
proof -
  have "reflected_step poly = (\<lambda>c. (if bit c 0 then poly else 0) XOR drop_bit 1 c)"
    by (simp add: fun_eq_iff reflected_step_def)
  then show ?thesis by (simp add: xor_linear_intros)
qed

text \<open>One step of a division with the most significant bit first.\<close>

definition forward_step :: "'s::len word \<Rightarrow> 's word \<Rightarrow> 's word" where
  "forward_step poly c = (if bit c (LENGTH('s) - 1) then push_bit 1 c XOR poly else push_bit 1 c)"

lemma forward_step_linear: "xor_linear (forward_step (poly :: 's::len word))"
proof -
  have "forward_step poly
      = (\<lambda>c. push_bit 1 c XOR (if bit c (LENGTH('s) - 1) then poly else 0))"
    by (simp add: fun_eq_iff forward_step_def)
  moreover have "xor_linear (\<lambda>c. push_bit 1 c XOR (if bit c (LENGTH('s) - 1) then poly else 0))"
    by (intro xor_linear_xor xor_linear_push_bit xor_linear_if_bit)
  ultimately show ?thesis by (simp only:)
qed

text \<open>Evaluation on the single-bit words.\<close>

lemma funpow_8: "(f ^^ 8) x = f (f (f (f (f (f (f (f x)))))))"
  by (simp add: numeral_eq_Suc)

lemma upt_16: "[0..<16] = [0, 1, 2, 3, 4, 5, 6, 7, 8, 9, 10, 11, 12, 13, 14, 15]"
  by (simp add: upt_conv_Cons)

lemma upt_32: "[0..<32] = [0, 1, 2, 3, 4, 5, 6, 7, 8, 9, 10, 11, 12, 13, 14, 15, 16, 17, 18, 19,
    20, 21, 22, 23, 24, 25, 26, 27, 28, 29, 30, 31]"
  by (simp add: upt_conv_Cons)

lemma length_16_32: "LENGTH(16) = 16" "LENGTH(32) = 32"
  by simp_all

text \<open>First unfold the list of basis words, then evaluate on each.\<close>

lemmas basis_unfold = length_16_32 upt_16 upt_32 list.pred_inject simp_thms

lemmas basis_eval = funpow_8 reflected_step_def forward_step_def

lemma inj_ucast_byte: "inj (ucast :: byte \<Rightarrow> 'a::len word)" if "8 \<le> LENGTH('a)"
proof (rule injI)
  fix x y :: byte
  assume eq: "ucast x = (ucast y :: 'a word)"
  show "x = y"
  proof (rule bit_word_eqI)
    fix n
    assume "n < LENGTH(8)"
    then show "bit x n = bit y n"
      using that arg_cong [OF eq, of "\<lambda>w. bit w n"] by (simp add: bit_ucast_iff)
  qed
qed

end
