(* ===== verification/Mav_Crc.thy ===== *)
theory Mav_Crc
  imports Crc_Algebra
begin

text \<open>
  The frame checksum of \<open>mavlink-v2-codec.ts\<close> (\<open>crcAccumulate\<close>, \<open>crcMessage\<close>): the
  unrolled step equals eight steps of the bit-by-bit division by the reflected X.25
  polynomial, and a changed byte always changes the checksum.
\<close>

text \<open>
  \<open>tmp\<close> is kept in eight bits, which is what the masks of the source do; the state is
  masked to sixteen bits by the source and is a 16-bit word here.
\<close>

definition crcAccumulate :: "byte \<Rightarrow> 16 word \<Rightarrow> 16 word" where
  "crcAccumulate b checksum =
     (let tmp = b XOR ucast checksum;
          tmp = tmp XOR push_bit 4 tmp
      in drop_bit 8 checksum XOR push_bit 8 (ucast tmp) XOR push_bit 3 (ucast tmp)
           XOR drop_bit 4 (ucast tmp))"

definition crcMessage :: "bytes \<Rightarrow> int \<Rightarrow> 16 word" where
  "crcMessage bs crcExtra =
     (let checksum = fold crcAccumulate bs 0xFFFF
      in crcAccumulate (word_of_int crcExtra) checksum)"

subsection \<open>The reference: division by the reflected polynomial\<close>

definition x25_bits :: "16 word \<Rightarrow> 16 word" where
  "x25_bits = reflected_step 0x8408 ^^ 8"

definition x25_undo_bit :: "16 word \<Rightarrow> 16 word" where
  "x25_undo_bit c = push_bit 1 c XOR (if bit c 15 then 0x0811 else 0)"

definition x25_undo :: "16 word \<Rightarrow> 16 word" where
  "x25_undo = x25_undo_bit ^^ 8"

definition x25_map :: "16 word \<Rightarrow> 16 word" where
  "x25_map c = crcAccumulate 0 c"

lemma crcAccumulate_map: "crcAccumulate b c = x25_map (c XOR ucast b)"
proof -
  have low: "ucast (c XOR ucast b) = b XOR (ucast c :: byte)"
    by (rule bit_eqI) (auto simp: bit_simps)
  have high: "drop_bit 8 (ucast b :: 16 word) = 0"
    by (rule bit_eqI) (auto simp: bit_simps dest: bit_imp_le_length)
  show ?thesis by (simp add: x25_map_def crcAccumulate_def low high drop_bit_xor)
qed

lemma x25_map_linear: "xor_linear x25_map"
  unfolding x25_map_def crcAccumulate_def Let_def
  by unfold_locales (simp add: xor_linear.xor [OF xor_linear_ucast] drop_bit_xor push_bit_xor ac_simps)


lemma x25_bits_linear: "xor_linear x25_bits"
  unfolding x25_bits_def by (rule xor_linear_funpow) (rule reflected_step_linear)

lemma x25_undo_linear: "xor_linear x25_undo"
  unfolding x25_undo_def x25_undo_bit_def [abs_def]
  by (intro xor_linear_funpow xor_linear_xor xor_linear_push_bit xor_linear_if_bit)

lemma x25_map_bits: "x25_map c = x25_bits c"
  by (rule xor_linear_eq [OF x25_map_linear x25_bits_linear])
    (simp only: basis_unfold, simp add: basis_eval x25_bits_def x25_map_def crcAccumulate_def)

lemma x25_undo_map: "x25_undo (x25_map c) = c"
  by (rule xor_linear_eq [OF xor_linear_comp [OF x25_map_linear x25_undo_linear] xor_linear_id])
    (simp only: basis_unfold, simp add: basis_eval x25_undo_def x25_undo_bit_def x25_map_def crcAccumulate_def)

interpretation x25: byte_crc crcAccumulate
  by (rule byte_crcI [where T = x25_map and U = x25_undo and inject = ucast])
    (simp_all add: crcAccumulate_map x25_undo_map inj_ucast_byte)

lemma crcMessage_single_byte:
  assumes "crcMessage (xs @ b # ys) e = crcMessage (xs @ c # ys) e"
  shows "b = c"
proof -
  have "fold crcAccumulate (xs @ b # (ys @ [word_of_int e])) 0xFFFF
      = fold crcAccumulate (xs @ c # (ys @ [word_of_int e])) 0xFFFF"
    using assms by (simp add: crcMessage_def Let_def)
  then show ?thesis by (rule x25.single_byte_detected)
qed

lemma crcMessage_extra_inject:
  assumes "crcMessage xs e = crcMessage xs e'" and "0 \<le> e" "e < 256" "0 \<le> e'" "e' < 256"
  shows "e = e'"
proof -
  have "(word_of_int e :: byte) = word_of_int e'"
    using assms(1) x25.byte_inject by (simp add: crcMessage_def Let_def)
  then have "uint (word_of_int e :: byte) = uint (word_of_int e' :: byte)" by simp
  then show ?thesis using assms(2-) by (simp add: uint_word_of_int_byte)
qed

end
