(* ===== verification/Mav_Codec.thy ===== *)
theory Mav_Codec
  imports Mav_Signing Mav_Crc
begin

unbundle bit_operations_syntax

text \<open>
  The frame layer of \<open>MavlinkV2Codec\<close> (\<open>mavlink-v2-codec.ts\<close>): \<open>encode\<close>, the streaming
  decoder \<open>push\<close> with its resynchronisation, \<open>truncateMavlinkV2Frame\<close> and
  \<open>decodeSingleV2Envelope\<close>.

  One iteration of the decoder's loop is \<open>push_step\<close>; it breaks, continues, or emits an
  envelope and continues. \<open>push_loop\<close> ends because every iteration that does not break
  shortens the buffer. A decoder that throws makes \<open>push\<close> throw (\<open>None\<close>). The \<open>n\<close>-th
  envelope of a call is stamped with the \<open>n\<close>-th value of \<open>Date.now()\<close>.
\<close>

definition MAX_BUFFER_BYTES :: nat where "MAX_BUFFER_BYTES = 4096"
definition RETAINED_TAIL_BYTES :: nat where "RETAINED_TAIL_BYTES = 512"

definition crcExtraFor :: "generic_codec \<Rightarrow> int \<Rightarrow> int option" where
  "crcExtraFor gc msgId = (case MAVLINK_MESSAGE_CRCS msgId of
     Some c \<Rightarrow> Some c | None \<Rightarrow> mavlinkGenericCrcExtra gc msgId)"

subsection \<open>Encoding\<close>

text \<open>
  The unsigned part of a frame: header, payload, checksum. \<open>checksum & 0xff\<close> of an
  undefined \<open>crc_extra\<close> behaves as one of zero.
\<close>

definition encodeFrame :: "generic_codec \<Rightarrow> bool \<Rightarrow> mavlink_header \<Rightarrow> int \<Rightarrow> bytes \<Rightarrow> bytes option" where
  "encodeFrame gc isSigned h msgId body = do {
     let payloadLen = length body;
     let frame = newBytes (MAVLINK_V2_HEADER_LENGTH + payloadLen + MAVLINK_V2_CHECKSUM_LENGTH);
     let frame = frame[0 := MAVLINK_V2_STX];
     let frame = putByte 1 (int payloadLen) frame;
     let frame = frame[2 := if isSigned then MAVLINK_V2_INCOMPAT_FLAG_SIGNED else 0];
     let frame = putByte 3 0 frame;
     let frame = putByte 4 (mavlink_header.sequence h AND 0xFF) frame;
     let frame = putByte 5 (mavlink_header.systemId h AND 0xFF) frame;
     let frame = putByte 6 (mavlink_header.componentId h AND 0xFF) frame;
     let frame = putByte 7 (msgId AND 0xFF) frame;
     let frame = putByte 8 (drop_bit 8 msgId AND 0xFF) frame;
     let frame = putByte 9 (drop_bit 16 msgId AND 0xFF) frame;
     frame \<leftarrow> setBytes MAVLINK_V2_HEADER_LENGTH body frame;
     let checksum = crcMessage (slice 1 (MAVLINK_V2_HEADER_LENGTH + payloadLen) frame)
           (case crcExtraFor gc msgId of None \<Rightarrow> 0 | Some e \<Rightarrow> e);
     let frame = frame[MAVLINK_V2_HEADER_LENGTH + payloadLen := ucast checksum];
     let frame = frame[MAVLINK_V2_HEADER_LENGTH + payloadLen + 1 := ucast (drop_bit 8 checksum)];
     Some frame }"

definition signFrame :: "signing_config \<Rightarrow> mavlink_header \<Rightarrow> bytes \<Rightarrow> codec \<Rightarrow> bytes \<times> codec" where
  "signFrame s h frame c =
     (let link = signing_config.linkId s;
          (timestamp, c) = nextSendTimestamp s
            (streamKey (mavlink_header.systemId h) (mavlink_header.componentId h) link) c;
          signature = computeSignature (signing_config.secretKey s) frame link timestamp;
          signedBytes = put 0 frame (newBytes (length frame + MAVLINK_V2_SIGNATURE_LENGTH));
          trailerOffset = length frame;
          signedBytes = putByte trailerOffset link signedBytes;
          signedBytes = writeUint48LE signedBytes (trailerOffset + 1) timestamp
      in (put (trailerOffset + 7) signature signedBytes, c))"

definition activeSigning :: "codec \<Rightarrow> signing_config option" where
  "activeSigning c = (case signing c of None \<Rightarrow> None
     | Some s \<Rightarrow> if signing_config.enabled s then Some s else None)"

definition encode :: "generic_codec \<Rightarrow> mavlink_envelope \<Rightarrow> codec \<Rightarrow> (bytes \<times> codec) option" where
  "encode gc envelope c = do {
     msgId \<leftarrow> messageIdFor gc (mavlink_envelope.message envelope);
     body \<leftarrow> encodePayload gc (mavlink_envelope.message envelope);
     frame \<leftarrow> encodeFrame gc (activeSigning c \<noteq> None) (mavlink_envelope.header envelope) msgId body;
     (case activeSigning c of
        None \<Rightarrow> Some (frame, c)
      | Some s \<Rightarrow> Some (signFrame s (mavlink_envelope.header envelope) frame c)) }"

subsection \<open>Resynchronisation\<close>

definition frameMessageId :: "nat \<Rightarrow> bytes \<Rightarrow> int" where
  "frameMessageId off buf = uint (buf ! (off + 7)) OR push_bit 8 (uint (buf ! (off + 8)))
     OR push_bit 16 (uint (buf ! (off + 9)))"

definition signedTrailer :: "byte \<Rightarrow> nat" where
  "signedTrailer incompatFlags =
     (if incompatFlags AND MAVLINK_V2_INCOMPAT_FLAG_SIGNED \<noteq> 0 then MAVLINK_V2_SIGNATURE_LENGTH else 0)"

definition receivedChecksum :: "nat \<Rightarrow> bytes \<Rightarrow> 16 word" where
  "receivedChecksum off buf = ucast (buf ! off) OR push_bit 8 (ucast (buf ! (off + 1)))"

definition frameIsCompleteAndValid :: "generic_codec \<Rightarrow> bytes \<Rightarrow> nat \<Rightarrow> bool" where
  "frameIsCompleteAndValid gc buf offset =
     (if length buf - offset < MAVLINK_V2_HEADER_LENGTH + MAVLINK_V2_CHECKSUM_LENGTH then False
      else
        let payloadLen = unat (buf ! (offset + 1));
            signedLength = signedTrailer (buf ! (offset + 2));
            frameLength = MAVLINK_V2_HEADER_LENGTH + payloadLen + MAVLINK_V2_CHECKSUM_LENGTH + signedLength
        in if length buf - offset < frameLength then False
           else
             (case crcExtraFor gc (frameMessageId offset buf) of
                None \<Rightarrow> False
              | Some crcExtra \<Rightarrow>
                  crcMessage (slice (offset + 1) (offset + MAVLINK_V2_HEADER_LENGTH + payloadLen) buf) crcExtra
                    = receivedChecksum (offset + MAVLINK_V2_HEADER_LENGTH + payloadLen) buf))"

definition findResyncIndex :: "generic_codec \<Rightarrow> bytes \<Rightarrow> nat option" where
  "findResyncIndex gc buf = find
     (\<lambda>index. buf ! index = MAVLINK_V2_STX \<and> frameIsCompleteAndValid gc buf index) [1..<length buf]"

text \<open>\<open>bytes.indexOf(b)\<close>.\<close>

definition indexOf :: "byte \<Rightarrow> bytes \<Rightarrow> nat option" where
  "indexOf b bs = find (\<lambda>i. bs ! i = b) [0..<length bs]"

subsection \<open>The streaming decoder\<close>

datatype push_result = Break codec | Continue codec | Emit codec mavlink_envelope

text \<open>
  What happens to a frame whose checksum has been verified and whose bytes have been taken
  off the buffer: unknown flags, signature, decoding.
\<close>

definition deliverFrame :: "generic_codec \<Rightarrow> int \<Rightarrow> codec \<Rightarrow> bytes \<Rightarrow> push_result option" where
  "deliverFrame gc now c frame =
     (let payloadLen = unat (frame ! 1);
          incompatFlags = frame ! 2;
          signedLength = signedTrailer incompatFlags;
          msgId = frameMessageId 0 frame
      in if incompatFlags AND NOT MAVLINK_V2_INCOMPAT_FLAG_SIGNED \<noteq> 0 then Some (Continue c)
         else
           let (accepted, c) = (case activeSigning c of
                 Some s \<Rightarrow> if signedLength > 0 then verifySignedFrame s frame payloadLen c
                           else (True, c)
               | None \<Rightarrow> (True, c))
           in if \<not> accepted then Some (Continue c)
              else
                let body = zeroPad msgId
                      (slice MAVLINK_V2_HEADER_LENGTH (MAVLINK_V2_HEADER_LENGTH + payloadLen) frame)
                in (case decodePayload gc msgId body of
                      None \<Rightarrow> None
                    | Some None \<Rightarrow> Some (Continue c)
                    | Some (Some m) \<Rightarrow> Some (Emit c
                        \<lparr>mavlink_envelope.header =
                           \<lparr>mavlink_header.systemId = uint (frame ! 5),
                            mavlink_header.componentId = uint (frame ! 6),
                            mavlink_header.sequence = uint (frame ! 4)\<rparr>,
                         mavlink_envelope.message = m,
                         mavlink_envelope.timestampMs = Some now,
                         mavlink_envelope.byteLength = Some (length frame)\<rparr>)))"

definition push_step :: "generic_codec \<Rightarrow> int \<Rightarrow> codec \<Rightarrow> push_result option" where
  "push_step gc now c = (case indexOf MAVLINK_V2_STX (buffer c) of
     None \<Rightarrow> Some (Break (c\<lparr>buffer := []\<rparr>))
   | Some stxIndex \<Rightarrow>
       let buf = drop stxIndex (buffer c); c = c\<lparr>buffer := buf\<rparr>
       in if length buf < MAVLINK_V2_HEADER_LENGTH + MAVLINK_V2_CHECKSUM_LENGTH then Some (Break c)
       else
         let payloadLen = unat (buf ! 1);
             signedLength = signedTrailer (buf ! 2);
             frameLength = MAVLINK_V2_HEADER_LENGTH + payloadLen + MAVLINK_V2_CHECKSUM_LENGTH + signedLength
         in if length buf < frameLength
            then (case findResyncIndex gc buf of
                    Some resyncIndex \<Rightarrow> Some (Continue (c\<lparr>buffer := drop resyncIndex buf\<rparr>))
                  | None \<Rightarrow> Some (Break c))
            else
              let frame = take frameLength buf;
                  expectedChecksum = map_option
                    (crcMessage (slice 1 (MAVLINK_V2_HEADER_LENGTH + payloadLen) frame))
                    (crcExtraFor gc (frameMessageId 0 frame))
              in if expectedChecksum \<noteq> Some (receivedChecksum (MAVLINK_V2_HEADER_LENGTH + payloadLen) frame)
                 then Some (Continue (c\<lparr>buffer := drop 1 buf\<rparr>))
                 else deliverFrame gc now (c\<lparr>buffer := drop frameLength buf\<rparr>) frame)"

lemma unat_byte_range: "unat (b :: byte) < 256"
proof -
  have "unat b < 2 ^ LENGTH(8)" by (rule unsigned_less)
  then show ?thesis by simp
qed

lemma indexOf_bound: "indexOf b bs = Some i \<Longrightarrow> i < length bs \<and> bs ! i = b"
  by (auto simp: indexOf_def find_Some_iff)

lemma findResyncIndex_bound:
  "findResyncIndex gc buf = Some i \<Longrightarrow>
   0 < i \<and> i < length buf \<and> buf ! i = MAVLINK_V2_STX \<and> frameIsCompleteAndValid gc buf i"
  by (auto simp: findResyncIndex_def find_Some_iff simp del: upt_Suc)

lemma verifySignedFrame_kept:
  "verifySignedFrame s frame n c = (b, d) \<Longrightarrow> buffer d = buffer c \<and> signing d = signing c"
  by (metis snd_conv verifySignedFrame_buffer verifySignedFrame_signing)

text \<open>Delivering a frame leaves the buffer alone, never breaks and never throws.\<close>

lemma deliverFrame_cases:
  "(\<exists>d. deliverFrame gc now c frame = Some (Continue d) \<and> buffer d = buffer c \<and> signing d = signing c) \<or>
   (\<exists>d e. deliverFrame gc now c frame = Some (Emit d e) \<and> buffer d = buffer c \<and> signing d = signing c)"
proof -
  have decodes: "\<exists>r. decodePayload gc i (zeroPad i p) = Some r" for i p
    by (rule decodePayload_total) (rule length_zeroPad_ge)
  obtain accepted d where verdict: "(case activeSigning c of
        Some s \<Rightarrow> if signedTrailer (frame ! 2) > 0 then verifySignedFrame s frame (unat (frame ! 1)) c
                  else (True, c)
      | None \<Rightarrow> (True, c)) = (accepted, d)"
    by fastforce
  have kept: "buffer d = buffer c" "signing d = signing c"
    using verdict by (auto split: option.splits if_splits dest!: verifySignedFrame_kept)
  obtain r where r: "decodePayload gc (frameMessageId 0 frame) (zeroPad (frameMessageId 0 frame)
      (slice MAVLINK_V2_HEADER_LENGTH (MAVLINK_V2_HEADER_LENGTH + unat (frame ! 1)) frame)) = Some r"
    using decodes by blast
  show ?thesis
    using kept unfolding deliverFrame_def Let_def verdict prod.case r
    by (cases accepted; cases r) simp_all
qed

text \<open>Every iteration that goes on has consumed at least one byte.\<close>

lemma push_step_shrinks:
  assumes "push_step gc now c = Some r" and "r = Continue d \<or> r = Emit d e"
  shows "length (buffer d) < length (buffer c)"
proof -
  obtain stx where stx: "indexOf MAVLINK_V2_STX (buffer c) = Some stx"
    using assms by (auto simp: push_step_def split: option.splits)
  define buf where "buf = drop stx (buffer c)"
  have buf: "length buf \<le> length (buffer c)" "0 < length buf"
    using indexOf_bound [OF stx] by (auto simp: buf_def)
  have delivered: "buffer d = b" if "deliverFrame gc now (c\<lparr>buffer := b\<rparr>) frame = Some r" for b frame
    using deliverFrame_cases [of gc now "c\<lparr>buffer := b\<rparr>" frame] that assms(2) by auto
  have "length (buffer d) < length buf"
    using assms findResyncIndex_bound [of gc buf] buf(2)
    unfolding push_step_def stx option.case Let_def buf_def [symmetric]
    by (auto split: if_splits option.splits dest!: delivered simp: MAVLINK_V2_HEADER_LENGTH_def)
  then show ?thesis using buf by simp
qed

function push_loop :: "generic_codec \<Rightarrow> (nat \<Rightarrow> int) \<Rightarrow> nat \<Rightarrow> codec \<Rightarrow> (codec \<times> mavlink_envelope list) option" where
  "push_loop gc now n c =
     (if length (buffer c) < MAVLINK_V2_HEADER_LENGTH + MAVLINK_V2_CHECKSUM_LENGTH then Some (c, [])
      else (case push_step gc (now n) c of
              None \<Rightarrow> None
            | Some (Break d) \<Rightarrow> Some (d, [])
            | Some (Continue d) \<Rightarrow> push_loop gc now n d
            | Some (Emit d e) \<Rightarrow>
                (case push_loop gc now (Suc n) d of
                   None \<Rightarrow> None
                 | Some (d', es) \<Rightarrow> Some (d', e # es))))"
  by pat_completeness auto
termination
  by (relation "measure (\<lambda>(gc, now, n, c). length (buffer c))") (auto dest: push_step_shrinks)

declare push_loop.simps [simp del]

definition push :: "generic_codec \<Rightarrow> (nat \<Rightarrow> int) \<Rightarrow> codec \<Rightarrow> bytes \<Rightarrow> (codec \<times> mavlink_envelope list) option" where
  "push gc now c chunk =
     (case push_loop gc now 0 (c\<lparr>buffer := buffer c @ chunk\<rparr>) of
        None \<Rightarrow> None
      | Some (d, envelopes) \<Rightarrow>
          Some (if length (buffer d) > MAX_BUFFER_BYTES
                then d\<lparr>buffer := drop (length (buffer d) - RETAINED_TAIL_BYTES) (buffer d)\<rparr>
                else d, envelopes))"

definition reset :: "codec \<Rightarrow> codec" where
  "reset c = c\<lparr>buffer := []\<rparr>"

definition decodeSingleV2Envelope :: "generic_codec \<Rightarrow> (nat \<Rightarrow> int) \<Rightarrow> bytes \<Rightarrow> mavlink_envelope option" where
  "decodeSingleV2Envelope gc now frame = (case push gc now newCodec frame of
     None \<Rightarrow> None
   | Some (c, messages) \<Rightarrow> if length messages \<noteq> 1 then None else Some (messages ! 0))"

subsection \<open>The decoder is total and its buffer stays small\<close>

lemma push_step_total: "\<exists>r. push_step gc now c = Some r"
  using deliverFrame_cases unfolding push_step_def Let_def
  by (force split: option.splits)

lemma push_step_break:
  assumes "push_step gc now c = Some (Break d)"
  shows "length (buffer d) < 280"
proof -
  have not_delivered: "deliverFrame gc now c' frame \<noteq> Some (Break d)" for c' frame
    using deliverFrame_cases [of gc now c' frame] by auto
  show ?thesis
  proof (cases "indexOf MAVLINK_V2_STX (buffer c)")
    case None
    then show ?thesis using assms by (auto simp: push_step_def)
  next
    case (Some stx)
    define buf where "buf = drop stx (buffer c)"
    have "length buf < 280" if "length buf < 10 + unat (buf ! 1) + 2 + signedTrailer (buf ! 2)"
      using that unat_byte_range [of "buf ! 1"]
      by (auto simp: signedTrailer_def MAVLINK_V2_SIGNATURE_LENGTH_def split: if_splits)
    then show ?thesis
      using assms not_delivered
      unfolding push_step_def Some option.case Let_def buf_def [symmetric]
      by (auto simp: MAVLINK_V2_HEADER_LENGTH_def MAVLINK_V2_CHECKSUM_LENGTH_def
          split: if_splits option.splits)
  qed
qed

lemma push_loop_total: "\<exists>d es. push_loop gc now n c = Some (d, es)"
proof (induction gc now n c rule: push_loop.induct)
  case (1 gc now n c)
  obtain r where r: "push_step gc (now n) c = Some r" using push_step_total by blast
  show ?case
    using 1 r by (cases r) (subst push_loop.simps, fastforce)+
qed

lemma push_loop_buffer:
  "push_loop gc now n c = Some (d, es) \<Longrightarrow> length (buffer d) < 280"
proof (induction gc now n c arbitrary: d es rule: push_loop.induct)
  case (1 gc now n c)
  show ?case
    using 1 push_step_break [of gc "now n" c]
    by (subst (asm) push_loop.simps)
      (auto split: if_splits option.splits push_result.splits simp: frame_consts)
qed

lemma push_total: "\<exists>d es. push gc now c chunk = Some (d, es)"
  using push_loop_total [of gc now 0 "c\<lparr>buffer := buffer c @ chunk\<rparr>"]
  by (auto simp: push_def)

text \<open>So the trim after the loop never runs.\<close>

lemma push_is_loop: "push gc now c chunk = push_loop gc now 0 (c\<lparr>buffer := buffer c @ chunk\<rparr>)"
proof -
  obtain d es where d: "push_loop gc now 0 (c\<lparr>buffer := buffer c @ chunk\<rparr>) = Some (d, es)"
    using push_loop_total by blast
  then have "length (buffer d) \<le> MAX_BUFFER_BYTES"
    using push_loop_buffer [OF d] by (simp add: MAX_BUFFER_BYTES_def)
  with d show ?thesis by (simp add: push_def)
qed

subsection \<open>Truncation\<close>

text \<open>\<open>truncateMavlinkV2Frame\<close>, the wire form of a sender that strips trailing zeros.\<close>

fun stripZeros :: "bytes \<Rightarrow> nat \<Rightarrow> nat" where
  "stripZeros frame 0 = 0"
| "stripZeros frame (Suc n) =
     (if n \<ge> 1 \<and> frame ! (MAVLINK_V2_HEADER_LENGTH + n) = 0 then stripZeros frame n else Suc n)"

definition truncateMavlinkV2Frame :: "generic_codec \<Rightarrow> bytes \<Rightarrow> bytes" where
  "truncateMavlinkV2Frame gc frame =
     (if length frame < MAVLINK_V2_HEADER_LENGTH + MAVLINK_V2_CHECKSUM_LENGTH then frame
      else if frame ! 0 \<noteq> MAVLINK_V2_STX then frame
      else
        let declaredLength = unat (frame ! 1);
            truncatedLength = stripZeros frame declaredLength
        in if truncatedLength = declaredLength then frame
           else (case crcExtraFor gc (frameMessageId 0 frame) of
             None \<Rightarrow> frame
           | Some crcExtra \<Rightarrow>
               let out = newBytes (MAVLINK_V2_HEADER_LENGTH + truncatedLength + MAVLINK_V2_CHECKSUM_LENGTH);
                   out = put 0 (take MAVLINK_V2_HEADER_LENGTH frame) out;
                   out = putByte 1 (int truncatedLength) out;
                   out = put MAVLINK_V2_HEADER_LENGTH
                     (slice MAVLINK_V2_HEADER_LENGTH (MAVLINK_V2_HEADER_LENGTH + truncatedLength) frame) out;
                   checksum = crcMessage (slice 1 (MAVLINK_V2_HEADER_LENGTH + truncatedLength) out) crcExtra;
                   out = out[MAVLINK_V2_HEADER_LENGTH + truncatedLength := ucast checksum]
               in out[MAVLINK_V2_HEADER_LENGTH + truncatedLength + 1 := ucast (drop_bit 8 checksum)]))"

text \<open>\<open>TruncatingMavlinkV2Codec.encode\<close>.\<close>

definition truncatingEncode :: "generic_codec \<Rightarrow> mavlink_envelope \<Rightarrow> codec \<Rightarrow> (bytes \<times> codec) option" where
  "truncatingEncode gc envelope c = do {
     (fullFrame, c) \<leftarrow> encode gc envelope c;
     Some (truncateMavlinkV2Frame gc fullFrame, c) }"

end
