(* ===== verification/Mav_Frames.thy ===== *)
theory Mav_Frames
  imports Mav_Codec
begin

unbundle bit_operations_syntax

text \<open>
  What the frame layer guarantees: the shape of an encoded frame, and how one iteration of
  the decoder treats a frame at the front of its buffer, whatever follows it.
\<close>

subsection \<open>The shape of a frame\<close>

definition frame_head :: "nat \<Rightarrow> byte \<Rightarrow> mavlink_header \<Rightarrow> int \<Rightarrow> bytes" where
  "frame_head n flags h i = [0xFD, word_of_int (int n), flags, 0,
     word_of_int (mavlink_header.sequence h), word_of_int (mavlink_header.systemId h),
     word_of_int (mavlink_header.componentId h),
     word_of_int i, word_of_int (drop_bit 8 i), word_of_int (drop_bit 16 i)]"

definition crc_bytes :: "16 word \<Rightarrow> bytes" where
  "crc_bytes c = [ucast c, ucast (drop_bit 8 c)]"

definition frame_base :: "int \<Rightarrow> byte \<Rightarrow> mavlink_header \<Rightarrow> int \<Rightarrow> bytes \<Rightarrow> bytes" where
  "frame_base e flags h i p =
     (let head = frame_head (length p) flags h i
      in head @ p @ crc_bytes (crcMessage (tl head @ p) e))"

lemma length_frame_head [simp]: "length (frame_head n flags h i) = 10"
  by (simp add: frame_head_def)

lemma frame_head_nonempty [simp]: "frame_head n flags h i \<noteq> []"
  by (simp add: frame_head_def)

lemma length_crc_bytes [simp]: "length (crc_bytes c) = 2"
  by (simp add: crc_bytes_def)

lemma length_frame_base [simp]: "length (frame_base e flags h i p) = 12 + length p"
  by (simp add: frame_base_def Let_def)

lemma newBytes_split: "newBytes (a + b) = newBytes a @ newBytes b"
  by (simp add: newBytes_def replicate_add)

lemma newBytes_12:
  "newBytes (12 + n) = 0 # 0 # 0 # 0 # 0 # 0 # 0 # 0 # 0 # 0 # newBytes n @ [0, 0]"
proof -
  have "newBytes (10 + (n + 2)) = newBytes 10 @ newBytes n @ newBytes 2"
    by (simp only: newBytes_split)
  moreover have "10 + (n + 2) = 12 + n" by simp
  ultimately show ?thesis by (simp add: newBytes_def numeral_eq_Suc)
qed

lemma slice_covered:
  "slice 1 (10 + length p) (frame_head n flags h i @ p @ rest) = tl (frame_head n flags h i) @ p"
proof -
  let ?head = "frame_head n flags h i"
  have "drop 1 (?head @ p @ rest) = tl ?head @ p @ rest" by (simp add: frame_head_def)
  moreover have "length (tl ?head) = 9" by simp
  ultimately show ?thesis by (simp add: slice_def)
qed

lemma encodeFrame_base:
  assumes "crcExtraFor gc i = Some e"
  shows "encodeFrame gc isSigned h i p
    = Some (frame_base e (if isSigned then MAVLINK_V2_INCOMPAT_FLAG_SIGNED else 0) h i p)"
proof -
  let ?flags = "if isSigned then MAVLINK_V2_INCOMPAT_FLAG_SIGNED else 0"
  let ?head = "frame_head (length p) ?flags h i"
  have room: "10 + length p + 2 = 12 + length p" by simp
  have head: "putByte 9 (drop_bit 16 i AND 0xFF) (putByte 8 (drop_bit 8 i AND 0xFF)
      (putByte 7 (i AND 0xFF) (putByte 6 (mavlink_header.componentId h AND 0xFF)
        (putByte 5 (mavlink_header.systemId h AND 0xFF) (putByte 4 (mavlink_header.sequence h AND 0xFF)
          (putByte 3 0 ((putByte 1 (int (length p)) ((newBytes (12 + length p))[0 := 0xFD]))[2 := ?flags])))))))
    = ?head @ newBytes (length p) @ [0, 0]"
    by (simp add: newBytes_12 putByte_def frame_head_def)
  have body: "setBytes 10 p (?head @ newBytes (length p) @ [0, 0]) = Some (?head @ p @ [0, 0])"
    by (simp add: setBytes_def put_def)
  have crc: "(?head @ p @ [0, 0])[10 + length p := x, 10 + length p + 1 := y] = ?head @ p @ [x, y]"
    for x y by (simp add: list_update_append)
  show ?thesis
    unfolding encodeFrame_def Let_def MAVLINK_V2_HEADER_LENGTH_def MAVLINK_V2_CHECKSUM_LENGTH_def
      MAVLINK_V2_STX_def room head body
    by (simp add: slice_covered slice_covered [unfolded One_nat_def] crc [simplified] assms frame_base_def crc_bytes_def Let_def)
qed

lemma receivedChecksum_crc_bytes:
  "length xs = off \<Longrightarrow> receivedChecksum off (xs @ crc_bytes c @ ys) = c"
  by (rule bit_word_eqI)
    (auto simp: receivedChecksum_def crc_bytes_def nth_append bit_simps)

lemma three_bytes:
  assumes "0 \<le> i" and "i < 2 ^ 24"
  shows "uint (word_of_int i :: byte) OR push_bit 8 (uint (word_of_int (drop_bit 8 i) :: byte))
    OR push_bit 16 (uint (word_of_int (drop_bit 16 i) :: byte)) = i"
proof -
  have "uint (word_of_int v :: byte) = take_bit 8 v" for v
    by (simp add: uint_word_of_int_byte take_bit_eq_mod)
  moreover have "take_bit 8 i OR push_bit 8 (take_bit 8 (drop_bit 8 i))
      OR push_bit 16 (take_bit 8 (drop_bit 16 i)) = take_bit 24 i"
  proof (rule bit_eqI)
    fix n :: nat
    consider "n < 8" | "8 \<le> n" "n < 16" | "16 \<le> n" by linarith
    then show "bit (take_bit 8 i OR push_bit 8 (take_bit 8 (drop_bit 8 i))
        OR push_bit 16 (take_bit 8 (drop_bit 16 i))) n \<longleftrightarrow> bit (take_bit 24 i) n"
      by cases (auto simp: bit_simps)
  qed
  moreover have "take_bit 24 i = i" using assms by (simp add: take_bit_int_eq_self)
  ultimately show ?thesis by simp
qed

lemma frameMessageId_head:
  "0 \<le> i \<Longrightarrow> i < 2 ^ 24 \<Longrightarrow> frameMessageId 0 (frame_head n flags h i @ rest) = i"
  using three_bytes [of i] by (simp add: frameMessageId_def frame_head_def)

lemma frame_head_parts:
  "n \<le> 255 \<Longrightarrow> unat ((frame_head n flags h i @ rest) ! 1) = n"
  "(frame_head n flags h i @ rest) ! 2 = flags"
  "(frame_head n flags h i @ rest) ! 0 = 0xFD"
  "(frame_head n flags h i @ rest) ! 4 = word_of_int (mavlink_header.sequence h)"
  "(frame_head n flags h i @ rest) ! 5 = word_of_int (mavlink_header.systemId h)"
  "(frame_head n flags h i @ rest) ! 6 = word_of_int (mavlink_header.componentId h)"
  by (simp_all add: frame_head_def unat_of_nat_byte)

subsection \<open>A frame at the front of the buffer\<close>

lemma indexOf_first: "bs \<noteq> [] \<Longrightarrow> bs ! 0 = b \<Longrightarrow> indexOf b bs = Some 0"
  by (cases bs) (auto simp: indexOf_def upt_conv_Cons simp del: upt_Suc)

definition whole_frame :: "generic_codec \<Rightarrow> bytes \<Rightarrow> bool" where
  "whole_frame gc f \<longleftrightarrow> f \<noteq> [] \<and> f ! 0 = MAVLINK_V2_STX \<and>
     length f = 12 + unat (f ! 1) + signedTrailer (f ! 2) \<and>
     (\<exists>e. crcExtraFor gc (frameMessageId 0 f) = Some e \<and>
        crcMessage (slice 1 (10 + unat (f ! 1)) f) e = receivedChecksum (10 + unat (f ! 1)) f)"

lemma push_step_whole:
  assumes "whole_frame gc f" and "buffer c = f @ rest"
  shows "push_step gc now c = deliverFrame gc now (c\<lparr>buffer := rest\<rparr>) f"
proof -
  from assms(1) obtain e where f: "f \<noteq> []" "f ! 0 = MAVLINK_V2_STX"
    and len: "length f = 12 + unat (f ! 1) + signedTrailer (f ! 2)"
    and e: "crcExtraFor gc (frameMessageId 0 f) = Some e"
    and crc: "crcMessage (slice 1 (10 + unat (f ! 1)) f) e = receivedChecksum (10 + unat (f ! 1)) f"
    by (auto simp: whole_frame_def)
  have stx: "indexOf MAVLINK_V2_STX (f @ rest) = Some 0"
    using f by (intro indexOf_first) (auto simp: nth_append)
  have parts: "(f @ rest) ! 1 = f ! 1" "(f @ rest) ! 2 = f ! 2"
    using len by (simp_all add: nth_append)
  have total: "10 + unat (f ! 1) + 2 + signedTrailer (f ! 2) = length f" using len by simp
  show ?thesis
    using crc
    unfolding push_step_def assms(2) stx option.case Let_def drop_0 parts
      MAVLINK_V2_HEADER_LENGTH_def MAVLINK_V2_CHECKSUM_LENGTH_def total
    by (simp add: e len)
qed

lemma whole_frame_base:
  assumes "length p \<le> 255" and "0 \<le> i" "i < 2 ^ 24" and "crcExtraFor gc i = Some e"
    and "length t = signedTrailer flags"
  shows "whole_frame gc (frame_base e flags h i p @ t)"
proof -
  let ?head = "frame_head (length p) flags h i"
  let ?crc = "crcMessage (tl ?head @ p) e"
  let ?f = "?head @ (p @ crc_bytes ?crc @ t)"
  have form: "frame_base e flags h i p @ t = ?f" by (simp add: frame_base_def Let_def)
  have "slice 1 (10 + length p) ?f = tl ?head @ p" by (rule slice_covered)
  moreover have "receivedChecksum (10 + length p) ((?head @ p) @ crc_bytes ?crc @ t) = ?crc"
    by (rule receivedChecksum_crc_bytes) simp
  ultimately show ?thesis
    unfolding whole_frame_def form
    using assms
    by (simp add: frame_head_parts frame_head_parts(1) [unfolded One_nat_def] frameMessageId_head
        MAVLINK_V2_STX_def)
qed

lemma whole_frame_length: "whole_frame gc f \<Longrightarrow> 12 \<le> length f"
  by (simp add: whole_frame_def)

lemma push_loop_emit:
  assumes "whole_frame gc f" and "buffer c = f @ rest"
    and "deliverFrame gc (now n) (c\<lparr>buffer := rest\<rparr>) f = Some (Emit d e)"
  shows "push_loop gc now n c
    = map_option (\<lambda>(d', es). (d', e # es)) (push_loop gc now (Suc n) d)"
  using whole_frame_length [OF assms(1)] assms push_step_whole [OF assms(1,2), of "now n"]
  by (subst push_loop.simps) (auto simp: frame_consts split: option.splits)

lemma push_loop_drop:
  assumes "whole_frame gc f" and "buffer c = f @ rest"
    and "deliverFrame gc (now n) (c\<lparr>buffer := rest\<rparr>) f = Some (Continue d)"
  shows "push_loop gc now n c = push_loop gc now n d"
  using whole_frame_length [OF assms(1)] assms push_step_whole [OF assms(1,2), of "now n"]
  by (subst push_loop.simps) (auto simp: frame_consts)

lemma push_loop_empty: "buffer c = [] \<Longrightarrow> push_loop gc now n c = Some (c, [])"
  by (subst push_loop.simps) (simp add: frame_consts)

subsection \<open>Bytes before the first start byte are skipped\<close>

lemma indexOf_junk:
  assumes "b \<notin> set junk" and "bs \<noteq> []" and "bs ! 0 = b"
  shows "indexOf b (junk @ bs) = Some (length junk)"
proof -
  have "[0..<length (junk @ bs)] = [0..<length junk] @ length junk # [Suc (length junk)..<length (junk @ bs)]"
    using assms(2) upt_add_eq_append [of 0 "length junk" "length bs"]
    by (simp add: upt_conv_Cons del: upt_Suc)
  moreover have "find (\<lambda>i. (junk @ bs) ! i = b) [0..<length junk] = None"
    using assms(1) by (auto simp: find_None_iff nth_append)
  moreover have "find P (as @ cs) = (case find P as of None \<Rightarrow> find P cs | Some j \<Rightarrow> Some j)"
    for P and as cs :: "nat list"
    by (induction as) auto
  ultimately show ?thesis using assms(3) by (simp add: indexOf_def nth_append del: upt_Suc)
qed

lemma push_step_junk:
  assumes "MAVLINK_V2_STX \<notin> set junk" and "bs \<noteq> []" and "bs ! 0 = MAVLINK_V2_STX"
  shows "push_step gc now (c\<lparr>buffer := junk @ bs\<rparr>) = push_step gc now (c\<lparr>buffer := bs\<rparr>)"
  using indexOf_junk [OF assms] indexOf_first [OF assms(2,3)]
  unfolding push_step_def by (simp add: Let_def)

lemma push_loop_junk:
  assumes "MAVLINK_V2_STX \<notin> set junk" and "12 \<le> length bs" and "bs ! 0 = MAVLINK_V2_STX"
  shows "push_loop gc now n (c\<lparr>buffer := junk @ bs\<rparr>) = push_loop gc now n (c\<lparr>buffer := bs\<rparr>)"
proof -
  have "bs \<noteq> []" using assms(2) by auto
  from push_step_junk [OF assms(1) this assms(3)] assms(2) show ?thesis
    by (subst (1 2) push_loop.simps) (simp add: frame_consts)
qed

subsection \<open>A frame in two chunks\<close>

lemma findResyncIndex_short: "length a \<le> 12 \<Longrightarrow> findResyncIndex gc a = None"
  by (auto simp: findResyncIndex_def find_None_iff frameIsCompleteAndValid_def frame_consts)

lemma push_loop_partial:
  assumes "whole_frame gc (a @ b)" and "b \<noteq> []" and "findResyncIndex gc a = None"
    and "buffer c = a"
  shows "push_loop gc now n c = Some (c, [])"
proof (cases "length a < 12")
  case True
  then show ?thesis using assms(4) by (subst push_loop.simps) (simp add: frame_consts)
next
  case False
  then have a: "a \<noteq> []" "(a @ b) ! 0 = a ! 0" "(a @ b) ! 1 = a ! 1" "(a @ b) ! 2 = a ! 2"
    by (auto simp: nth_append)
  have stx: "indexOf MAVLINK_V2_STX a = Some 0"
    using assms(1) a by (intro indexOf_first) (auto simp: whole_frame_def)
  have "length a < length (a @ b)" using assms(2) by simp
  also have "\<dots> = 12 + unat (a ! 1) + signedTrailer (a ! 2)"
    using assms(1) unfolding whole_frame_def a by blast
  finally have short: "length a < 12 + unat (a ! 1) + signedTrailer (a ! 2)" .
  have same: "c\<lparr>buffer := a\<rparr> = c" using assms(4) by (cases c) simp
  have "push_step gc (now n) c = Some (Break c)"
    unfolding push_step_def assms(4) stx option.case Let_def drop_0 same
    using short False by (simp add: frame_consts assms(3))
  then show ?thesis using False assms(4) by (subst push_loop.simps) (simp add: frame_consts)
qed

subsection \<open>Delivering an encoded frame\<close>

definition header_ok :: "mavlink_header \<Rightarrow> bool" where
  "header_ok h \<longleftrightarrow> u8_ok (mavlink_header.systemId h) \<and> u8_ok (mavlink_header.componentId h) \<and>
     u8_ok (mavlink_header.sequence h)"

definition envelope_ok :: "mavlink_envelope \<Rightarrow> bool" where
  "envelope_ok v \<longleftrightarrow> header_ok (mavlink_envelope.header v) \<and> message_ok (mavlink_envelope.message v)"

text \<open>What the receiver reports for a message it was sent in a frame of \<open>n\<close> bytes.\<close>

definition deliveredEnvelope :: "int \<Rightarrow> nat \<Rightarrow> mavlink_envelope \<Rightarrow> mavlink_envelope" where
  "deliveredEnvelope now n v =
     \<lparr>mavlink_envelope.header = mavlink_envelope.header v,
      mavlink_envelope.message = received (mavlink_envelope.message v),
      mavlink_envelope.timestampMs = Some now, mavlink_envelope.byteLength = Some n\<rparr>"

lemma carried_crcExtra:
  assumes "carried gc m i p"
  obtains e where "crcExtraFor gc i = Some e" and "MAVLINK_MESSAGE_CRCS i = Some e"
  using assms by (auto simp: carried_def crcExtraFor_def)

lemma deliverFrame_decodes:
  assumes p: "length p \<le> 255" "0 \<le> i" "i < 2 ^ 24" "decodePayload gc i (zeroPad i p)
      = Some (Some (received (mavlink_envelope.message v)))"
    and "header_ok (mavlink_envelope.header v)"
    and "flags = 0 \<or> flags = 1" and "length t = signedTrailer flags"
    and "f = frame_base e flags (mavlink_envelope.header v) i p @ t"
    and "(case activeSigning c of
            Some s \<Rightarrow> if signedTrailer flags > 0 then verifySignedFrame s f (length p) c else (True, c)
          | None \<Rightarrow> (True, c)) = (True, d)"
  shows "deliverFrame gc now c f = Some (Emit d (deliveredEnvelope now (length f) v))"
proof -
  let ?h = "mavlink_envelope.header v"
  let ?head = "frame_head (length p) flags ?h i"
  have f: "f = ?head @ p @ crc_bytes (crcMessage (tl ?head @ p) e) @ t"
    by (simp add: assms(8) frame_base_def Let_def)
  have parts: "unat (f ! 1) = length p" "f ! 2 = flags" "frameMessageId 0 f = i"
    "slice 10 (10 + length p) f = p"
    using p unfolding f by (simp_all only: frame_head_parts frameMessageId_head) (simp add: slice_def)
  have ids: "uint (f ! 4) = mavlink_header.sequence ?h" "uint (f ! 5) = mavlink_header.systemId ?h"
    "uint (f ! 6) = mavlink_header.componentId ?h"
    using assms(5) unfolding f
    by (simp_all only: frame_head_parts header_ok_def uint_word_of_int_u8)
  have flags: "flags AND NOT MAVLINK_V2_INCOMPAT_FLAG_SIGNED = 0"
    using assms(6) by (auto simp: MAVLINK_V2_INCOMPAT_FLAG_SIGNED_def)
  show ?thesis
    unfolding deliverFrame_def Let_def parts ids flags assms(9) prod.case MAVLINK_V2_HEADER_LENGTH_def
    by (simp add: p(4) deliveredEnvelope_def)
qed

lemma deliverFrame_carried:
  assumes "carried gc (mavlink_envelope.message v) i p" and "header_ok (mavlink_envelope.header v)"
    and "flags = 0 \<or> flags = 1" and "length t = signedTrailer flags"
    and "f = frame_base e flags (mavlink_envelope.header v) i p @ t"
    and "(case activeSigning c of
            Some s \<Rightarrow> if signedTrailer flags > 0 then verifySignedFrame s f (length p) c else (True, c)
          | None \<Rightarrow> (True, c)) = (True, d)"
  shows "deliverFrame gc now c f = Some (Emit d (deliveredEnvelope now (length f) v))"
  using assms(1) unfolding carried_def
  by (intro deliverFrame_decodes [OF _ _ _ _ assms(2-6)]) auto

lemma encode_unsigned:
  assumes "activeSigning tx = None" and "carried gc (mavlink_envelope.message v) i p"
    and "crcExtraFor gc i = Some e"
  shows "encode gc v tx = Some (frame_base e 0 (mavlink_envelope.header v) i p, tx)"
  using assms by (simp add: encode_def carried_def encodeFrame_base)

text \<open>An unsigned frame is a whole frame and is delivered, whatever the receiver's key.\<close>

lemma unsigned_frame:
  assumes "envelope_ok v" and "activeSigning tx = None"
  obtains f where "encode gc v tx = Some (f, tx)" and "whole_frame gc f"
    and "\<And>now c. deliverFrame gc now c f = Some (Emit c (deliveredEnvelope now (length f) v))"
proof -
  obtain i p where carried: "carried gc (mavlink_envelope.message v) i p"
    using payload_carried assms(1) unfolding envelope_ok_def by blast
  then obtain e where e: "crcExtraFor gc i = Some e" by (rule carried_crcExtra)
  let ?f = "frame_base e 0 (mavlink_envelope.header v) i p"
  have plain: "signedTrailer 0 = 0" by (simp add: signedTrailer_def)
  have "whole_frame gc (?f @ [])"
    using carried e by (intro whole_frame_base) (auto simp: carried_def plain)
  moreover have "deliverFrame gc now c ?f = Some (Emit c (deliveredEnvelope now (length ?f) v))" for now c
    using carried assms(1)
    by (intro deliverFrame_carried [where t = "[]" and flags = 0])
      (auto simp: envelope_ok_def plain split: option.splits)
  ultimately show thesis
    using that [of ?f] encode_unsigned [OF assms(2) carried e] by simp
qed

fun encodeAll :: "generic_codec \<Rightarrow> mavlink_envelope list \<Rightarrow> codec \<Rightarrow> (bytes list \<times> codec) option" where
  "encodeAll gc [] tx = Some ([], tx)"
| "encodeAll gc (v # vs) tx = do {
     (f, tx) \<leftarrow> encode gc v tx;
     (fs, tx) \<leftarrow> encodeAll gc vs tx;
     Some (f # fs, tx) }"

text \<open>The envelopes of a stream: the \<open>k\<close>-th carries the \<open>k\<close>-th reading of the clock.\<close>

fun deliveredStream :: "(nat \<Rightarrow> int) \<Rightarrow> nat \<Rightarrow> mavlink_envelope list \<Rightarrow> bytes list \<Rightarrow> mavlink_envelope list" where
  "deliveredStream now k (v # vs) (f # fs) =
     deliveredEnvelope (now k) (length f) v # deliveredStream now (Suc k) vs fs"
| "deliveredStream now k _ _ = []"

lemma push_loop_unsigned_stream:
  assumes "\<forall>v\<in>set vs. envelope_ok v" and "activeSigning tx = None"
    and "buffer c = concat fs @ rest" and "encodeAll gc vs tx = Some (fs, tx')"
  shows "push_loop gc now n c = map_option (\<lambda>(d, es). (d, deliveredStream now n vs fs @ es))
    (push_loop gc now (n + length vs) (c\<lparr>buffer := rest\<rparr>))"
  using assms
proof (induction vs arbitrary: fs n c tx')
  case Nil
  then have "c\<lparr>buffer := rest\<rparr> = c" by (cases c) simp
  with Nil show ?case by (cases "push_loop gc now n c") auto
next
  case (Cons v vs)
  obtain f where f: "encode gc v tx = Some (f, tx)" "whole_frame gc f"
    and deliver: "\<And>now c. deliverFrame gc now c f = Some (Emit c (deliveredEnvelope now (length f) v))"
    using unsigned_frame [of v tx gc] Cons.prems by (metis list.set_intros(1))
  obtain fs' where fs': "fs = f # fs'" "encodeAll gc vs tx = Some (fs', tx')"
    using Cons.prems(4) f by (auto split: bind_splits)
  have split: "buffer c = f @ (concat fs' @ rest)" using Cons.prems(3) fs' by simp
  show ?case
    unfolding push_loop_emit [OF f(2) split deliver]
    using Cons.IH [of "c\<lparr>buffer := concat fs' @ rest\<rparr>" fs' tx' "Suc n"] Cons.prems fs'
    by (simp add: option.map_comp comp_def case_prod_unfold)
qed

lemma encodeAll_unsigned:
  assumes "\<forall>v\<in>set vs. envelope_ok v" and "activeSigning tx = None" and "vs \<noteq> []"
  shows "\<exists>fs. encodeAll gc vs tx = Some (fs, tx) \<and> length fs = length vs \<and>
    12 \<le> length (concat fs) \<and> concat fs ! 0 = MAVLINK_V2_STX"
  using assms
proof (induction vs)
  case (Cons v vs)
  obtain f where f: "encode gc v tx = Some (f, tx)" "whole_frame gc f"
    using unsigned_frame [of v tx gc] Cons.prems by (metis list.set_intros(1))
  then have front: "12 \<le> length f" "f ! 0 = MAVLINK_V2_STX"
    using whole_frame_length by (auto simp: whole_frame_def)
  then have "(f @ cs) ! 0 = MAVLINK_V2_STX" for cs by (cases f) auto
  with front f(1) Cons show ?case by (cases "vs = []") auto
qed simp

subsection \<open>Signed frames\<close>

definition signing_ok :: "signing_config \<Rightarrow> bool" where
  "signing_ok s \<longleftrightarrow> u8_ok (signing_config.linkId s) \<and> (\<forall>k. 0 \<le> signing_config.clock s k)"

definition envelopeStream :: "signing_config \<Rightarrow> mavlink_envelope \<Rightarrow> stream_key" where
  "envelopeStream s v = streamKey (mavlink_header.systemId (mavlink_envelope.header v))
     (mavlink_header.componentId (mavlink_envelope.header v)) (signing_config.linkId s)"

definition signedBytes :: "signing_config \<Rightarrow> bytes \<Rightarrow> int \<Rightarrow> bytes" where
  "signedBytes s base t = base @ trailer (signing_config.linkId s) t
     (computeSignature (signing_config.secretKey s) base (signing_config.linkId s) t)"

lemma signFrame_bytes:
  assumes "nextSendTimestamp s (streamKey (mavlink_header.systemId h) (mavlink_header.componentId h)
      (signing_config.linkId s)) c = (t, d)"
  shows "signFrame s h base c = (signedBytes s base t, d)"
proof -
  let ?link = "signing_config.linkId s"
  let ?sig = "computeSignature (signing_config.secretKey s) base ?link t"
  have "newBytes (length base + (1 + (6 + 6))) = newBytes (length base) @ newBytes 1 @ newBytes 6 @ newBytes 6"
    by (simp only: newBytes_split)
  then have "put 0 base (newBytes (length base + 13)) = base @ newBytes 1 @ newBytes 6 @ newBytes 6"
    by (simp add: put_def)
  moreover have "putByte (length base) ?link (base @ newBytes 1 @ newBytes 6 @ newBytes 6)
      = base @ [word_of_int ?link] @ newBytes 6 @ newBytes 6"
    by (simp add: putByte_def newBytes_def list_update_append)
  moreover have "writeUint48LE (base @ [word_of_int ?link] @ newBytes 6 @ newBytes 6) (length base + 1) t
      = base @ [word_of_int ?link] @ le_bytes 6 t @ newBytes 6"
    by (simp add: writeUint48LE_def writeUintLE_put put_def)
  moreover have "put (length base + 7) ?sig (base @ [word_of_int ?link] @ le_bytes 6 t @ newBytes 6)
      = base @ [word_of_int ?link] @ le_bytes 6 t @ ?sig"
    by (simp add: put_def)
  ultimately show ?thesis
    by (simp add: signFrame_def assms Let_def MAVLINK_V2_SIGNATURE_LENGTH_def signedBytes_def trailer_def)
qed

lemma signedTrailer_1: "signedTrailer 1 = 13"
  by (simp add: signedTrailer_def frame_consts)

lemma frame_stream_base:
  assumes "header_ok h"
  shows "frame_stream (frame_base e flags h i p) link
    = streamKey (mavlink_header.systemId h) (mavlink_header.componentId h) link"
  using assms
  by (simp add: frame_stream_def frame_base_def Let_def frame_head_parts header_ok_def uint_word_of_int_u8)

lemma sent_timestamp_u48:
  assumes "nextSendTimestamp s key c = (t, d)" and "sent_ok c" and "signing_ok s"
  shows "u48_ok t"
proof -
  have "0 \<le> t"
    using nextSendTimestamp_not_below_clock [OF assms(1)] assms(3)
    unfolding signing_ok_def MAVLINK_V2_SIGNING_TIMESTAMP_MAX_def
    by (smt (verit) one_le_power)
  moreover have "t \<le> 2 ^ 48 - 1"
    using nextSendTimestamp_props(3) [OF assms(1,2)] by (simp add: MAVLINK_V2_SIGNING_TIMESTAMP_MAX_def)
  ultimately show ?thesis by (simp add: u48_ok_def)
qed

text \<open>
  The receiver's verdict on a genuine signed frame depends on its stream and timestamp alone.
\<close>

definition signedVerdict ::
    "signing_config \<Rightarrow> signing_config \<Rightarrow> mavlink_envelope \<Rightarrow> int \<Rightarrow> codec \<Rightarrow> bool \<times> codec" where
  "signedVerdict r s v t c =
     (let key = envelopeStream s v;
          reject = (\<lambda>why c. rejectFrame why (mavlink_header.systemId (mavlink_envelope.header v))
            (mavlink_header.componentId (mavlink_envelope.header v)) (signing_config.linkId s) c);
          ticked = c\<lparr>clockCalls := Suc (clockCalls c)\<rparr>
      in if \<not> fresh c key t then (False, reject ReplayTimestamp c)
         else if \<not> recent r c t then (False, reject TimestampTooOld ticked)
         else (True, ticked\<lparr>lastSeenTimestamp := (lastSeenTimestamp c)(key \<mapsto> t)\<rparr>))"

lemma verify_genuine:
  assumes "header_ok (mavlink_envelope.header v)" and "u48_ok t" and "u8_ok (signing_config.linkId s)"
    and "signing_config.secretKey r = signing_config.secretKey s"
    and "base = frame_base e flags (mavlink_envelope.header v) i p"
  shows "verifySignedFrame r (signedBytes s base t) (length p) c = signedVerdict r s v t c"
proof -
  let ?h = "mavlink_envelope.header v"
  have "length base = 12 + length p" by (simp add: assms(5))
  moreover have "uint (base ! 5) = mavlink_header.systemId ?h" "uint (base ! 6) = mavlink_header.componentId ?h"
    using assms(1)
    by (simp_all add: assms(5) frame_base_def Let_def frame_head_parts header_ok_def uint_word_of_int_u8)
  moreover have "frame_stream base (signing_config.linkId s) = envelopeStream s v"
    using assms(1) by (simp add: assms(5) frame_stream_base envelopeStream_def)
  ultimately show ?thesis
    unfolding signedBytes_def using assms(2-4)
    by (subst verifySignedFrame_cases) (simp_all add: signedVerdict_def Let_def)
qed

lemma deliverFrame_signed:
  assumes "carried gc (mavlink_envelope.message v) i p" and "header_ok (mavlink_envelope.header v)"
    and "length t = 13" and "f = frame_base e 1 (mavlink_envelope.header v) i p @ t"
    and "activeSigning c = Some r" and "verifySignedFrame r f (length p) c = (ok, d)"
  shows "deliverFrame gc now c f
    = Some (if ok then Emit d (deliveredEnvelope now (length f) v) else Continue d)"
proof (cases ok)
  case True
  have "deliverFrame gc now c f = Some (Emit d (deliveredEnvelope now (length f) v))"
    using assms True by (intro deliverFrame_carried [where t = t and flags = 1]) (simp_all add: signedTrailer_1)
  with True show ?thesis by simp
next
  case False
  have p: "length p \<le> 255" using assms(1) by (simp add: carried_def)
  have parts: "unat (f ! 1) = length p" "f ! 2 = 1"
    using p unfolding assms(4) frame_base_def Let_def append_assoc by (simp_all only: frame_head_parts)
  have "(1 :: byte) AND NOT MAVLINK_V2_INCOMPAT_FLAG_SIGNED = 0"
    by (simp add: MAVLINK_V2_INCOMPAT_FLAG_SIGNED_def)
  then show ?thesis
    unfolding deliverFrame_def Let_def parts by (simp add: assms(5,6) signedTrailer_1 False)
qed

lemma signed_frame:
  assumes "envelope_ok v" and "activeSigning tx = Some s" and "signing_ok s" and "sent_ok tx"
    and "nextSendTimestamp s (envelopeStream s v) tx = (t, tx')"
  obtains f where "encode gc v tx = Some (f, tx')" and "whole_frame gc f"
    and "\<And>now c r. activeSigning c = Some r \<Longrightarrow>
      signing_config.secretKey r = signing_config.secretKey s \<Longrightarrow>
      deliverFrame gc now c f = (let (ok, d) = signedVerdict r s v t c
        in Some (if ok then Emit d (deliveredEnvelope now (length f) v) else Continue d))"
proof -
  let ?h = "mavlink_envelope.header v"
  obtain i p where carried: "carried gc (mavlink_envelope.message v) i p"
    using payload_carried assms(1) unfolding envelope_ok_def by blast
  then obtain e where e: "crcExtraFor gc i = Some e" by (rule carried_crcExtra)
  define base where "base = frame_base e 1 ?h i p"
  have h: "header_ok ?h" using assms(1) by (simp add: envelope_ok_def)
  have t: "u48_ok t" using sent_timestamp_u48 [OF assms(5,4,3)] .
  have link: "u8_ok (signing_config.linkId s)" using assms(3) by (simp add: signing_ok_def)
  have enc: "encode gc v tx = Some (signedBytes s base t, tx')"
    using assms(2,5) carried e signFrame_bytes [of s ?h tx t tx' base]
    by (simp add: encode_def carried_def encodeFrame_base base_def envelopeStream_def
        MAVLINK_V2_INCOMPAT_FLAG_SIGNED_def)
  have whole: "whole_frame gc (signedBytes s base t)"
    unfolding signedBytes_def base_def using carried e
    by (intro whole_frame_base) (auto simp: carried_def signedTrailer_1)
  show thesis
  proof (rule that [OF enc whole])
    fix now c r
    assume r: "activeSigning c = Some r" "signing_config.secretKey r = signing_config.secretKey s"
    obtain ok d where verdict: "signedVerdict r s v t c = (ok, d)" by fastforce
    then have "verifySignedFrame r (signedBytes s base t) (length p) c = (ok, d)"
      using verify_genuine [OF h t link r(2) base_def] by simp
    then show "deliverFrame gc now c (signedBytes s base t) = (let (ok, d) = signedVerdict r s v t c
        in Some (if ok then Emit d (deliveredEnvelope now (length (signedBytes s base t)) v) else Continue d))"
      unfolding verdict Let_def prod.case using carried h r(1)
      by (intro deliverFrame_signed [where e = e and i = i and r = r]) (simp_all add: signedBytes_def base_def)
  qed
qed

subsection \<open>A corrupted byte\<close>

lemma corrupted_checksum:
  assumes "1 \<le> k" and "k < m" and "m \<le> length f" and "b \<noteq> f ! k"
  shows "crcMessage (slice 1 m (f[k := b])) e \<noteq> crcMessage (slice 1 m f) e"
proof
  assume same: "crcMessage (slice 1 m (f[k := b])) e = crcMessage (slice 1 m f) e"
  let ?xs = "slice 1 m f"
  have covered: "slice 1 m (f[k := b]) = ?xs[k - 1 := b]"
    using assms by (intro nth_equalityI) (auto simp: slice_def nth_list_update)
  have k: "k - 1 < length ?xs" "?xs ! (k - 1) = f ! k"
    using assms by (simp_all add: slice_def)
  have "?xs[k - 1 := b] = take (k - 1) ?xs @ b # drop (Suc (k - 1)) ?xs"
    using k(1) by (rule upd_conv_take_nth_drop)
  moreover have "?xs = take (k - 1) ?xs @ f ! k # drop (Suc (k - 1)) ?xs"
    using id_take_nth_drop [OF k(1)] k(2) by simp
  ultimately have "b = f ! k"
    using same covered crcMessage_single_byte [of "take (k - 1) ?xs" b "drop (Suc (k - 1)) ?xs" e "f ! k"]
    by metis
  with assms(4) show False by simp
qed

lemma push_step_corrupted:
  assumes "whole_frame gc f" and "3 \<le> k" and "k < 10 + unat (f ! 1)" and "k \<notin> {7, 8, 9}"
    and "b \<noteq> f ! k" and buf: "buffer c = f[k := b] @ rest"
  shows "push_step gc now c = Some (Continue (c\<lparr>buffer := drop 1 (f[k := b] @ rest)\<rparr>))"
proof -
  let ?g = "f[k := b]"
  from assms(1) obtain e where f: "f \<noteq> []" "f ! 0 = MAVLINK_V2_STX"
    and len: "length f = 12 + unat (f ! 1) + signedTrailer (f ! 2)"
    and e: "crcExtraFor gc (frameMessageId 0 f) = Some e"
    and crc: "crcMessage (slice 1 (10 + unat (f ! 1)) f) e = receivedChecksum (10 + unat (f ! 1)) f"
    by (auto simp: whole_frame_def)
  have stx: "indexOf MAVLINK_V2_STX (?g @ rest) = Some 0"
    using f assms(2) len by (intro indexOf_first) (auto simp: nth_append)
  have parts: "(?g @ rest) ! 1 = f ! 1" "(?g @ rest) ! 2 = f ! 2"
    using len assms(2) by (simp_all add: nth_append)
  have total: "10 + unat (f ! 1) + 2 + signedTrailer (f ! 2) = length ?g" using len by simp
  have ids: "frameMessageId 0 ?g = frameMessageId 0 f"
    "receivedChecksum (10 + unat (f ! 1)) ?g = receivedChecksum (10 + unat (f ! 1)) f"
    using assms(3,4) by (simp_all add: frameMessageId_def receivedChecksum_def nth_list_update)
  have "crcMessage (slice 1 (10 + unat (f ! 1)) ?g) e \<noteq> receivedChecksum (10 + unat (f ! 1)) f"
    unfolding crc [symmetric] using assms len by (intro corrupted_checksum) auto
  then show ?thesis
    unfolding push_step_def buf stx option.case Let_def drop_0 parts
      MAVLINK_V2_HEADER_LENGTH_def MAVLINK_V2_CHECKSUM_LENGTH_def total
    by (simp add: e ids ids [unfolded One_nat_def] len)
qed

subsection \<open>Truncated frames\<close>

lemma stripZeros_props:
  "stripZeros f n \<le> n"
  "1 \<le> n \<Longrightarrow> 1 \<le> stripZeros f n"
  "stripZeros f n \<le> j \<Longrightarrow> j < n \<Longrightarrow> f ! (10 + j) = 0"
  "stripZeros f n = Suc k \<Longrightarrow> 1 \<le> k \<Longrightarrow> f ! (10 + k) \<noteq> 0"
  by (induction n) (auto simp: MAVLINK_V2_HEADER_LENGTH_def less_Suc_eq split: if_splits)

text \<open>A payload with trailing zeros stripped, one byte at least being kept.\<close>

definition stripped :: "bytes \<Rightarrow> bytes \<Rightarrow> bool" where
  "stripped p' p \<longleftrightarrow> p = p' @ replicate (length p - length p') 0 \<and> length p' \<le> length p \<and>
     p' \<noteq> [] \<and> (2 \<le> length p' \<longrightarrow> last p' \<noteq> 0)"

lemma truncate_frame_base:
  assumes "crcExtraFor gc i = Some e" and "p \<noteq> []" "length p \<le> 255" and "0 \<le> i" "i < 2 ^ 24"
  obtains p' where "stripped p' p"
    and "truncateMavlinkV2Frame gc (frame_base e flags h i p @ t)
      = (if p' = p then frame_base e flags h i p @ t else frame_base e flags h i p')"
proof -
  let ?n = "length p" let ?f = "frame_base e flags h i p @ t"
  define n' where "n' = stripZeros ?f ?n"
  have form: "?f = frame_head ?n flags h i @ p @ crc_bytes (crcMessage (tl (frame_head ?n flags h i) @ p) e) @ t"
    by (simp add: frame_base_def Let_def)
  have n': "n' \<le> ?n" "1 \<le> n'" using stripZeros_props(1,2) assms(2) by (auto simp: n'_def Suc_le_eq)
  have zeros: "p ! j = 0" if "n' \<le> j" "j < ?n" for j
    using stripZeros_props(3) [of ?f ?n j] that by (simp add: n'_def form nth_append)
  have "last (take n' p) \<noteq> 0" if two: "2 \<le> length (take n' p)"
  proof -
    obtain k where k: "n' = Suc k" "1 \<le> k" using two n' by (cases n') auto
    then have "stripZeros ?f ?n = Suc k" by (simp only: n'_def)
    then have "?f ! (10 + k) \<noteq> 0" using k(2) by (rule stripZeros_props(4))
    then have "p ! k \<noteq> 0" using k n' by (simp add: form nth_append)
    moreover have "last (take n' p) = p ! k" using k n' by (simp add: take_Suc_conv_app_nth)
    ultimately show ?thesis by simp
  qed
  moreover have "p = take n' p @ replicate (length p - length (take n' p)) 0"
    using n' zeros by (intro nth_equalityI) (auto simp: nth_append)
  ultimately have strip: "stripped (take n' p) p"
    using n' assms(2) unfolding stripped_def by auto
  have parts: "unat (?f ! 1) = ?n" "?f ! 0 = MAVLINK_V2_STX" "frameMessageId 0 ?f = i"
    using assms unfolding form by (simp_all only: frame_head_parts frameMessageId_head MAVLINK_V2_STX_def)
  have take10: "take 10 ?f = frame_head ?n flags h i" "slice 10 (10 + n') ?f = take n' p"
    using n' by (simp_all add: form slice_def)
  let ?out = "newBytes (12 + n')"
  have head: "put 0 (frame_head ?n flags h i) ?out = frame_head ?n flags h i @ newBytes n' @ [0, 0]"
    by (simp add: newBytes_12 put_def)
  have len_byte: "putByte 1 (int n') (frame_head ?n flags h i @ newBytes n' @ [0, 0])
      = frame_head n' flags h i @ newBytes n' @ [0, 0]"
    by (simp add: putByte_def frame_head_def)
  have body: "put 10 (take n' p) (frame_head n' flags h i @ newBytes n' @ [0, 0])
      = frame_head n' flags h i @ take n' p @ [0, 0]"
    using n' by (simp add: put_def)
  have covered: "slice 1 (10 + n') (frame_head n' flags h i @ take n' p @ [0, 0])
      = tl (frame_head n' flags h i) @ take n' p"
    using n' slice_covered [of "take n' p" n' flags h i "[0, 0]"] by (simp add: min_absorb2)
  have crc: "(frame_head n' flags h i @ take n' p @ [0, 0])[10 + n' := c, 10 + n' + 1 := d]
      = frame_head n' flags h i @ take n' p @ [c, d]" for c d
    using n' by (simp add: list_update_append)
  have room: "10 + n' + 2 = 12 + n'" by simp
  have "truncateMavlinkV2Frame gc ?f
      = (if n' = ?n then ?f else frame_base e flags h i (take n' p))"
    unfolding truncateMavlinkV2Frame_def Let_def parts n'_def [symmetric]
      MAVLINK_V2_HEADER_LENGTH_def MAVLINK_V2_CHECKSUM_LENGTH_def assms(1) option.case
      room take10 head len_byte body covered crc
    using n' by (simp add: frame_base_def crc_bytes_def Let_def min_absorb2)
  moreover have "take n' p = p \<longleftrightarrow> n' = ?n" using n' by auto
  ultimately show thesis using that [OF strip] by simp
qed

lemma zeroPad_stripped:
  assumes "stripped p' p" and "MAVLINK_PAYLOAD_LENGTHS i = Some n" and "length p \<le> n"
  shows "zeroPad i p' = zeroPad i p"
proof -
  from assms(1) have p: "p = p' @ replicate (length p - length p') 0" "length p' \<le> length p"
    by (auto simp: stripped_def)
  have "zeroPad i p = p @ replicate (n - length p) 0"
    using assms(2,3) by (rule zeroPad_short)
  also have "\<dots> = p' @ replicate (length p - length p') 0 @ replicate (n - length p) 0"
    by (subst p(1)) simp
  also have "\<dots> = p' @ replicate (n - length p') 0"
    using p(2) assms(3) by (simp add: replicate_add [symmetric])
  also have "\<dots> = zeroPad i p'"
    using zeroPad_short [OF assms(2), of p'] p(2) assms(3) by simp
  finally show ?thesis by simp
qed

end
