(* ===== verification/Mav_Guarantees.thy ===== *)
theory Mav_Guarantees
  imports Mav_Frames
begin

unbundle bit_operations_syntax

text \<open>
  The guarantees of the MAVLink codec: round trips of payloads, frames and streams,
  totality and boundedness of the decoder, detection of corrupted frames, and the safety of
  message signing. Each is followed by an application at a concrete message.
\<close>

subsection \<open>A concrete sender\<close>

text \<open>A dialect with no table-driven messages, a heartbeat, and a signing key.\<close>

definition plainDialect :: generic_codec where
  "plainDialect = \<lparr>mavlinkGenericCrcExtra = (\<lambda>i. None), genericIdByName = (\<lambda>s. None),
     encodeGenericPayload = (\<lambda>s fs. None), decodeGenericPayload = (\<lambda>i p. None)\<rparr>"

definition sampleHeartbeat :: heartbeat where
  "sampleHeartbeat = \<lparr>heartbeat.autopilot = 3, heartbeat.vehicleType = 2, heartbeat.baseMode = 81,
     heartbeat.customMode = 5, heartbeat.systemStatus = 4, heartbeat.mavlinkVersion = 3\<rparr>"

definition sampleEnvelope :: mavlink_envelope where
  "sampleEnvelope = \<lparr>mavlink_envelope.header = \<lparr>mavlink_header.systemId = 255,
       mavlink_header.componentId = 190, mavlink_header.sequence = 7\<rparr>,
     mavlink_envelope.message = HEARTBEAT sampleHeartbeat,
     mavlink_envelope.timestampMs = None, mavlink_envelope.byteLength = None\<rparr>"

definition sampleSigning :: signing_config where
  "sampleSigning = \<lparr>signing_config.secretKey = replicate 32 0x2A, signing_config.linkId = 1,
     signing_config.enabled = True, signing_config.clock = (\<lambda>k. 1000 + int k)\<rparr>"

definition sampleSigned :: codec where
  "sampleSigned = newCodec\<lparr>signing := Some sampleSigning\<rparr>"

lemma sample_ok: "envelope_ok sampleEnvelope"
  by (simp add: envelope_ok_def header_ok_def sampleEnvelope_def sampleHeartbeat_def heartbeat_ok_def
      u8_ok_def u32_ok_def)

lemma sampleSigned_active: "activeSigning sampleSigned = Some sampleSigning"
  by (simp add: activeSigning_def sampleSigned_def sampleSigning_def)

lemma sampleSigning_ok: "signing_ok sampleSigning"
  by (simp add: signing_ok_def sampleSigning_def u8_ok_def)

lemma sampleSigned_sent: "sent_ok sampleSigned"
  using sent_ok_new by (simp add: sent_ok_def sampleSigned_def)

lemma newCodec_unsigned: "activeSigning newCodec = None"
  by (simp add: activeSigning_def newCodec_def)

lemma sample_signed_base:
  "\<exists>base. length base = 12 + unat (base ! 1) \<and> base ! 2 = MAVLINK_V2_INCOMPAT_FLAG_SIGNED \<and>
    (\<forall>t. length t = 13 \<longrightarrow> whole_frame plainDialect (base @ t))"
proof -
  have "message_ok (mavlink_envelope.message sampleEnvelope)"
    using sample_ok by (simp add: envelope_ok_def)
  then obtain i p where carried: "carried plainDialect (mavlink_envelope.message sampleEnvelope) i p"
    using payload_carried by blast
  then obtain e where e: "crcExtraFor plainDialect i = Some e" by (rule carried_crcExtra)
  let ?base = "frame_base e 1 (mavlink_envelope.header sampleEnvelope) i p"
  have p: "length p \<le> 255" "0 \<le> i" "i < 2 ^ 24" using carried by (simp_all add: carried_def)
  have "unat (?base ! 1) = length p" "?base ! 2 = 1"
    using p by (simp_all only: frame_base_def Let_def frame_head_parts)
  moreover have "\<forall>t. length t = 13 \<longrightarrow> whole_frame plainDialect (?base @ t)"
    using p e by (auto intro!: whole_frame_base simp: signedTrailer_1)
  ultimately show ?thesis
    by (intro exI [of _ ?base]) (simp add: MAVLINK_V2_INCOMPAT_FLAG_SIGNED_def)
qed

subsection \<open>Payloads\<close>

text \<open>C4 payload_roundtrip:
  every message the codec models in both directions, with field values its wire types can
  carry, is encoded to a payload of at most 255 bytes under an id with a \<open>crc_extra\<close>, and
  decoding the payload, zero-padded to its declared length as the receiver does, gives the
  message back (an AUTOPILOT_VERSION without a UID2 comes back with a UID2 of zeros).\<close>

theorem payload_roundtrip:
  assumes "message_ok m"
  shows "\<exists>i p. messageIdFor gc m = Some i \<and> encodePayload gc m = Some p \<and>
    length p \<le> 255 \<and> MAVLINK_MESSAGE_CRCS i \<noteq> None \<and>
    decodePayload gc i (zeroPad i p) = Some (Some (received m))"
  using payload_carried [OF assms, of gc] unfolding carried_def by blast

theorem payload_roundtrip_witness:
  "\<exists>i p. messageIdFor plainDialect (HEARTBEAT sampleHeartbeat) = Some i \<and>
    encodePayload plainDialect (HEARTBEAT sampleHeartbeat) = Some p \<and>
    length p \<le> 255 \<and> MAVLINK_MESSAGE_CRCS i \<noteq> None \<and>
    decodePayload plainDialect i (zeroPad i p) = Some (Some (received (HEARTBEAT sampleHeartbeat)))"
  using sample_ok
  by (intro payload_roundtrip) (simp add: envelope_ok_def sampleEnvelope_def)

subsection \<open>The decoder\<close>

text \<open>C33 push_total_and_bounded:
  \<open>push\<close> never throws, whatever the bytes, the signing configuration and the dialect, and
  leaves fewer than 280 bytes (one maximal frame) in its buffer.\<close>

theorem push_total_and_bounded:
  "\<exists>d envelopes. push gc now c chunk = Some (d, envelopes) \<and> length (buffer d) < 280"
  using push_total [of gc now c chunk] push_loop_buffer unfolding push_is_loop by blast



text \<open>A frame may arrive in two chunks: unless the first chunk already contains another complete
  and valid frame after its first byte, it is kept without output, and the second chunk
  completes it.\<close>

theorem split_frame_roundtrip:
  assumes "envelope_ok v" and "activeSigning tx = None" and "buffer rx = []"
  shows "\<exists>f. encode gc v tx = Some (f, tx) \<and>
    (\<forall>k<length f. findResyncIndex gc (take k f) = None \<longrightarrow>
      push gc now rx (take k f) = Some (rx\<lparr>buffer := take k f\<rparr>, []) \<and>
      push gc now (rx\<lparr>buffer := take k f\<rparr>) (drop k f)
        = Some (rx, [deliveredEnvelope (now 0) (length f) v]))"
proof -
  obtain f where f: "encode gc v tx = Some (f, tx)" "whole_frame gc f"
    and deliver: "\<And>now c. deliverFrame gc now c f = Some (Emit c (deliveredEnvelope now (length f) v))"
    using unsigned_frame [OF assms(1,2)] by blast
  have "push gc now rx (take k f) = Some (rx\<lparr>buffer := take k f\<rparr>, [])"
    if "k < length f" and "findResyncIndex gc (take k f) = None" for k
    using that f(2) assms(3) push_loop_partial [of gc "take k f" "drop k f"]
    by (simp add: push_is_loop)
  moreover have "push gc now (rx\<lparr>buffer := take k f\<rparr>) (drop k f)
      = Some (rx, [deliveredEnvelope (now 0) (length f) v])" for k
    using push_loop_emit [OF f(2) _ deliver, of "rx\<lparr>buffer := f\<rparr>" "[]" now 0] assms(3)
    by (cases rx) (simp add: push_is_loop push_loop_empty)
  ultimately show ?thesis using f(1) by blast
qed

theorem split_frame_roundtrip_witness:
  "\<exists>f. encode plainDialect sampleEnvelope newCodec = Some (f, newCodec) \<and>
    (5 < length f \<longrightarrow>
      push plainDialect (\<lambda>k. 0) newCodec (take 5 f) = Some (newCodec\<lparr>buffer := take 5 f\<rparr>, []) \<and>
      push plainDialect (\<lambda>k. 0) (newCodec\<lparr>buffer := take 5 f\<rparr>) (drop 5 f)
        = Some (newCodec, [deliveredEnvelope 0 (length f) sampleEnvelope]))"
proof -
  have "buffer newCodec = []" by (simp add: newCodec_def)
  from split_frame_roundtrip [OF sample_ok newCodec_unsigned this, of plainDialect "\<lambda>k. 0"]
  obtain f where f: "encode plainDialect sampleEnvelope newCodec = Some (f, newCodec)"
    and split: "\<forall>k<length f. findResyncIndex plainDialect (take k f) = None \<longrightarrow>
      push plainDialect (\<lambda>k. 0) newCodec (take k f) = Some (newCodec\<lparr>buffer := take k f\<rparr>, []) \<and>
      push plainDialect (\<lambda>k. 0) (newCodec\<lparr>buffer := take k f\<rparr>) (drop k f)
        = Some (newCodec, [deliveredEnvelope 0 (length f) sampleEnvelope])"
    by blast
  have "findResyncIndex plainDialect (take 5 f) = None"
    by (rule findResyncIndex_short) simp
  with f split show ?thesis by blast
qed

subsection \<open>Signing\<close>

text \<open>C2 signed_roundtrip_and_replay:
  a message encoded with a signing key is decoded by a receiver that holds the same key when
  its timestamp is newer than the last one the receiver accepted on that stream and not more
  than a minute behind the receiver's clock. The receiver then remembers the timestamp, and
  the same bytes, pushed again, are dropped as a replay and counted.\<close>

theorem signed_roundtrip_and_replay:
  assumes "envelope_ok v" and "activeSigning tx = Some s" and "signing_ok s" and "sent_ok tx"
    and "nextSendTimestamp s (envelopeStream s v) tx = (t, tx')"
    and "activeSigning rx = Some r" and "signing_config.secretKey r = signing_config.secretKey s"
    and "buffer rx = []" and "fresh rx (envelopeStream s v) t" and "recent r rx t"
  shows "\<exists>f rx' rx''. encode gc v tx = Some (f, tx') \<and>
    push gc now rx f = Some (rx', [deliveredEnvelope (now 0) (length f) v]) \<and>
    lastSeenTimestamp rx' = (lastSeenTimestamp rx)(envelopeStream s v \<mapsto> t) \<and>
    push gc now rx' f = Some (rx'', []) \<and>
    signatureRejections rx'' = Suc (signatureRejections rx)"
proof -
  obtain f where f: "encode gc v tx = Some (f, tx')" "whole_frame gc f"
    and deliver: "\<And>now c r. activeSigning c = Some r \<Longrightarrow>
      signing_config.secretKey r = signing_config.secretKey s \<Longrightarrow>
      deliverFrame gc now c f = (let (ok, d) = signedVerdict r s v t c
        in Some (if ok then Emit d (deliveredEnvelope now (length f) v) else Continue d))"
    using signed_frame [OF assms(1-5)] by blast
  define rx' where "rx' = rx\<lparr>clockCalls := Suc (clockCalls rx),
    lastSeenTimestamp := (lastSeenTimestamp rx)(envelopeStream s v \<mapsto> t)\<rparr>"
  define rx'' where "rx'' = snd (signedVerdict r s v t rx')"
  have same: "c\<lparr>buffer := []\<rparr> = c" if "buffer c = []" for c :: codec using that by (cases c) simp
  have rx': "activeSigning rx' = Some r" "buffer rx' = []" "\<not> fresh rx' (envelopeStream s v) t"
    using assms(6,8) by (simp_all add: rx'_def activeSigning_def fresh_def)
  have accept: "signedVerdict r s v t rx = (True, rx')"
    using assms(9,10) by (simp add: signedVerdict_def rx'_def)
  have reject: "signedVerdict r s v t rx' = (False, rx'')"
    using rx'(3) by (simp add: rx''_def signedVerdict_def)
  have count: "signatureRejections rx'' = Suc (signatureRejections rx)" "buffer rx'' = []"
    using rx'(2,3) by (simp_all add: rx''_def signedVerdict_def) (simp add: rx'_def)
  have "push gc now rx f = Some (rx', [deliveredEnvelope (now 0) (length f) v])"
    using push_loop_emit [OF f(2), of "rx\<lparr>buffer := f\<rparr>" "[]" now 0] deliver [OF assms(6,7)] accept
    by (simp add: push_is_loop assms(8) same push_loop_empty rx'(2))
  moreover have "push gc now rx' f = Some (rx'', [])"
    using push_loop_drop [OF f(2), of "rx'\<lparr>buffer := f\<rparr>" "[]" now 0] deliver [OF rx'(1) assms(7)] reject
    by (simp add: push_is_loop rx'(2) same push_loop_empty count(2))
  moreover have "lastSeenTimestamp rx' = (lastSeenTimestamp rx)(envelopeStream s v \<mapsto> t)"
    by (simp add: rx'_def)
  ultimately show ?thesis using f(1) count(1) by blast
qed

theorem signed_roundtrip_and_replay_witness:
  "\<exists>tx' f rx' rx''. encode plainDialect sampleEnvelope sampleSigned = Some (f, tx') \<and>
    push plainDialect (\<lambda>k. 0) sampleSigned f = Some (rx', [deliveredEnvelope 0 (length f) sampleEnvelope]) \<and>
    push plainDialect (\<lambda>k. 0) rx' f = Some (rx'', []) \<and> signatureRejections rx'' = 1"
proof -
  obtain tx' where sent: "nextSendTimestamp sampleSigning (envelopeStream sampleSigning sampleEnvelope)
      sampleSigned = (1000, tx')"
    by (simp add: nextSendTimestamp_def readClock_def sampleSigning_def sampleSigned_def newCodec_def
        MAVLINK_V2_SIGNING_TIMESTAMP_MAX_def Let_def)
  have rx: "buffer sampleSigned = []" "fresh sampleSigned key 1000" "recent sampleSigning sampleSigned 1000"
    "signatureRejections sampleSigned = 0" for key
    by (simp_all add: sampleSigned_def newCodec_def fresh_def recent_def sampleSigning_def
        MAVLINK_V2_SIGNING_MAX_AGE_UNITS_def)
  show ?thesis
    using signed_roundtrip_and_replay [OF sample_ok sampleSigned_active sampleSigning_ok sampleSigned_sent
        sent sampleSigned_active refl rx(1,2,3), of plainDialect "\<lambda>k. 0"] rx(4)
    by auto
qed

lemma other_signature: "\<exists>sig :: bytes. length sig = 6 \<and> sig \<noteq> S"
proof (cases "S = replicate 6 0")
  case True
  then show ?thesis by (intro exI [of _ "replicate 6 1"]) simp
next
  case False
  then show ?thesis by (intro exI [of _ "replicate 6 0"]) simp
qed

text \<open>C3 forged_frame_dropped:
  a signed frame, complete and with a valid checksum, whose last six bytes are not the
  signature the receiver computes over the frame with its own key, is consumed without
  output; the rejection is counted, and neither the replay window nor any other signing
  state changes.\<close>

theorem forged_frame_dropped:
  assumes "whole_frame gc (base @ trailer link t sig)" and "activeSigning rx = Some r"
    and "length base = 12 + unat (base ! 1)" and "base ! 2 = MAVLINK_V2_INCOMPAT_FLAG_SIGNED"
    and "length sig = 6" and "u8_ok link" and "u48_ok t" and "buffer rx = []"
    and "sig \<noteq> computeSignature (signing_config.secretKey r) base link t"
  shows "push gc now rx (base @ trailer link t sig)
    = Some (rejectFrame BadSignature (uint (base ! 5)) (uint (base ! 6)) link rx, [])"
proof -
  let ?f = "base @ trailer link t sig"
  let ?rx = "rejectFrame BadSignature (uint (base ! 5)) (uint (base ! 6)) link rx"
  have parts: "?f ! 1 = base ! 1" "?f ! 2 = base ! 2"
    using assms(3) by (simp_all add: nth_append)
  have verdict: "verifySignedFrame r ?f (unat (base ! 1)) rx = (False, ?rx)"
    using verifySignedFrame_cases [OF assms(3,5,6,7), of r rx] assms(9) by (simp add: Let_def)
  have "MAVLINK_V2_INCOMPAT_FLAG_SIGNED AND NOT MAVLINK_V2_INCOMPAT_FLAG_SIGNED = 0" by simp
  moreover have "signedTrailer MAVLINK_V2_INCOMPAT_FLAG_SIGNED = 13"
    by (simp add: MAVLINK_V2_INCOMPAT_FLAG_SIGNED_def signedTrailer_1)
  ultimately have delivered: "deliverFrame gc (now 0) rx ?f = Some (Continue ?rx)"
    unfolding deliverFrame_def Let_def parts assms(4) by (simp add: assms(2) verdict verdict [unfolded One_nat_def])
  have "rx\<lparr>buffer := []\<rparr> = rx" using assms(8) by (cases rx) simp
  with delivered have step: "deliverFrame gc (now 0) (rx\<lparr>buffer := ?f, buffer := []\<rparr>) ?f = Some (Continue ?rx)"
    by simp
  have "push_loop gc now 0 (rx\<lparr>buffer := ?f\<rparr>) = push_loop gc now 0 ?rx"
    using assms(1) step by (intro push_loop_drop [where rest = "[]" and f = ?f and now = now]) simp_all
  then show ?thesis
    using assms(8) by (simp add: push_is_loop push_loop_empty)
qed

theorem forged_frame_dropped_witness:
  "\<exists>f rx'. push plainDialect (\<lambda>k. 0) sampleSigned f = Some (rx', []) \<and> signatureRejections rx' = 1"
proof -
  obtain base where base: "length base = 12 + unat (base ! 1)" "base ! 2 = MAVLINK_V2_INCOMPAT_FLAG_SIGNED"
    and whole: "\<And>t. length t = 13 \<Longrightarrow> whole_frame plainDialect (base @ t)"
    using sample_signed_base by blast
  obtain sig :: bytes where sig: "length sig = 6" "sig \<noteq> computeSignature (signing_config.secretKey sampleSigning) base 1 9"
    using other_signature by blast
  have buffer: "buffer sampleSigned = []" "signatureRejections sampleSigned = 0"
    by (simp_all add: sampleSigned_def newCodec_def)
  have "push plainDialect (\<lambda>k. 0) sampleSigned (base @ trailer 1 9 sig)
      = Some (rejectFrame BadSignature (uint (base ! 5)) (uint (base ! 6)) 1 sampleSigned, [])"
    using sig base buffer
    by (intro forged_frame_dropped [OF _ sampleSigned_active]) (simp_all add: whole u8_ok_def u48_ok_def)
  moreover have "signatureRejections
      (rejectFrame BadSignature (uint (base ! 5)) (uint (base ! 6)) 1 sampleSigned) = 1"
    using buffer(2) by simp
  ultimately show ?thesis by blast
qed

text \<open>C34 replay_window_never_reopens:
  once a receiver has accepted a signed frame, no later sequence of verified frames (accepted
  or rejected, with whatever keys and clocks) makes it accept the same frame again.\<close>

theorem replay_window_never_reopens:
  assumes "verifySignedFrame s frame n c = (True, d)"
  shows "fst (verifySignedFrame s'' frame n (verifyAll s' fs d)) = False"
  using accepted_once [of s frame n c _ s' fs s''] assms by simp

theorem replay_window_never_reopens_witness:
  "\<exists>frame d. verifySignedFrame sampleSigning frame 9 sampleSigned = (True, d) \<and>
    fst (verifySignedFrame sampleSigning frame 9 (verifyAll sampleSigning [(frame, 9)] d)) = False"
proof -
  let ?base = "frame_base 50 1 (mavlink_envelope.header sampleEnvelope) 0 (replicate 9 0)"
  obtain d where d: "signedVerdict sampleSigning sampleSigning sampleEnvelope 1000 sampleSigned = (True, d)"
    by (simp add: signedVerdict_def fresh_def recent_def sampleSigned_def newCodec_def sampleSigning_def
        MAVLINK_V2_SIGNING_MAX_AGE_UNITS_def Let_def)
  have "verifySignedFrame sampleSigning (signedBytes sampleSigning ?base 1000) (length (replicate 9 (0 :: byte)))
      sampleSigned = (True, d)"
    unfolding d [symmetric] using sample_ok sampleSigning_ok
    by (intro verify_genuine) (simp_all add: envelope_ok_def signing_ok_def u48_ok_def)
  then have "verifySignedFrame sampleSigning (signedBytes sampleSigning ?base 1000) 9 sampleSigned = (True, d)"
    by (simp only: length_replicate)
  then show ?thesis using replay_window_never_reopens by blast
qed

text \<open>Over any sequence of signed sends on any streams, the timestamps of one stream strictly
  increase until they reach the 48-bit maximum, whatever the clock does.\<close>

theorem send_timestamps_advance:
  assumes "sent_ok c"
  shows "sorted_wrt (\<lambda>t u. t < u \<or> u = MAVLINK_V2_SIGNING_TIMESTAMP_MAX)
    (map snd (filter (\<lambda>p. fst p = key) (sendAll s keys c)))"
  using sendAll_advances [OF assms, of key s keys]
  by (rule sorted_wrt_mono_rel [rotated]) (simp add: advances_def)

theorem send_timestamps_advance_witness:
  "sorted_wrt (\<lambda>t u. t < u \<or> u = MAVLINK_V2_SIGNING_TIMESTAMP_MAX)
    (map snd (filter (\<lambda>p. fst p = (1, 1, 0))
      (sendAll (sampleSigning\<lparr>signing_config.clock := (\<lambda>k. 5)\<rparr>) [(1, 1, 0), (2, 1, 0), (1, 1, 0)] newCodec)))"
  by (rule send_timestamps_advance) (rule sent_ok_new)

subsection \<open>Corruption and truncation\<close>



text \<open>A sender that strips the trailing zeros of an unsigned frame's payload, as a real
  autopilot does, is understood: the receiver reports the same envelope, except for the
  frame length it saw.\<close>

theorem truncated_frame_roundtrip:
  assumes "envelope_ok v" and "activeSigning tx = None" and "buffer rx = []"
  shows "\<exists>f. truncatingEncode gc v tx = Some (f, tx) \<and>
    push gc now rx f = Some (rx, [deliveredEnvelope (now 0) (length f) v])"
proof -
  let ?h = "mavlink_envelope.header v" let ?m = "mavlink_envelope.message v"
  obtain i p where carried: "carried gc ?m i p"
    using payload_carried assms(1) unfolding envelope_ok_def by blast
  then obtain e where e: "crcExtraFor gc i = Some e" by (rule carried_crcExtra)
  obtain n where p: "p \<noteq> []" "length p \<le> 255" "0 \<le> i" "i < 2 ^ 24"
      "MAVLINK_PAYLOAD_LENGTHS i = Some n" "length p \<le> n"
    using carried unfolding carried_def by blast
  obtain p' where strip: "stripped p' p"
    and trunc: "truncateMavlinkV2Frame gc (frame_base e 0 ?h i p @ [])
      = (if p' = p then frame_base e 0 ?h i p @ [] else frame_base e 0 ?h i p')"
    by (rule truncate_frame_base [OF e p(1-4)])
  let ?f = "frame_base e 0 ?h i p'"
  have plain: "signedTrailer 0 = 0" by (simp add: signedTrailer_def)
  have p': "length p' \<le> 255" using strip p(2) by (auto simp: stripped_def)
  have whole: "whole_frame gc (?f @ [])" using p' p(3,4) e by (intro whole_frame_base) (simp_all add: plain)
  have deliver: "deliverFrame gc now c ?f = Some (Emit c (deliveredEnvelope now (length ?f) v))" for now c
  proof -
    have "decodePayload gc i (zeroPad i p') = Some (Some (received ?m))"
      using carried zeroPad_stripped [OF strip p(5,6)] by (simp add: carried_def)
    then show ?thesis
      using p' p(3,4) assms(1)
      by (intro deliverFrame_decodes [where t = "[]" and flags = 0])
        (auto simp: envelope_ok_def plain split: option.splits)
  qed
  have "push_loop gc now 0 (rx\<lparr>buffer := ?f\<rparr>) = Some (rx, [deliveredEnvelope (now 0) (length ?f) v])"
    using push_loop_emit [OF whole [unfolded append_Nil2] _ deliver, of "rx\<lparr>buffer := ?f\<rparr>" "[]" now 0] assms(3)
    by (cases rx) (simp add: push_loop_empty)
  moreover have "truncatingEncode gc v tx = Some (?f, tx)"
    using encode_unsigned [OF assms(2) carried e] trunc
    by (cases "p' = p") (simp_all add: truncatingEncode_def)
  ultimately show ?thesis using assms(3) by (simp add: push_is_loop)
qed

theorem truncated_frame_roundtrip_witness:
  "\<exists>f. truncatingEncode plainDialect sampleEnvelope newCodec = Some (f, newCodec) \<and>
    push plainDialect (\<lambda>k. 5) newCodec f = Some (newCodec, [deliveredEnvelope 5 (length f) sampleEnvelope])"
  using truncated_frame_roundtrip [OF sample_ok newCodec_unsigned, of newCodec plainDialect "\<lambda>k. 5"]
  by (simp add: newCodec_def)

text \<open>With signing enabled, the truncating encoder turns a frame whose payload ends in a zero
  byte into one that still announces a signature but does not carry it, so that no receiver
  can complete it.\<close>

theorem truncating_signed_frame_drops_trailer:
  assumes "carried gc (mavlink_envelope.message v) i p" and "activeSigning tx = Some s"
    and "2 \<le> length p" and "last p = 0"
  shows "\<exists>f tx'. truncatingEncode gc v tx = Some (f, tx') \<and> f ! 2 = MAVLINK_V2_INCOMPAT_FLAG_SIGNED \<and>
    length f = 12 + unat (f ! 1)"
proof -
  let ?h = "mavlink_envelope.header v"
  obtain e where e: "crcExtraFor gc i = Some e" using carried_crcExtra [OF assms(1)] by blast
  obtain t tx' where sent: "nextSendTimestamp s (streamKey (mavlink_header.systemId ?h)
      (mavlink_header.componentId ?h) (signing_config.linkId s)) tx = (t, tx')"
    by fastforce
  define base where "base = frame_base e 1 ?h i p"
  define tr where "tr = trailer (signing_config.linkId s) t
     (computeSignature (signing_config.secretKey s) base (signing_config.linkId s) t)"
  have p: "p \<noteq> []" "length p \<le> 255" "0 \<le> i" "i < 2 ^ 24"
    using assms(1) unfolding carried_def by auto
  obtain p' where strip: "stripped p' p" and trunc: "truncateMavlinkV2Frame gc (frame_base e 1 ?h i p @ tr)
      = (if p' = p then frame_base e 1 ?h i p @ tr else frame_base e 1 ?h i p')"
    by (rule truncate_frame_base [OF e p])
  have shorter: "p' \<noteq> p" using strip assms(3,4) by (auto simp: stripped_def)
  have "encode gc v tx = Some (base @ tr, tx')"
    using assms(1,2) e signFrame_bytes [OF sent, of base]
    by (simp add: encode_def carried_def encodeFrame_base base_def MAVLINK_V2_INCOMPAT_FLAG_SIGNED_def
        signedBytes_def tr_def)
  then have enc: "truncatingEncode gc v tx = Some (frame_base e 1 ?h i p', tx')"
    using trunc shorter by (simp add: truncatingEncode_def base_def)
  have "length p' \<le> 255" using strip p(2) by (auto simp: stripped_def)
  then have "unat (frame_base e 1 ?h i p' ! 1) = length p'" "frame_base e 1 ?h i p' ! 2 = 1"
    by (simp_all only: frame_base_def Let_def frame_head_parts)
  then show ?thesis
    using enc by (intro exI [of _ "frame_base e 1 ?h i p'"] exI [of _ tx'])
      (simp add: MAVLINK_V2_INCOMPAT_FLAG_SIGNED_def)
qed

theorem truncating_signed_frame_drops_trailer_witness:
  "\<exists>f tx'. truncatingEncode plainDialect
      (sampleEnvelope\<lparr>mavlink_envelope.message := PARAM_REQUEST_LIST
        \<lparr>param_request_list.targetSystem = 1, param_request_list.targetComponent = 0\<rparr>\<rparr>) sampleSigned
      = Some (f, tx') \<and> f ! 2 = MAVLINK_V2_INCOMPAT_FLAG_SIGNED \<and> length f = 12 + unat (f ! 1)"
proof (rule truncating_signed_frame_drops_trailer)
  show "activeSigning sampleSigned = Some sampleSigning" by (rule sampleSigned_active)
  show "carried plainDialect (mavlink_envelope.message
      (sampleEnvelope\<lparr>mavlink_envelope.message := PARAM_REQUEST_LIST
        \<lparr>param_request_list.targetSystem = 1, param_request_list.targetComponent = 0\<rparr>\<rparr>)) 21 [1, 0]"
    by (simp add: carried_def encodeParamRequestListPayload_def decodePayload_rows [simplified]
        decodeParamRequestListPayload_def zeroPad_full putByte_def newBytes_def numeral_2_eq_2 byteAt_def)
qed simp_all

end
