(* ===== verification/Js_Hex.thy ===== *)
theory Js_Hex
  imports Js_Text
begin

text \<open>
  Hexadecimal text: \<open>Number.parseInt(s, 16)\<close>, \<open>toString(16)\<close> and the padded fields built from
  it. A string is its list of UTF-16 code units.
\<close>

subsection \<open>Reading\<close>

definition hexDigit :: "nat \<Rightarrow> nat option" where
  "hexDigit c =
     (if 48 \<le> c \<and> c \<le> 57 then Some (c - 48)
      else if 65 \<le> c \<and> c \<le> 70 then Some (c - 55)
      else if 97 \<le> c \<and> c \<le> 102 then Some (c - 87)
      else None)"

fun hexPrefix :: "int \<Rightarrow> js_text \<Rightarrow> int" where
  "hexPrefix acc [] = acc"
| "hexPrefix acc (c # cs) =
     (case hexDigit c of None \<Rightarrow> acc | Some d \<Rightarrow> hexPrefix (acc * 16 + int d) cs)"

text \<open>\<open>Number.parseInt(s, 16)\<close>: white space, a sign and \<open>0x\<close> are skipped, and the longest
  prefix of digits counts; \<open>None\<close> is \<open>NaN\<close>.\<close>

definition parseIntHex :: "js_text \<Rightarrow> int option" where
  "parseIntHex s =
     (let s = dropWhile jsSpace s;
          negative = (s \<noteq> [] \<and> hd s = 45);
          s = (if s \<noteq> [] \<and> (hd s = 43 \<or> hd s = 45) then tl s else s);
          s = (if 2 \<le> length s \<and> s ! 0 = 48 \<and> (s ! 1 = 120 \<or> s ! 1 = 88) then drop 2 s else s)
      in if s = [] \<or> hexDigit (hd s) = None then None
         else Some (if negative then - hexPrefix 0 s else hexPrefix 0 s))"

definition hexChar :: "nat \<Rightarrow> nat" where
  "hexChar n = (if n < 10 then 48 + n else 55 + n)"

subsection \<open>Digits\<close>

lemma hexChar_digit: "n < 16 \<Longrightarrow> hexDigit (hexChar n) = Some n"
  by (auto simp: hexDigit_def hexChar_def)

lemma hexChar_range: "n < 16 \<Longrightarrow> 48 \<le> hexChar n \<and> hexChar n \<le> 70 \<and> hexChar n \<noteq> 58"
  by (auto simp: hexChar_def)

lemma not_space: "48 \<le> c \<Longrightarrow> c \<le> 70 \<Longrightarrow> \<not> jsSpace c"
  by (simp add: jsSpace_def)

lemma parseIntHex_digits:
  assumes "h < 16" "l < 16"
  shows "parseIntHex [hexChar h, hexChar l] = Some (int (h * 16 + l))"
  using assms hexChar_range [of h] hexChar_range [of l]
  by (auto simp: parseIntHex_def not_space hexChar_digit)


subsection \<open>Writing\<close>

text \<open>\<open>n.toString(16).toUpperCase()\<close> of a natural number.\<close>

fun toHex :: "nat \<Rightarrow> js_text" where
  "toHex n = (if n < 16 then [hexChar n] else toHex (n div 16) @ [hexChar (n mod 16)])"

declare toHex.simps [simp del]

text \<open>\<open>s.padStart(k, '0')\<close>.\<close>

definition padStart0 :: "nat \<Rightarrow> js_text \<Rightarrow> js_text" where
  "padStart0 k s = replicate (k - length s) 48 @ s"

text \<open>\<open>s.slice(-k)\<close> for \<open>0 < k\<close>.\<close>

definition lastChars :: "nat \<Rightarrow> js_text \<Rightarrow> js_text" where
  "lastChars k s = drop (length s - k) s"

text \<open>The low \<open>k\<close> digits of \<open>n\<close>.\<close>

fun hexFixed :: "nat \<Rightarrow> nat \<Rightarrow> js_text" where
  "hexFixed 0 n = []"
| "hexFixed (Suc k) n = hexFixed k (n div 16) @ [hexChar (n mod 16)]"

definition isHex :: "js_text \<Rightarrow> bool" where
  "isHex s \<longleftrightarrow> list_all (\<lambda>c. hexDigit c \<noteq> None) s"

lemma length_hexFixed [simp]: "length (hexFixed k n) = k"
  by (induction k arbitrary: n) simp_all

lemma isHex_hexFixed [simp]: "isHex (hexFixed k n)"
  by (induction k arbitrary: n) (auto simp: isHex_def hexChar_digit)

lemma hexFixed_zero: "hexFixed k 0 = replicate k 48"
  by (induction k) (simp_all add: hexChar_def replicate_append_same)

lemma lastChars_snoc: "lastChars (Suc k) (s @ [c]) = lastChars k s @ [c]"
  by (simp add: lastChars_def)

lemma lastChars_toHex: "lastChars k (padStart0 k (toHex n)) = hexFixed k n"
proof (induction k arbitrary: n)
  case 0
  then show ?case by (simp add: lastChars_def)
next
  case (Suc k)
  show ?case
  proof (cases "n < 16")
    case True
    then have "padStart0 (Suc k) (toHex n) = replicate k 48 @ [hexChar n]"
      by (subst toHex.simps) (simp add: padStart0_def)
    then show ?thesis using True by (simp add: lastChars_def hexFixed_zero)
  next
    case False
    then have "padStart0 (Suc k) (toHex n) = padStart0 k (toHex (n div 16)) @ [hexChar (n mod 16)]"
      by (subst toHex.simps) (simp add: padStart0_def)
    then show ?thesis by (simp only: lastChars_snoc Suc.IH hexFixed.simps)
  qed
qed

lemma hexPrefix_append:
  "isHex s \<Longrightarrow> hexPrefix acc (s @ t) = hexPrefix (hexPrefix acc s) t"
  by (induction s arbitrary: acc) (auto simp: isHex_def split: option.splits)

lemma hexPrefix_hexFixed: "hexPrefix acc (hexFixed k n) = acc * 16 ^ k + int (n mod 16 ^ k)"
proof (induction k arbitrary: acc n)
  case (Suc k)
  have "hexPrefix acc (hexFixed (Suc k) n) = (acc * 16 ^ k + int (n div 16 mod 16 ^ k)) * 16 + int (n mod 16)"
    by (simp add: hexPrefix_append hexChar_digit Suc.IH)
  also have "\<dots> = acc * 16 ^ Suc k + int (16 * (n div 16 mod 16 ^ k) + n mod 16)"
    by (simp add: algebra_simps)
  also have "16 * (n div 16 mod 16 ^ k) + n mod 16 = n mod 16 ^ Suc k"
    by (simp only: power_Suc mod_mult2_eq)
  finally show ?case .
qed simp

lemma isHex_chars: "isHex s \<Longrightarrow> c \<in> set s \<Longrightarrow> \<exists>d. hexDigit c = Some d"
  by (auto simp: isHex_def list_all_iff)

lemma hexDigit_plain:
  "hexDigit c = Some d \<Longrightarrow> 48 \<le> c \<and> c \<le> 102 \<and> c \<noteq> 120 \<and> c \<noteq> 88 \<and> c \<noteq> 45 \<and> c \<noteq> 43 \<and> \<not> jsSpace c"
  by (auto simp: hexDigit_def jsSpace_def split: if_splits)

lemma parseIntHex_isHex:
  assumes "isHex s" "s \<noteq> []"
  shows "parseIntHex s = Some (hexPrefix 0 s)"
proof -
  obtain c cs where s: "s = c # cs" using assms(2) by (cases s) auto
  obtain d where d: "hexDigit c = Some d" using isHex_chars [OF assms(1)] s by auto
  have "\<not> (2 \<le> length s \<and> s ! 0 = 48 \<and> (s ! 1 = 120 \<or> s ! 1 = 88))"
  proof (cases cs)
    case (Cons e es)
    then obtain d' where "hexDigit e = Some d'" using isHex_chars [OF assms(1)] s by auto
    then show ?thesis using s Cons hexDigit_plain [of e d'] by auto
  qed (simp add: s)
  then show ?thesis using hexDigit_plain [OF d] d s by (auto simp: parseIntHex_def Let_def)
qed

lemma parseIntHex_hexFixed: "0 < k \<Longrightarrow> parseIntHex (hexFixed k n) = Some (int (n mod 16 ^ k))"
proof -
  assume "0 < k"
  then have "hexFixed k n \<noteq> []" by (metis length_hexFixed length_0_conv less_numeral_extra(3))
  then show ?thesis by (simp add: parseIntHex_isHex hexPrefix_hexFixed)
qed

end
