(* ===== verification/Intel_Hex.thy ===== *)
theory Intel_Hex
  imports Js_Hex
begin

text \<open>
  \<open>firmware-flash/src/intel-hex.ts\<close>: the Intel HEX parser. A JavaScript string is its list of
  UTF-16 code units; every \<open>throw\<close> of the parser is a constructor of \<open>hex_error\<close>, with the
  line number its message names. The lemmas show what an accepted file means: which address
  holds which byte, that the segments are ascending with gaps between them, and that a
  rendered file reads back.
\<close>

subsection \<open>Strings\<close>

text \<open>\<open>text.split(/\r?\n/)\<close>.\<close>

fun splitLines :: "js_text \<Rightarrow> js_text list" where
  "splitLines [] = [[]]"
| "splitLines (c # cs) =
     (if c = 10 then [] # splitLines cs
      else if c = 13 \<and> cs \<noteq> [] \<and> hd cs = 10 then splitLines cs
      else (case splitLines cs of [] \<Rightarrow> [[c]] | l # ls \<Rightarrow> (c # l) # ls))"

subsection \<open>The parser\<close>

record hex_segment =
  segAddress :: int
  segData :: bytes

record parsed_hex =
  segments :: "hex_segment list"
  minAddress :: int
  endAddress :: int
  totalBytes :: nat

datatype hex_error =
    No_colon nat | Odd_or_short nat | Non_hex nat | Count_mismatch nat | Bad_checksum nat
  | After_eof nat | Eof_with_data nat | Bad_linear nat | Bad_segment nat
  | Unsupported_type nat byte | Missing_eof | Overlapping int

definition "RECORD_DATA = (0 :: byte)"
definition "RECORD_EOF = (1 :: byte)"
definition "RECORD_EXT_SEGMENT = (2 :: byte)"
definition "RECORD_EXT_LINEAR = (4 :: byte)"
definition "RECORD_START_SEGMENT = (3 :: byte)"
definition "RECORD_START_LINEAR = (5 :: byte)"

fun hexToBytes :: "js_text \<Rightarrow> nat \<Rightarrow> hex_error + bytes" where
  "hexToBytes (a # b # hex) line =
     (case parseIntHex [a, b] of
        None \<Rightarrow> Inl (Non_hex line)
      | Some v \<Rightarrow>
          (case hexToBytes hex line of
             Inl e \<Rightarrow> Inl e
           | Inr out \<Rightarrow> Inr (word_of_int v # out)))"
| "hexToBytes _ line = Inr []"

record hex_state =
  upperBase :: int
  sawEof :: bool
  hexWrites :: "hex_segment list"

definition hex_start :: hex_state where
  "hex_start = \<lparr>upperBase = 0, sawEof = False, hexWrites = []\<rparr>"

definition word16 :: "byte \<Rightarrow> byte \<Rightarrow> int" where
  "word16 hi lo = uint hi * 256 + uint lo"

text \<open>The \<open>switch\<close> on the record type.\<close>

definition applyRecord :: "bytes \<Rightarrow> nat \<Rightarrow> hex_state \<Rightarrow> hex_error + hex_state" where
  "applyRecord bs line st =
     (let byteCount = unat (bs ! 0);
          recordType = bs ! 3;
          offset = word16 (bs ! 1) (bs ! 2);
          payload = slice 4 (4 + byteCount) bs
      in if recordType = RECORD_DATA then
           Inr (st\<lparr>hexWrites := hexWrites st @
             [\<lparr>segAddress = (upperBase st + offset) mod 2 ^ 32, segData = payload\<rparr>]\<rparr>)
         else if recordType = RECORD_EOF then
           (if byteCount \<noteq> 0 then Inl (Eof_with_data line) else Inr (st\<lparr>sawEof := True\<rparr>))
         else if recordType = RECORD_EXT_LINEAR then
           (if byteCount \<noteq> 2 then Inl (Bad_linear line)
            else Inr (st\<lparr>upperBase := word16 (payload ! 0) (payload ! 1) * 0x10000\<rparr>))
         else if recordType = RECORD_EXT_SEGMENT then
           (if byteCount \<noteq> 2 then Inl (Bad_segment line)
            else Inr (st\<lparr>upperBase := word16 (payload ! 0) (payload ! 1) * 0x10\<rparr>))
         else if recordType = RECORD_START_SEGMENT \<or> recordType = RECORD_START_LINEAR then Inr st
         else Inl (Unsupported_type line recordType))"

text \<open>One turn of the loop over the lines; \<open>line\<close> is \<open>lineIndex + 1\<close>.\<close>

definition parseLine :: "js_text \<Rightarrow> nat \<Rightarrow> hex_state \<Rightarrow> hex_error + hex_state" where
  "parseLine text line st =
     (let raw = jsTrim text
      in if raw = [] then Inr st
         else if hd raw \<noteq> 58 then Inl (No_colon line)
         else
           (let body = tl raw
            in if length body mod 2 \<noteq> 0 \<or> length body < 10 then Inl (Odd_or_short line)
               else
                 (case hexToBytes body line of
                    Inl e \<Rightarrow> Inl e
                  | Inr bs \<Rightarrow>
                      if length bs \<noteq> unat (bs ! 0) + 5 then Inl (Count_mismatch line)
                      else if sum_list bs \<noteq> 0 then Inl (Bad_checksum line)
                      else if sawEof st then Inl (After_eof line)
                      else applyRecord bs line st)))"

fun parseLines :: "js_text list \<Rightarrow> nat \<Rightarrow> hex_state \<Rightarrow> hex_error + hex_state" where
  "parseLines [] line st = Inr st"
| "parseLines (t # ts) line st =
     (case parseLine t line st of Inl e \<Rightarrow> Inl e | Inr st' \<Rightarrow> parseLines ts (Suc line) st')"

subsection \<open>Coalescing\<close>

record pending_segment =
  pendAddress :: int
  pendLength :: nat
  pendRuns :: "hex_segment list"

definition pendEnd :: "pending_segment \<Rightarrow> int" where
  "pendEnd p = pendAddress p + int (pendLength p)"

definition pendNew :: "hex_segment \<Rightarrow> pending_segment" where
  "pendNew w = \<lparr>pendAddress = segAddress w, pendLength = length (segData w), pendRuns = [w]\<rparr>"

definition pendAdd :: "hex_segment \<Rightarrow> pending_segment \<Rightarrow> pending_segment" where
  "pendAdd w p = p\<lparr>pendLength := pendLength p + length (segData w), pendRuns := pendRuns p @ [w]\<rparr>"

text \<open>The grouping loop; \<open>current\<close> is the last pending segment, those before it are emitted.\<close>

fun groupRuns :: "pending_segment \<Rightarrow> hex_segment list \<Rightarrow> hex_error + pending_segment list" where
  "groupRuns current [] = Inr [current]"
| "groupRuns current (w # ws) =
     (if segAddress w = pendEnd current then groupRuns (pendAdd w current) ws
      else if segAddress w < pendEnd current then Inl (Overlapping (segAddress w))
      else (case groupRuns (pendNew w) ws of Inl e \<Rightarrow> Inl e | Inr ps \<Rightarrow> Inr (current # ps)))"

fun copyRuns :: "hex_segment list \<Rightarrow> nat \<Rightarrow> bytes \<Rightarrow> bytes option" where
  "copyRuns [] offset buf = Some buf"
| "copyRuns (run # runs) offset buf =
     (case setBytes offset (segData run) buf of
        None \<Rightarrow> None
      | Some buf' \<Rightarrow> copyRuns runs (offset + length (segData run)) buf')"

definition fillSegment :: "pending_segment \<Rightarrow> hex_segment option" where
  "fillSegment p = map_option (\<lambda>buf. \<lparr>segAddress = pendAddress p, segData = buf\<rparr>)
     (copyRuns (pendRuns p) 0 (newBytes (pendLength p)))"

fun fillSegments :: "pending_segment list \<Rightarrow> hex_segment list option" where
  "fillSegments [] = Some []"
| "fillSegments (p # ps) =
     (case fillSegment p of
        None \<Rightarrow> None
      | Some s \<Rightarrow> map_option (Cons s) (fillSegments ps))"

definition segEnd :: "hex_segment \<Rightarrow> int" where
  "segEnd s = segAddress s + int (length (segData s))"

text \<open>\<open>None\<close> would be a RangeError of \<open>data.set\<close>; \<open>coalesce_total\<close> shows it cannot happen.\<close>

definition coalesce :: "hex_segment list \<Rightarrow> (hex_error + parsed_hex) option" where
  "coalesce ws =
     (case sort_key segAddress ws of
        [] \<Rightarrow> Some (Inr \<lparr>segments = [], minAddress = 0, endAddress = 0, totalBytes = 0\<rparr>)
      | w # rest \<Rightarrow>
          (case groupRuns (pendNew w) rest of
             Inl e \<Rightarrow> Some (Inl e)
           | Inr pending \<Rightarrow>
               map_option (\<lambda>ss. Inr
                 \<lparr>segments = ss, minAddress = segAddress (hd ss), endAddress = segEnd (last ss),
                  totalBytes = fold (\<lambda>s acc. acc + length (segData s)) ss 0\<rparr>)
               (fillSegments pending)))"

definition parseIntelHex :: "js_text \<Rightarrow> (hex_error + parsed_hex) option" where
  "parseIntelHex text =
     (case parseLines (splitLines text) 1 hex_start of
        Inl e \<Rightarrow> Some (Inl e)
      | Inr st \<Rightarrow> if \<not> sawEof st then Some (Inl Missing_eof) else coalesce (hexWrites st))"

subsection \<open>What the segments hold\<close>

text \<open>\<open>holds ss a b\<close>: some segment of \<open>ss\<close> puts the byte \<open>b\<close> at address \<open>a\<close>.\<close>

definition segByte :: "hex_segment \<Rightarrow> int \<Rightarrow> byte option" where
  "segByte s a =
     (if segAddress s \<le> a \<and> a < segEnd s then Some (segData s ! nat (a - segAddress s)) else None)"

definition holds :: "hex_segment list \<Rightarrow> int \<Rightarrow> byte \<Rightarrow> bool" where
  "holds ss a b \<longleftrightarrow> (\<exists>s\<in>set ss. segByte s a = Some b)"

definition spaced :: "hex_segment list \<Rightarrow> bool" where
  "spaced ss \<longleftrightarrow> sorted_wrt (\<lambda>s t. segEnd s < segAddress t) ss"

definition apart :: "hex_segment \<Rightarrow> hex_segment \<Rightarrow> bool" where
  "apart s t \<longleftrightarrow> segEnd s \<le> segAddress t \<or> segEnd t \<le> segAddress s"

fun contiguous :: "int \<Rightarrow> hex_segment list \<Rightarrow> bool" where
  "contiguous a [] \<longleftrightarrow> True"
| "contiguous a (r # rs) \<longleftrightarrow> segAddress r = a \<and> contiguous (segEnd r) rs"

definition runsLength :: "hex_segment list \<Rightarrow> nat" where
  "runsLength rs = (\<Sum>r\<leftarrow>rs. length (segData r))"

definition pendOk :: "pending_segment \<Rightarrow> bool" where
  "pendOk p \<longleftrightarrow> pendRuns p \<noteq> [] \<and> pendLength p = runsLength (pendRuns p)
     \<and> contiguous (pendAddress p) (pendRuns p)"

named_theorems hex "unfolding rules of the segment lemmas"

declare segEnd_def [hex] pendEnd_def [hex] runsLength_def [hex] pendNew_def [hex] pendAdd_def [hex]

lemma runsLength_simps [simp]:
  "runsLength [] = 0" "runsLength (r # rs) = length (segData r) + runsLength rs"
  "runsLength (rs @ ss) = runsLength rs + runsLength ss"
  by (simp_all add: runsLength_def)

lemma contiguous_append:
  "contiguous a (rs @ ss) \<longleftrightarrow> contiguous a rs \<and> contiguous (a + int (runsLength rs)) ss"
  by (induction rs arbitrary: a) (auto simp: segEnd_def add.assoc)

lemma pendOk_new [intro]: "pendOk (pendNew w)"
  by (simp add: pendOk_def pendNew_def)

lemma pendOk_add [intro]: "pendOk p \<Longrightarrow> segAddress w = pendEnd p \<Longrightarrow> pendOk (pendAdd w p)"
  by (simp add: pendOk_def pendAdd_def contiguous_append pendEnd_def)

lemma segByte_append:
  "segByte \<lparr>segAddress = a, segData = xs @ ys\<rparr> k =
     (case segByte \<lparr>segAddress = a, segData = xs\<rparr> k of
        Some b \<Rightarrow> Some b | None \<Rightarrow> segByte \<lparr>segAddress = a + int (length xs), segData = ys\<rparr> k)"
  by (auto simp: segByte_def segEnd_def nth_append nat_diff_distrib algebra_simps
      intro!: arg_cong [of _ _ "(!) ys"])

lemma segByte_None_iff: "segByte s a = None \<longleftrightarrow> \<not> (segAddress s \<le> a \<and> a < segEnd s)"
  by (simp add: segByte_def)

lemma segByte_SomeD: "segByte s a = Some b \<Longrightarrow> segAddress s \<le> a \<and> a < segEnd s"
  by (simp add: segByte_def split: if_splits)

lemma contiguous_starts:
  "contiguous a rs \<Longrightarrow> r \<in> set rs \<Longrightarrow> a \<le> segAddress r \<and> segEnd r \<le> a + int (runsLength rs)"
  by (induction rs arbitrary: a) (fastforce simp: segEnd_def)+

lemma contiguous_holds:
  "contiguous a rs \<Longrightarrow>
   segByte \<lparr>segAddress = a, segData = concat (map segData rs)\<rparr> k = Some b \<longleftrightarrow> holds rs k b"
proof (induction rs arbitrary: a)
  case Nil
  then show ?case by (auto simp: segByte_def segEnd_def holds_def)
next
  case (Cons r rs)
  have r: "\<lparr>segAddress = a, segData = segData r\<rparr> = r" using Cons.prems by simp
  have e: "segEnd r = a + int (length (segData r))" using Cons.prems by (simp add: segEnd_def)
  have out: "segByte r k = None" if "holds rs k b"
    using that contiguous_starts [of "segEnd r" rs] Cons.prems
    by (fastforce simp: holds_def segByte_None_iff dest: segByte_SomeD)
  have "segByte \<lparr>segAddress = a, segData = concat (map segData (r # rs))\<rparr> k
      = (case segByte r k of Some b \<Rightarrow> Some b
         | None \<Rightarrow> segByte \<lparr>segAddress = segEnd r, segData = concat (map segData rs)\<rparr> k)"
    by (simp add: segByte_append r e split: option.splits)
  then show ?case
    using Cons.IH [of "segEnd r"] Cons.prems out by (auto simp: holds_def split: option.splits)
qed

subsection \<open>Copying and grouping\<close>

lemma copyRuns_Some:
  "length pre = off \<Longrightarrow>
   copyRuns rs off (pre @ newBytes (runsLength rs)) = Some (pre @ concat (map segData rs))"
proof (induction rs arbitrary: off pre)
  case Nil
  then show ?case by (simp add: newBytes_def)
next
  case (Cons r rs)
  have z: "newBytes (runsLength (r # rs)) = newBytes (length (segData r)) @ newBytes (runsLength rs)"
    by (simp add: newBytes_def replicate_add)
  have "setBytes off (segData r) (pre @ newBytes (runsLength (r # rs)))
      = Some ((pre @ segData r) @ newBytes (runsLength rs))"
    using Cons.prems unfolding z by (simp add: setBytes_def put_def)
  then show ?case using Cons.IH [of "pre @ segData r" "off + length (segData r)"] Cons.prems by simp
qed

lemma fillSegment_Some:
  "pendOk p \<Longrightarrow> fillSegment p
     = Some \<lparr>segAddress = pendAddress p, segData = concat (map segData (pendRuns p))\<rparr>"
  using copyRuns_Some [of "[]" 0 "pendRuns p"] by (simp add: fillSegment_def pendOk_def)

definition filled :: "pending_segment \<Rightarrow> hex_segment" where
  "filled p = \<lparr>segAddress = pendAddress p, segData = concat (map segData (pendRuns p))\<rparr>"

lemma fillSegments_Some: "list_all pendOk ps \<Longrightarrow> fillSegments ps = Some (map filled ps)"
  by (induction ps) (simp_all add: fillSegment_Some filled_def)

lemma runsLength_concat: "length (concat (map segData rs)) = runsLength rs"
  by (induction rs) simp_all

lemma filled_address: "segAddress (filled p) = pendAddress p"
  by (simp add: filled_def)

lemma filled_end: "pendOk p \<Longrightarrow> segEnd (filled p) = pendEnd p"
  by (simp add: filled_def segEnd_def pendEnd_def pendOk_def runsLength_concat)

lemma groupRuns_Inr:
  "groupRuns p ws = Inr ps \<Longrightarrow> pendOk p \<Longrightarrow>
   list_all pendOk ps \<and> concat (map pendRuns ps) = pendRuns p @ ws \<and> ps \<noteq> []
   \<and> pendAddress (hd ps) = pendAddress p
   \<and> sorted_wrt (\<lambda>s t. pendEnd s < pendAddress t) ps"
proof (induction p ws arbitrary: ps rule: groupRuns.induct)
  case (1 p)
  then show ?case by auto
next
  case (2 p w ws)
  consider (add) "segAddress w = pendEnd p"
    | (new) qs where "pendEnd p < segAddress w" "groupRuns (pendNew w) ws = Inr qs" "ps = p # qs"
    using "2.prems"(1) by (auto split: if_splits sum.splits)
  then show ?case
  proof cases
    case add
    have "groupRuns (pendAdd w p) ws = Inr ps" using "2.prems"(1) add by simp
    from "2.IH"(1) [OF add this pendOk_add [OF "2.prems"(2) add]] show ?thesis
      by (simp add: pendAdd_def)
  next
    case new
    have IH: "list_all pendOk qs \<and> concat (map pendRuns qs) = pendRuns (pendNew w) @ ws \<and> qs \<noteq> []
        \<and> pendAddress (hd qs) = pendAddress (pendNew w)
        \<and> sorted_wrt (\<lambda>s t. pendEnd s < pendAddress t) qs"
      using new by (intro "2.IH"(2)) auto
    have step: "pendEnd p < pendAddress q" if "q \<in> set qs" for q
    proof (cases qs)
      case (Cons a as)
      have "pendAddress a = segAddress w" using IH Cons by (simp add: pendNew_def)
      moreover have "pendAddress a \<le> pendAddress q"
        using IH that Cons by (fastforce simp: pendEnd_def)
      ultimately show ?thesis using new(1) by simp
    qed (use that in simp)
    show ?thesis using IH new "2.prems"(2) step by (auto simp: pendNew_def)
  qed
qed

lemma sort_key_hd_le:
  "sort_key f xs = y # ys \<Longrightarrow> x \<in> set ys \<Longrightarrow> f y \<le> (f x :: int)"
  using sorted_sort_key [of f xs] by auto

text \<open>The loop gives up exactly on a write that starts before the end of an earlier one.\<close>

lemma groupRuns_Inl:
  assumes "groupRuns p ws = Inl e" "pendOk p" "sorted (map segAddress ws)"
    "\<forall>w\<in>set ws. \<forall>r\<in>set (pendRuns p). segAddress r \<le> segAddress w"
    "list_all (\<lambda>w. segData w \<noteq> []) (pendRuns p @ ws)"
  shows "\<not> sorted_wrt apart (pendRuns p @ ws)"
  using assms
proof (induction p ws arbitrary: e rule: groupRuns.induct)
  case (1 p)
  then show ?case by simp
next
  case (2 p w ws)
  consider (add) "segAddress w = pendEnd p" | (overlap) "segAddress w < pendEnd p"
    | (new) "pendEnd p < segAddress w" by linarith
  then show ?case
  proof cases
    case add
    have "\<not> sorted_wrt apart (pendRuns (pendAdd w p) @ ws)"
      using "2.prems" add pendOk_add [OF "2.prems"(2) add]
      by (intro "2.IH"(1)) (auto simp: pendAdd_def)
    then show ?thesis by (simp add: pendAdd_def)
  next
    case overlap
    obtain rs r where rs: "pendRuns p = rs @ [r]"
      using "2.prems"(2) by (auto simp: pendOk_def intro: rev_exhaust)
    have e: "segEnd r = pendEnd p"
      using "2.prems"(2) rs by (simp add: pendOk_def contiguous_append pendEnd_def segEnd_def)
    have "segAddress r \<le> segAddress w" "segData w \<noteq> []" using "2.prems"(4,5) rs by auto
    then have "\<not> apart r w" using overlap e by (cases "segData w") (auto simp: apart_def segEnd_def [of w])
    then show ?thesis using rs by (auto simp: sorted_wrt_append)
  next
    case new
    from new "2.prems"(1) have "groupRuns (pendNew w) ws = Inl e" by (auto split: sum.splits)
    with "2.prems" new pendOk_new [of w] have "\<not> sorted_wrt apart (pendRuns (pendNew w) @ ws)"
      by (intro "2.IH"(2)) (auto simp: pendNew_def)
    then show ?thesis by (auto simp: pendNew_def sorted_wrt_append)
  qed
qed

subsection \<open>The result of coalescing\<close>

lemma pendRuns_pendNew [simp]: "pendRuns (pendNew w) = [w]"
  by (simp add: pendNew_def)

lemma runsLength_insort: "runsLength (insort_key f w ws) = runsLength (w # ws)"
  by (induction ws) simp_all

lemma runsLength_sort: "runsLength (sort_key f ws) = runsLength ws"
  by (induction ws) (simp_all add: sort_key_simps runsLength_insort)

lemma fold_length: "fold (\<lambda>s acc. acc + length (segData s)) ss n = n + runsLength ss"
  by (induction ss arbitrary: n) simp_all

lemma runsLength_filled:
  "list_all pendOk ps \<Longrightarrow> runsLength (map filled ps) = runsLength (concat (map pendRuns ps))"
  by (induction ps) (simp_all add: filled_def runsLength_concat)

lemma coalesce_total: "coalesce ws \<noteq> None"
proof (cases "sort_key segAddress ws")
  case (Cons w rest)
  show ?thesis
  proof (cases "groupRuns (pendNew w) rest")
    case (Inr ps)
    then have "list_all pendOk ps" using groupRuns_Inr by blast
    then show ?thesis using Cons Inr by (simp add: coalesce_def fillSegments_Some)
  qed (simp add: coalesce_def Cons)
qed (simp add: coalesce_def)

lemma coalesce_Inr:
  assumes "coalesce ws = Some (Inr p)" "ws \<noteq> []"
  obtains ps where "list_all pendOk ps" "concat (map pendRuns ps) = sort_key segAddress ws" "ps \<noteq> []"
    "sorted_wrt (\<lambda>s t. pendEnd s < pendAddress t) ps" "segments p = map filled ps"
    "minAddress p = pendAddress (hd ps)" "endAddress p = pendEnd (last ps)"
    "totalBytes p = runsLength (segments p)"
proof -
  obtain w rest where w: "sort_key segAddress ws = w # rest"
    using assms(2) by (metis length_0_conv length_sort neq_Nil_conv)
  obtain ps where g: "groupRuns (pendNew w) rest = Inr ps"
    using assms(1) by (auto simp: coalesce_def w split: sum.splits)
  note inv = groupRuns_Inr [OF g pendOk_new]
  have ok: "list_all pendOk ps" "ps \<noteq> []" using inv by auto
  have last: "pendOk (last ps)" using ok by (simp add: list_all_iff)
  show ?thesis
  proof (rule that)
    show "concat (map pendRuns ps) = sort_key segAddress ws" using inv w by simp
    show "sorted_wrt (\<lambda>s t. pendEnd s < pendAddress t) ps" using inv by simp
    show "segments p = map filled ps" "minAddress p = pendAddress (hd ps)"
      "endAddress p = pendEnd (last ps)" "totalBytes p = runsLength (segments p)"
      using assms(1) ok
      by (auto simp: coalesce_def w g fillSegments_Some fold_length hd_map last_map
          filled_end [OF last] filled_def [of "hd ps"])
  qed (use ok in auto)
qed

lemma holds_filled:
  "list_all pendOk ps \<Longrightarrow> holds (map filled ps) a b \<longleftrightarrow> holds (concat (map pendRuns ps)) a b"
proof (induction ps)
  case (Cons p ps)
  have "segByte (filled p) a = Some b \<longleftrightarrow> holds (pendRuns p) a b"
    using Cons.prems unfolding filled_def by (intro contiguous_holds) (simp add: pendOk_def)
  then show ?case using Cons by (auto simp: holds_def)
qed (simp add: holds_def)

lemma spaced_filled:
  assumes "list_all pendOk ps" "sorted_wrt (\<lambda>s t. pendEnd s < pendAddress t) ps"
  shows "spaced (map filled ps)"
proof -
  have "sorted_wrt (\<lambda>s t. segEnd (filled s) < segAddress (filled t)) ps"
  proof (rule sorted_wrt_mono_rel [OF _ assms(2)])
    fix s t assume "s \<in> set ps" "t \<in> set ps" "pendEnd s < pendAddress t"
    then show "segEnd (filled s) < segAddress (filled t)"
      using assms(1) by (simp add: filled_end list_all_iff) (simp add: filled_def)
  qed
  then show ?thesis by (simp add: spaced_def sorted_wrt_map)
qed

lemma spaced_unique: "spaced ss \<Longrightarrow> holds ss a b \<Longrightarrow> holds ss a c \<Longrightarrow> b = c"
proof (induction ss)
  case (Cons s ss)
  have "segByte t a = None" if "segByte s a = Some d" "t \<in> set ss" for t d
    using that Cons.prems(1) by (auto simp: spaced_def segByte_None_iff dest!: segByte_SomeD)
  then show ?case using Cons
    by (auto simp: holds_def spaced_def)
qed (simp add: holds_def)

theorem coalesce_image:
  assumes "coalesce ws = Some (Inr p)"
  shows "spaced (segments p) \<and> (\<forall>a b. holds (segments p) a b \<longleftrightarrow> holds ws a b)
    \<and> totalBytes p = runsLength ws
    \<and> (\<forall>a b. holds ws a b \<longrightarrow> minAddress p \<le> a \<and> a < endAddress p)"
proof (cases "ws = []")
  case True
  then show ?thesis using assms by (auto simp: coalesce_def spaced_def holds_def)
next
  case False
  from coalesce_Inr [OF assms False] obtain ps where ps: "list_all pendOk ps"
    "concat (map pendRuns ps) = sort_key segAddress ws" "ps \<noteq> []"
    "sorted_wrt (\<lambda>s t. pendEnd s < pendAddress t) ps" "segments p = map filled ps"
    "minAddress p = pendAddress (hd ps)" "endAddress p = pendEnd (last ps)"
    "totalBytes p = runsLength (segments p)" .
  have sp: "spaced (segments p)" using ps by (simp add: spaced_filled)
  have hs: "holds (segments p) a b \<longleftrightarrow> holds ws a b" for a b
    using ps(1,2,5) by (simp add: holds_filled) (simp add: holds_def)
  have len: "totalBytes p = runsLength ws" using ps by (simp add: runsLength_filled runsLength_sort)
  have bounds: "minAddress p \<le> a \<and> a < endAddress p" if "holds (segments p) a b" for a b
  proof -
    from that obtain q where q: "q \<in> set ps" "pendAddress q \<le> a" "a < pendEnd q"
      using ps(1,5) by (auto simp: holds_def list_all_iff filled_end filled_address dest!: segByte_SomeD)
    obtain i where i: "i < length ps" "q = ps ! i" using q(1) by (metis in_set_conv_nth)
    have e: "pendAddress r \<le> pendEnd r" for r by (simp add: pendEnd_def)
    have "pendAddress (hd ps) \<le> pendAddress q"
    proof (cases i)
      case 0
      then show ?thesis using i ps(3) by (simp add: hd_conv_nth)
    next
      case (Suc j)
      then have "pendEnd (ps ! 0) < pendAddress q" using ps(4) i by (auto simp: sorted_wrt_iff_nth_less)
      then show ?thesis using e [of "ps ! 0"] ps(3) by (simp add: hd_conv_nth)
    qed
    moreover have "pendEnd q \<le> pendEnd (last ps)"
    proof (cases "Suc i = length ps")
      case True
      then have "last ps = q" using i ps(3) by (metis last_conv_nth diff_Suc_1)
      then show ?thesis by simp
    next
      case False
      then have "i < length ps - 1" "length ps - 1 < length ps" using i by auto
      then have "pendEnd q < pendAddress (ps ! (length ps - 1))"
        using ps(4) i by (metis sorted_wrt_iff_nth_less)
      then show ?thesis using e [of "last ps"] ps(3) by (simp add: last_conv_nth)
    qed
    ultimately show ?thesis using q ps(6,7) by simp
  qed
  show ?thesis using sp hs len bounds by blast
qed

subsection \<open>Exactly the unambiguous images are accepted\<close>

lemma apart_sym: "apart s t \<Longrightarrow> apart t s"
  by (auto simp: apart_def)

lemma sorted_wrt_insort:
  assumes "\<And>s t. R s t \<Longrightarrow> R t s"
  shows "sorted_wrt R (insort_key f x xs) \<longleftrightarrow> (\<forall>y\<in>set xs. R x y) \<and> sorted_wrt R xs"
  using assms by (induction xs) (auto simp: set_insort_key)

lemma sorted_wrt_apart_sort: "sorted_wrt apart (sort_key f ws) \<longleftrightarrow> sorted_wrt apart ws"
  by (induction ws) (auto simp: sort_key_simps sorted_wrt_insort [OF apart_sym])

lemma contiguous_sorted: "contiguous a rs \<Longrightarrow> sorted_wrt apart rs"
proof (induction rs arbitrary: a)
  case (Cons r rs)
  then have "contiguous (segEnd r) rs" by simp
  then show ?case
    using Cons.IH contiguous_starts [of "segEnd r" rs] by (auto simp: apart_def)
qed simp

lemma groups_apart:
  "list_all pendOk ps \<Longrightarrow> sorted_wrt (\<lambda>s t. pendEnd s < pendAddress t) ps \<Longrightarrow>
   sorted_wrt apart (concat (map pendRuns ps))"
proof (induction ps)
  case (Cons p ps)
  have "apart r s" if "r \<in> set (pendRuns p)" "q \<in> set ps" "s \<in> set (pendRuns q)" for r s q
  proof -
    have "pendOk p" "pendOk q" "pendEnd p < pendAddress q" using Cons.prems that by (auto simp: list_all_iff)
    then have "segEnd r \<le> pendEnd p" "pendAddress q \<le> segAddress s"
      using that contiguous_starts by (auto simp: pendOk_def pendEnd_def)
    then show ?thesis using \<open>pendEnd p < pendAddress q\<close> by (simp add: apart_def)
  qed
  then show ?case using Cons contiguous_sorted by (auto simp: sorted_wrt_append pendOk_def)
qed simp

theorem coalesce_accepts:
  assumes "list_all (\<lambda>w. segData w \<noteq> []) ws"
  shows "(\<exists>p. coalesce ws = Some (Inr p)) \<longleftrightarrow> sorted_wrt apart ws"
proof (cases "sort_key segAddress ws")
  case Nil
  then have "ws = []" by (metis length_0_conv length_sort)
  then show ?thesis by (simp add: coalesce_def)
next
  case (Cons w rest)
  have sd: "sorted (map segAddress (w # rest))" using sorted_sort_key [of segAddress ws] Cons by simp
  have ne: "list_all (\<lambda>w. segData w \<noteq> []) (w # rest)"
    using assms Cons by (metis list_all_iff set_sort)
  show ?thesis
  proof (cases "groupRuns (pendNew w) rest")
    case (Inl e)
    from groupRuns_Inl [OF this pendOk_new] sd ne have "\<not> sorted_wrt apart (sort_key segAddress ws)"
      unfolding Cons by simp
    moreover have "\<not> (\<exists>p. coalesce ws = Some (Inr p))" using Inl by (simp add: coalesce_def Cons)
    ultimately show ?thesis by (simp only: sorted_wrt_apart_sort)
  next
    case (Inr ps)
    note inv = groupRuns_Inr [OF Inr pendOk_new]
    then have "sorted_wrt apart (sort_key segAddress ws)" using groups_apart [of ps] Cons by simp
    moreover have "\<exists>p. coalesce ws = Some (Inr p)"
      using Inr inv by (simp add: coalesce_def Cons fillSegments_Some)
    ultimately show ?thesis by (simp only: sorted_wrt_apart_sort)
  qed
qed

subsection \<open>Rendered files\<close>

text \<open>A reference renderer: every segment as an extended linear address record and a data record.\<close>

definition hexByte :: "byte \<Rightarrow> js_text" where
  "hexByte b = [hexChar (unat b div 16), hexChar (unat b mod 16)]"

definition recordText :: "bytes \<Rightarrow> js_text" where
  "recordText bs = 58 # concat (map hexByte (bs @ [- sum_list bs]))"

definition highBytes :: "int \<Rightarrow> bytes" where
  "highBytes a = [word_of_int (a div 2 ^ 24), word_of_int (a div 2 ^ 16)]"

definition lowBytes :: "int \<Rightarrow> bytes" where
  "lowBytes a = [word_of_int (a div 2 ^ 8), word_of_int a]"

definition segmentText :: "hex_segment \<Rightarrow> js_text" where
  "segmentText s =
     recordText ([2, 0, 0, RECORD_EXT_LINEAR] @ highBytes (segAddress s)) @ [10]
     @ recordText ([of_nat (length (segData s))] @ lowBytes (segAddress s) @ [RECORD_DATA] @ segData s) @ [10]"

definition renderHex :: "hex_segment list \<Rightarrow> js_text" where
  "renderHex ss = concat (map segmentText ss) @ recordText [0, 0, 0, RECORD_EOF]"

definition segment_ok :: "hex_segment \<Rightarrow> bool" where
  "segment_ok s \<longleftrightarrow> 0 \<le> segAddress s \<and> segAddress s < 2 ^ 32 \<and> length (segData s) < 256"

lemma parseIntHex_hexByte: "parseIntHex (hexByte b) = Some (uint b)"
proof -
  have "unat b < 256" using unsigned_less [of b, where 'a = nat] by simp
  then have "unat b div 16 < 16" "unat b mod 16 < 16" by simp_all
  from parseIntHex_digits [OF this] show ?thesis by (simp only: hexByte_def div_mult_mod_eq uint_nat)
qed

lemma hexToBytes_hexByte:
  "hexToBytes (concat (map hexByte bs)) line = Inr bs"
proof (induction bs)
  case (Cons b bs)
  have "hexToBytes (hexByte b @ xs) line = (case hexToBytes xs line of Inl e \<Rightarrow> Inl e | Inr out \<Rightarrow> Inr (b # out))"
    for xs
    using parseIntHex_hexByte [of b] by (simp add: hexByte_def split: sum.splits)
  then show ?case using Cons by simp
qed simp

lemma hexByte_chars: "c \<in> set (hexByte b) \<Longrightarrow> 48 \<le> c \<and> c \<le> 70"
  using unsigned_less [of b, where 'a = nat] hexChar_range by (fastforce simp: hexByte_def)

lemma recordText_chars: "c \<in> set (recordText bs) \<Longrightarrow> 48 \<le> c \<and> c \<le> 70"
  unfolding recordText_def using hexByte_chars by fastforce

lemma length_hexBytes: "length (concat (map hexByte bs)) = 2 * length bs"
  by (induction bs) (simp_all add: hexByte_def)

lemma jsTrim_none: "\<forall>c\<in>set s. \<not> jsSpace c \<Longrightarrow> jsTrim s = s"
proof -
  assume a: "\<forall>c\<in>set s. \<not> jsSpace c"
  have d: "dropWhile jsSpace t = t" if "\<forall>c\<in>set t. \<not> jsSpace c" for t
    using that by (cases t) auto
  show ?thesis using a by (simp add: jsTrim_def d)
qed

lemma parseLine_recordText:
  assumes "length bs = unat (bs ! 0) + 4" "\<not> sawEof st"
  shows "parseLine (recordText bs) line st = applyRecord (bs @ [- sum_list bs]) line st"
proof -
  have t: "jsTrim (recordText bs) = recordText bs"
    by (rule jsTrim_none) (use recordText_chars not_space in blast)
  have "hexToBytes (tl (recordText bs)) line = Inr (bs @ [- sum_list bs])"
    using hexToBytes_hexByte [of "bs @ [- sum_list bs]"] by (simp add: recordText_def)
  moreover have "length (tl (recordText bs)) = 2 * length bs + 2"
    using length_hexBytes [of "bs @ [- sum_list bs]"] by (simp add: recordText_def)
  moreover have "recordText bs \<noteq> [] \<and> hd (recordText bs) = 58" by (simp add: recordText_def)
  ultimately show ?thesis using assms by (auto simp: parseLine_def t nth_append)
qed

lemma splitLines_line: "10 \<notin> set l \<Longrightarrow> 13 \<notin> set l \<Longrightarrow> splitLines (l @ 10 # r) = l # splitLines r"
  by (induction l) auto

lemma splitLines_last: "10 \<notin> set l \<Longrightarrow> 13 \<notin> set l \<Longrightarrow> splitLines l = [l]"
  by (induction l) auto

lemma recordText_plain: "10 \<notin> set (recordText bs)" "13 \<notin> set (recordText bs)"
  using recordText_chars [of 10 bs] recordText_chars [of 13 bs] by auto

lemma word16_high: "0 \<le> a \<Longrightarrow> a < 2 ^ 32 \<Longrightarrow>
  word16 (word_of_int (a div 2 ^ 24)) (word_of_int (a div 2 ^ 16)) = a div 2 ^ 16"
  using zdiv_zmult2_eq [of 256 a 65536] unfolding word16_def uint_word_of_int_byte by simp

lemma word16_low: "word16 (word_of_int (a div 2 ^ 8)) (word_of_int a) = a mod 2 ^ 16"
  using zmod_zmult2_eq [of 256 a 256] unfolding word16_def uint_word_of_int_byte by simp

definition withWrite :: "hex_segment \<Rightarrow> hex_state \<Rightarrow> hex_state" where
  "withWrite s st = st\<lparr>upperBase := segAddress s div 2 ^ 16 * 2 ^ 16, hexWrites := hexWrites st @ [s]\<rparr>"

lemma applyRecord_linear:
  assumes "segment_ok s"
  shows "applyRecord (([2, 0, 0, RECORD_EXT_LINEAR] @ highBytes (segAddress s)) @ [chk]) line st
    = Inr (st\<lparr>upperBase := segAddress s div 2 ^ 16 * 2 ^ 16\<rparr>)"
  using assms word16_high [of "segAddress s"]
  by (simp add: applyRecord_def highBytes_def slice_def RECORD_DATA_def RECORD_EOF_def
      RECORD_EXT_LINEAR_def segment_ok_def Let_def)

lemma applyRecord_data:
  assumes "segment_ok s"
  shows "applyRecord (([of_nat (length (segData s))] @ lowBytes (segAddress s) @ [RECORD_DATA] @ segData s)
      @ [chk]) line (st\<lparr>upperBase := segAddress s div 2 ^ 16 * 2 ^ 16\<rparr>) = Inr (withWrite s st)"
proof -
  have "(segAddress s div 2 ^ 16 * 2 ^ 16 + segAddress s mod 2 ^ 16) mod 2 ^ 32 = segAddress s"
    using assms by (simp add: segment_ok_def)
  then show ?thesis
    using assms word16_low [of "segAddress s"]
    by (simp add: applyRecord_def lowBytes_def slice_def withWrite_def segment_ok_def unat_of_nat_byte
        Let_def)
qed

lemma parseLines_segment:
  assumes "segment_ok s" "\<not> sawEof st"
  shows "parseLines (splitLines (segmentText s @ text)) line st
    = parseLines (splitLines text) (line + 2) (withWrite s st)"
proof -
  let ?a = "[2, 0, 0, RECORD_EXT_LINEAR] @ highBytes (segAddress s)"
  let ?b = "[of_nat (length (segData s))] @ lowBytes (segAddress s) @ [RECORD_DATA] @ segData s"
  have e: "segmentText s @ text = recordText ?a @ 10 # (recordText ?b @ 10 # text)"
    by (simp only: segmentText_def append_assoc append_Cons append_Nil)
  have la: "parseLine (recordText ?a) line st = Inr (st\<lparr>upperBase := segAddress s div 2 ^ 16 * 2 ^ 16\<rparr>)"
    using applyRecord_linear [OF assms(1)] assms(2)
    by (subst parseLine_recordText) (simp_all add: highBytes_def)
  have lb: "parseLine (recordText ?b) (Suc line) (st\<lparr>upperBase := segAddress s div 2 ^ 16 * 2 ^ 16\<rparr>)
      = Inr (withWrite s st)"
    using applyRecord_data [OF assms(1)] assms
    by (subst parseLine_recordText) (simp_all add: lowBytes_def segment_ok_def unat_of_nat_byte)
  show ?thesis unfolding e splitLines_line [OF recordText_plain] parseLines.simps la lb sum.case by simp
qed

lemma sawEof_withWrite [simp]: "sawEof (withWrite s st) = sawEof st"
  "hexWrites (withWrite s st) = hexWrites st @ [s]"
  by (simp_all add: withWrite_def)

lemma parseLines_render:
  "list_all segment_ok ss \<Longrightarrow> \<not> sawEof st \<Longrightarrow>
   \<exists>st'. parseLines (splitLines (renderHex ss)) line st = Inr st' \<and> sawEof st'
     \<and> hexWrites st' = hexWrites st @ ss"
proof (induction ss arbitrary: st line)
  case Nil
  have "parseLine (recordText [0, 0, 0, RECORD_EOF]) line st = Inr (st\<lparr>sawEof := True\<rparr>)"
    using Nil by (subst parseLine_recordText)
      (simp_all add: applyRecord_def RECORD_EOF_def RECORD_DATA_def Let_def)
  then show ?case by (simp add: renderHex_def splitLines_last [OF recordText_plain])
next
  case (Cons s ss)
  have e: "renderHex (s # ss) = segmentText s @ renderHex ss" by (simp add: renderHex_def)
  from Cons.IH [of "withWrite s st" "line + 2"] Cons.prems
  show ?case unfolding e by (subst parseLines_segment) auto
qed

lemma parseIntelHex_render:
  "list_all segment_ok ss \<Longrightarrow> parseIntelHex (renderHex ss) = coalesce ss"
  using parseLines_render [of ss hex_start 1] by (auto simp: parseIntelHex_def hex_start_def)

end
