(* ===== verification/Apj.thy ===== *)
theory Apj
  imports Complex_Main Js_Text
begin

text \<open>
  \<open>firmware-flash/src/apj.ts\<close>: the \<open>.apj\<close> container. \<open>JSON.parse\<close>, \<open>atob\<close>, \<open>Number\<close> and the
  injected zlib \<open>inflate\<close> are arguments; a \<open>throw\<close> is a constructor of \<open>apj_error\<close>.
\<close>

subsection \<open>JavaScript values\<close>

datatype js_number = NaN | Infinity bool | Finite rat

datatype json =
    J_null | J_bool bool | J_number js_number | J_string js_text
  | J_array "json list" | J_object "(js_text \<times> json) list"

definition js :: "string \<Rightarrow> js_text" where
  "js s = map of_char s"

text \<open>\<open>obj.k\<close> on a parsed object (or array, which has none of the keys used here).\<close>

definition field :: "json \<Rightarrow> string \<Rightarrow> json option" where
  "field v k = (case v of J_object kvs \<Rightarrow> map_of kvs (js k) | _ \<Rightarrow> None)"

definition stringField :: "json \<Rightarrow> string \<Rightarrow> js_text option" where
  "stringField v k = (case field v k of Some (J_string s) \<Rightarrow> if s = [] then None else Some s | _ \<Rightarrow> None)"

definition numberField :: "json \<Rightarrow> string \<Rightarrow> js_number option" where
  "numberField v k = (case field v k of Some (J_number n) \<Rightarrow> Some n | _ \<Rightarrow> None)"

subsection \<open>The container\<close>

datatype apj_error =
    Not_json | Not_object | Missing_image | Missing_board_id | Image_size_over_cap
  | Extf_size_over_cap | Encoded_over_cap | Bad_base64 | Inflate_rejected
  | Inflated_over_cap nat | Size_mismatch nat

record parsed_apj =
  apjBoardId :: js_number
  apjBoardRevision :: js_number
  imageSize :: "rat option"
  compressedImage :: bytes
  compressedExtfImage :: "bytes option"
  extfImageSize :: "rat option"
  signedFirmware :: bool

record apj_host =
  jsonParse :: "js_text \<Rightarrow> json option"
  atob :: "js_text \<Rightarrow> bytes option"
  toNumber :: "js_text \<Rightarrow> js_number"

definition MAX_FIRMWARE_IMAGE_BYTES :: nat where
  "MAX_FIRMWARE_IMAGE_BYTES = 16 * 1024 * 1024"

definition encodedCap :: nat where
  "encodedCap = nat \<lceil>of_nat (MAX_FIRMWARE_IMAGE_BYTES * 4) / (3 :: rat)\<rceil> + 4"

definition base64ToBytes :: "apj_host \<Rightarrow> js_text \<Rightarrow> apj_error + bytes" where
  "base64ToBytes host b64 =
     (if length b64 > encodedCap then Inl Encoded_over_cap
      else (case atob host b64 of None \<Rightarrow> Inl Bad_base64 | Some bs \<Rightarrow> Inr bs))"

text \<open>The advisory sizes: a positive finite number, or a string that \<open>Number\<close> makes one.\<close>

definition rawSize :: "apj_host \<Rightarrow> json \<Rightarrow> string \<Rightarrow> js_number" where
  "rawSize host v k =
     (case field v k of
        Some (J_number n) \<Rightarrow> n
      | Some (J_string s) \<Rightarrow> toNumber host s
      | _ \<Rightarrow> NaN)"

definition advisorySize :: "apj_host \<Rightarrow> json \<Rightarrow> string \<Rightarrow> rat option" where
  "advisorySize host v k =
     (case rawSize host v k of Finite q \<Rightarrow> if 0 < q then Some q else None | _ \<Rightarrow> None)"

definition overCap :: "rat option \<Rightarrow> bool" where
  "overCap n = (case n of None \<Rightarrow> False | Some q \<Rightarrow> of_nat MAX_FIRMWARE_IMAGE_BYTES < q)"

definition parseApjObject :: "apj_host \<Rightarrow> json \<Rightarrow> apj_error + parsed_apj" where
  "parseApjObject host obj =
     (case stringField obj ''image'' of
        None \<Rightarrow> Inl Missing_image
      | Some img \<Rightarrow>
     (case numberField obj ''board_id'' of
        None \<Rightarrow> Inl Missing_board_id
      | Some board \<Rightarrow>
          (let declared = advisorySize host obj ''image_size''
           in if overCap declared then Inl Image_size_over_cap
              else
     (case (case stringField obj ''extf_image'' of
              None \<Rightarrow> Inr None
            | Some s \<Rightarrow> (case base64ToBytes host s of Inl e \<Rightarrow> Inl e | Inr bs \<Rightarrow> Inr (Some bs))) of
        Inl e \<Rightarrow> Inl e
      | Inr extf \<Rightarrow>
          (let extfDeclared = advisorySize host obj ''extf_image_size''
           in if overCap extfDeclared then Inl Extf_size_over_cap
              else
     (case base64ToBytes host img of
        Inl e \<Rightarrow> Inl e
      | Inr bs \<Rightarrow>
          Inr \<lparr>apjBoardId = board,
               apjBoardRevision =
                 (case numberField obj ''board_revision'' of None \<Rightarrow> Finite 0 | Some n \<Rightarrow> n),
               imageSize = declared, compressedImage = bs, compressedExtfImage = extf,
               extfImageSize = extfDeclared,
               signedFirmware = (field obj ''signed_firmware'' = Some (J_bool True))\<rparr>))))))"

definition parseApj :: "apj_host \<Rightarrow> js_text \<Rightarrow> apj_error + parsed_apj" where
  "parseApj host text =
     (case jsonParse host text of
        None \<Rightarrow> Inl Not_json
      | Some (J_object kvs) \<Rightarrow> parseApjObject host (J_object kvs)
      | Some (J_array vs) \<Rightarrow> parseApjObject host (J_array vs)
      | Some _ \<Rightarrow> Inl Not_object)"

definition padTo4 :: "bytes \<Rightarrow> bytes" where
  "padTo4 img =
     (let remainder = length img mod 4
      in if remainder = 0 then img else img @ replicate (4 - remainder) 0xFF)"

text \<open>\<open>inflate\<close> is \<open>None\<close> where the injected decompressor rejects.\<close>

definition checkInflated :: "rat option \<Rightarrow> bytes \<Rightarrow> apj_error + bytes" where
  "checkInflated declared raw =
     (if length raw > MAX_FIRMWARE_IMAGE_BYTES then Inl (Inflated_over_cap (length raw))
      else if declared \<noteq> None \<and> declared \<noteq> Some (of_nat (length raw)) then Inl (Size_mismatch (length raw))
      else Inr raw)"

definition decodeApjImage :: "(bytes \<Rightarrow> bytes option) \<Rightarrow> parsed_apj \<Rightarrow> apj_error + bytes" where
  "decodeApjImage inflate parsed =
     (case inflate (compressedImage parsed) of
        None \<Rightarrow> Inl Inflate_rejected
      | Some raw \<Rightarrow>
          (case checkInflated (imageSize parsed) raw of Inl e \<Rightarrow> Inl e | Inr r \<Rightarrow> Inr (padTo4 r)))"

definition decodeApjExtfImage :: "(bytes \<Rightarrow> bytes option) \<Rightarrow> parsed_apj \<Rightarrow> apj_error + bytes option" where
  "decodeApjExtfImage inflate parsed =
     (case compressedExtfImage parsed of
        None \<Rightarrow> Inr None
      | Some compressed \<Rightarrow>
          (case inflate compressed of
             None \<Rightarrow> Inl Inflate_rejected
           | Some raw \<Rightarrow>
               (case checkInflated (extfImageSize parsed) raw of
                  Inl e \<Rightarrow> Inl e
                | Inr r \<Rightarrow> Inr (if r = [] then None else Some (padTo4 r)))))"

subsection \<open>Padding and caps\<close>

lemma length_padTo4: "length (padTo4 img) mod 4 = 0"
proof -
  have "(n + (4 - n mod 4)) mod 4 = 0" for n :: nat
  proof -
    have "n mod 4 < 4" by simp
    then have "n + (4 - n mod 4) = 4 * (n div 4) + 4" using mult_div_mod_eq [of 4 n] by linarith
    then show ?thesis by simp
  qed
  then show ?thesis by (simp add: padTo4_def Let_def)
qed

lemma padTo4_flash:
  "\<exists>k<4. padTo4 img = img @ replicate k 0xFF"
  by (auto simp: padTo4_def Let_def intro!: exI [of _ "4 - length img mod 4"])

lemma padTo4_id: "length img mod 4 = 0 \<Longrightarrow> padTo4 img = img"
  by (simp add: padTo4_def)

lemma padTo4_cap:
  assumes "length img \<le> MAX_FIRMWARE_IMAGE_BYTES"
  shows "length (padTo4 img) \<le> MAX_FIRMWARE_IMAGE_BYTES"
proof -
  obtain k where k: "k < 4" "padTo4 img = img @ replicate k 0xFF" using padTo4_flash by blast
  have "(length img + k) mod 4 = 0" using length_padTo4 [of img] k by simp
  then obtain q where q: "length img + k = 4 * q" by (metis mod_0_imp_dvd dvdE)
  then have "4 * q \<le> 16777216" using assms k by (simp add: MAX_FIRMWARE_IMAGE_BYTES_def)
  then show ?thesis using k q by (simp add: MAX_FIRMWARE_IMAGE_BYTES_def)
qed

end
