(* ===== verification/Io_Monad.thy ===== *)
theory Io_Monad
  imports Prelude
begin

text \<open>
  Asynchronous code that talks to a device. A method is a function of the state of the
  conversation (the history of what was written, read and waited for); it returns a value or
  throws (\<open>Inr\<close> or \<open>Inl\<close>) with the new history, and \<open>None\<close> means that it never returns, so
  loops are \<open>partial_function (option)\<close>. \<open>bind_io\<close> is the sequencing of \<open>await\<close>, \<open>catch_io\<close>
  is \<open>try\<close>/\<open>catch\<close>.
\<close>

type_synonym ('s, 'e, 'a) io = "'s \<Rightarrow> (('e + 'a) \<times> 's) option"

definition return_io :: "'a \<Rightarrow> ('s, 'e, 'a) io" where
  "return_io x = (\<lambda>h. Some (Inr x, h))"

definition throw_io :: "'e \<Rightarrow> ('s, 'e, 'a) io" where
  "throw_io e = (\<lambda>h. Some (Inl e, h))"

definition bind_io :: "('s, 'e, 'a) io \<Rightarrow> ('a \<Rightarrow> ('s, 'e, 'b) io) \<Rightarrow> ('s, 'e, 'b) io" where
  "bind_io m k = (\<lambda>h. case m h of
     None \<Rightarrow> None
   | Some (Inl e, h') \<Rightarrow> Some (Inl e, h')
   | Some (Inr x, h') \<Rightarrow> k x h')"

definition then_io :: "('s, 'e, 'a) io \<Rightarrow> ('s, 'e, 'b) io \<Rightarrow> ('s, 'e, 'b) io" where
  "then_io m k = bind_io m (\<lambda>_. k)"

definition catch_io :: "('s, 'e, 'a) io \<Rightarrow> ('e \<Rightarrow> ('s, 'e, 'a) io) \<Rightarrow> ('s, 'e, 'a) io" where
  "catch_io m k = (\<lambda>h. case m h of
     None \<Rightarrow> None
   | Some (Inl e, h') \<Rightarrow> k e h'
   | Some (Inr x, h') \<Rightarrow> Some (Inr x, h'))"

text \<open>The outcome as a value: \<open>try { Inr (await m) } catch (e) { Inl e }\<close>.\<close>

definition try_io :: "('s, 'e, 'a) io \<Rightarrow> ('s, 'e, 'e + 'a) io" where
  "try_io m = (\<lambda>h. case m h of None \<Rightarrow> None | Some (r, h') \<Rightarrow> Some (Inr r, h'))"

lemmas io_defs = return_io_def throw_io_def bind_io_def then_io_def catch_io_def try_io_def

subsection \<open>Loops\<close>

lemma bind_io_mono [partial_function_mono]:
  fixes m :: "('i \<Rightarrow> 'r option) \<Rightarrow> ('s, 'e, 'a) io"
  assumes "\<And>h. mono_option (\<lambda>f. m f h)" and "\<And>x h. mono_option (\<lambda>f. k x f h)"
  shows "mono_option (\<lambda>f. bind_io (m f) (\<lambda>x. k x f) h)"
proof (rule monotoneI)
  fix f g :: "'i \<Rightarrow> 'r option"
  assume fg: "fun_ord option_ord f g"
  have m: "option_ord (m f h) (m g h)" by (rule monotoneD [of _ _ _ f g, OF assms(1) fg])
  have k: "option_ord (k x f h') (k x g h')" for x h' by (rule monotoneD [of _ _ _ f g, OF assms(2) fg])
  show "option_ord (bind_io (m f) (\<lambda>x. k x f) h) (bind_io (m g) (\<lambda>x. k x g) h)"
  proof (cases "m f h = None")
    case False
    from m have "m f h = None \<or> m f h = m g h" unfolding flat_ord_def .
    with False have "m f h = m g h" by (elim disjE) (erule notE, assumption, assumption)
    then show ?thesis using k by (simp add: bind_io_def flat_ord_def split: option.split sum.split prod.split)
  qed (simp add: bind_io_def flat_ord_def)
qed

lemma catch_io_mono [partial_function_mono]:
  fixes m :: "('i \<Rightarrow> 'r option) \<Rightarrow> ('s, 'e, 'a) io"
  assumes "\<And>h. mono_option (\<lambda>f. m f h)" and "\<And>e h. mono_option (\<lambda>f. k e f h)"
  shows "mono_option (\<lambda>f. catch_io (m f) (\<lambda>e. k e f) h)"
proof (rule monotoneI)
  fix f g :: "'i \<Rightarrow> 'r option"
  assume fg: "fun_ord option_ord f g"
  have m: "option_ord (m f h) (m g h)" by (rule monotoneD [of _ _ _ f g, OF assms(1) fg])
  have k: "option_ord (k x f h') (k x g h')" for x h' by (rule monotoneD [of _ _ _ f g, OF assms(2) fg])
  show "option_ord (catch_io (m f) (\<lambda>e. k e f) h) (catch_io (m g) (\<lambda>e. k e g) h)"
  proof (cases "m f h = None")
    case False
    from m have "m f h = None \<or> m f h = m g h" unfolding flat_ord_def .
    with False have "m f h = m g h" by (elim disjE) (erule notE, assumption, assumption)
    then show ?thesis using k by (simp add: catch_io_def flat_ord_def split: option.split sum.split prod.split)
  qed (simp add: catch_io_def flat_ord_def)
qed

subsection \<open>Reasoning about outcomes\<close>

named_theorems io_simps "outcomes of the combinators"

lemma return_io_simp [io_simps]: "return_io x h = Some (r, h') \<longleftrightarrow> r = Inr x \<and> h' = h"
  by (auto simp: return_io_def)

lemma throw_io_simp [io_simps]: "throw_io e h = Some (r, h') \<longleftrightarrow> r = Inl e \<and> h' = h"
  by (auto simp: throw_io_def)

lemma bind_io_Some:
  "bind_io m k h = Some (r, h'') \<longleftrightarrow>
     (\<exists>e. m h = Some (Inl e, h'') \<and> r = Inl e)
     \<or> (\<exists>x h'. m h = Some (Inr x, h') \<and> k x h' = Some (r, h''))"
  by (auto simp: bind_io_def split: option.splits sum.splits)

lemma catch_io_Some:
  "catch_io m k h = Some (r, h'') \<longleftrightarrow>
     (\<exists>x. m h = Some (Inr x, h'') \<and> r = Inr x)
     \<or> (\<exists>e h'. m h = Some (Inl e, h') \<and> k e h' = Some (r, h''))"
  by (auto simp: catch_io_def split: option.splits sum.splits)

lemma try_io_Some: "try_io m h = Some (r, h') \<longleftrightarrow> (\<exists>v. m h = Some (v, h') \<and> r = Inr v)"
  by (auto simp: try_io_def split: option.splits)

lemma bind_io_Inr [io_simps]:
  "bind_io m k h = Some (Inr y, h'') \<longleftrightarrow> (\<exists>x h'. m h = Some (Inr x, h') \<and> k x h' = Some (Inr y, h''))"
  by (auto simp: bind_io_def split: option.splits sum.splits)

lemma then_io_Inr [io_simps]:
  "then_io m k h = Some (Inr y, h'') \<longleftrightarrow> (\<exists>x h'. m h = Some (Inr x, h') \<and> k h' = Some (Inr y, h''))"
  by (simp add: then_io_def bind_io_Inr)

lemma catch_io_Inr [io_simps]:
  "catch_io m k h = Some (Inr y, h'') \<longleftrightarrow>
     m h = Some (Inr y, h'') \<or> (\<exists>e h'. m h = Some (Inl e, h') \<and> k e h' = Some (Inr y, h''))"
  by (auto simp: catch_io_def split: option.splits sum.splits)

lemma bind_io_run: "m h = Some (Inr x, h') \<Longrightarrow> bind_io m k h = k x h'"
  by (simp add: bind_io_def)

lemma then_io_run: "m h = Some (Inr x, h') \<Longrightarrow> then_io m k h = k h'"
  by (simp add: then_io_def bind_io_def)

lemma catch_io_run: "m h = Some (Inr x, h') \<Longrightarrow> catch_io m k h = Some (Inr x, h')"
  by (simp add: catch_io_def)

subsection \<open>Hoare triples\<close>

text \<open>Partial correctness: \<open>Q\<close> of a returned value, \<open>E\<close> of a thrown error.\<close>

definition triple :: "('s \<Rightarrow> bool) \<Rightarrow> ('s, 'e, 'a) io \<Rightarrow> ('a \<Rightarrow> 's \<Rightarrow> bool) \<Rightarrow> ('e \<Rightarrow> 's \<Rightarrow> bool) \<Rightarrow> bool" where
  "triple P m Q E \<longleftrightarrow>
     (\<forall>h r h'. P h \<longrightarrow> m h = Some (r, h') \<longrightarrow> (case r of Inl e \<Rightarrow> E e h' | Inr x \<Rightarrow> Q x h'))"

lemma triple_return: "triple (Q x) (return_io x) Q E"
  by (simp add: triple_def return_io_def)

lemma triple_throw: "triple (E e) (throw_io e) Q E"
  by (simp add: triple_def throw_io_def)

lemma triple_bind:
  assumes "triple P m R E" "\<And>x. triple (R x) (k x) Q E"
  shows "triple P (bind_io m k) Q E"
  unfolding triple_def bind_io_Some
proof (intro allI impI)
  fix h r h''
  assume h: "P h" and run: "(\<exists>e. m h = Some (Inl e, h'') \<and> r = Inl e)
     \<or> (\<exists>x h'. m h = Some (Inr x, h') \<and> k x h' = Some (r, h''))"
  from run show "case r of Inl e \<Rightarrow> E e h'' | Inr x \<Rightarrow> Q x h''"
  proof (elim disjE exE conjE)
    fix x h' assume mk: "m h = Some (Inr x, h')" "k x h' = Some (r, h'')"
    have "R x h'" using assms(1) h mk(1) by (fastforce simp: triple_def)
    then show ?thesis using assms(2) mk(2) by (auto simp: triple_def)
  qed (use assms(1) h in \<open>fastforce simp: triple_def\<close>)
qed

lemma triple_then:
  "triple P m (\<lambda>_. R) E \<Longrightarrow> triple R k Q E \<Longrightarrow> triple P (then_io m k) Q E"
  unfolding then_io_def by (rule triple_bind)

lemma triple_catch:
  assumes "triple P m Q R" "\<And>e. triple (R e) (k e) Q E"
  shows "triple P (catch_io m k) Q E"
  unfolding triple_def catch_io_Some
proof (intro allI impI)
  fix h r h''
  assume h: "P h" and run: "(\<exists>x. m h = Some (Inr x, h'') \<and> r = Inr x)
     \<or> (\<exists>e h'. m h = Some (Inl e, h') \<and> k e h' = Some (r, h''))"
  from run show "case r of Inl e \<Rightarrow> E e h'' | Inr x \<Rightarrow> Q x h''"
  proof (elim disjE exE conjE)
    fix e h' assume mk: "m h = Some (Inl e, h')" "k e h' = Some (r, h'')"
    have "R e h'" using assms(1) h mk(1) by (fastforce simp: triple_def)
    then show ?thesis using assms(2) mk(2) by (auto simp: triple_def)
  qed (use assms(1) h in \<open>fastforce simp: triple_def\<close>)
qed

lemma triple_try:
  "triple P m (\<lambda>x. Q (Inr x)) (\<lambda>e. Q (Inl e)) \<Longrightarrow> triple P (try_io m) Q E"
  unfolding triple_def try_io_Some by (fastforce split: sum.splits)

lemma triple_weaken:
  assumes "triple P' m Q' E'" "\<And>h. P h \<Longrightarrow> P' h" "\<And>x h. Q' x h \<Longrightarrow> Q x h" "\<And>e h. E' e h \<Longrightarrow> E e h"
  shows "triple P m Q E"
  using assms unfolding triple_def by (fastforce split: sum.splits)

text \<open>An invariant of the history that a method keeps whatever its outcome.\<close>

definition keeps :: "('s \<Rightarrow> bool) \<Rightarrow> ('s, 'e, 'a) io \<Rightarrow> bool" where
  "keeps I m \<longleftrightarrow> (\<forall>h r h'. I h \<longrightarrow> m h = Some (r, h') \<longrightarrow> I h')"

named_theorems keeps_rules "invariants kept by the combinators and the operations"

lemma keeps_return [keeps_rules]: "keeps I (return_io x)"
  by (simp add: keeps_def return_io_def)

lemma keeps_throw [keeps_rules]: "keeps I (throw_io e)"
  by (simp add: keeps_def throw_io_def)

lemma keeps_bind [keeps_rules]: "keeps I m \<Longrightarrow> (\<And>x. keeps I (k x)) \<Longrightarrow> keeps I (bind_io m k)"
  unfolding keeps_def bind_io_Some by blast

lemma keeps_then [keeps_rules]: "keeps I m \<Longrightarrow> keeps I k \<Longrightarrow> keeps I (then_io m k)"
  unfolding then_io_def by (rule keeps_bind)

lemma keeps_catch [keeps_rules]: "keeps I m \<Longrightarrow> (\<And>e. keeps I (k e)) \<Longrightarrow> keeps I (catch_io m k)"
  unfolding keeps_def catch_io_Some by blast

lemma keeps_try [keeps_rules]: "keeps I m \<Longrightarrow> keeps I (try_io m)"
  unfolding keeps_def try_io_Some by blast

lemma keeps_if [keeps_rules]: "(b \<Longrightarrow> keeps I m) \<Longrightarrow> (\<not> b \<Longrightarrow> keeps I n) \<Longrightarrow> keeps I (if b then m else n)"
  by simp

lemma keepsD: "keeps I m \<Longrightarrow> I h \<Longrightarrow> m h = Some (r, h') \<Longrightarrow> I h'"
  unfolding keeps_def by blast

subsection \<open>Termination\<close>

definition returns :: "('s, 'e, 'a) io \<Rightarrow> bool" where
  "returns m \<longleftrightarrow> (\<forall>h. m h \<noteq> None)"

named_theorems returns_rules "termination of the combinators and the operations"

lemma returns_return [returns_rules]: "returns (return_io x)"
  by (simp add: returns_def return_io_def)

lemma returns_throw [returns_rules]: "returns (throw_io e)"
  by (simp add: returns_def throw_io_def)

lemma returns_bind [returns_rules]: "returns m \<Longrightarrow> (\<And>x. returns (k x)) \<Longrightarrow> returns (bind_io m k)"
  unfolding returns_def bind_io_def
  by (auto split: option.splits sum.splits prod.splits)

lemma returns_then [returns_rules]: "returns m \<Longrightarrow> returns k \<Longrightarrow> returns (then_io m k)"
  unfolding then_io_def by (rule returns_bind)

lemma returns_catch [returns_rules]: "returns m \<Longrightarrow> (\<And>e. returns (k e)) \<Longrightarrow> returns (catch_io m k)"
  unfolding returns_def catch_io_def
  by (auto split: option.splits sum.splits prod.splits)

lemma returns_try [returns_rules]: "returns m \<Longrightarrow> returns (try_io m)"
  unfolding returns_def try_io_def by (auto split: option.splits)

lemma returns_if [returns_rules]: "(b \<Longrightarrow> returns m) \<Longrightarrow> (\<not> b \<Longrightarrow> returns n) \<Longrightarrow> returns (if b then m else n)"
  by simp

lemma bind_io_None:
  "bind_io m k h = None \<longleftrightarrow> m h = None \<or> (\<exists>x h'. m h = Some (Inr x, h') \<and> k x h' = None)"
  by (auto simp: bind_io_def split: option.splits sum.splits)

lemma returns_not_None: "returns m \<Longrightarrow> m h \<noteq> None"
  by (simp add: returns_def)

lemma returns_case_sum [returns_rules]:
  "(\<And>x. returns (f x)) \<Longrightarrow> (\<And>y. returns (g y)) \<Longrightarrow> returns (case r of Inl x \<Rightarrow> f x | Inr y \<Rightarrow> g y)"
  by (cases r) auto

lemma returns_case_option [returns_rules]:
  "returns m \<Longrightarrow> (\<And>y. returns (g y)) \<Longrightarrow> returns (case r of None \<Rightarrow> m | Some y \<Rightarrow> g y)"
  by (cases r) auto

lemma keeps_case_sum [keeps_rules]:
  "(\<And>x. keeps I (f x)) \<Longrightarrow> (\<And>y. keeps I (g y)) \<Longrightarrow> keeps I (case r of Inl x \<Rightarrow> f x | Inr y \<Rightarrow> g y)"
  by (cases r) auto

lemma keeps_case_option [keeps_rules]:
  "keeps I m \<Longrightarrow> (\<And>y. r = Some y \<Longrightarrow> keeps I (g y)) \<Longrightarrow>
   keeps I (case r of None \<Rightarrow> m | Some y \<Rightarrow> g y)"
  by (cases r) auto

subsection \<open>Polling\<close>

text \<open>
  A loop that gives up once the clock has passed \<open>d\<close> ends, when only so many interactions fit
  into a millisecond and each turn that comes back adds to the history.
\<close>

definition clock_ticks :: "('s \<Rightarrow> nat) \<Rightarrow> ('s \<Rightarrow> int) \<Rightarrow> bool" where
  "clock_ticks len now \<longleftrightarrow> (\<exists>K>0. \<exists>c. \<forall>h. int (len h) \<le> K * (now h + c))"

lemma clock_ticks_polling:
  assumes "clock_ticks len now"
    and turn: "\<And>h. loop h = None \<Longrightarrow> now h \<le> d \<and> (\<exists>h'. len h < len h' \<and> loop h' = None)"
  shows "loop h \<noteq> None"
proof -
  obtain K c where K: "0 < K" "\<And>h. int (len h) \<le> K * (now h + c)"
    using assms(1) by (auto simp: clock_ticks_def)
  show ?thesis
  proof (induction "nat (K * (d + c) + 1 - int (len h))" arbitrary: h rule: less_induct)
    case less
    show ?case
    proof
      assume "loop h = None"
      from turn [OF this] obtain h' where h': "now h \<le> d" "len h < len h'" "loop h' = None" by blast
      have "K * (now h + c) \<le> K * (d + c)" using h'(1) K(1) by simp
      then have "int (len h) \<le> K * (d + c)" using K(2) by (rule order_trans [rotated])
      then have "nat (K * (d + c) + 1 - int (len h')) < nat (K * (d + c) + 1 - int (len h))"
        using h'(2) by simp
      from less [OF this] h'(3) show False by simp
    qed
  qed
qed

end
