(* ===== verification/Firmware_Crc.thy ===== *)
theory Firmware_Crc
  imports Crc_Algebra
begin

unbundle bit_operations_syntax

text \<open>
  \<open>firmware-flash/src/crc.ts\<close>: the table-driven CRC-32 of the serial bootloader. The table
  step equals eight steps of the bit-by-bit division, a changed byte changes the checksum,
  and \<open>firmwareCrc\<close> is the checksum of the flash contents after programming: the image
  followed by erased (\<open>0xFF\<close>) bytes up to the flash size.
\<close>

definition CRC_TABLE :: "32 word list" where
  "CRC_TABLE = map (\<lambda>n. (reflected_step 0xEDB88320 ^^ 8) (of_nat n)) [0..<256]"

definition crc32Step :: "byte \<Rightarrow> 32 word \<Rightarrow> 32 word" where
  "crc32Step b crc = CRC_TABLE ! unat ((crc XOR ucast b) AND 0xFF) XOR drop_bit 8 crc"

definition arduPilotCrc32 :: "bytes \<Rightarrow> 32 word \<Rightarrow> 32 word" where
  "arduPilotCrc32 bs state = fold crc32Step bs state"

definition FF_WORD :: bytes where
  "FF_WORD = [0xFF, 0xFF, 0xFF, 0xFF]"

function ffFill :: "nat \<Rightarrow> nat \<Rightarrow> 32 word \<Rightarrow> 32 word" where
  "ffFill i flashMaxSize state =
     (if i < flashMaxSize then ffFill (i + 4) flashMaxSize (arduPilotCrc32 FF_WORD state) else state)"
  by pat_completeness auto
termination by (relation "measure (\<lambda>(i, m, s). m - i)") auto

declare ffFill.simps [simp del]

definition firmwareCrc :: "bytes \<Rightarrow> nat \<Rightarrow> 32 word option" where
  "firmwareCrc alignedImage flashMaxSize =
     (if length alignedImage mod 4 \<noteq> 0 then None
      else Some (ffFill (length alignedImage) flashMaxSize (arduPilotCrc32 alignedImage 0)))"

subsection \<open>The reference: division by the reflected polynomial\<close>

definition crc32_bits :: "32 word \<Rightarrow> 32 word" where
  "crc32_bits = reflected_step 0xEDB88320 ^^ 8"

definition crc32_map :: "32 word \<Rightarrow> 32 word" where
  "crc32_map c = crc32_bits (c AND 0xFF) XOR drop_bit 8 c"

definition crc32_undo_bit :: "32 word \<Rightarrow> 32 word" where
  "crc32_undo_bit c = push_bit 1 c XOR (if bit c 31 then 0xDB710641 else 0)"

definition crc32_undo :: "32 word \<Rightarrow> 32 word" where
  "crc32_undo = crc32_undo_bit ^^ 8"

lemma crc32_bits_linear: "xor_linear crc32_bits"
  unfolding crc32_bits_def by (rule xor_linear_funpow) (rule reflected_step_linear)

lemma crc32_map_linear: "xor_linear crc32_map"
  unfolding crc32_map_def
  by (intro xor_linear_xor xor_linear_comp [OF xor_linear_and crc32_bits_linear] xor_linear_drop_bit)

lemma crc32_undo_linear: "xor_linear crc32_undo"
  unfolding crc32_undo_def crc32_undo_bit_def [abs_def]
  by (intro xor_linear_funpow xor_linear_xor xor_linear_push_bit xor_linear_if_bit)

lemma crc32_map_bits: "crc32_map c = crc32_bits c"
  by (rule xor_linear_eq [OF crc32_map_linear crc32_bits_linear])
    (simp only: basis_unfold, simp add: basis_eval crc32_map_def crc32_bits_def)

lemma crc32_undo_bits: "crc32_undo (crc32_bits c) = c"
  by (rule xor_linear_eq [OF xor_linear_comp [OF crc32_bits_linear crc32_undo_linear] xor_linear_id])
    (simp only: basis_unfold, simp add: basis_eval crc32_undo_def crc32_undo_bit_def crc32_bits_def)

lemma CRC_TABLE_nth: "unat w < 256 \<Longrightarrow> CRC_TABLE ! unat w = crc32_bits w"
  by (simp add: CRC_TABLE_def crc32_bits_def del: upt_rec_numeral)

lemma low_byte_bound: "unat ((w :: 32 word) AND 0xFF) < 256"
proof -
  have "unat (w AND 0xFF) \<le> unat (0xFF :: 32 word)"
    by (rule word_le_nat_alt [THEN iffD1]) (rule word_and_le1)
  then show ?thesis by simp
qed

lemma crc32Step_bits: "crc32Step b c = crc32_bits (c XOR ucast b)"
proof -
  have "drop_bit 8 (ucast b :: 32 word) = 0"
    by (rule bit_eqI) (auto simp: bit_simps dest: bit_imp_le_length)
  then have "drop_bit 8 (c XOR ucast b) = drop_bit 8 c" by (simp add: drop_bit_xor)
  then have "crc32Step b c = crc32_map (c XOR ucast b)"
    by (simp add: crc32Step_def crc32_map_def CRC_TABLE_nth low_byte_bound)
  then show ?thesis by (simp add: crc32_map_bits)
qed

interpretation crc32: byte_crc crc32Step
  by (rule byte_crcI [where T = crc32_bits and U = crc32_undo and inject = ucast])
    (simp_all add: crc32Step_bits crc32_undo_bits inj_ucast_byte)

lemma arduPilotCrc32_append: "arduPilotCrc32 (xs @ ys) s = arduPilotCrc32 ys (arduPilotCrc32 xs s)"
  by (simp add: arduPilotCrc32_def)

lemma arduPilotCrc32_single_byte:
  assumes "arduPilotCrc32 (xs @ b # ys) s = arduPilotCrc32 (xs @ c # ys) s"
  shows "b = c"
  using assms unfolding arduPilotCrc32_def by (rule crc32.single_byte_detected)

subsection \<open>The checksum of the flash contents\<close>

lemma replicate_FF: "replicate (4 * Suc k) (0xFF :: byte) = FF_WORD @ replicate (4 * k) 0xFF"
  by (simp add: FF_WORD_def numeral_eq_Suc)

lemma ffFill_replicate:
  "ffFill i (i + 4 * k) s = arduPilotCrc32 (replicate (4 * k) 0xFF) s"
proof (induction k arbitrary: i s)
  case 0
  then show ?case by (subst ffFill.simps) (simp add: arduPilotCrc32_def)
next
  case (Suc k)
  have "i + 4 * Suc k = (i + 4) + 4 * k" by simp
  then have "ffFill i (i + 4 * Suc k) s = ffFill (i + 4) ((i + 4) + 4 * k) (arduPilotCrc32 FF_WORD s)"
    by (subst ffFill.simps) (simp add: add.assoc)
  also have "\<dots> = arduPilotCrc32 (replicate (4 * Suc k) 0xFF) s"
    unfolding Suc.IH replicate_FF arduPilotCrc32_append by simp
  finally show ?case .
qed

definition flashContents :: "bytes \<Rightarrow> nat \<Rightarrow> bytes" where
  "flashContents img flashSize = img @ replicate (flashSize - length img) 0xFF"

lemma firmwareCrc_contents:
  assumes "length img mod 4 = 0" and "flashSize mod 4 = 0" and "length img \<le> flashSize"
  shows "firmwareCrc img flashSize = Some (arduPilotCrc32 (flashContents img flashSize) 0)"
proof -
  have "(flashSize - length img) mod 4 = 0"
    using assms by (metis mod_0_imp_dvd dvd_diff_nat dvd_imp_mod_0)
  then obtain k where k: "flashSize - length img = 4 * k" by (metis mod_0_imp_dvd dvdE)
  then have "flashSize = length img + 4 * k" using assms(3) by simp
  then show ?thesis
    using assms(1) by (simp add: firmwareCrc_def ffFill_replicate flashContents_def arduPilotCrc32_append)
qed

end
