(* ===== verification/Board_Guard.thy ===== *)
theory Board_Guard
  imports Prelude
begin

text \<open>
  \<open>firmware-flash/src/board-guard.ts\<close>: the checks that run before a chip erase. The texts of the
  refusals and notes are constructors that carry the numbers the texts show.
\<close>

datatype guard_text =
    Wrong_board int int | Image_too_large nat int | Auav_compat | Fmuv3_compat int int

record board_match =
  ok :: bool
  reason :: "guard_text option"
  note_text :: "guard_text option"

definition "PX4FMUv2_ID = (9 :: int)"
definition "PX4FMUv3_ID = (255 :: int)"
definition "AUAVX2_1_ID = (33 :: int)"
definition "FMUV3_LARGE_FLASH_THRESHOLD = (1032192 :: int)"
definition "FMUV3_LARGE_FLASH_MIN_BL_REV = (5 :: int)"

lemmas board_ids = PX4FMUv2_ID_def PX4FMUv3_ID_def AUAVX2_1_ID_def
  FMUV3_LARGE_FLASH_THRESHOLD_def FMUV3_LARGE_FLASH_MIN_BL_REV_def

definition allowed :: "guard_text option \<Rightarrow> board_match" where
  "allowed t = \<lparr>ok = True, reason = None, note_text = t\<rparr>"

definition refused :: "guard_text \<Rightarrow> board_match" where
  "refused t = \<lparr>ok = False, reason = Some t, note_text = None\<rparr>"

definition checkBoardMatch :: "int \<Rightarrow> int \<Rightarrow> int option \<Rightarrow> int option \<Rightarrow> board_match" where
  "checkBoardMatch firmwareBoardId connectedBoardId bootloaderRevision flashSize =
     (if firmwareBoardId = connectedBoardId then allowed None
      else if (firmwareBoardId = AUAVX2_1_ID \<and> connectedBoardId = PX4FMUv2_ID)
              \<or> (firmwareBoardId = PX4FMUv2_ID \<and> connectedBoardId = AUAVX2_1_ID)
      then allowed (Some Auav_compat)
      else (case (bootloaderRevision, flashSize) of
              (Some blRev, Some flash) \<Rightarrow>
                if firmwareBoardId = PX4FMUv3_ID \<and> connectedBoardId = PX4FMUv2_ID
                   \<and> blRev \<ge> FMUV3_LARGE_FLASH_MIN_BL_REV \<and> flash > FMUV3_LARGE_FLASH_THRESHOLD
                then allowed (Some (Fmuv3_compat blRev flash))
                else refused (Wrong_board firmwareBoardId connectedBoardId)
            | _ \<Rightarrow> refused (Wrong_board firmwareBoardId connectedBoardId)))"

definition checkImageFitsFlash :: "nat \<Rightarrow> int \<Rightarrow> board_match" where
  "checkImageFitsFlash imageBytes flashSize =
     (if int imageBytes \<le> flashSize then allowed None
      else refused (Image_too_large imageBytes flashSize))"

lemma allowed_ok [simp]: "ok (allowed t)" "\<not> ok (refused r)" "reason (refused r) = Some r"
  by (simp_all add: allowed_def refused_def)

text \<open>The pairs of different ids that are let through.\<close>

definition compatible :: "int \<Rightarrow> int \<Rightarrow> int option \<Rightarrow> int option \<Rightarrow> bool" where
  "compatible fw board blRev flash \<longleftrightarrow>
     fw = board \<or> {fw, board} = {9, 33}
     \<or> fw = 255 \<and> board = 9 \<and> (\<exists>r f. blRev = Some r \<and> flash = Some f \<and> 5 \<le> r \<and> 1032192 < f)"

lemma checkBoardMatch_ok: "ok (checkBoardMatch fw board blRev flash) \<longleftrightarrow> compatible fw board blRev flash"
  by (auto simp: checkBoardMatch_def compatible_def board_ids doubleton_eq_iff split: option.splits)

lemma checkBoardMatch_refusal:
  "\<not> ok (checkBoardMatch fw board blRev flash) \<Longrightarrow>
   checkBoardMatch fw board blRev flash = refused (Wrong_board fw board)"
  by (auto simp: checkBoardMatch_def split: option.splits if_splits)

text \<open>With the ids alone, as \<open>flash\<close> calls it, the FMUv3 exception cannot apply.\<close>

lemma checkBoardMatch_ids_only:
  "ok (checkBoardMatch fw board None None) \<longleftrightarrow> fw = board \<or> {fw, board} = {9, 33}"
  by (auto simp: checkBoardMatch_ok compatible_def)

end
