(* ===== verification/Bootloader.thy ===== *)
theory Bootloader
  imports Io_Monad Js_Text Firmware_Crc Board_Guard
begin

text \<open>
  \<open>firmware-flash/src/bootloader.ts\<close>: the serial bootloader client. The \<open>BootloaderSerial\<close> it
  talks to and \<open>Date.now()\<close> are a \<open>serial\<close> record, whose answers may depend on the whole
  history of the conversation; \<open>read\<close> follows its documented contract of exactly \<open>n\<close> bytes or a
  rejection. A progress callback is an event (its ratio is not modelled); \<open>progress\<close> says
  whether the caller passed one.
\<close>

subsection \<open>Constants\<close>

definition "INSYNC = (0x12 :: byte)"
definition "EOC = (0x20 :: byte)"
definition "OK = (0x10 :: byte)"
definition "FAILED = (0x11 :: byte)"
definition "INVALID = (0x13 :: byte)"
definition "BAD_SILICON_REV = (0x14 :: byte)"
definition "GET_SYNC = (0x21 :: byte)"
definition "GET_DEVICE = (0x22 :: byte)"
definition "CHIP_ERASE = (0x23 :: byte)"
definition "CHIP_VERIFY = (0x24 :: byte)"
definition "PROG_MULTI = (0x27 :: byte)"
definition "READ_MULTI = (0x28 :: byte)"
definition "GET_CRC = (0x29 :: byte)"
definition "GET_VERSION = (0x2F :: byte)"
definition "MAX_VERSION_LENGTH = (32 :: nat)"
definition "REBOOT = (0x30 :: byte)"
definition "EXTF_ERASE = (0x34 :: byte)"
definition "EXTF_PROG_MULTI = (0x35 :: byte)"
definition "EXTF_GET_CRC = (0x37 :: byte)"
definition "INFO_BL_REV = (1 :: byte)"
definition "INFO_BOARD_ID = (2 :: byte)"
definition "INFO_BOARD_REV = (3 :: byte)"
definition "INFO_FLASH_SIZE = (4 :: byte)"
definition "PROG_MULTI_MAX = (252 :: nat)"
definition "READ_MULTI_MAX = (128 :: nat)"
definition "BL_REV_MIN = (2 :: nat)"
definition "BL_REV_MAX = (5 :: nat)"
definition "BL_REV_READBACK_VERIFY = (2 :: int)"
definition "SYNC_TIMEOUT_MS = (3000 :: nat)"
definition "VERSION_TIMEOUT_MS = (1000 :: nat)"
definition "CHUNK_RESYNC_SILENCE_MS = (200 :: nat)"
definition "CHUNK_RESYNC_MAX_MS = (3000 :: int)"
definition CHUNK_RESYNC_FILLER :: bytes where "CHUNK_RESYNC_FILLER = newBytes 256"
definition "ERASE_FALLBACK_TIMEOUT_MS = (40000 :: int)"
definition "EXTF_ERASE_TOTAL_TIMEOUT_MS = (60000 :: int)"
definition "EXTF_VERIFY_TIMEOUT_MS = (10000 :: nat)"
definition "EXTF_ERASE_PCT_READ_TIMEOUT_MS = (2000 :: nat)"

text \<open>\<open>Math.ceil(flashMb)\<close> of a whole number of bytes is a division rounded up.\<close>

definition chipEraseTimeoutMs :: "int option \<Rightarrow> int" where
  "chipEraseTimeoutMs flashSize =
     (case flashSize of
        None \<Rightarrow> ERASE_FALLBACK_TIMEOUT_MS
      | Some n \<Rightarrow>
          if n \<le> 0 then ERASE_FALLBACK_TIMEOUT_MS
          else 20000 + max 0 (- ((- n) div (1024 * 1024)) - 2) * 4000)"

definition le32 :: "int \<Rightarrow> bytes" where
  "le32 v = [word_of_int v, word_of_int (v div 2 ^ 8), word_of_int (v div 2 ^ 16), word_of_int (v div 2 ^ 24)]"

text \<open>\<open>(raw[0] | (raw[1] << 8) | (raw[2] << 16) | (raw[3] << 24)) >>> 0\<close>.\<close>

definition fromLe32 :: "bytes \<Rightarrow> nat" where
  "fromLe32 raw = unat (raw ! 0) + unat (raw ! 1) * 2 ^ 8 + unat (raw ! 2) * 2 ^ 16 + unat (raw ! 3) * 2 ^ 24"

subsection \<open>The serial link\<close>

datatype flash_phase = Erase | Program | Verify | Extf_erase | Extf_program | Extf_verify

datatype io_event =
    Wrote bytes | Write_failed bytes | Got bytes | Read_failed nat
  | Flushed | Flush_failed | Asked_time | Reported flash_phase

type_synonym history = "io_event list"

record serial =
  writes :: "history \<Rightarrow> bytes \<Rightarrow> string option"
  reads :: "history \<Rightarrow> nat \<Rightarrow> nat \<Rightarrow> string + (nat \<Rightarrow> byte)"
  flushes :: "(history \<Rightarrow> string option) option"
  clock :: "history \<Rightarrow> int"

datatype boot_error =
    Rejected string | Bad_insync byte | Invalid_operation | Operation_failed | Bad_silicon
  | Bad_ok byte | Unsupported_revision nat | Erase_invalid | Erase_failed | Erase_timeout
  | Not_aligned | Crc_mismatch "32 word" nat | Bad_extf_size | Extf_timeout
  | Extf_crc_mismatch "32 word" nat | Verify_mismatch nat byte byte | Refused guard_text

type_synonym 'a boot = "history \<Rightarrow> ((boot_error + 'a) \<times> history) option"

definition writeBytes :: "serial \<Rightarrow> bytes \<Rightarrow> unit boot" where
  "writeBytes io bs = (\<lambda>h. case writes io h bs of
     None \<Rightarrow> Some (Inr (), h @ [Wrote bs])
   | Some m \<Rightarrow> Some (Inl (Rejected m), h @ [Write_failed bs]))"

definition readBytes :: "serial \<Rightarrow> nat \<Rightarrow> nat \<Rightarrow> bytes boot" where
  "readBytes io n timeoutMs = (\<lambda>h. case reads io h n timeoutMs of
     Inl m \<Rightarrow> Some (Inl (Rejected m), h @ [Read_failed n])
   | Inr f \<Rightarrow> Some (Inr (map f [0..<n]), h @ [Got (map f [0..<n])]))"

text \<open>\<open>await this.io.flushInput?.()\<close>.\<close>

definition flushInput :: "serial \<Rightarrow> unit boot" where
  "flushInput io = (\<lambda>h. case flushes io of
     None \<Rightarrow> Some (Inr (), h)
   | Some f \<Rightarrow> (case f h of
        None \<Rightarrow> Some (Inr (), h @ [Flushed])
      | Some m \<Rightarrow> Some (Inl (Rejected m), h @ [Flush_failed])))"

definition dateNow :: "serial \<Rightarrow> int boot" where
  "dateNow io = (\<lambda>h. Some (Inr (clock io h), h @ [Asked_time]))"

definition report :: "bool \<Rightarrow> flash_phase \<Rightarrow> unit boot" where
  "report progress phase = (\<lambda>h. Some (Inr (), if progress then h @ [Reported phase] else h))"

subsection \<open>Error messages the code matches on\<close>

definition lowerAscii :: "char \<Rightarrow> nat" where
  "lowerAscii c = (let n = of_char c in if 65 \<le> n \<and> n \<le> 90 then n + 32 else n)"

fun mentions :: "nat list \<Rightarrow> nat list \<Rightarrow> bool" where
  "mentions w [] \<longleftrightarrow> w = []"
| "mentions w (c # cs) \<longleftrightarrow> take (length w) (c # cs) = w \<or> mentions w cs"

definition mentionsText :: "string \<Rightarrow> string \<Rightarrow> bool" where
  "mentionsText w s = mentions (map lowerAscii w) (map lowerAscii s)"

text \<open>\<open>/INVALID OPERATION|timed out|timeout/i\<close> and \<open>/verify failed/i\<close>.\<close>

fun isRefusal :: "boot_error \<Rightarrow> bool" where
  "isRefusal (Rejected m) =
     (mentionsText ''INVALID OPERATION'' m \<or> mentionsText ''timed out'' m \<or> mentionsText ''timeout'' m)"
| "isRefusal e = (e = Invalid_operation \<or> e = Erase_invalid \<or> e = Erase_timeout \<or> e = Extf_timeout)"

fun isVerifyFailure :: "boot_error \<Rightarrow> bool" where
  "isVerifyFailure (Rejected m) = mentionsText ''verify failed'' m"
| "isVerifyFailure (Crc_mismatch e r) = True"
| "isVerifyFailure (Extf_crc_mismatch e r) = True"
| "isVerifyFailure (Verify_mismatch i e r) = True"
| "isVerifyFailure _ = False"

subsection \<open>Handshakes\<close>

definition getSync :: "serial \<Rightarrow> nat \<Rightarrow> unit boot" where
  "getSync io timeoutMs =
     bind_io (readBytes io 1 timeoutMs) (\<lambda>reply.
     if reply ! 0 \<noteq> INSYNC then throw_io (Bad_insync (reply ! 0))
     else bind_io (readBytes io 1 timeoutMs) (\<lambda>status.
     if status ! 0 = INVALID then throw_io Invalid_operation
     else if status ! 0 = FAILED then throw_io Operation_failed
     else if status ! 0 = BAD_SILICON_REV then throw_io Bad_silicon
     else if status ! 0 \<noteq> OK then throw_io (Bad_ok (status ! 0))
     else return_io ()))"

definition sync :: "serial \<Rightarrow> nat \<Rightarrow> unit boot" where
  "sync io timeoutMs =
     then_io (flushInput io) (then_io (writeBytes io [GET_SYNC, EOC]) (getSync io timeoutMs))"

definition getInfo :: "serial \<Rightarrow> byte \<Rightarrow> nat boot" where
  "getInfo io param =
     then_io (flushInput io)
    (then_io (writeBytes io [GET_DEVICE, param, EOC])
    (bind_io (readBytes io 4 SYNC_TIMEOUT_MS) (\<lambda>raw.
     then_io (getSync io SYNC_TIMEOUT_MS)
    (return_io (fromLe32 raw)))))"

definition trySync :: "serial \<Rightarrow> bool boot" where
  "trySync io =
     bind_io (try_io (readBytes io 1 1000)) (\<lambda>r. case r of
       Inl _ \<Rightarrow> return_io False
     | Inr reply \<Rightarrow>
         if reply ! 0 \<noteq> INSYNC then return_io False
         else bind_io (try_io (readBytes io 1 1000)) (\<lambda>r. case r of
           Inl _ \<Rightarrow> return_io False
         | Inr status \<Rightarrow>
             if status ! 0 = BAD_SILICON_REV then throw_io Bad_silicon
             else if status ! 0 = INVALID then throw_io Erase_invalid
             else if status ! 0 = FAILED then throw_io Erase_failed
             else return_io (status ! 0 = OK)))"

subsection \<open>Polling loops\<close>

partial_function (option) eraseLoop ::
  "serial \<Rightarrow> bool \<Rightarrow> int \<Rightarrow> history \<Rightarrow> ((boot_error + unit) \<times> history) option" where
  "eraseLoop io progress deadline h =
     bind_io (dateNow io) (\<lambda>t h. if \<not> t < deadline then throw_io Erase_timeout h
       else bind_io (if progress then then_io (dateNow io) (report progress Erase) else return_io ()) (\<lambda>_.
            bind_io (trySync io) (\<lambda>synced h. if synced then report progress Erase h
              else eraseLoop io progress deadline h)) h) h"

definition erase :: "serial \<Rightarrow> bool \<Rightarrow> int option \<Rightarrow> unit boot" where
  "erase io progress flashSize =
     then_io (writeBytes io [CHIP_ERASE, EOC])
    (bind_io (dateNow io) (\<lambda>t. eraseLoop io progress (t + chipEraseTimeoutMs flashSize)))"

partial_function (option) drainLoop ::
  "serial \<Rightarrow> nat \<Rightarrow> int \<Rightarrow> history \<Rightarrow> ((boot_error + unit) \<times> history) option" where
  "drainLoop io silenceMs deadline h =
     bind_io (dateNow io) (\<lambda>t h. if \<not> t < deadline then return_io () h
       else bind_io (flushInput io) (\<lambda>_.
            bind_io (try_io (readBytes io 1 silenceMs)) (\<lambda>r h. if isl r then return_io () h
              else drainLoop io silenceMs deadline h)) h) h"

definition drainInput :: "serial \<Rightarrow> unit boot" where
  "drainInput io =
     bind_io (dateNow io) (\<lambda>t. drainLoop io CHUNK_RESYNC_SILENCE_MS (t + CHUNK_RESYNC_MAX_MS))"

definition settle :: "serial \<Rightarrow> unit boot" where
  "settle io = then_io (drainInput io) (sync io SYNC_TIMEOUT_MS)"

subsection \<open>Identification\<close>

record board_identity =
  bootloaderRevision :: nat
  boardId :: nat
  boardRevision :: nat
  boardFlashSize :: nat
  bootloaderVersion :: "js_text option"

definition stripNuls :: "js_text \<Rightarrow> js_text" where
  "stripNuls s = rev (dropWhile (\<lambda>c. c = 0) (rev s))"

definition getVersion :: "serial \<Rightarrow> js_text option boot" where
  "getVersion io =
     catch_io
      (then_io (flushInput io)
      (then_io (writeBytes io [GET_VERSION, EOC])
      (bind_io (readBytes io 1 VERSION_TIMEOUT_MS) (\<lambda>first.
       if first ! 0 = INSYNC then
         then_io (readBytes io 1 VERSION_TIMEOUT_MS) (return_io None)
       else
         bind_io (readBytes io 3 VERSION_TIMEOUT_MS) (\<lambda>rest.
         let n = fromLe32 (first ! 0 # rest)
         in if n = 0 \<or> n > MAX_VERSION_LENGTH then then_io (settle io) (return_io None)
            else bind_io (readBytes io n VERSION_TIMEOUT_MS) (\<lambda>raw.
                 then_io (getSync io SYNC_TIMEOUT_MS)
                (let text = jsTrim (stripNuls (decodeUtf8 raw))
                 in return_io (if text = [] then None else Some text))))))))
      (\<lambda>_. then_io (try_io (settle io)) (return_io None))"

definition identify :: "serial \<Rightarrow> nat \<Rightarrow> board_identity boot" where
  "identify io syncTimeoutMs =
     then_io (sync io syncTimeoutMs)
    (bind_io (getInfo io INFO_BL_REV) (\<lambda>blRev.
     if blRev < BL_REV_MIN \<or> BL_REV_MAX < blRev then throw_io (Unsupported_revision blRev)
     else bind_io (getInfo io INFO_BOARD_ID) (\<lambda>board.
          bind_io (getInfo io INFO_BOARD_REV) (\<lambda>boardRev.
          bind_io (getInfo io INFO_FLASH_SIZE) (\<lambda>flash.
          bind_io (getVersion io) (\<lambda>version.
          return_io \<lparr>bootloaderRevision = blRev, boardId = board, boardRevision = boardRev,
            boardFlashSize = flash, bootloaderVersion = version\<rparr>))))))"

subsection \<open>Outcomes of the primitives\<close>

definition flushEvents :: "serial \<Rightarrow> history" where
  "flushEvents io = (case flushes io of None \<Rightarrow> [] | Some _ \<Rightarrow> [Flushed])"

definition reportEvents :: "bool \<Rightarrow> flash_phase \<Rightarrow> history" where
  "reportEvents progress phase = (if progress then [Reported phase] else [])"

lemma writeBytes_Inr [io_simps]:
  "writeBytes io bs h = Some (Inr u, h') \<longleftrightarrow> writes io h bs = None \<and> h' = h @ [Wrote bs]"
  by (auto simp: writeBytes_def split: option.splits)

lemma readBytes_Inr [io_simps]:
  "readBytes io n t h = Some (Inr bs, h') \<longleftrightarrow>
     (\<exists>f. reads io h n t = Inr f \<and> bs = map f [0..<n] \<and> h' = h @ [Got bs])"
  by (auto simp: readBytes_def split: sum.splits)

lemma flushInput_Inr [io_simps]:
  "flushInput io h = Some (Inr u, h') \<longleftrightarrow>
     (\<forall>f. flushes io = Some f \<longrightarrow> f h = None) \<and> h' = h @ flushEvents io"
  by (auto simp: flushInput_def flushEvents_def split: option.splits)

lemma report_Some [io_simps]:
  "report p phase h = Some (r, h') \<longleftrightarrow> r = Inr () \<and> h' = h @ reportEvents p phase"
  by (auto simp: report_def reportEvents_def)

lemma dateNow_Some [io_simps]:
  "dateNow io h = Some (r, h') \<longleftrightarrow> r = Inr (clock io h) \<and> h' = h @ [Asked_time]"
  by (auto simp: dateNow_def)

subsection \<open>What any method keeps\<close>

text \<open>
  An invariant of the history that survives every event that is not a write (\<open>steady\<close>), and
  the writes it allows. Every method keeps it when it allows the frames the method sends.
\<close>

definition quiet :: "io_event \<Rightarrow> bool" where
  "quiet ev \<longleftrightarrow> (case ev of Wrote _ \<Rightarrow> False | Write_failed _ \<Rightarrow> False | _ \<Rightarrow> True)"

definition steady :: "(history \<Rightarrow> bool) \<Rightarrow> bool" where
  "steady I \<longleftrightarrow> (\<forall>h ev. I h \<longrightarrow> quiet ev \<longrightarrow> I (h @ [ev]))"

definition allows :: "(history \<Rightarrow> bool) \<Rightarrow> bytes \<Rightarrow> bool" where
  "allows I bs \<longleftrightarrow> (\<forall>h. I h \<longrightarrow> I (h @ [Wrote bs]) \<and> I (h @ [Write_failed bs]))"

lemma steadyD: "steady I \<Longrightarrow> I h \<Longrightarrow> quiet ev \<Longrightarrow> I (h @ [ev])"
  by (simp add: steady_def)

lemma keeps_readBytes [keeps_rules]: "steady I \<Longrightarrow> keeps I (readBytes io n t)"
  by (auto simp: keeps_def readBytes_def quiet_def split: sum.splits intro!: steadyD [of I])

lemma keeps_writeBytes [keeps_rules]: "allows I bs \<Longrightarrow> keeps I (writeBytes io bs)"
  by (auto simp: keeps_def writeBytes_def allows_def split: option.splits)

lemma keeps_flushInput [keeps_rules]: "steady I \<Longrightarrow> keeps I (flushInput io)"
  by (auto simp: keeps_def flushInput_def quiet_def split: option.splits intro!: steadyD [of I])

lemma keeps_dateNow [keeps_rules]: "steady I \<Longrightarrow> keeps I (dateNow io)"
  by (auto simp: keeps_def dateNow_def quiet_def intro!: steadyD [of I])

lemma keeps_report [keeps_rules]: "steady I \<Longrightarrow> keeps I (report p phase)"
  by (auto simp: keeps_def report_def quiet_def intro!: steadyD [of I])

lemma keeps_getSync [keeps_rules]: "steady I \<Longrightarrow> keeps I (getSync io t)"
  unfolding getSync_def by (intro keeps_rules)

lemma keeps_sync [keeps_rules]: "steady I \<Longrightarrow> allows I [GET_SYNC, EOC] \<Longrightarrow> keeps I (sync io t)"
  unfolding sync_def by (intro keeps_rules)

lemma keeps_trySync [keeps_rules]: "steady I \<Longrightarrow> keeps I (trySync io)"
  unfolding trySync_def by (intro keeps_rules)

lemma keeps_lambda_if:
  "(b \<Longrightarrow> keeps I m) \<Longrightarrow> (\<not> b \<Longrightarrow> keeps I n) \<Longrightarrow> keeps I (\<lambda>h. if b then m h else n h)"
  by (cases b) simp_all

lemma keeps_eraseLoop [keeps_rules]:
  assumes "steady I"
  shows "keeps I (eraseLoop io p d)"
proof -
  have "I h \<longrightarrow> I (snd y)" if "eraseLoop io p d h = Some y" for h y
  proof (rule eraseLoop.raw_induct [where P = "\<lambda>_ _ _ h y. I h \<longrightarrow> I (snd y)", OF _ that])
    fix f :: "serial \<Rightarrow> bool \<Rightarrow> int \<Rightarrow> unit boot" and io p d h y
    assume IH: "\<And>io p d h y. f io p d h = Some y \<Longrightarrow> I h \<longrightarrow> I (snd y)"
    have rec: "keeps I (\<lambda>h. f io p d h)" unfolding keeps_def by (auto dest: IH)
    have "keeps I (bind_io (dateNow io) (\<lambda>t h. if \<not> t < d then throw_io Erase_timeout h
       else bind_io (if p then then_io (dateNow io) (report p Erase) else return_io ()) (\<lambda>_.
            bind_io (trySync io) (\<lambda>synced h. if synced then report p Erase h
              else f io p d h)) h))"
      by (intro keeps_rules keeps_lambda_if assms rec)
    moreover assume "bind_io (dateNow io) (\<lambda>t h. if \<not> t < d then throw_io Erase_timeout h
       else bind_io (if p then then_io (dateNow io) (report p Erase) else return_io ()) (\<lambda>_.
            bind_io (trySync io) (\<lambda>synced h. if synced then report p Erase h
              else f io p d h)) h) h = Some y"
    ultimately show "I h \<longrightarrow> I (snd y)" by (cases y) (auto dest: keepsD)
  qed
  then show ?thesis by (fastforce simp: keeps_def)
qed

lemma keeps_drainLoop [keeps_rules]:
  assumes "steady I"
  shows "keeps I (drainLoop io s d)"
proof -
  have "I h \<longrightarrow> I (snd y)" if "drainLoop io s d h = Some y" for h y
  proof (rule drainLoop.raw_induct [where P = "\<lambda>_ _ _ h y. I h \<longrightarrow> I (snd y)", OF _ that])
    fix f :: "serial \<Rightarrow> nat \<Rightarrow> int \<Rightarrow> unit boot" and io s d h y
    assume IH: "\<And>io s d h y. f io s d h = Some y \<Longrightarrow> I h \<longrightarrow> I (snd y)"
    have rec: "keeps I (\<lambda>h. f io s d h)" unfolding keeps_def by (auto dest: IH)
    have "keeps I (bind_io (dateNow io) (\<lambda>t h. if \<not> t < d then return_io () h
       else bind_io (flushInput io) (\<lambda>_.
            bind_io (try_io (readBytes io 1 s)) (\<lambda>r h. if isl r then return_io () h
              else f io s d h)) h))"
      by (intro keeps_rules keeps_lambda_if assms rec)
    moreover assume "bind_io (dateNow io) (\<lambda>t h. if \<not> t < d then return_io () h
       else bind_io (flushInput io) (\<lambda>_.
            bind_io (try_io (readBytes io 1 s)) (\<lambda>r h. if isl r then return_io () h
              else f io s d h)) h) h = Some y"
    ultimately show "I h \<longrightarrow> I (snd y)" by (cases y) (auto dest: keepsD)
  qed
  then show ?thesis by (fastforce simp: keeps_def)
qed

lemma keeps_erase [keeps_rules]:
  "steady I \<Longrightarrow> allows I [CHIP_ERASE, EOC] \<Longrightarrow> keeps I (erase io p n)"
  unfolding erase_def by (intro keeps_rules)

lemma keeps_drainInput [keeps_rules]: "steady I \<Longrightarrow> keeps I (drainInput io)"
  unfolding drainInput_def by (intro keeps_rules)

lemma keeps_settle [keeps_rules]: "steady I \<Longrightarrow> allows I [GET_SYNC, EOC] \<Longrightarrow> keeps I (settle io)"
  unfolding settle_def by (intro keeps_rules)

lemma keeps_getInfo [keeps_rules]:
  "steady I \<Longrightarrow> allows I [GET_DEVICE, param, EOC] \<Longrightarrow> keeps I (getInfo io param)"
  unfolding getInfo_def by (intro keeps_rules)

lemma keeps_getVersion [keeps_rules]:
  "steady I \<Longrightarrow> allows I [GET_SYNC, EOC] \<Longrightarrow> allows I [GET_VERSION, EOC] \<Longrightarrow> keeps I (getVersion io)"
  unfolding getVersion_def Let_def by (intro keeps_rules)

lemma keeps_identify [keeps_rules]:
  "steady I \<Longrightarrow> allows I [GET_SYNC, EOC] \<Longrightarrow> allows I [GET_VERSION, EOC] \<Longrightarrow>
   (\<And>param. allows I [GET_DEVICE, param, EOC]) \<Longrightarrow> keeps I (identify io t)"
  unfolding identify_def by (intro keeps_rules)

subsection \<open>Termination\<close>

text \<open>
  The clock moves: there is a bound on how many interactions fit into a millisecond. That is
  all the polling loops need.
\<close>

definition ticking :: "serial \<Rightarrow> bool" where
  "ticking io \<longleftrightarrow> (\<exists>K>0. \<exists>c. \<forall>h. int (length h) \<le> K * (clock io h + c))"

lemma returns_readBytes [returns_rules]: "returns (readBytes io n t)"
  by (simp add: returns_def readBytes_def split: sum.splits)

lemma returns_writeBytes [returns_rules]: "returns (writeBytes io bs)"
  by (simp add: returns_def writeBytes_def split: option.splits)

lemma returns_flushInput [returns_rules]: "returns (flushInput io)"
  by (simp add: returns_def flushInput_def split: option.splits)

lemma returns_dateNow [returns_rules]: "returns (dateNow io)"
  by (simp add: returns_def dateNow_def)

lemma returns_report [returns_rules]: "returns (report p phase)"
  by (simp add: returns_def report_def)

lemma returns_getSync [returns_rules]: "returns (getSync io t)"
  unfolding getSync_def by (intro returns_rules)

lemma returns_sync [returns_rules]: "returns (sync io t)"
  unfolding sync_def by (intro returns_rules)

lemma returns_trySync [returns_rules]: "returns (trySync io)"
  unfolding trySync_def by (intro returns_rules)

lemma returns_getInfo [returns_rules]: "returns (getInfo io param)"
  unfolding getInfo_def by (intro returns_rules)

lemma steady_longer: "steady (\<lambda>h. n \<le> length h)"
  by (simp add: steady_def)

lemma grows: "keeps (\<lambda>h. length g \<le> length h) m \<Longrightarrow> m g = Some (r, h') \<Longrightarrow> length g \<le> length h'"
  using keepsD [of "\<lambda>h. length g \<le> length h" m g r h'] by simp

text \<open>One turn of a polling loop that comes back makes the history longer.\<close>

lemma polling_returns:
  assumes "ticking io"
    and turn: "\<And>h. loop h = None \<Longrightarrow> clock io h < d \<and> (\<exists>h'. length h < length h' \<and> loop h' = None)"
  shows "loop h \<noteq> None"
proof (rule clock_ticks_polling [where len = length and now = "clock io" and d = d])
  show "clock_ticks length (clock io)" using assms(1) by (simp add: clock_ticks_def ticking_def)
next
  fix h assume "loop h = None"
  from turn [OF this] show "clock io h \<le> d \<and> (\<exists>h'. length h < length h' \<and> loop h' = None)"
    by (elim conjE) (intro conjI less_imp_le)
qed

lemma returns_eraseLoop [returns_rules]:
  assumes "ticking io"
  shows "returns (eraseLoop io p d)"
  unfolding returns_def
proof (rule allI, rule polling_returns [OF assms])
  fix h assume none: "eraseLoop io p d h = None"
  let ?r = "if p then then_io (dateNow io) (report p Erase) else return_io ()"
  have rr: "returns ?r" by (intro returns_rules)
  have kr: "keeps (\<lambda>h. n \<le> length h) ?r" for n by (intro keeps_rules steady_longer)
  have kt: "keeps (\<lambda>h. n \<le> length h) (trySync io)" for n by (intro keeps_rules steady_longer)
  from none [unfolded eraseLoop.simps [of io p d h]] obtain h1 h2 where h: "clock io h < d" "?r (h @ [Asked_time]) = Some (Inr (), h1)"
    "trySync io h1 = Some (Inr False, h2)" "eraseLoop io p d h2 = None"
    by (auto simp del: One_nat_def not_None_eq split_paired_All simp: bind_io_None io_simps dateNow_def throw_io_def report_def
        returns_not_None [OF rr] returns_not_None [OF returns_trySync] split: if_splits)
  show "clock io h < d \<and> (\<exists>h'. length h < length h' \<and> eraseLoop io p d h' = None)"
    using h grows [OF kr h(2)] grows [OF kt h(3)] by (auto intro!: exI [of _ h2])
qed

lemma returns_drainLoop [returns_rules]:
  assumes "ticking io"
  shows "returns (drainLoop io s d)"
  unfolding returns_def
proof (rule allI, rule polling_returns [OF assms])
  fix h assume none: "drainLoop io s d h = None"
  have kf: "keeps (\<lambda>h. n \<le> length h) (flushInput io)" for n by (intro keeps_rules steady_longer)
  have kt: "keeps (\<lambda>h. n \<le> length h) (try_io (readBytes io 1 s))" for n by (intro keeps_rules steady_longer)
  have rt: "returns (try_io (readBytes io 1 s))" by (intro returns_rules)
  from none [unfolded drainLoop.simps [of io s d h]] obtain h1 r h2 where h: "clock io h < d" "flushInput io (h @ [Asked_time]) = Some (Inr (), h1)"
    "try_io (readBytes io 1 s) h1 = Some (Inr r, h2)" "drainLoop io s d h2 = None"
    by (auto simp del: One_nat_def not_None_eq split_paired_All simp: bind_io_None dateNow_def return_io_def
        returns_not_None [OF returns_flushInput] returns_not_None [OF rt] split: if_splits)
  show "clock io h < d \<and> (\<exists>h'. length h < length h' \<and> drainLoop io s d h' = None)"
    using h grows [OF kf h(2)] grows [OF kt h(3)] by (auto intro!: exI [of _ h2])
qed

lemma returns_erase [returns_rules]: "ticking io \<Longrightarrow> returns (erase io p n)"
  unfolding erase_def by (intro returns_rules)

lemma returns_drainInput [returns_rules]: "ticking io \<Longrightarrow> returns (drainInput io)"
  unfolding drainInput_def by (intro returns_rules)

lemma returns_settle [returns_rules]: "ticking io \<Longrightarrow> returns (settle io)"
  unfolding settle_def by (intro returns_rules)

lemma returns_getVersion [returns_rules]: "ticking io \<Longrightarrow> returns (getVersion io)"
  unfolding getVersion_def Let_def by (intro returns_rules)

lemma returns_identify [returns_rules]: "ticking io \<Longrightarrow> returns (identify io t)"
  unfolding identify_def by (intro returns_rules)

subsection \<open>Words on the wire\<close>

lemma int_fromLe32:
  "int (fromLe32 raw) = uint (raw ! 0) + uint (raw ! 1) * 2 ^ 8 + uint (raw ! 2) * 2 ^ 16 + uint (raw ! 3) * 2 ^ 24"
  by (simp add: fromLe32_def)

lemma le32_nth:
  "le32 v ! 0 = word_of_int v" "le32 v ! 1 = word_of_int (v div 2 ^ 8)"
  "le32 v ! 2 = word_of_int (v div 2 ^ 16)" "le32 v ! 3 = word_of_int (v div 2 ^ 24)"
  by (simp_all add: le32_def)

lemma mod_le32:
  "(v :: int) mod 256 + v div 2 ^ 8 mod 256 * 2 ^ 8 + v div 2 ^ 16 mod 256 * 2 ^ 16
    + v div 2 ^ 24 mod 256 * 2 ^ 24 = v mod 2 ^ 32"
proof -
  have a: "v mod (256 * 16777216) = 256 * (v div 256 mod 16777216) + v mod 256"
    by (rule zmod_zmult2_eq) simp
  have b: "v div 256 mod (256 * 65536) = 256 * (v div 256 div 256 mod 65536) + v div 256 mod 256"
    by (rule zmod_zmult2_eq) simp
  have c: "v div 256 div 256 mod (256 * 256) = 256 * (v div 256 div 256 div 256 mod 256) + v div 256 div 256 mod 256"
    by (rule zmod_zmult2_eq) simp
  have d: "v div 256 div 256 = v div 65536" "v div 65536 div 256 = v div 16777216"
    by (simp_all add: zdiv_zmult2_eq [symmetric])
  have p: "(2 :: int) ^ 8 = 256" "(2 :: int) ^ 16 = 65536" "(2 :: int) ^ 24 = 16777216" "(2 :: int) ^ 32 = 256 * 16777216"
    by simp_all
  have "v div 256 mod 16777216 = 256 * (v div 65536 mod 65536) + v div 256 mod 256"
    using b unfolding d by simp
  moreover have "v div 65536 mod 65536 = 256 * (v div 16777216 mod 256) + v div 65536 mod 256"
    using c unfolding d by simp
  ultimately show ?thesis unfolding p a by linarith
qed

lemma fromLe32_le32_mod: "int (fromLe32 (le32 v)) = v mod 2 ^ 32"
  by (simp only: int_fromLe32 le32_nth uint_word_of_int_byte mod_le32)

lemma fromLe32_le32: "0 \<le> v \<Longrightarrow> v < 2 ^ 32 \<Longrightarrow> int (fromLe32 (le32 v)) = v"
  by (simp only: fromLe32_le32_mod mod_pos_pos_trivial)

lemma length_le32 [simp]: "length (le32 v) = 4"
  by (simp add: le32_def)

end
