(* ===== verification/Bootloader_Flash.thy ===== *)
theory Bootloader_Flash
  imports Bootloader
begin

text \<open>
  \<open>firmware-flash/src/bootloader.ts\<close>, continued: programming, verification, external flash and
  \<open>flash\<close> itself, with what a successful \<open>flash\<close> guarantees, what it never sends, and that it
  always returns when the clock advances.
\<close>

subsection \<open>Programming\<close>

definition chunkFrame :: "byte \<Rightarrow> bytes \<Rightarrow> bytes" where
  "chunkFrame command chunk = command # of_nat (length chunk) # chunk @ [EOC]"

definition programChunk :: "serial \<Rightarrow> byte \<Rightarrow> bytes \<Rightarrow> unit boot" where
  "programChunk io command chunk =
     (let frame = chunkFrame command chunk
      in then_io (flushInput io)
        (then_io (writeBytes io frame)
        (catch_io (getSync io SYNC_TIMEOUT_MS) (\<lambda>e.
           if \<not> isRefusal e then throw_io e
           else then_io (writeBytes io CHUNK_RESYNC_FILLER)
               (then_io (drainInput io)
               (then_io (sync io SYNC_TIMEOUT_MS)
               (then_io (writeBytes io frame)
               (catch_io (getSync io SYNC_TIMEOUT_MS) (\<lambda>_. throw_io e)))))))))"

text \<open>The loops over \<open>offset\<close> visit these chunks in order.\<close>

function chunksOf :: "nat \<Rightarrow> bytes \<Rightarrow> bytes list" where
  "chunksOf n bs = (if bs = [] \<or> n = 0 then [] else take n bs # chunksOf n (drop n bs))"
  by pat_completeness auto
termination by (relation "measure (\<lambda>(n, bs). length bs)") (auto simp: neq_Nil_conv)

declare chunksOf.simps [simp del]

fun programChunks :: "serial \<Rightarrow> byte \<Rightarrow> bool \<Rightarrow> flash_phase \<Rightarrow> bytes list \<Rightarrow> unit boot" where
  "programChunks io command progress phase [] = return_io ()"
| "programChunks io command progress phase (c # cs) =
     then_io (programChunk io command c)
    (then_io (report progress phase) (programChunks io command progress phase cs))"

definition program :: "serial \<Rightarrow> bytes \<Rightarrow> bool \<Rightarrow> unit boot" where
  "program io alignedImage progress =
     (if length alignedImage mod 4 \<noteq> 0 then throw_io Not_aligned
      else programChunks io PROG_MULTI progress Program (chunksOf PROG_MULTI_MAX alignedImage))"

definition programExtflash :: "serial \<Rightarrow> bytes \<Rightarrow> bool \<Rightarrow> unit boot" where
  "programExtflash io extfImage progress =
     (if length extfImage mod 4 \<noteq> 0 then throw_io Not_aligned
      else programChunks io EXTF_PROG_MULTI progress Extf_program (chunksOf PROG_MULTI_MAX extfImage))"

subsection \<open>Verification\<close>

definition queryCrc :: "serial \<Rightarrow> nat boot" where
  "queryCrc io =
     then_io (flushInput io)
    (then_io (writeBytes io [GET_CRC, EOC])
    (bind_io (readBytes io 4 SYNC_TIMEOUT_MS) (\<lambda>raw.
     then_io (getSync io SYNC_TIMEOUT_MS) (return_io (fromLe32 raw)))))"

definition verify :: "serial \<Rightarrow> bytes \<Rightarrow> nat \<Rightarrow> bool \<Rightarrow> unit boot" where
  "verify io alignedImage flashSize progress =
     then_io (report progress Verify)
     (case firmwareCrc alignedImage flashSize of
        None \<Rightarrow> throw_io Not_aligned
      | Some expected \<Rightarrow>
          bind_io (queryCrc io) (\<lambda>reported.
          if reported \<noteq> unat expected then throw_io (Crc_mismatch expected reported)
          else report progress Verify))"

definition reboot :: "serial \<Rightarrow> unit boot" where
  "reboot io = writeBytes io [REBOOT, EOC]"

definition currentMatches :: "serial \<Rightarrow> bytes \<Rightarrow> nat \<Rightarrow> bool boot" where
  "currentMatches io alignedImage flashSize =
     (case firmwareCrc alignedImage flashSize of
        None \<Rightarrow> throw_io Not_aligned
      | Some expected \<Rightarrow>
          bind_io (queryCrc io) (\<lambda>reported. return_io (reported = unat expected)))"

fun firstMismatch :: "nat \<Rightarrow> bytes \<Rightarrow> bytes \<Rightarrow> (nat \<times> byte \<times> byte) option" where
  "firstMismatch offset (e # es) (g # gs) =
     (if g \<noteq> e then Some (offset, e, g) else firstMismatch (Suc offset) es gs)"
| "firstMismatch offset _ _ = None"

fun readbackChunks :: "serial \<Rightarrow> bool \<Rightarrow> nat \<Rightarrow> bytes list \<Rightarrow> unit boot" where
  "readbackChunks io progress offset [] = return_io ()"
| "readbackChunks io progress offset (expected # cs) =
     then_io (flushInput io)
    (then_io (writeBytes io [READ_MULTI])
    (then_io (writeBytes io [of_nat (length expected)])
    (then_io (writeBytes io [EOC])
    (bind_io (readBytes io (length expected) SYNC_TIMEOUT_MS) (\<lambda>got.
     then_io (getSync io SYNC_TIMEOUT_MS)
    (case firstMismatch offset expected got of
       Some (i, e, g) \<Rightarrow> throw_io (Verify_mismatch i e g)
     | None \<Rightarrow>
         then_io (report progress Verify)
           (readbackChunks io progress (offset + length expected) cs)))))))"

definition verifyByReadback :: "serial \<Rightarrow> bytes \<Rightarrow> bool \<Rightarrow> unit boot" where
  "verifyByReadback io alignedImage progress =
     (if length alignedImage mod 4 \<noteq> 0 then throw_io Not_aligned
      else then_io (report progress Verify)
          (then_io (flushInput io)
          (then_io (writeBytes io [CHIP_VERIFY])
          (then_io (writeBytes io [EOC])
          (then_io (getSync io SYNC_TIMEOUT_MS)
             (readbackChunks io progress 0 (chunksOf READ_MULTI_MAX alignedImage)))))))"

subsection \<open>External flash\<close>

partial_function (option) extfEraseLoop ::
  "serial \<Rightarrow> bool \<Rightarrow> int \<Rightarrow> byte \<Rightarrow> history \<Rightarrow> ((boot_error + unit) \<times> history) option" where
  "extfEraseLoop io progress deadline lastPct h =
     bind_io (dateNow io) (\<lambda>t h.
       if \<not> t < deadline then throw_io Extf_timeout h
       else if lastPct < 90 then
         bind_io (try_io (readBytes io 1 EXTF_ERASE_PCT_READ_TIMEOUT_MS)) (\<lambda>r h. case r of
             Inl _ \<Rightarrow> extfEraseLoop io progress deadline lastPct h
           | Inr pct \<Rightarrow>
               bind_io (if pct ! 0 \<noteq> lastPct then report progress Extf_erase else return_io ()) (\<lambda>_ h.
                 extfEraseLoop io progress deadline (pct ! 0) h) h) h
       else bind_io (trySync io) (\<lambda>synced h.
           if synced then report progress Extf_erase h
           else extfEraseLoop io progress deadline lastPct h) h) h"

definition eraseExtflash :: "serial \<Rightarrow> nat \<Rightarrow> bool \<Rightarrow> unit boot" where
  "eraseExtflash io sizeBytes progress =
     (if sizeBytes = 0 \<or> sizeBytes mod 4 \<noteq> 0 then throw_io Bad_extf_size
      else then_io (flushInput io)
          (then_io (writeBytes io [EXTF_ERASE])
          (then_io (writeBytes io (le32 (int sizeBytes)))
          (then_io (writeBytes io [EOC])
          (then_io (getSync io SYNC_TIMEOUT_MS)
          (bind_io (dateNow io) (\<lambda>t.
             extfEraseLoop io progress (t + EXTF_ERASE_TOTAL_TIMEOUT_MS) 0)))))))"

definition verifyExtflash :: "serial \<Rightarrow> bytes \<Rightarrow> bool \<Rightarrow> unit boot" where
  "verifyExtflash io extfImage progress =
     then_io (report progress Extf_verify)
    (then_io (flushInput io)
    (then_io (writeBytes io [EXTF_GET_CRC])
    (then_io (writeBytes io (le32 (int (length extfImage))))
    (then_io (writeBytes io [EOC])
    (bind_io (readBytes io 4 EXTF_VERIFY_TIMEOUT_MS) (\<lambda>raw.
     then_io (getSync io SYNC_TIMEOUT_MS)
    (if fromLe32 raw \<noteq> unat (arduPilotCrc32 extfImage 0)
     then throw_io (Extf_crc_mismatch (arduPilotCrc32 extfImage 0) (fromLe32 raw))
     else report progress Extf_verify)))))))"

subsection \<open>flash\<close>

definition flashExternal :: "serial \<Rightarrow> bool \<Rightarrow> bytes option \<Rightarrow> unit boot" where
  "flashExternal io progress extf =
     (case extf of
        None \<Rightarrow> return_io ()
      | Some img \<Rightarrow>
          if img = [] then return_io ()
          else then_io (eraseExtflash io (length img) progress)
              (then_io (programExtflash io img progress) (verifyExtflash io img progress)))"

definition runVerify :: "serial \<Rightarrow> bytes \<Rightarrow> nat \<Rightarrow> bool \<Rightarrow> int option \<Rightarrow> unit boot" where
  "runVerify io img flashSize progress blRev =
     (if blRev = Some BL_REV_READBACK_VERIFY then verifyByReadback io img progress
      else verify io img flashSize progress)"

definition eraseProgram :: "serial \<Rightarrow> bytes \<Rightarrow> nat \<Rightarrow> bool \<Rightarrow> unit boot" where
  "eraseProgram io img flashSize progress =
     then_io (erase io progress (Some (int flashSize))) (program io img progress)"

text \<open>The two guards before the first byte is sent; \<open>boardMatch\<close> is the optional pair of ids.\<close>

definition flashGuard :: "(int \<times> int) option \<Rightarrow> nat \<Rightarrow> nat \<Rightarrow> guard_text option" where
  "flashGuard boardMatch imageBytes flashSize =
     (let fits = checkImageFitsFlash imageBytes (int flashSize);
          fitting = (if \<not> ok fits then reason fits else None)
      in case boardMatch of
           None \<Rightarrow> fitting
         | Some (fw, board) \<Rightarrow>
             (let matched = checkBoardMatch fw board None None
              in if \<not> ok matched then reason matched else fitting))"

definition flash ::
  "serial \<Rightarrow> bytes \<Rightarrow> nat \<Rightarrow> bool \<Rightarrow> bytes option \<Rightarrow> int option \<Rightarrow> (int \<times> int) option \<Rightarrow> unit boot" where
  "flash io img flashSize progress extf blRev boardMatch =
     (case flashGuard boardMatch (length img) flashSize of
        Some r \<Rightarrow> throw_io (Refused r)
      | None \<Rightarrow>
          then_io (flashExternal io progress extf)
         (then_io (eraseProgram io img flashSize progress)
         (then_io
            (catch_io (runVerify io img flashSize progress blRev) (\<lambda>e.
               if isVerifyFailure e
               then then_io (eraseProgram io img flashSize progress)
                      (runVerify io img flashSize progress blRev)
               else throw_io e))
            (catch_io (reboot io) (\<lambda>_. return_io ())))))"

subsection \<open>Traces of successful calls\<close>

definition ack :: history where
  "ack = [Got [INSYNC], Got [OK]]"

definition crcTrace :: "serial \<Rightarrow> bytes \<Rightarrow> history" where
  "crcTrace io raw = flushEvents io @ [Wrote [GET_CRC, EOC], Got raw] @ ack"

definition readbackTrace :: "serial \<Rightarrow> bool \<Rightarrow> bytes list \<Rightarrow> history" where
  "readbackTrace io progress cs = concat (map (\<lambda>c. flushEvents io
     @ [Wrote [READ_MULTI], Wrote [of_nat (length c)], Wrote [EOC], Got c] @ ack
     @ reportEvents progress Verify) cs)"

lemma getSync_Inr [io_simps]:
  "getSync io t h = Some (Inr u, h') \<Longrightarrow> h' = h @ ack"
  by (auto simp: getSync_def io_simps ack_def split: if_splits)

lemma queryCrc_Inr:
  assumes "queryCrc io h = Some (Inr n, h')"
  shows "\<exists>raw. length raw = 4 \<and> n = fromLe32 raw \<and> h' = h @ crcTrace io raw"
  using assms by (fastforce simp: queryCrc_def io_simps crcTrace_def dest!: getSync_Inr)

lemma verify_Inr:
  assumes "verify io img fs p h = Some (Inr u, h')"
  shows "\<exists>raw expected. length raw = 4 \<and> firmwareCrc img fs = Some expected \<and> fromLe32 raw = unat expected
    \<and> h' = h @ reportEvents p Verify @ crcTrace io raw @ reportEvents p Verify"
  using assms
  by (fastforce simp: verify_def io_simps split: option.splits if_splits dest!: queryCrc_Inr)

lemma firstMismatch_None:
  "length es = length gs \<Longrightarrow> firstMismatch k es gs = None \<longleftrightarrow> es = gs"
proof (induction es arbitrary: k gs)
  case (Cons e es)
  then show ?case by (cases gs) auto
qed simp

lemma readbackChunks_Inr:
  "readbackChunks io p off cs h = Some (Inr u, h') \<Longrightarrow> h' = h @ readbackTrace io p cs"
proof (induction cs arbitrary: off h)
  case Nil
  then show ?case by (simp add: io_simps readbackTrace_def)
next
  case (Cons c cs)
  from Cons.prems obtain f h1 where f: "h1 = h @ flushEvents io
       @ [Wrote [READ_MULTI], Wrote [of_nat (length c)], Wrote [EOC], Got (map f [0..<length c])] @ ack
       @ reportEvents p Verify"
    and eq: "firstMismatch off c (map f [0..<length c]) = None"
    and run: "readbackChunks io p (off + length c) cs h1 = Some (Inr u, h')"
    by (fastforce simp: io_simps split: option.splits dest!: getSync_Inr)
  have "map f [0..<length c] = c" using eq by (simp add: firstMismatch_None)
  then show ?case using Cons.IH [OF run] f by (simp add: readbackTrace_def)
qed

lemma concat_chunksOf: "0 < n \<Longrightarrow> concat (chunksOf n bs) = bs"
proof (induction n bs rule: chunksOf.induct)
  case (1 n bs)
  then show ?case by (subst chunksOf.simps) auto
qed

lemma chunksOf_length: "c \<in> set (chunksOf n bs) \<Longrightarrow> 0 < length c \<and> length c \<le> n"
proof (induction n bs rule: chunksOf.induct)
  case (1 n bs)
  show ?case
  proof (cases "bs = [] \<or> n = 0")
    case True
    then show ?thesis using 1(2) by (subst (asm) chunksOf.simps) simp
  next
    case False
    then have "chunksOf n bs = take n bs # chunksOf n (drop n bs)" by (subst chunksOf.simps) simp
    with 1 False show ?thesis by auto
  qed
qed

lemma chunksOf_aligned:
  "c \<in> set (chunksOf n bs) \<Longrightarrow> n mod 4 = 0 \<Longrightarrow> length bs mod 4 = 0 \<Longrightarrow> length c mod 4 = 0"
proof (induction n bs rule: chunksOf.induct)
  case (1 n bs)
  show ?case
  proof (cases "bs = [] \<or> n = 0")
    case True
    then show ?thesis using 1(2) by (subst (asm) chunksOf.simps) simp
  next
    case False
    then have e: "chunksOf n bs = take n bs # chunksOf n (drop n bs)" by (subst chunksOf.simps) simp
    have "length (take n bs) mod 4 = 0" using 1(3,4) by (cases "length bs \<le> n") auto
    moreover have "length (drop n bs) mod 4 = 0"
    proof (cases "length bs \<le> n")
      case False
      then show ?thesis using 1(3,4) by (metis dvd_diff_nat length_drop mod_0_imp_dvd dvd_imp_mod_0)
    qed simp
    ultimately show ?thesis using 1 False e by auto
  qed
qed

subsection \<open>What a successful flash has seen\<close>

text \<open>
  \<open>verified\<close>: the events of a passed verification. With \<open>GET_CRC\<close> the bootloader answered the
  checksum of the flash contents the image stands for; with the read-back it returned the
  image itself, chunk by chunk.
\<close>

definition verified :: "serial \<Rightarrow> bytes \<Rightarrow> nat \<Rightarrow> bool \<Rightarrow> int option \<Rightarrow> history \<Rightarrow> bool" where
  "verified io img flashSize progress blRev tr \<longleftrightarrow>
     length img mod 4 = 0 \<and>
     (if blRev = Some BL_REV_READBACK_VERIFY then
        tr = reportEvents progress Verify @ flushEvents io @ [Wrote [CHIP_VERIFY], Wrote [EOC]] @ ack
             @ readbackTrace io progress (chunksOf READ_MULTI_MAX img)
      else \<exists>raw. length raw = 4 \<and> firmwareCrc img flashSize = Some (of_nat (fromLe32 raw))
        \<and> tr = reportEvents progress Verify @ crcTrace io raw @ reportEvents progress Verify)"

lemma verifyByReadback_Inr:
  assumes "verifyByReadback io img p h = Some (Inr u, h')"
  shows "length img mod 4 = 0 \<and> h' = h @ reportEvents p Verify @ flushEvents io
    @ [Wrote [CHIP_VERIFY], Wrote [EOC]] @ ack @ readbackTrace io p (chunksOf READ_MULTI_MAX img)"
  using assms
  by (auto simp: verifyByReadback_def io_simps split: if_splits dest!: getSync_Inr readbackChunks_Inr)

lemma runVerify_Inr:
  assumes "runVerify io img fs p blRev h = Some (Inr u, h')"
  shows "\<exists>tr. verified io img fs p blRev tr \<and> h' = h @ tr"
proof (cases "blRev = Some BL_REV_READBACK_VERIFY")
  case True
  with assms have "verifyByReadback io img p h = Some (Inr u, h')" by (simp add: runVerify_def)
  from verifyByReadback_Inr [OF this] show ?thesis using True by (simp add: verified_def)
next
  case False
  with assms have "verify io img fs p h = Some (Inr u, h')" by (simp add: runVerify_def)
  from verify_Inr [OF this] obtain raw expected where r: "length raw = 4"
    "firmwareCrc img fs = Some expected" "fromLe32 raw = unat expected"
    "h' = h @ reportEvents p Verify @ crcTrace io raw @ reportEvents p Verify" by blast
  moreover have "length img mod 4 = 0" using r(2) by (simp add: firmwareCrc_def split: if_splits)
  ultimately show ?thesis using False by (auto simp: verified_def intro!: exI [of _ raw])
qed

definition rebootTail :: "history \<Rightarrow> bool" where
  "rebootTail tr \<longleftrightarrow> tr = [Wrote [REBOOT, EOC]] \<or> tr = [Write_failed [REBOOT, EOC]]"

lemma reboot_courtesy:
  assumes "catch_io (reboot io) (\<lambda>_. return_io ()) h = Some (r, h')"
  shows "\<exists>tr. rebootTail tr \<and> h' = h @ tr"
  using assms by (auto simp: reboot_def catch_io_def writeBytes_def return_io_def rebootTail_def
      split: option.splits sum.splits)

lemma flashGuard_None:
  assumes "flashGuard bm n fs = None"
  shows "n \<le> fs \<and> (\<forall>fw board. bm = Some (fw, board) \<longrightarrow> compatible fw board None None)"
proof -
  have fit: "ok (checkImageFitsFlash n (int fs)) \<or> reason (checkImageFitsFlash n (int fs)) \<noteq> None"
    by (simp add: checkImageFitsFlash_def)
  have "n \<le> fs" if "ok (checkImageFitsFlash n (int fs))"
    using that by (simp add: checkImageFitsFlash_def split: if_splits)
  moreover have "ok (checkImageFitsFlash n (int fs))"
    using assms fit by (auto simp: flashGuard_def Let_def checkBoardMatch_refusal split: option.splits if_splits)
  moreover have "compatible fw board None None" if "bm = Some (fw, board)" for fw board
    using assms that checkBoardMatch_refusal [of fw board None None]
    by (auto simp: flashGuard_def Let_def checkBoardMatch_ok [symmetric] split: if_splits)
  ultimately show ?thesis by blast
qed

lemma flash_Inr:
  assumes "flash io img fs p extf blRev bm h = Some (Inr u, h')"
  shows "length img \<le> fs \<and> (\<forall>fw board. bm = Some (fw, board) \<longrightarrow> compatible fw board None None)
    \<and> (\<exists>pre tr tail. h' = pre @ tr @ tail \<and> verified io img fs p blRev tr \<and> rebootTail tail)"
proof -
  have g: "flashGuard bm (length img) fs = None"
    using assms by (auto simp: flash_def throw_io_def split: option.splits)
  let ?retry = "\<lambda>e. if isVerifyFailure e then then_io (eraseProgram io img fs p)
      (runVerify io img fs p blRev) else throw_io e"
  obtain h1 h2 where
    v: "catch_io (runVerify io img fs p blRev) ?retry h1 = Some (Inr (), h2)"
    and b: "catch_io (reboot io) (\<lambda>_. return_io ()) h2 = Some (Inr u, h')"
    using assms unfolding flash_def g option.case by (simp only: then_io_Inr) auto
  have "\<exists>g tr. verified io img fs p blRev tr \<and> h2 = g @ tr"
    using v by (auto simp: catch_io_Inr then_io_Inr throw_io_simp split: if_splits dest!: runVerify_Inr)
  then show ?thesis using reboot_courtesy [OF b] flashGuard_None [OF g] by fastforce
qed

subsection \<open>Every frame on the wire\<close>

text \<open>The frames of the bootloader protocol that this client may send.\<close>

definition dataFrame :: "bytes \<Rightarrow> bool" where
  "dataFrame bs \<longleftrightarrow> (\<exists>c. bs = chunkFrame (hd bs) c \<and> (hd bs = PROG_MULTI \<or> hd bs = EXTF_PROG_MULTI)
     \<and> 0 < length c \<and> length c \<le> PROG_MULTI_MAX \<and> length c mod 4 = 0)"

definition legalWrite :: "bytes \<Rightarrow> bool" where
  "legalWrite bs \<longleftrightarrow> dataFrame bs \<or> bs = CHUNK_RESYNC_FILLER \<or> length bs \<le> 4"

definition sends :: "(bytes \<Rightarrow> bool) \<Rightarrow> history \<Rightarrow> bool" where
  "sends P h \<longleftrightarrow> (\<forall>bs. Wrote bs \<in> set h \<or> Write_failed bs \<in> set h \<longrightarrow> P bs)"

lemma steady_sends: "steady (sends P)"
  by (auto simp: steady_def sends_def quiet_def split: io_event.splits)

lemma allows_sends: "P bs \<Longrightarrow> allows (sends P) bs"
  by (auto simp: allows_def sends_def)

lemma keeps_programChunk [keeps_rules]:
  "steady I \<Longrightarrow> allows I (chunkFrame cmd c) \<Longrightarrow> allows I CHUNK_RESYNC_FILLER \<Longrightarrow>
   allows I [GET_SYNC, EOC] \<Longrightarrow> keeps I (programChunk io cmd c)"
  unfolding programChunk_def Let_def by (intro keeps_rules)

lemma keeps_programChunks [keeps_rules]:
  "steady I \<Longrightarrow> (\<And>c. c \<in> set cs \<Longrightarrow> allows I (chunkFrame cmd c)) \<Longrightarrow> allows I CHUNK_RESYNC_FILLER \<Longrightarrow>
   allows I [GET_SYNC, EOC] \<Longrightarrow> keeps I (programChunks io cmd p phase cs)"
  by (induction cs) (auto intro!: keeps_rules)

lemma keeps_queryCrc [keeps_rules]:
  "steady I \<Longrightarrow> allows I [GET_CRC, EOC] \<Longrightarrow> keeps I (queryCrc io)"
  unfolding queryCrc_def by (intro keeps_rules)

lemma keeps_readbackChunks [keeps_rules]:
  "steady I \<Longrightarrow> (\<And>b. allows I [b]) \<Longrightarrow> keeps I (readbackChunks io p off cs)"
  by (induction cs arbitrary: off) (auto intro!: keeps_rules split: option.split)

lemma keeps_extfEraseLoop [keeps_rules]:
  assumes "steady I"
  shows "keeps I (extfEraseLoop io p d l)"
proof -
  have "I h \<longrightarrow> I (snd y)" if "extfEraseLoop io p d l h = Some y" for h y
  proof (rule extfEraseLoop.raw_induct [where P = "\<lambda>_ _ _ _ h y. I h \<longrightarrow> I (snd y)", OF _ that])
    fix f :: "serial \<Rightarrow> bool \<Rightarrow> int \<Rightarrow> byte \<Rightarrow> unit boot" and io p d l h y
    assume IH: "\<And>io p d l h y. f io p d l h = Some y \<Longrightarrow> I h \<longrightarrow> I (snd y)"
    have rec: "keeps I (\<lambda>h. f io p d l h)" for l unfolding keeps_def by (auto dest: IH)
    let ?body = "bind_io (dateNow io) (\<lambda>t h.
       if \<not> t < d then throw_io Extf_timeout h
       else if l < 90 then
         bind_io (try_io (readBytes io 1 EXTF_ERASE_PCT_READ_TIMEOUT_MS)) (\<lambda>r h. case r of
             Inl _ \<Rightarrow> f io p d l h
           | Inr pct \<Rightarrow>
               bind_io (if pct ! 0 \<noteq> l then report p Extf_erase else return_io ()) (\<lambda>_ h.
                 f io p d (pct ! 0) h) h) h
       else bind_io (trySync io) (\<lambda>synced h.
           if synced then report p Extf_erase h
           else f io p d l h) h)"
    have split: "keeps I (\<lambda>h. case r of Inl x \<Rightarrow> m x h | Inr y \<Rightarrow> n y h)"
      if "\<And>x. keeps I (m x)" "\<And>y. keeps I (n y)"
      for r :: "boot_error + bytes" and m n :: "_ \<Rightarrow> unit boot"
      using that by (cases r) simp_all
    have "keeps I ?body"
      by (intro keeps_rules keeps_lambda_if split assms rec)
    moreover assume "?body h = Some y"
    ultimately show "I h \<longrightarrow> I (snd y)" by (cases y) (auto dest: keepsD)
  qed
  then show ?thesis by (fastforce simp: keeps_def)
qed

lemma keeps_eraseExtflash [keeps_rules]:
  "steady I \<Longrightarrow> (\<And>b. allows I [b]) \<Longrightarrow> allows I (le32 (int n)) \<Longrightarrow> keeps I (eraseExtflash io n p)"
  unfolding eraseExtflash_def by (intro keeps_rules)

lemma keeps_verifyExtflash [keeps_rules]:
  "steady I \<Longrightarrow> (\<And>b. allows I [b]) \<Longrightarrow> allows I (le32 (int (length img))) \<Longrightarrow>
   keeps I (verifyExtflash io img p)"
  unfolding verifyExtflash_def by (intro keeps_rules)

lemma keeps_flashSend:
  assumes "\<And>bs. legalWrite bs \<Longrightarrow> P bs"
  shows "keeps (sends P) (flash io img fs p extf blRev bm)"
proof -
  have short: "allows (sends P) bs" if "length bs \<le> 4" for bs
    using that assms by (intro allows_sends) (simp add: legalWrite_def)
  have filler: "allows (sends P) CHUNK_RESYNC_FILLER"
    using assms by (intro allows_sends) (simp add: legalWrite_def)
  have frame: "allows (sends P) (chunkFrame cmd c)"
    if "c \<in> set (chunksOf PROG_MULTI_MAX bs)" "length bs mod 4 = 0" "cmd = PROG_MULTI \<or> cmd = EXTF_PROG_MULTI"
    for c cmd bs
  proof (intro allows_sends assms)
    have "0 < length c \<and> length c \<le> PROG_MULTI_MAX" "length c mod 4 = 0"
      using chunksOf_length [OF that(1)] chunksOf_aligned [OF that(1) _ that(2)]
      by (simp_all add: PROG_MULTI_MAX_def)
    then have "dataFrame (chunkFrame cmd c)" using that(3) by (auto simp: dataFrame_def chunkFrame_def)
    then show "legalWrite (chunkFrame cmd c)" by (simp add: legalWrite_def)
  qed
  have s: "steady (sends P)" by (rule steady_sends)
  have le: "allows (sends P) (le32 v)" for v by (rule short) (simp add: le32_def)
  have one: "allows (sends P) [b]" for b by (rule short) simp
  have two: "allows (sends P) [a, b]" for a b by (rule short) simp
  have prog: "keeps (sends P) (program io bs p)" for bs
    unfolding program_def by (intro keeps_rules s filler two frame) auto
  have progE: "keeps (sends P) (programExtflash io bs p)" for bs
    unfolding programExtflash_def by (intro keeps_rules s filler two frame) auto
  have ep: "keeps (sends P) (eraseProgram io img fs p)"
    unfolding eraseProgram_def by (intro keeps_rules prog s two)
  have ver: "keeps (sends P) (runVerify io img fs p blRev)"
    unfolding runVerify_def verify_def verifyByReadback_def by (intro keeps_rules s two one)
  have ext: "keeps (sends P) (flashExternal io p extf)"
    unfolding flashExternal_def by (intro keeps_rules progE s two one le)
  have rb: "keeps (sends P) (reboot io)" unfolding reboot_def by (intro keeps_rules two)
  show ?thesis unfolding flash_def by (intro keeps_rules ext ep ver rb)
qed

subsection \<open>flash always returns\<close>

lemma returns_programChunk [returns_rules]: "ticking io \<Longrightarrow> returns (programChunk io cmd c)"
  unfolding programChunk_def Let_def by (intro returns_rules)

lemma returns_programChunks [returns_rules]: "ticking io \<Longrightarrow> returns (programChunks io cmd p phase cs)"
  by (induction cs) (auto intro!: returns_rules)

lemma returns_readbackChunks [returns_rules]: "returns (readbackChunks io p off cs)"
  by (induction cs arbitrary: off) (auto intro!: returns_rules split: option.split)

lemma returns_queryCrc [returns_rules]: "returns (queryCrc io)"
  unfolding queryCrc_def by (intro returns_rules)

lemma returns_extfEraseLoop [returns_rules]:
  assumes "ticking io"
  shows "returns (extfEraseLoop io p d l)"
proof -
  let ?none = "\<lambda>h. if \<exists>l. extfEraseLoop io p d l h = None then None else Some ()"
  have none: "?none h \<noteq> None" for h
  proof (rule polling_returns [OF assms, where d = d])
    fix h assume "?none h = None"
    then obtain l where none: "extfEraseLoop io p d l h = None" by (auto split: if_splits)
    let ?rd = "try_io (readBytes io 1 EXTF_ERASE_PCT_READ_TIMEOUT_MS)"
    have rr: "returns ?rd" by (intro returns_rules)
    have kr: "keeps (\<lambda>h. n \<le> length h) ?rd" for n by (intro keeps_rules steady_longer)
    have kt: "keeps (\<lambda>h. n \<le> length h) (trySync io)" for n by (intro keeps_rules steady_longer)
    note body = none [unfolded extfEraseLoop.simps [of io p d l h]]
    have t: "clock io h < d"
      using body by (auto simp: bind_io_None dateNow_def throw_io_def split: if_splits)
    have "\<exists>h' l'. length h < length h' \<and> extfEraseLoop io p d l' h' = None"
    proof (cases "l < 90")
      case True
      then obtain r h1 where r: "?rd (h @ [Asked_time]) = Some (Inr r, h1)"
        and k: "(case r of Inl _ \<Rightarrow> extfEraseLoop io p d l h1
           | Inr pct \<Rightarrow> bind_io (if pct ! 0 \<noteq> l then report p Extf_erase else return_io ()) (\<lambda>_ h.
                 extfEraseLoop io p d (pct ! 0) h) h1) = None"
        using body t returns_not_None [OF rr]
        by (auto simp del: One_nat_def not_None_eq split_paired_All simp: bind_io_None dateNow_def split: if_splits)
      have "length h < length h1" using grows [OF kr r] by simp
      then show ?thesis using k
        by (auto simp del: not_None_eq split_paired_All simp: bind_io_None report_def return_io_def
            split: sum.splits if_splits intro: less_SucI)
          (metis length_append_singleton less_SucI)+
    next
      case False
      then obtain h1 where r: "trySync io (h @ [Asked_time]) = Some (Inr False, h1)"
        and k: "extfEraseLoop io p d l h1 = None"
        using body t returns_not_None [OF returns_trySync]
        by (auto simp del: not_None_eq split_paired_All
            simp: bind_io_None dateNow_def report_def split: if_splits)
      then show ?thesis using grows [OF kt r] by (auto intro!: exI [of _ h1])
    qed
    then obtain h' l' where h': "length h < length h'" "extfEraseLoop io p d l' h' = None" by blast
    then have "?none h' = None" by (simp only: if_True ex_simps(1) split: if_split) blast
    then show "clock io h < d \<and> (\<exists>h'. length h < length h' \<and> ?none h' = None)" using t h'(1) by blast
  qed
  have "extfEraseLoop io p d l h \<noteq> None" for h
    using none [of h] by (meson option.distinct(1))
  then show ?thesis by (simp only: returns_def) blast
qed

lemma returns_flash:
  assumes "ticking io"
  shows "returns (flash io img fs p extf blRev bm)"
  unfolding flash_def flashExternal_def eraseProgram_def runVerify_def verify_def verifyByReadback_def
    program_def programExtflash_def eraseExtflash_def verifyExtflash_def reboot_def
  by (intro returns_rules assms)

subsection \<open>On a conforming link, flash succeeds\<close>

text \<open>
  A link that accepts every write, answers \<open>INSYNC\<close>, \<open>OK\<close> to every command and reports the
  checksum \<open>crc\<close>; its clock advances by at most a millisecond per interaction.
\<close>

definition conforming :: "serial \<Rightarrow> 32 word \<Rightarrow> bool" where
  "conforming io crc \<longleftrightarrow>
     (\<forall>h bs. writes io h bs = None)
     \<and> (\<forall>f h. flushes io = Some f \<longrightarrow> f h = None)
     \<and> (\<forall>h t. \<exists>f. reads io h 1 t = Inr f
          \<and> f 0 = (if h \<noteq> [] \<and> last h = Got [INSYNC] then OK else INSYNC))
     \<and> (\<forall>h t. \<exists>f. reads io h 4 t = Inr f \<and> fromLe32 (map f [0..<4]) = unat crc)
     \<and> (\<forall>h e. clock io (h @ [e]) \<le> clock io h + 1)"

text \<open>The image bytes that the \<open>PROG_MULTI\<close> frames of a history carry.\<close>

definition framePayload :: "bytes \<Rightarrow> bytes" where
  "framePayload f = (if f \<noteq> [] \<and> hd f = PROG_MULTI then take (length f - 3) (drop 2 f) else [])"

definition programmed :: "history \<Rightarrow> bytes" where
  "programmed tr = concat (map (\<lambda>ev. case ev of Wrote f \<Rightarrow> framePayload f | _ \<Rightarrow> []) tr)"

lemma programmed_append [simp]: "programmed (a @ b) = programmed a @ programmed b"
  by (simp add: programmed_def)

lemma programmed_events [simp]:
  "programmed [] = []" "programmed (Wrote f # h) = framePayload f @ programmed h"
  "programmed (Got bs # h) = programmed h" "programmed (Asked_time # h) = programmed h"
  by (simp_all add: programmed_def)

lemma programmed_reports [simp]:
  "programmed ack = []" "programmed (flushEvents io) = []" "programmed (reportEvents p phase) = []"
  by (simp_all add: programmed_def ack_def flushEvents_def reportEvents_def split: option.splits)

lemma framePayload_chunk [simp]: "framePayload (chunkFrame PROG_MULTI c) = c"
  by (simp add: framePayload_def chunkFrame_def)

lemma framePayload_short [simp]:
  "a \<noteq> PROG_MULTI \<Longrightarrow> framePayload (a # bs) = []"
  by (simp add: framePayload_def)

lemma conf_write: "conforming io crc \<Longrightarrow> writeBytes io bs h = Some (Inr (), h @ [Wrote bs])"
  by (simp add: conforming_def writeBytes_def)

lemma conf_flush: "conforming io crc \<Longrightarrow> flushInput io h = Some (Inr (), h @ flushEvents io)"
  by (auto simp: conforming_def flushInput_def flushEvents_def split: option.splits)

lemma conf_read1:
  assumes "conforming io crc"
  shows "readBytes io 1 t h = (let b = (if h \<noteq> [] \<and> last h = Got [INSYNC] then OK else INSYNC)
     in Some (Inr [b], h @ [Got [b]]))"
proof -
  obtain f where "reads io h 1 t = Inr f" "f 0 = (if h \<noteq> [] \<and> last h = Got [INSYNC] then OK else INSYNC)"
    using assms unfolding conforming_def by blast
  then show ?thesis by (simp add: readBytes_def Let_def)
qed

lemma conf_read4:
  assumes "conforming io crc"
  shows "\<exists>raw. readBytes io 4 t h = Some (Inr raw, h @ [Got raw]) \<and> fromLe32 raw = unat crc \<and> length raw = 4"
proof -
  obtain f where "reads io h 4 t = Inr f" "fromLe32 (map f [0..<4]) = unat crc"
    using assms unfolding conforming_def by blast
  then show ?thesis by (simp add: readBytes_def del: upt_rec_numeral)
qed

lemmas status_bytes = INVALID_def FAILED_def BAD_SILICON_REV_def OK_def INSYNC_def

lemma conf_getSync:
  assumes "conforming io crc" "h = [] \<or> last h \<noteq> Got [INSYNC]"
  shows "getSync io t h = Some (Inr (), h @ ack)"
  using assms(2) by (auto simp del: One_nat_def simp: getSync_def bind_io_def conf_read1 [OF assms(1)]
      return_io_def ack_def status_bytes)

lemma conf_trySync:
  assumes "conforming io crc" "h = [] \<or> last h \<noteq> Got [INSYNC]"
  shows "trySync io h = Some (Inr True, h @ ack)"
  using assms(2) by (auto simp del: One_nat_def simp: trySync_def bind_io_def try_io_def
      conf_read1 [OF assms(1)] return_io_def ack_def status_bytes)

lemma conf_programChunk:
  "conforming io crc \<Longrightarrow>
   programChunk io cmd c h = Some (Inr (), h @ flushEvents io @ [Wrote (chunkFrame cmd c)] @ ack)"
  by (simp add: programChunk_def Let_def then_io_def bind_io_def catch_io_def conf_getSync conf_write conf_flush)

lemma conf_programChunks:
  assumes "conforming io crc"
  shows "\<exists>tr. programChunks io PROG_MULTI p Program cs h = Some (Inr (), h @ tr) \<and> programmed tr = concat cs"
proof (induction cs arbitrary: h)
  case (Cons c cs)
  let ?new = "flushEvents io @ [Wrote (chunkFrame PROG_MULTI c)] @ ack @ reportEvents p Program"
  obtain tr where tr: "programChunks io PROG_MULTI p Program cs (h @ ?new) = Some (Inr (), (h @ ?new) @ tr)"
    "programmed tr = concat cs" using Cons by blast
  have "programChunks io PROG_MULTI p Program (c # cs) h
      = programChunks io PROG_MULTI p Program cs (h @ ?new)"
    by (simp add: then_io_def bind_io_def conf_programChunk [OF assms] report_def reportEvents_def)
  then show ?case using tr by (intro exI [of _ "?new @ tr"]) simp
qed (simp add: return_io_def)

lemma chipEraseTimeout_bound: "20000 \<le> chipEraseTimeoutMs n"
  by (simp add: chipEraseTimeoutMs_def ERASE_FALLBACK_TIMEOUT_MS_def split: option.split)

lemma conf_erase:
  assumes "conforming io crc"
  shows "\<exists>tr. erase io p n h = Some (Inr (), h @ tr) \<and> programmed tr = []"
proof -
  let ?h = "h @ [Wrote [CHIP_ERASE, EOC]]"
  let ?h1 = "?h @ [Asked_time]"
  let ?h2 = "?h1 @ [Asked_time]"
  let ?tr = "(if p then [Asked_time, Reported Erase] else [])"
  have tick: "clock io ?h1 \<le> clock io ?h + 1" using assms unfolding conforming_def by blast
  then have lt: "clock io ?h1 < clock io ?h + chipEraseTimeoutMs n"
    using chipEraseTimeout_bound [of n] by simp
  have sync: "trySync io (?h2 @ ?tr) = Some (Inr True, ?h2 @ ?tr @ ack)"
    by (subst conf_trySync [OF assms]) auto
  have "eraseLoop io p (clock io ?h + chipEraseTimeoutMs n) ?h1
      = Some (Inr (), ?h2 @ ?tr @ ack @ reportEvents p Erase)"
    using lt sync
    by (subst eraseLoop.simps) (auto simp: bind_io_def dateNow_def then_io_def report_def reportEvents_def return_io_def)
  then have "erase io p n h = Some (Inr (), h @ [Wrote [CHIP_ERASE, EOC], Asked_time, Asked_time]
      @ ?tr @ ack @ reportEvents p Erase)"
    by (simp add: erase_def then_io_def bind_io_def dateNow_def conf_write [OF assms])
  moreover have "programmed [Reported Erase] = []" by (simp add: programmed_def)
  ultimately show ?thesis
    by (intro exI [of _ "[Wrote [CHIP_ERASE, EOC], Asked_time, Asked_time] @ ?tr @ ack @ reportEvents p Erase"])
      (simp add: CHIP_ERASE_def PROG_MULTI_def)
qed

lemma conf_verify:
  assumes "conforming io crc" "firmwareCrc img fs = Some crc"
  shows "\<exists>tr. verify io img fs p h = Some (Inr (), h @ tr) \<and> programmed tr = []"
proof -
  let ?h = "h @ reportEvents p Verify @ flushEvents io @ [Wrote [GET_CRC, EOC]]"
  obtain raw where raw: "readBytes io 4 SYNC_TIMEOUT_MS ?h = Some (Inr raw, ?h @ [Got raw])"
    "fromLe32 raw = unat crc" "length raw = 4" using conf_read4 [OF assms(1)] by blast
  then have "raw \<noteq> [INSYNC]" by auto
  then have s: "getSync io SYNC_TIMEOUT_MS (?h @ [Got raw]) = Some (Inr (), (?h @ [Got raw]) @ ack)"
    by (intro conf_getSync [OF assms(1)]) simp
  have q: "queryCrc io (h @ reportEvents p Verify) = Some (Inr (unat crc), (?h @ [Got raw]) @ ack)"
    using raw(1) s by (simp add: queryCrc_def then_io_def bind_io_def return_io_def raw(2)
        conf_write [OF assms(1)] conf_flush [OF assms(1)])
  have "verify io img fs p h = Some (Inr (), ((?h @ [Got raw]) @ ack) @ reportEvents p Verify)"
    using q by (simp add: verify_def then_io_def bind_io_def report_def reportEvents_def assms(2) split: if_splits)
  then show ?thesis
    by (intro exI [of _ "reportEvents p Verify @ flushEvents io @ [Wrote [GET_CRC, EOC], Got raw] @ ack
        @ reportEvents p Verify"]) (simp add: GET_CRC_def PROG_MULTI_def)
qed

lemma conf_flash:
  assumes "conforming io crc" "flashGuard bm (length img) fs = None" "firmwareCrc img fs = Some crc"
    "blRev \<noteq> Some BL_REV_READBACK_VERIFY" "extf = None \<or> extf = Some []"
  shows "\<exists>tr. flash io img fs p extf blRev bm h = Some (Inr (), h @ tr) \<and> programmed tr = img"
proof -
  have al: "length img mod 4 = 0" using assms(3) by (simp add: firmwareCrc_def split: if_splits)
  have ext: "flashExternal io p extf h = Some (Inr (), h)"
    using assms(5) by (auto simp: flashExternal_def return_io_def)
  obtain t1 where t1: "erase io p (Some (int fs)) h = Some (Inr (), h @ t1)" "programmed t1 = []"
    using conf_erase [OF assms(1)] by blast
  obtain t2 where t2: "programChunks io PROG_MULTI p Program (chunksOf PROG_MULTI_MAX img) (h @ t1)
      = Some (Inr (), (h @ t1) @ t2)" "programmed t2 = concat (chunksOf PROG_MULTI_MAX img)"
    using conf_programChunks [OF assms(1)] by blast
  have img: "programmed t2 = img" using t2(2) by (simp add: concat_chunksOf PROG_MULTI_MAX_def)
  obtain t3 where t3: "verify io img fs p ((h @ t1) @ t2) = Some (Inr (), ((h @ t1) @ t2) @ t3)"
    "programmed t3 = []" using conf_verify [OF assms(1,3)] by blast
  have ep: "eraseProgram io img fs p h = Some (Inr (), (h @ t1) @ t2)"
    using t2(1) by (simp add: eraseProgram_def then_io_def bind_io_def t1(1) program_def al)
  have rv: "runVerify io img fs p blRev ((h @ t1) @ t2) = Some (Inr (), ((h @ t1) @ t2) @ t3)"
    using assms(4) t3(1) by (simp add: runVerify_def)
  have rvc: "catch_io (runVerify io img fs p blRev) k ((h @ t1) @ t2)
      = Some (Inr (), ((h @ t1) @ t2) @ t3)" for k
    by (simp add: catch_io_def rv [simplified])
  have rb: "catch_io (reboot io) (\<lambda>_. return_io ()) g = Some (Inr (), g @ [Wrote [REBOOT, EOC]])" for g
    by (simp add: reboot_def catch_io_def conf_write [OF assms(1)])
  have "flash io img fs p extf blRev bm h = Some (Inr (), (((h @ t1) @ t2) @ t3) @ [Wrote [REBOOT, EOC]])"
    unfolding flash_def assms(2) option.case then_io_def bind_io_def
    by (simp only: ext ep rvc rb option.case sum.case prod.case)
  then show ?thesis
    by (intro exI [of _ "t1 @ t2 @ t3 @ [Wrote [REBOOT, EOC]]"])
      (simp add: t1 img t3 REBOOT_def PROG_MULTI_def)
qed

end
