(* ===== verification/Firmware_Guarantees.thy ===== *)
theory Firmware_Guarantees
  imports Intel_Hex Apj Bootloader_Flash
begin

text \<open>
  The properties of the firmware packages: the Intel HEX parser, the \<open>.apj\<close> container, the
  board guards, the checksum and the serial bootloader client, each with a witness.
\<close>

subsection \<open>A concrete link\<close>

definition replySerial :: "32 word \<Rightarrow> serial" where
  "replySerial crc = \<lparr>writes = \<lambda>h bs. None,
     reads = \<lambda>h n t. Inr (\<lambda>i. if n = 4 then le32 (uint crc) ! i
        else if h \<noteq> [] \<and> last h = Got [INSYNC] then OK else INSYNC),
     flushes = None, clock = \<lambda>h. int (length h)\<rparr>"

lemma replySerial_conforming: "conforming (replySerial crc) crc"
proof -
  have "map (\<lambda>i. le32 (uint crc) ! i) [0..<4] = le32 (uint crc)"
    by (intro nth_equalityI) (simp_all add: le32_def)
  moreover have "int (fromLe32 (le32 (uint crc))) = int (unat crc)"
    using fromLe32_le32 [of "uint crc"] uint_bounded [of crc] by simp
  then have "fromLe32 (le32 (uint crc)) = unat crc" by (simp only: of_nat_eq_iff)
  ultimately show ?thesis by (simp add: conforming_def replySerial_def)
qed

lemma replySerial_ticking: "ticking (replySerial crc)"
  unfolding ticking_def by (intro exI [of _ 1] conjI exI [of _ 0]) (simp_all add: replySerial_def)

definition sampleImage :: bytes where
  "sampleImage = [0xDE, 0xAD, 0xBE, 0xEF]"

definition sampleCrc :: "32 word" where
  "sampleCrc = arduPilotCrc32 (flashContents sampleImage 8) 0"

lemma sample_firmwareCrc: "firmwareCrc sampleImage 8 = Some sampleCrc"
  unfolding sampleCrc_def by (rule firmwareCrc_contents) (simp_all add: sampleImage_def)

lemma sample_guard: "flashGuard (Some (9, 33)) (length sampleImage) 8 = None"
  by (simp add: flashGuard_def sampleImage_def checkImageFitsFlash_def checkBoardMatch_def board_ids Let_def)

lemma sample_flash:
  "\<exists>tr. flash (replySerial sampleCrc) sampleImage 8 False None None (Some (9, 33)) h = Some (Inr (), h @ tr)
     \<and> programmed tr = sampleImage"
  by (rule conf_flash [OF replySerial_conforming sample_guard sample_firmwareCrc]) simp_all

subsection \<open>Checksum\<close>

text \<open>The table-driven checksum of the bootloader is, byte for byte,
  the bit-by-bit division by the reflected polynomial \<open>0xEDB88320\<close>.\<close>

theorem crc32_table_is_division:
  "arduPilotCrc32 bs state
     = fold (\<lambda>b c. (reflected_step 0xEDB88320 ^^ 8) (c XOR ucast b)) bs state"
  unfolding arduPilotCrc32_def by (intro fold_cong ext) (simp_all add: crc32Step_bits crc32_bits_def)

text \<open>A passed verification rules out a flash with exactly one
  damaged byte. The checksum the bootloader reported is that of the image followed by erased
  bytes, and no flash content that differs from it in a single byte has that checksum.\<close>

theorem passed_verify_detects_damage:
  assumes "verify io img flashSize p h = Some (Inr (), h')"
    and "length img \<le> flashSize" and "flashSize mod 4 = 0"
    and "flashContents img flashSize = xs @ b # ys" and "c \<noteq> b"
  shows "\<exists>raw. Got raw \<in> set h' \<and> length raw = 4
    \<and> fromLe32 raw = unat (arduPilotCrc32 (flashContents img flashSize) 0)
    \<and> fromLe32 raw \<noteq> unat (arduPilotCrc32 (xs @ c # ys) 0)"
proof -
  from verify_Inr [OF assms(1)] obtain raw expected where raw: "length raw = 4"
    "firmwareCrc img flashSize = Some expected" "fromLe32 raw = unat expected"
    "h' = h @ reportEvents p Verify @ crcTrace io raw @ reportEvents p Verify" by blast
  have "length img mod 4 = 0" using raw(2) by (simp add: firmwareCrc_def split: if_splits)
  from firmwareCrc_contents [OF this assms(3,2)]
  have e: "expected = arduPilotCrc32 (flashContents img flashSize) 0" using raw(2) by simp
  moreover have "arduPilotCrc32 (xs @ c # ys) 0 \<noteq> expected"
    using arduPilotCrc32_single_byte [of xs b ys 0 c] assms(4,5) e by auto
  ultimately have "unat expected \<noteq> unat (arduPilotCrc32 (xs @ c # ys) 0)" by (metis word_unat_eq_iff)
  then show ?thesis using raw e by (intro exI [of _ raw]) (simp add: crcTrace_def)
qed

theorem passed_verify_detects_damage_witness:
  "\<exists>raw h'. verify (replySerial sampleCrc) sampleImage 8 False [] = Some (Inr (), h') \<and> Got raw \<in> set h'
    \<and> fromLe32 raw \<noteq> unat (arduPilotCrc32 ([] @ 0 # [0xAD, 0xBE, 0xEF, 0xFF, 0xFF, 0xFF, 0xFF]) 0)"
proof -
  obtain tr where run: "verify (replySerial sampleCrc) sampleImage 8 False [] = Some (Inr (), [] @ tr)"
    using conf_verify [OF replySerial_conforming sample_firmwareCrc] by blast
  have "flashContents sampleImage 8 = [] @ 0xDE # [0xAD, 0xBE, 0xEF, 0xFF, 0xFF, 0xFF, 0xFF]"
    by (simp add: flashContents_def sampleImage_def numeral_eq_Suc)
  from passed_verify_detects_damage [OF run _ _ this, of 0] show ?thesis
    using run by (auto simp: sampleImage_def)
qed

subsection \<open>The bootloader client\<close>



text \<open>C5 successful_flash_was_verified: when \<open>flash\<close> returns normally, the guards accepted the board
  and the size, and the last things on the wire before the reboot command are a complete passed
  verification: the bootloader's checksum equal to that of the image in the flash, or, for
  revision 2, every chunk of the image read back.\<close>

theorem successful_flash_was_verified:
  assumes "flash io img flashSize p extf blRev bm h = Some (Inr (), h')"
  shows "length img \<le> flashSize \<and> (\<forall>fw board. bm = Some (fw, board) \<longrightarrow> compatible fw board None None)
    \<and> (\<exists>pre tr tail. h' = pre @ tr @ tail \<and> verified io img flashSize p blRev tr \<and> rebootTail tail)"
  using assms by (rule flash_Inr)

theorem successful_flash_was_verified_witness:
  "\<exists>h' pre tr tail. flash (replySerial sampleCrc) sampleImage 8 False None None (Some (9, 33)) [] = Some (Inr (), h')
     \<and> h' = pre @ tr @ tail \<and> verified (replySerial sampleCrc) sampleImage 8 False None tr \<and> rebootTail tail"
proof -
  obtain tr where "flash (replySerial sampleCrc) sampleImage 8 False None None (Some (9, 33)) [] = Some (Inr (), tr)"
    using sample_flash [of "[]"] by auto
  from this successful_flash_was_verified [OF this] show ?thesis by blast
qed

text \<open>C31 flash_always_returns: whatever the link answers, \<open>flash\<close> returns or throws: every polling
  loop of the client is bounded by its deadline, as long as the clock advances.\<close>

theorem flash_always_returns:
  assumes "ticking io"
  shows "\<exists>r h'. flash io img flashSize p extf blRev bm h = Some (r, h')"
  using returns_flash [OF assms] by (simp add: returns_def)

theorem flash_always_returns_witness:
  "\<exists>r h'. flash (replySerial 7) sampleImage 8 True (Some sampleImage) (Some 2) None [] = Some (r, h')"
  by (rule flash_always_returns) (rule replySerial_ticking)



text \<open>C36 flash_sends_only_legal_frames: whatever the link answers, every write of \<open>flash\<close> is a short
  command, the resynchronisation filler, or a programming frame: its length byte counts its
  payload, which is a multiple of four and at most 252 bytes.\<close>

theorem flash_sends_only_legal_frames:
  assumes "flash io img flashSize p extf blRev bm [] = Some (r, h')"
    and "Wrote bs \<in> set h' \<or> Write_failed bs \<in> set h'"
  shows "legalWrite bs"
proof -
  have "sends legalWrite h'"
    using keepsD [OF keeps_flashSend _ assms(1), of legalWrite] by (simp add: sends_def)
  then show ?thesis using assms(2) unfolding sends_def by blast
qed

theorem flash_sends_only_legal_frames_witness:
  "\<exists>r h'. flash (replySerial 7) sampleImage 8 True None None None [] = Some (r, h')
     \<and> (\<forall>bs. Wrote bs \<in> set h' \<longrightarrow> legalWrite bs)"
proof -
  obtain r h' where run: "flash (replySerial 7) sampleImage 8 True None None None [] = Some (r, h')"
    using returns_flash [OF replySerial_ticking [of 7]]
    by (auto simp: returns_def split_paired_all) (metis surj_pair)
  then show ?thesis using flash_sends_only_legal_frames [OF run] by blast
qed

subsection \<open>Board guards\<close>

text \<open>The board guard accepts a firmware exactly for its own
  board id, for the AUAV-X2.1 and FMUv2 pair in either direction, and for FMUv3 firmware on an
  FMUv2 board with bootloader revision at least 5 and more than 1032192 bytes of flash.\<close>

theorem guard_accepts_exactly_compatible:
  "ok (checkBoardMatch fw board blRev flashSize) \<longleftrightarrow>
     fw = board \<or> (fw = 9 \<and> board = 33) \<or> (fw = 33 \<and> board = 9)
     \<or> (fw = 255 \<and> board = 9 \<and> (\<exists>r f. blRev = Some r \<and> flashSize = Some f \<and> 5 \<le> r \<and> 1032192 < f))"
  by (auto simp: checkBoardMatch_ok compatible_def doubleton_eq_iff)

text \<open>FMUv3 firmware on an FMUv2 board with a corrected bootloader is
  accepted by the board guard when it is told the revision and the flash size, as the flasher
  page does, and refused by \<open>flash\<close>, which repeats the check with the ids alone.\<close>

theorem flash_refuses_fmuv3_pair:
  "ok (checkBoardMatch 255 9 (Some 5) (Some 2080768))
   \<and> flash io img 2080768 p extf (Some 5) (Some (255, 9)) h = Some (Inl (Refused (Wrong_board 255 9)), h)"
  by (simp add: checkBoardMatch_def board_ids flash_def flashGuard_def throw_io_def Let_def)

subsection \<open>Intel HEX\<close>

text \<open>C29 hex_image_faithful: an accepted Intel HEX file yields ascending segments with gaps between
  them, in which every address holds exactly the byte that the data records of the file put
  there, and the reported sizes and bounds are those of the records.\<close>

theorem hex_image_faithful:
  assumes "parseIntelHex text = Some (Inr p)"
  shows "\<exists>st. parseLines (splitLines text) 1 hex_start = Inr st \<and> sawEof st \<and> spaced (segments p)
    \<and> (\<forall>a b. holds (segments p) a b \<longleftrightarrow> holds (hexWrites st) a b)
    \<and> totalBytes p = (\<Sum>w\<leftarrow>hexWrites st. length (segData w))
    \<and> (\<forall>a b. holds (hexWrites st) a b \<longrightarrow> minAddress p \<le> a \<and> a < endAddress p)"
proof -
  obtain st where st: "parseLines (splitLines text) 1 hex_start = Inr st" "sawEof st"
    "coalesce (hexWrites st) = Some (Inr p)"
    using assms by (auto simp: parseIntelHex_def split: sum.splits if_splits)
  from coalesce_image [OF st(3)] show ?thesis using st(1,2) by (auto simp: runsLength_def)
qed

definition sampleSegments :: "hex_segment list" where
  "sampleSegments = [\<lparr>segAddress = 0x08004000, segData = [1, 2]\<rparr>, \<lparr>segAddress = 0x08000000, segData = [3]\<rparr>]"

lemma sampleSegments_ok:
  "list_all segment_ok sampleSegments" "list_all (\<lambda>w. segData w \<noteq> []) sampleSegments"
  "sorted_wrt apart sampleSegments"
  by (simp_all add: sampleSegments_def segment_ok_def apart_def segEnd_def)

theorem hex_image_faithful_witness:
  "\<exists>p st. parseIntelHex (renderHex sampleSegments) = Some (Inr p) \<and> spaced (segments p)
     \<and> parseLines (splitLines (renderHex sampleSegments)) 1 hex_start = Inr st
     \<and> totalBytes p = (\<Sum>w\<leftarrow>hexWrites st. length (segData w))"
proof -
  obtain p where "parseIntelHex (renderHex sampleSegments) = Some (Inr p)"
    using coalesce_accepts [OF sampleSegments_ok(2)] sampleSegments_ok(3)
      parseIntelHex_render [OF sampleSegments_ok(1)] by auto
  from this hex_image_faithful [OF this] show ?thesis by blast
qed

text \<open>C28 hex_roundtrip_unless_overlapping: a rendered list of nonempty segments parses, and to the
  same memory image, exactly when no two of them overlap; otherwise the parser refuses it.\<close>

theorem hex_roundtrip_unless_overlapping:
  assumes "list_all segment_ok ss" and "list_all (\<lambda>w. segData w \<noteq> []) ss"
  shows "if sorted_wrt apart ss
    then \<exists>p. parseIntelHex (renderHex ss) = Some (Inr p) \<and> (\<forall>a b. holds (segments p) a b \<longleftrightarrow> holds ss a b)
    else \<exists>e. parseIntelHex (renderHex ss) = Some (Inl e)"
proof (cases "sorted_wrt apart ss")
  case True
  then obtain p where "coalesce ss = Some (Inr p)" using coalesce_accepts [OF assms(2)] by blast
  then show ?thesis using True coalesce_image parseIntelHex_render [OF assms(1)] by fastforce
next
  case False
  then have "\<nexists>p. coalesce ss = Some (Inr p)" using coalesce_accepts [OF assms(2)] by blast
  moreover obtain r where "coalesce ss = Some r" using coalesce_total by auto
  ultimately have "\<exists>e. coalesce ss = Some (Inl e)" by (cases r) auto
  then show ?thesis using False parseIntelHex_render [OF assms(1)] by simp
qed

theorem hex_roundtrip_unless_overlapping_witness:
  "\<exists>p. parseIntelHex (renderHex sampleSegments) = Some (Inr p)
     \<and> (\<forall>a b. holds (segments p) a b \<longleftrightarrow> holds sampleSegments a b)"
  using hex_roundtrip_unless_overlapping [OF sampleSegments_ok(1,2)] sampleSegments_ok(3) by simp

definition oddRecord :: js_text where
  "oddRecord = [58, 48, 49, 48, 48, 48, 48, 48, 48, 48, 71, 70, 70]"

definition eofRecord :: js_text where
  "eofRecord = [58, 48, 48, 48, 48, 48, 48, 48, 49, 70, 70]"

lemma parseLine_oddRecord:
  "parseLine oddRecord 1 hex_start
     = Inr (hex_start\<lparr>hexWrites := [\<lparr>segAddress = 0, segData = [0]\<rparr>]\<rparr>)"
proof -
  have t: "jsTrim oddRecord = oddRecord" by (rule jsTrim_none) (simp add: oddRecord_def jsSpace_def)
  have h: "hexToBytes (tl oddRecord) 1 = Inr [1, 0, 0, 0, 0, 0xFF]"
    by (simp add: oddRecord_def parseIntHex_def hexDigit_def jsSpace_def Let_def)
  have a: "applyRecord [1, 0, 0, 0, 0, 0xFF] 1 hex_start
      = Inr (hex_start\<lparr>hexWrites := [\<lparr>segAddress = 0, segData = [0]\<rparr>]\<rparr>)"
    by (simp add: applyRecord_def hex_start_def RECORD_DATA_def word16_def slice_def Let_def)
  have s: "oddRecord \<noteq> []" "hd oddRecord = 58" "length (tl oddRecord) = 12" by (simp_all add: oddRecord_def)
  show ?thesis unfolding parseLine_def t Let_def h s(3) using s(1,2) a by (simp add: hex_start_def)
qed

lemma parseLine_eofRecord:
  "\<not> sawEof st \<Longrightarrow> parseLine eofRecord n st = Inr (st\<lparr>sawEof := True\<rparr>)"
proof -
  assume st: "\<not> sawEof st"
  have t: "jsTrim eofRecord = eofRecord" by (rule jsTrim_none) (simp add: eofRecord_def jsSpace_def)
  have h: "hexToBytes (tl eofRecord) n = Inr [0, 0, 0, 1, 0xFF]"
    by (simp add: eofRecord_def parseIntHex_def hexDigit_def jsSpace_def Let_def)
  have s: "eofRecord \<noteq> []" "hd eofRecord = 58" "length (tl eofRecord) = 10" by (simp_all add: eofRecord_def)
  show ?thesis unfolding parseLine_def t Let_def h s(3) using s(1,2) st
    by (simp add: applyRecord_def RECORD_DATA_def RECORD_EOF_def Let_def)
qed

text \<open>A record with a character that is no hexadecimal digit in the
  second place of a byte is accepted, with the byte read from the first digit alone.\<close>

theorem hex_accepts_non_hex_digit:
  "parseIntelHex (js '':010000000GFF'' @ [10] @ js '':00000001FF'')
     = Some (Inr \<lparr>segments = [\<lparr>segAddress = 0, segData = [0]\<rparr>], minAddress = 0, endAddress = 1, totalBytes = 1\<rparr>)"
proof -
  have e: "js '':010000000GFF'' @ [10] @ js '':00000001FF'' = oddRecord @ 10 # eofRecord"
    by (simp add: js_def oddRecord_def eofRecord_def)
  have split: "splitLines (oddRecord @ 10 # eofRecord) = [oddRecord, eofRecord]"
    by (simp add: oddRecord_def eofRecord_def)
  have lines: "parseLines [oddRecord, eofRecord] 1 hex_start
      = Inr (hex_start\<lparr>hexWrites := [\<lparr>segAddress = 0, segData = [0]\<rparr>], sawEof := True\<rparr>)"
    unfolding parseLines.simps parseLine_oddRecord sum.case
    by (simp add: parseLine_eofRecord hex_start_def)
  show ?thesis unfolding e parseIntelHex_def split lines
    by (simp add: coalesce_def pendNew_def fillSegment_def newBytes_def setBytes_def put_def segEnd_def)
qed

subsection \<open>The apj container\<close>

text \<open>C37 apj_image_ready_to_program: an image decoded from an \<open>.apj\<close> container is the inflated
  firmware, followed by fewer than four erased bytes that make its length a multiple of four;
  it respects the size cap, and its size is the declared one when the container declares it.\<close>

theorem apj_image_ready_to_program:
  assumes "decodeApjImage inflate parsed = Inr img"
  shows "\<exists>raw k. inflate (compressedImage parsed) = Some raw \<and> img = raw @ replicate k 0xFF \<and> k < 4
    \<and> length img mod 4 = 0 \<and> length img \<le> MAX_FIRMWARE_IMAGE_BYTES
    \<and> (case imageSize parsed of None \<Rightarrow> True | Some n \<Rightarrow> n = of_nat (length raw))"
proof -
  obtain raw where raw: "inflate (compressedImage parsed) = Some raw" "length raw \<le> MAX_FIRMWARE_IMAGE_BYTES"
    "img = padTo4 raw" "imageSize parsed = None \<or> imageSize parsed = Some (of_nat (length raw))"
    using assms by (auto simp: decodeApjImage_def checkInflated_def split: option.splits sum.splits if_splits)
  obtain k where "k < 4" "padTo4 raw = raw @ replicate k 0xFF" using padTo4_flash by blast
  then show ?thesis using raw length_padTo4 [of raw] padTo4_cap [OF raw(2)]
    by (intro exI [of _ raw] exI [of _ k]) auto
qed

definition sampleApj :: parsed_apj where
  "sampleApj = \<lparr>apjBoardId = Finite 9, apjBoardRevision = Finite 0, imageSize = Some 3, compressedImage = [1],
     compressedExtfImage = None, extfImageSize = None, signedFirmware = False\<rparr>"

theorem apj_image_ready_to_program_witness:
  "\<exists>raw k. (\<lambda>z. Some [7, 8, 9]) (compressedImage sampleApj) = Some raw \<and> [7, 8, 9, 0xFF] = raw @ replicate k (0xFF :: byte)"
  using apj_image_ready_to_program [of "\<lambda>z. Some [7, 8, 9]" sampleApj "[7, 8, 9, 0xFF]"]
  by (auto simp: decodeApjImage_def checkInflated_def sampleApj_def MAX_FIRMWARE_IMAGE_BYTES_def padTo4_def)

end
