(* ===== verification/Can_Frame.thy ===== *)
theory Can_Frame
  imports Complex_Main Js_Hex
begin

unbundle bit_operations_syntax

text \<open>
  \<open>can-core/src/frame.ts\<close>: the CAN frame every source shares, its raw id with flag bits, the
  DLC codes of CAN FD and the dump columns. Times are milliseconds, as rationals.
\<close>

definition "CAN_EFF_FLAG = (0x80000000 :: 32 word)"
definition "CAN_RTR_FLAG = (0x40000000 :: 32 word)"
definition "CAN_ERR_FLAG = (0x20000000 :: 32 word)"
definition "CAN_SFF_MASK = (0x000007FF :: 32 word)"
definition "CAN_EFF_MASK = (0x1FFFFFFF :: 32 word)"
definition "CAN_MAX_DLEN = (8 :: nat)"
definition "CANFD_MAX_DLEN = (64 :: nat)"

lemmas can_masks = CAN_EFF_FLAG_def CAN_RTR_FLAG_def CAN_ERR_FLAG_def CAN_SFF_MASK_def CAN_EFF_MASK_def

datatype can_direction = Rx | Tx

record can_bus_frame =
  frameSeq :: nat
  frameTime :: rat
  frameBus :: int
  frameId :: "32 word"
  frameExtended :: bool
  frameRtr :: bool
  frameError :: bool
  frameFd :: bool
  frameData :: bytes
  frameDirection :: can_direction

record can_input =
  inputTime :: rat
  inputBus :: int
  inputRawId :: "32 word"
  inputData :: bytes
  inputFd :: "bool option"
  inputDirection :: "can_direction option"

definition canFrameFromRawId :: "can_input \<Rightarrow> can_bus_frame" where
  "canFrameFromRawId input =
     (let raw = inputRawId input;
          extended = (raw AND CAN_EFF_FLAG \<noteq> 0)
      in \<lparr>frameSeq = 0, frameTime = inputTime input, frameBus = inputBus input,
          frameId = (if extended then raw AND CAN_EFF_MASK else raw AND CAN_SFF_MASK),
          frameExtended = extended,
          frameRtr = (raw AND CAN_RTR_FLAG \<noteq> 0),
          frameError = (raw AND CAN_ERR_FLAG \<noteq> 0),
          frameFd = (case inputFd input of None \<Rightarrow> False | Some b \<Rightarrow> b),
          frameData = inputData input,
          frameDirection = (case inputDirection input of None \<Rightarrow> Rx | Some d \<Rightarrow> d)\<rparr>)"

definition canFrameRawId :: "can_bus_frame \<Rightarrow> 32 word" where
  "canFrameRawId frame =
     (let raw = (if frameExtended frame then frameId frame AND CAN_EFF_MASK else frameId frame AND CAN_SFF_MASK);
          raw = (if frameExtended frame then raw OR CAN_EFF_FLAG else raw);
          raw = (if frameRtr frame then raw OR CAN_RTR_FLAG else raw)
      in if frameError frame then raw OR CAN_ERR_FLAG else raw)"

definition formatCanId :: "32 word \<Rightarrow> bool \<Rightarrow> js_text" where
  "formatCanId i extended = padStart0 (if extended then 8 else 3) (toHex (unat i))"

definition hexPair :: "byte \<Rightarrow> js_text" where
  "hexPair b = padStart0 2 (toHex (unat b))"

fun formatCanData :: "bytes \<Rightarrow> js_text" where
  "formatCanData [] = []"
| "formatCanData [b] = hexPair b"
| "formatCanData (b # bs) = hexPair b @ [32] @ formatCanData bs"

definition formatCanAscii :: "bytes \<Rightarrow> js_text" where
  "formatCanAscii bs = map (\<lambda>b. if 0x20 \<le> b \<and> b < 0x7F then unat b else 46) bs"

definition CANFD_LENGTHS :: "nat list" where
  "CANFD_LENGTHS = [0, 1, 2, 3, 4, 5, 6, 7, 8, 12, 16, 20, 24, 32, 48, 64]"

fun dlcSearch :: "nat \<Rightarrow> nat \<Rightarrow> nat list \<Rightarrow> nat" where
  "dlcSearch n dlc [] = 15"
| "dlcSearch n dlc (l # ls) = (if l \<ge> n then dlc else dlcSearch n (Suc dlc) ls)"

definition canDlcForLength :: "nat \<Rightarrow> nat" where
  "canDlcForLength n = dlcSearch n 0 CANFD_LENGTHS"

text \<open>The argument is a whole number, so \<open>Math.round\<close> does nothing.\<close>

definition canLengthForDlc :: "int \<Rightarrow> nat" where
  "canLengthForDlc dlc = CANFD_LENGTHS ! nat (max 0 (min 15 dlc))"

subsection \<open>Raw ids\<close>

text \<open>An id that fits its format.\<close>

definition id_fits :: "can_bus_frame \<Rightarrow> bool" where
  "id_fits f \<longleftrightarrow> (if frameExtended f then frameId f AND CAN_EFF_MASK = frameId f
     else frameId f AND CAN_SFF_MASK = frameId f)"

lemma mask_bits:
  "CAN_EFF_MASK = mask 29" "CAN_SFF_MASK = mask 11"
  "CAN_EFF_FLAG = push_bit 31 1" "CAN_RTR_FLAG = push_bit 30 1" "CAN_ERR_FLAG = push_bit 29 1"
  by (simp_all add: can_masks mask_eq_exp_minus_1)

lemma can_bits:
  "bit CAN_EFF_FLAG n \<longleftrightarrow> n = 31" "bit CAN_RTR_FLAG n \<longleftrightarrow> n = 30" "bit CAN_ERR_FLAG n \<longleftrightarrow> n = 29"
  "bit CAN_EFF_MASK n \<longleftrightarrow> n < 29" "bit CAN_SFF_MASK n \<longleftrightarrow> n < 11"
  unfolding mask_bits bit_push_bit_iff bit_1_iff bit_mask_iff by auto

lemma nonzero_bit: "(w :: 32 word) \<noteq> 0 \<longleftrightarrow> (\<exists>n. bit w n)"
  by (metis bit_0_eq bit_eqI bot_apply bot_bool_def)

lemma flag_bits:
  "(w AND CAN_EFF_FLAG \<noteq> 0) \<longleftrightarrow> bit w 31" "(w AND CAN_RTR_FLAG \<noteq> 0) \<longleftrightarrow> bit w 30"
  "(w AND CAN_ERR_FLAG \<noteq> 0) \<longleftrightarrow> bit w 29"
  by (simp_all add: nonzero_bit bit_and_iff can_bits)

lemma rawId_bits:
  "bit (canFrameRawId f) n \<longleftrightarrow>
     (n < (if frameExtended f then 29 else 11) \<and> bit (frameId f) n)
     \<or> (n = 31 \<and> frameExtended f) \<or> (n = 30 \<and> frameRtr f) \<or> (n = 29 \<and> frameError f)"
  by (simp add: canFrameRawId_def Let_def bit_and_iff bit_or_iff can_bits) blast

lemma id_fits_bits:
  "id_fits f \<Longrightarrow> bit (frameId f) n \<Longrightarrow> n < (if frameExtended f then 29 else 11)"
  unfolding id_fits_def by (metis bit_and_iff can_bits(4,5))

lemma rawId_roundtrip:
  assumes "id_fits f"
  shows "canFrameFromRawId \<lparr>inputTime = frameTime f, inputBus = frameBus f, inputRawId = canFrameRawId f,
      inputData = frameData f, inputFd = Some (frameFd f), inputDirection = Some (frameDirection f)\<rparr>
    = f\<lparr>frameSeq := 0\<rparr>"
proof -
  have m: "canFrameRawId f AND (if frameExtended f then CAN_EFF_MASK else CAN_SFF_MASK) = frameId f"
    by (rule bit_eqI) (use id_fits_bits [OF assms] in \<open>auto simp: bit_and_iff can_bits rawId_bits split: if_splits\<close>)
  have "canFrameRawId f AND CAN_EFF_FLAG \<noteq> 0 \<longleftrightarrow> frameExtended f"
    "canFrameRawId f AND CAN_RTR_FLAG \<noteq> 0 \<longleftrightarrow> frameRtr f"
    "canFrameRawId f AND CAN_ERR_FLAG \<noteq> 0 \<longleftrightarrow> frameError f"
    by (simp_all add: flag_bits rawId_bits)
  then show ?thesis using m by (auto simp: canFrameFromRawId_def Let_def split: if_splits)
qed

subsection \<open>DLC codes\<close>

lemma dlc_lengths: "dlc \<le> 15 \<Longrightarrow> canDlcForLength (canLengthForDlc (int dlc)) = dlc"
proof -
  assume "dlc \<le> 15"
  then have "dlc \<in> set [0..<16]" by simp
  moreover have "\<forall>d\<in>set [0..<16]. canDlcForLength (canLengthForDlc (int d)) = d" by code_simp
  ultimately show ?thesis by blast
qed

lemma dlcSearch_bounds:
  "\<exists>l\<in>set ls. n \<le> l \<Longrightarrow> sorted ls \<Longrightarrow>
   dlcSearch n d ls < d + length ls \<and> d \<le> dlcSearch n d ls \<and> n \<le> ls ! (dlcSearch n d ls - d)
   \<and> (\<forall>i<dlcSearch n d ls - d. ls ! i < n)"
proof (induction ls arbitrary: d)
  case (Cons l ls)
  show ?case
  proof (cases "n \<le> l")
    case False
    then have IH: "dlcSearch n (Suc d) ls < Suc d + length ls \<and> Suc d \<le> dlcSearch n (Suc d) ls
        \<and> n \<le> ls ! (dlcSearch n (Suc d) ls - Suc d) \<and> (\<forall>i<dlcSearch n (Suc d) ls - Suc d. ls ! i < n)"
      using Cons.prems by (intro Cons.IH) auto
    let ?k = "dlcSearch n (Suc d) ls"
    have k: "?k - d = Suc (?k - Suc d)" using IH by linarith
    show ?thesis using False IH by (auto simp: k less_Suc_eq_0_disj)
  qed simp
qed simp

text \<open>The code chosen for a length stands for the shortest CAN FD payload that holds it.\<close>

lemma canDlc_shortest:
  assumes "n \<le> 64"
  shows "canDlcForLength n \<le> 15 \<and> n \<le> CANFD_LENGTHS ! canDlcForLength n
    \<and> (\<forall>l\<in>set CANFD_LENGTHS. n \<le> l \<longrightarrow> CANFD_LENGTHS ! canDlcForLength n \<le> l)"
proof -
  have s: "sorted CANFD_LENGTHS" "length CANFD_LENGTHS = 16" by (simp_all add: CANFD_LENGTHS_def)
  have "\<exists>l\<in>set CANFD_LENGTHS. n \<le> l" using assms by (auto simp: CANFD_LENGTHS_def)
  from dlcSearch_bounds [OF this s(1), of 0]
  have d: "canDlcForLength n < 16" "n \<le> CANFD_LENGTHS ! canDlcForLength n"
    "\<forall>i<canDlcForLength n. CANFD_LENGTHS ! i < n"
    by (auto simp: canDlcForLength_def s(2))
  have "CANFD_LENGTHS ! canDlcForLength n \<le> l" if l_in: "l \<in> set CANFD_LENGTHS" and l_ge: "n \<le> l" for l
  proof -
    obtain i where "i < length CANFD_LENGTHS" and l: "CANFD_LENGTHS ! i = l"
      using l_in unfolding in_set_conv_nth by blast
    then have i: "i < 16" "l = CANFD_LENGTHS ! i" by (simp_all add: s(2))
    then have "canDlcForLength n \<le> i" using d(3) l_ge by (metis leD not_le_imp_less)
    then show ?thesis using sorted_nth_mono [OF s(1), of "canDlcForLength n" i] i s(2) by simp
  qed
  then show ?thesis using d by auto
qed

end
