(* ===== verification/Stream_Decoder.thy ===== *)
theory Stream_Decoder
  imports Prelude
begin

text \<open>
  The interface of a decoder that is fed a byte stream in chunks of any size: it consumes its
  input byte by byte, and what it has emitted after several chunks depends on their
  concatenation alone. The SLCAN line splitter and the MSP decoder provide it.
\<close>

locale stream_decoder =
  fixes step :: "byte \<Rightarrow> 's \<Rightarrow> 's \<times> 'o list"
    and push :: "bytes \<Rightarrow> 's \<Rightarrow> 's \<times> 'o list"
  assumes push_Nil: "push [] s = (s, [])"
    and push_Cons: "push (b # bs) s = (let (s', out) = step b s; (s'', out') = push bs s' in (s'', out @ out'))"
begin

lemma push_append:
  "push (xs @ ys) s = (let (s', out) = push xs s; (s'', out') = push ys s' in (s'', out @ out'))"
  by (induction xs arbitrary: s) (simp_all add: push_Nil push_Cons split: prod.split)

lemma push_single: "push [b] s = step b s"
  by (simp add: push_Nil push_Cons split: prod.split)

text \<open>Feeding chunks one after the other.\<close>

primrec pushAll :: "bytes list \<Rightarrow> 's \<Rightarrow> 's \<times> 'o list" where
  "pushAll [] s = (s, [])"
| "pushAll (c # cs) s = (let (s', out) = push c s; (s'', out') = pushAll cs s' in (s'', out @ out'))"

lemma pushAll_concat: "pushAll cs s = push (concat cs) s"
  by (induction cs arbitrary: s) (simp_all add: push_Nil push_append split: prod.split)

lemma chunking_irrelevant: "concat cs = concat ds \<Longrightarrow> pushAll cs s = pushAll ds s"
  by (simp add: pushAll_concat)

lemma push_invariant:
  assumes "\<And>b s. I s \<Longrightarrow> I (fst (step b s))" and "I s"
  shows "I (fst (push bs s))"
  using assms(2)
proof (induction bs arbitrary: s)
  case Nil
  then show ?case by (simp add: push_Nil)
next
  case (Cons b bs)
  from Cons.IH [OF assms(1) [OF Cons.prems, of b]] show ?case
    by (simp add: push_Cons split: prod.split) (metis fst_conv)
qed

end

end
