(* ===== verification/Slcan.thy ===== *)
theory Slcan
  imports Can_Frame Stream_Decoder
begin

unbundle bit_operations_syntax

text \<open>
  \<open>can-core/src/slcan.ts\<close>: the SLCAN text protocol of USB-CAN adapters. Lines are lists of
  character codes. The encoder, the line parser and the splitter of the byte stream are
  modelled, and the part of \<open>SlcanAdapter\<close> that handles received bytes; \<open>open\<close>, \<open>command\<close> and
  the other methods wait on promises and timers.
\<close>

subsection \<open>Encoding\<close>

definition SLCAN_BITRATES :: "(nat \<times> nat) list" where
  "SLCAN_BITRATES = [(0, 10000), (1, 20000), (2, 50000), (3, 100000), (4, 125000), (5, 250000),
     (6, 500000), (7, 800000), (8, 1000000)]"

definition slcanBitrateCommand :: "nat \<Rightarrow> js_text option" where
  "slcanBitrateCommand bitrate =
     map_option (\<lambda>(code, _). [83, 48 + code, 13]) (find (\<lambda>(_, rate). rate = bitrate) SLCAN_BITRATES)"

record adapter_frame =
  adapterId :: "32 word"
  adapterExtended :: bool
  adapterData :: bytes
  adapterFd :: bool
  adapterRtr :: bool

definition slcanHex :: "nat \<Rightarrow> nat \<Rightarrow> js_text" where
  "slcanHex n digits = lastChars digits (padStart0 digits (toHex n))"

datatype slcan_error = Classic_too_long | Fd_too_long

definition slcanType :: "bool \<Rightarrow> bool \<Rightarrow> bool \<Rightarrow> nat" where
  "slcanType rtr fd extended =
     (if rtr then (if extended then 82 else 114)
      else if fd then (if extended then 68 else 100)
      else if extended then 84 else 116)"

definition slcanPayload :: "nat \<Rightarrow> bytes \<Rightarrow> js_text" where
  "slcanPayload n bs =
     concat (map (\<lambda>i. slcanHex (if i < length bs then unat (bs ! i) else 0) 2) [0..<n])"

definition encodeSlcanFrame :: "adapter_frame \<Rightarrow> slcan_error + js_text" where
  "encodeSlcanFrame frame =
     (let fd = adapterFd frame;
          rtr = (\<not> fd \<and> adapterRtr frame);
          size = length (adapterData frame)
      in if \<not> fd \<and> size > 8 then Inl Classic_too_long
         else if size > 64 then Inl Fd_too_long
         else
           (let dlc = (if fd then canDlcForLength size else size);
                len = (if fd then canLengthForDlc (int dlc) else size);
                line = [slcanType rtr fd (adapterExtended frame)]
                  @ (if adapterExtended frame then slcanHex (unat (adapterId frame AND 0x1FFFFFFF)) 8
                     else slcanHex (unat (adapterId frame AND 0x7FF)) 3)
                  @ toHex dlc;
                line = (if rtr then line else line @ slcanPayload len (adapterData frame))
            in Inr (line @ [13])))"

subsection \<open>Parsing\<close>

datatype slcan_line =
    Frame_line "32 word" bytes bool "nat option"
  | Ok_line | Error_line | Reply_line js_text

text \<open>\<open>Number.parseInt\<close> of a text that the \<open>HEX\<close> test accepted.\<close>

definition hexValue :: "js_text \<Rightarrow> nat" where
  "hexValue s = nat (hexPrefix 0 s)"

fun hexBytes :: "js_text \<Rightarrow> bytes" where
  "hexBytes (a # b # s) = of_nat (hexValue [a, b]) # hexBytes s"
| "hexBytes _ = []"

definition slcanStamp :: "js_text \<Rightarrow> nat option" where
  "slcanStamp rest = (if 4 \<le> length rest \<and> isHex (take 4 rest) then Some (hexValue (take 4 rest)) else None)"

definition parseSlcanLine :: "js_text \<Rightarrow> slcan_line option" where
  "parseSlcanLine line =
     (if line = [] then Some Ok_line
      else let type = hd line in
      if (type = 122 \<or> type = 90) \<and> length line = 1 then Some Ok_line
      else let extended = (type = 84 \<or> type = 82 \<or> type = 68);
               isFrame = (type \<in> {116, 84, 114, 82, 100, 68})
      in if \<not> isFrame then Some (Reply_line line)
      else let idDigits = (if extended then 8 else 3);
               idText = take idDigits (drop 1 line)
      in if length idText \<noteq> idDigits \<or> length line \<le> 1 + idDigits \<or> \<not> isHex idText
            \<or> \<not> isHex [line ! (1 + idDigits)] then None
      else let fd = (type = 100 \<or> type = 68);
               rtr = (type = 114 \<or> type = 82);
               dlc = hexValue [line ! (1 + idDigits)]
      in if \<not> fd \<and> dlc > 8 then None
      else let len = (if fd then canLengthForDlc (int dlc) else dlc);
               i = hexValue idText
      in if (if extended then i > 0x1FFFFFFF else i > 0x7FF) then None
      else let cursor = 2 + idDigits;
               dataText = take (len * 2) (drop cursor line)
      in if \<not> rtr \<and> (length dataText \<noteq> len * 2 \<or> \<not> isHex dataText) then None
      else let payload = (if rtr then [] else hexBytes dataText);
               cursor = (if rtr then cursor else cursor + len * 2);
               rawId = (of_nat i :: 32 word);
               rawId = (if extended then rawId OR CAN_EFF_FLAG else rawId);
               rawId = (if rtr then rawId OR CAN_RTR_FLAG else rawId)
      in Some (Frame_line rawId payload fd (slcanStamp (drop cursor line))))"

subsection \<open>Splitting the byte stream\<close>

text \<open>The state is the text of the line so far.\<close>

definition splitStep :: "byte \<Rightarrow> js_text \<Rightarrow> js_text \<times> slcan_line list" where
  "splitStep b buffer =
     (if b = 0x0D then ([], case parseSlcanLine buffer of None \<Rightarrow> [] | Some l \<Rightarrow> [l])
      else if b = 0x07 then ([], [Error_line])
      else if b = 0x0A then (buffer, [])
      else if 0x20 \<le> b \<and> b < 0x7F then
        (let grown = buffer @ [unat b] in (if length grown > 200 then [] else grown, []))
      else (buffer, []))"

fun splitterPush :: "bytes \<Rightarrow> js_text \<Rightarrow> js_text \<times> slcan_line list" where
  "splitterPush [] buffer = (buffer, [])"
| "splitterPush (b # bs) buffer =
     (let (buffer', out) = splitStep b buffer; (buffer'', out') = splitterPush bs buffer'
      in (buffer'', out @ out'))"

interpretation slcan: stream_decoder splitStep splitterPush
  by unfold_locales simp_all

subsection \<open>Received bytes\<close>

text \<open>
  The state of \<open>SlcanAdapter\<close> that \<open>handleBytes\<close> works on. The listeners are called with every
  input of \<open>delivered\<close>; \<open>replyWaiter\<close> tells whether a command waits, and \<open>replied\<close> what the
  waiter was resolved with (it clears itself).
\<close>

record slcan_adapter =
  splitterBuffer :: js_text
  opened :: bool
  waiting :: bool
  replied :: "slcan_line option"
  txErrors :: nat
  delivered :: "can_input list"

definition handleLine :: "rat \<Rightarrow> slcan_line \<Rightarrow> slcan_adapter \<Rightarrow> slcan_adapter" where
  "handleLine now line a =
     (case line of
        Frame_line raw payload fd stamp \<Rightarrow>
          if \<not> opened a then a
          else a\<lparr>delivered := delivered a @ [\<lparr>inputTime = now, inputBus = 1, inputRawId = raw,
            inputData = payload, inputFd = Some fd, inputDirection = Some Rx\<rparr>]\<rparr>
      | _ \<Rightarrow>
          if waiting a \<and> (line = Ok_line \<or> line = Error_line)
          then a\<lparr>waiting := False, replied := Some line\<rparr>
          else if line = Error_line \<and> opened a then a\<lparr>txErrors := txErrors a + 1\<rparr>
          else a)"

definition handleBytes :: "rat \<Rightarrow> bytes \<Rightarrow> slcan_adapter \<Rightarrow> slcan_adapter" where
  "handleBytes now bs a =
     (let (buffer, lines) = splitterPush bs (splitterBuffer a)
      in fold (handleLine now) lines (a\<lparr>splitterBuffer := buffer\<rparr>))"

subsection \<open>A frame survives encoding and parsing\<close>

lemma parse_frame:
  assumes ext: "(ty = 84 \<or> ty = 82 \<or> ty = 68) = extended"
    and fd: "(ty = 100 \<or> ty = 68) = fd" and rtr: "(ty = 114 \<or> ty = 82) = rtr"
    and len: "len = (if fd then canLengthForDlc (int (hexValue [d])) else hexValue [d])"
    and ty: "ty \<in> {116, 84, 114, 82, 100, 68}"
    and idText: "length idText = (if extended then 8 else 3)" "isHex idText" "isHex [d]"
    and small: "\<not> fd \<longrightarrow> hexValue [d] \<le> 8"
    and range: "if extended then hexValue idText \<le> 0x1FFFFFFF else hexValue idText \<le> 0x7FF"
    and body: "if rtr then body = [] else length body = len * 2 \<and> isHex body"
  shows "parseSlcanLine (ty # idText @ d # body) = Some (Frame_line
    ((of_nat (hexValue idText) OR (if extended then CAN_EFF_FLAG else 0)) OR (if rtr then CAN_RTR_FLAG else 0))
    (if rtr then [] else hexBytes body) fd None)"
proof -
  let ?line = "ty # idText @ d # body"
  let ?k = "if extended then 8 else 3 :: nat"
  have k: "take ?k (drop 1 ?line) = idText" "?line ! (1 + ?k) = d" "drop (2 + ?k) ?line = body"
    "length ?line = 2 + ?k + length body"
    using idText(1) by (simp_all add: nth_append)
  have st: "slcanStamp [] = None" by (simp add: slcanStamp_def)
  have ne: "(?line = []) = False" "hd ?line = ty" "((ty = 122 \<or> ty = 90) \<and> length ?line = 1) = False"
    using idText(1) by auto
  have c1: "(length idText \<noteq> ?k \<or> length ?line \<le> 1 + ?k \<or> \<not> isHex idText \<or> \<not> isHex [d]) = False"
    using idText k(4) by simp
  have c2: "(\<not> fd \<and> 8 < hexValue [d]) = False" using small by auto
  have c3: "(if extended then 0x1FFFFFFF < hexValue idText else 0x7FF < hexValue idText) = False"
    using range by auto
  have isf: "(\<not> ty \<in> {116, 84, 114, 82, 100, 68}) = False" using ty by blast
  show ?thesis
  proof (cases rtr)
    case True
    then show ?thesis
      unfolding parseSlcanLine_def Let_def ne if_False isf ext fd rtr k(1,2) c1 c2 len [symmetric] c3 k(3)
      using body st idText(1) by (simp add: True)
  next
    case False
    have b: "take (len * 2) body = body" "length body = len * 2" "isHex body" using body False by auto
    have e: "drop (2 + ?k + len * 2) ?line = []" using k(4) b(2) by simp
    show ?thesis
      unfolding parseSlcanLine_def Let_def ne if_False isf ext fd rtr k(1,2) c1 c2 len [symmetric] c3 k(3) b(1)
      using b st e by (simp add: False del: drop_append)
  qed
qed

lemma slcanHex_hexFixed: "slcanHex n k = hexFixed k n"
  by (simp add: slcanHex_def lastChars_toHex)

lemma hexValue_hexFixed: "hexValue (hexFixed k n) = n mod 16 ^ k"
  by (simp add: hexValue_def hexPrefix_hexFixed)

lemma hexValue_digit: "n < 16 \<Longrightarrow> hexValue [hexChar n] = n"
  by (simp add: hexValue_def hexChar_digit)

definition zeroExtended :: "nat \<Rightarrow> bytes \<Rightarrow> bytes" where
  "zeroExtended n bs = bs @ replicate (n - length bs) 0"

lemma slcanPayload_props:
  "length (slcanPayload n bs) = n * 2" "isHex (slcanPayload n bs)"
  "hexBytes (slcanPayload n bs) = map (\<lambda>i. if i < length bs then bs ! i else 0) [0..<n]"
proof -
  have app: "hexBytes (hexFixed 2 v @ s) = of_nat (v mod 256) # hexBytes s" for v s
  proof -
    have "hexFixed 2 v = [hexFixed 2 v ! 0, hexFixed 2 v ! 1]"
      by (simp add: numeral_2_eq_2)
    then obtain a b where ab: "hexFixed 2 v = [a, b]" by blast
    have "hexValue [a, b] = v mod 256" using hexValue_hexFixed [of 2 v] ab by simp
    then show ?thesis by (simp add: ab)
  qed
  have hb: "hexBytes (concat (map (\<lambda>i. hexFixed 2 (f i)) is)) = map (\<lambda>i. of_nat (f i mod 256)) is" for f :: "nat \<Rightarrow> nat" and "is"
    by (induction "is") (simp_all add: app)
  have small: "unat (b :: byte) mod 256 = unat b" for b
    using unsigned_less [of b, where 'a = nat] by simp
  show "length (slcanPayload n bs) = n * 2"
    by (simp add: slcanPayload_def length_concat slcanHex_hexFixed comp_def sum_list_triv)
  have "isHex (concat (map (\<lambda>i. hexFixed 2 (f i)) is))" for f :: "nat \<Rightarrow> nat" and "is"
    using isHex_hexFixed by (induction "is") (auto simp: isHex_def)
  then show "isHex (slcanPayload n bs)" by (simp add: slcanPayload_def slcanHex_hexFixed)
  show "hexBytes (slcanPayload n bs) = map (\<lambda>i. if i < length bs then bs ! i else 0) [0..<n]"
    unfolding slcanPayload_def slcanHex_hexFixed hb by (simp add: small if_distrib cong: if_cong)
qed

lemma zeroExtended_map:
  "length bs \<le> n \<Longrightarrow> map (\<lambda>i. if i < length bs then bs ! i else 0) [0..<n] = zeroExtended n bs"
  by (intro nth_equalityI) (auto simp: zeroExtended_def nth_append)

text \<open>A frame the format can carry, and its payload on the wire.\<close>

definition slcan_ok :: "adapter_frame \<Rightarrow> bool" where
  "slcan_ok f \<longleftrightarrow>
     adapterId f AND (if adapterExtended f then 0x1FFFFFFF else 0x7FF) = adapterId f
     \<and> length (adapterData f) \<le> (if adapterFd f then 64 else 8)"

definition slcanWire :: "adapter_frame \<Rightarrow> slcan_line" where
  "slcanWire f =
     (let rtr = (\<not> adapterFd f \<and> adapterRtr f);
          n = length (adapterData f)
      in Frame_line ((adapterId f OR (if adapterExtended f then CAN_EFF_FLAG else 0)) OR (if rtr then CAN_RTR_FLAG else 0))
           (if rtr then [] else zeroExtended (if adapterFd f then canLengthForDlc (int (canDlcForLength n)) else n) (adapterData f))
           (adapterFd f) None)"

lemma toHex_digit: "n < 16 \<Longrightarrow> toHex n = [hexChar n]"
  by (subst toHex.simps) simp

lemma unat_and_bound: "unat ((w :: 32 word) AND m) \<le> unat m"
  by (rule word_le_nat_alt [THEN iffD1]) (rule word_and_le1)

lemma slcan_roundtrip:
  assumes "slcan_ok f"
  shows "\<exists>line. encodeSlcanFrame f = Inr (line @ [13]) \<and> parseSlcanLine line = Some (slcanWire f)
    \<and> length line \<le> 138 \<and> (\<forall>c\<in>set line. 0x20 \<le> c \<and> c < 0x7F)"
proof -
  let ?n = "length (adapterData f)" and ?fd = "adapterFd f" and ?ext = "adapterExtended f"
  let ?rtr = "\<not> ?fd \<and> adapterRtr f"
  let ?dlc = "if ?fd then canDlcForLength ?n else ?n"
  let ?len = "if ?fd then canLengthForDlc (int ?dlc) else ?n"
  let ?k = "if ?ext then 8 else 3 :: nat"
  let ?mask = "if ?ext then 0x1FFFFFFF else 0x7FF :: 32 word"
  let ?id = "hexFixed ?k (unat (adapterId f AND ?mask))"
  let ?ty = "slcanType ?rtr ?fd ?ext"
  let ?body = "if ?rtr then [] else slcanPayload ?len (adapterData f)"
  let ?line = "?ty # ?id @ hexChar ?dlc # ?body"
  have n64: "?n \<le> 64" using assms by (auto simp: slcan_ok_def split: if_splits)
  have dlc: "?dlc \<le> 15" "\<not> ?fd \<longrightarrow> ?dlc \<le> 8"
    using assms canDlc_shortest [OF n64] by (auto simp: slcan_ok_def)
  have len: "?n \<le> ?len" using canDlc_shortest [OF n64] by (auto simp: canLengthForDlc_def)
  have len64: "?len \<le> 64"
  proof (cases ?fd)
    case True
    have "CANFD_LENGTHS ! canDlcForLength ?n \<le> 64"
      using canDlc_shortest [OF n64] n64 by (auto simp: CANFD_LENGTHS_def)
    then show ?thesis using True dlc(1) by (simp add: canLengthForDlc_def)
  qed (use n64 in simp)
  have enc: "encodeSlcanFrame f = Inr (?line @ [13])"
    using assms dlc(1) by (auto simp: encodeSlcanFrame_def Let_def slcan_ok_def slcanHex_hexFixed toHex_digit split: if_splits)
  have ty: "?ty \<in> {116, 84, 114, 82, 100, 68}" "(?ty = 84 \<or> ?ty = 82 \<or> ?ty = 68) = ?ext"
    "(?ty = 100 \<or> ?ty = 68) = ?fd" "(?ty = 114 \<or> ?ty = 82) = ?rtr"
    by (simp_all add: slcanType_def)
  have dv: "hexValue [hexChar ?dlc] = ?dlc" using dlc(1) by (intro hexValue_digit) simp
  have mk: "unat ?mask < 16 ^ ?k" by simp
  have iv: "hexValue ?id = unat (adapterId f)"
  proof -
    have "adapterId f AND ?mask = adapterId f" using assms by (simp add: slcan_ok_def split: if_splits)
    moreover have "unat (adapterId f AND ?mask) < 16 ^ ?k"
      using unat_and_bound [of "adapterId f" ?mask] mk by linarith
    ultimately show ?thesis by (simp only: hexValue_hexFixed mod_less)
  qed
  have ib: "if ?ext then hexValue ?id \<le> 0x1FFFFFFF else hexValue ?id \<le> 0x7FF"
    using unat_and_bound [of "adapterId f" ?mask] assms unfolding iv by (auto simp: slcan_ok_def split: if_splits)
  have hd: "isHex [hexChar ?dlc]" using dlc(1) by (simp add: isHex_def hexChar_digit)
  have lenEq: "?len = (if ?fd then canLengthForDlc (int (hexValue [hexChar ?dlc])) else hexValue [hexChar ?dlc])"
    unfolding dv by (cases ?fd) simp_all
  have small: "\<not> ?fd \<longrightarrow> hexValue [hexChar ?dlc] \<le> 8" using dlc(2) by (simp only: dv)
  have bodyOk: "if ?rtr then ?body = [] else length ?body = ?len * 2 \<and> isHex ?body"
    by (simp add: slcanPayload_props(1,2))
  have idLen: "length ?id = ?k" by simp
  note run = parse_frame [OF ty(2-4) lenEq ty(1) idLen isHex_hexFixed hd small ib bodyOk, unfolded iv]
  have wire: "slcanWire f = Frame_line
      ((of_nat (unat (adapterId f)) OR (if ?ext then CAN_EFF_FLAG else 0)) OR (if ?rtr then CAN_RTR_FLAG else 0))
      (if ?rtr then [] else hexBytes ?body) ?fd None"
    using slcanPayload_props(3) [of ?len "adapterData f"] zeroExtended_map [OF len]
    by (cases ?rtr) (auto simp: slcanWire_def Let_def)
  have parse: "parseSlcanLine ?line = Some (slcanWire f)" unfolding wire by (rule run)
  have chars: "0x20 \<le> c \<and> c < 0x7F" if cin: "c \<in> set ?line" for c
  proof -
    have hx: "0x20 \<le> c \<and> c < 0x7F" if "isHex s" "c \<in> set s" for s
      using isHex_chars [OF that] hexDigit_plain [of c] by auto
    consider "c = ?ty" | "c \<in> set ?id" | "c \<in> set [hexChar ?dlc]" | "c \<in> set ?body" using cin by auto
    then show ?thesis
      using hx [OF isHex_hexFixed] hx [OF hd] hx [OF slcanPayload_props(2)] ty(1)
      by cases (auto split: if_splits)
  qed
  have "length ?line \<le> 138" using len64 by (simp add: slcanPayload_props(1))
  then show ?thesis using enc parse chars by blast
qed

subsection \<open>The stream of encoded frames\<close>

definition lineBytes :: "js_text \<Rightarrow> bytes" where
  "lineBytes line = map of_nat line"

lemma splitter_text:
  "\<forall>c\<in>set line. 0x20 \<le> c \<and> c < 0x7F \<Longrightarrow> length buffer + length line \<le> 200 \<Longrightarrow>
   splitterPush (lineBytes line) buffer = (buffer @ line, [])"
proof (induction line arbitrary: buffer)
  case Nil
  then show ?case by (simp add: lineBytes_def)
next
  case (Cons c cs)
  have u: "unat (of_nat c :: byte) = c" using Cons.prems(1) by (intro unat_of_nat_byte) simp
  have c: "(of_nat c :: byte) \<noteq> 0x0D" "(of_nat c :: byte) \<noteq> 0x07" "(of_nat c :: byte) \<noteq> 0x0A"
    "0x20 \<le> (of_nat c :: byte)" "(of_nat c :: byte) < 0x7F"
    using u Cons.prems(1) by (auto simp: word_le_nat_alt word_less_nat_alt)
  have "splitStep (of_nat c) buffer = (buffer @ [c], [])"
    using c u Cons.prems(2) by (simp add: splitStep_def Let_def)
  then show ?case using Cons.IH [of "buffer @ [c]"] Cons.prems by (simp add: lineBytes_def)
qed

lemma splitter_line:
  assumes "\<forall>c\<in>set line. 0x20 \<le> c \<and> c < 0x7F" "length line \<le> 200" "parseSlcanLine line = Some l"
  shows "splitterPush (lineBytes (line @ [13])) [] = ([], [l])"
  using splitter_text [OF assms(1), of "[]"] assms(2,3)
  by (simp add: lineBytes_def slcan.push_append splitStep_def)

lemma splitter_frames:
  assumes "list_all slcan_ok fs"
  shows "\<exists>texts. map encodeSlcanFrame fs = map Inr texts
    \<and> splitterPush (lineBytes (concat texts)) [] = ([], map slcanWire fs)"
  using assms
proof (induction fs)
  case Nil
  then show ?case by (intro exI [of _ "[]"]) (simp add: lineBytes_def)
next
  case (Cons f fs)
  then obtain texts where t: "map encodeSlcanFrame fs = map Inr texts"
    "splitterPush (lineBytes (concat texts)) [] = ([], map slcanWire fs)" by auto
  obtain line where l: "encodeSlcanFrame f = Inr (line @ [13])" "parseSlcanLine line = Some (slcanWire f)"
    "length line \<le> 138" "\<forall>c\<in>set line. 0x20 \<le> c \<and> c < 0x7F"
    using slcan_roundtrip [of f] Cons.prems by auto
  have "splitterPush (lineBytes (line @ [13])) [] = ([], [slcanWire f])"
    using l by (intro splitter_line) auto
  moreover have "lineBytes (concat ((line @ [13]) # texts)) = lineBytes (line @ [13]) @ lineBytes (concat texts)"
    by (simp add: lineBytes_def)
  ultimately have "splitterPush (lineBytes (concat ((line @ [13]) # texts))) []
      = ([], slcanWire f # map slcanWire fs)"
    using t(2) by (simp only: slcan.push_append) simp
  then show ?case using t(1) l(1) by (intro exI [of _ "(line @ [13]) # texts"]) simp
qed

lemma splitter_bounded: "length buffer \<le> 200 \<Longrightarrow> length (fst (splitterPush bs buffer)) \<le> 200"
  by (rule slcan.push_invariant [where I = "\<lambda>s. length s \<le> 200"]) (auto simp: splitStep_def Let_def)

end
