(* ===== verification/Capture_Buffer.thy ===== *)
theory Capture_Buffer
  imports Can_Frame
begin

text \<open>
  \<open>can-core/src/capture-buffer.ts\<close>: the ring of captured frames. The abstract specification is a
  log that keeps the newest \<open>capacity\<close> frames of everything captured, numbered from 1; the
  locale \<open>bounded_log\<close> states what a client relies on, and the ring is an interpretation.
\<close>

subsection \<open>The ring\<close>

record capture_buffer =
  capacity :: nat
  ring :: "can_bus_frame option list"
  headIndex :: nat
  heldCount :: nat
  nextSeq :: nat
  overwritten :: nat

definition newCapture :: "int \<Rightarrow> capture_buffer option" where
  "newCapture n =
     (if n \<le> 0 then None
      else Some \<lparr>capacity = nat n, ring = replicate (nat n) None, headIndex = 0, heldCount = 0,
        nextSeq = 1, overwritten = 0\<rparr>)"

definition capture :: "can_bus_frame \<Rightarrow> capture_buffer \<Rightarrow> capture_buffer \<times> can_bus_frame" where
  "capture frame b =
     (let stored = frame\<lparr>frameSeq := nextSeq b\<rparr>;
          b = b\<lparr>nextSeq := nextSeq b + 1\<rparr>;
          b = b\<lparr>ring := (ring b)[headIndex b := Some stored]\<rparr>;
          b = b\<lparr>headIndex := (headIndex b + 1) mod capacity b\<rparr>;
          b = (if heldCount b < capacity b then b\<lparr>heldCount := heldCount b + 1\<rparr>
               else b\<lparr>overwritten := overwritten b + 1\<rparr>)
      in (b, stored))"

definition totalCaptured :: "capture_buffer \<Rightarrow> nat" where
  "totalCaptured b = nextSeq b - 1"

definition lastSeq :: "capture_buffer \<Rightarrow> nat" where
  "lastSeq b = (if heldCount b = 0 then 0 else nextSeq b - 1)"

definition frameAt :: "int \<Rightarrow> capture_buffer \<Rightarrow> can_bus_frame option" where
  "frameAt index b =
     (if index < 0 \<or> index \<ge> int (heldCount b) then None
      else let oldest = (headIndex b + capacity b - heldCount b) mod capacity b
           in ring b ! ((oldest + nat index) mod capacity b))"

definition captureArray :: "capture_buffer \<Rightarrow> can_bus_frame list" where
  "captureArray b = map (\<lambda>i. the (frameAt (int i) b)) [0..<heldCount b]"

text \<open>The loop of \<open>since\<close>: from the newest frame down to the first one already seen.\<close>

fun sinceLoop :: "nat \<Rightarrow> capture_buffer \<Rightarrow> nat \<Rightarrow> can_bus_frame list" where
  "sinceLoop afterSeq b 0 = []"
| "sinceLoop afterSeq b (Suc index) =
     (let frame = the (frameAt (int index) b)
      in if frameSeq frame \<le> afterSeq then [] else frame # sinceLoop afterSeq b index)"

definition since :: "nat \<Rightarrow> capture_buffer \<Rightarrow> can_bus_frame list" where
  "since afterSeq b = rev (sinceLoop afterSeq b (heldCount b))"

definition clearCapture :: "capture_buffer \<Rightarrow> capture_buffer" where
  "clearCapture b = b\<lparr>ring := replicate (length (ring b)) None, headIndex := 0, heldCount := 0,
     nextSeq := 1, overwritten := 0\<rparr>"

subsection \<open>The specification\<close>

text \<open>Numbering the captured frames from 1, in order.\<close>

definition numbered :: "can_bus_frame list \<Rightarrow> can_bus_frame list" where
  "numbered fs = map (\<lambda>(i, f). f\<lparr>frameSeq := i + 1\<rparr>) (enumerate 0 fs)"

definition newest :: "nat \<Rightarrow> 'a list \<Rightarrow> 'a list" where
  "newest n xs = drop (length xs - n) xs"

text \<open>\<open>shows_log b fs\<close>: the buffer has captured \<open>fs\<close> since the last clear.\<close>

definition shows_log :: "capture_buffer \<Rightarrow> can_bus_frame list \<Rightarrow> bool" where
  "shows_log b fs \<longleftrightarrow>
     0 < capacity b \<and> length (ring b) = capacity b
     \<and> headIndex b = length fs mod capacity b \<and> nextSeq b = length fs + 1
     \<and> heldCount b = min (length fs) (capacity b) \<and> overwritten b = length fs - capacity b
     \<and> (\<forall>k<length fs. length fs \<le> k + capacity b \<longrightarrow> ring b ! (k mod capacity b) = Some (numbered fs ! k))"

locale bounded_log =
  fixes shows_log :: "'b \<Rightarrow> 'a list \<Rightarrow> bool"
    and cap :: "'b \<Rightarrow> nat"
    and add :: "'a \<Rightarrow> 'b \<Rightarrow> 'b"
    and contents :: "'b \<Rightarrow> 'a list"
    and number :: "'a list \<Rightarrow> 'a list"
  assumes add_shows: "shows_log b fs \<Longrightarrow> shows_log (add f b) (fs @ [f])"
    and cap_add: "cap (add f b) = cap b"
    and contents_newest: "shows_log b fs \<Longrightarrow> contents b = newest (cap b) (number fs)"
begin

lemma fold_add_shows: "shows_log b fs \<Longrightarrow> shows_log (fold add gs b) (fs @ gs)"
  by (induction gs arbitrary: b fs) (use add_shows in \<open>fastforce+\<close>)

lemma cap_fold: "cap (fold add gs b) = cap b"
  by (induction gs arbitrary: b) (simp_all add: cap_add)

lemma contents_fold:
  "shows_log b [] \<Longrightarrow> contents (fold add gs b) = newest (cap b) (number gs)"
  using contents_newest [OF fold_add_shows] by (fastforce simp: cap_fold)

end

subsection \<open>The ring implements the log\<close>

lemma length_numbered [simp]: "length (numbered fs) = length fs"
  by (simp add: numbered_def)

lemma numbered_nth: "k < length fs \<Longrightarrow> numbered fs ! k = (fs ! k)\<lparr>frameSeq := k + 1\<rparr>"
  by (simp add: numbered_def nth_enumerate_eq)

lemma numbered_append: "k < length fs \<Longrightarrow> numbered (fs @ gs) ! k = numbered fs ! k"
  by (simp add: numbered_nth nth_append)

lemma newCapture_shows: "newCapture n = Some b \<Longrightarrow> shows_log b [] \<and> capacity b = nat n"
  by (auto simp: newCapture_def shows_log_def split: if_splits)

text \<open>Two of the newest indices share a slot only if they are equal.\<close>

lemma slot_distinct:
  "k < n \<Longrightarrow> n < k + c \<Longrightarrow> k mod c \<noteq> n mod (c :: nat)"
  using mod_eq_dvd_iff_nat [of k n c] by (auto dest: dvd_imp_le)

lemma capture_shows:
  assumes "shows_log b fs"
  shows "shows_log (fst (capture f b)) (fs @ [f])"
proof -
  let ?c = "capacity b" and ?n = "length fs"
  have c: "0 < ?c" "length (ring b) = ?c" "headIndex b = ?n mod ?c" "nextSeq b = ?n + 1"
    "heldCount b = min ?n ?c" "overwritten b = ?n - ?c"
    and r: "\<And>k. k < ?n \<Longrightarrow> ?n \<le> k + ?c \<Longrightarrow> ring b ! (k mod ?c) = Some (numbered fs ! k)"
    using assms by (auto simp: shows_log_def)
  let ?st = "f\<lparr>frameSeq := ?n + 1\<rparr>"
  let ?b = "fst (capture f b)"
  have b: "ring ?b = (ring b)[?n mod ?c := Some ?st]" "capacity ?b = ?c"
    "headIndex ?b = Suc ?n mod ?c" "nextSeq ?b = ?n + 2"
    "heldCount ?b = min (Suc ?n) ?c" "overwritten ?b = Suc ?n - ?c"
    using c by (auto simp: capture_def Let_def mod_Suc_eq)
  have slots: "ring ?b ! (k mod ?c) = Some (numbered (fs @ [f]) ! k)" if k: "k < Suc ?n" "Suc ?n \<le> k + ?c" for k
  proof (cases "k = ?n")
    case True
    then show ?thesis using c by (simp add: b numbered_nth)
  next
    case False
    then have "k < ?n" using k by simp
    then show ?thesis using slot_distinct [of k ?n ?c] k r [of k] by (simp add: b numbered_append)
  qed
  show ?thesis using c b slots by (simp add: shows_log_def)
qed

lemma frameAt_shows:
  assumes "shows_log b fs" "i < heldCount b"
  shows "frameAt (int i) b = Some (numbered fs ! (length fs - heldCount b + i))"
proof -
  let ?c = "capacity b" and ?n = "length fs" and ?h = "heldCount b"
  have c: "0 < ?c" "headIndex b = ?n mod ?c" "?h = min ?n ?c"
    and r: "\<And>k. k < ?n \<Longrightarrow> ?n \<le> k + ?c \<Longrightarrow> ring b ! (k mod ?c) = Some (numbered fs ! k)"
    using assms(1) by (auto simp: shows_log_def)
  have h: "?h \<le> ?c" "?h \<le> ?n" using c(3) by auto
  have "((?n mod ?c + ?c - ?h) mod ?c + i) mod ?c = (?n - ?h + i) mod ?c"
  proof -
    have "((?n mod ?c + ?c - ?h) mod ?c + i) mod ?c = (?n mod ?c + (?c - ?h + i)) mod ?c"
      using h(1) by (simp add: mod_simps algebra_simps)
    also have "\<dots> = (?n + (?c - ?h + i)) mod ?c" by (simp add: mod_simps)
    also have "?n + (?c - ?h + i) = (?n - ?h + i) + ?c" using h by simp
    finally show ?thesis by simp
  qed
  moreover have "ring b ! ((?n - ?h + i) mod ?c) = Some (numbered fs ! (?n - ?h + i))"
    using assms(2) h c(3) by (intro r) auto
  moreover have "\<not> (int i < 0 \<or> int i \<ge> int ?h)" using assms(2) by simp
  ultimately show ?thesis unfolding frameAt_def Let_def c(2) by simp
qed

lemma captureArray_shows:
  assumes "shows_log b fs"
  shows "captureArray b = newest (capacity b) (numbered fs)"
proof (rule nth_equalityI)
  have h: "heldCount b = min (length fs) (capacity b)" using assms by (simp add: shows_log_def)
  show "length (captureArray b) = length (newest (capacity b) (numbered fs))"
    using h by (simp add: captureArray_def newest_def min_def)
  fix i assume "i < length (captureArray b)"
  then have i: "i < heldCount b" by (simp add: captureArray_def)
  then show "captureArray b ! i = newest (capacity b) (numbered fs) ! i"
    using frameAt_shows [OF assms i] h by (simp add: captureArray_def newest_def min_def split: if_splits)
qed

interpretation capture_log: bounded_log shows_log capacity "\<lambda>f b. fst (capture f b)" captureArray numbered
proof
  show "shows_log (fst (capture f b)) (fs @ [f])" if "shows_log b fs" for b fs f
    using that by (rule capture_shows)
  show "capacity (fst (capture f b)) = capacity b" for f b by (simp add: capture_def Let_def)
  show "captureArray b = newest (capacity b) (numbered fs)" if "shows_log b fs" for b fs
    using that by (rule captureArray_shows)
qed

lemma captureArray_nth:
  "shows_log b fs \<Longrightarrow> i < heldCount b \<Longrightarrow> the (frameAt (int i) b) = captureArray b ! i"
  by (simp add: captureArray_def)

lemma sinceLoop_take:
  assumes "\<And>i. i < n \<Longrightarrow> the (frameAt (int i) b) = xs ! i" "n \<le> length xs"
    and "sorted_wrt (\<lambda>f g. frameSeq f < frameSeq g) xs"
  shows "rev (sinceLoop a b n) = filter (\<lambda>f. a < frameSeq f) (take n xs)"
  using assms(1,2)
proof (induction n)
  case (Suc n)
  have e: "the (frameAt (int n) b) = xs ! n" using Suc.prems(1) by simp
  have t: "take (Suc n) xs = take n xs @ [xs ! n]" using Suc.prems(2) by (simp add: take_Suc_conv_app_nth)
  show ?case
  proof (cases "frameSeq (xs ! n) \<le> a")
    case True
    have "\<forall>f\<in>set (take n xs). frameSeq f < frameSeq (xs ! n)"
      using assms(3) Suc.prems(2) by (auto simp: in_set_conv_nth sorted_wrt_iff_nth_less)
    then have "filter (\<lambda>f. a < frameSeq f) (take n xs) = []" using True by (auto simp: filter_empty_conv)
    then show ?thesis using True by (simp add: e t)
  next
    case False
    then show ?thesis using Suc by (simp add: e t)
  qed
qed simp

lemma numbered_sorted: "sorted_wrt (\<lambda>f g. frameSeq f < frameSeq g) (numbered fs)"
  by (simp add: sorted_wrt_iff_nth_less numbered_nth)

lemma since_shows:
  assumes "shows_log b fs"
  shows "since a b = filter (\<lambda>f. a < frameSeq f) (newest (capacity b) (numbered fs))"
proof -
  have s: "sorted_wrt (\<lambda>f g. frameSeq f < frameSeq g) (captureArray b)"
    using numbered_sorted unfolding captureArray_shows [OF assms] newest_def by (rule sorted_wrt_drop)
  have "rev (sinceLoop a b (heldCount b))
      = filter (\<lambda>f. a < frameSeq f) (take (heldCount b) (captureArray b))"
    using s by (intro sinceLoop_take) (simp_all add: captureArray_def)
  then show ?thesis by (simp add: since_def captureArray_shows [OF assms, symmetric]) (simp add: captureArray_def)
qed

lemma clearCapture_shows: "shows_log b fs \<Longrightarrow> shows_log (clearCapture b) []"
  by (auto simp: shows_log_def clearCapture_def)

end
