(* ===== verification/Can_Filter.thy ===== *)
theory Can_Filter
  imports Can_Frame "HOL-Library.Sublist"
begin

unbundle bit_operations_syntax

text \<open>
  \<open>can-core/src/filter.ts\<close>: the id expressions and payload searches of the bus monitor. The
  parsers are modelled down to the characters; the loop of \<open>matchesCanFilter\<close> is shown to
  implement the rule its header states.
\<close>

subsection \<open>Parsing\<close>

datatype can_id_term =
    Exact_term (termId: "32 word") (negate: bool)
  | Range_term (termLow: "32 word") (termHigh: "32 word") (negate: bool)
  | Mask_term (termId: "32 word") (termMask: "32 word") (negate: bool)

datatype filter_error = Bad_mask_term js_text | Bad_range_term js_text | Bad_id_term js_text

definition MAX_EXTENDED_ID :: nat where
  "MAX_EXTENDED_ID = 0x1FFFFFFF"

definition strip0x :: "js_text \<Rightarrow> js_text" where
  "strip0x s = (if 2 \<le> length s \<and> s ! 0 = 48 \<and> (s ! 1 = 120 \<or> s ! 1 = 88) then drop 2 s else s)"

definition parseHexId :: "js_text \<Rightarrow> 32 word option" where
  "parseHexId text =
     (let clean = strip0x (jsTrim text)
      in if \<not> (1 \<le> length clean \<and> length clean \<le> 8 \<and> isHex clean) then None
         else let v = nat (hexPrefix 0 clean)
              in if v \<le> MAX_EXTENDED_ID then Some (of_nat v) else None)"

text \<open>\<open>s.split(/[\s,]+/)\<close> without its empty parts.\<close>

definition filterTokens :: "js_text \<Rightarrow> js_text list" where
  "filterTokens s = filter (\<lambda>t. t \<noteq> []) (splitWhere (\<lambda>c. jsSpace c \<or> c = 44) s)"

definition parseIdTerm :: "js_text \<Rightarrow> filter_error + can_id_term" where
  "parseIdTerm rawToken =
     (let neg = (rawToken \<noteq> [] \<and> hd rawToken = 33);
          token = (if neg then tl rawToken else rawToken)
      in if 47 \<in> set token then
           (case splitWhere (\<lambda>c. c = 47) token of
              [idText, maskText] \<Rightarrow>
                (case (parseHexId idText, parseHexId maskText) of
                   (Some i, Some m) \<Rightarrow> Inr (Mask_term i m neg)
                 | _ \<Rightarrow> Inl (Bad_mask_term rawToken))
            | _ \<Rightarrow> Inl (Bad_mask_term rawToken))
         else if 45 \<in> set token then
           (case splitWhere (\<lambda>c. c = 45) token of
              [lowText, highText] \<Rightarrow>
                (case (parseHexId lowText, parseHexId highText) of
                   (Some low, Some high) \<Rightarrow> Inr (Range_term (min low high) (max low high) neg)
                 | _ \<Rightarrow> Inl (Bad_range_term rawToken))
            | _ \<Rightarrow> Inl (Bad_range_term rawToken))
         else
           (case parseHexId token of
              None \<Rightarrow> Inl (Bad_id_term rawToken)
            | Some i \<Rightarrow> Inr (Exact_term i neg)))"

fun parseIdTerms :: "js_text list \<Rightarrow> filter_error + can_id_term list" where
  "parseIdTerms [] = Inr []"
| "parseIdTerms (t # ts) =
     (case parseIdTerm t of
        Inl e \<Rightarrow> Inl e
      | Inr term \<Rightarrow> (case parseIdTerms ts of Inl e \<Rightarrow> Inl e | Inr terms \<Rightarrow> Inr (term # terms)))"

definition parseCanIdFilter :: "js_text \<Rightarrow> filter_error + can_id_term list" where
  "parseCanIdFilter expression = parseIdTerms (filterTokens expression)"

fun remove0x :: "js_text \<Rightarrow> js_text" where
  "remove0x (a # b # cs) = (if a = 48 \<and> (b = 120 \<or> b = 88) then remove0x cs else a # remove0x (b # cs))"
| "remove0x cs = cs"

fun searchBytes :: "js_text \<Rightarrow> bytes" where
  "searchBytes (a # b # cs) = of_nat (nat (hexPrefix 0 [a, b])) # searchBytes cs"
| "searchBytes _ = []"

text \<open>\<open>None\<close> is the error; an empty search is \<open>Some None\<close>.\<close>

definition parseCanDataSearch :: "js_text \<Rightarrow> bytes option option" where
  "parseCanDataSearch text =
     (let clean = filter (\<lambda>c. \<not> (jsSpace c \<or> c = 44)) (remove0x text)
      in if clean = [] then Some None
         else if \<not> isHex clean \<or> length clean mod 2 \<noteq> 0 then None
         else Some (Some (searchBytes clean)))"

subsection \<open>Matching\<close>

record can_frame_kinds =
  kindStandard :: bool
  kindExtended :: bool
  kindFd :: bool
  kindRemote :: bool
  kindError :: bool

record can_filter =
  idTerms :: "can_id_term list"
  kinds :: can_frame_kinds
  filterDirection :: "can_direction option"
  dataContains :: "bytes option"
  filterBus :: "int option"

definition ALL_CAN_FRAME_KINDS :: can_frame_kinds where
  "ALL_CAN_FRAME_KINDS = \<lparr>kindStandard = True, kindExtended = True, kindFd = True, kindRemote = True,
     kindError = True\<rparr>"

definition EMPTY_CAN_FRAME_FILTER :: can_filter where
  "EMPTY_CAN_FRAME_FILTER = \<lparr>idTerms = [], kinds = ALL_CAN_FRAME_KINDS, filterDirection = None,
     dataContains = None, filterBus = None\<rparr>"

fun termMatches :: "can_id_term \<Rightarrow> 32 word \<Rightarrow> bool" where
  "termMatches (Exact_term i n) w = (w = i)"
| "termMatches (Range_term low high n) w = (low \<le> w \<and> w \<le> high)"
| "termMatches (Mask_term i m n) w = (w AND m = i AND m)"

text \<open>The loops of \<open>containsSequence\<close>: \<open>startsAt\<close> is the inner one.\<close>

fun startsAt :: "bytes \<Rightarrow> bytes \<Rightarrow> bool" where
  "startsAt xs [] = True"
| "startsAt [] (n # ns) = False"
| "startsAt (x # xs) (n # ns) = (x = n \<and> startsAt xs ns)"

fun containsSequence :: "bytes \<Rightarrow> bytes \<Rightarrow> bool" where
  "containsSequence [] needle = (needle = [])"
| "containsSequence (x # xs) needle =
     (if needle = [] then True
      else if length needle \<le> length (x # xs) \<and> startsAt (x # xs) needle then True
      else containsSequence xs needle)"

text \<open>The loop over the terms: \<open>None\<close> is its early \<open>return false\<close>.\<close>

fun matchTerms :: "can_id_term list \<Rightarrow> 32 word \<Rightarrow> bool \<Rightarrow> bool \<Rightarrow> bool option" where
  "matchTerms [] w included sawInclude = Some included"
| "matchTerms (t # ts) w included sawInclude =
     (let hit = termMatches t w
      in if negate t then (if hit then None else matchTerms ts w included sawInclude)
         else let included = (if sawInclude then included else False);
                  included = (if hit then True else included)
              in matchTerms ts w included True)"

definition kindsRefuse :: "can_bus_frame \<Rightarrow> can_frame_kinds \<Rightarrow> bool" where
  "kindsRefuse frame ks =
     ((if frameError frame then \<not> kindError ks
       else if frameRtr frame then \<not> kindRemote ks
       else if frameFd frame then \<not> kindFd ks else False)
      \<or> (if frameExtended frame then \<not> kindExtended ks else \<not> kindStandard ks))"

definition matchesCanFilter :: "can_bus_frame \<Rightarrow> can_filter \<Rightarrow> bool" where
  "matchesCanFilter frame f =
     (if kindsRefuse frame (kinds f) then False
      else if filterDirection f \<noteq> None \<and> filterDirection f \<noteq> Some (frameDirection frame) then False
      else if filterBus f \<noteq> None \<and> filterBus f \<noteq> Some (frameBus frame) then False
      else (case matchTerms (idTerms f) (frameId frame) True False of
              None \<Rightarrow> False
            | Some included \<Rightarrow>
                if \<not> included then False
                else (case dataContains f of
                        None \<Rightarrow> True
                      | Some needle \<Rightarrow> containsSequence (frameData frame) needle)))"

subsection \<open>The stated rule\<close>

lemma startsAt_prefix: "startsAt xs ns \<longleftrightarrow> prefix ns xs"
  by (induction xs ns rule: startsAt.induct) auto

lemma containsSequence_sublist: "containsSequence xs needle \<longleftrightarrow> sublist needle xs"
proof (induction xs needle rule: containsSequence.induct)
  case (2 x xs needle)
  then show ?case
    by (auto simp: startsAt_prefix sublist_Cons_right dest: prefix_length_le)
qed auto

lemma matchTerms_rule:
  "matchTerms ts w inc saw =
     (if \<exists>t\<in>set ts. negate t \<and> termMatches t w then None
      else Some ((\<exists>t\<in>set ts. \<not> negate t \<and> termMatches t w)
                 \<or> (if saw \<or> (\<forall>t\<in>set ts. negate t) then inc else False)))"
  by (induction ts arbitrary: inc saw) (auto simp: Let_def)

lemma matchesCanFilter_rule:
  "matchesCanFilter frame f \<longleftrightarrow>
     \<not> kindsRefuse frame (kinds f)
     \<and> (\<forall>d. filterDirection f = Some d \<longrightarrow> frameDirection frame = d)
     \<and> (\<forall>b. filterBus f = Some b \<longrightarrow> frameBus frame = b)
     \<and> (\<forall>t\<in>set (idTerms f). negate t \<longrightarrow> \<not> termMatches t (frameId frame))
     \<and> ((\<forall>t\<in>set (idTerms f). negate t) \<or> (\<exists>t\<in>set (idTerms f). \<not> negate t \<and> termMatches t (frameId frame)))
     \<and> (\<forall>needle. dataContains f = Some needle \<longrightarrow> sublist needle (frameData frame))"
  by (auto simp: matchesCanFilter_def matchTerms_rule containsSequence_sublist split: option.splits)

end
