(* ===== verification/Can_Tools.thy ===== *)
theory Can_Tools
  imports Can_Frame "HOL-Library.Product_Lexorder"
begin

text \<open>
  \<open>can-core/src/trace.ts\<close>, \<open>playback.ts\<close> and \<open>bus-load.ts\<close>: the table of the newest frame per id,
  the index searches of the log player, and the bus load estimate (over exact rationals in
  place of doubles).
\<close>

subsection \<open>The trace\<close>

type_synonym trace_key = "int \<times> bool \<times> 32 word"

definition canTraceKey :: "can_bus_frame \<Rightarrow> trace_key" where
  "canTraceKey f = (frameBus f, frameExtended f, frameId f)"

record trace_entry =
  entryCount :: nat
  firstSeen :: rat
  lastSeen :: rat
  period :: "rat option"
  lastFrame :: can_bus_frame
  changedBytes :: "nat set"

text \<open>Bit \<open>i\<close> of the mask is membership of \<open>i\<close>; \<open>data[i]\<close> past the end is \<open>undefined\<close>.\<close>

definition dataAt :: "nat \<Rightarrow> bytes \<Rightarrow> byte option" where
  "dataAt i bs = (if i < length bs then Some (bs ! i) else None)"

definition changedMask :: "bytes \<Rightarrow> bytes \<Rightarrow> nat set" where
  "changedMask old new =
     set (filter (\<lambda>i. dataAt i old \<noteq> dataAt i new) [0..<min 31 (max (length old) (length new))])"

definition newEntry :: "can_bus_frame \<Rightarrow> trace_entry" where
  "newEntry f = \<lparr>entryCount = 1, firstSeen = frameTime f, lastSeen = frameTime f, period = None,
     lastFrame = f, changedBytes = {}\<rparr>"

definition updateEntry :: "can_bus_frame \<Rightarrow> trace_entry \<Rightarrow> trace_entry" where
  "updateEntry f e =
     (let changed = changedMask (frameData (lastFrame e)) (frameData f);
          count = entryCount e + 1
      in e\<lparr>entryCount := count,
           period := (if count > 1 then Some ((frameTime f - firstSeen e) / of_nat (count - 1)) else None),
           lastSeen := frameTime f, lastFrame := f, changedBytes := changed\<rparr>)"

text \<open>The \<open>Map\<close> as a list in insertion order.\<close>

fun traceAdd :: "can_bus_frame \<Rightarrow> (trace_key \<times> trace_entry) list \<Rightarrow> (trace_key \<times> trace_entry) list" where
  "traceAdd f [] = [(canTraceKey f, newEntry f)]"
| "traceAdd f ((k, e) # es) =
     (if k = canTraceKey f then (k, updateEntry f e) # es else (k, e) # traceAdd f es)"

definition traceAddAll :: "can_bus_frame list \<Rightarrow> (trace_key \<times> trace_entry) list" where
  "traceAddAll fs = fold traceAdd fs []"

text \<open>The order of \<open>list()\<close>: by bus, then standard before extended, then id.\<close>

definition traceOrder :: "trace_key \<Rightarrow> int \<times> int \<times> int" where
  "traceOrder k = (case k of (b, x, i) \<Rightarrow> (b, if x then 1 else 0, uint i))"

definition traceList :: "(trace_key \<times> trace_entry) list \<Rightarrow> (trace_key \<times> trace_entry) list" where
  "traceList es = sort_key (\<lambda>(k, e). traceOrder k) es"

text \<open>The frames a key stands for.\<close>

definition framesOf :: "trace_key \<Rightarrow> can_bus_frame list \<Rightarrow> can_bus_frame list" where
  "framesOf k fs = filter (\<lambda>f. canTraceKey f = k) fs"

text \<open>What an entry says of the frames with its key.\<close>

definition entry_for :: "trace_entry \<Rightarrow> can_bus_frame list \<Rightarrow> bool" where
  "entry_for e gs \<longleftrightarrow> gs \<noteq> [] \<and> entryCount e = length gs \<and> firstSeen e = frameTime (hd gs)
     \<and> lastSeen e = frameTime (last gs) \<and> lastFrame e = last gs
     \<and> period e = (if length gs = 1 then None
         else Some ((frameTime (last gs) - frameTime (hd gs)) / of_nat (length gs - 1)))
     \<and> changedBytes e = (if length gs = 1 then {}
         else changedMask (frameData (last (butlast gs))) (frameData (last gs)))"

lemma map_of_traceAdd:
  "map_of (traceAdd f es) k =
     (if k = canTraceKey f then Some (case map_of es k of None \<Rightarrow> newEntry f | Some e \<Rightarrow> updateEntry f e)
      else map_of es k)"
  by (induction f es rule: traceAdd.induct) (auto split: option.splits)

lemma entry_for_new: "entry_for (newEntry f) [f]"
  by (simp add: entry_for_def newEntry_def)

lemma entry_for_update: "entry_for e gs \<Longrightarrow> entry_for (updateEntry f e) (gs @ [f])"
  by (auto simp: entry_for_def updateEntry_def Let_def)

lemma traceAddAll_snoc: "traceAddAll (fs @ [f]) = traceAdd f (traceAddAll fs)"
  by (simp add: traceAddAll_def)

lemma traceAddAll_entries:
  "case map_of (traceAddAll fs) k of None \<Rightarrow> framesOf k fs = [] | Some e \<Rightarrow> entry_for e (framesOf k fs)"
proof (induction fs rule: rev_induct)
  case Nil
  then show ?case by (simp add: traceAddAll_def framesOf_def)
next
  case (snoc f fs)
  show ?case
  proof (cases "k = canTraceKey f")
    case True
    have app: "framesOf k (fs @ [f]) = framesOf k fs @ [f]" using True by (simp add: framesOf_def)
    show ?thesis
    proof (cases "map_of (traceAddAll fs) k")
      case None
      then have "framesOf k fs = []" using snoc by simp
      then have "framesOf k (fs @ [f]) = [f]" using app by simp
      then show ?thesis using True None entry_for_new [of f] by (simp add: traceAddAll_snoc map_of_traceAdd)
    next
      case (Some e)
      then have "entry_for e (framesOf k fs)" using snoc by simp
      from entry_for_update [OF this, of f] show ?thesis
        using True Some app by (simp add: traceAddAll_snoc map_of_traceAdd)
    qed
  next
    case False
    then have "framesOf k (fs @ [f]) = framesOf k fs" by (simp add: framesOf_def)
    then show ?thesis using False snoc by (simp add: traceAddAll_snoc map_of_traceAdd split: option.splits)
  qed
qed

lemma traceAdd_keys: "fst ` set (traceAdd f es) = insert (canTraceKey f) (fst ` set es)"
  by (induction f es rule: traceAdd.induct) auto

lemma traceAdd_distinct: "distinct (map fst es) \<Longrightarrow> distinct (map fst (traceAdd f es))"
proof (induction f es rule: traceAdd.induct)
  case (2 f k e es)
  then show ?case using traceAdd_keys [of f es] by (auto simp: image_iff)
qed simp

lemma traceAddAll_distinct: "distinct (map fst (traceAddAll fs))"
proof (induction fs rule: rev_induct)
  case Nil
  then show ?case by (simp add: traceAddAll_def)
next
  case (snoc f fs)
  then show ?case unfolding traceAddAll_snoc by (rule traceAdd_distinct)
qed

lemma traceList_entries:
  "set (traceList (traceAddAll fs)) = {(k, e). framesOf k fs \<noteq> [] \<and> map_of (traceAddAll fs) k = Some e}"
proof -
  have "(k, e) \<in> set (traceAddAll fs) \<longleftrightarrow> map_of (traceAddAll fs) k = Some e" for k e
    using map_of_eq_Some_iff [OF traceAddAll_distinct] by blast
  moreover have "framesOf k fs \<noteq> []" if "map_of (traceAddAll fs) k = Some e" for k e
    using traceAddAll_entries [of k fs] that by (simp add: entry_for_def)
  ultimately show ?thesis by (auto simp: traceList_def)
qed

subsection \<open>Playback\<close>

text \<open>The two binary searches; \<open>below\<close> is the comparison each makes.\<close>

function bisect :: "(can_bus_frame \<Rightarrow> bool) \<Rightarrow> can_bus_frame list \<Rightarrow> nat \<Rightarrow> nat \<Rightarrow> nat" where
  "bisect below frames low high =
     (if low < high then
        (let middle = (low + high) div 2
         in if below (frames ! middle) then bisect below frames (middle + 1) high
            else bisect below frames low middle)
      else low)"
  by pat_completeness auto
termination by (relation "measure (\<lambda>(below, frames, low, high). high - low)") auto

declare bisect.simps [simp del]

definition canFrameIndexAt :: "can_bus_frame list \<Rightarrow> rat \<Rightarrow> nat" where
  "canFrameIndexAt frames t = bisect (\<lambda>f. frameTime f < t) frames 0 (length frames)"

definition upperBound :: "can_bus_frame list \<Rightarrow> rat \<Rightarrow> nat" where
  "upperBound frames t = bisect (\<lambda>f. frameTime f \<le> t) frames 0 (length frames)"

record can_timeline =
  startMs :: rat
  endMs :: rat
  durationMs :: rat

definition canLogTimeline :: "can_bus_frame list \<Rightarrow> can_timeline" where
  "canLogTimeline frames =
     (if frames = [] then \<lparr>startMs = 0, endMs = 0, durationMs = 0\<rparr>
      else let s = frameTime (frames ! 0); e = frameTime (frames ! (length frames - 1))
           in \<lparr>startMs = s, endMs = e, durationMs = e - s\<rparr>)"

definition canFramesBetween :: "can_bus_frame list \<Rightarrow> can_timeline \<Rightarrow> rat \<Rightarrow> rat \<Rightarrow> nat \<times> nat" where
  "canFramesBetween frames timeline fromMs toMs =
     (let from = (if fromMs < 0 then 0 else upperBound frames (startMs timeline + fromMs));
          until_i = upperBound frames (startMs timeline + toMs)
      in (from, max from until_i))"

definition by_time :: "can_bus_frame list \<Rightarrow> bool" where
  "by_time frames \<longleftrightarrow> sorted (map frameTime frames)"

lemma bisect_boundary:
  assumes "low \<le> high" "high \<le> length frames"
    and "\<And>i j. i \<le> j \<Longrightarrow> j < length frames \<Longrightarrow> below (frames ! j) \<Longrightarrow> below (frames ! i)"
    and "\<forall>i<low. below (frames ! i)" "\<forall>i. high \<le> i \<longrightarrow> i < length frames \<longrightarrow> \<not> below (frames ! i)"
  shows "bisect below frames low high \<le> length frames
    \<and> (\<forall>i<bisect below frames low high. below (frames ! i))
    \<and> (\<forall>i. bisect below frames low high \<le> i \<longrightarrow> i < length frames \<longrightarrow> \<not> below (frames ! i))"
  using assms
proof (induction below frames low high rule: bisect.induct)
  case (1 below frames low high)
  show ?case
  proof (cases "low < high")
    case False
    have e: "bisect below frames low high = low" using False by (subst bisect.simps) simp
    show ?thesis unfolding e using False "1.prems" by simp
  next
    case True
    let ?m = "(low + high) div 2"
    have m: "low \<le> ?m" "?m < high" "?m < length frames" using True "1.prems"(2) by auto
    show ?thesis
    proof (cases "below (frames ! ?m)")
      case below: True
      have e: "bisect below frames low high = bisect below frames (?m + 1) high"
        using True below by (subst bisect.simps) (simp add: Let_def)
      have "\<forall>i<?m + 1. below (frames ! i)" using "1.prems"(3) [of _ ?m] m(3) below by simp
      then show ?thesis unfolding e using m "1.prems"(2,5)
        by (intro "1.IH"(1) [OF True refl below _ _ "1.prems"(3)]) simp_all
    next
      case above: False
      have e: "bisect below frames low high = bisect below frames low ?m"
        using True above by (subst bisect.simps) (simp add: Let_def)
      have up: "\<forall>i. ?m \<le> i \<longrightarrow> i < length frames \<longrightarrow> \<not> below (frames ! i)" using "1.prems"(3) above by blast
      show ?thesis unfolding e using m "1.prems"(4) up
        by (intro "1.IH"(2) [OF True refl above _ _ "1.prems"(3)]) simp_all
    qed
  qed
qed

lemma sorted_times: "by_time frames \<Longrightarrow> i \<le> j \<Longrightarrow> j < length frames \<Longrightarrow> frameTime (frames ! i) \<le> frameTime (frames ! j)"
  unfolding by_time_def using sorted_nth_mono [of "map frameTime frames" i j] by simp

lemma canFrameIndexAt_spec:
  assumes "by_time frames"
  shows "canFrameIndexAt frames t \<le> length frames
    \<and> (\<forall>i<canFrameIndexAt frames t. frameTime (frames ! i) < t)
    \<and> (\<forall>i. canFrameIndexAt frames t \<le> i \<longrightarrow> i < length frames \<longrightarrow> \<not> frameTime (frames ! i) < t)"
  unfolding canFrameIndexAt_def
proof (rule bisect_boundary)
  show "frameTime (frames ! i) < t" if "i \<le> j" "j < length frames" "frameTime (frames ! j) < t" for i j
    using sorted_times [OF assms that(1,2)] that(3) by (rule le_less_trans)
qed simp_all

lemma upperBound_spec:
  assumes "by_time frames"
  shows "upperBound frames t \<le> length frames
    \<and> (\<forall>i<upperBound frames t. frameTime (frames ! i) \<le> t)
    \<and> (\<forall>i. upperBound frames t \<le> i \<longrightarrow> i < length frames \<longrightarrow> \<not> frameTime (frames ! i) \<le> t)"
  unfolding upperBound_def
proof (rule bisect_boundary)
  show "frameTime (frames ! i) \<le> t" if "i \<le> j" "j < length frames" "frameTime (frames ! j) \<le> t" for i j
    using sorted_times [OF assms that(1,2)] that(3) by (rule order.trans)
qed simp_all

lemma upperBound_less_iff:
  assumes "by_time frames" "i < length frames"
  shows "i < upperBound frames t \<longleftrightarrow> frameTime (frames ! i) \<le> t"
  using upperBound_spec [OF assms(1), of t] assms(2) by (metis not_le)

lemma upperBound_mono: "by_time frames \<Longrightarrow> s \<le> t \<Longrightarrow> upperBound frames s \<le> upperBound frames t"
proof (rule ccontr)
  assume a: "by_time frames" "s \<le> t" "\<not> upperBound frames s \<le> upperBound frames t"
  let ?i = "upperBound frames t"
  have i: "?i < upperBound frames s" "?i < length frames"
    using a(3) upperBound_spec [OF a(1), of s] by linarith+
  then have "frameTime (frames ! ?i) \<le> t" using upperBound_less_iff [OF a(1) i(2)] a(2) by (metis order.trans)
  then show False using upperBound_less_iff [OF a(1) i(2), of t] by simp
qed

text \<open>The frames of one step of the player.\<close>

definition stepFrames :: "can_bus_frame list \<Rightarrow> rat \<Rightarrow> rat \<Rightarrow> can_bus_frame list" where
  "stepFrames frames fromMs toMs =
     (case canFramesBetween frames (canLogTimeline frames) fromMs toMs of
        (from, until_i) \<Rightarrow> take (until_i - from) (drop from frames))"

lemma take_drop_join:
  "a \<le> b \<Longrightarrow> b \<le> c \<Longrightarrow> take (b - a) (drop a xs) @ take (c - b) (drop b xs) = take (c - a) (drop a xs)"
proof -
  assume "a \<le> b" "b \<le> c"
  then have "c - a = (b - a) + (c - b)" "drop b xs = drop (b - a) (drop a xs)" by simp_all
  then show ?thesis by (simp only: take_add)
qed

lemma stepFrames_join:
  assumes "by_time frames" "0 \<le> b" "a \<le> b" "b \<le> c"
  shows "stepFrames frames a b @ stepFrames frames b c = stepFrames frames a c"
proof -
  let ?s = "startMs (canLogTimeline frames)"
  let ?a = "if a < 0 then 0 else upperBound frames (?s + a)"
  have u: "upperBound frames (?s + b) \<le> upperBound frames (?s + c)" using assms by (intro upperBound_mono) auto
  have l: "?a \<le> upperBound frames (?s + b)" using assms upperBound_mono [OF assms(1), of "?s + a" "?s + b"] by auto
  have m: "max ?a (upperBound frames (?s + b)) = upperBound frames (?s + b)"
    "max (upperBound frames (?s + b)) (upperBound frames (?s + c)) = upperBound frames (?s + c)"
    "max ?a (upperBound frames (?s + c)) = upperBound frames (?s + c)"
    using u l by auto
  have b: "(if b < 0 then 0 else upperBound frames (?s + b)) = upperBound frames (?s + b)" using assms(2) by simp
  show ?thesis
    unfolding stepFrames_def canFramesBetween_def Let_def prod.case b m by (rule take_drop_join [OF l u])
qed

fun playSteps :: "can_bus_frame list \<Rightarrow> rat \<Rightarrow> rat list \<Rightarrow> can_bus_frame list" where
  "playSteps frames position [] = []"
| "playSteps frames position (p # ps) = stepFrames frames position p @ playSteps frames p ps"

lemma playSteps_join:
  "by_time frames \<Longrightarrow> sorted (a # ps) \<Longrightarrow> \<forall>p\<in>set ps. 0 \<le> p \<Longrightarrow> ps \<noteq> [] \<Longrightarrow>
   playSteps frames a ps = stepFrames frames a (last ps)"
proof (induction ps arbitrary: a)
  case (Cons p ps)
  show ?case
  proof (cases "ps = []")
    case False
    have "playSteps frames p ps = stepFrames frames p (last ps)" using Cons.prems False by (intro Cons.IH) auto
    moreover have "p \<le> last ps" using Cons.prems False by simp
    ultimately show ?thesis using Cons.prems False stepFrames_join [of frames p a "last ps"] by simp
  qed simp
qed simp

lemma stepFrames_all:
  assumes "by_time frames" "durationMs (canLogTimeline frames) \<le> e" "a < 0"
  shows "stepFrames frames a e = frames"
proof (cases "frames = []")
  case True
  then show ?thesis by (simp add: stepFrames_def canFramesBetween_def split: prod.split)
next
  case False
  let ?s = "startMs (canLogTimeline frames)"
  have "frameTime (frames ! (length frames - 1)) \<le> ?s + e"
    using assms(2) False by (simp add: canLogTimeline_def Let_def algebra_simps)
  then have "length frames - 1 < upperBound frames (?s + e)"
    using upperBound_less_iff [OF assms(1)] False by simp
  then have "upperBound frames (?s + e) = length frames"
    using upperBound_spec [OF assms(1), of "?s + e"] False by auto
  then show ?thesis using assms(3) by (simp add: stepFrames_def canFramesBetween_def Let_def)
qed

subsection \<open>Bus load\<close>

text \<open>
  \<open>Math.round\<close> of the nominal length times 1.1. The double 1.1 is slightly above 11/10, so a
  half is rounded up in both.
\<close>

definition canFrameBits :: "can_bus_frame \<Rightarrow> int" where
  "canFrameBits f =
     (let overhead = (if frameExtended f then 67 else 47);
          dataBits = (if frameRtr f then 0 else length (frameData f) * 8)
      in \<lfloor>(of_nat (overhead + dataBits) * 11 / 10 :: rat) + 1 / 2\<rfloor>)"

definition estimateCanBusLoad :: "can_bus_frame list \<Rightarrow> rat \<Rightarrow> rat \<Rightarrow> rat" where
  "estimateCanBusLoad frames windowMs bitrate =
     (if windowMs \<le> 0 \<or> bitrate \<le> 0 then 0
      else min 100 (of_int (fold (\<lambda>f bits. bits + canFrameBits f) frames 0)
             / (bitrate * windowMs / 1000) * 100))"

lemma canFrameBits_pos: "0 < canFrameBits f"
proof -
  let ?n = "(if frameExtended f then 67 else 47) + (if frameRtr f then 0 else length (frameData f) * 8)"
  have half: "47 \<le> x \<Longrightarrow> 1 \<le> x * 11 / 10 + 1 / 2" for x :: rat by (simp add: field_simps)
  have "(47 :: nat) \<le> ?n" by simp
  then have "(47 :: rat) \<le> of_nat ?n" using of_nat_mono [of 47 ?n] by simp
  from half [OF this] show ?thesis
    unfolding canFrameBits_def Let_def by (simp only: zero_less_floor)
qed

lemma busLoad_range: "0 \<le> estimateCanBusLoad frames w r \<and> estimateCanBusLoad frames w r \<le> 100"
proof -
  have "0 \<le> fold (\<lambda>f bits. bits + canFrameBits f) frames n" if "0 \<le> n" for n
    using that canFrameBits_pos by (induction frames arbitrary: n) (auto intro: add_nonneg_nonneg less_imp_le)
  then show ?thesis by (auto simp: estimateCanBusLoad_def)
qed

end
