(* ===== verification/Can_Guarantees.thy ===== *)
theory Can_Guarantees
  imports Slcan Capture_Buffer Can_Filter Can_Tools "HOL-Library.Multiset"
begin

text \<open>
  The properties of the CAN tools: the SLCAN stream from the encoder of one side to the frames
  the other side captures, the capture ring, the trace, the filter and the log player.
\<close>

subsection \<open>From the encoder to the listeners\<close>

lemma fold_handleLine_buffer:
  "fold (handleLine now) ls (a\<lparr>splitterBuffer := s\<rparr>) = (fold (handleLine now) ls a)\<lparr>splitterBuffer := s\<rparr>"
proof (induction ls arbitrary: a)
  case (Cons l ls)
  have "handleLine now l (a\<lparr>splitterBuffer := s\<rparr>) = (handleLine now l a)\<lparr>splitterBuffer := s\<rparr>"
    by (cases l) (simp_all add: handleLine_def)
  then show ?case using Cons.IH by simp
qed simp

lemma fold_handleBytes:
  "fold (handleBytes now) chunks a =
     (case slcan.pushAll chunks (splitterBuffer a) of (s, ls) \<Rightarrow>
        (fold (handleLine now) ls a)\<lparr>splitterBuffer := s\<rparr>)"
proof (induction chunks arbitrary: a)
  case (Cons c cs)
  obtain s ls where c: "splitterPush c (splitterBuffer a) = (s, ls)" by fastforce
  then have h: "handleBytes now c a = (fold (handleLine now) ls a)\<lparr>splitterBuffer := s\<rparr>"
    by (simp add: handleBytes_def fold_handleLine_buffer)
  obtain t ms where t: "slcan.pushAll cs s = (t, ms)" by fastforce
  show ?case using Cons.IH [of "handleBytes now c a"]
    by (simp add: c t h fold_handleLine_buffer)
qed simp

text \<open>The frame a listener makes of an encoded one.\<close>

definition receivedFrame :: "rat \<Rightarrow> adapter_frame \<Rightarrow> can_bus_frame" where
  "receivedFrame now f =
     (let rtr = (\<not> adapterFd f \<and> adapterRtr f);
          n = length (adapterData f)
      in \<lparr>frameSeq = 0, frameTime = now, frameBus = 1, frameId = adapterId f,
          frameExtended = adapterExtended f, frameRtr = rtr, frameError = False, frameFd = adapterFd f,
          frameData = (if rtr then []
            else zeroExtended (if adapterFd f then canLengthForDlc (int (canDlcForLength n)) else n) (adapterData f)),
          frameDirection = Rx\<rparr>)"

definition wireInput :: "rat \<Rightarrow> slcan_line \<Rightarrow> can_input list" where
  "wireInput now l = (case l of
     Frame_line raw payload fd stamp \<Rightarrow> [\<lparr>inputTime = now, inputBus = 1, inputRawId = raw,
       inputData = payload, inputFd = Some fd, inputDirection = Some Rx\<rparr>] | _ \<Rightarrow> [])"

lemma canFrame_wireInput:
  assumes "slcan_ok f"
  shows "map canFrameFromRawId (wireInput now (slcanWire f)) = [receivedFrame now f]"
proof -
  let ?f = "receivedFrame now f"
  have fits: "id_fits ?f"
    using assms by (auto simp: id_fits_def slcan_ok_def receivedFrame_def Let_def can_masks split: if_splits)
  have m: "adapterId f AND CAN_EFF_MASK = adapterId f" if "adapterExtended f"
    using assms that by (simp add: slcan_ok_def can_masks)
  have n: "adapterId f AND CAN_SFF_MASK = adapterId f" if "\<not> adapterExtended f"
    using assms that by (simp add: slcan_ok_def can_masks)
  have raw: "canFrameRawId ?f = (adapterId f OR (if adapterExtended f then CAN_EFF_FLAG else 0))
      OR (if \<not> adapterFd f \<and> adapterRtr f then CAN_RTR_FLAG else 0)"
    using m n by (simp add: canFrameRawId_def receivedFrame_def Let_def)
  have w: "wireInput now (slcanWire f) = [\<lparr>inputTime = frameTime ?f, inputBus = frameBus ?f,
      inputRawId = canFrameRawId ?f, inputData = frameData ?f, inputFd = Some (frameFd ?f),
      inputDirection = Some (frameDirection ?f)\<rparr>]"
    unfolding raw by (simp add: wireInput_def slcanWire_def receivedFrame_def Let_def)
  show ?thesis unfolding w by (simp add: rawId_roundtrip [OF fits]) (simp add: receivedFrame_def Let_def)
qed

lemma fold_handleLine_frames:
  "opened a \<Longrightarrow> fold (handleLine now) (map slcanWire fs) a
     = a\<lparr>delivered := delivered a @ concat (map (wireInput now \<circ> slcanWire) fs)\<rparr>"
proof (induction fs arbitrary: a)
  case (Cons f fs)
  have h: "handleLine now (slcanWire f) a = a\<lparr>delivered := delivered a @ wireInput now (slcanWire f)\<rparr>"
    using Cons.prems by (simp add: handleLine_def slcanWire_def wireInput_def Let_def)
  show ?case using Cons.IH [of "handleLine now (slcanWire f) a"] Cons.prems by (simp add: h)
qed simp

lemma canFrame_wireInputs:
  "list_all slcan_ok fs \<Longrightarrow>
   map canFrameFromRawId (concat (map (wireInput now \<circ> slcanWire) fs)) = map (receivedFrame now) fs"
  by (induction fs) (simp_all add: canFrame_wireInput)

text \<open>C27 slcan_stream_roundtrip: frames that fit their format are all encodable; whatever chunks
  the serial port delivers their text in, an open adapter passes its listeners exactly these
  frames, in order, with their ids, flags and payloads (padded to the CAN FD length), and is
  left with an empty line.\<close>

theorem slcan_stream_roundtrip:
  assumes "list_all slcan_ok fs" "opened a" "splitterBuffer a = []"
  shows "\<exists>texts. map encodeSlcanFrame fs = map Inr texts
    \<and> (\<forall>chunks. concat chunks = lineBytes (concat texts) \<longrightarrow>
         map canFrameFromRawId (delivered (fold (handleBytes now) chunks a))
           = map canFrameFromRawId (delivered a) @ map (receivedFrame now) fs
         \<and> splitterBuffer (fold (handleBytes now) chunks a) = [])"
proof -
  obtain texts where t: "map encodeSlcanFrame fs = map Inr texts"
    "splitterPush (lineBytes (concat texts)) [] = ([], map slcanWire fs)"
    using splitter_frames [OF assms(1)] by blast
  have "fold (handleBytes now) chunks a
      = a\<lparr>delivered := delivered a @ concat (map (wireInput now \<circ> slcanWire) fs), splitterBuffer := []\<rparr>"
    if "concat chunks = lineBytes (concat texts)" for chunks
    using that t(2) assms(2) by (simp add: fold_handleBytes slcan.pushAll_concat assms(3) fold_handleLine_frames)
  then show ?thesis using t(1) canFrame_wireInputs [OF assms(1), of now] by (intro exI [of _ texts]) simp
qed

definition sampleAdapter :: slcan_adapter where
  "sampleAdapter = \<lparr>splitterBuffer = [], opened = True, waiting = False, replied = None, txErrors = 0, delivered = []\<rparr>"

definition sampleFrames :: "adapter_frame list" where
  "sampleFrames = [\<lparr>adapterId = 0x123, adapterExtended = False, adapterData = [1, 2, 3], adapterFd = False, adapterRtr = False\<rparr>,
     \<lparr>adapterId = 0x18DB33F1, adapterExtended = True, adapterData = [1, 2, 3, 4, 5, 6, 7, 8, 9], adapterFd = True, adapterRtr = False\<rparr>]"

theorem slcan_stream_roundtrip_witness:
  "\<exists>texts. map encodeSlcanFrame sampleFrames = map Inr texts
    \<and> (\<forall>chunks. concat chunks = lineBytes (concat texts) \<longrightarrow>
         map canFrameFromRawId (delivered (fold (handleBytes 5) chunks sampleAdapter))
           = map (receivedFrame 5) sampleFrames)"
proof -
  have "list_all slcan_ok sampleFrames" "opened sampleAdapter" "splitterBuffer sampleAdapter = []"
    by (simp_all add: sampleFrames_def slcan_ok_def sampleAdapter_def)
  note run = slcan_stream_roundtrip [OF this, of 5]
  have "map canFrameFromRawId (delivered sampleAdapter) = []" by (simp add: sampleAdapter_def)
  then show ?thesis using run by (metis append_Nil)
qed

subsection \<open>Capture\<close>

text \<open>C26 capture_refines_newest_log: a new capture buffer of any positive capacity, after any
  frames were added, holds exactly the newest ones, numbered by their place in the whole
  capture; \<open>since\<close> returns those of them with a later number, and the counters count every frame
  captured and every frame lost.\<close>

theorem capture_refines_newest_log:
  assumes "newCapture n = Some b"
    and "b' = fold (\<lambda>f b. fst (capture f b)) fs b"
  shows "captureArray b' = newest (nat n) (numbered fs)
    \<and> since a b' = filter (\<lambda>f. a < frameSeq f) (newest (nat n) (numbered fs))
    \<and> totalCaptured b' = length fs \<and> overwritten b' = length fs - nat n
    \<and> lastSeq b' = length fs \<and> shows_log (clearCapture b') []"
proof -
  have b: "shows_log b []" "capacity b = nat n" using newCapture_shows [OF assms(1)] by simp_all
  have s: "shows_log b' fs" "capacity b' = nat n"
    using capture_log.fold_add_shows [OF b(1), of fs] capture_log.cap_fold [of fs b] b(2)
    unfolding assms(2) by simp_all
  have "captureArray b' = newest (nat n) (numbered fs)"
    using capture_log.contents_fold [OF b(1)] unfolding assms(2) b(2) .
  moreover have "lastSeq b' = length fs" using s(1) by (auto simp: lastSeq_def shows_log_def min_def split: if_splits)
  ultimately show ?thesis
    using since_shows [OF s(1), of a] clearCapture_shows [OF s(1)] s
    by (simp add: totalCaptured_def shows_log_def)
qed

definition sampleFrame :: can_bus_frame where
  "sampleFrame = \<lparr>frameSeq = 0, frameTime = 10, frameBus = 1, frameId = 0x123, frameExtended = False,
     frameRtr = False, frameError = False, frameFd = False, frameData = [0xAA, 0xBB], frameDirection = Rx\<rparr>"

definition laterFrame :: can_bus_frame where
  "laterFrame = sampleFrame\<lparr>frameTime := 30, frameData := [0xAA, 0xBC]\<rparr>"

theorem capture_refines_newest_log_witness:
  "\<exists>b b'. newCapture 1 = Some b \<and> b' = fold (\<lambda>f b. fst (capture f b)) [sampleFrame, laterFrame] b
    \<and> captureArray b' = newest (nat 1) (numbered [sampleFrame, laterFrame]) \<and> overwritten b' = 2 - nat 1"
proof -
  obtain b where b: "newCapture 1 = Some b" by (simp add: newCapture_def)
  show ?thesis
    using capture_refines_newest_log [OF b refl, of "[sampleFrame, laterFrame]"] b by auto
qed

subsection \<open>The filter\<close>

text \<open>C38 filter_is_its_rule: the loops of \<open>matchesCanFilter\<close> with their early exits decide the
  rule the module states: the kinds, the direction and the bus admit the frame, no negated term
  hits its id, some positive term does unless there is none, and the searched bytes occur
  consecutively in the payload.\<close>

theorem filter_is_its_rule:
  "matchesCanFilter frame f \<longleftrightarrow>
     \<not> kindsRefuse frame (kinds f)
     \<and> (\<forall>d. filterDirection f = Some d \<longrightarrow> frameDirection frame = d)
     \<and> (\<forall>b. filterBus f = Some b \<longrightarrow> frameBus frame = b)
     \<and> (\<forall>t\<in>set (idTerms f). negate t \<longrightarrow> \<not> termMatches t (frameId frame))
     \<and> ((\<forall>t\<in>set (idTerms f). negate t) \<or> (\<exists>t\<in>set (idTerms f). \<not> negate t \<and> termMatches t (frameId frame)))
     \<and> (\<forall>needle. dataContains f = Some needle \<longrightarrow> sublist needle (frameData frame))"
  by (rule matchesCanFilter_rule)

theorem filter_is_its_rule_witness:
  "matchesCanFilter sampleFrame (EMPTY_CAN_FRAME_FILTER\<lparr>idTerms := [Range_term 0x100 0x1FF False, Exact_term 0x124 True]\<rparr>)"
  by (simp add: filter_is_its_rule EMPTY_CAN_FRAME_FILTER_def ALL_CAN_FRAME_KINDS_def kindsRefuse_def sampleFrame_def)

subsection \<open>The trace and the player\<close>

text \<open>After any frames were added, the trace lists one entry for
  each bus, format and id that occurred and none else, ordered by bus, format and id; an entry
  holds the number of its frames, the times of the first and the last, their mean interval, the
  last frame, and which bytes it changed.\<close>

theorem trace_summarises_each_id:
  "distinct (map fst (traceList (traceAddAll fs)))
   \<and> sorted (map (\<lambda>(k, e). traceOrder k) (traceList (traceAddAll fs)))
   \<and> fst ` set (traceList (traceAddAll fs)) = canTraceKey ` set fs
   \<and> (\<forall>(k, e)\<in>set (traceList (traceAddAll fs)). entry_for e (framesOf k fs))"
proof -
  let ?es = "traceAddAll fs"
  have m: "map_of ?es k = None \<longleftrightarrow> framesOf k fs = []" for k
    using traceAddAll_entries [of k fs] by (auto simp: entry_for_def split: option.splits)
  have "fst ` set (traceList ?es) = {k. framesOf k fs \<noteq> []}"
    using m by (force simp: traceList_entries)
  also have "\<dots> = canTraceKey ` set fs" unfolding framesOf_def filter_empty_conv by (force simp: image_iff)
  finally have keys: "fst ` set (traceList ?es) = canTraceKey ` set fs" .
  have "mset (map fst (traceList ?es)) = mset (map fst ?es)"
    unfolding mset_map by (simp add: traceList_def)
  then have d: "distinct (map fst (traceList ?es))"
    using traceAddAll_distinct [of fs] by (rule mset_eq_imp_distinct_iff [THEN iffD2])
  have s: "sorted (map (\<lambda>(k, e). traceOrder k) (traceList ?es))" by (simp add: traceList_def)
  have "entry_for e (framesOf k fs)" if "(k, e) \<in> set (traceList ?es)" for k e
    using that traceAddAll_entries [of k fs] by (auto simp: traceList_entries)
  then show ?thesis using keys d s by blast
qed

theorem trace_summarises_each_id_witness:
  "entry_for (snd (traceList (traceAddAll [sampleFrame, laterFrame]) ! 0)) [sampleFrame, laterFrame]"
proof -
  have f: "framesOf (1, False, 0x123) [sampleFrame, laterFrame] = [sampleFrame, laterFrame]"
    by (simp add: framesOf_def canTraceKey_def sampleFrame_def laterFrame_def)
  have l: "traceList (traceAddAll [sampleFrame, laterFrame])
      = [((1, False, 0x123), updateEntry laterFrame (newEntry sampleFrame))]"
    by (simp add: traceList_def traceAddAll_def canTraceKey_def sampleFrame_def laterFrame_def)
  show ?thesis using trace_summarises_each_id [of "[sampleFrame, laterFrame]"] by (simp add: l f)
qed

text \<open>When the player moves from before the start through any
  increasing positions to the end of a log sorted by time, the frames it asks for are all frames
  of the log, each once and in order.\<close>

theorem playback_plays_each_frame_once:
  assumes "by_time frames" "sorted ps" "ps \<noteq> []" "\<forall>p\<in>set ps. 0 \<le> p"
    and "durationMs (canLogTimeline frames) \<le> last ps" "start < 0"
  shows "playSteps frames start ps = frames"
proof -
  have "sorted (start # ps)" using assms(2,4,6) by (auto intro: order.trans [OF less_imp_le])
  then have "playSteps frames start ps = stepFrames frames start (last ps)"
    using playSteps_join [OF assms(1)] assms(3,4) by blast
  then show ?thesis using stepFrames_all [OF assms(1,5,6)] by simp
qed

theorem playback_plays_each_frame_once_witness:
  "playSteps [sampleFrame, laterFrame] (-1) [5, 20, 25] = [sampleFrame, laterFrame]"
  by (rule playback_plays_each_frame_once)
    (simp_all add: by_time_def sampleFrame_def laterFrame_def canLogTimeline_def Let_def)

end
