(* ===== verification/Js_Float.thy ===== *)
theory Js_Float
  imports Complex_Main Prelude
begin

text \<open>
  JavaScript numbers as the DroneCAN codec uses them: IEEE binary64 values, the binary32 and
  binary64 images that \<open>DataView\<close> reads and writes (round to nearest, ties to even), and the
  product of two numbers. A finite number is a sign and a non-negative rational, so that the
  two zeros differ.
\<close>

datatype ieee_number = Not_a_number | Infinite_number bool | Finite_number bool rat

subsection \<open>Formats\<close>

text \<open>
  A format has \<open>f\<close> fraction bits and exponent fields below \<open>emax\<close>; its bias is \<open>emax div 2\<close>. The
  natural number \<open>m\<close> is the image without the sign bit.
\<close>

definition magnitude :: "nat \<Rightarrow> nat \<Rightarrow> nat \<Rightarrow> rat" where
  "magnitude f emax m =
     (let e = m div 2 ^ f; k = m mod 2 ^ f
      in (if e = 0 then of_nat k * 2 else of_nat (2 ^ f + k) * 2 ^ e) / 2 ^ (emax div 2 + f))"

definition roundHalfEven :: "rat \<Rightarrow> nat" where
  "roundHalfEven q =
     (let n = \<lfloor>q\<rfloor>; r = q - of_int n
      in nat (if r < 1 / 2 \<or> (r = 1 / 2 \<and> even n) then n else n + 1))"

text \<open>The exponent field whose binade holds \<open>x\<close>; subnormal numbers use the unit of field 1.\<close>

definition exponentField :: "nat \<Rightarrow> rat \<Rightarrow> nat option" where
  "exponentField emax x = find (\<lambda>e. x * 2 ^ (emax div 2) < 2 ^ (e + 1)) [1..<emax]"

definition roundBits :: "nat \<Rightarrow> nat \<Rightarrow> rat \<Rightarrow> nat" where
  "roundBits f emax x =
     (case exponentField emax x of
        None \<Rightarrow> emax * 2 ^ f
      | Some e \<Rightarrow> (e - 1) * 2 ^ f + roundHalfEven (x * 2 ^ (emax div 2 + f) / 2 ^ e))"

definition numberOfBits :: "nat \<Rightarrow> nat \<Rightarrow> nat \<Rightarrow> ieee_number" where
  "numberOfBits f emax w =
     (let half = (emax + 1) * 2 ^ f; m = w mod half; negative = odd (w div half)
      in if m div 2 ^ f = emax then (if m mod 2 ^ f = 0 then Infinite_number negative else Not_a_number)
         else Finite_number negative (magnitude f emax m))"

definition bitsOfNumber :: "nat \<Rightarrow> nat \<Rightarrow> ieee_number \<Rightarrow> nat" where
  "bitsOfNumber f emax x =
     (let half = (emax + 1) * 2 ^ f
      in case x of
           Not_a_number \<Rightarrow> emax * 2 ^ f + 2 ^ (f - 1)
         | Infinite_number s \<Rightarrow> (if s then half else 0) + emax * 2 ^ f
         | Finite_number s v \<Rightarrow> (if s then half else 0) + roundBits f emax v)"

text \<open>The two formats of \<open>DataView\<close>, and rounding an exact value to a number.\<close>

abbreviation getFloat32Bits :: "nat \<Rightarrow> ieee_number" where
  "getFloat32Bits \<equiv> numberOfBits 23 255"

abbreviation setFloat32Bits :: "ieee_number \<Rightarrow> nat" where
  "setFloat32Bits \<equiv> bitsOfNumber 23 255"

abbreviation getFloat64Bits :: "nat \<Rightarrow> ieee_number" where
  "getFloat64Bits \<equiv> numberOfBits 52 2047"

abbreviation setFloat64Bits :: "ieee_number \<Rightarrow> nat" where
  "setFloat64Bits \<equiv> bitsOfNumber 52 2047"

definition toNumber :: "bool \<Rightarrow> rat \<Rightarrow> ieee_number" where
  "toNumber s v =
     (let m = roundBits 52 2047 v
      in if m = 2047 * 2 ^ 52 then Infinite_number s else Finite_number s (magnitude 52 2047 m))"

fun numberTimes :: "ieee_number \<Rightarrow> ieee_number \<Rightarrow> ieee_number" where
  "numberTimes (Finite_number s x) (Finite_number t y) = toNumber (s \<noteq> t) (x * y)"
| "numberTimes (Infinite_number s) (Infinite_number t) = Infinite_number (s \<noteq> t)"
| "numberTimes (Infinite_number s) (Finite_number t y) =
     (if y = 0 then Not_a_number else Infinite_number (s \<noteq> t))"
| "numberTimes (Finite_number s x) (Infinite_number t) =
     (if x = 0 then Not_a_number else Infinite_number (s \<noteq> t))"
| "numberTimes _ _ = Not_a_number"

definition signed_rat :: "bool \<Rightarrow> rat \<Rightarrow> rat" where
  "signed_rat s x = (if s then - x else x)"

fun numberLess :: "ieee_number \<Rightarrow> ieee_number \<Rightarrow> bool" where
  "numberLess (Finite_number s x) (Finite_number t y) = (signed_rat s x < signed_rat t y)"
| "numberLess (Infinite_number s) (Finite_number t y) = s"
| "numberLess (Finite_number s x) (Infinite_number t) = (\<not> t)"
| "numberLess (Infinite_number s) (Infinite_number t) = (s \<and> \<not> t)"
| "numberLess _ _ = False"

fun numberAtLeast :: "ieee_number \<Rightarrow> ieee_number \<Rightarrow> bool" where
  "numberAtLeast Not_a_number y = False"
| "numberAtLeast x Not_a_number = False"
| "numberAtLeast x y = (\<not> numberLess x y)"

text \<open>An integer as a number: \<open>Number(big)\<close>; and \<open>Math.trunc\<close>, which fails on no integer.\<close>

definition numberOfInt :: "int \<Rightarrow> ieee_number" where
  "numberOfInt i = toNumber (i < 0) (of_int \<bar>i\<bar>)"

fun truncNumber :: "ieee_number \<Rightarrow> int option" where
  "truncNumber (Finite_number s x) = Some (if s then - \<lfloor>x\<rfloor> else \<lfloor>x\<rfloor>)"
| "truncNumber _ = None"

subsection \<open>Exact values are not rounded\<close>

lemma roundHalfEven_nat [simp]: "roundHalfEven (of_nat n) = n"
  by (simp add: roundHalfEven_def)

lemma find_upt_least:
  assumes "a \<le> e" "e < b" "P e" "\<And>i. a \<le> i \<Longrightarrow> i < e \<Longrightarrow> \<not> P i"
  shows "find P [a..<b] = Some e"
  using assms
proof (induction "e - a" arbitrary: a)
  case 0
  then show ?case by (simp add: upt_conv_Cons)
next
  case (Suc d)
  then have "\<not> P a" "find P [Suc a..<b] = Some e" by auto
  then show ?case using Suc.prems by (simp add: upt_conv_Cons)
qed

lemma roundBits_exact:
  assumes "m < emax * 2 ^ f" "1 < emax"
  shows "roundBits f emax (magnitude f emax m) = m"
proof -
  let ?e = "m div 2 ^ f" and ?k = "m mod 2 ^ f" and ?b = "emax div 2"
  have m: "m = ?e * 2 ^ f + ?k" by (simp add: mult.commute)
  have k: "?k < 2 ^ f" by simp
  have e: "?e < emax" using assms(1) by (simp add: less_mult_imp_div_less)
  have pow: "(2 :: rat) ^ (?b + f) = 2 ^ ?b * 2 ^ f" by (simp add: power_add)
  show ?thesis
  proof (cases "?e = 0")
    case True
    have v: "magnitude f emax m = of_nat ?k * 2 / (2 ^ ?b * 2 ^ f)"
      using True by (simp add: magnitude_def Let_def pow)
    have "(of_nat ?k :: rat) < 2 ^ f" using k by (metis of_nat_less_iff of_nat_numeral of_nat_power)
    then have "(of_nat ?k :: rat) < 2 * 2 ^ f" using zero_less_power [of "2 :: rat" f] by linarith
    then have "magnitude f emax m * 2 ^ ?b < 2 ^ (1 + 1)" unfolding v by (simp add: field_simps)
    then have "exponentField emax (magnitude f emax m) = Some 1"
      unfolding exponentField_def using assms(2) by (intro find_upt_least) auto
    moreover have "magnitude f emax m * 2 ^ (?b + f) / 2 ^ 1 = of_nat ?k" unfolding v pow by simp
    ultimately show ?thesis using m True by (simp add: roundBits_def)
  next
    case False
    have v: "magnitude f emax m = of_nat (2 ^ f + ?k) * 2 ^ ?e / (2 ^ ?b * 2 ^ f)"
      using False by (simp add: magnitude_def Let_def pow)
    have x: "magnitude f emax m * 2 ^ ?b = of_nat (2 ^ f + ?k) / 2 ^ f * 2 ^ ?e" unfolding v by simp
    have "(of_nat ?k :: rat) < 2 ^ f" using k by (metis of_nat_less_iff of_nat_numeral of_nat_power)
    then have r: "1 \<le> (of_nat (2 ^ f + ?k) / 2 ^ f :: rat)" "(of_nat (2 ^ f + ?k) / 2 ^ f :: rat) < 2"
      by (simp_all add: field_simps)
    have low: "2 ^ ?e \<le> magnitude f emax m * 2 ^ ?b"
      unfolding x using mult_right_mono [OF r(1), of "2 ^ ?e"] by simp
    have high: "magnitude f emax m * 2 ^ ?b < 2 ^ (?e + 1)"
      unfolding x using mult_strict_right_mono [OF r(2), of "2 ^ ?e"] by simp
    have "exponentField emax (magnitude f emax m) = Some ?e"
      unfolding exponentField_def
    proof (rule find_upt_least)
      show "1 \<le> ?e" "?e < emax" "magnitude f emax m * 2 ^ ?b < 2 ^ (?e + 1)" using False e high by auto
      fix i assume "1 \<le> i" "i < ?e"
      then have "(2 :: rat) ^ (i + 1) \<le> 2 ^ ?e" by (intro power_increasing) auto
      then show "\<not> magnitude f emax m * 2 ^ ?b < 2 ^ (i + 1)" using low by linarith
    qed
    moreover have "magnitude f emax m * 2 ^ (?b + f) / 2 ^ ?e = of_nat (2 ^ f + ?k)" unfolding v pow by simp
    moreover obtain d where d: "?e = Suc d" using False not0_implies_Suc by blast
    then have "(?e - 1) * 2 ^ f + (2 ^ f + ?k) = m" using m unfolding d by simp
    ultimately show ?thesis by (simp only: roundBits_def option.case roundHalfEven_nat)
  qed
qed

lemma bitsOfNumber_numberOfBits:
  assumes "w < 2 * ((emax + 1) * 2 ^ f)" "1 < emax" "numberOfBits f emax w \<noteq> Not_a_number"
  shows "bitsOfNumber f emax (numberOfBits f emax w) = w"
proof -
  define half where "half = (emax + 1) * 2 ^ f"
  let ?m = "w mod half"
  note defs = numberOfBits_def [of f emax w, folded half_def] bitsOfNumber_def [of f emax, folded half_def]
  have "w div half < 2" using assms(1) by (simp add: half_def less_mult_imp_div_less)
  then have "w div half = 0 \<or> w div half = 1" by linarith
  then have w: "(if odd (w div half) then half else 0) + ?m = w"
  proof
    assume z: "w div half = 0"
    then show ?thesis using div_mult_mod_eq [of w half] by (simp only: z) simp
  next
    assume z: "w div half = 1"
    then show ?thesis using div_mult_mod_eq [of w half] by (simp only: z) simp
  qed
  have "?m < half" by (simp add: half_def)
  then have e: "?m div 2 ^ f \<le> emax" using less_mult_imp_div_less [of ?m "emax + 1" "2 ^ f"] by (simp add: half_def)
  show ?thesis
  proof (cases "?m div 2 ^ f = emax")
    case True
    then have z: "?m mod 2 ^ f = 0" using assms(3) by (auto simp: defs Let_def split: if_splits)
    then have "?m = emax * 2 ^ f" using True div_mult_mod_eq [of ?m "2 ^ f"] by simp
    then show ?thesis using True z w by (simp add: defs Let_def)
  next
    case False
    then have "?m div 2 ^ f < emax" using e by simp
    then have "?m < emax * 2 ^ f" by (simp add: div_less_iff_less_mult)
    then show ?thesis using False w roundBits_exact [OF _ assms(2)] by (simp add: defs Let_def)
  qed
qed

lemma magnitude_nonneg: "0 \<le> magnitude f emax m"
  by (simp add: magnitude_def Let_def)

lemma magnitude_Suc: "magnitude f emax m \<le> magnitude f emax (Suc m)"
proof -
  let ?e = "m div 2 ^ f" and ?k = "m mod 2 ^ f"
  have k: "?k < 2 ^ f" by simp
  show ?thesis
  proof (cases "Suc ?k < 2 ^ f")
    case True
    then have "Suc m div 2 ^ f = ?e" "Suc m mod 2 ^ f = Suc ?k"
      by (simp_all add: mod_Suc div_Suc)
    then show ?thesis by (auto simp: magnitude_def Let_def intro!: divide_right_mono mult_right_mono)
  next
    case False
    then have k1: "Suc ?k = 2 ^ f" using k by linarith
    have d: "Suc m div 2 ^ f = Suc ?e" "Suc m mod 2 ^ f = 0"
      using k1 by (simp_all add: mod_Suc div_Suc)
    have "of_nat (Suc ?k) = (2 ^ f :: rat)" unfolding k1 by simp
    then have r: "(of_nat ?k :: rat) \<le> 2 ^ f" by simp
    have "(2 ^ f + of_nat ?k) * 2 ^ ?e \<le> (2 ^ f + 2 ^ f) * (2 :: rat) ^ ?e"
      using r by (intro mult_right_mono) simp_all
    then show ?thesis using r d by (simp add: magnitude_def Let_def divide_right_mono algebra_simps)
  qed
qed

lemma magnitude_mono: "m \<le> n \<Longrightarrow> magnitude f emax m \<le> magnitude f emax n"
  by (rule lift_Suc_mono_le [of "magnitude f emax"]) (rule magnitude_Suc)

text \<open>Every integer multiple of a unit with few enough digits is a value of the format.\<close>

lemma representable:
  assumes "n < 2 ^ (f + 1)" "1 \<le> e" "e < emax"
  shows "\<exists>m<emax * 2 ^ f. magnitude f emax m = of_nat n * 2 ^ e / 2 ^ (emax div 2 + f)"
  using assms
proof (induction e arbitrary: n)
  case (Suc e)
  show ?case
  proof (cases "2 ^ f \<le> n")
    case True
    let ?k = "n - 2 ^ f"
    have k: "?k < 2 ^ f" using Suc.prems(1) True by simp
    let ?m = "Suc e * 2 ^ f + ?k"
    have "?m div 2 ^ f = Suc e" "?m mod 2 ^ f = ?k" using k by (simp_all del: mult_Suc)
    then have "magnitude f emax ?m = of_nat n * 2 ^ Suc e / 2 ^ (emax div 2 + f)"
      using True by (simp add: magnitude_def Let_def)
    moreover have "?m < (Suc e + 1) * 2 ^ f" using k by simp
    then have "?m < emax * 2 ^ f" using Suc.prems(3) by (metis Suc_eq_plus1 Suc_leI less_le_trans mult_le_mono1)
    ultimately show ?thesis by blast
  next
    case small: False
    show ?thesis
    proof (cases "e = 0")
      case True
      have "n < emax * 2 ^ f" using small Suc.prems(3) by (metis One_nat_def Suc_leI le_trans mult_le_mono1 nat_mult_1 not_le_imp_less less_le_trans zero_less_Suc less_imp_le)
      moreover have "magnitude f emax n = of_nat n * 2 ^ Suc e / 2 ^ (emax div 2 + f)"
        using small True by (simp add: magnitude_def Let_def)
      ultimately show ?thesis by blast
    next
      case False
      have "2 * n < 2 ^ (f + 1)" using small by simp
      from Suc.IH [OF this] False Suc.prems(3) show ?thesis by (simp add: algebra_simps)
    qed
  qed
qed simp

lemma toNumber_exact:
  assumes "n < 2 ^ 53" "1 \<le> e" "e < 2047" "v = of_nat n * 2 ^ e / 2 ^ 1075"
  shows "toNumber s v = Finite_number s v"
proof -
  obtain m where m: "m < 2047 * 2 ^ 52" "magnitude 52 2047 m = v"
    using representable [of n 52 e 2047] assms by auto
  then have "roundBits 52 2047 v = m" using roundBits_exact [of m 2047 52] by auto
  then show ?thesis using m by (simp add: toNumber_def)
qed

lemma numberOfInt_exact:
  assumes "\<bar>i\<bar> < 2 ^ 53"
  shows "numberOfInt i = Finite_number (i < 0) (of_int \<bar>i\<bar>)"
  unfolding numberOfInt_def
proof (rule toNumber_exact)
  show "nat \<bar>i\<bar> < 2 ^ 53" using assms by (simp add: nat_less_iff)
  have "(2 :: rat) ^ 1075 \<noteq> 0" by simp
  then show "(of_int \<bar>i\<bar> :: rat) = of_nat (nat \<bar>i\<bar>) * 2 ^ 1075 / 2 ^ 1075"
    by (simp add: nonzero_mult_div_cancel_right)
qed simp_all

lemma truncNumber_numberOfInt: "\<bar>i\<bar> < 2 ^ 53 \<Longrightarrow> truncNumber (numberOfInt i) = Some i"
  by (auto simp: numberOfInt_exact)

end
