(* ===== verification/Dsdl_Types.thy ===== *)
theory Dsdl_Types
  imports Js_Float
begin

text \<open>
  \<open>dronecan-dsdl/src/types.ts\<close> and the bit strings and primitive values of \<open>codec.ts\<close>. A bit
  string of \<open>'0'\<close> and \<open>'1'\<close> is a list of booleans.
\<close>

subsection \<open>Types and values\<close>

datatype prim_kind = P_bool | P_unsigned | P_signed | P_float
datatype cast_mode = Saturated | Truncated
datatype array_mode = Static_array | Dynamic_array

datatype dsdl_type =
    Primitive prim_kind (primBits: nat) "cast_mode option"
  | Void nat
  | Array_of dsdl_type array_mode (arrayMax: nat) (elementMin: nat)
  | Named string

record dsdl_field =
  fieldName :: "string option"
  fieldType :: dsdl_type

record dsdl_section =
  isUnion :: bool
  sectionFields :: "dsdl_field list"

text \<open>
  A value that is a JavaScript object is the list of its properties in insertion order; no DSDL
  field name is an array index. Integers wider than 53 bits are \<open>Big_value\<close>.
\<close>

datatype dsdl_value =
    Number_value ieee_number
  | Big_value int
  | Bool_value bool
  | Array_value "dsdl_value list"
  | Object_value "(string \<times> dsdl_value) list"

datatype section_kind = Msg_section | Req_section | Res_section

datatype dsdl_error =
    Not_enough_bits nat nat
  | Not_enough_tag_bits
  | Tag_out_of_range nat
  | No_section string section_kind
  | Not_an_integer
  | No_union_field
  | Endless_loop
  | Too_deep

subsection \<open>Bit strings\<close>

text \<open>\<open>toString(2)\<close>, \<open>padStart(n, '0')\<close> and \<open>parseInt(_, 2)\<close>.\<close>

fun binary :: "nat \<Rightarrow> bool list" where
  "binary n = (if n < 2 then [n = 1] else binary (n div 2) @ [odd n])"

declare binary.simps [simp del]

definition padBits :: "nat \<Rightarrow> bool list \<Rightarrow> bool list" where
  "padBits w s = replicate (w - length s) False @ s"

definition natOfBits :: "bool list \<Rightarrow> nat" where
  "natOfBits s = foldl (\<lambda>n b. 2 * n + (if b then 1 else 0)) 0 s"

definition byteBits :: "byte \<Rightarrow> bool list" where
  "byteBits b = padBits 8 (binary (unat b))"

definition bitsFromBytes :: "bytes \<Rightarrow> bool list" where
  "bitsFromBytes bs = concat (map byteBits bs)"

text \<open>The chunks of eight bits from the front, the last one shorter.\<close>

fun chunks8 :: "bool list \<Rightarrow> bool list list" where
  "chunks8 [] = []"
| "chunks8 (b # bs) = take 8 (b # bs) # chunks8 (drop 8 (b # bs))"

definition bytesFromBits :: "bool list \<Rightarrow> bytes" where
  "bytesFromBits bs =
     (let padded = (if length bs mod 8 = 0 then bs else bs @ replicate (8 - length bs mod 8) False)
      in map (\<lambda>c. of_nat (natOfBits c)) (chunks8 padded))"

definition beFromLeBits :: "bool list \<Rightarrow> nat \<Rightarrow> dsdl_error + bool list" where
  "beFromLeBits s bitlen =
     (if length s < bitlen then Inl (Not_enough_bits bitlen (length s))
      else Inr (concat (rev (chunks8 (take bitlen s)))))"

text \<open>The chunks of eight bits from the end, the last one shorter.\<close>

function chunksEnd :: "bool list \<Rightarrow> bool list list" where
  "chunksEnd s = (if s = [] then [] else drop (length s - 8) s # chunksEnd (take (length s - 8) s))"
  by pat_completeness auto
termination by (relation "measure length") auto

declare chunksEnd.simps [simp del]

definition leFromBeBits :: "bool list \<Rightarrow> nat \<Rightarrow> bool list" where
  "leFromBeBits s bitlen =
     concat (chunksEnd (if length s > bitlen then drop (length s - bitlen) s else s))"

definition bitLength :: "nat \<Rightarrow> nat" where
  "bitLength v = (if v = 0 then 0 else length (binary v))"

definition unionTagBits :: "nat \<Rightarrow> nat" where
  "unionTagBits n = (if n \<le> 1 then 0 else bitLength (n - 1))"

subsection \<open>Lemmas on bit strings\<close>

lemma natOfBits_snoc: "natOfBits (s @ [b]) = 2 * natOfBits s + (if b then 1 else 0)"
  by (simp add: natOfBits_def)

lemma natOfBits_Nil [simp]: "natOfBits [] = 0"
  by (simp add: natOfBits_def)

lemma natOfBits_zeros: "natOfBits (replicate k False @ s) = natOfBits s"
  by (induction k) (simp_all add: natOfBits_def)

lemma natOfBits_binary [simp]: "natOfBits (binary n) = n"
proof (induction n rule: binary.induct)
  case (1 n)
  show ?case
  proof (cases "n < 2")
    case True
    then have "binary n = [n = 1]" by (subst binary.simps) simp
    then show ?thesis using True by (auto simp: natOfBits_def)
  next
    case False
    have "binary n = binary (n div 2) @ [odd n]" using False by (subst binary.simps) simp
    then have "natOfBits (binary n) = 2 * (n div 2) + (if odd n then 1 else 0)"
      using "1.IH" [OF False] by (simp add: natOfBits_snoc)
    then show ?thesis by presburger
  qed
qed

lemma length_binary_pos: "0 < length (binary n)"
  by (subst binary.simps) simp

lemma length_binary: "n < 2 ^ w \<Longrightarrow> 0 < w \<Longrightarrow> length (binary n) \<le> w"
proof (induction n arbitrary: w rule: binary.induct)
  case (1 n)
  show ?case
  proof (cases "n < 2")
    case True
    then show ?thesis using 1 by (subst binary.simps) simp
  next
    case False
    obtain v where v: "w = Suc v" using "1.prems"(2) by (cases w) auto
    have "0 < v" using False "1.prems"(1) v by (cases v) auto
    moreover have "n div 2 < 2 ^ v" using "1.prems"(1) v by (simp add: div_less_iff_less_mult mult.commute)
    ultimately have "length (binary (n div 2)) \<le> v" using False by (intro "1.IH") auto
    then show ?thesis using False v by (subst binary.simps) simp
  qed
qed

lemma bitLength_bound: "n < 2 ^ bitLength n"
proof -
  have "n < 2 ^ length (binary n)"
  proof (induction n rule: binary.induct)
    case (1 n)
    then show ?case by (subst binary.simps) auto
  qed
  then show ?thesis by (simp add: bitLength_def)
qed

lemma length_padBits: "length s \<le> w \<Longrightarrow> length (padBits w s) = w"
  by (simp add: padBits_def)

lemma natOfBits_padBits [simp]: "natOfBits (padBits w s) = natOfBits s"
  by (simp add: padBits_def natOfBits_zeros)

lemma length_byteBits [simp]: "length (byteBits b) = 8"
  unfolding byteBits_def using unsigned_less [of b, where 'a = nat] by (intro length_padBits length_binary) auto

lemma natOfBits_less: "natOfBits s < 2 ^ length s"
proof (induction s rule: rev_induct)
  case (snoc b s)
  then show ?case by (simp add: natOfBits_snoc)
qed simp

lemma natOfBits_inject: "length s = length t \<Longrightarrow> natOfBits s = natOfBits t \<Longrightarrow> s = t"
proof (induction s arbitrary: t rule: rev_induct)
  case (snoc b s)
  then obtain t' c where t: "t = t' @ [c]" by (metis append_butlast_last_id length_0_conv snoc_eq_iff_butlast)
  have e: "2 * natOfBits s + (if b then 1 else 0) = 2 * natOfBits t' + (if c then 1 else 0)"
    using snoc.prems(2) by (simp add: t natOfBits_snoc)
  then have "b = c" by (auto split: if_splits) presburger+
  then show ?case using e snoc by (simp add: t)
qed simp

lemma chunks8_append: "length c = 8 \<Longrightarrow> chunks8 (c @ s) = c # chunks8 s"
proof -
  assume c: "length c = 8"
  then obtain b bs where "c @ s = b # bs" by (cases "c @ s") auto
  then show ?thesis using c chunks8.simps(2) [of b bs] by (metis append_eq_conv_conj)
qed

lemma bitsFromBytes_Cons: "bitsFromBytes (b # bs) = byteBits b @ bitsFromBytes bs"
  by (simp add: bitsFromBytes_def)

text \<open>The bits of a payload, and what padding adds to them.\<close>

lemma bits_roundtrip_8: "length bs mod 8 = 0 \<Longrightarrow> bitsFromBytes (map (\<lambda>c. of_nat (natOfBits c)) (chunks8 bs)) = bs"
proof (induction bs rule: chunks8.induct)
  case 1
  then show ?case by (simp add: bitsFromBytes_def)
next
  case (2 b bs)
  let ?s = "b # bs" and ?c = "take 8 (b # bs)"
  have len: "8 \<le> length ?s" using "2.prems" by (metis length_0_conv linorder_not_le list.discI mod_less)
  then have c: "length ?c = 8" by simp
  have n: "natOfBits ?c < 256" using natOfBits_less [of ?c] c by simp
  have "natOfBits (byteBits (of_nat (natOfBits ?c))) = natOfBits ?c"
    by (simp only: byteBits_def natOfBits_padBits natOfBits_binary unat_of_nat_byte [OF n])
  then have "byteBits (of_nat (natOfBits ?c)) = ?c"
    by (rule natOfBits_inject [rotated]) (simp only: c length_byteBits)
  moreover have "length (drop 8 ?s) mod 8 = 0" using "2.prems" len by (metis length_drop mod_if le_mod_geq)
  ultimately show ?case using "2.IH" by (simp only: chunks8.simps list.map bitsFromBytes_Cons append_take_drop_id)
qed

lemma bits_roundtrip:
  "\<exists>k<8. bitsFromBytes (bytesFromBits bs) = bs @ replicate k False"
proof -
  let ?k = "if length bs mod 8 = 0 then 0 else 8 - length bs mod 8"
  have "(n + (if n mod 8 = 0 then 0 else 8 - n mod 8)) mod 8 = 0" for n :: nat by presburger
  then have "length (bs @ replicate ?k False) mod 8 = 0" by simp
  moreover have "(if length bs mod 8 = 0 then bs else bs @ replicate (8 - length bs mod 8) False) = bs @ replicate ?k False"
    by simp
  ultimately have "bitsFromBytes (bytesFromBits bs) = bs @ replicate ?k False"
    unfolding bytesFromBits_def Let_def by (simp only: bits_roundtrip_8)
  moreover have "?k < 8" by simp
  ultimately show ?thesis by blast
qed

lemma length_bitsFromBytes [simp]: "length (bitsFromBytes bs) = 8 * length bs"
  by (induction bs) (simp_all add: bitsFromBytes_def)

lemma concat_rev_chunksEnd: "concat (rev (chunksEnd s)) = s"
proof (induction s rule: chunksEnd.induct)
  case (1 s)
  then show ?case by (subst chunksEnd.simps) simp
qed

lemma chunks8_concat_chunksEnd: "chunks8 (concat (chunksEnd s)) = chunksEnd s"
proof (induction s rule: chunksEnd.induct)
  case (1 s)
  show ?case
  proof (cases "length s \<le> 8")
    case True
    have e: "chunksEnd s = (if s = [] then [] else [s])"
      using True by (subst chunksEnd.simps) (auto simp: chunksEnd.simps [of "[]"])
    have "chunks8 s = (if s = [] then [] else [s])" using True by (cases s) auto
    then show ?thesis unfolding e by simp
  next
    case False
    have e: "chunksEnd s = drop (length s - 8) s # chunksEnd (take (length s - 8) s)"
      using False by (subst chunksEnd.simps) auto
    have "length (drop (length s - 8) s) = 8" using False by simp
    then have "chunks8 (concat (chunksEnd s)) = drop (length s - 8) s # chunks8 (concat (chunksEnd (take (length s - 8) s)))"
      unfolding e by (simp only: concat.simps chunks8_append)
    moreover have "s \<noteq> []" using False by auto
    ultimately show ?thesis using "1.IH" e by simp
  qed
qed

lemma length_concat_chunksEnd: "length (concat (chunksEnd s)) = length s"
  using arg_cong [where f = length, OF concat_rev_chunksEnd [of s]]
  by (simp add: length_concat rev_map [symmetric])

lemma length_leFromBeBits: "length s = w \<Longrightarrow> length (leFromBeBits s w) = w"
  by (simp add: leFromBeBits_def length_concat_chunksEnd)

lemma beFromLe_leFromBe:
  assumes "length s = w"
  shows "beFromLeBits (leFromBeBits s w @ t) w = Inr s"
proof -
  have l: "length (concat (chunksEnd s)) = w" using assms by (simp add: length_concat_chunksEnd)
  have "take w (concat (chunksEnd s) @ t) = concat (chunksEnd s)" using l by simp
  then show ?thesis using l assms
    by (simp add: beFromLeBits_def leFromBeBits_def chunks8_concat_chunksEnd concat_rev_chunksEnd)
qed

end
