(* ===== verification/Dsdl_Codec.thy ===== *)
theory Dsdl_Codec
  imports Dsdl_Types
begin

unbundle bit_operations_syntax

text \<open>
  \<open>dronecan-dsdl/src/codec.ts\<close>: the primitives, the decoder and the encoder of one DSDL
  section. The recursion through named types is bounded by a fuel, the nesting depth; the
  loops over items and fields take the codec of the next level as an argument.
\<close>

subsection \<open>float16\<close>

definition float16Bits :: "ieee_number \<Rightarrow> nat" where
  "float16Bits value =
     (let f32infty = 255 * 2 ^ 23; f16infty = 31 * 2 ^ 23;
          magic = getFloat32Bits (15 * 2 ^ 23);
          u = setFloat32Bits value;
          negative = (2 ^ 31 \<le> u);
          u = u mod 2 ^ 31;
          out = (if f32infty \<le> u then (if f32infty < u then 0x7FFF else 0x7C00)
            else
              (let u = u div 2 ^ 12 * 2 ^ 12;
                   u = setFloat32Bits (numberTimes (getFloat32Bits u) magic);
                   u = (u + 0x1000) mod 2 ^ 32;
                   u = (if f16infty < u then f16infty else u)
               in u div 2 ^ 13 mod 2 ^ 16))
      in (out OR (if negative then 0x8000 else 0)) mod 2 ^ 16)"

definition float16Value :: "nat \<Rightarrow> ieee_number" where
  "float16Value w =
     (let magic = getFloat32Bits ((254 - 15) * 2 ^ 23);
          wasInfNan = getFloat32Bits ((127 + 16) * 2 ^ 23);
          u = w mod 2 ^ 15 * 2 ^ 13;
          u = setFloat32Bits (numberTimes (getFloat32Bits u) magic);
          u = (if numberAtLeast (getFloat32Bits u) wasInfNan then u OR 255 * 2 ^ 23 else u);
          u = u OR (if odd (w div 2 ^ 15) then 2 ^ 31 else 0)
      in getFloat32Bits u)"

subsection \<open>Primitives\<close>

definition intValue :: "int \<Rightarrow> dsdl_value" where
  "intValue i = (if \<bar>i\<bar> \<le> 2 ^ 53 - 1 then Number_value (numberOfInt i) else Big_value i)"

text \<open>\<open>1n << BigInt(w - 1)\<close>; a negative shift count shifts right.\<close>

definition signHalf :: "nat \<Rightarrow> int" where
  "signHalf w = (if w = 0 then 0 else 2 ^ (w - 1))"

definition decodePrimitive :: "prim_kind \<Rightarrow> nat \<Rightarrow> bool list \<Rightarrow> dsdl_value" where
  "decodePrimitive k w s =
     (let v = natOfBits s
      in case k of
           P_bool \<Rightarrow> Bool_value (v \<noteq> 0)
         | P_unsigned \<Rightarrow> intValue (int v)
         | P_signed \<Rightarrow> intValue (if signHalf w \<le> int v then int v - 2 ^ w else int v)
         | P_float \<Rightarrow> Number_value
             (if w = 16 then float16Value v
              else if w = 32 then getFloat32Bits v
              else getFloat64Bits (v mod 2 ^ 64)))"

definition FLOAT_LIMITS :: "nat \<Rightarrow> ieee_number option" where
  "FLOAT_LIMITS w =
     (if w = 16 then Some (Finite_number False 65504)
      else if w = 32 then Some (getFloat32Bits 0x7F7FFFFF)
      else if w = 64 then Some (getFloat64Bits 0x7FEFFFFFFFFFFFFF)
      else None)"

fun numberNegate :: "ieee_number \<Rightarrow> ieee_number" where
  "numberNegate (Finite_number s x) = Finite_number (\<not> s) x"
| "numberNegate (Infinite_number s) = Infinite_number (\<not> s)"
| "numberNegate Not_a_number = Not_a_number"

text \<open>\<open>Math.min\<close> and \<open>Math.max\<close> of a limit, which is no zero, and a number that is not NaN.\<close>

definition numberMin :: "ieee_number \<Rightarrow> ieee_number \<Rightarrow> ieee_number" where
  "numberMin a b = (if numberLess a b then a else b)"

definition numberMax :: "ieee_number \<Rightarrow> ieee_number \<Rightarrow> ieee_number" where
  "numberMax a b = (if numberLess b a then a else b)"

text \<open>A width without a limit makes both comparisons false and the saturation NaN.\<close>

definition limitNumber :: "nat \<Rightarrow> cast_mode option \<Rightarrow> ieee_number \<Rightarrow> ieee_number" where
  "limitNumber w c x =
     (if x = Not_a_number then x
      else if c = Some Saturated then
        (case FLOAT_LIMITS w of
           None \<Rightarrow> Not_a_number
         | Some l \<Rightarrow> numberMax (numberNegate l) (numberMin l x))
      else (case FLOAT_LIMITS w of
              None \<Rightarrow> x
            | Some l \<Rightarrow> if numberLess l x then Infinite_number False
                 else if numberLess x (numberNegate l) then Infinite_number True else x))"

fun truthy :: "dsdl_value \<Rightarrow> bool" where
  "truthy (Number_value x) = (case x of Not_a_number \<Rightarrow> False | Infinite_number s \<Rightarrow> True | Finite_number s v \<Rightarrow> v \<noteq> 0)"
| "truthy (Big_value i) = (i \<noteq> 0)"
| "truthy (Bool_value b) = b"
| "truthy (Array_value xs) = True"
| "truthy (Object_value fs) = True"

definition truthyOpt :: "dsdl_value option \<Rightarrow> bool" where
  "truthyOpt v = (case v of None \<Rightarrow> False | Some x \<Rightarrow> truthy x)"

definition floatOperand :: "dsdl_value option \<Rightarrow> ieee_number" where
  "floatOperand v = (case v of
     Some (Number_value x) \<Rightarrow> x
   | Some (Big_value i) \<Rightarrow> numberOfInt i
   | _ \<Rightarrow> Finite_number False 0)"

text \<open>\<open>BigInt(Math.trunc(x))\<close> throws for NaN and the infinities.\<close>

definition intOperand :: "dsdl_value option \<Rightarrow> int option" where
  "intOperand v = (case v of
     Some (Big_value i) \<Rightarrow> Some i
   | Some (Number_value x) \<Rightarrow> truncNumber x
   | _ \<Rightarrow> Some (if truthyOpt v then 1 else 0))"

definition encodeFloat :: "nat \<Rightarrow> ieee_number \<Rightarrow> nat" where
  "encodeFloat w x = (if w = 16 then float16Bits x else if w = 32 then setFloat32Bits x else setFloat64Bits x)"

definition castUnsigned :: "nat \<Rightarrow> cast_mode option \<Rightarrow> int \<Rightarrow> int" where
  "castUnsigned w c i =
     (let mx = 2 ^ w - 1
      in if c = Some Saturated then (if i < 0 then 0 else if i > mx then mx else i) else i mod 2 ^ w)"

definition castSigned :: "nat \<Rightarrow> cast_mode option \<Rightarrow> int \<Rightarrow> int" where
  "castSigned w c i =
     (let half = signHalf w; mn = - half; mx = half - 1;
          i = (if c = Some Saturated then (if i < mn then mn else if i > mx then mx else i)
               else (let j = i mod 2 ^ w in if j > mx then j - 2 ^ w else j))
      in if i < 0 then i + 2 ^ w else i)"

definition encodePrimitive :: "prim_kind \<Rightarrow> nat \<Rightarrow> cast_mode option \<Rightarrow> dsdl_value option \<Rightarrow> dsdl_error + bool list" where
  "encodePrimitive k w c v =
     (case k of
        P_bool \<Rightarrow> Inr [truthyOpt v]
      | P_float \<Rightarrow> Inr (padBits w (binary (encodeFloat w (limitNumber w c (floatOperand v)))))
      | _ \<Rightarrow>
          (case intOperand v of
             None \<Rightarrow> Inl Not_an_integer
           | Some i \<Rightarrow> Inr (padBits w (binary (nat (if k = P_unsigned then castUnsigned w c i else castSigned w c i))))))"

subsection \<open>Decoding\<close>

record cursor =
  stream :: "bool list"
  pos :: nat

definition remaining :: "cursor \<Rightarrow> int" where
  "remaining c = int (length (stream c)) - int (pos c)"

definition takeBits :: "cursor \<Rightarrow> nat \<Rightarrow> dsdl_error + bool list \<times> cursor" where
  "takeBits c bitlen =
     (case beFromLeBits (drop (pos c) (stream c)) bitlen of
        Inl e \<Rightarrow> Inl e
      | Inr s \<Rightarrow> Inr (s, c\<lparr>pos := pos c + bitlen\<rparr>))"

type_synonym 'a decoder = "cursor \<Rightarrow> bool \<Rightarrow> dsdl_error + 'a \<times> cursor"

text \<open>The loop over a known number of items: the last one may use the tail optimisation.\<close>

fun decodeItems :: "'a decoder \<Rightarrow> nat \<Rightarrow> 'a list decoder" where
  "decodeItems dec 0 c tao = Inr ([], c)"
| "decodeItems dec (Suc k) c tao =
     (case dec c (tao \<and> k = 0) of
        Inl e \<Rightarrow> Inl e
      | Inr (v, c') \<Rightarrow> (case decodeItems dec k c' tao of Inl e \<Rightarrow> Inl e | Inr (vs, c'') \<Rightarrow> Inr (v # vs, c'')))"

text \<open>The loop of a tail array, which does not end if an item takes no bits.\<close>

function decodeTail :: "'a decoder \<Rightarrow> cursor \<Rightarrow> dsdl_error + 'a list \<times> cursor" where
  "decodeTail dec c =
     (if remaining c < 8 then Inr ([], c\<lparr>pos := length (stream c)\<rparr>)
      else
        (case dec c False of
           Inl e \<Rightarrow> Inl e
         | Inr (v, c') \<Rightarrow>
             if remaining c' < remaining c then
               (case decodeTail dec c' of Inl e \<Rightarrow> Inl e | Inr (vs, c'') \<Rightarrow> Inr (v # vs, c''))
             else Inl Endless_loop))"
  by pat_completeness auto
termination by (relation "measure (\<lambda>(dec, c). nat (remaining c))") auto

declare decodeTail.simps [simp del]

type_synonym type_decoder = "dsdl_type \<Rightarrow> dsdl_value decoder"

text \<open>\<open>out[field.n] = value\<close> of an object without that property.\<close>

fun decodeFields :: "type_decoder \<Rightarrow> dsdl_field list \<Rightarrow> (string \<times> dsdl_value) list decoder" where
  "decodeFields dec [] c tao = Inr ([], c)"
| "decodeFields dec (f # fs) c tao =
     (case dec (fieldType f) c (tao \<and> fs = []) of
        Inl e \<Rightarrow> Inl e
      | Inr (v, c') \<Rightarrow>
          (case decodeFields dec fs c' tao of
             Inl e \<Rightarrow> Inl e
           | Inr (vs, c'') \<Rightarrow>
               Inr (case fieldName f of None \<Rightarrow> vs | Some n \<Rightarrow> (n, v) # vs, c'')))"

definition decodeSection :: "type_decoder \<Rightarrow> dsdl_section \<Rightarrow> (string \<times> dsdl_value) list decoder" where
  "decodeSection dec section c tao =
     (let fields = sectionFields section
      in if isUnion section then
           (let tagBits = unionTagBits (length fields);
                tag = natOfBits (take tagBits (drop (pos c) (stream c)))
            in if remaining c < int tagBits then Inl Not_enough_tag_bits
               else if tag \<ge> length fields then Inl (Tag_out_of_range tag)
               else
                 (case dec (fieldType (fields ! tag)) (c\<lparr>pos := pos c + tagBits\<rparr>) tao of
                    Inl e \<Rightarrow> Inl e
                  | Inr (v, c') \<Rightarrow>
                      Inr (case fieldName (fields ! tag) of None \<Rightarrow> [] | Some n \<Rightarrow> [(n, v)], c')))
         else decodeFields dec fields c tao)"

type_synonym resolver = "string \<Rightarrow> dsdl_error + dsdl_section"

primrec decodeType :: "resolver \<Rightarrow> nat \<Rightarrow> type_decoder" where
  "decodeType resolve 0 = (\<lambda>desc c tao. Inl Too_deep)"
| "decodeType resolve (Suc n) =
     (\<lambda>desc c tao.
        case desc of
          Primitive k w cm \<Rightarrow>
            (case takeBits c w of Inl e \<Rightarrow> Inl e | Inr (s, c') \<Rightarrow> Inr (decodePrimitive k w s, c'))
        | Void v \<Rightarrow> Inr (Number_value (Finite_number False 0), c\<lparr>pos := pos c + v\<rparr>)
        | Named r \<Rightarrow>
            (case resolve r of
               Inl e \<Rightarrow> Inl e
             | Inr section \<Rightarrow>
                 (case decodeSection (decodeType resolve n) section c tao of
                    Inl e \<Rightarrow> Inl e
                  | Inr (fs, c') \<Rightarrow> Inr (Object_value fs, c')))
        | Array_of a m mx eMin \<Rightarrow>
            (case
               (if m = Static_array then decodeItems (decodeType resolve n a) mx c tao
                else if tao \<and> eMin \<ge> 8 then decodeTail (decodeType resolve n a) c
                else
                  (case takeBits c (bitLength mx) of
                     Inl e \<Rightarrow> Inl e
                   | Inr (s, c') \<Rightarrow> decodeItems (decodeType resolve n a) (natOfBits s) c' tao))
             of Inl e \<Rightarrow> Inl e | Inr (vs, c') \<Rightarrow> Inr (Array_value vs, c')))"

definition decodeDronecanSection ::
  "nat \<Rightarrow> dsdl_section \<Rightarrow> bytes \<Rightarrow> resolver \<Rightarrow> bool \<Rightarrow> dsdl_error + (string \<times> dsdl_value) list" where
  "decodeDronecanSection depth section payload resolve tao =
     map_sum id fst (decodeSection (decodeType resolve depth) section
       \<lparr>stream = bitsFromBytes payload, pos = 0\<rparr> tao)"

subsection \<open>Encoding\<close>

type_synonym 'a encoder = "'a \<Rightarrow> bool \<Rightarrow> dsdl_error + bool list"

text \<open>The concatenation of the items' bits; the last one gets the flag \<open>tao\<close>.\<close>

fun encodeItems :: "'a encoder \<Rightarrow> 'a list encoder" where
  "encodeItems enc [] tao = Inr []"
| "encodeItems enc (v # vs) tao =
     (case enc v (tao \<and> vs = []) of
        Inl e \<Rightarrow> Inl e
      | Inr s \<Rightarrow> (case encodeItems enc vs tao of Inl e \<Rightarrow> Inl e | Inr t \<Rightarrow> Inr (s @ t)))"

type_synonym type_encoder = "dsdl_type \<Rightarrow> dsdl_value option encoder"

definition fieldValue :: "(string \<times> dsdl_value) list \<Rightarrow> dsdl_field \<Rightarrow> dsdl_value option" where
  "fieldValue value f = (case fieldName f of None \<Rightarrow> None | Some n \<Rightarrow> map_of value n)"

fun fieldIndexOf :: "'a \<Rightarrow> 'a list \<Rightarrow> nat" where
  "fieldIndexOf x [] = 0"
| "fieldIndexOf x (y # ys) = (if x = y then 0 else Suc (fieldIndexOf x ys))"

definition encodeSection :: "type_encoder \<Rightarrow> dsdl_section \<Rightarrow> (string \<times> dsdl_value) list encoder" where
  "encodeSection enc section value tao =
     (let fields = sectionFields section
      in if isUnion section then
           (let named = map fieldName fields;
                chosen = find (\<lambda>key. Some key \<in> set named) (map fst value);
                tag = (case chosen of None \<Rightarrow> 0 | Some key \<Rightarrow> fieldIndexOf (Some key) named);
                tagBits = unionTagBits (length fields);
                prefix = (if tagBits = 0 then [] else padBits tagBits (binary tag))
            in if fields = [] then Inl No_union_field
               else
                 (case enc (fieldType (fields ! tag)) (case chosen of None \<Rightarrow> None | Some key \<Rightarrow> map_of value key) tao of
                    Inl e \<Rightarrow> Inl e
                  | Inr s \<Rightarrow> Inr (prefix @ s)))
         else encodeItems (\<lambda>f. enc (fieldType f) (fieldValue value f)) fields tao)"

primrec encodeType :: "resolver \<Rightarrow> nat \<Rightarrow> type_encoder" where
  "encodeType resolve 0 = (\<lambda>desc v tao. Inl Too_deep)"
| "encodeType resolve (Suc n) =
     (\<lambda>desc v tao.
        case desc of
          Primitive k w cm \<Rightarrow> map_sum id (\<lambda>s. leFromBeBits s w) (encodePrimitive k w cm v)
        | Void k \<Rightarrow> Inr (replicate k False)
        | Named r \<Rightarrow>
            (case resolve r of
               Inl e \<Rightarrow> Inl e
             | Inr section \<Rightarrow>
                 encodeSection (encodeType resolve n) section
                   (case v of Some (Object_value fs) \<Rightarrow> fs | _ \<Rightarrow> []) tao)
        | Array_of a m mx eMin \<Rightarrow>
            (let items = take mx (case v of Some (Array_value vs) \<Rightarrow> vs | _ \<Rightarrow> [])
             in if m = Static_array then
                  encodeItems (encodeType resolve n a)
                    (map Some items @ replicate (mx - length items) None) tao
                else if tao \<and> eMin \<ge> 8 then encodeItems (encodeType resolve n a) (map Some items) False
                else
                  (let w = bitLength mx;
                       count = leFromBeBits (padBits w (binary (length items))) w
                   in map_sum id (\<lambda>s. count @ s) (encodeItems (encodeType resolve n a) (map Some items) tao))))"

definition encodeDronecanSection ::
  "nat \<Rightarrow> dsdl_section \<Rightarrow> (string \<times> dsdl_value) list \<Rightarrow> resolver \<Rightarrow> bool \<Rightarrow> dsdl_error + bytes" where
  "encodeDronecanSection depth section value resolve tao =
     map_sum id bytesFromBits (encodeSection (encodeType resolve depth) section value tao)"

end
