(* ===== verification/Dronecan_Catalogue.thy ===== *)
theory Dronecan_Catalogue
  imports Dsdl_Codec Crc_Algebra Js_Hex
begin

unbundle bit_operations_syntax

text \<open>
  \<open>dronecan-dsdl/src/catalogue.ts\<close>: the types by name and by default id. The generated data is
  an argument. And the checksums of \<open>transfer.ts\<close>.
\<close>

subsection \<open>Types\<close>

datatype entry_kind = Message_type | Service_type

record type_entry =
  entryKind :: entry_kind
  entryId :: "nat option"
  entrySig :: js_text
  msgSection :: "dsdl_section option"
  reqSection :: "dsdl_section option"
  resSection :: "dsdl_section option"

type_synonym catalogue_data = "(string \<times> type_entry) list"

record type_info =
  fullName :: string
  shortName :: string
  infoKind :: entry_kind
  infoTypeId :: "nat option"
  signature :: nat

text \<open>\<open>sig\<close> is 16 hexadecimal digits, which \<open>BigInt\<close> reads.\<close>

definition toInfo :: "string \<Rightarrow> type_entry \<Rightarrow> type_info" where
  "toInfo name e =
     \<lparr>fullName = name, shortName = rev (takeWhile (\<lambda>c. c \<noteq> CHR ''.'') (rev name)),
      infoKind = entryKind e, infoTypeId = entryId e, signature = nat (hexPrefix 0 (entrySig e))\<rparr>"

definition typeInfo :: "catalogue_data \<Rightarrow> string \<Rightarrow> type_info option" where
  "typeInfo types name = map_option (toInfo name) (map_of types name)"

text \<open>The constructor's maps: a later entry with the same id replaces an earlier one.\<close>

definition idIndex :: "entry_kind \<Rightarrow> catalogue_data \<Rightarrow> nat \<rightharpoonup> string" where
  "idIndex k types =
     fold (\<lambda>(name, e) m. case entryId e of
         None \<Rightarrow> m
       | Some i \<Rightarrow> if entryKind e = k then m(i \<mapsto> name) else m) types (\<lambda>_. None)"

definition byId :: "entry_kind \<Rightarrow> catalogue_data \<Rightarrow> nat \<Rightarrow> type_info option" where
  "byId k types i =
     (case idIndex k types i of
        None \<Rightarrow> None
      | Some name \<Rightarrow> if name = [] then None else typeInfo types name)"

definition messageById :: "catalogue_data \<Rightarrow> nat \<Rightarrow> type_info option" where
  "messageById types i = byId Message_type types i"

definition serviceById :: "catalogue_data \<Rightarrow> nat \<Rightarrow> type_info option" where
  "serviceById types i = byId Service_type types i"

fun entrySection :: "section_kind \<Rightarrow> type_entry \<Rightarrow> dsdl_section option" where
  "entrySection Msg_section e = msgSection e"
| "entrySection Req_section e = reqSection e"
| "entrySection Res_section e = resSection e"

definition catalogueSection :: "catalogue_data \<Rightarrow> string \<Rightarrow> section_kind \<Rightarrow> dsdl_error + dsdl_section" where
  "catalogueSection types name k =
     (case Option.bind (map_of types name) (entrySection k) of
        None \<Rightarrow> Inl (No_section name k)
      | Some s \<Rightarrow> Inr s)"

definition resolveType :: "catalogue_data \<Rightarrow> resolver" where
  "resolveType types name = catalogueSection types name Msg_section"

text \<open>
  The fuel of the codec: names are resolved at most once on a path through acyclic types, and
  a named type stands directly in a field or in an array.
\<close>

definition codecDepth :: "catalogue_data \<Rightarrow> nat" where
  "codecDepth types = 2 * length types + 2"

definition catalogueDecode ::
  "catalogue_data \<Rightarrow> string \<Rightarrow> section_kind \<Rightarrow> bytes \<Rightarrow> bool option \<Rightarrow> dsdl_error + (string \<times> dsdl_value) list" where
  "catalogueDecode types name k payload tao =
     (case catalogueSection types name k of
        Inl e \<Rightarrow> Inl e
      | Inr s \<Rightarrow> decodeDronecanSection (codecDepth types) s payload (resolveType types)
          (case tao of None \<Rightarrow> True | Some b \<Rightarrow> b))"

definition catalogueEncode ::
  "catalogue_data \<Rightarrow> string \<Rightarrow> section_kind \<Rightarrow> (string \<times> dsdl_value) list \<Rightarrow> bool option \<Rightarrow> dsdl_error + bytes" where
  "catalogueEncode types name k value tao =
     (case catalogueSection types name k of
        Inl e \<Rightarrow> Inl e
      | Inr s \<Rightarrow> encodeDronecanSection (codecDepth types) s value (resolveType types)
          (case tao of None \<Rightarrow> True | Some b \<Rightarrow> b))"

subsection \<open>Checksums\<close>

definition crc16Bit :: "16 word \<Rightarrow> 16 word" where
  "crc16Bit crc = (if crc AND 0x8000 \<noteq> 0 then push_bit 1 crc XOR 0x1021 else push_bit 1 crc)"

definition crc16Byte :: "byte \<Rightarrow> 16 word \<Rightarrow> 16 word" where
  "crc16Byte b crc = (crc16Bit ^^ 8) (crc XOR push_bit 8 (ucast b))"

definition dronecanCrc16 :: "bytes \<Rightarrow> 16 word \<Rightarrow> 16 word" where
  "dronecanCrc16 bs initial = fold crc16Byte bs initial"

definition signatureBytes :: "nat \<Rightarrow> bytes" where
  "signatureBytes sig = map (\<lambda>i. of_nat (sig div 2 ^ (8 * i) mod 256)) [0..<8]"

definition dronecanTransferCrc :: "nat \<Rightarrow> bytes \<Rightarrow> 16 word" where
  "dronecanTransferCrc sig payload = dronecanCrc16 payload (dronecanCrc16 (signatureBytes sig) 0xFFFF)"

subsection \<open>The checksum detects a changed byte\<close>

lemma crc16Bit_step: "crc16Bit = forward_step 0x1021"
proof
  fix c :: "16 word"
  have m: "c AND 0x8000 \<noteq> 0 \<longleftrightarrow> bit c 15"
  proof -
    have "(0x8000 :: 16 word) = push_bit 15 1" by simp
    then show ?thesis
      by (metis and_exp_eq_0_iff_not_bit and.commute push_bit_of_1)
  qed
  show "crc16Bit c = forward_step 0x1021 c" by (simp add: crc16Bit_def forward_step_def m)
qed

definition crc16_undo_bit :: "16 word \<Rightarrow> 16 word" where
  "crc16_undo_bit c =
     drop_bit 1 (c XOR (if bit c 0 then 0x1021 else 0)) XOR (if bit c 0 then 0x8000 else 0)"

lemma crc16_undo_linear: "xor_linear (crc16_undo_bit ^^ 8)"
proof -
  have "xor_linear (\<lambda>c :: 16 word. drop_bit 1 (c XOR (if bit c 0 then 0x1021 else 0)))"
    by (rule xor_linear_comp [OF _ xor_linear_drop_bit])
      (intro xor_linear_xor xor_linear_id xor_linear_if_bit)
  then have "xor_linear crc16_undo_bit"
    unfolding crc16_undo_bit_def [abs_def] by (intro xor_linear_xor xor_linear_if_bit)
  then show ?thesis by (rule xor_linear_funpow)
qed

lemma crc16_undo: "(crc16_undo_bit ^^ 8) ((crc16Bit ^^ 8) c) = c"
proof -
  have l: "xor_linear (crc16Bit ^^ 8)"
    unfolding crc16Bit_step by (rule xor_linear_funpow) (rule forward_step_linear)
  show ?thesis
    by (rule xor_linear_eq [OF xor_linear_comp [OF l crc16_undo_linear] xor_linear_id])
      (simp only: basis_unfold, simp add: basis_eval crc16_undo_bit_def crc16Bit_step)
qed

lemma inj_high_byte: "inj (\<lambda>b :: byte. push_bit 8 (ucast b) :: 16 word)"
proof (rule injI)
  fix x y :: byte
  assume eq: "push_bit 8 (ucast x) = (push_bit 8 (ucast y) :: 16 word)"
  show "x = y"
  proof (rule bit_word_eqI)
    fix n assume "n < LENGTH(8)"
    then show "bit x n = bit y n"
      using arg_cong [OF eq, of "\<lambda>w. bit w (n + 8)"] by (simp add: bit_push_bit_iff bit_ucast_iff)
  qed
qed

interpretation dronecan_crc: byte_crc crc16Byte
  by (rule byte_crcI [where T = "crc16Bit ^^ 8" and U = "crc16_undo_bit ^^ 8"
        and inject = "\<lambda>b. push_bit 8 (ucast b)"])
    (rule crc16Byte_def, rule crc16_undo, rule inj_high_byte)

lemma transferCrc_single_byte:
  "dronecanTransferCrc sig (xs @ b # ys) = dronecanTransferCrc sig (xs @ c # ys) \<Longrightarrow> b = c"
  unfolding dronecanTransferCrc_def dronecanCrc16_def by (rule dronecan_crc.single_byte_detected)

end
