(* ===== verification/Dronecan_Transfer.thy ===== *)
theory Dronecan_Transfer
  imports Dronecan_Catalogue Can_Frame
begin

unbundle bit_operations_syntax

text \<open>
  \<open>dronecan-dsdl/src/transfer.ts\<close>: DroneCAN transfers from raw CAN frames. The text of a map key
  is the tuple of its parts, and a map from keys to unfinished transfers is a function.
\<close>

subsection \<open>Identifiers\<close>

datatype transfer_kind = Message_transfer | Anonymous_transfer | Request_transfer | Response_transfer

record parsed_id =
  headerKind :: transfer_kind
  headerPriority :: nat
  headerTypeId :: nat
  headerSource :: nat
  headerDestination :: "nat option"

definition parseId :: "32 word \<Rightarrow> parsed_id" where
  "parseId i =
     (let prio = unat (drop_bit 24 i AND 0x1F);
          source = unat (i AND 0x7F)
      in if drop_bit 7 i AND 1 \<noteq> 0 then
           \<lparr>headerKind = (if drop_bit 15 i AND 1 \<noteq> 0 then Request_transfer else Response_transfer),
            headerPriority = prio, headerTypeId = unat (drop_bit 16 i AND 0xFF),
            headerSource = source, headerDestination = Some (unat (drop_bit 8 i AND 0x7F))\<rparr>
         else if source = 0 then
           \<lparr>headerKind = Anonymous_transfer, headerPriority = prio,
            headerTypeId = unat (drop_bit 8 i AND 0x3), headerSource = source, headerDestination = None\<rparr>
         else
           \<lparr>headerKind = Message_transfer, headerPriority = prio,
            headerTypeId = unat (drop_bit 8 i AND 0xFFFF), headerSource = source, headerDestination = None\<rparr>)"

subsection \<open>Transfers\<close>

datatype transfer_problem =
    Anonymous_unnamed
  | Unknown_type nat
  | Crc_mismatch
  | Decode_failed string dsdl_error

record dronecan_transfer =
  transferBus :: int
  transferKind :: transfer_kind
  transferPriority :: nat
  transferTypeId :: nat
  transferSource :: nat
  transferDestination :: "nat option"
  transferNumber :: "byte"
  frameSeqs :: "nat list"
  transferTime :: rat
  transferDirection :: can_direction
  transferPayload :: bytes
  transferType :: "type_info option"
  transferValue :: "(string \<times> dsdl_value) list option"
  transferProblem :: "transfer_problem option"

definition ALLOCATION_TYPE_ID :: nat where "ALLOCATION_TYPE_ID = 1"

definition TRANSFER_TIMEOUT_MS :: rat where "TRANSFER_TIMEOUT_MS = 2000"

record unfinished =
  partFrames :: "can_bus_frame list"
  partBytes :: bytes
  expectedToggle :: bool
  startedAt :: rat
  partCrc :: "16 word option"

type_synonym transfer_key = "int \<times> can_direction \<times> transfer_kind \<times> nat \<times> nat \<times> nat option \<times> byte"

type_synonym partials = "transfer_key \<rightharpoonup> unfinished"

definition transferSection :: "transfer_kind \<Rightarrow> section_kind" where
  "transferSection k =
     (if k = Message_transfer \<or> k = Anonymous_transfer then Msg_section
      else if k = Request_transfer then Req_section else Res_section)"

definition lookupType :: "catalogue_data \<Rightarrow> parsed_id \<Rightarrow> type_info option" where
  "lookupType types header =
     (if headerKind header = Anonymous_transfer then messageById types ALLOCATION_TYPE_ID
      else if headerKind header = Message_transfer then messageById types (headerTypeId header)
      else serviceById types (headerTypeId header))"

definition finishTransfer ::
  "catalogue_data \<Rightarrow> parsed_id \<Rightarrow> can_bus_frame \<Rightarrow> can_bus_frame list \<Rightarrow> bytes \<Rightarrow> byte \<Rightarrow> 16 word option
   \<Rightarrow> dronecan_transfer" where
  "finishTransfer types header lastOne frames payload transferId crc =
     (let t = \<lparr>transferBus = frameBus lastOne, transferKind = headerKind header,
            transferPriority = headerPriority header, transferTypeId = headerTypeId header,
            transferSource = headerSource header, transferDestination = headerDestination header,
            transferNumber = transferId, frameSeqs = map frameSeq frames,
            transferTime = frameTime lastOne, transferDirection = frameDirection lastOne,
            transferPayload = payload, transferType = None, transferValue = None, transferProblem = None\<rparr>
      in if headerKind header = Anonymous_transfer \<and> headerTypeId header \<noteq> ALLOCATION_TYPE_ID mod 4 then
           t\<lparr>transferProblem := Some Anonymous_unnamed\<rparr>
         else
           (case lookupType types header of
              None \<Rightarrow> t\<lparr>transferProblem := Some (Unknown_type (headerTypeId header))\<rparr>
            | Some type \<Rightarrow>
                (let t = t\<lparr>transferType := Some type\<rparr>
                 in if crc \<noteq> None \<and> Some (dronecanTransferCrc (signature type) payload) \<noteq> crc then
                      t\<lparr>transferProblem := Some Crc_mismatch\<rparr>
                    else
                      (case catalogueDecode types (fullName type) (transferSection (headerKind header)) payload
                              (Some (\<not> frameFd lastOne)) of
                         Inl e \<Rightarrow> t\<lparr>transferProblem := Some (Decode_failed (fullName type) e)\<rparr>
                       | Inr v \<Rightarrow> t\<lparr>transferValue := Some v\<rparr>))))"

subsection \<open>The decoder\<close>

definition expire :: "rat \<Rightarrow> partials \<Rightarrow> partials" where
  "expire now ps = (\<lambda>k. case ps k of
     None \<Rightarrow> None
   | Some p \<Rightarrow> if now - startedAt p > TRANSFER_TIMEOUT_MS then None else Some p)"

definition transferKey :: "can_bus_frame \<Rightarrow> transfer_key" where
  "transferKey f =
     (let h = parseId (frameId f)
      in (frameBus f, frameDirection f, headerKind h, headerTypeId h, headerSource h, headerDestination h,
          last (frameData f) AND 0x1F))"

definition ignoredFrame :: "can_bus_frame \<Rightarrow> bool" where
  "ignoredFrame f \<longleftrightarrow> \<not> frameExtended f \<or> frameRtr f \<or> frameError f \<or> frameData f = []"

definition pushFrame :: "catalogue_data \<Rightarrow> can_bus_frame \<Rightarrow> partials \<Rightarrow> partials \<times> dronecan_transfer option" where
  "pushFrame types f ps =
     (if ignoredFrame f then (ps, None)
      else
        (let tail = last (frameData f);
             sot = (tail AND 0x80 \<noteq> 0);
             eot = (tail AND 0x40 \<noteq> 0);
             toggle = (tail AND 0x20 \<noteq> 0);
             transferId = tail AND 0x1F;
             header = parseId (frameId f);
             key = transferKey f;
             body = butlast (frameData f);
             ps = expire (frameTime f) ps
         in if sot \<and> eot then
              (if toggle then (ps, None)
               else (ps, Some (finishTransfer types header f [f] body transferId None)))
            else if sot then
              (if toggle \<or> length body < 2 then (ps, None)
               else (ps(key \<mapsto> \<lparr>partFrames = [f], partBytes = drop 2 body, expectedToggle = True,
                       startedAt = frameTime f,
                       partCrc = Some (ucast (body ! 0) OR push_bit 8 (ucast (body ! 1)))\<rparr>), None))
            else
              (case ps key of
                 None \<Rightarrow> (ps, None)
               | Some p \<Rightarrow>
                   if expectedToggle p \<noteq> toggle then (ps(key := None), None)
                   else
                     (let p = p\<lparr>partFrames := partFrames p @ [f], partBytes := partBytes p @ body,
                            expectedToggle := \<not> expectedToggle p\<rparr>
                      in if \<not> eot then (ps(key \<mapsto> p), None)
                         else (ps(key := None),
                               Some (finishTransfer types header f (partFrames p) (partBytes p) transferId (partCrc p)))))))"

text \<open>Feeding frames in order, and what each returns.\<close>

fun pushFrames :: "catalogue_data \<Rightarrow> can_bus_frame list \<Rightarrow> partials \<Rightarrow> partials \<times> (can_bus_frame \<times> dronecan_transfer option) list" where
  "pushFrames types [] ps = (ps, [])"
| "pushFrames types (f # fs) ps =
     (let (ps, out) = pushFrame types f ps; (ps, outs) = pushFrames types fs ps in (ps, (f, out) # outs))"

subsection \<open>Keys do not disturb each other\<close>

lemma expire_other: "expire now ps k = (case ps k of None \<Rightarrow> None | Some p \<Rightarrow> if now - startedAt p > 2000 then None else Some p)"
  by (simp add: expire_def TRANSFER_TIMEOUT_MS_def split: option.split)

lemma pushFrame_other_key:
  assumes "transferKey f \<noteq> k"
  shows "fst (pushFrame types f ps) k = (if ignoredFrame f then ps k else expire (frameTime f) ps k)"
  using assms by (simp add: pushFrame_def Let_def split: option.split)

text \<open>No unfinished transfer is older than the timeout after a frame is pushed.\<close>

lemma pushFrame_fresh:
  assumes "\<not> ignoredFrame f" "fst (pushFrame types f ps) k = Some p"
  shows "frameTime f - startedAt p \<le> TRANSFER_TIMEOUT_MS"
proof -
  have e: "frameTime f - startedAt q \<le> TRANSFER_TIMEOUT_MS" if "expire (frameTime f) ps j = Some q" for j q
    using that by (auto simp: expire_def split: option.splits if_splits)
  have t: "0 \<le> TRANSFER_TIMEOUT_MS" by (simp add: TRANSFER_TIMEOUT_MS_def)
  show ?thesis
    using assms e [of k p] e [of "transferKey f"] t
    by (auto simp: pushFrame_def Let_def split: option.splits if_splits)
qed

subsection \<open>Reassembly\<close>

definition tailFlags :: "can_bus_frame \<Rightarrow> bool \<times> bool \<times> bool" where
  "tailFlags f =
     (let tail = last (frameData f) in (tail AND 0x80 \<noteq> 0, tail AND 0x40 \<noteq> 0, tail AND 0x20 \<noteq> 0))"

definition bodyOf :: "can_bus_frame \<Rightarrow> bytes" where
  "bodyOf f = butlast (frameData f)"

text \<open>The flags of the frames after the first: the toggle alternates, the last one ends.\<close>

fun rest_flags :: "bool \<Rightarrow> can_bus_frame list \<Rightarrow> bool" where
  "rest_flags tg [] = False"
| "rest_flags tg [f] = (tailFlags f = (False, True, tg))"
| "rest_flags tg (f # fs) = (tailFlags f = (False, False, tg) \<and> rest_flags (\<not> tg) fs)"

definition ofKey :: "transfer_key \<Rightarrow> can_bus_frame \<Rightarrow> bool" where
  "ofKey k f \<longleftrightarrow> \<not> ignoredFrame f \<and> transferKey f = k"

definition outputsOf :: "transfer_key \<Rightarrow> (can_bus_frame \<times> dronecan_transfer option) list \<Rightarrow> dronecan_transfer option list" where
  "outputsOf k outs = map snd (filter (\<lambda>(f, t). ofKey k f) outs)"

lemma outputsOf_Cons: "outputsOf k ((f, t) # outs) = (if ofKey k f then t # outputsOf k outs else outputsOf k outs)"
  by (simp add: outputsOf_def)

lemma map_fst_pushFrames: "map fst (snd (pushFrames types fs ps)) = fs"
  by (induction fs arbitrary: ps) (simp_all split: prod.split, metis prod.collapse snd_conv)

lemma outputsOf_none:
  assumes "filter (ofKey k) fs = []"
  shows "outputsOf k (snd (pushFrames types fs ps)) = []"
proof -
  have "set (map fst (snd (pushFrames types fs ps))) = set fs" by (simp only: map_fst_pushFrames)
  then show ?thesis using assms by (force simp: outputsOf_def filter_empty_conv)
qed

lemma pushFrames_Cons:
  "snd (pushFrames types (f # fs) ps)
     = (f, snd (pushFrame types f ps)) # snd (pushFrames types fs (fst (pushFrame types f ps)))"
  by (simp split: prod.split)

lemma keeps_partial:
  assumes "\<not> ofKey k f" "ps k = Some p" "\<not> ignoredFrame f \<Longrightarrow> frameTime f - startedAt p \<le> 2000"
  shows "fst (pushFrame types f ps) k = Some p"
proof (cases "ignoredFrame f")
  case True
  then show ?thesis using assms(2) by (simp add: pushFrame_def)
next
  case False
  then have "transferKey f \<noteq> k" using assms(1) by (simp add: ofKey_def)
  then show ?thesis using False assms(2,3) by (simp add: pushFrame_other_key expire_other)
qed

lemma rest_step:
  assumes "ofKey k f" "ps k = Some p" "frameTime f - startedAt p \<le> 2000"
    and "tailFlags f = (False, eot, expectedToggle p)"
  shows "pushFrame types f ps =
    (let p' = p\<lparr>partFrames := partFrames p @ [f], partBytes := partBytes p @ bodyOf f,
           expectedToggle := \<not> expectedToggle p\<rparr>
     in if \<not> eot then ((expire (frameTime f) ps)(k \<mapsto> p'), None)
        else ((expire (frameTime f) ps)(k := None),
          Some (finishTransfer types (parseId (frameId f)) f (partFrames p') (partBytes p')
            (last (frameData f) AND 0x1F) (partCrc p))))"
proof -
  have e: "expire (frameTime f) ps k = Some p" using assms(2,3) by (simp add: expire_other)
  have k: "transferKey f = k" "\<not> ignoredFrame f" using assms(1) by (simp_all add: ofKey_def)
  have fl: "(last (frameData f) AND 0x80 \<noteq> 0) = False" "(last (frameData f) AND 0x40 \<noteq> 0) = eot"
    "(last (frameData f) AND 0x20 \<noteq> 0) = expectedToggle p"
    using assms(4) by (simp_all add: tailFlags_def Let_def)
  show ?thesis unfolding pushFrame_def Let_def k fl bodyOf_def using k(2) e by simp
qed

lemma rest_reassembled:
  assumes "ps k = Some p" "filter (ofKey k) fs = rest" "rest_flags (expectedToggle p) rest"
    and "\<forall>g\<in>set fs. \<not> ignoredFrame g \<longrightarrow> frameTime g - startedAt p \<le> 2000"
  shows "outputsOf k (snd (pushFrames types fs ps)) = replicate (length rest - 1) None
    @ [Some (finishTransfer types (parseId (frameId (last rest))) (last rest) (partFrames p @ rest)
         (partBytes p @ concat (map bodyOf rest)) (last (frameData (last rest)) AND 0x1F) (partCrc p))]"
  using assms
proof (induction fs arbitrary: ps p rest)
  case (Cons f fs)
  let ?ps = "fst (pushFrame types f ps)"
  show ?case
  proof (cases "ofKey k f")
    case False
    have "?ps k = Some p" using Cons.prems(1,4) False by (intro keeps_partial) auto
    then show ?thesis using Cons.IH [of ?ps p rest] Cons.prems False
      by (simp only: pushFrames_Cons outputsOf_Cons if_False) simp
  next
    case True
    obtain gs where gs: "rest = f # gs" "filter (ofKey k) fs = gs" using Cons.prems(2) True by auto
    have t: "frameTime f - startedAt p \<le> 2000" using Cons.prems(4) True by (simp add: ofKey_def)
    show ?thesis
    proof (cases "gs = []")
      case last: True
      have "tailFlags f = (False, True, expectedToggle p)" using Cons.prems(3) gs(1) last by simp
      from rest_step [of k f ps p True types, OF True Cons.prems(1) t this] have "snd (pushFrame types f ps)
          = Some (finishTransfer types (parseId (frameId f)) f (partFrames p @ [f]) (partBytes p @ bodyOf f)
              (last (frameData f) AND 0x1F) (partCrc p))" by (simp add: Let_def)
      moreover have "outputsOf k (snd (pushFrames types fs ?ps)) = []"
        using outputsOf_none gs(2) last by blast
      ultimately show ?thesis using True gs(1) last by (simp only: pushFrames_Cons outputsOf_Cons) simp
    next
      case more: False
      have fl: "tailFlags f = (False, False, expectedToggle p)" "rest_flags (\<not> expectedToggle p) gs"
        using Cons.prems(3) gs(1) more by (cases gs; simp)+
      let ?p = "p\<lparr>partFrames := partFrames p @ [f], partBytes := partBytes p @ bodyOf f,
           expectedToggle := \<not> expectedToggle p\<rparr>"
      have s: "snd (pushFrame types f ps) = None" "?ps k = Some ?p"
        unfolding rest_step [of k f ps p False types, OF True Cons.prems(1) t fl(1)] by (simp_all add: Let_def)
      have "outputsOf k (snd (pushFrames types fs ?ps)) = replicate (length gs - 1) None
        @ [Some (finishTransfer types (parseId (frameId (last gs))) (last gs) (partFrames ?p @ gs)
             (partBytes ?p @ concat (map bodyOf gs)) (last (frameData (last gs)) AND 0x1F) (partCrc ?p))]"
        using Cons.prems(4) gs(2) fl(2) s(2) by (intro Cons.IH) simp_all
      moreover obtain n where "length gs = Suc n" using more by (cases gs) auto
      ultimately show ?thesis using True gs(1) more s(1)
        by (simp only: pushFrames_Cons outputsOf_Cons if_True) simp
    qed
  qed
qed simp

text \<open>The checksum the first two bytes of a transfer carry.\<close>

definition carriedCrc :: "bytes \<Rightarrow> 16 word" where
  "carriedCrc body = ucast (body ! 0) OR push_bit 8 (ucast (body ! 1))"

lemma first_step:
  assumes "ofKey k f" "tailFlags f = (True, False, False)" "2 \<le> length (bodyOf f)"
  shows "pushFrame types f ps =
    ((expire (frameTime f) ps)(k \<mapsto> \<lparr>partFrames = [f], partBytes = drop 2 (bodyOf f), expectedToggle = True,
       startedAt = frameTime f, partCrc = Some (carriedCrc (bodyOf f))\<rparr>), None)"
proof -
  have k: "transferKey f = k" "\<not> ignoredFrame f" using assms(1) by (simp_all add: ofKey_def)
  have fl: "(last (frameData f) AND 0x80 \<noteq> 0) = True" "(last (frameData f) AND 0x40 \<noteq> 0) = False"
    "(last (frameData f) AND 0x20 \<noteq> 0) = False"
    using assms(2) by (simp_all add: tailFlags_def Let_def)
  show ?thesis unfolding pushFrame_def Let_def k fl bodyOf_def [symmetric] carriedCrc_def using k(2) assms(3)
    by simp
qed

text \<open>
  The frames of one transfer, among any other frames: the first starts it, the others follow
  within the timeout.
\<close>

definition transfer_frames :: "transfer_key \<Rightarrow> can_bus_frame list \<Rightarrow> can_bus_frame \<Rightarrow> can_bus_frame list \<Rightarrow> bool" where
  "transfer_frames k fs f0 rest \<longleftrightarrow>
     filter (ofKey k) fs = f0 # rest
     \<and> tailFlags f0 = (True, False, False) \<and> 2 \<le> length (bodyOf f0) \<and> rest_flags True rest
     \<and> list_all (\<lambda>g. ignoredFrame g \<or> frameTime g - frameTime f0 \<le> 2000) fs"

lemma reassembled:
  assumes "transfer_frames k fs f0 rest"
  shows "outputsOf k (snd (pushFrames types fs ps)) = replicate (length rest) None
    @ [Some (finishTransfer types (parseId (frameId (last rest))) (last rest) (f0 # rest)
         (drop 2 (concat (map bodyOf (f0 # rest)))) (last (frameData (last rest)) AND 0x1F)
         (Some (carriedCrc (bodyOf f0))))]"
  using assms
proof (induction fs arbitrary: ps)
  case (Cons f fs)
  note tf = Cons.prems [unfolded transfer_frames_def]
  let ?ps = "fst (pushFrame types f ps)"
  show ?case
  proof (cases "ofKey k f")
    case False
    then have "transfer_frames k fs f0 rest" using tf by (simp add: transfer_frames_def)
    from Cons.IH [OF this, of ?ps] show ?thesis
      using False by (simp only: pushFrames_Cons outputsOf_Cons if_False)
  next
    case True
    then have f: "f = f0" "filter (ofKey k) fs = rest" using tf by simp_all
    let ?p = "\<lparr>partFrames = [f0], partBytes = drop 2 (bodyOf f0), expectedToggle = True,
       startedAt = frameTime f0, partCrc = Some (carriedCrc (bodyOf f0))\<rparr>"
    have s: "snd (pushFrame types f ps) = None" "?ps k = Some ?p"
      using first_step [OF True, of types ps] tf unfolding f(1) by simp_all
    have "outputsOf k (snd (pushFrames types fs ?ps)) = replicate (length rest - 1) None
      @ [Some (finishTransfer types (parseId (frameId (last rest))) (last rest) (partFrames ?p @ rest)
           (partBytes ?p @ concat (map bodyOf rest)) (last (frameData (last rest)) AND 0x1F) (partCrc ?p))]"
      using tf s(2) f(2) by (intro rest_reassembled) (auto simp: list_all_iff)
    moreover obtain n where "length rest = Suc n" using tf by (cases rest) auto
    ultimately show ?thesis using True s(1) tf
      by (simp only: pushFrames_Cons outputsOf_Cons if_True) simp
  qed
qed (simp add: transfer_frames_def)

end
