(* ===== verification/Dsdl_Roundtrip.thy ===== *)
theory Dsdl_Roundtrip
  imports Dsdl_Codec
begin

text \<open>
  Encoding a value of a DSDL type and decoding the result gives the value back. \<open>value_ok\<close> says
  which values a type has; \<open>reads\<close> is the contract between an encoding and a decoder, carried
  through the item, field and section loops and then by induction on the nesting depth.
\<close>

subsection \<open>Values of a type\<close>

definition float_ok :: "nat \<Rightarrow> ieee_number \<Rightarrow> bool" where
  "float_ok w x \<longleftrightarrow>
     (case FLOAT_LIMITS w of
        None \<Rightarrow> False
      | Some l \<Rightarrow> x \<noteq> Not_a_number \<and> \<not> numberLess l x \<and> \<not> numberLess x (numberNegate l)
          \<and> encodeFloat w x < 2 ^ w
          \<and> decodePrimitive P_float w (padBits w (binary (encodeFloat w x))) = Number_value x)"

definition intOf :: "dsdl_value \<Rightarrow> int option" where
  "intOf v = (case v of Number_value x \<Rightarrow> truncNumber x | Big_value i \<Rightarrow> Some i | _ \<Rightarrow> None)"

definition primitive_ok :: "prim_kind \<Rightarrow> nat \<Rightarrow> dsdl_value \<Rightarrow> bool" where
  "primitive_ok k w v \<longleftrightarrow>
     0 < w \<and>
     (case k of
        P_bool \<Rightarrow> w = 1 \<and> (case v of Bool_value b \<Rightarrow> True | _ \<Rightarrow> False)
      | P_float \<Rightarrow> (case v of Number_value x \<Rightarrow> float_ok w x | _ \<Rightarrow> False)
      | P_unsigned \<Rightarrow> (case intOf v of None \<Rightarrow> False | Some i \<Rightarrow> v = intValue i \<and> 0 \<le> i \<and> i < 2 ^ w)
      | P_signed \<Rightarrow> (case intOf v of None \<Rightarrow> False
          | Some i \<Rightarrow> v = intValue i \<and> - signHalf w \<le> i \<and> i < signHalf w))"

type_synonym type_check = "dsdl_type \<Rightarrow> dsdl_value \<Rightarrow> bool"

fun fields_ok :: "type_check \<Rightarrow> dsdl_field list \<Rightarrow> (string \<times> dsdl_value) list \<Rightarrow> bool" where
  "fields_ok ok [] vs = (vs = [])"
| "fields_ok ok (f # fs) vs =
     (case fieldName f of
        None \<Rightarrow> (case fieldType f of
            Void k \<Rightarrow> ok (Void k) (Number_value (Finite_number False 0)) \<and> fields_ok ok fs vs | _ \<Rightarrow> False)
      | Some n \<Rightarrow>
          (case vs of
             [] \<Rightarrow> False
           | (m, v) # vs \<Rightarrow> m = n \<and> Some n \<notin> fieldName ` set fs \<and> ok (fieldType f) v \<and> fields_ok ok fs vs))"

definition section_ok :: "type_check \<Rightarrow> dsdl_section \<Rightarrow> (string \<times> dsdl_value) list \<Rightarrow> bool" where
  "section_ok ok section value \<longleftrightarrow>
     (if isUnion section then
        (case value of
           [(n, v)] \<Rightarrow>
             (let i = fieldIndexOf (Some n) (map fieldName (sectionFields section))
              in i < length (sectionFields section) \<and> ok (fieldType (sectionFields section ! i)) v)
         | _ \<Rightarrow> False)
      else fields_ok ok (sectionFields section) value)"

text \<open>
  The least number of bits of a type's encodings without the tail optimisation. The catalogue's
  \<open>eMin\<close> of an array element may not promise more.
\<close>

primrec minBits :: "resolver \<Rightarrow> nat \<Rightarrow> dsdl_type \<Rightarrow> nat" where
  "minBits resolve 0 = (\<lambda>desc. 0)"
| "minBits resolve (Suc n) =
     (\<lambda>desc. case desc of
        Primitive k w cm \<Rightarrow> w
      | Void k \<Rightarrow> k
      | Named r \<Rightarrow>
          (case resolve r of
             Inl e \<Rightarrow> 0
           | Inr section \<Rightarrow>
               (let mins = map (\<lambda>f. minBits resolve n (fieldType f)) (sectionFields section)
                in if isUnion section then unionTagBits (length mins) + (if mins = [] then 0 else Min (set mins))
                   else sum_list mins))
      | Array_of a m mx eMin \<Rightarrow>
          (if m = Static_array then mx * minBits resolve n a else bitLength mx))"

primrec value_ok :: "resolver \<Rightarrow> nat \<Rightarrow> type_check" where
  "value_ok resolve 0 = (\<lambda>desc v. False)"
| "value_ok resolve (Suc n) =
     (\<lambda>desc v. case desc of
        Primitive k w cm \<Rightarrow> primitive_ok k w v
      | Void k \<Rightarrow> v = Number_value (Finite_number False 0)
      | Named r \<Rightarrow>
          (case (resolve r, v) of
             (Inr section, Object_value fs) \<Rightarrow> section_ok (value_ok resolve n) section fs
           | _ \<Rightarrow> False)
      | Array_of a m mx eMin \<Rightarrow>
          (case v of
             Array_value vs \<Rightarrow>
               list_all (value_ok resolve n a) vs
               \<and> (if m = Static_array then length vs = mx else length vs \<le> mx)
               \<and> (eMin \<ge> 8 \<longrightarrow> minBits resolve n a \<ge> 8)
           | _ \<Rightarrow> False))"

subsection \<open>Primitives\<close>

lemma intOf_intValue: "intOf (intValue i) = Some i"
  by (auto simp: intOf_def intValue_def truncNumber_numberOfInt)

lemma intOperand_intOf: "intOf v = Some i \<Longrightarrow> intOperand (Some v) = Some i"
  by (cases v) (auto simp: intOf_def intOperand_def)

lemma castUnsigned_id: "0 \<le> i \<Longrightarrow> i < 2 ^ w \<Longrightarrow> castUnsigned w c i = i"
  by (simp add: castUnsigned_def Let_def)

lemma castSigned_two: 
  assumes "0 < w" "- signHalf w \<le> i" "i < signHalf w"
  shows "castSigned w c i = i mod 2 ^ w"
proof -
  have p: "(2 :: int) ^ w = 2 * signHalf w" using assms(1) by (cases w) (simp_all add: signHalf_def)
  have m: "i mod (2 * signHalf w) = (if i < 0 then i + 2 * signHalf w else i)"
  proof (cases "i < 0")
    case True
    have "i mod (2 * signHalf w) = (i + 2 * signHalf w) mod (2 * signHalf w)" by simp
    also have "\<dots> = i + 2 * signHalf w" using True assms by (intro mod_pos_pos_trivial) auto
    finally show ?thesis using True by simp
  next
    case False
    then show ?thesis using assms by (simp add: mod_pos_pos_trivial)
  qed
  show ?thesis using assms unfolding castSigned_def Let_def p m by auto
qed

lemma primitive_reads:
  assumes "primitive_ok k w v"
  shows "\<exists>s. encodePrimitive k w c (Some v) = Inr s \<and> length s = w \<and> decodePrimitive k w s = v"
proof -
  have w: "0 < w" using assms by (simp add: primitive_ok_def)
  have pad: "length (padBits w (binary n)) = w" if "n < 2 ^ w" for n
    using length_binary [OF that w] by (rule length_padBits)
  show ?thesis
  proof (cases k)
    case P_bool
    then obtain b where "v = Bool_value b" "w = 1" using assms by (auto simp: primitive_ok_def split: dsdl_value.splits)
    then show ?thesis using P_bool
      by (simp add: encodePrimitive_def truthyOpt_def decodePrimitive_def natOfBits_def)
  next
    case P_float
    then obtain x where v: "v = Number_value x" "float_ok w x"
      using assms by (auto simp: primitive_ok_def split: dsdl_value.splits)
    then obtain l where l: "FLOAT_LIMITS w = Some l" "x \<noteq> Not_a_number" "\<not> numberLess l x"
      "\<not> numberLess x (numberNegate l)" "encodeFloat w x < 2 ^ w"
      "decodePrimitive P_float w (padBits w (binary (encodeFloat w x))) = Number_value x"
      by (auto simp: float_ok_def split: option.splits)
    have "limitNumber w c x = x" using l(1-4) by (simp add: limitNumber_def numberMin_def numberMax_def)
    then show ?thesis using P_float v l pad [OF l(5)]
      by (simp add: encodePrimitive_def floatOperand_def)
  next
    case P_unsigned
    then obtain i where i: "intOf v = Some i" "v = intValue i" "0 \<le> i" "i < 2 ^ w"
      using assms by (auto simp: primitive_ok_def split: option.splits)
    have "nat i < 2 ^ w" using i by (simp add: nat_less_iff)
    from pad [OF this] show ?thesis using P_unsigned i intOperand_intOf [OF i(1)]
      by (simp add: encodePrimitive_def castUnsigned_id decodePrimitive_def)
  next
    case P_signed
    then obtain i where i: "intOf v = Some i" "v = intValue i" "- signHalf w \<le> i" "i < signHalf w"
      using assms by (auto simp: primitive_ok_def split: option.splits)
    have p: "(2 :: int) ^ w = 2 * signHalf w" using w by (cases w) (simp_all add: signHalf_def)
    let ?m = "i mod 2 ^ w"
    have m: "0 \<le> ?m" "?m < 2 ^ w" by simp_all
    then have "nat ?m < 2 ^ w" by (simp add: nat_less_iff)
    note pad = pad [OF this]
    have wrap: "(if signHalf w \<le> ?m then ?m - 2 ^ w else ?m) = i"
    proof (cases "i < 0")
      case True
      have "?m = (i + 2 ^ w) mod 2 ^ w" by simp
      also have "\<dots> = i + 2 ^ w" using True i p by (intro mod_pos_pos_trivial) auto
      finally show ?thesis using True i p by auto
    next
      case False
      then have "?m = i" using i p by (intro mod_pos_pos_trivial) auto
      then show ?thesis using i by simp
    qed
    have n: "int (nat ?m) = ?m" using m by simp
    have "decodePrimitive P_signed w (padBits w (binary (nat ?m))) = intValue i"
      unfolding decodePrimitive_def Let_def natOfBits_padBits natOfBits_binary n prim_kind.case wrap ..
    then show ?thesis using P_signed i(2) pad intOperand_intOf [OF i(1)]
      by (simp add: encodePrimitive_def castSigned_two [OF w i(3,4)])
  qed
qed

subsection \<open>Reading back\<close>

text \<open>
  \<open>reads dec v tao s\<close>: wherever \<open>s\<close> stands in a stream, the decoder returns \<open>v\<close> and, unless
  the tail optimisation is on, stops behind it. With the optimisation on, less than one byte of
  padding may follow.
\<close>

definition reads :: "'a decoder \<Rightarrow> 'a \<Rightarrow> bool \<Rightarrow> bool list \<Rightarrow> bool" where
  "reads dec v tao s \<longleftrightarrow>
     (\<forall>pre post. (tao \<longrightarrow> length post < 8) \<longrightarrow>
        (\<exists>p. dec \<lparr>stream = pre @ s @ post, pos = length pre\<rparr> tao = Inr (v, \<lparr>stream = pre @ s @ post, pos = p\<rparr>)
             \<and> (\<not> tao \<longrightarrow> p = length pre + length s)))"

lemma readsI:
  assumes "\<And>pre post. (tao \<longrightarrow> length post < 8) \<Longrightarrow>
    \<exists>p. dec \<lparr>stream = pre @ s @ post, pos = length pre\<rparr> tao = Inr (v, \<lparr>stream = pre @ s @ post, pos = p\<rparr>)
      \<and> (\<not> tao \<longrightarrow> p = length pre + length s)"
  shows "reads dec v tao s"
  using assms unfolding reads_def by blast

lemma readsE:
  assumes "reads dec v tao s" "tao \<longrightarrow> length post < 8" "st = pre @ s @ post" "q = length pre"
  obtains p where "dec \<lparr>stream = st, pos = q\<rparr> tao = Inr (v, \<lparr>stream = st, pos = p\<rparr>)"
    "\<not> tao \<longrightarrow> p = length pre + length s"
  using assms unfolding reads_def by blast

lemma reads_at:
  assumes "reads dec v False s" "st = pre @ s @ post" "q = length pre"
  shows "dec \<lparr>stream = st, pos = q\<rparr> False = Inr (v, \<lparr>stream = st, pos = q + length s\<rparr>)"
  using readsE [OF assms(1) _ assms(2,3)] assms(3) by auto

lemma takeBits_le:
  "length s = w \<Longrightarrow> st = pre @ leFromBeBits s w @ post \<Longrightarrow> q = length pre \<Longrightarrow>
   takeBits \<lparr>stream = st, pos = q\<rparr> w = Inr (s, \<lparr>stream = st, pos = q + w\<rparr>)"
  by (simp add: takeBits_def beFromLe_leFromBe)

text \<open>The item loop of a decoder that reads what its encoder writes.\<close>

lemma items_read:
  assumes "\<And>v tao. v \<in> set vs \<Longrightarrow> \<exists>s. enc v tao = Inr s \<and> reads dec (out v) tao s"
  shows "\<exists>s. encodeItems enc vs tao = Inr s \<and> reads (\<lambda>c tao. decodeItems dec (length vs) c tao) (map out vs) tao s"
  using assms
proof (induction vs)
  case Nil
  then show ?case by (auto intro!: readsI)
next
  case (Cons v vs)
  obtain s where s: "enc v (tao \<and> vs = []) = Inr s" "reads dec (out v) (tao \<and> vs = []) s"
    using Cons.prems [of v] by auto
  obtain t where t: "encodeItems enc vs tao = Inr t"
    "reads (\<lambda>c tao. decodeItems dec (length vs) c tao) (map out vs) tao t"
    using Cons.IH Cons.prems by auto
  have "reads (\<lambda>c tao. decodeItems dec (length (v # vs)) c tao) (map out (v # vs)) tao (s @ t)"
  proof (rule readsI)
    fix pre post :: "bool list"
    assume short: "tao \<longrightarrow> length post < 8"
    let ?st = "pre @ (s @ t) @ post"
    show "\<exists>p. decodeItems dec (length (v # vs)) \<lparr>stream = ?st, pos = length pre\<rparr> tao
        = Inr (map out (v # vs), \<lparr>stream = ?st, pos = p\<rparr>) \<and> (\<not> tao \<longrightarrow> p = length pre + length (s @ t))"
    proof (cases "vs = []")
      case True
      then have "t = []" using t(1) by simp
      then show ?thesis using s(2) short True
        by (auto elim!: readsE [where post = post and pre = pre and st = "pre @ s @ post"])
    next
      case False
      have a: "dec \<lparr>stream = ?st, pos = length pre\<rparr> False = Inr (out v, \<lparr>stream = ?st, pos = length pre + length s\<rparr>)"
        using s(2) False by (intro reads_at [where pre = pre and post = "t @ post"]) simp_all
      obtain p where "decodeItems dec (length vs) \<lparr>stream = ?st, pos = length pre + length s\<rparr> tao
          = Inr (map out vs, \<lparr>stream = ?st, pos = p\<rparr>)" "\<not> tao \<longrightarrow> p = length (pre @ s) + length t"
        using readsE [OF t(2) short, of ?st "pre @ s" "length pre + length s"] by auto
      then show ?thesis using a False by simp
    qed
  qed
  then show ?case using s(1) t(1) by simp
qed

text \<open>The loop of a tail array, whose items take at least one byte.\<close>

lemma tail_reads:
  assumes "\<And>v. v \<in> set vs \<Longrightarrow> \<exists>s. enc v False = Inr s \<and> reads dec (out v) False s \<and> 8 \<le> length s"
  shows "\<exists>s. encodeItems enc vs False = Inr s
    \<and> (\<forall>pre post. length post < 8 \<longrightarrow>
         decodeTail dec \<lparr>stream = pre @ s @ post, pos = length pre\<rparr>
           = Inr (map out vs, \<lparr>stream = pre @ s @ post, pos = length (pre @ s @ post)\<rparr>))"
  using assms
proof (induction vs)
  case Nil
  have "decodeTail dec \<lparr>stream = pre @ post, pos = length pre\<rparr>
      = Inr ([], \<lparr>stream = pre @ post, pos = length (pre @ post)\<rparr>)" if "length post < 8" for pre post
    using that by (subst decodeTail.simps) (simp add: remaining_def)
  then show ?case by simp
next
  case (Cons v vs)
  obtain s where s: "enc v False = Inr s" "reads dec (out v) False s" "8 \<le> length s"
    using Cons.prems [of v] by auto
  obtain t where t: "encodeItems enc vs False = Inr t"
    and rest: "\<And>pre post. length post < 8 \<Longrightarrow>
         decodeTail dec \<lparr>stream = pre @ t @ post, pos = length pre\<rparr>
           = Inr (map out vs, \<lparr>stream = pre @ t @ post, pos = length (pre @ t @ post)\<rparr>)"
    using Cons.IH Cons.prems by auto
  have "decodeTail dec \<lparr>stream = pre @ (s @ t) @ post, pos = length pre\<rparr>
      = Inr (map out (v # vs), \<lparr>stream = pre @ (s @ t) @ post, pos = length (pre @ (s @ t) @ post)\<rparr>)"
    if "length post < 8" for pre post
  proof -
    let ?st = "pre @ (s @ t) @ post"
    have a: "dec \<lparr>stream = ?st, pos = length pre\<rparr> False = Inr (out v, \<lparr>stream = ?st, pos = length pre + length s\<rparr>)"
      using s(2) by (intro reads_at [where pre = pre and post = "t @ post"]) simp_all
    have b: "decodeTail dec \<lparr>stream = ?st, pos = length pre + length s\<rparr>
        = Inr (map out vs, \<lparr>stream = ?st, pos = length ?st\<rparr>)"
      using rest [OF that, of "pre @ s"] by simp
    have "s \<noteq> []" using s(3) by auto
    then show ?thesis using a b s(3) by (subst decodeTail.simps) (simp add: remaining_def)
  qed
  then show ?case using s(1) t by simp
qed

subsection \<open>Fields and sections\<close>

text \<open>A level of the codec reads what it writes, for the values a check admits.\<close>

definition level :: "type_check \<Rightarrow> (dsdl_type \<Rightarrow> nat) \<Rightarrow> type_encoder \<Rightarrow> type_decoder \<Rightarrow> bool" where
  "level ok least enc dec \<longleftrightarrow>
     (\<forall>desc v tao. ok desc v \<longrightarrow>
        (\<exists>s. enc desc (Some v) tao = Inr s \<and> reads (dec desc) v tao s \<and> (\<not> tao \<longrightarrow> least desc \<le> length s))
        \<and> (\<forall>k. desc = Void k \<longrightarrow> enc desc None tao = enc desc (Some v) tao))"

lemma levelD:
  assumes "level ok least enc dec" "ok desc v"
  shows "\<exists>s. enc desc (Some v) tao = Inr s \<and> reads (dec desc) v tao s \<and> (\<not> tao \<longrightarrow> least desc \<le> length s)"
  using assms unfolding level_def by blast

lemma levelD_void:
  "level ok least enc dec \<Longrightarrow> ok (Void k) v \<Longrightarrow> enc (Void k) None tao = enc (Void k) (Some v) tao"
  unfolding level_def by blast

lemma field_encoded:
  assumes "level ok least enc dec" "fields_ok ok (f # fs) vs"
    and "\<forall>g\<in>set (f # fs). fieldValue full g = fieldValue vs g"
  obtains v ws where
    "\<And>tao. \<exists>s. enc (fieldType f) (fieldValue full f) tao = Inr s \<and> reads (dec (fieldType f)) v tao s
       \<and> (\<not> tao \<longrightarrow> least (fieldType f) \<le> length s)"
    "vs = (case fieldName f of None \<Rightarrow> ws | Some n \<Rightarrow> (n, v) # ws)"
    "fields_ok ok fs ws" "\<forall>g\<in>set fs. fieldValue full g = fieldValue ws g"
proof (cases "fieldName f")
  case None
  then obtain k where k: "fieldType f = Void k" "ok (Void k) (Number_value (Finite_number False 0))"
    "fields_ok ok fs vs" using assms(2) by (auto split: dsdl_type.splits)
  have "fieldValue full f = None" using None by (simp add: fieldValue_def)
  then show thesis
    using levelD [OF assms(1) k(2)] levelD_void [OF assms(1) k(2)] k None assms(3)
    by (intro that [of "Number_value (Finite_number False 0)" vs]) auto
next
  case (Some n)
  then obtain v ws where v: "vs = (n, v) # ws" "Some n \<notin> fieldName ` set fs" "ok (fieldType f) v"
    "fields_ok ok fs ws" using assms(2) by (cases vs) auto
  have "fieldValue full f = Some v" using assms(3) Some v(1) by (simp add: fieldValue_def)
  moreover have "fieldValue vs g = fieldValue ws g" if "g \<in> set fs" for g
    using v(1,2) that by (force simp: fieldValue_def split: option.splits)
  ultimately show thesis
    using levelD [OF assms(1) v(3)] v Some assms(3) by (intro that [of v ws]) auto
qed

lemma fields_read:
  assumes "level ok least enc dec"
  shows "fields_ok ok fs vs \<Longrightarrow> \<forall>g\<in>set fs. fieldValue full g = fieldValue vs g \<Longrightarrow>
    \<exists>s. encodeItems (\<lambda>f. enc (fieldType f) (fieldValue full f)) fs tao = Inr s
      \<and> reads (decodeFields dec fs) vs tao s
      \<and> (\<not> tao \<longrightarrow> sum_list (map (\<lambda>f. least (fieldType f)) fs) \<le> length s)"
proof (induction fs arbitrary: vs)
  case Nil
  then show ?case by (auto intro!: readsI)
next
  case (Cons f fs)
  obtain v ws where
    enc: "\<And>tao. \<exists>s. enc (fieldType f) (fieldValue full f) tao = Inr s \<and> reads (dec (fieldType f)) v tao s
       \<and> (\<not> tao \<longrightarrow> least (fieldType f) \<le> length s)"
    and vs: "vs = (case fieldName f of None \<Rightarrow> ws | Some n \<Rightarrow> (n, v) # ws)"
    and ws: "fields_ok ok fs ws" "\<forall>g\<in>set fs. fieldValue full g = fieldValue ws g"
    using field_encoded [OF assms Cons.prems] by blast
  obtain t where t: "encodeItems (\<lambda>f. enc (fieldType f) (fieldValue full f)) fs tao = Inr t"
    "reads (decodeFields dec fs) ws tao t"
    "\<not> tao \<longrightarrow> sum_list (map (\<lambda>f. least (fieldType f)) fs) \<le> length t"
    using Cons.IH [OF ws] by blast
  obtain s where s: "enc (fieldType f) (fieldValue full f) (tao \<and> fs = []) = Inr s"
    "reads (dec (fieldType f)) v (tao \<and> fs = []) s"
    "\<not> (tao \<and> fs = []) \<longrightarrow> least (fieldType f) \<le> length s"
    using enc by blast
  have "reads (decodeFields dec (f # fs)) vs tao (s @ t)"
  proof (rule readsI)
    fix pre post :: "bool list"
    assume short: "tao \<longrightarrow> length post < 8"
    let ?st = "pre @ (s @ t) @ post"
    show "\<exists>p. decodeFields dec (f # fs) \<lparr>stream = ?st, pos = length pre\<rparr> tao
        = Inr (vs, \<lparr>stream = ?st, pos = p\<rparr>) \<and> (\<not> tao \<longrightarrow> p = length pre + length (s @ t))"
    proof (cases "fs = []")
      case True
      then have "t = []" "ws = []" using t(1) ws(1) by simp_all
      then show ?thesis using s(2) short True vs
        by (auto elim!: readsE [where post = post and pre = pre and st = "pre @ s @ post"])
    next
      case False
      have a: "dec (fieldType f) \<lparr>stream = ?st, pos = length pre\<rparr> False
          = Inr (v, \<lparr>stream = ?st, pos = length pre + length s\<rparr>)"
        using s(2) False by (intro reads_at [where pre = pre and post = "t @ post"]) simp_all
      obtain p where "decodeFields dec fs \<lparr>stream = ?st, pos = length pre + length s\<rparr> tao
          = Inr (ws, \<lparr>stream = ?st, pos = p\<rparr>)" "\<not> tao \<longrightarrow> p = length (pre @ s) + length t"
        using readsE [OF t(2) short, of ?st "pre @ s" "length pre + length s"] by auto
      then show ?thesis using a False vs by simp
    qed
  qed
  then show ?case using s(1,3) t(1,3) by (auto simp del: decodeFields.simps)
qed

lemma fieldIndexOf_nth: "fieldIndexOf x xs < length xs \<Longrightarrow> xs ! fieldIndexOf x xs = x \<and> x \<in> set xs"
  by (induction xs) auto

lemma unionTagBits_bound: "i < n \<Longrightarrow> i < 2 ^ unionTagBits n"
  using bitLength_bound [of "n - 1"] by (auto simp: unionTagBits_def)

lemma section_read:
  assumes lv: "level ok least enc dec" and ok: "section_ok ok section value"
  shows "\<exists>s. encodeSection enc section value tao = Inr s \<and> reads (decodeSection dec section) value tao s
    \<and> (\<not> tao \<longrightarrow> (let mins = map (\<lambda>f. least (fieldType f)) (sectionFields section)
         in if isUnion section then unionTagBits (length mins) + (if mins = [] then 0 else Min (set mins))
            else sum_list mins) \<le> length s)"
proof (cases "isUnion section")
  case False
  then show ?thesis
    using fields_read [OF lv, of "sectionFields section" "value" "value"] ok
    by (simp add: section_ok_def encodeSection_def decodeSection_def [abs_def] Let_def)
next
  case True
  let ?fs = "sectionFields section"
  obtain m where m: "value = [m]"
    using ok True by (cases "value" rule: remdups_adj.cases) (auto simp: section_ok_def)
  then obtain n v where v: "value = [(n, v)]" "fieldIndexOf (Some n) (map fieldName ?fs) < length ?fs"
    "ok (fieldType (?fs ! fieldIndexOf (Some n) (map fieldName ?fs))) v"
    using ok True by (cases m) (simp add: section_ok_def Let_def)
  define tag where "tag = fieldIndexOf (Some n) (map fieldName ?fs)"
  let ?w = "unionTagBits (length ?fs)"
  let ?prefix = "if ?w = 0 then [] else padBits ?w (binary tag)"
  have tag: "tag < length ?fs" "fieldName (?fs ! tag) = Some n" "Some n \<in> set (map fieldName ?fs)"
    using v(2) fieldIndexOf_nth [of "Some n" "map fieldName ?fs"] by (auto simp: tag_def)
  have tw: "tag < 2 ^ ?w" using tag(1) by (rule unionTagBits_bound)
  have prefix: "length ?prefix = ?w" "natOfBits ?prefix = tag"
    using tw length_binary [OF tw] by (auto intro: length_padBits)
  obtain s where s: "enc (fieldType (?fs ! tag)) (Some v) tao = Inr s"
    "reads (dec (fieldType (?fs ! tag))) v tao s" "\<not> tao \<longrightarrow> least (fieldType (?fs ! tag)) \<le> length s"
    using levelD [OF lv v(3)] unfolding tag_def by blast
  have e: "encodeSection enc section value tao = Inr (?prefix @ s)"
    using True tag s(1) v(1) by (auto simp: encodeSection_def Let_def tag_def)
  have "reads (decodeSection dec section) value tao (?prefix @ s)"
  proof (rule readsI)
    fix pre post :: "bool list"
    assume short: "tao \<longrightarrow> length post < 8"
    let ?st = "pre @ (?prefix @ s) @ post"
    obtain p where p: "dec (fieldType (?fs ! tag)) \<lparr>stream = ?st, pos = length pre + ?w\<rparr> tao
        = Inr (v, \<lparr>stream = ?st, pos = p\<rparr>)" "\<not> tao \<longrightarrow> p = length (pre @ ?prefix) + length s"
      using readsE [OF s(2) short, of ?st "pre @ ?prefix" "length pre + ?w"] prefix(1) by auto
    have t: "take ?w (drop (length pre) ?st) = ?prefix" using prefix(1) by simp
    have r: "\<not> remaining \<lparr>stream = ?st, pos = length pre\<rparr> < int ?w" using prefix(1) by (simp add: remaining_def)
    show "\<exists>p. decodeSection dec section \<lparr>stream = ?st, pos = length pre\<rparr> tao
        = Inr (value, \<lparr>stream = ?st, pos = p\<rparr>) \<and> (\<not> tao \<longrightarrow> p = length pre + length (?prefix @ s))"
      using p r tag(1,2) prefix(1) True v(1)
      unfolding decodeSection_def Let_def cursor.select_convs t prefix(2) by simp
  qed
  moreover have "Min (set (map (\<lambda>f. least (fieldType f)) ?fs)) \<le> least (fieldType (?fs ! tag))"
    using tag(1) by (intro Min_le) auto
  then have "\<not> tao \<longrightarrow> ?w + Min (set (map (\<lambda>f. least (fieldType f)) ?fs)) \<le> length (?prefix @ s)"
    using s(3) prefix(1) by auto
  ultimately show ?thesis using e True tag(1) by (auto simp: Let_def)
qed

subsection \<open>Types\<close>

lemma items_least:
  "\<forall>v\<in>set vs. \<exists>s. enc v False = Inr s \<and> m \<le> length s \<Longrightarrow> encodeItems enc vs False = Inr t \<Longrightarrow>
   length vs * m \<le> length t"
proof (induction vs arbitrary: t)
  case (Cons v vs)
  obtain s where s: "enc v False = Inr s" "m \<le> length s" using Cons.prems(1) by auto
  then obtain t' where "encodeItems enc vs False = Inr t'" "t = s @ t'"
    using Cons.prems(2) by (auto split: sum.splits)
  then show ?case using Cons.IH [of t'] Cons.prems(1) s(2) by simp
qed simp

lemma count_read:
  assumes "n \<le> mx"
  shows "\<exists>bs. natOfBits bs = n \<and> length (leFromBeBits (padBits (bitLength mx) (binary n)) (bitLength mx)) = bitLength mx
    \<and> (\<forall>pre post. takeBits \<lparr>stream = pre @ leFromBeBits (padBits (bitLength mx) (binary n)) (bitLength mx) @ post,
            pos = length pre\<rparr> (bitLength mx)
          = Inr (bs, \<lparr>stream = pre @ leFromBeBits (padBits (bitLength mx) (binary n)) (bitLength mx) @ post,
              pos = length pre + bitLength mx\<rparr>))"
proof (cases "mx = 0")
  case True
  have z: "leFromBeBits (padBits 0 (binary 0)) 0 = []"
    by (simp add: leFromBeBits_def padBits_def chunksEnd.simps [of "[]"])
  show ?thesis using True assms
    by (intro exI [of _ "[]"]) (simp add: bitLength_def z takeBits_def beFromLeBits_def)
next
  case False
  let ?w = "bitLength mx" and ?bs = "padBits (bitLength mx) (binary n)"
  have w: "0 < ?w" using False length_binary_pos by (simp add: bitLength_def)
  have "n < 2 ^ ?w" using assms bitLength_bound [of mx] by linarith
  from length_padBits [OF length_binary [OF this w]] have l: "length ?bs = ?w" .
  show ?thesis using l length_leFromBeBits [OF l] takeBits_le [OF l refl refl]
    by (intro exI [of _ ?bs]) simp
qed

lemma reads_wrap:
  assumes "reads dec v tao s" and "\<And>c. dec' c tao = (case dec c tao of Inl e \<Rightarrow> Inl e | Inr (x, c') \<Rightarrow> Inr (f x, c'))"
  shows "reads dec' (f v) tao s"
proof (rule readsI)
  fix pre post :: "bool list"
  assume "tao \<longrightarrow> length post < 8"
  then obtain p where "dec \<lparr>stream = pre @ s @ post, pos = length pre\<rparr> tao
      = Inr (v, \<lparr>stream = pre @ s @ post, pos = p\<rparr>)" "\<not> tao \<longrightarrow> p = length pre + length s"
    using readsE [OF assms(1) _ refl refl] by blast
  then show "\<exists>p. dec' \<lparr>stream = pre @ s @ post, pos = length pre\<rparr> tao
      = Inr (f v, \<lparr>stream = pre @ s @ post, pos = p\<rparr>) \<and> (\<not> tao \<longrightarrow> p = length pre + length s)"
    by (simp add: assms(2))
qed

lemma array_items:
  assumes "level ok least enc dec" "list_all (ok a) vs" "v \<in> set (map Some vs)"
  shows "\<exists>s. enc a v tao = Inr s \<and> reads (dec a) (the v) tao s \<and> (\<not> tao \<longrightarrow> least a \<le> length s)"
proof -
  obtain x where "v = Some x" "ok a x" using assms(2,3) by (auto simp: list_all_iff)
  then show ?thesis using levelD [OF assms(1), of a x tao] by simp
qed

lemma map_the_Some: "map the (map Some vs) = vs"
  by (simp add: comp_def)

lemma array_read:
  assumes "level ok least enc dec" "list_all (ok a) vs"
  shows "\<exists>s. encodeItems (enc a) (map Some vs) tao = Inr s
    \<and> reads (\<lambda>c tao. decodeItems (dec a) (length vs) c tao) vs tao s
    \<and> (\<not> tao \<longrightarrow> length vs * least a \<le> length s)"
proof -
  note it = array_items [OF assms]
  have "\<exists>s. enc a v tao = Inr s \<and> reads (dec a) (the v) tao s" if "v \<in> set (map Some vs)" for v tao
    using it [OF that, of tao] by blast
  from items_read [of "map Some vs" "enc a" "dec a" the tao, OF this]
  obtain s where s: "encodeItems (enc a) (map Some vs) tao = Inr s"
    "reads (\<lambda>c tao. decodeItems (dec a) (length vs) c tao) vs tao s"
    unfolding map_the_Some length_map by blast
  have "\<forall>v\<in>set (map Some vs). \<exists>s. enc a v False = Inr s \<and> least a \<le> length s"
    using it [where tao = False] by blast
  from items_least [of "map Some vs" "enc a" "least a" s, OF this] have "\<not> tao \<longrightarrow> length vs * least a \<le> length s" using s(1) by auto
  then show ?thesis using s by blast
qed

lemma array_tail_read:
  assumes "level ok least enc dec" "list_all (ok a) vs" "8 \<le> least a"
  shows "\<exists>s. encodeItems (enc a) (map Some vs) False = Inr s \<and> reads (\<lambda>c tao. decodeTail (dec a) c) vs True s"
proof -
  have "\<exists>s. enc a v False = Inr s \<and> reads (dec a) (the v) False s \<and> 8 \<le> length s"
    if "v \<in> set (map Some vs)" for v
    using array_items [OF assms(1,2) that, of False] assms(3) by (meson order.trans)
  from tail_reads [of "map Some vs" "enc a" "dec a" the, OF this] show ?thesis
    unfolding map_the_Some by (auto simp: reads_def)
qed

theorem type_level: "level (value_ok resolve n) (minBits resolve n) (encodeType resolve n) (decodeType resolve n)"
proof (induction n)
  case 0
  then show ?case by (simp add: level_def)
next
  case (Suc n)
  have main: "\<exists>s. encodeType resolve (Suc n) desc (Some v) tao = Inr s \<and> reads (decodeType resolve (Suc n) desc) v tao s
      \<and> (\<not> tao \<longrightarrow> minBits resolve (Suc n) desc \<le> length s)" (is "\<exists>s. ?good s")
    if ok: "value_ok resolve (Suc n) desc v" for desc v tao
  proof (cases desc)
    case (Primitive k w c)
    then obtain s where s: "encodePrimitive k w c (Some v) = Inr s" "length s = w" "decodePrimitive k w s = v"
      using ok primitive_reads [of k w v c] by auto
    then have "?good (leFromBeBits s w)"
      using Primitive takeBits_le [OF s(2) refl refl] by (auto intro!: readsI simp: length_leFromBeBits)
    then show ?thesis ..
  next
    case (Void k)
    then have "?good (replicate k False)" using ok by (auto intro!: readsI)
    then show ?thesis ..
  next
    case (Named r)
    then obtain sec fs where r: "resolve r = Inr sec" "v = Object_value fs"
      "section_ok (value_ok resolve n) sec fs"
      using ok by (auto split: sum.splits dsdl_value.splits)
    obtain s where s: "encodeSection (encodeType resolve n) sec fs tao = Inr s"
      "reads (decodeSection (decodeType resolve n) sec) fs tao s"
      "\<not> tao \<longrightarrow> minBits resolve (Suc n) desc \<le> length s"
      using section_read [OF Suc r(3), of tao] r(1) Named by auto
    have "reads (decodeType resolve (Suc n) desc) v tao s"
      unfolding r(2) by (rule reads_wrap [OF s(2)]) (simp add: Named r(1))
    then have "?good s" using s(1,3) r Named by simp
    then show ?thesis ..
  next
    case (Array_of a m mx eMin)
    then obtain vs where vs: "v = Array_value vs" "list_all (value_ok resolve n a) vs"
      "if m = Static_array then length vs = mx else length vs \<le> mx"
      "eMin \<ge> 8 \<longrightarrow> minBits resolve n a \<ge> 8"
      using ok by (auto split: dsdl_value.splits)
    have items: "take mx vs = vs" using vs(3) by (auto split: if_splits)
    note arr = array_read [OF Suc vs(2), of tao]
    consider (static) "m = Static_array" | (tail) "m \<noteq> Static_array" "tao \<and> eMin \<ge> 8"
      | (counted) "m \<noteq> Static_array" "\<not> (tao \<and> eMin \<ge> 8)" by blast
    then show ?thesis
    proof cases
      case static
      then have len: "length vs = mx" using vs(3) by simp
      obtain s where s: "encodeItems (encodeType resolve n a) (map Some vs) tao = Inr s"
        "reads (\<lambda>c tao. decodeItems (decodeType resolve n a) mx c tao) vs tao s"
        "\<not> tao \<longrightarrow> mx * minBits resolve n a \<le> length s"
        using arr unfolding len by blast
      have "reads (decodeType resolve (Suc n) desc) v tao s"
        unfolding vs(1) by (rule reads_wrap [OF s(2)]) (simp add: Array_of static)
      then have "?good s" using s(1,3) static Array_of vs(1) len by simp
      then show ?thesis ..
    next
      case tail
      then obtain s where s: "encodeItems (encodeType resolve n a) (map Some vs) False = Inr s"
        "reads (\<lambda>c tao. decodeTail (decodeType resolve n a) c) vs True s"
        using array_tail_read [OF Suc vs(2)] vs(4) by blast
      have "reads (decodeType resolve (Suc n) desc) v True s"
        unfolding vs(1) by (rule reads_wrap [OF s(2)]) (use tail in \<open>simp add: Array_of\<close>)
      then have "?good s" using s(1) tail Array_of vs(1) items by simp
      then show ?thesis ..
    next
      case counted
      have nf: "(tao \<and> 8 \<le> eMin) = False" using counted(2) by simp
      let ?w = "bitLength mx"
      have run: "decodeType resolve (Suc n) desc c tao =
          (case (case takeBits c ?w of Inl e \<Rightarrow> Inl e
             | Inr (s, c') \<Rightarrow> decodeItems (decodeType resolve n a) (natOfBits s) c' tao)
           of Inl e \<Rightarrow> Inl e | Inr (vs, c') \<Rightarrow> Inr (Array_value vs, c'))" for c
        unfolding Array_of by (simp only: decodeType.simps dsdl_type.case nf counted(1) if_False)
      let ?count = "leFromBeBits (padBits ?w (binary (length vs))) ?w"
      obtain bs where bs: "natOfBits bs = length vs" "length ?count = ?w"
        "\<And>pre post. takeBits \<lparr>stream = pre @ ?count @ post, pos = length pre\<rparr> ?w
           = Inr (bs, \<lparr>stream = pre @ ?count @ post, pos = length pre + ?w\<rparr>)"
        using count_read [of "length vs" mx] vs(3) counted(1) by auto
      obtain s where s: "encodeItems (encodeType resolve n a) (map Some vs) tao = Inr s"
        "reads (\<lambda>c tao. decodeItems (decodeType resolve n a) (length vs) c tao) vs tao s"
        using arr by blast
      have "reads (decodeType resolve (Suc n) desc) v tao (?count @ s)"
      proof (rule readsI)
        fix pre post :: "bool list"
        assume short: "tao \<longrightarrow> length post < 8"
        let ?st = "pre @ (?count @ s) @ post"
        have t: "takeBits \<lparr>stream = ?st, pos = length pre\<rparr> ?w = Inr (bs, \<lparr>stream = ?st, pos = length pre + ?w\<rparr>)"
          using bs(3) [of pre "s @ post"] by simp
        obtain p where p: "decodeItems (decodeType resolve n a) (length vs) \<lparr>stream = ?st, pos = length pre + ?w\<rparr> tao
            = Inr (vs, \<lparr>stream = ?st, pos = p\<rparr>)" "\<not> tao \<longrightarrow> p = length (pre @ ?count) + length s"
          using readsE [OF s(2) short, of ?st "pre @ ?count" "length pre + ?w"] bs(2) by auto
        show "\<exists>p. decodeType resolve (Suc n) desc \<lparr>stream = ?st, pos = length pre\<rparr> tao
            = Inr (v, \<lparr>stream = ?st, pos = p\<rparr>) \<and> (\<not> tao \<longrightarrow> p = length pre + length (?count @ s))"
          unfolding run t using p bs(1,2) vs(1) by (simp del: append_assoc)
      qed
      moreover have "encodeType resolve (Suc n) desc (Some v) tao = Inr (?count @ s)"
        unfolding Array_of by (simp only: encodeType.simps dsdl_type.case nf counted(1) if_False vs(1) option.case
          dsdl_value.case items Let_def s(1) map_sum.simps)
      ultimately have "?good (?count @ s)" using bs(2) counted(1) by (simp add: Array_of)
      then show ?thesis ..
    qed
  qed
  have "encodeType resolve (Suc n) (Void k) None tao = encodeType resolve (Suc n) (Void k) (Some v) tao" for k tao v
    by simp
  then show ?case using main unfolding level_def by blast
qed

text \<open>The whole section, through the bytes of a payload.\<close>

lemma section_roundtrip:
  assumes "section_ok (value_ok resolve n) section fs"
  shows "\<exists>payload. encodeDronecanSection n section fs resolve tao = Inr payload
    \<and> decodeDronecanSection n section payload resolve tao = Inr fs"
proof -
  obtain s where s: "encodeSection (encodeType resolve n) section fs tao = Inr s"
    "reads (decodeSection (decodeType resolve n) section) fs tao s"
    using section_read [OF type_level assms, of tao] by blast
  obtain k where k: "k < 8" "bitsFromBytes (bytesFromBits s) = s @ replicate k False"
    using bits_roundtrip by blast
  obtain p where "decodeSection (decodeType resolve n) section \<lparr>stream = s @ replicate k False, pos = 0\<rparr> tao
      = Inr (fs, \<lparr>stream = s @ replicate k False, pos = p\<rparr>)"
    using readsE [OF s(2), of "replicate k False" "s @ replicate k False" "[]" 0] k(1) by auto
  then show ?thesis using s(1) k(2)
    by (intro exI [of _ "bytesFromBits s"]) (simp add: encodeDronecanSection_def decodeDronecanSection_def)
qed

end
