(* ===== verification/Dsdl_Float16.thy ===== *)
theory Dsdl_Float16
  imports Dsdl_Roundtrip
begin

unbundle bit_operations_syntax

text \<open>
  The half-precision conversions of \<open>codec.ts\<close>, which scale by a power of two through
  single precision: every finite half survives \<open>float16Value\<close> and \<open>float16Bits\<close>.
\<close>

abbreviation single :: "nat \<Rightarrow> rat" where
  "single \<equiv> magnitude 23 255"

lemma single_unit:
  assumes "m < 255 * 2 ^ 23"
  shows "\<exists>n e. single m = of_nat n * 2 ^ e / 2 ^ 150 \<and> n < 2 ^ 24 \<and> 1 \<le> e \<and> e < 255"
proof (cases "m div 2 ^ 23 = 0")
  case True
  have "single m = of_nat (m mod 2 ^ 23) * 2 ^ 1 / 2 ^ 150" using True by (simp add: magnitude_def Let_def)
  moreover have "m mod 2 ^ 23 < 2 ^ 24" by (rule less_trans [of _ "2 ^ 23"]) simp_all
  ultimately show ?thesis by (intro exI [of _ "m mod 2 ^ 23"] exI [of _ 1]) simp
next
  case False
  have "m div 2 ^ 23 < 255" using assms by (simp add: div_less_iff_less_mult)
  moreover have "2 ^ 23 + m mod 2 ^ 23 < (2 ^ 24 :: nat)"
    using mod_less_divisor [of "2 ^ 23" m] by simp
  moreover have "single m = of_nat (2 ^ 23 + m mod 2 ^ 23) * 2 ^ (m div 2 ^ 23) / 2 ^ 150"
    using False by (simp add: magnitude_def Let_def)
  ultimately show ?thesis using False
    by (intro exI [of _ "2 ^ 23 + m mod 2 ^ 23"] exI [of _ "m div 2 ^ 23"]) simp
qed

lemma single_nonneg: "0 \<le> single m"
  by (simp add: magnitude_def Let_def)

lemma scale_fraction:
  fixes a b c d e :: rat
  assumes "e \<noteq> 0"
  shows "a * b / c * d = a * (b * (e * d)) / (c * e)" "a * b / c * (1 / d) = a * (b * e) / (c * (e * d))"
  using assms by simp_all

text \<open>Scaling a single by \<open>2 ^ 112\<close> or its inverse is exact in double precision.\<close>

lemma toNumber_scaled:
  assumes "m < 255 * 2 ^ 23" "c = 2 ^ 112 \<or> c = 1 / 2 ^ 112"
  shows "toNumber s (single m * c) = Finite_number s (single m * c)"
proof -
  obtain n e where n: "single m = of_nat n * 2 ^ e / 2 ^ 150" "n < 2 ^ 24" "1 \<le> e" "e < 255"
    using single_unit [OF assms(1)] by blast
  have big: "n < 2 ^ 53" using n(2) by simp
  have p: "(2 :: rat) ^ 1075 = 2 ^ 150 * 2 ^ 925" "(2 :: rat) ^ 925 = 2 ^ 813 * 2 ^ 112"
    by (simp_all only: power_add [symmetric] numeral_plus_numeral arith_simps)
  have nz: "(2 :: rat) ^ 150 \<noteq> 0" "(2 :: rat) ^ 925 \<noteq> 0" "(2 :: rat) ^ 112 \<noteq> 0" "(2 :: rat) ^ 813 \<noteq> 0"
    by (simp_all only: power_not_zero zero_neq_numeral not_False_eq_True)
  from assms(2) show ?thesis
  proof
    assume c: "c = 2 ^ 112"
    have "single m * c = of_nat n * 2 ^ (e + 1037) / 2 ^ 1075"
    proof -
      have "(2 :: rat) ^ (e + 1037) = 2 ^ e * (2 ^ 925 * 2 ^ 112)"
        by (simp only: power_add [symmetric] numeral_plus_numeral arith_simps)
      then show ?thesis unfolding n(1) c p(1) by (simp only: scale_fraction(1) [OF nz(2)])
    qed
    then show ?thesis using big n(3,4) by (intro toNumber_exact) auto
  next
    assume c: "c = 1 / 2 ^ 112"
    have "single m * c = of_nat n * 2 ^ (e + 813) / 2 ^ 1075"
    proof -
      have "(2 :: rat) ^ (e + 813) = 2 ^ e * 2 ^ 813" by (simp only: power_add)
      then show ?thesis unfolding n(1) c p by (simp only: scale_fraction(2) [OF nz(4)])
    qed
    then show ?thesis using big n(3,4) by (intro toNumber_exact) auto
  qed
qed

lemma getFloat32_finite:
  assumes "m < 255 * 2 ^ 23"
  shows "getFloat32Bits m = Finite_number False (single m)"
    "getFloat32Bits (m + 2 ^ 31) = Finite_number True (single m)"
proof -
  have "m div 2 ^ 23 \<noteq> 255" using assms by (simp add: div_less_iff_less_mult less_imp_neq)
  moreover have "m mod 2 ^ 31 = m" "m div 2 ^ 31 = 0" "(m + 2 ^ 31) mod 2 ^ 31 = m" "(m + 2 ^ 31) div 2 ^ 31 = 1"
    using assms by simp_all
  ultimately show "getFloat32Bits m = Finite_number False (single m)"
    "getFloat32Bits (m + 2 ^ 31) = Finite_number True (single m)"
    by (simp_all add: numberOfBits_def Let_def)
qed

lemma setFloat32_finite:
  assumes "m < 255 * 2 ^ 23"
  shows "setFloat32Bits (Finite_number s (single m)) = (if s then 2 ^ 31 else 0) + m"
  using roundBits_exact [of m 255 23] assms by (simp add: bitsOfNumber_def Let_def)

lemma magics:
  "getFloat32Bits ((254 - 15) * 2 ^ 23) = Finite_number False (2 ^ 112)"
  "getFloat32Bits ((127 + 16) * 2 ^ 23) = Finite_number False (2 ^ 16)"
  "getFloat32Bits (15 * 2 ^ 23) = Finite_number False (1 / 2 ^ 112)"
  by (simp_all add: numberOfBits_def Let_def magnitude_def)

text \<open>The single that a finite half becomes has zeros below its ten fraction bits.\<close>

lemma scaled_half:
  assumes "h < 31 * 2 ^ 10"
  shows "\<exists>m<255 * 2 ^ 23. single m = single (h * 2 ^ 13) * 2 ^ 112 \<and> m mod 2 ^ 13 = 0"
proof -
  let ?u = "h * 2 ^ 13" and ?e = "h div 2 ^ 10" and ?j = "h mod 2 ^ 10"
  have ed: "?u div 2 ^ 23 = ?e" "?u mod 2 ^ 23 = ?j * 2 ^ 13"
  proof -
    have "?u div 2 ^ 23 = ?u div (2 ^ 10 * 2 ^ 13)" by simp
    also have "\<dots> = ?e" by (rule div_mult_mult2) simp
    finally show "?u div 2 ^ 23 = ?e" .
    have "?u mod 2 ^ 23 = ?u mod (2 ^ 10 * 2 ^ 13)" by simp
    also have "\<dots> = ?j * 2 ^ 13" by (rule mult_mod_left [symmetric])
    finally show "?u mod 2 ^ 23 = ?j * 2 ^ 13" .
  qed
  have j: "?j < 2 ^ 10" by simp
  show ?thesis
  proof (cases "?e = 0")
    case False
    let ?m = "(?e + 112) * 2 ^ 23 + ?j * 2 ^ 13"
    have small: "?j * 2 ^ 13 < 2 ^ 23" using j by simp
    have d: "?m div 2 ^ 23 = ?e + 112" "?m mod 2 ^ 23 = ?j * 2 ^ 13"
      using small by (simp_all only: div_mult_self3 mod_mult_self3 div_less mod_less)
    have "single ?m = of_nat (2 ^ 23 + ?j * 2 ^ 13) * 2 ^ (?e + 112) / 2 ^ 150"
      unfolding magnitude_def Let_def d by simp
    moreover have "single ?u = of_nat (2 ^ 23 + ?j * 2 ^ 13) * 2 ^ ?e / 2 ^ 150"
      unfolding magnitude_def Let_def ed using False by simp
    ultimately have "single ?m = single ?u * 2 ^ 112"
      by (simp only: power_add times_divide_eq_left mult.assoc)
    moreover have "?e < 31" using assms by (simp add: div_less_iff_less_mult)
    then have "?m < 255 * 2 ^ 23" using small by simp
    moreover have "?m mod 2 ^ 13 = 0" by (simp add: mod_add_left_eq [symmetric] algebra_simps)
    ultimately show ?thesis by (intro exI [of _ ?m] conjI)
  next
    case True
    have u: "single ?u = of_nat ?j * 2 ^ 14 / 2 ^ 150"
      unfolding magnitude_def Let_def ed using True by simp
    show ?thesis
    proof (cases "?j = 0")
      case True
      then show ?thesis unfolding u by (intro exI [of _ 0]) (simp add: magnitude_def)
    next
      case False
      then obtain b where b: "2 ^ b \<le> ?j" "?j < 2 ^ (b + 1)" using ex_power_ivl1 [of 2 ?j] by auto
      have "2 ^ b < (2 ^ 10 :: nat)" using b(1) j by (rule le_less_trans)
      then have "b < 10" by (rule power_less_imp_less_exp [rotated]) simp
      then have b9: "b \<le> 9" by simp
      let ?n = "?j * 2 ^ (23 - b)"
      have pw: "(2 :: nat) ^ b * 2 ^ (23 - b) = 2 ^ 23" "(2 :: nat) ^ (b + 1) * 2 ^ (23 - b) = 2 ^ 24"
        using b9 by (simp_all add: power_add [symmetric])
      have n: "2 ^ 23 \<le> ?n" "?n < 2 ^ 24"
        using mult_le_mono1 [OF b(1), of "2 ^ (23 - b)"] mult_less_mono1 [OF b(2), of "2 ^ (23 - b)"]
        unfolding pw by simp_all
      let ?m = "(103 + b) * 2 ^ 23 + (?n - 2 ^ 23)"
      have d: "?m div 2 ^ 23 = 103 + b" "?m mod 2 ^ 23 = ?n - 2 ^ 23"
        using n by (simp_all only: div_mult_self3 mod_mult_self3) simp_all
      have "single ?m = of_nat ?n * 2 ^ (103 + b) / 2 ^ 150"
        unfolding magnitude_def Let_def d using n by simp
      also have "of_nat ?n * (2 :: rat) ^ (103 + b) = of_nat ?j * (2 ^ (23 - b) * 2 ^ (103 + b))" by simp
      also have "(2 :: rat) ^ (23 - b) * 2 ^ (103 + b) = 2 ^ 126" using b9 by (simp only: power_add [symmetric]) simp
      finally have "single ?m = single ?u * 2 ^ 112" unfolding u by simp
      moreover have "?m < 255 * 2 ^ 23" using n b9 by simp
      moreover have "2 ^ 13 dvd ?m"
      proof -
        have "(2 :: nat) ^ (23 - b) = 2 ^ 13 * 2 ^ (10 - b)" using b9 by (simp only: power_add [symmetric]) simp
        then have n: "2 ^ 13 dvd ?n" by (metis dvd_triv_left dvd_mult)
        have p: "(2 :: nat) ^ 13 dvd 2 ^ 23" by (rule le_imp_power_dvd) simp
        show ?thesis by (rule dvd_add [OF dvd_mult [OF p] dvd_diff_nat [OF n p]])
      qed
      ultimately show ?thesis by (intro exI [of _ ?m]) (simp add: mod_eq_0_iff_dvd)
    qed
  qed
qed

definition halfValue :: "nat \<Rightarrow> rat" where
  "halfValue h = single (h * 2 ^ 13) * 2 ^ 112"

lemma halfValue_range:
  assumes "h < 31 * 2 ^ 10"
  shows "0 \<le> halfValue h" "halfValue h < 2 ^ 16"
proof -
  show "0 \<le> halfValue h" by (simp add: halfValue_def single_nonneg)
  let ?u = "h * 2 ^ 13"
  have "?u div 2 ^ 23 < 31" using assms by (simp add: div_less_iff_less_mult)
  then have e: "?u div 2 ^ 23 \<le> 30" by simp
  have k: "?u mod 2 ^ 23 < 2 ^ 23" by simp
  have "(if ?u div 2 ^ 23 = 0 then of_nat (?u mod 2 ^ 23) * 2 else of_nat (2 ^ 23 + ?u mod 2 ^ 23) * 2 ^ (?u div 2 ^ 23) :: rat)
      < 2 ^ 24 * 2 ^ 30"
  proof (cases "?u div 2 ^ 23 = 0")
    case True
    have "(of_nat (?u mod 2 ^ 23) :: rat) < 2 ^ 23" using k by (metis of_nat_less_iff of_nat_numeral of_nat_power)
    then show ?thesis using True by simp
  next
    case False
    have "2 ^ 23 + ?u mod 2 ^ 23 < (2 ^ 24 :: nat)" using k by simp
    then have "(of_nat (2 ^ 23 + ?u mod 2 ^ 23) :: rat) < of_nat (2 ^ 24)" by (simp only: of_nat_less_iff)
    then have "(of_nat (2 ^ 23 + ?u mod 2 ^ 23) :: rat) < 2 ^ 24" by (simp only: of_nat_power of_nat_numeral)
    moreover have "(2 :: rat) ^ (?u div 2 ^ 23) \<le> 2 ^ 30" using e by (intro power_increasing) simp_all
    ultimately have "of_nat (2 ^ 23 + ?u mod 2 ^ 23) * 2 ^ (?u div 2 ^ 23) < (2 ^ 24 * 2 ^ 30 :: rat)"
      by (intro mult_less_le_imp_less) simp_all
    then show ?thesis using False by simp
  qed
  then show "halfValue h < 2 ^ 16"
    unfolding halfValue_def magnitude_def Let_def by (simp add: field_simps)
qed

lemma or_flag: "m < 2 ^ k \<Longrightarrow> m OR 2 ^ k = m + (2 ^ k :: nat)"
  by (rule disjunctive_add [symmetric]) (auto simp: bit_exp_iff bit_iff_odd [of m])

lemma float16Value_finite:
  assumes "w < 2 ^ 16" "w mod 2 ^ 15 < 31 * 2 ^ 10"
  shows "float16Value w = Finite_number (odd (w div 2 ^ 15)) (halfValue (w mod 2 ^ 15))"
proof -
  let ?h = "w mod 2 ^ 15"
  let ?u = "?h * 2 ^ 13"
  have u: "?u < 255 * 2 ^ 23" using assms(2) by simp
  obtain m where m: "m < 255 * 2 ^ 23" "single m = halfValue ?h"
    using scaled_half [OF assms(2)] unfolding halfValue_def by blast
  have t: "numberTimes (getFloat32Bits ?u) (Finite_number False (2 ^ 112)) = Finite_number False (single m)"
    unfolding getFloat32_finite(1) [OF u] m(2) halfValue_def
    using toNumber_scaled [OF u, of "2 ^ 112"] by simp
  have s: "setFloat32Bits (Finite_number False (single m)) = m" using setFloat32_finite [OF m(1)] by simp
  have small: "\<not> numberAtLeast (getFloat32Bits m) (Finite_number False (2 ^ 16))"
    unfolding getFloat32_finite(1) [OF m(1)] m(2) using halfValue_range(2) [OF assms(2)]
    by (simp add: signed_rat_def)
  have "m OR 2 ^ 31 = m + 2 ^ 31" using m(1) by (intro or_flag) simp
  then show ?thesis
    unfolding float16Value_def Let_def magics t s using small getFloat32_finite [OF m(1)] m(2) by simp
qed

lemma float16_roundtrip_finite:
  assumes "w < 2 ^ 16" "w mod 2 ^ 15 < 31 * 2 ^ 10"
  shows "float16Bits (float16Value w) = w"
proof -
  let ?h = "w mod 2 ^ 15" and ?s = "odd (w div 2 ^ 15)"
  let ?u = "?h * 2 ^ 13"
  have u: "?u < 255 * 2 ^ 23" using assms(2) by simp
  obtain m where m: "m < 255 * 2 ^ 23" "single m = single ?u * 2 ^ 112" "m mod 2 ^ 13 = 0"
    using scaled_half [OF assms(2)] by (elim exE conjE) (rule that)
  have v: "float16Value w = Finite_number ?s (single m)"
    using float16Value_finite [OF assms] by (simp add: halfValue_def m(2))
  have mm: "m mod 2 ^ 31 = m" "((2 :: nat) ^ 31 + m) mod 2 ^ 31 = m" using m(1) by simp_all
  have b: "setFloat32Bits (float16Value w) mod 2 ^ 31 = m" "(2 ^ 31 \<le> setFloat32Bits (float16Value w)) = ?s"
    unfolding v setFloat32_finite [OF m(1)] using mm m(1) by simp_all
  have "(2 :: nat) ^ 12 dvd 2 ^ 13" by (rule le_imp_power_dvd) simp
  moreover have "2 ^ 13 dvd m" using m(3) by (simp only: mod_eq_0_iff_dvd)
  ultimately have "2 ^ 12 dvd m" by (rule dvd_trans)
  then have trunc: "m div 2 ^ 12 * 2 ^ 12 = m" by (rule dvd_div_mult_self)
  have "single m * (1 / 2 ^ 112) = single ?u" unfolding m(2) by simp
  then have t: "numberTimes (getFloat32Bits m) (Finite_number False (1 / 2 ^ 112)) = Finite_number False (single ?u)"
    unfolding getFloat32_finite(1) [OF m(1)] using toNumber_scaled [OF m(1), of "1 / 2 ^ 112"] by simp
  have s: "setFloat32Bits (Finite_number False (single ?u)) = ?u" using setFloat32_finite [OF u] by simp
  have big: "(255 * 2 ^ 23 \<le> m) = False" using m(1) by simp
  have fin: "(?u + 0x1000) mod 2 ^ 32 = ?u + 0x1000" "(31 * 2 ^ 23 < ?u + 0x1000) = False"
    "(?u + 0x1000) div 2 ^ 13 mod 2 ^ 16 = ?h"
    using assms(2) by simp_all
  have w: "(?h OR (if ?s then 0x8000 else 0)) mod 2 ^ 16 = w"
  proof (cases ?s)
    case True
    have "?h OR 2 ^ 15 = ?h + 2 ^ 15" by (rule or_flag) simp
    moreover have "w div 2 ^ 15 < 2" using assms(1) by (simp add: div_less_iff_less_mult)
    then have "w div 2 ^ 15 = 1" using True by (cases "w div 2 ^ 15") auto
    then have "w = ?h + 2 ^ 15" using div_mult_mod_eq [of w "2 ^ 15"] by simp
    ultimately show ?thesis using True assms(1) by simp
  next
    case False
    have "w div 2 ^ 15 < 2" using assms(1) by (simp add: div_less_iff_less_mult)
    then have "w div 2 ^ 15 = 0" using False by (cases "w div 2 ^ 15") (auto simp: less_Suc_eq)
    then have "w = ?h" using div_mult_mod_eq [of w "2 ^ 15"] by simp
    then show ?thesis using False assms(1) by simp
  qed
  show ?thesis unfolding float16Bits_def Let_def b magics big if_False trunc t s fin w ..
qed

subsection \<open>All widths\<close>

text \<open>The bits of a finite number: the exponent field is not all ones.\<close>

definition finite_pattern :: "nat \<Rightarrow> nat \<Rightarrow> bool" where
  "finite_pattern w n \<longleftrightarrow>
     (w = 16 \<and> n mod 2 ^ 15 < 31 * 2 ^ 10) \<or> (w = 32 \<and> n mod 2 ^ 31 < 255 * 2 ^ 23)
     \<or> (w = 64 \<and> n mod 2 ^ 63 < 2047 * 2 ^ 52)"

lemma numberOfBits_finite:
  assumes "n mod ((emax + 1) * 2 ^ f) < emax * 2 ^ f"
  shows "\<exists>s m. numberOfBits f emax n = Finite_number s (magnitude f emax m) \<and> m < emax * 2 ^ f"
proof -
  have "n mod ((emax + 1) * 2 ^ f) div 2 ^ f < emax" using assms by (simp add: div_less_iff_less_mult)
  then show ?thesis using assms by (auto simp: numberOfBits_def Let_def)
qed

text \<open>A number whose magnitude is at most the limit is not changed by either cast.\<close>

lemma limitNumber_id:
  assumes "FLOAT_LIMITS w = Some (Finite_number False l)" "0 \<le> x" "x \<le> l"
  shows "limitNumber w c (Finite_number s x) = Finite_number s x"
  using assms by (auto simp: limitNumber_def numberMin_def numberMax_def signed_rat_def)

lemma float_limits:
  "FLOAT_LIMITS 16 = Some (Finite_number False (halfValue (31 * 2 ^ 10 - 1)))"
  "FLOAT_LIMITS 32 = Some (Finite_number False (magnitude 23 255 (255 * 2 ^ 23 - 1)))"
  "FLOAT_LIMITS 64 = Some (Finite_number False (magnitude 52 2047 (2047 * 2 ^ 52 - 1)))"
  by (simp_all add: FLOAT_LIMITS_def halfValue_def numberOfBits_def magnitude_def Let_def)

lemma float_pattern_roundtrip:
  assumes "finite_pattern w n" "n < 2 ^ w"
  shows "\<exists>x. decodePrimitive P_float w (padBits w (binary n)) = Number_value x
    \<and> encodeFloat w (limitNumber w c x) = n"
proof -
  consider (half) "w = 16" "n mod 2 ^ 15 < 31 * 2 ^ 10" | (single) "w = 32" "n mod 2 ^ 31 < 255 * 2 ^ 23"
    | (double) "w = 64" "n mod 2 ^ 63 < 2047 * 2 ^ 52"
    using assms(1) unfolding finite_pattern_def by blast
  then show ?thesis
  proof cases
    case half
    have n: "n < 2 ^ 16" using assms(2) half(1) by simp
    let ?h = "n mod 2 ^ 15"
    have "?h * 2 ^ 13 \<le> (31 * 2 ^ 10 - 1) * 2 ^ 13" using half(2) by (intro mult_le_mono1) simp
    then have "halfValue ?h \<le> halfValue (31 * 2 ^ 10 - 1)"
      unfolding halfValue_def by (intro mult_right_mono magnitude_mono) simp_all
    then have "limitNumber w c (float16Value n) = float16Value n"
      unfolding float16Value_finite [OF n half(2)] half(1)
      by (intro limitNumber_id [OF float_limits(1)] halfValue_range(1) [OF half(2)])
    then show ?thesis using float16_roundtrip_finite [OF n half(2)] half(1)
      by (simp add: decodePrimitive_def encodeFloat_def)
  next
    case single
    then have "n mod ((255 + 1) * 2 ^ 23) < 255 * 2 ^ 23" by simp
    from numberOfBits_finite [OF this] obtain s m
      where x: "getFloat32Bits n = Finite_number s (magnitude 23 255 m)" and m: "m < 255 * 2 ^ 23" by blast
    have "m \<le> 255 * 2 ^ 23 - 1" using m by simp
    then have "limitNumber 32 c (getFloat32Bits n) = getFloat32Bits n"
      unfolding x by (intro limitNumber_id [OF float_limits(2)] magnitude_nonneg magnitude_mono)
    moreover have "setFloat32Bits (getFloat32Bits n) = n"
      using assms(2) single(1) x by (intro bitsOfNumber_numberOfBits) simp_all
    ultimately show ?thesis using single(1) by (simp add: decodePrimitive_def encodeFloat_def)
  next
    case double
    then have "n mod ((2047 + 1) * 2 ^ 52) < 2047 * 2 ^ 52" by simp
    from numberOfBits_finite [OF this] obtain s m
      where x: "getFloat64Bits n = Finite_number s (magnitude 52 2047 m)" and m: "m < 2047 * 2 ^ 52" by blast
    have "m \<le> 2047 * 2 ^ 52 - 1" using m by simp
    then have "limitNumber 64 c (getFloat64Bits n) = getFloat64Bits n"
      unfolding x by (intro limitNumber_id [OF float_limits(3)] magnitude_nonneg magnitude_mono)
    moreover have "setFloat64Bits (getFloat64Bits n) = n"
      using assms(2) double(1) x by (intro bitsOfNumber_numberOfBits) simp_all
    moreover have "n mod 2 ^ 64 = n" using assms(2) double(1) by simp
    ultimately show ?thesis using double(1) by (simp add: decodePrimitive_def encodeFloat_def)
  qed
qed

lemma padBits_natOfBits: "length s = w \<Longrightarrow> 0 < w \<Longrightarrow> padBits w (binary (natOfBits s)) = s"
  by (rule natOfBits_inject)
    (use natOfBits_less [of s] length_binary [of "natOfBits s" w] in \<open>simp_all add: length_padBits\<close>)

end
