(* ===== verification/Dsdl_Total.thy ===== *)
theory Dsdl_Total
  imports Dsdl_Roundtrip
begin

text \<open>
  The codec ends on every input: for types nested at most to the fuel, whose tail arrays have
  items of at least one bit, neither the recursion nor the loop of a tail array runs away,
  whatever the payload or the value is.
\<close>

primrec type_total :: "resolver \<Rightarrow> nat \<Rightarrow> dsdl_type \<Rightarrow> bool" where
  "type_total resolve 0 = (\<lambda>desc. False)"
| "type_total resolve (Suc n) =
     (\<lambda>desc. case desc of
        Primitive k w cm \<Rightarrow> True
      | Void k \<Rightarrow> True
      | Named r \<Rightarrow>
          (case resolve r of
             Inl e \<Rightarrow> e \<noteq> Too_deep \<and> e \<noteq> Endless_loop
           | Inr section \<Rightarrow> list_all (\<lambda>f. type_total resolve n (fieldType f)) (sectionFields section))
      | Array_of a m mx eMin \<Rightarrow>
          type_total resolve n a \<and> (m = Dynamic_array \<longrightarrow> eMin \<ge> 8 \<longrightarrow> 1 \<le> minBits resolve n a))"

definition section_total :: "resolver \<Rightarrow> nat \<Rightarrow> dsdl_section \<Rightarrow> bool" where
  "section_total resolve n section = list_all (\<lambda>f. type_total resolve n (fieldType f)) (sectionFields section)"

text \<open>A result that is no runaway; and the position a decoder without tail optimisation leaves.\<close>

definition ends :: "dsdl_error + 'a \<Rightarrow> bool" where
  "ends r \<longleftrightarrow> r \<noteq> Inl Too_deep \<and> r \<noteq> Inl Endless_loop"

definition moves_past :: "nat \<Rightarrow> cursor \<Rightarrow> dsdl_error + 'a \<times> cursor \<Rightarrow> bool" where
  "moves_past k c r \<longleftrightarrow> (\<forall>v c'. r = Inr (v, c') \<longrightarrow> stream c' = stream c \<and> pos c + k \<le> pos c')"

definition total_level :: "(dsdl_type \<Rightarrow> bool) \<Rightarrow> (dsdl_type \<Rightarrow> nat) \<Rightarrow> type_decoder \<Rightarrow> bool" where
  "total_level ok least dec \<longleftrightarrow>
     (\<forall>desc c tao. ok desc \<longrightarrow> ends (dec desc c tao) \<and> (\<not> tao \<longrightarrow> moves_past (least desc) c (dec desc c tao)))"

named_theorems runs "results that end"

lemma ends_Inr [runs]: "ends (Inr x)"
  by (simp add: ends_def)

lemma ends_bind [runs]:
  "ends r \<Longrightarrow> (\<And>x. r = Inr x \<Longrightarrow> ends (f x)) \<Longrightarrow> ends (case r of Inl e \<Rightarrow> Inl e | Inr x \<Rightarrow> f x)"
  by (cases r) (auto simp: ends_def)

lemma ends_map: "ends r \<Longrightarrow> ends (map_sum id f r)"
  by (cases r) (auto simp: ends_def)

lemma moves_past_Inr: "stream c' = stream c \<Longrightarrow> pos c + k \<le> pos c' \<Longrightarrow> moves_past k c (Inr (v, c'))"
  by (simp add: moves_past_def)

lemma moves_past_bind:
  assumes "moves_past j c r" "\<And>v c'. r = Inr (v, c') \<Longrightarrow> moves_past k c' (f v c')" "m \<le> j + k"
  shows "moves_past m c (case r of Inl e \<Rightarrow> Inl e | Inr (v, c') \<Rightarrow> f v c')"
proof (cases r)
  case (Inl e)
  then show ?thesis by (simp add: moves_past_def)
next
  case (Inr x)
  obtain v c' where x: "x = (v, c')" by fastforce
  have a: "stream c' = stream c" "pos c + j \<le> pos c'" using assms(1) Inr x by (simp_all add: moves_past_def)
  have b: "moves_past k c' (f v c')" using assms(2) Inr x by simp
  have "stream d = stream c \<and> pos c + m \<le> pos d" if "f v c' = Inr (w, d)" for w d
  proof -
    have "stream d = stream c'" "pos c' + k \<le> pos d"
      using b [unfolded moves_past_def] that by blast+
    moreover have "pos c + m \<le> pos c' + k" using a(2) assms(3) by linarith
    ultimately show ?thesis using a(1) order.trans by metis
  qed
  then show ?thesis unfolding Inr x moves_past_def sum.case prod.case by blast
qed

lemma moves_past_weaken:
  assumes "moves_past k c' r" "stream c' = stream c" "pos c + m \<le> pos c' + k"
  shows "moves_past m c r"
  unfolding moves_past_def
proof (intro allI impI)
  fix v d
  assume "r = Inr (v, d)"
  then have "stream d = stream c' \<and> pos c' + k \<le> pos d" using assms(1) by (simp add: moves_past_def)
  then show "stream d = stream c \<and> pos c + m \<le> pos d" using assms(2,3) by simp
qed

lemma totalD:
  assumes "total_level ok least dec" "ok desc"
  shows "ends (dec desc c tao)" "moves_past (least desc) c (dec desc c False)"
  using assms unfolding total_level_def by blast+

lemma takeBits_runs: "ends (takeBits c w)" "moves_past w c (takeBits c w)"
  by (auto simp: ends_def moves_past_def takeBits_def beFromLeBits_def)

subsection \<open>The loops\<close>

lemma items_end: "(\<And>c tao. ends (dec c tao)) \<Longrightarrow> ends (decodeItems dec k c tao)"
proof (induction k arbitrary: c)
  case (Suc k)
  then show ?case by (auto intro!: ends_bind ends_Inr split: prod.split)
qed (simp add: ends_Inr)

lemma items_advance:
  "(\<And>c. moves_past m c (dec c False)) \<Longrightarrow> moves_past (k * m) c (decodeItems dec k c False)"
proof (induction k arbitrary: c)
  case (Suc k)
  have "moves_past (k * m) c' (case decodeItems dec k c' False of Inl e \<Rightarrow> Inl e | Inr (vs, c'') \<Rightarrow> Inr (v # vs, c''))"
    for v :: 'a and c'
    by (rule moves_past_bind [OF Suc.IH [OF Suc.prems], where k = 0]) (auto intro: moves_past_Inr)
  from moves_past_bind [OF Suc.prems this] show ?case by simp
qed (simp add: moves_past_def)

lemma tail_ends:
  assumes "\<And>c. ends (dec c False)" "\<And>c. moves_past 1 c (dec c False)"
  shows "ends (decodeTail dec c)"
proof (induction "nat (remaining c)" arbitrary: c rule: less_induct)
  case less
  show ?case
  proof (cases "remaining c < 8")
    case True
    then show ?thesis by (subst decodeTail.simps) (simp add: ends_Inr)
  next
    case False
    have "remaining c' < remaining c \<and> ends (decodeTail dec c')" if "dec c False = Inr (v, c')" for v c'
    proof -
      have r: "remaining c' < remaining c"
        using assms(2) [of c] that by (auto simp: moves_past_def remaining_def)
      then show ?thesis using less [of c'] False by simp
    qed
    then show ?thesis using False assms(1) [of c]
      by (subst decodeTail.simps) (auto intro!: ends_bind ends_Inr split: prod.split)
  qed
qed

lemma fields_end:
  assumes "total_level ok least dec"
  shows "list_all (\<lambda>f. ok (fieldType f)) fs \<Longrightarrow> ends (decodeFields dec fs c tao)"
proof (induction fs arbitrary: c)
  case (Cons f fs)
  then show ?case using assms by (auto simp: total_level_def intro!: ends_bind ends_Inr split: prod.split)
qed (simp add: ends_Inr)

lemma fields_advance:
  assumes "total_level ok least dec"
  shows "list_all (\<lambda>f. ok (fieldType f)) fs \<Longrightarrow>
    moves_past (sum_list (map (\<lambda>f. least (fieldType f)) fs)) c (decodeFields dec fs c False)"
proof (induction fs arbitrary: c)
  case (Cons f fs)
  have first: "moves_past (least (fieldType f)) c (dec (fieldType f) c False)"
    using Cons.prems by (intro totalD(2) [OF assms]) simp
  have rest: "moves_past (sum_list (map (\<lambda>f. least (fieldType f)) fs)) c'
      (case decodeFields dec fs c' False of Inl e \<Rightarrow> Inl e
       | Inr (vs, c'') \<Rightarrow> Inr (case fieldName f of None \<Rightarrow> vs | Some n \<Rightarrow> (n, v) # vs, c''))" for v c'
    using Cons.prems by (intro moves_past_bind [OF Cons.IH, where k = 0]) (auto intro: moves_past_Inr)
  from moves_past_bind [OF first rest order_refl] show ?case by simp
qed (simp add: moves_past_def)

text \<open>The least number of bits of a section, as \<open>minBits\<close> computes it.\<close>

definition sectionBits :: "(dsdl_type \<Rightarrow> nat) \<Rightarrow> dsdl_section \<Rightarrow> nat" where
  "sectionBits least section =
     (let mins = map (\<lambda>f. least (fieldType f)) (sectionFields section)
      in if isUnion section then unionTagBits (length mins) + (if mins = [] then 0 else Min (set mins))
         else sum_list mins)"

lemma section_runs:
  assumes lv: "total_level ok least dec" and ok: "list_all (\<lambda>f. ok (fieldType f)) (sectionFields section)"
  shows "ends (decodeSection dec section c tao)"
    and "\<not> tao \<Longrightarrow> moves_past (sectionBits least section) c (decodeSection dec section c tao)"
proof -
  let ?fs = "sectionFields section" and ?w = "unionTagBits (length (sectionFields section))"
  let ?tag = "natOfBits (take ?w (drop (pos c) (stream c)))"
  have dec: "ends (dec (fieldType (?fs ! ?tag)) d tao)"
    "\<not> tao \<Longrightarrow> moves_past (least (fieldType (?fs ! ?tag))) d (dec (fieldType (?fs ! ?tag)) d tao)"
    if "?tag < length ?fs" for d
    using lv ok that by (auto simp: total_level_def list_all_length)
  show "ends (decodeSection dec section c tao)"
    using dec(1) fields_end [OF lv ok]
    by (auto simp: decodeSection_def Let_def ends_def [of "Inl _"] intro!: ends_bind ends_Inr split: prod.split)
  assume nt: "\<not> tao"
  show "moves_past (sectionBits least section) c (decodeSection dec section c tao)"
  proof (cases "isUnion section")
    case False
    then show ?thesis using fields_advance [OF lv ok] nt
      by (simp add: decodeSection_def sectionBits_def Let_def)
  next
    case un: True
    show ?thesis
    proof (cases "remaining c < int ?w \<or> length ?fs \<le> ?tag")
      case True
      then show ?thesis using un by (auto simp: decodeSection_def Let_def moves_past_def)
    next
      case False
      then have tag: "?tag < length ?fs" by simp
      let ?g = "\<lambda>v c'. Inr (case fieldName (?fs ! ?tag) of None \<Rightarrow> [] | Some n \<Rightarrow> [(n, v)], c') :: dsdl_error + _"
      have e: "decodeSection dec section c tao
          = (case dec (fieldType (?fs ! ?tag)) (c\<lparr>pos := pos c + ?w\<rparr>) tao of Inl e \<Rightarrow> Inl e | Inr (v, c') \<Rightarrow> ?g v c')"
        using False un by (simp add: decodeSection_def Let_def)
      have "Min (set (map (\<lambda>f. least (fieldType f)) ?fs)) \<le> least (fieldType (?fs ! ?tag))"
        using tag by (intro Min_le) auto
      then have b: "sectionBits least section \<le> ?w + least (fieldType (?fs ! ?tag))"
        using un tag by (auto simp: sectionBits_def Let_def)
      have "moves_past (least (fieldType (?fs ! ?tag))) (c\<lparr>pos := pos c + ?w\<rparr>) (decodeSection dec section c tao)"
        unfolding e by (rule moves_past_bind [OF dec(2) [OF tag nt], where k = 0]) (auto intro: moves_past_Inr)
      then show ?thesis by (rule moves_past_weaken) (use b in simp_all)
    qed
  qed
qed

subsection \<open>Every level\<close>

lemma decoder_total: "total_level (type_total resolve n) (minBits resolve n) (decodeType resolve n)"
proof (induction n)
  case 0
  then show ?case by (simp add: total_level_def)
next
  case (Suc n)
  have "ends (decodeType resolve (Suc n) desc c tao)
      \<and> (\<not> tao \<longrightarrow> moves_past (minBits resolve (Suc n) desc) c (decodeType resolve (Suc n) desc c tao))"
    if ok: "type_total resolve (Suc n) desc" for desc c tao
  proof (cases desc)
    case (Primitive k w cm)
    have "moves_past w c (case takeBits c w of Inl e \<Rightarrow> Inl e | Inr (s, c') \<Rightarrow> Inr (decodePrimitive k w s, c'))"
      by (rule moves_past_bind [OF takeBits_runs(2), where k = 0]) (auto intro: moves_past_Inr)
    then show ?thesis using Primitive takeBits_runs(1)
      by (auto intro!: ends_bind ends_Inr split: prod.split)
  next
    case (Void k)
    then show ?thesis by (simp add: ends_Inr moves_past_def)
  next
    case (Named r)
    show ?thesis
    proof (cases "resolve r")
      case (Inl e)
      then show ?thesis using Named ok by (simp add: ends_def moves_past_def)
    next
      case (Inr sec)
      have fs: "list_all (\<lambda>f. type_total resolve n (fieldType f)) (sectionFields sec)"
        using Named Inr ok by simp
      note run = section_runs [OF Suc fs]
      have "moves_past (sectionBits (minBits resolve n) sec) c
          (case decodeSection (decodeType resolve n) sec c tao of Inl e \<Rightarrow> Inl e
           | Inr (fs, c') \<Rightarrow> Inr (Object_value fs, c'))" if "\<not> tao"
        by (rule moves_past_bind [OF run(2) [OF that], where k = 0]) (auto intro: moves_past_Inr)
      then show ?thesis using Named Inr run(1)
        by (auto simp: sectionBits_def intro!: ends_bind ends_Inr split: prod.split)
    qed
  next
    case (Array_of a m mx eMin)
    have a: "type_total resolve n a" using ok Array_of by simp
    have el: "ends (decodeType resolve n a c tao)" "moves_past (minBits resolve n a) c (decodeType resolve n a c False)"
      for c tao by (rule totalD [OF Suc a])+
    have items: "ends (decodeItems (decodeType resolve n a) k c tao)" for k c by (rule items_end) (rule el(1))
    let ?run = "if m = Static_array then decodeItems (decodeType resolve n a) mx c tao
                else if tao \<and> eMin \<ge> 8 then decodeTail (decodeType resolve n a) c
                else (case takeBits c (bitLength mx) of Inl e \<Rightarrow> Inl e
                  | Inr (s, c') \<Rightarrow> decodeItems (decodeType resolve n a) (natOfBits s) c' tao)"
    have e: "decodeType resolve (Suc n) desc c tao
        = (case ?run of Inl e \<Rightarrow> Inl e | Inr (vs, c') \<Rightarrow> Inr (Array_value vs, c'))"
      unfolding Array_of by simp
    have tail: "ends (decodeTail (decodeType resolve n a) c)" if "m \<noteq> Static_array" "eMin \<ge> 8"
    proof (rule tail_ends)
      have "1 \<le> minBits resolve n a" using ok Array_of that by (cases m) simp_all
      then show "moves_past 1 d (decodeType resolve n a d False)" for d
        by (intro moves_past_weaken [OF el(2) [of d]]) simp_all
    qed (rule el(1))
    have "ends ?run" using items tail takeBits_runs(1)
      by (auto intro!: ends_bind split: prod.split)
    then have fin: "ends (case ?run of Inl e \<Rightarrow> Inl e | Inr (vs, c') \<Rightarrow> Inr (Array_value vs, c'))"
      by (rule ends_bind) (simp add: ends_Inr split: prod.split)
    have "moves_past (minBits resolve (Suc n) desc) c ?run" if "\<not> tao"
    proof (cases "m = Static_array")
      case True
      then show ?thesis using items_advance [of "minBits resolve n a" "decodeType resolve n a", OF el(2)] that Array_of by simp
    next
      case False
      have "moves_past 0 c' (decodeItems (decodeType resolve n a) k c' False)" for k c'
        by (rule moves_past_weaken [OF items_advance [of "minBits resolve n a" "decodeType resolve n a" k c', OF el(2)]]) simp_all
      then have "moves_past (bitLength mx) c (case takeBits c (bitLength mx) of Inl e \<Rightarrow> Inl e
          | Inr (s, c') \<Rightarrow> decodeItems (decodeType resolve n a) (natOfBits s) c' False)"
        by (intro moves_past_bind [OF takeBits_runs(2)]) auto
      moreover have tao: "tao = False" using that by simp
      ultimately show ?thesis using False Array_of unfolding tao by simp
    qed
    then have "moves_past (minBits resolve (Suc n) desc) c
        (case ?run of Inl e \<Rightarrow> Inl e | Inr (vs, c') \<Rightarrow> Inr (Array_value vs, c'))" if "\<not> tao"
      by (rule moves_past_bind [OF _ moves_past_Inr, where k = 0]) (use that in auto)
    then show ?thesis unfolding e using fin by blast
  qed
  then show ?case unfolding total_level_def by blast
qed

lemma encodeItems_ends: "(\<And>v tao. v \<in> set vs \<Longrightarrow> ends (enc v tao)) \<Longrightarrow> ends (encodeItems enc vs tao)"
proof (induction vs)
  case (Cons v vs)
  then show ?case by (auto intro!: ends_bind ends_Inr)
qed (simp add: ends_Inr)

lemma fieldIndexOf_less: "x \<in> set xs \<Longrightarrow> fieldIndexOf x xs < length xs"
  by (induction xs) auto

lemma encodeSection_ends:
  assumes "\<And>f v tao. f \<in> set (sectionFields sec) \<Longrightarrow> ends (enc (fieldType f) v tao)"
  shows "ends (encodeSection enc sec fs tao)"
proof (cases "isUnion sec \<and> sectionFields sec \<noteq> []")
  case True
  let ?named = "map fieldName (sectionFields sec)"
  let ?chosen = "find (\<lambda>key. Some key \<in> set ?named) (map fst fs)"
  let ?tag = "case ?chosen of None \<Rightarrow> 0 | Some key \<Rightarrow> fieldIndexOf (Some key) ?named"
  have "?tag < length (sectionFields sec)"
    using True fieldIndexOf_less [of _ ?named] by (auto simp: find_Some_iff split: option.split)
  then have "sectionFields sec ! ?tag \<in> set (sectionFields sec)" by (rule nth_mem)
  from assms [OF this] show ?thesis using True
    by (auto simp: encodeSection_def Let_def intro!: ends_bind ends_Inr)
next
  case False
  then show ?thesis using assms
    by (auto simp: encodeSection_def Let_def ends_def [of "Inl _"] intro!: encodeItems_ends)
qed

lemma encodePrimitive_ends: "ends (encodePrimitive k w c v)"
  by (auto simp: encodePrimitive_def ends_def split: prim_kind.split option.split)

lemma encoder_total: "type_total resolve n desc \<Longrightarrow> ends (encodeType resolve n desc v tao)"
proof (induction n arbitrary: desc v tao)
  case (Suc n)
  show ?case
  proof (cases desc)
    case (Primitive k w c)
    then show ?thesis by (simp add: ends_map encodePrimitive_ends)
  next
    case (Void k)
    then show ?thesis by (simp add: ends_Inr)
  next
    case (Named r)
    show ?thesis
    proof (cases "resolve r")
      case (Inl e)
      then show ?thesis using Named Suc.prems by (simp add: ends_def)
    next
      case (Inr sec)
      then show ?thesis using Named Suc by (auto simp: list_all_iff intro!: encodeSection_ends)
    qed
  next
    case (Array_of a m mx eMin)
    then have "ends (encodeItems (encodeType resolve n a) vs tao)" for vs tao
      using Suc by (intro encodeItems_ends) simp
    then show ?thesis using Array_of by (auto simp: Let_def intro!: ends_map)
  qed
qed simp

lemma codec_ends:
  assumes "section_total resolve n section"
  shows "ends (decodeDronecanSection n section payload resolve tao)"
    and "ends (encodeDronecanSection n section fs resolve tao)"
proof -
  have fs: "list_all (\<lambda>f. type_total resolve n (fieldType f)) (sectionFields section)"
    using assms by (simp add: section_total_def)
  show "ends (decodeDronecanSection n section payload resolve tao)"
    unfolding decodeDronecanSection_def by (rule ends_map) (rule section_runs(1) [OF decoder_total fs])
  show "ends (encodeDronecanSection n section fs resolve tao)"
    unfolding encodeDronecanSection_def using fs
    by (intro ends_map encodeSection_ends encoder_total) (simp add: list_all_iff)
qed

end
