(* ===== verification/Dronecan_Guarantees.thy ===== *)
theory Dronecan_Guarantees
  imports Dronecan_Transfer Dsdl_Float16 Dsdl_Total
begin

unbundle bit_operations_syntax

text \<open>
  The properties of the DroneCAN packages: the DSDL codec, its floats, and transfers from the
  encoder of a message over interleaved CAN frames to the decoded value.
\<close>

subsection \<open>A concrete catalogue\<close>

definition sampleSection :: dsdl_section where
  "sampleSection = \<lparr>isUnion = False, sectionFields =
     [\<lparr>fieldName = Some ''mode'', fieldType = Primitive P_unsigned 3 (Some Saturated)\<rparr>,
      \<lparr>fieldName = None, fieldType = Void 5\<rparr>,
      \<lparr>fieldName = Some ''choice'', fieldType = Named ''demo.Choice''\<rparr>,
      \<lparr>fieldName = Some ''data'',
       fieldType = Array_of (Primitive P_signed 12 (Some Truncated)) Dynamic_array 20 12\<rparr>]\<rparr>"

definition choiceSection :: dsdl_section where
  "choiceSection = \<lparr>isUnion = True, sectionFields =
     [\<lparr>fieldName = Some ''flag'', fieldType = Primitive P_bool 1 (Some Saturated)\<rparr>,
      \<lparr>fieldName = Some ''ratio'', fieldType = Primitive P_float 16 (Some Saturated)\<rparr>]\<rparr>"

definition sampleTypes :: catalogue_data where
  "sampleTypes =
     [(''demo.Sample'', \<lparr>entryKind = Message_type, entryId = Some 341, entrySig = [48, 49, 102, 51],
        msgSection = Some sampleSection, reqSection = None, resSection = None\<rparr>),
      (''demo.Choice'', \<lparr>entryKind = Message_type, entryId = None, entrySig = [49],
        msgSection = Some choiceSection, reqSection = None, resSection = None\<rparr>)]"

definition sampleValue :: "(string \<times> dsdl_value) list" where
  "sampleValue =
     [(''mode'', intValue 5), (''choice'', Object_value [(''flag'', Bool_value True)]),
      (''data'', Array_value (map intValue [-2048, -1, 0, 7, 2047]))]"

lemma sample_resolve:
  "resolveType sampleTypes ''demo.Choice'' = Inr choiceSection"
  "catalogueSection sampleTypes ''demo.Sample'' Msg_section = Inr sampleSection"
  "codecDepth sampleTypes = 6"
  by (simp_all add: resolveType_def catalogueSection_def sampleTypes_def codecDepth_def)

lemma sample_depth: "(6 :: nat) = Suc (Suc (Suc (Suc (Suc (Suc 0)))))"
  by simp

lemma dsdl_sample_ok: "section_ok (value_ok (resolveType sampleTypes) 6) sampleSection sampleValue"
proof -
  have "primitive_ok P_signed 12 (intValue i)" if "-2048 \<le> i" "i < 2048" for i
    using that by (simp add: primitive_ok_def intOf_intValue signHalf_def)
  moreover have "primitive_ok P_unsigned 3 (intValue 5)" by (simp add: primitive_ok_def intOf_intValue)
  moreover have "primitive_ok P_bool 1 (Bool_value True)" by (simp add: primitive_ok_def)
  ultimately show ?thesis
    unfolding sample_depth by (simp add: section_ok_def sampleSection_def sampleValue_def
        sample_resolve choiceSection_def)
qed

lemma sample_total: "section_total (resolveType sampleTypes) 6 sampleSection"
  unfolding sample_depth by (simp add: section_total_def sampleSection_def sample_resolve choiceSection_def)

subsection \<open>The codec\<close>



text \<open>C39 dsdl_codec_terminates: for types nested at most to the depth, whose tail arrays have items
  of at least one bit, decoding any payload and encoding any value end with a result or one of
  the errors the code throws; the loop of a tail array always consumes its input.\<close>

theorem dsdl_codec_terminates:
  assumes "section_total resolve depth sec"
  shows "decodeDronecanSection depth sec payload resolve tao \<notin> {Inl Too_deep, Inl Endless_loop}
    \<and> encodeDronecanSection depth sec v resolve tao \<notin> {Inl Too_deep, Inl Endless_loop}"
  using codec_ends [OF assms] by (simp add: ends_def)

theorem dsdl_codec_terminates_witness:
  "decodeDronecanSection 6 sampleSection [1, 2, 3, 4] (resolveType sampleTypes) True \<notin> {Inl Too_deep, Inl Endless_loop}"
  using dsdl_codec_terminates [OF sample_total] by blast

text \<open>Every bit pattern of a finite half, single or double precision
  number decodes to a number that either cast mode encodes to the same bits; for half precision
  this includes the two scalings through single precision.\<close>

theorem finite_floats_survive:
  assumes "finite_pattern w (natOfBits s)" "length s = w"
  shows "encodePrimitive P_float w c (Some (decodePrimitive P_float w s)) = Inr s"
proof -
  have w: "0 < w" using assms(1) by (auto simp: finite_pattern_def)
  have n: "natOfBits s < 2 ^ w" using natOfBits_less [of s] assms(2) by simp
  have s: "padBits w (binary (natOfBits s)) = s" using padBits_natOfBits [OF assms(2) w] .
  from float_pattern_roundtrip [OF assms(1) n, of c, unfolded s] show ?thesis
    by (auto simp: encodePrimitive_def floatOperand_def s)
qed

theorem finite_floats_survive_witness:
  "encodePrimitive P_float 16 (Some Saturated)
     (Some (decodePrimitive P_float 16 (replicate 15 False @ [True]))) = Inr (replicate 15 False @ [True])"
proof (rule finite_floats_survive)
  have "natOfBits (replicate 15 False @ [True]) = 1" by (simp add: natOfBits_snoc natOfBits_zeros [of 15 "[]", simplified])
  then show "finite_pattern 16 (natOfBits (replicate 15 False @ [True]))" by (simp add: finite_pattern_def)
qed simp

subsection \<open>Transfers\<close>

definition crcBytes :: "16 word \<Rightarrow> bytes" where
  "crcBytes c = [ucast c, ucast (drop_bit 8 c)]"

lemma carriedCrc_crcBytes: "carriedCrc (crcBytes c @ bs) = c"
proof (rule bit_word_eqI)
  fix n assume "n < LENGTH(16)"
  then show "bit (carriedCrc (crcBytes c @ bs)) n = bit c n"
    by (auto simp: carriedCrc_def crcBytes_def bit_or_iff bit_push_bit_iff bit_ucast_iff bit_drop_bit_eq)
qed

lemma carriedCrc_first:
  assumes "2 \<le> length (bodyOf f0)" "concat (map bodyOf (f0 # rest)) = crcBytes c @ bs"
  shows "carriedCrc (bodyOf f0) = c" "drop 2 (concat (map bodyOf (f0 # rest))) = bs"
proof -
  obtain x y zs where b: "bodyOf f0 = x # y # zs" using assms(1)
    by (metis One_nat_def Suc_1 Suc_le_length_iff)
  then have "x = ucast c" "y = ucast (drop_bit 8 c)" using assms(2) by (simp_all add: crcBytes_def)
  then show "carriedCrc (bodyOf f0) = c" using carriedCrc_crcBytes [of c zs] b by (simp add: crcBytes_def)
  show "drop 2 (concat (map bodyOf (f0 # rest))) = bs" unfolding assms(2) by (simp add: crcBytes_def)
qed

text \<open>The header allows the type to be looked up.\<close>

definition named_header :: "parsed_id \<Rightarrow> bool" where
  "named_header h \<longleftrightarrow> headerKind h = Anonymous_transfer \<longrightarrow> headerTypeId h = ALLOCATION_TYPE_ID mod 4"

lemma dsdl_section_back:
  assumes "section_ok (value_ok resolve n) sec v" "encodeDronecanSection n sec v resolve tao = Inr payload"
  shows "decodeDronecanSection n sec payload resolve tao = Inr v"
  using section_roundtrip [OF assms(1), of tao] assms(2) by auto

text \<open>C21 dronecan_message_delivered: a value encoded through the catalogue, preceded by its
  transfer checksum and split over the frames of a transfer, is delivered once, with the last
  frame, as exactly that value with its payload and frame numbers, whatever frames of other
  transfers or of no transfer come in between, from whatever state of the decoder, as long as
  every frame arrives within the timeout.\<close>

theorem dronecan_message_delivered:
  fixes types f0 rest
  defines "h \<equiv> parseId (frameId (last rest))"
  assumes "transfer_frames k fs f0 rest"
    and "named_header h" "lookupType types h = Some ty"
    and "catalogueSection types (fullName ty) (transferSection (headerKind h)) = Inr sec"
    and "section_ok (value_ok (resolveType types) (codecDepth types)) sec v"
    and "catalogueEncode types (fullName ty) (transferSection (headerKind h)) v (Some (\<not> frameFd (last rest))) = Inr payload"
    and "concat (map bodyOf (f0 # rest)) = crcBytes (dronecanTransferCrc (signature ty) payload) @ payload"
  shows "\<exists>t. outputsOf k (snd (pushFrames types fs ps)) = replicate (length rest) None @ [Some t]
    \<and> transferValue t = Some v \<and> transferPayload t = payload \<and> transferProblem t = None
    \<and> frameSeqs t = map frameSeq (f0 # rest)"
proof -
  have two: "2 \<le> length (bodyOf f0)" using assms(2) by (simp add: transfer_frames_def)
  note carried = carriedCrc_first [OF two assms(8)]
  have "catalogueDecode types (fullName ty) (transferSection (headerKind h)) payload (Some (\<not> frameFd (last rest))) = Inr v"
    using dsdl_section_back assms(5,6,7) by (simp add: catalogueDecode_def catalogueEncode_def)
  then have "transferValue (finishTransfer types h (last rest) (f0 # rest) payload i (Some (dronecanTransferCrc (signature ty) payload))) = Some v
      \<and> transferPayload (finishTransfer types h (last rest) (f0 # rest) payload i (Some (dronecanTransferCrc (signature ty) payload))) = payload
      \<and> transferProblem (finishTransfer types h (last rest) (f0 # rest) payload i (Some (dronecanTransferCrc (signature ty) payload))) = None
      \<and> frameSeqs (finishTransfer types h (last rest) (f0 # rest) payload i (Some (dronecanTransferCrc (signature ty) payload))) = map frameSeq (f0 # rest)" for i
    using assms(3,4) by (simp add: finishTransfer_def Let_def named_header_def)
  then show ?thesis using reassembled [OF assms(2), of types ps] unfolding carried h_def by blast
qed

definition sampleFrame0 :: "bytes \<Rightarrow> can_bus_frame" where
  "sampleFrame0 body = \<lparr>frameSeq = 7, frameTime = 100, frameBus = 1, frameId = 0x18015501, frameExtended = True,
     frameRtr = False, frameError = False, frameFd = False, frameData = body @ [0x83], frameDirection = Rx\<rparr>"

definition sampleFrame1 :: can_bus_frame where
  "sampleFrame1 = (sampleFrame0 [])\<lparr>frameSeq := 9, frameTime := 110, frameData := [0x63]\<rparr>"

definition otherFrame :: can_bus_frame where
  "otherFrame = (sampleFrame0 [1])\<lparr>frameSeq := 8, frameTime := 105, frameId := 0x18015502\<rparr>"

definition sampleKey :: transfer_key where
  "sampleKey = (1, Rx, Message_transfer, 341, 1, None, 3)"

lemma sample_bodies: "bodyOf (sampleFrame0 body) = body" "bodyOf sampleFrame1 = []"
  by (simp_all only: bodyOf_def sampleFrame0_def can_bus_frame.select_convs butlast_snoc)
    (simp add: sampleFrame1_def)

lemma sample_transfer:
  assumes "2 \<le> length body"
  shows "transfer_frames sampleKey [sampleFrame0 body, otherFrame, sampleFrame1] (sampleFrame0 body) [sampleFrame1]"
proof -
  have "ofKey sampleKey (sampleFrame0 body)" "ofKey sampleKey sampleFrame1" "\<not> ofKey sampleKey otherFrame"
    by (simp_all add: ofKey_def ignoredFrame_def sampleFrame0_def sampleFrame1_def otherFrame_def transferKey_def
        parseId_def sampleKey_def)
  then show ?thesis using assms
    by (simp add: transfer_frames_def tailFlags_def bodyOf_def)
      (simp add: sampleFrame0_def sampleFrame1_def otherFrame_def)
qed

lemma sample_lookup:
  "lookupType sampleTypes (parseId (frameId sampleFrame1)) = Some (toInfo ''demo.Sample'' (snd (sampleTypes ! 0)))"
  "named_header (parseId (frameId sampleFrame1))" "headerKind (parseId (frameId sampleFrame1)) = Message_transfer"
  by (simp_all add: lookupType_def parseId_def sampleFrame1_def sampleFrame0_def messageById_def byId_def
      idIndex_def sampleTypes_def typeInfo_def named_header_def)

theorem dronecan_message_delivered_witness:
  "\<exists>body t. outputsOf sampleKey (snd (pushFrames sampleTypes [sampleFrame0 body, otherFrame, sampleFrame1] (\<lambda>_. None)))
     = [None, Some t] \<and> transferValue t = Some sampleValue"
proof -
  let ?ty = "toInfo ''demo.Sample'' (snd (sampleTypes ! 0))"
  have ok: "section_ok (value_ok (resolveType sampleTypes) (codecDepth sampleTypes)) sampleSection sampleValue"
    using dsdl_sample_ok sample_resolve(3) by simp
  have sec: "catalogueSection sampleTypes (fullName ?ty) (transferSection Message_transfer) = Inr sampleSection"
    using sample_resolve(2) by (simp add: toInfo_def transferSection_def)
  obtain payload where p: "encodeDronecanSection (codecDepth sampleTypes) sampleSection sampleValue
      (resolveType sampleTypes) True = Inr payload"
    using section_roundtrip [OF ok, of True] by blast
  let ?body = "crcBytes (dronecanTransferCrc (signature ?ty) payload) @ payload"
  have fd: "frameFd sampleFrame1 = False" by (simp add: sampleFrame1_def sampleFrame0_def)
  have tf: "transfer_frames sampleKey [sampleFrame0 ?body, otherFrame, sampleFrame1] (sampleFrame0 ?body) [sampleFrame1]"
    by (rule sample_transfer) (simp add: crcBytes_def)
  have enc: "catalogueEncode sampleTypes (fullName ?ty) (transferSection Message_transfer) sampleValue
      (Some (\<not> frameFd sampleFrame1)) = Inr payload"
    using sec p by (simp add: catalogueEncode_def fd)
  have carried: "concat (map bodyOf (sampleFrame0 ?body # [sampleFrame1])) = ?body"
    by (simp add: sample_bodies)
  show ?thesis
    using dronecan_message_delivered [where types = sampleTypes and rest = "[sampleFrame1]" and ps = "\<lambda>_. None"
        and ty = ?ty and v = sampleValue and payload = payload and sec = sampleSection, OF tf,
        unfolded last_ConsL [OF refl] sample_lookup(3), OF sample_lookup(2,1) sec ok enc carried]
    by auto
qed

text \<open>When one byte of the payload changes on the bus, the transfer is
  still delivered once, with the checksum problem and without a value, for whatever type and
  position of the byte.\<close>

theorem corrupted_transfer_flagged:
  assumes "transfer_frames k fs f0 rest"
    and "named_header (parseId (frameId (last rest)))" "lookupType types (parseId (frameId (last rest))) = Some ty"
    and "concat (map bodyOf (f0 # rest)) = crcBytes (dronecanTransferCrc (signature ty) (xs @ b # ys)) @ xs @ c # ys"
    and "b \<noteq> c"
  shows "\<exists>t. outputsOf k (snd (pushFrames types fs ps)) = replicate (length rest) None @ [Some t]
    \<and> transferProblem t = Some Crc_mismatch \<and> transferValue t = None"
proof -
  have two: "2 \<le> length (bodyOf f0)" using assms(1) by (simp add: transfer_frames_def)
  let ?h = "parseId (frameId (last rest))" and ?crc = "dronecanTransferCrc (signature ty) (xs @ b # ys)"
  have "dronecanTransferCrc (signature ty) (xs @ c # ys) \<noteq> ?crc"
    using transferCrc_single_byte [of "signature ty" xs b ys c] assms(5) by metis
  then have "transferProblem (finishTransfer types ?h (last rest) (f0 # rest) (xs @ c # ys) i (Some ?crc)) = Some Crc_mismatch
      \<and> transferValue (finishTransfer types ?h (last rest) (f0 # rest) (xs @ c # ys) i (Some ?crc)) = None" for i
    using assms(2,3) by (simp add: finishTransfer_def Let_def named_header_def)
  then show ?thesis using reassembled [OF assms(1), of types ps]
    unfolding carriedCrc_first [OF two assms(4)] by blast
qed

theorem corrupted_transfer_flagged_witness:
  "\<exists>body t. outputsOf sampleKey (snd (pushFrames sampleTypes [sampleFrame0 body, otherFrame, sampleFrame1] (\<lambda>_. None)))
     = [None, Some t] \<and> transferProblem t = Some Crc_mismatch"
proof -
  let ?ty = "toInfo ''demo.Sample'' (snd (sampleTypes ! 0))"
  let ?body = "crcBytes (dronecanTransferCrc (signature ?ty) ([1] @ 2 # [3])) @ [1] @ 4 # [3]"
  have tf: "transfer_frames sampleKey [sampleFrame0 ?body, otherFrame, sampleFrame1] (sampleFrame0 ?body) [sampleFrame1]"
    by (rule sample_transfer) (simp add: crcBytes_def)
  have carried: "concat (map bodyOf (sampleFrame0 ?body # [sampleFrame1])) = ?body"
    by (simp add: sample_bodies)
  show ?thesis
    using corrupted_transfer_flagged [where types = sampleTypes and ty = ?ty and ps = "\<lambda>_. None", OF tf,
        unfolded last_ConsL [OF refl], OF sample_lookup(2,1) carried] by auto
qed

end
