(* ===== verification/Msp_Codec.thy ===== *)
theory Msp_Codec
  imports Js_Text Stream_Decoder
begin

unbundle bit_operations_syntax

text \<open>
  \<open>protocol-msp/src/constants.ts\<close>, \<open>msp-v1-codec.ts\<close> and \<open>messages.ts\<close>: the MSP v1 frames of a
  Betaflight board, the decoder that resynchronises on their magic, and the replies the
  application reads. The byte-wise decoder is an instance of \<open>stream_decoder\<close>.
\<close>

subsection \<open>Constants\<close>

definition "MSP_API_VERSION = (1 :: int)"
definition "MSP_FC_VARIANT = (2 :: int)"
definition "MSP_FC_VERSION = (3 :: int)"
definition "MSP_BOARD_INFO = (4 :: int)"
definition "MSP_BUILD_INFO = (5 :: int)"
definition "MSP_CF_SERIAL_CONFIG = (54 :: int)"
definition "MSP_REBOOT = (68 :: int)"
definition "MSP_UID = (160 :: int)"
definition "MSP_BOOTLOADER_ROM = (1 :: byte)"
definition "MSP_V1_MAGIC = [0x24, 0x4D :: byte]"
definition "MSP_REQUEST = (0x3C :: byte)"
definition "MSP_RESPONSE = (0x3E :: byte)"
definition "MSP_ERROR = (0x21 :: byte)"
definition "MSP_V1_MAX_PAYLOAD = (255 :: nat)"

subsection \<open>Frames\<close>

record msp_frame =
  mspCommand :: int
  mspPayload :: bytes
  mspIsError :: bool

text \<open>The exclusive or is of 32-bit integers and then cut to a byte, so only low bytes matter.\<close>

definition mspV1Checksum :: "int \<Rightarrow> bytes \<Rightarrow> byte" where
  "mspV1Checksum command payload =
     fold (\<lambda>b checksum. checksum XOR b) payload (of_nat (length payload) XOR word_of_int command)"

datatype msp_encode_error = Payload_too_large nat

definition encodeMspV1Request :: "int \<Rightarrow> bytes \<Rightarrow> msp_encode_error + bytes" where
  "encodeMspV1Request command payload =
     (if length payload > MSP_V1_MAX_PAYLOAD then Inl (Payload_too_large (length payload))
      else Inr ([MSP_V1_MAGIC ! 0, MSP_V1_MAGIC ! 1, MSP_REQUEST, of_nat (length payload), word_of_int command]
        @ payload @ [mspV1Checksum command payload]))"

subsection \<open>The decoder\<close>

fun mspResync :: "bytes \<Rightarrow> bytes" where
  "mspResync (a # b # bs) =
     (if a = MSP_V1_MAGIC ! 0 \<and> b = MSP_V1_MAGIC ! 1 then a # b # bs else mspResync (b # bs))"
| "mspResync bs = bs"

lemma length_mspResync: "length (mspResync bs) \<le> length bs"
  by (induction bs rule: mspResync.induct) auto

text \<open>One pass of the loop: \<open>None\<close> returns; otherwise the rest of the buffer and the frame found.\<close>

definition mspPass :: "bytes \<Rightarrow> (bytes \<times> msp_frame list) option" where
  "mspPass buffer =
     (if length buffer < 6 then None
      else
        (let size = unat (buffer ! 3);
             total = 6 + size
         in if length buffer < total then None
            else
              (let command = uint (buffer ! 4);
                   payload = take size (drop 5 buffer)
               in if mspV1Checksum command payload = buffer ! (total - 1) then
                    Some (drop total buffer,
                      [\<lparr>mspCommand = command, mspPayload = payload, mspIsError = (buffer ! 2 = MSP_ERROR)\<rparr>])
                  else Some (drop 2 buffer, []))))"

function mspLoop :: "bytes \<Rightarrow> bytes \<times> msp_frame list" where
  "mspLoop buffer =
     (case mspPass (mspResync buffer) of
        None \<Rightarrow> (mspResync buffer, [])
      | Some (rest, fs) \<Rightarrow> (case mspLoop rest of (buffer', gs) \<Rightarrow> (buffer', fs @ gs)))"
  by pat_completeness auto
termination
proof (relation "measure length", simp)
  fix buffer x rest and fs :: "msp_frame list"
  assume "mspPass (mspResync buffer) = Some x" "(rest, fs) = x"
  then have "length rest < length (mspResync buffer)"
    by (auto simp: mspPass_def Let_def split: if_splits)
  then show "(rest, buffer) \<in> measure length" using length_mspResync [of buffer] by simp
qed

declare mspLoop.simps [simp del]

definition mspPush :: "bytes \<Rightarrow> bytes \<Rightarrow> bytes \<times> msp_frame list" where
  "mspPush chunk buffer = mspLoop (buffer @ chunk)"

subsection \<open>Chunks do not matter\<close>

lemma mspResync_append: "mspResync (xs @ ys) = mspResync (mspResync xs @ ys)"
proof (induction xs rule: mspResync.induct)
  case (1 a b bs)
  then show ?case by simp
qed simp_all

lemma mspResync_idem [simp]: "mspResync (mspResync xs) = mspResync xs"
  using mspResync_append [of xs "[]"] by simp

lemma mspPass_append: "mspPass xs = Some (rest, fs) \<Longrightarrow> mspPass (xs @ ys) = Some (rest @ ys, fs)"
  by (auto simp: mspPass_def Let_def nth_append split: if_splits)

text \<open>A buffer that begins with the magic is left as it is when bytes are appended.\<close>

lemma mspResync_found: "6 \<le> length (mspResync xs) \<Longrightarrow> mspResync (xs @ ys) = mspResync xs @ ys"
proof (induction xs rule: mspResync.induct)
  case (1 a b bs)
  then show ?case by (auto split: if_splits)
qed simp_all

lemma mspPass_length: "mspPass xs = Some r \<Longrightarrow> 6 \<le> length xs"
  by (auto simp: mspPass_def split: if_splits)

lemma mspLoop_cong: "mspResync xs = mspResync ys \<Longrightarrow> mspLoop xs = mspLoop ys"
  by (simp only: mspLoop.simps [of xs] mspLoop.simps [of ys])

lemma mspLoop_append:
  "mspLoop (xs @ ys) = (case mspLoop xs of (s, out) \<Rightarrow> case mspLoop (s @ ys) of (s', out') \<Rightarrow> (s', out @ out'))"
proof (induction xs rule: mspLoop.induct)
  case (1 xs)
  show ?case
  proof (cases "mspPass (mspResync xs)")
    case None
    then have "mspLoop xs = (mspResync xs, [])" by (simp add: mspLoop.simps)
    moreover have "mspLoop (xs @ ys) = mspLoop (mspResync xs @ ys)"
      by (rule mspLoop_cong) (rule mspResync_append)
    ultimately show ?thesis by (simp split: prod.split)
  next
    case (Some r)
    obtain rest fs where r: "r = (rest, fs)" by fastforce
    have res: "mspResync (xs @ ys) = mspResync xs @ ys"
      using mspPass_length [OF Some] by (rule mspResync_found)
    have p: "mspPass (mspResync (xs @ ys)) = Some (rest @ ys, fs)"
      unfolding res using Some r by (intro mspPass_append) simp
    have e: "mspLoop xs = (case mspLoop rest of (s, gs) \<Rightarrow> (s, fs @ gs))"
      using Some r by (simp add: mspLoop.simps [of xs])
    have "mspLoop (xs @ ys) = (case mspLoop (rest @ ys) of (s, gs) \<Rightarrow> (s, fs @ gs))"
      using p by (simp add: mspLoop.simps [of "xs @ ys"])
    then show ?thesis using "1.IH" [OF Some r [symmetric]] e by (simp split: prod.splits)
  qed
qed

text \<open>The states a push leaves, and their bound.\<close>

definition msp_waiting :: "bytes \<Rightarrow> bool" where
  "msp_waiting buffer \<longleftrightarrow> mspLoop buffer = (buffer, [])"

lemma mspPush_waiting: "msp_waiting (fst (mspPush bs buffer))"
proof -
  have "msp_waiting (fst (mspLoop xs))" for xs
  proof (induction xs rule: mspLoop.induct)
    case (1 xs)
    show ?case
    proof (cases "mspPass (mspResync xs)")
      case None
      then have "mspLoop (mspResync xs) = (mspResync xs, [])" by (simp add: mspLoop.simps)
      then show ?thesis using None by (simp add: msp_waiting_def mspLoop.simps [of xs])
    next
      case (Some r)
      obtain rest fs where r: "r = (rest, fs)" by fastforce
      obtain s gs where "mspLoop rest = (s, gs)" by fastforce
      then show ?thesis using "1.IH" [OF Some r [symmetric]] Some r
        by (simp add: mspLoop.simps [of xs])
    qed
  qed
  then show ?thesis by (simp add: mspPush_def)
qed

lemma msp_waiting_bounded: "msp_waiting buffer \<Longrightarrow> length buffer < 261"
proof -
  assume w: "msp_waiting buffer"
  have "mspPass (mspResync buffer) = None"
  proof (rule ccontr)
    assume "mspPass (mspResync buffer) \<noteq> None"
    then obtain rest fs where s: "mspPass (mspResync buffer) = Some (rest, fs)" by fastforce
    have "length (fst (mspLoop xs)) \<le> length xs" for xs
    proof (induction xs rule: mspLoop.induct)
      case (1 xs)
      show ?case
      proof (cases "mspPass (mspResync xs)")
        case None
        then show ?thesis using length_mspResync [of xs] by (simp add: mspLoop.simps [of xs])
      next
        case (Some r)
        obtain rest fs where r: "r = (rest, fs)" by fastforce
        have "length rest \<le> length (mspResync xs)"
          using Some r by (auto simp: mspPass_def Let_def split: if_splits)
        then show ?thesis using "1.IH" [OF Some r [symmetric]] Some r length_mspResync [of xs]
          by (simp add: mspLoop.simps [of xs] split: prod.split) (metis fst_conv le_trans)
      qed
    qed
    from this [of rest] have "length (fst (mspLoop buffer)) < length buffer"
      using s length_mspResync [of buffer]
      by (auto simp: mspLoop.simps [of buffer] mspPass_def Let_def split: if_splits prod.split)
    then show False using w by (simp add: msp_waiting_def)
  qed
  then have r: "mspResync buffer = buffer" "mspPass buffer = None"
    using w by (auto simp: msp_waiting_def mspLoop.simps [of buffer])
  have "unat (buffer ! 3) < 256" using unsigned_less [of "buffer ! 3", where 'a = nat] by simp
  then show ?thesis using r(2) by (auto simp: mspPass_def Let_def split: if_splits)
qed

definition mspStep :: "byte \<Rightarrow> bytes \<Rightarrow> bytes \<times> msp_frame list" where
  "mspStep b buffer = mspLoop (buffer @ [b])"

fun mspSteps :: "bytes \<Rightarrow> bytes \<Rightarrow> bytes \<times> msp_frame list" where
  "mspSteps [] buffer = (buffer, [])"
| "mspSteps (b # bs) buffer =
     (let (buffer', out) = mspStep b buffer; (buffer'', out') = mspSteps bs buffer' in (buffer'', out @ out'))"

interpretation msp: stream_decoder mspStep mspSteps
  by unfold_locales simp_all

lemma mspPush_steps: "msp_waiting buffer \<Longrightarrow> mspPush bs buffer = mspSteps bs buffer"
proof (induction bs arbitrary: buffer)
  case Nil
  then show ?case by (simp add: mspPush_def msp_waiting_def)
next
  case (Cons b bs)
  obtain s out where s: "mspLoop (buffer @ [b]) = (s, out)" by fastforce
  have "msp_waiting s" using mspPush_waiting [of "[b]" buffer] s by (simp add: mspPush_def)
  then have "mspLoop (s @ bs) = mspSteps bs s" using Cons.IH by (simp add: mspPush_def)
  then show ?case using mspLoop_append [of "buffer @ [b]" bs] s
    by (simp add: mspPush_def mspStep_def split: prod.split)
qed

text \<open>Pushing chunk after chunk.\<close>

fun mspPushAll :: "bytes list \<Rightarrow> bytes \<Rightarrow> bytes \<times> msp_frame list" where
  "mspPushAll [] buffer = (buffer, [])"
| "mspPushAll (c # cs) buffer =
     (let (buffer', out) = mspPush c buffer; (buffer'', out') = mspPushAll cs buffer' in (buffer'', out @ out'))"

lemma mspPushAll_concat:
  assumes "msp_waiting buffer"
  shows "mspPushAll cs buffer = mspPush (concat cs) buffer"
proof -
  have "mspPushAll cs buffer = msp.pushAll cs buffer"
    using assms
  proof (induction cs arbitrary: buffer)
    case (Cons c cs)
    obtain s out where s: "mspSteps c buffer = (s, out)" by fastforce
    have "msp_waiting s"
      using mspPush_waiting [of c buffer] mspPush_steps [OF Cons.prems, of c] s by simp
    then show ?case using Cons.IH [of s] mspPush_steps [OF Cons.prems, of c] s by simp
  qed simp
  then show ?thesis using mspPush_steps [OF assms] by (simp add: msp.pushAll_concat)
qed

subsection \<open>What a board sends\<close>

text \<open>The frame of Betaflight's \<open>msp_serial.c\<close>, with its direction character.\<close>

definition msp_wire :: "byte \<Rightarrow> byte \<Rightarrow> bytes \<Rightarrow> bytes" where
  "msp_wire direction cmd payload =
     [0x24, 0x4D, direction, of_nat (length payload), cmd] @ payload @ [mspV1Checksum (uint cmd) payload]"

definition msp_received :: "byte \<Rightarrow> byte \<Rightarrow> bytes \<Rightarrow> msp_frame" where
  "msp_received direction cmd payload =
     \<lparr>mspCommand = uint cmd, mspPayload = payload, mspIsError = (direction = MSP_ERROR)\<rparr>"

lemma encodeMspV1Request_wire:
  "length payload \<le> 255 \<Longrightarrow>
   encodeMspV1Request (uint cmd) payload = Inr (msp_wire MSP_REQUEST cmd payload)"
  by (simp add: encodeMspV1Request_def msp_wire_def MSP_V1_MAX_PAYLOAD_def MSP_V1_MAGIC_def)

lemma mspResync_junk:
  "0x24 \<notin> set junk \<Longrightarrow> mspResync (junk @ 0x24 # 0x4D # bs) = 0x24 # 0x4D # bs"
proof (induction junk)
  case (Cons a junk)
  obtain b rest where "junk @ 0x24 # 0x4D # bs = b # rest" by (cases junk) auto
  moreover have "a \<noteq> 0x24" using Cons.prems by auto
  ultimately show ?case using Cons by (simp add: MSP_V1_MAGIC_def)
qed (simp add: MSP_V1_MAGIC_def)

lemma mspResync_only_junk: "0x24 \<notin> set junk \<Longrightarrow> length (mspResync junk) \<le> 1"
  by (induction junk rule: mspResync.induct) (auto simp: MSP_V1_MAGIC_def)

lemma mspPass_wire:
  assumes "length payload \<le> 255"
  shows "mspPass (msp_wire direction cmd payload @ bs) = Some (bs, [msp_received direction cmd payload])"
proof -
  have n: "unat (of_nat (length payload) :: byte) = length payload"
    using assms by (simp add: unat_of_nat_byte)
  show ?thesis
    unfolding mspPass_def msp_wire_def msp_received_def by (simp add: n nth_append Let_def eval_nat_numeral)
qed

lemma mspLoop_wire:
  assumes "length payload \<le> 255" "0x24 \<notin> set junk"
  shows "mspLoop (junk @ msp_wire direction cmd payload @ bs)
    = (case mspLoop bs of (s, out) \<Rightarrow> (s, msp_received direction cmd payload # out))"
proof -
  have "mspResync (junk @ msp_wire direction cmd payload @ bs) = msp_wire direction cmd payload @ bs"
    using mspResync_junk [OF assms(2)] by (simp add: msp_wire_def)
  then show ?thesis
    using mspPass_wire [OF assms(1)]
    by (simp add: mspLoop.simps [of "junk @ msp_wire direction cmd payload @ bs"])
qed

text \<open>A session as the board sees it: console text, a frame, console text, and so on.\<close>

record msp_spoken =
  spokenJunk :: bytes
  spokenDirection :: byte
  spokenCommand :: byte
  spokenPayload :: bytes

definition spoken_ok :: "msp_spoken \<Rightarrow> bool" where
  "spoken_ok s \<longleftrightarrow> 0x24 \<notin> set (spokenJunk s) \<and> length (spokenPayload s) \<le> 255"

definition spoken_bytes :: "msp_spoken \<Rightarrow> bytes" where
  "spoken_bytes s = spokenJunk s @ msp_wire (spokenDirection s) (spokenCommand s) (spokenPayload s)"

definition spoken_frame :: "msp_spoken \<Rightarrow> msp_frame" where
  "spoken_frame s = msp_received (spokenDirection s) (spokenCommand s) (spokenPayload s)"

lemma mspLoop_spoken:
  assumes "\<forall>s\<in>set ss. spoken_ok s" "0x24 \<notin> set junk"
  shows "mspLoop (concat (map spoken_bytes ss) @ junk) = (mspResync junk, map spoken_frame ss)"
  using assms(1)
proof (induction ss)
  case Nil
  have "mspPass (mspResync junk) = None"
    using mspResync_only_junk [OF assms(2)] by (simp add: mspPass_def)
  then show ?case by (simp add: mspLoop.simps [of junk])
next
  case (Cons s ss)
  then show ?case
    by (simp add: spoken_bytes_def spoken_frame_def spoken_ok_def mspLoop_wire)
qed

end
