(* ===== verification/Msp_Messages.thy ===== *)
theory Msp_Messages
  imports Msp_Codec
begin

unbundle bit_operations_syntax

text \<open>
  \<open>protocol-msp/src/messages.ts\<close>, the decoders of the replies the application reads, and the text
  functions of \<open>cli.ts\<close>, which make a file of a captured command. A string is its list of
  UTF-16 code units.
\<close>

subsection \<open>Replies\<close>

record msp_api_version =
  protocolVersion :: int
  apiMajor :: int
  apiMinor :: int

record msp_board_info =
  boardIdentifier :: js_text
  hardwareRevision :: int
  targetName :: "js_text option"
  boardName :: "js_text option"
  manufacturerId :: "js_text option"

record msp_serial_port =
  portIdentifier :: int
  functionMask :: int
  mspBaudIndex :: int
  gpsBaudIndex :: int
  telemetryBaudIndex :: int
  blackboxBaudIndex :: int

definition mspAscii :: "bytes \<Rightarrow> js_text" where
  "mspAscii bs = map unat (rev (dropWhile (\<lambda>b. b = 0) (rev bs)))"

definition decodeApiVersion :: "bytes \<Rightarrow> msp_api_version option" where
  "decodeApiVersion payload =
     (if length payload < 3 then None
      else Some \<lparr>protocolVersion = uint (payload ! 0), apiMajor = uint (payload ! 1), apiMinor = uint (payload ! 2)\<rparr>)"

definition decodeFcVariant :: "bytes \<Rightarrow> js_text option" where
  "decodeFcVariant payload = (if 4 \<le> length payload then Some (mspAscii (take 4 payload)) else None)"

text \<open>The dots are those of the template string.\<close>

definition decodeFcVersion :: "bytes \<Rightarrow> js_text option" where
  "decodeFcVersion payload =
     (if 3 \<le> length payload then
        Some (decimal (unat (payload ! 0)) @ [46] @ decimal (unat (payload ! 1)) @ [46] @ decimal (unat (payload ! 2)))
      else None)"

text \<open>\<open>readPrefixed\<close>: the cursor it shares with the other calls is an argument and a result.\<close>

definition readPrefixed :: "bytes \<Rightarrow> nat \<Rightarrow> js_text option \<times> nat" where
  "readPrefixed payload cursor =
     (if cursor \<ge> length payload then (None, cursor)
      else
        (let n = unat (payload ! cursor);
             cursor = cursor + 1
         in if n = 0 \<or> cursor + n > length payload then (None, cursor)
            else (Some (mspAscii (take n (drop cursor payload))), cursor + n)))"

definition decodeBoardInfo :: "bytes \<Rightarrow> msp_board_info option" where
  "decodeBoardInfo payload =
     (if length payload < 6 then None
      else
        (let (target, cursor) = readPrefixed payload 8;
             (board, cursor) = readPrefixed payload cursor;
             (manufacturer, cursor) = readPrefixed payload cursor
         in Some \<lparr>boardIdentifier = mspAscii (take 4 payload),
              hardwareRevision = uint (payload ! 4) OR push_bit 8 (uint (payload ! 5)),
              targetName = target, boardName = board, manufacturerId = manufacturer\<rparr>))"

definition "SERIAL_RECORD = (7 :: nat)"

definition serialPort :: "bytes \<Rightarrow> msp_serial_port" where
  "serialPort r =
     \<lparr>portIdentifier = uint (r ! 0), functionMask = uint (r ! 1) OR push_bit 8 (uint (r ! 2)),
      mspBaudIndex = uint (r ! 3), gpsBaudIndex = uint (r ! 4), telemetryBaudIndex = uint (r ! 5),
      blackboxBaudIndex = uint (r ! 6)\<rparr>"

function decodeSerialConfig :: "bytes \<Rightarrow> msp_serial_port list" where
  "decodeSerialConfig payload =
     (if SERIAL_RECORD \<le> length payload
      then serialPort payload # decodeSerialConfig (drop SERIAL_RECORD payload) else [])"
  by pat_completeness auto
termination by (relation "measure length") (auto simp: SERIAL_RECORD_def)

declare decodeSerialConfig.simps [simp del]

lemma length_decodeSerialConfig: "length (decodeSerialConfig payload) = length payload div 7"
proof (induction payload rule: decodeSerialConfig.induct)
  case (1 payload)
  show ?case
  proof (cases "7 \<le> length payload")
    case True
    then have "length payload div 7 = Suc ((length payload - 7) div 7)"
      using le_div_geq [of 7 "length payload"] by simp
    then show ?thesis using True 1
      by (subst decodeSerialConfig.simps) (simp add: SERIAL_RECORD_def)
  qed (subst decodeSerialConfig.simps, simp add: SERIAL_RECORD_def)
qed

text \<open>Port \<open>i\<close> is read from the seven bytes at offset \<open>7 i\<close>.\<close>

lemma decodeSerialConfig_nth:
  "i < length payload div 7 \<Longrightarrow> decodeSerialConfig payload ! i = serialPort (drop (7 * i) payload)"
proof (induction i arbitrary: payload)
  case 0
  then have "7 \<le> length payload" by (simp add: div_greater_zero_iff)
  then show ?case by (subst decodeSerialConfig.simps) (simp add: SERIAL_RECORD_def)
next
  case (Suc i)
  then have l: "7 \<le> length payload" by (cases "7 \<le> length payload") auto
  then have "i < length (drop 7 payload) div 7"
    using Suc.prems le_div_geq [of 7 "length payload"] by simp
  from Suc.IH [OF this] l show ?case
    by (subst decodeSerialConfig.simps) (simp add: SERIAL_RECORD_def add.commute)
qed

text \<open>A length-prefixed string that is there is read, and the cursor stops behind it.\<close>

lemma readPrefixed_present:
  assumes "0 < length s" "length s \<le> 255"
  shows "readPrefixed (pre @ of_nat (length s) # s @ rest) (length pre)
    = (Some (mspAscii s), length pre + 1 + length s)"
proof -
  have n: "unat (of_nat (length s) :: byte) = length s" using assms by (simp add: unat_of_nat_byte)
  show ?thesis using assms(1) by (simp add: readPrefixed_def n)
qed

text \<open>A board that names itself in full is read in full.\<close>

lemma decodeBoardInfo_full:
  assumes "length ident = 4" "\<And>s. s \<in> {t, b, m} \<Longrightarrow> 0 < length s \<and> length s \<le> 255"
  shows "decodeBoardInfo (ident @ [lo, hi, ty, cap] @ of_nat (length t) # t @ of_nat (length b) # b
        @ of_nat (length m) # m @ rest)
    = Some \<lparr>boardIdentifier = mspAscii ident, hardwareRevision = uint lo OR push_bit 8 (uint hi),
        targetName = Some (mspAscii t), boardName = Some (mspAscii b), manufacturerId = Some (mspAscii m)\<rparr>"
    (is "decodeBoardInfo ?p = _")
proof -
  have t: "readPrefixed ?p 8 = (Some (mspAscii t), 9 + length t)"
    using readPrefixed_present [of t "ident @ [lo, hi, ty, cap]"] assms by simp
  have b: "readPrefixed ?p (9 + length t) = (Some (mspAscii b), 10 + length t + length b)"
    using readPrefixed_present [of b "ident @ [lo, hi, ty, cap] @ of_nat (length t) # t"] assms by simp
  have m: "readPrefixed ?p (10 + length t + length b) = (Some (mspAscii m), 11 + length t + length b + length m)"
    using readPrefixed_present [of m "ident @ [lo, hi, ty, cap] @ of_nat (length t) # t @ of_nat (length b) # b"] assms
    by (simp add: add.assoc)
  show ?thesis unfolding decodeBoardInfo_def t b m Let_def prod.case
    using assms(1) by (simp add: nth_append)
qed

subsection \<open>Files of captured text\<close>

definition CLI_LINE_ENDING :: js_text where "CLI_LINE_ENDING = [13, 10]"

definition CLI_PROMPT :: js_text where "CLI_PROMPT = [35, 32]"

text \<open>\<open>raw.replace(/\r\n/g, '\n')\<close>, \<open>split('\n')\<close> and \<open>join\<close>.\<close>

fun crlfToLf :: "js_text \<Rightarrow> js_text" where
  "crlfToLf (a # b # cs) = (if a = 13 \<and> b = 10 then 10 # crlfToLf cs else a # crlfToLf (b # cs))"
| "crlfToLf cs = cs"

fun joinText :: "js_text \<Rightarrow> js_text list \<Rightarrow> js_text" where
  "joinText sep [] = []"
| "joinText sep [l] = l"
| "joinText sep (l # ls) = l @ sep @ joinText sep ls"

definition cliEcho :: "js_text \<Rightarrow> js_text \<Rightarrow> bool" where
  "cliEcho command l \<longleftrightarrow> jsTrim l = [] \<or> jsTrim l = command"

definition cliTail :: "js_text \<Rightarrow> bool" where
  "cliTail l \<longleftrightarrow> jsTrim l = [] \<or> jsTrim l = [35]"

definition cleanCliCapture :: "js_text \<Rightarrow> js_text \<Rightarrow> js_text" where
  "cleanCliCapture raw command =
     (let ls = splitWhere (\<lambda>c. c = 10) (crlfToLf raw);
          ls = dropWhile (cliEcho command) ls;
          ls = rev (dropWhile cliTail (rev ls))
      in joinText CLI_LINE_ENDING ls @ CLI_LINE_ENDING)"

definition endsWith :: "js_text \<Rightarrow> js_text \<Rightarrow> bool" where
  "endsWith e s \<longleftrightarrow> length e \<le> length s \<and> drop (length s - length e) s = e"

definition formatCliCaptureFile :: "js_text \<Rightarrow> js_text \<Rightarrow> js_text" where
  "formatCliCaptureFile cleaned command =
     (let body = (if endsWith CLI_LINE_ENDING cleaned then cleaned else cleaned @ CLI_LINE_ENDING)
      in CLI_PROMPT @ CLI_LINE_ENDING @ CLI_PROMPT @ command @ CLI_LINE_ENDING @ CLI_LINE_ENDING
        @ body @ CLI_LINE_ENDING @ CLI_PROMPT)"

text \<open>Lines without line ends survive joining and splitting.\<close>

definition line_ok :: "js_text \<Rightarrow> bool" where
  "line_ok l \<longleftrightarrow> 13 \<notin> set l \<and> 10 \<notin> set l"

lemma crlfToLf_line: "13 \<notin> set l \<Longrightarrow> crlfToLf (l @ 13 # 10 # cs) = l @ 10 # crlfToLf cs"
proof (induction l)
  case (Cons a l)
  then show ?case by (cases l) auto
qed simp

lemma crlfToLf_none: "13 \<notin> set l \<Longrightarrow> crlfToLf l = l"
  by (induction l rule: crlfToLf.induct) auto

lemma splitWhere_join:
  "ls \<noteq> [] \<Longrightarrow> \<forall>l\<in>set ls. line_ok l \<Longrightarrow> splitWhere (\<lambda>c. c = 10) (crlfToLf (joinText CLI_LINE_ENDING ls)) = ls"
proof (induction ls rule: induct_list012)
  case (3 l k ls)
  then have "\<forall>c\<in>set l. \<not> c = 10" by (auto simp: line_ok_def)
  with 3 show ?case
    by (simp add: CLI_LINE_ENDING_def line_ok_def crlfToLf_line splitWhere_piece [where sep = "\<lambda>c. c = 10"])
qed (auto simp: line_ok_def crlfToLf_none intro: splitWhere_none)

text \<open>What the board sent around its output is taken away, and nothing else.\<close>

lemma cleanCliCapture_body:
  assumes lines: "\<forall>l\<in>set (before @ body @ behind). line_ok l" and body: "body \<noteq> []"
    and echo: "\<forall>l\<in>set before. cliEcho command l" "\<not> cliEcho command (hd body)"
    and tail: "\<forall>l\<in>set behind. cliTail l" "\<not> cliTail (last body)"
  shows "cleanCliCapture (joinText CLI_LINE_ENDING (before @ body @ behind)) command
    = joinText CLI_LINE_ENDING body @ CLI_LINE_ENDING"
proof -
  obtain b bs where b: "body = b # bs" using body by (cases body) auto
  obtain cs c where c: "rev body = c # cs" using body by (cases "rev body") auto
  then have last: "last body = c" by (metis last_rev list.sel(1) rev_rev_ident body rev_is_Nil_conv last_snoc rev.simps(2))
  have "dropWhile (cliEcho command) (before @ body @ behind) = body @ behind"
    using echo b by (simp add: dropWhile_append2)
  moreover have "dropWhile cliTail (rev behind @ rev body) = rev body"
    unfolding c using tail last by (subst dropWhile_append2) simp_all
  ultimately show ?thesis
    using splitWhere_join [OF _ lines] body by (simp add: cleanCliCapture_def)
qed

text \<open>Cleaning what \<open>cleanCliCapture\<close> wrote into a file gives it back.\<close>

lemma formatCliCaptureFile_shape:
  "formatCliCaptureFile (b @ CLI_LINE_ENDING) command
    = CLI_PROMPT @ CLI_LINE_ENDING @ CLI_PROMPT @ command @ CLI_LINE_ENDING @ CLI_LINE_ENDING
      @ b @ CLI_LINE_ENDING @ CLI_LINE_ENDING @ CLI_PROMPT"
  by (simp add: formatCliCaptureFile_def endsWith_def)

end
