(* ===== verification/Msp_Session.thy ===== *)
theory Msp_Session
  imports Msp_Messages
begin

text \<open>
  \<open>protocol-msp/src/msp-session.ts\<close>: requests over the decoder, matched to replies by the
  command byte alone. A request that reaches the promise gets the next number; its waiter and
  its timer carry that number, as the closures of the code do. \<open>sessRequests\<close> remembers the
  commands asked and \<open>sessReplies\<close> how each promise was settled.
\<close>

subsection \<open>State\<close>

datatype msp_settled = Reply msp_frame | Reply_timeout int

record msp_session =
  sessBuffer :: bytes
  sessWaiters :: "int \<rightharpoonup> nat"
  sessTimers :: "nat \<rightharpoonup> int"
  sessReplies :: "nat \<rightharpoonup> msp_settled"
  sessRequests :: "int list"
  sessListeners :: nat
  sessUnsubscribe :: bool

definition newMspSession :: msp_session where
  "newMspSession = \<lparr>sessBuffer = [], sessWaiters = Map.empty, sessTimers = Map.empty,
     sessReplies = Map.empty, sessRequests = [], sessListeners = 0, sessUnsubscribe = False\<rparr>"

subsection \<open>Operations\<close>

text \<open>\<open>this.waiters.get(frame.command)?.(frame)\<close>.\<close>

definition mspDeliver :: "msp_frame \<Rightarrow> msp_session \<Rightarrow> msp_session" where
  "mspDeliver frame s =
     (case sessWaiters s (mspCommand frame) of
        None \<Rightarrow> s
      | Some i \<Rightarrow> s\<lparr>sessTimers := (sessTimers s)(i := None),
          sessWaiters := (sessWaiters s)(mspCommand frame := None),
          sessReplies := (sessReplies s)(i \<mapsto> Reply frame)\<rparr>)"

definition mspOnFrame :: "bytes \<Rightarrow> msp_session \<Rightarrow> msp_session" where
  "mspOnFrame chunk s =
     (let (buffer, frames) = mspPush chunk (sessBuffer s)
      in fold mspDeliver frames (s\<lparr>sessBuffer := buffer\<rparr>))"

text \<open>Every \<open>connect\<close> adds a listener; \<open>disconnect\<close> removes the last one added, if it is there.\<close>

definition mspConnect :: "msp_session \<Rightarrow> msp_session" where
  "mspConnect s = s\<lparr>sessListeners := sessListeners s + 1, sessUnsubscribe := True\<rparr>"

definition mspDisconnect :: "msp_session \<Rightarrow> msp_session" where
  "mspDisconnect s =
     s\<lparr>sessListeners := (if sessUnsubscribe s then sessListeners s - 1 else sessListeners s),
       sessUnsubscribe := False, sessWaiters := Map.empty, sessBuffer := []\<rparr>"

text \<open>The part of \<open>request\<close> before the frame is given to the transport: the frame, or the error
  the method throws. The waiter is there even when the encoder throws.\<close>

datatype msp_request_error = Already_in_flight int | Cannot_encode msp_encode_error

definition mspRequest :: "int \<Rightarrow> bytes \<Rightarrow> msp_session \<Rightarrow> msp_session \<times> (msp_request_error + bytes)" where
  "mspRequest command payload s =
     (if sessWaiters s command \<noteq> None then (s, Inl (Already_in_flight command))
      else
        (let i = length (sessRequests s);
             s = s\<lparr>sessRequests := sessRequests s @ [command],
                   sessTimers := (sessTimers s)(i \<mapsto> command),
                   sessWaiters := (sessWaiters s)(command \<mapsto> i)\<rparr>
         in (s, case encodeMspV1Request command payload of Inl e \<Rightarrow> Inl (Cannot_encode e) | Inr f \<Rightarrow> Inr f)))"

text \<open>The timer of request \<open>i\<close> fires.\<close>

definition mspTimer :: "nat \<Rightarrow> msp_session \<Rightarrow> msp_session" where
  "mspTimer i s =
     (case sessTimers s i of
        None \<Rightarrow> s
      | Some command \<Rightarrow> s\<lparr>sessTimers := (sessTimers s)(i := None),
          sessWaiters := (sessWaiters s)(command := None),
          sessReplies := (sessReplies s)(i \<mapsto> Reply_timeout command)\<rparr>)"

text \<open>\<open>await this.transport.send(\<dots>); return reply\<close>: \<open>None\<close> is still pending.\<close>

definition requestResult :: "('e + unit) option \<Rightarrow> msp_settled option \<Rightarrow> (('e + int) + msp_frame) option" where
  "requestResult sent reply =
     (case sent of
        None \<Rightarrow> None
      | Some (Inl e) \<Rightarrow> Some (Inl (Inl e))
      | Some (Inr _) \<Rightarrow> (case reply of
           None \<Rightarrow> None
         | Some (Reply_timeout command) \<Rightarrow> Some (Inl (Inr command))
         | Some (Reply frame) \<Rightarrow> Some (Inr frame)))"

subsection \<open>What is read over requests\<close>

record msp_identity =
  identVariant :: "js_text option"
  identVersion :: "js_text option"
  identApi :: "js_text option"
  identBoard :: "js_text option"
  identTarget :: "js_text option"
  identBoardName :: "js_text option"
  identManufacturer :: "js_text option"

definition tryRead :: "(int \<Rightarrow> 'e + msp_frame) \<Rightarrow> int \<Rightarrow> (bytes \<Rightarrow> 'a option) \<Rightarrow> 'a option" where
  "tryRead ask command decode =
     (case ask command of
        Inl e \<Rightarrow> None
      | Inr frame \<Rightarrow> if mspIsError frame then None else decode (mspPayload frame))"

text \<open>Each command is asked once, so the outcomes are a function of the command.\<close>

definition readIdentity :: "(int \<Rightarrow> 'e + msp_frame) \<Rightarrow> msp_identity" where
  "readIdentity ask =
     (let variant = tryRead ask MSP_FC_VARIANT decodeFcVariant;
          version = tryRead ask MSP_FC_VERSION decodeFcVersion;
          api = tryRead ask MSP_API_VERSION decodeApiVersion;
          board = tryRead ask MSP_BOARD_INFO decodeBoardInfo
      in \<lparr>identVariant = variant, identVersion = version,
           identApi = map_option (\<lambda>a. decimal (nat (apiMajor a)) @ [46] @ decimal (nat (apiMinor a))) api,
           identBoard = map_option boardIdentifier board,
           identTarget = Option.bind board targetName,
           identBoardName = Option.bind board boardName,
           identManufacturer = Option.bind board manufacturerId\<rparr>)"

definition readSerialConfig :: "('e + msp_frame) \<Rightarrow> 'e + msp_serial_port list" where
  "readSerialConfig answer =
     (case answer of
        Inl e \<Rightarrow> Inl e
      | Inr frame \<Rightarrow> Inr (if mspIsError frame then [] else decodeSerialConfig (mspPayload frame)))"

datatype 'e reboot_error = Reboot_request 'e | Reboot_refused | Reboot_other_mode byte

definition rebootToBootloader :: "(int \<Rightarrow> bytes \<Rightarrow> 'e + msp_frame) \<Rightarrow> 'e reboot_error option" where
  "rebootToBootloader ask =
     (case ask MSP_REBOOT [MSP_BOOTLOADER_ROM] of
        Inl e \<Rightarrow> Some (Reboot_request e)
      | Inr frame \<Rightarrow>
          if mspIsError frame then Some Reboot_refused
          else if 0 < length (mspPayload frame) \<and> mspPayload frame ! 0 \<noteq> MSP_BOOTLOADER_ROM
          then Some (Reboot_other_mode (mspPayload frame ! 0))
          else None)"

subsection \<open>Steps\<close>

datatype msp_event = Connect | Disconnect | Request int bytes | Chunk bytes | Timer nat

inductive msp_step :: "msp_session \<Rightarrow> msp_event \<Rightarrow> msp_session \<Rightarrow> bool" where
  connect: "msp_step s Connect (mspConnect s)"
| disconnect: "msp_step s Disconnect (mspDisconnect s)"
| request: "msp_step s (Request command payload) (fst (mspRequest command payload s))"
| chunk: "msp_step s (Chunk bs) ((mspOnFrame bs ^^ sessListeners s) s)"
| timer: "sessTimers s i = Some command \<Longrightarrow> msp_step s (Timer i) (mspTimer i s)"

inductive msp_reachable :: "msp_session \<Rightarrow> bool" where
  fresh: "msp_reachable newMspSession"
| more: "msp_reachable s \<Longrightarrow> msp_step s e s' \<Longrightarrow> msp_reachable s'"

inductive_cases msp_stepE: "msp_step s e s'"

subsection \<open>The invariant\<close>

definition msp_session_inv :: "msp_session \<Rightarrow> bool" where
  "msp_session_inv s \<longleftrightarrow>
     msp_waiting (sessBuffer s)
     \<and> (\<forall>c i. sessWaiters s c = Some i \<longrightarrow> sessTimers s i = Some c)
     \<and> (\<forall>i. sessTimers s i \<noteq> None \<longleftrightarrow> i < length (sessRequests s) \<and> sessReplies s i = None)
     \<and> (\<forall>i c. sessTimers s i = Some c \<longrightarrow> sessRequests s ! i = c)
     \<and> (\<forall>i f. sessReplies s i = Some (Reply f) \<longrightarrow> sessRequests s ! i = mspCommand f)
     \<and> (\<forall>i. length (sessRequests s) \<le> i \<longrightarrow> sessReplies s i = None)"

lemma msp_session_invD:
  assumes "msp_session_inv s"
  shows "msp_waiting (sessBuffer s)"
    and "sessWaiters s c = Some i \<Longrightarrow> sessTimers s i = Some c"
    and "sessTimers s i \<noteq> None \<longleftrightarrow> i < length (sessRequests s) \<and> sessReplies s i = None"
    and "sessTimers s i = Some c \<Longrightarrow> sessRequests s ! i = c"
    and "sessReplies s i = Some (Reply f) \<Longrightarrow> sessRequests s ! i = mspCommand f"
    and "length (sessRequests s) \<le> i \<Longrightarrow> sessReplies s i = None"
  using assms unfolding msp_session_inv_def by blast+

lemma msp_session_invI:
  assumes "msp_waiting (sessBuffer s)"
    and "\<And>c i. sessWaiters s c = Some i \<Longrightarrow> sessTimers s i = Some c"
    and "\<And>i. sessTimers s i \<noteq> None \<longleftrightarrow> i < length (sessRequests s) \<and> sessReplies s i = None"
    and "\<And>i c. sessTimers s i = Some c \<Longrightarrow> sessRequests s ! i = c"
    and "\<And>i f. sessReplies s i = Some (Reply f) \<Longrightarrow> sessRequests s ! i = mspCommand f"
    and "\<And>i. length (sessRequests s) \<le> i \<Longrightarrow> sessReplies s i = None"
  shows "msp_session_inv s"
  using assms unfolding msp_session_inv_def by blast

text \<open>A settled promise stays as it is.\<close>

definition settled_kept :: "msp_session \<Rightarrow> msp_session \<Rightarrow> bool" where
  "settled_kept s s' \<longleftrightarrow> (\<forall>i r. sessReplies s i = Some r \<longrightarrow> sessReplies s' i = Some r)
     \<and> (\<exists>more. sessRequests s' = sessRequests s @ more)"

lemma settled_kept_refl [simp]: "settled_kept s s"
  by (simp add: settled_kept_def)

lemma settled_kept_trans: "settled_kept s t \<Longrightarrow> settled_kept t u \<Longrightarrow> settled_kept s u"
  by (auto simp: settled_kept_def)

lemma msp_waiting_Nil [simp]: "msp_waiting []"
  by (simp add: msp_waiting_def mspLoop.simps [of "[]"] mspPass_def)

lemma mspDeliver_inv:
  assumes "msp_session_inv s"
  shows "msp_session_inv (mspDeliver frame s) \<and> settled_kept s (mspDeliver frame s)"
proof (cases "sessWaiters s (mspCommand frame)")
  case (Some i)
  have t: "sessTimers s i = Some (mspCommand frame)" using assms Some by (simp add: msp_session_inv_def)
  then have n: "i < length (sessRequests s)" "sessReplies s i = None"
    using assms unfolding msp_session_inv_def by (metis option.distinct(1))+
  have u: "c = mspCommand frame" if "sessWaiters s c = Some i" for c
    using msp_session_invD(2) [OF assms that] t by simp
  have e: "sessWaiters (mspDeliver frame s) = (sessWaiters s)(mspCommand frame := None)"
    "sessTimers (mspDeliver frame s) = (sessTimers s)(i := None)"
    "sessReplies (mspDeliver frame s) = (sessReplies s)(i \<mapsto> Reply frame)"
    "sessRequests (mspDeliver frame s) = sessRequests s" "sessBuffer (mspDeliver frame s) = sessBuffer s"
    using Some by (simp_all add: mspDeliver_def)
  have "msp_session_inv (mspDeliver frame s)"
    by (rule msp_session_invI; unfold e)
      (use n u t msp_session_invD [OF assms] in \<open>auto split: if_splits\<close>)
  moreover have "settled_kept s (mspDeliver frame s)"
    using Some n by (auto simp: settled_kept_def mspDeliver_def)
  ultimately show ?thesis ..
qed (use assms in \<open>simp add: mspDeliver_def\<close>)

lemma mspDelivers_inv:
  "msp_session_inv s \<Longrightarrow> msp_session_inv (fold mspDeliver frames s) \<and> settled_kept s (fold mspDeliver frames s)"
proof (induction frames arbitrary: s)
  case (Cons f fs)
  then show ?case using mspDeliver_inv [OF Cons.prems, of f] settled_kept_trans by fastforce
qed simp

lemma mspOnFrame_inv:
  assumes "msp_session_inv s"
  shows "msp_session_inv (mspOnFrame bs s) \<and> settled_kept s (mspOnFrame bs s)"
proof -
  obtain b fs where p: "mspPush bs (sessBuffer s) = (b, fs)" by fastforce
  have "msp_waiting b" using mspPush_waiting [of bs "sessBuffer s"] p by simp
  then have "msp_session_inv (s\<lparr>sessBuffer := b\<rparr>)"
    using assms by (simp add: msp_session_inv_def)
  from mspDelivers_inv [OF this, of fs] show ?thesis
    by (simp add: mspOnFrame_def p settled_kept_def)
qed

lemma mspOnFrames_inv:
  assumes "msp_session_inv s"
  shows "msp_session_inv ((mspOnFrame bs ^^ n) s) \<and> settled_kept s ((mspOnFrame bs ^^ n) s)"
proof (induction n)
  case (Suc n)
  then show ?case using mspOnFrame_inv [of "(mspOnFrame bs ^^ n) s" bs] settled_kept_trans by fastforce
qed (use assms in simp)

lemma mspRequest_inv:
  assumes "msp_session_inv s"
  shows "msp_session_inv (fst (mspRequest command payload s)) \<and> settled_kept s (fst (mspRequest command payload s))"
proof (cases "sessWaiters s command = None")
  case True
  then have "msp_session_inv (fst (mspRequest command payload s))"
    using assms unfolding msp_session_inv_def mspRequest_def
    by (auto simp: Let_def nth_append less_Suc_eq)
  then show ?thesis using True by (simp add: settled_kept_def mspRequest_def Let_def)
qed (use assms in \<open>simp add: mspRequest_def\<close>)

lemma mspTimer_inv:
  assumes "msp_session_inv s" "sessTimers s i = Some command"
  shows "msp_session_inv (mspTimer i s) \<and> settled_kept s (mspTimer i s)"
proof -
  have n: "i < length (sessRequests s)" "sessReplies s i = None"
    using assms unfolding msp_session_inv_def by (metis option.distinct(1))+
  have "msp_session_inv (mspTimer i s)"
    using assms n unfolding msp_session_inv_def mspTimer_def by auto
  then show ?thesis using assms n by (auto simp: settled_kept_def mspTimer_def)
qed

lemma msp_step_inv: "msp_step s e s' \<Longrightarrow> msp_session_inv s \<Longrightarrow> msp_session_inv s' \<and> settled_kept s s'"
proof (induction rule: msp_step.induct)
  case (connect s)
  then show ?case by (simp add: msp_session_inv_def mspConnect_def settled_kept_def)
next
  case (disconnect s)
  then show ?case by (simp add: msp_session_inv_def mspDisconnect_def settled_kept_def)
qed (simp_all add: mspRequest_inv mspOnFrames_inv mspTimer_inv)

lemma msp_reachable_inv: "msp_reachable s \<Longrightarrow> msp_session_inv s"
proof (induction rule: msp_reachable.induct)
  case fresh
  show ?case by (simp add: msp_session_inv_def newMspSession_def)
qed (use msp_step_inv in blast)

subsection \<open>Replies find their request\<close>

text \<open>The first frame that carries the command settles the waiting request.\<close>

lemma mspDelivers_settle:
  assumes "msp_session_inv s" "sessWaiters s c = Some i"
  shows "find (\<lambda>f. mspCommand f = c) fs = Some f \<Longrightarrow> sessReplies (fold mspDeliver fs s) i = Some (Reply f)"
  using assms
proof (induction fs arbitrary: s)
  case (Cons g gs)
  have k: "settled_kept (mspDeliver g s) (fold mspDeliver gs (mspDeliver g s))"
    and inv: "msp_session_inv (mspDeliver g s)"
    using mspDeliver_inv [OF Cons.prems(2), of g] mspDelivers_inv [of "mspDeliver g s" gs] by blast+
  show ?case
  proof (cases "mspCommand g = c")
    case True
    then have "sessReplies (mspDeliver g s) i = Some (Reply f)"
      using Cons.prems by (simp add: mspDeliver_def)
    then show ?thesis using k by (simp add: settled_kept_def)
  next
    case False
    then have "sessWaiters (mspDeliver g s) c = Some i"
      using Cons.prems(3) by (simp add: mspDeliver_def split: option.split)
    from Cons.IH [OF _ inv this] Cons.prems(1) False show ?thesis by simp
  qed
qed simp

lemma mspOnFrame_settles:
  assumes "msp_session_inv s" "sessWaiters s c = Some i"
    and "find (\<lambda>f. mspCommand f = c) (snd (mspPush bs (sessBuffer s))) = Some f"
  shows "sessReplies (mspOnFrame bs s) i = Some (Reply f)"
proof -
  obtain b fs where p: "mspPush bs (sessBuffer s) = (b, fs)" by fastforce
  have "msp_waiting b" using mspPush_waiting [of bs "sessBuffer s"] p by simp
  then have "msp_session_inv (s\<lparr>sessBuffer := b\<rparr>)"
    using assms(1) by (simp add: msp_session_inv_def)
  from mspDelivers_settle [OF this, of c i fs f] assms(2,3) show ?thesis
    by (simp add: mspOnFrame_def p)
qed

text \<open>A disconnect forgets the waiters and leaves the timers: the timer of a forgotten request
  takes the waiter of a later one, whose reply is then lost.\<close>

definition staleSession :: msp_session where
  "staleSession = fst (mspRequest MSP_UID [] (mspConnect (mspDisconnect
     (fst (mspRequest MSP_UID [] (mspConnect newMspSession))))))"

lemma stale_timer_drops_reply:
  "sessWaiters staleSession MSP_UID = Some 1"
  "sessReplies (mspOnFrame (msp_wire MSP_RESPONSE 160 [7]) (mspTimer 0 staleSession)) 1 = None"
  "sessReplies (mspOnFrame (msp_wire MSP_RESPONSE 160 [7]) staleSession) 1
    = Some (Reply (msp_received MSP_RESPONSE 160 [7]))"
proof -
  have p: "mspPush (msp_wire MSP_RESPONSE 160 [7]) [] = ([], [msp_received MSP_RESPONSE 160 [7]])"
    using mspLoop_wire [of "[7]" "[]" MSP_RESPONSE 160 "[]"] msp_waiting_Nil
    by (simp add: mspPush_def msp_waiting_def)
  note defs = staleSession_def mspRequest_def mspConnect_def mspDisconnect_def newMspSession_def
    mspTimer_def MSP_UID_def Let_def
  show "sessWaiters staleSession MSP_UID = Some 1" by (simp add: defs)
  show "sessReplies (mspOnFrame (msp_wire MSP_RESPONSE 160 [7]) (mspTimer 0 staleSession)) 1 = None"
    by (simp add: mspOnFrame_def defs p mspDeliver_def)
  show "sessReplies (mspOnFrame (msp_wire MSP_RESPONSE 160 [7]) staleSession) 1
    = Some (Reply (msp_received MSP_RESPONSE 160 [7]))"
    by (simp add: mspOnFrame_def defs p mspDeliver_def msp_received_def)
qed

end
