(* ===== verification/Msp_Cli.thy ===== *)
theory Msp_Cli
  imports Msp_Messages Io_Monad
begin

text \<open>
  \<open>captureCliCommand\<close> of \<open>protocol-msp/src/cli.ts\<close>: enter the command line of the board, run one
  command, and leave. The transport and \<open>Date.now()\<close> are an argument whose answers depend on
  the whole conversation; what arrives while the code waits is decoded and appended to the
  buffer, as the listener does. \<open>cliDecoder\<close> is the module's streaming \<open>TextDecoder\<close>.
\<close>

subsection \<open>Text in pieces\<close>

record text_stream =
  streamState :: utf8_state
  streamStarted :: bool

fun utf8_feed :: "utf8_state \<Rightarrow> nat list \<Rightarrow> utf8_state \<times> js_text" where
  "utf8_feed st [] = (st, [])"
| "utf8_feed st (b # bs) =
     (let (st', out) = utf8_byte st b; (st'', out') = utf8_feed st' bs in (st'', out @ out'))"

text \<open>\<open>decoder.decode(frame, { stream: true })\<close>: only the first code point of all can be a mark.\<close>

definition streamDecode :: "text_stream \<Rightarrow> bytes \<Rightarrow> text_stream \<times> js_text" where
  "streamDecode d bs =
     (let (u, out) = utf8_feed (streamState d) (map unat bs)
      in (\<lparr>streamState = u, streamStarted = streamStarted d \<or> out \<noteq> []\<rparr>,
          if streamStarted d then out else stripBom out))"

subsection \<open>The conversation\<close>

text \<open>What was sent, what failed to be sent, what was heard in the meantime, and the readings of
  the clock.\<close>

datatype cli_event = Cli_sent bytes | Cli_send_failed bytes | Cli_heard js_text | Cli_slept | Cli_time

type_synonym cli_history = "cli_event list"

record cli_link =
  linkSends :: "cli_history \<Rightarrow> bytes \<Rightarrow> string option"
  linkArrivals :: "cli_history \<Rightarrow> (int \<times> bytes) list"
  linkClock :: "cli_history \<Rightarrow> int"

record cli_state =
  cliHistory :: cli_history
  cliBuffer :: js_text
  cliLastByteAt :: int
  cliDecoder :: text_stream

datatype cli_goal = Prompt_seen | Gone_quiet int

datatype cli_error = Cli_rejected string | Cli_timeout cli_goal

type_synonym 'a cli = "(cli_state, cli_error, 'a) io"

definition cliFrame :: "int \<times> bytes \<Rightarrow> cli_state \<Rightarrow> cli_state" where
  "cliFrame frame st =
     (let (d, out) = streamDecode (cliDecoder st) (snd frame)
      in st\<lparr>cliDecoder := d, cliBuffer := cliBuffer st @ out, cliLastByteAt := fst frame,
            cliHistory := cliHistory st @ [Cli_heard out]\<rparr>)"

definition cliEvent :: "cli_event \<Rightarrow> cli_state \<Rightarrow> cli_state" where
  "cliEvent e st = st\<lparr>cliHistory := cliHistory st @ [e]\<rparr>"

text \<open>While the code awaits, the frames of the link arrive.\<close>

definition cliAwait :: "cli_link \<Rightarrow> cli_state \<Rightarrow> cli_state" where
  "cliAwait link st = fold cliFrame (linkArrivals link (cliHistory st)) st"

definition cliSend :: "cli_link \<Rightarrow> bytes \<Rightarrow> unit cli" where
  "cliSend link bs = (\<lambda>st. case linkSends link (cliHistory st) bs of
     None \<Rightarrow> Some (Inr (), cliAwait link (cliEvent (Cli_sent bs) st))
   | Some m \<Rightarrow> Some (Inl (Cli_rejected m), cliAwait link (cliEvent (Cli_send_failed bs) st)))"

definition cliNow :: "cli_link \<Rightarrow> int cli" where
  "cliNow link = (\<lambda>st. Some (Inr (linkClock link (cliHistory st)), cliEvent Cli_time st))"

definition cliSleep :: "cli_link \<Rightarrow> unit cli" where
  "cliSleep link = (\<lambda>st. Some (Inr (), cliAwait link (cliEvent Cli_slept st)))"

definition cliClear :: "unit cli" where
  "cliClear = (\<lambda>st. Some (Inr (), st\<lparr>cliBuffer := []\<rparr>))"

definition cliTouch :: "int \<Rightarrow> unit cli" where
  "cliTouch t = (\<lambda>st. Some (Inr (), st\<lparr>cliLastByteAt := t\<rparr>))"

definition cliRead :: "js_text cli" where
  "cliRead = (\<lambda>st. Some (Inr (cliBuffer st), st))"

subsection \<open>Waiting\<close>

text \<open>\<open>buffer.includes(CLI_PROMPT)\<close>.\<close>

fun textIncludes :: "js_text \<Rightarrow> js_text \<Rightarrow> bool" where
  "textIncludes w [] \<longleftrightarrow> w = []"
| "textIncludes w (c # cs) \<longleftrightarrow> take (length w) (c # cs) = w \<or> textIncludes w cs"

definition cliReached :: "cli_link \<Rightarrow> cli_goal \<Rightarrow> bool cli" where
  "cliReached link goal = (\<lambda>st. case goal of
     Prompt_seen \<Rightarrow> Some (Inr (textIncludes CLI_PROMPT (cliBuffer st)), st)
   | Gone_quiet quietMs \<Rightarrow>
       if length (cliBuffer st) > 0
       then bind_io (cliNow link) (\<lambda>t. return_io (t - cliLastByteAt st > quietMs)) st
       else Some (Inr False, st))"

partial_function (option) cliWait ::
  "cli_link \<Rightarrow> cli_goal \<Rightarrow> int \<Rightarrow> cli_state \<Rightarrow> ((cli_error + unit) \<times> cli_state) option" where
  "cliWait link goal deadline st =
     bind_io (cliReached link goal) (\<lambda>done st. if done then return_io () st
       else bind_io (cliNow link) (\<lambda>t st. if t > deadline then throw_io (Cli_timeout goal) st
              else bind_io (cliSleep link) (\<lambda>_. cliWait link goal deadline) st) st) st"

definition waitFor :: "cli_link \<Rightarrow> cli_goal \<Rightarrow> int \<Rightarrow> unit cli" where
  "waitFor link goal timeoutMs = bind_io (cliNow link) (\<lambda>t. cliWait link goal (t + timeoutMs))"

subsection \<open>The capture\<close>

definition CLI_ENTER :: bytes where "CLI_ENTER = encodeUtf8 [35]"

definition CLI_EXIT :: bytes where
  "CLI_EXIT = encodeUtf8 (map of_char ''exit noreboot'' @ [13, 10])"

definition cliCommand :: "js_text \<Rightarrow> bytes" where
  "cliCommand command = encodeUtf8 (command @ [13, 10])"

definition finally_io :: "('s, 'e, 'a) io \<Rightarrow> ('s, 'e, unit) io \<Rightarrow> ('s, 'e, 'a) io" where
  "finally_io m f =
     bind_io (try_io m) (\<lambda>r. then_io f (case r of Inl e \<Rightarrow> throw_io e | Inr x \<Rightarrow> return_io x))"

definition captureCliCommand :: "cli_link \<Rightarrow> js_text \<Rightarrow> int \<Rightarrow> int \<Rightarrow> int \<Rightarrow> js_text cli" where
  "captureCliCommand link command enterTimeoutMs captureTimeoutMs quietMs =
     then_io cliClear
    (then_io (bind_io (cliNow link) cliTouch)
    (finally_io
      (then_io cliClear
      (then_io (cliSend link CLI_ENTER)
      (then_io (waitFor link Prompt_seen enterTimeoutMs)
      (then_io cliClear
      (then_io (bind_io (cliNow link) cliTouch)
      (then_io (cliSend link (cliCommand command))
      (then_io (waitFor link (Gone_quiet quietMs) captureTimeoutMs)
        cliRead)))))))
      (catch_io (cliSend link CLI_EXIT) (\<lambda>_. return_io ()))))"

text \<open>The defaults of the options, and \<open>readCliDiff\<close> of the session.\<close>

definition readCliDiff :: "cli_link \<Rightarrow> js_text cli" where
  "readCliDiff link =
     bind_io (captureCliCommand link (map of_char ''diff'') 3000 15000 400)
       (\<lambda>raw. return_io (cleanCliCapture raw (map of_char ''diff'')))"

subsection \<open>What is written and what is heard\<close>

fun cliWrites :: "cli_history \<Rightarrow> bytes list" where
  "cliWrites [] = []"
| "cliWrites (Cli_sent bs # h) = bs # cliWrites h"
| "cliWrites (Cli_send_failed bs # h) = bs # cliWrites h"
| "cliWrites (_ # h) = cliWrites h"

fun cliHeard :: "cli_history \<Rightarrow> js_text" where
  "cliHeard [] = []"
| "cliHeard (Cli_heard t # h) = t @ cliHeard h"
| "cliHeard (_ # h) = cliHeard h"

lemma cliWrites_append [simp]: "cliWrites (g @ h) = cliWrites g @ cliWrites h"
  by (induction g rule: cliWrites.induct) simp_all

lemma cliHeard_append [simp]: "cliHeard (g @ h) = cliHeard g @ cliHeard h"
  by (induction g rule: cliHeard.induct) simp_all

text \<open>From \<open>s\<close> to \<open>t\<close> nothing was written, and the buffer grew by what was heard.\<close>

definition listened :: "cli_state \<Rightarrow> cli_state \<Rightarrow> cli_history \<Rightarrow> bool" where
  "listened s t tr \<longleftrightarrow> cliHistory t = cliHistory s @ tr \<and> cliWrites tr = [] \<and> cliBuffer t = cliBuffer s @ cliHeard tr"

definition only_listened :: "cli_state \<Rightarrow> cli_state \<Rightarrow> bool" where
  "only_listened s t \<longleftrightarrow> (\<exists>tr. listened s t tr)"

lemma only_listened_refl [simp]: "only_listened s s"
  by (auto simp: only_listened_def listened_def)

lemma only_listened_trans: "only_listened s t \<Longrightarrow> only_listened t u \<Longrightarrow> only_listened s u"
  unfolding only_listened_def listened_def by fastforce

lemma cliFrame_listened: "only_listened s (cliFrame f s)"
  by (auto simp: only_listened_def listened_def cliFrame_def split: prod.split)

lemma cliFrames_listened: "only_listened s (fold cliFrame fs s)"
proof (induction fs arbitrary: s)
  case (Cons f fs)
  show ?case using only_listened_trans [OF cliFrame_listened Cons.IH] by simp
qed simp

lemma cliAwait_listened: "only_listened s (cliAwait link s)"
  unfolding cliAwait_def by (rule cliFrames_listened)

lemma cliEvent_listened: "cliWrites [e] = [] \<Longrightarrow> cliHeard [e] = [] \<Longrightarrow> only_listened s (cliEvent e s)"
  by (auto simp: only_listened_def listened_def cliEvent_def)

lemma cliNow_listened: "cliNow link s = Some (r, t) \<Longrightarrow> only_listened s t"
  by (auto simp: cliNow_def intro: cliEvent_listened)

lemma cliSleep_listened: "cliSleep link s = Some (r, t) \<Longrightarrow> only_listened s t"
  by (auto simp: cliSleep_def intro!: only_listened_trans [OF cliEvent_listened cliAwait_listened])

lemma cliReached_listened: "cliReached link goal s = Some (r, t) \<Longrightarrow> only_listened s t"
  by (auto simp: cliReached_def bind_io_def return_io_def split: cli_goal.splits if_splits option.splits sum.splits
      dest: cliNow_listened)

definition goal_met :: "cli_goal \<Rightarrow> js_text \<Rightarrow> bool" where
  "goal_met goal heard = (case goal of Prompt_seen \<Rightarrow> textIncludes CLI_PROMPT heard | Gone_quiet _ \<Rightarrow> heard \<noteq> [])"

lemma cliReached_goal: "cliReached link goal s = Some (Inr True, t) \<Longrightarrow> goal_met goal (cliBuffer t)"
  by (auto simp: cliReached_def goal_met_def bind_io_def return_io_def cliNow_def cliEvent_def
      split: cli_goal.splits if_splits)

lemma cliWait_listened:
  assumes "cliWait link goal d s = Some y"
  shows "only_listened s (snd y) \<and> (fst y = Inr () \<longrightarrow> goal_met goal (cliBuffer (snd y)))"
proof (rule cliWait.raw_induct
    [OF _ assms, where P = "\<lambda>link goal d s y. only_listened s (snd y) \<and> (fst y = Inr () \<longrightarrow> goal_met goal (cliBuffer (snd y)))"])
  fix f :: "cli_link \<Rightarrow> cli_goal \<Rightarrow> int \<Rightarrow> unit cli" and link goal d s and y :: "(cli_error + unit) \<times> cli_state"
  assume IH: "\<And>link goal d s y. f link goal d s = Some y \<Longrightarrow>
    only_listened s (snd y) \<and> (fst y = Inr () \<longrightarrow> goal_met goal (cliBuffer (snd y)))"
  obtain r t where y: "y = (r, t)" by fastforce
  assume "bind_io (cliReached link goal) (\<lambda>done st. if done then return_io () st
       else bind_io (cliNow link) (\<lambda>t st. if t > d then throw_io (Cli_timeout goal) st
              else bind_io (cliSleep link) (\<lambda>_. f link goal d) st) st) s = Some y"
  from this [unfolded y bind_io_Some]
  show "only_listened s (snd y) \<and> (fst y = Inr () \<longrightarrow> goal_met goal (cliBuffer (snd y)))"
  proof (elim disjE exE conjE)
    fix x u
    assume x: "cliReached link goal s = Some (Inr x, u)"
      and run: "(if x then return_io () u else bind_io (cliNow link) (\<lambda>t st. if t > d then throw_io (Cli_timeout goal) st
              else bind_io (cliSleep link) (\<lambda>_. f link goal d) st) u) = Some (r, t)"
    note su = cliReached_listened [OF x]
    show ?thesis
    proof (cases x)
      case True
      then show ?thesis using run su cliReached_goal x by (auto simp: y return_io_def)
    next
      case False
      then obtain c v where c: "cliNow link u = Some (Inr c, v)"
        and run: "(if c > d then throw_io (Cli_timeout goal) v else bind_io (cliSleep link) (\<lambda>_. f link goal d) v) = Some (r, t)"
        using run by (auto simp: bind_io_def cliNow_def)
      note sv = only_listened_trans [OF su cliNow_listened [OF c]]
      show ?thesis
      proof (cases "c > d")
        case True
        then show ?thesis using run sv by (auto simp: y throw_io_def)
      next
        case False
        then obtain w where w: "cliSleep link v = Some (Inr (), w)" and f: "f link goal d w = Some (r, t)"
          using run by (auto simp: bind_io_def cliSleep_def)
        show ?thesis using IH [OF f] only_listened_trans [OF sv only_listened_trans [OF cliSleep_listened [OF w]]]
          by (simp add: y)
      qed
    qed
  qed (auto simp: y dest: cliReached_listened)
qed

lemma waitFor_listened:
  assumes "waitFor link goal ms s = Some (r, t)"
  shows "only_listened s t" and "r = Inr () \<Longrightarrow> goal_met goal (cliBuffer t)"
proof -
  from assms obtain c u where c: "cliNow link s = Some (Inr c, u)" and w: "cliWait link goal (c + ms) u = Some (r, t)"
    by (auto simp: waitFor_def bind_io_def cliNow_def)
  show "only_listened s t"
    using only_listened_trans [OF cliNow_listened [OF c]] cliWait_listened [OF w] by simp
  show "r = Inr () \<Longrightarrow> goal_met goal (cliBuffer t)" using cliWait_listened [OF w] by simp
qed

subsection \<open>One capture\<close>

text \<open>From \<open>s\<close> to \<open>t\<close> the events \<open>tr\<close> happened, among them the writes \<open>ws\<close>.\<close>

definition ran :: "cli_state \<Rightarrow> cli_state \<Rightarrow> bytes list \<Rightarrow> cli_history \<Rightarrow> bool" where
  "ran s t ws tr \<longleftrightarrow> cliHistory t = cliHistory s @ tr \<and> cliWrites tr = ws \<and> cliBuffer t = cliBuffer s @ cliHeard tr"

lemma ran_trans: "ran s t ws a \<Longrightarrow> ran t u vs b \<Longrightarrow> ran s u (ws @ vs) (a @ b)"
  by (simp add: ran_def)

lemma only_listened_ran: "only_listened s t \<Longrightarrow> \<exists>tr. ran s t [] tr"
  by (simp add: only_listened_def listened_def ran_def)

lemma cliSend_ran:
  assumes "cliSend link bs s = Some (r, t)"
  shows "\<exists>tr. ran s t [bs] tr"
proof -
  obtain e where e: "t = cliAwait link (cliEvent e s)" "e = Cli_sent bs \<or> e = Cli_send_failed bs"
    using assms by (auto simp: cliSend_def split: option.splits)
  obtain tr where "ran (cliEvent e s) t [] tr"
    using only_listened_ran [OF cliAwait_listened [of "cliEvent e s" link]] e(1) by blast
  then have "ran s t [bs] (e # tr)" using e(2) by (auto simp: ran_def cliEvent_def)
  then show ?thesis ..
qed

lemma then_io_cases:
  assumes "then_io m k s = Some (r, t)"
  obtains e where "m s = Some (Inl e, t)" "r = Inl e" | x u where "m s = Some (Inr x, u)" "k u = Some (r, t)"
  using assms by (auto simp: then_io_def bind_io_Some)

definition cliAsk :: "cli_link \<Rightarrow> js_text \<Rightarrow> int \<Rightarrow> int \<Rightarrow> js_text cli" where
  "cliAsk link command captureTimeoutMs quietMs =
     then_io cliClear
    (then_io (bind_io (cliNow link) cliTouch)
    (then_io (cliSend link (cliCommand command))
    (then_io (waitFor link (Gone_quiet quietMs) captureTimeoutMs)
      cliRead)))"

lemma cliAsk_ran:
  assumes "cliAsk link command tc q s = Some (r, t)"
  shows "\<exists>tr. cliHistory t = cliHistory s @ tr \<and> cliWrites tr = [cliCommand command]
    \<and> (\<forall>x. r = Inr x \<longrightarrow> x = cliHeard tr \<and> x \<noteq> [])"
proof -
  define s0 where "s0 = s\<lparr>cliBuffer := []\<rparr>"
  define s1 where "s1 = (cliEvent Cli_time s0)\<lparr>cliLastByteAt := linkClock link (cliHistory s0)\<rparr>"
  have s1: "ran s0 s1 [] [Cli_time]" by (simp add: s1_def ran_def cliEvent_def)
  have e: "then_io (cliSend link (cliCommand command))
      (then_io (waitFor link (Gone_quiet q) tc) cliRead) s1 = Some (r, t)"
    using assms by (simp add: cliAsk_def then_io_def bind_io_def cliClear_def cliNow_def cliTouch_def s0_def s1_def)
  have start: "cliHistory u = cliHistory s @ tr \<and> cliBuffer u = cliHeard tr \<and> cliWrites tr = ws" if "ran s0 u ws tr" for u ws tr
    using that by (simp add: ran_def s0_def)
  from e show ?thesis
  proof (cases rule: then_io_cases)
    case (1 e)
    with cliSend_ran [OF 1(1)] obtain a where "ran s1 t [cliCommand command] a" by blast
    from start [OF ran_trans [OF s1 this]] show ?thesis using 1(2) by (intro exI [of _ "[Cli_time] @ a"]) simp
  next
    case (2 x u)
    with cliSend_ran [OF 2(1)] obtain a where a: "ran s1 u [cliCommand command] a" by blast
    from 2(2) show ?thesis
    proof (cases rule: then_io_cases)
      case (1 e)
      with only_listened_ran [OF waitFor_listened(1) [OF 1(1)]] obtain b where "ran u t [] b" by blast
      from start [OF ran_trans [OF ran_trans [OF s1 a] this]] show ?thesis using 1(2)
        by (intro exI [of _ "([Cli_time] @ a) @ b"]) simp
    next
      case (2 y v)
      with only_listened_ran [OF waitFor_listened(1) [OF 2(1)]] obtain b where "ran u v [] b" by blast
      note v = start [OF ran_trans [OF ran_trans [OF s1 a] this]]
      have "goal_met (Gone_quiet q) (cliBuffer v)" using waitFor_listened(2) [OF 2(1)] by simp
      moreover have "t = v" "r = Inr (cliBuffer v)" using 2(2) by (auto simp: cliRead_def)
      ultimately show ?thesis using v
        by (intro exI [of _ "([Cli_time] @ a) @ b"]) (simp add: goal_met_def)
    qed
  qed
qed

text \<open>The body of the \<open>try\<close>.\<close>

definition cliEnterAndAsk :: "cli_link \<Rightarrow> js_text \<Rightarrow> int \<Rightarrow> int \<Rightarrow> int \<Rightarrow> js_text cli" where
  "cliEnterAndAsk link command te tc q =
     then_io cliClear
    (then_io (cliSend link CLI_ENTER)
    (then_io (waitFor link Prompt_seen te) (cliAsk link command tc q)))"

text \<open>What was written: the character that enters; and the command only after a prompt.\<close>

definition cli_asked :: "js_text \<Rightarrow> bytes list \<Rightarrow> cli_history \<Rightarrow> cli_error + js_text \<Rightarrow> bool" where
  "cli_asked command ws tr r \<longleftrightarrow>
     (isl r \<and> cliWrites tr = CLI_ENTER # ws)
     \<or> (\<exists>a b. tr = a @ b \<and> cliWrites a = [CLI_ENTER] \<and> textIncludes CLI_PROMPT (cliHeard a)
         \<and> cliWrites b = cliCommand command # ws
         \<and> (\<forall>x. r = Inr x \<longrightarrow> x \<noteq> [] \<and> (\<exists>y. cliHeard b = x @ y)))"

lemma cliEnterAndAsk_ran:
  assumes "cliEnterAndAsk link command te tc q s = Some (r, t)"
  shows "\<exists>tr. cliHistory t = cliHistory s @ tr \<and> cli_asked command [] tr r"
proof -
  define s0 where "s0 = s\<lparr>cliBuffer := []\<rparr>"
  have e: "then_io (cliSend link CLI_ENTER)
      (then_io (waitFor link Prompt_seen te) (cliAsk link command tc q)) s0 = Some (r, t)"
    using assms by (simp add: cliEnterAndAsk_def then_io_def bind_io_def cliClear_def s0_def)
  have start: "cliHistory u = cliHistory s @ tr \<and> cliBuffer u = cliHeard tr \<and> cliWrites tr = ws" if "ran s0 u ws tr" for u ws tr
    using that by (simp add: ran_def s0_def)
  from e show ?thesis
  proof (cases rule: then_io_cases)
    case (1 e)
    with cliSend_ran [OF 1(1)] obtain a where "ran s0 t [CLI_ENTER] a" by blast
    from start [OF this] show ?thesis using 1(2) by (auto simp: cli_asked_def)
  next
    case (2 x u)
    with cliSend_ran [OF 2(1)] obtain a where a: "ran s0 u [CLI_ENTER] a" by blast
    from 2(2) show ?thesis
    proof (cases rule: then_io_cases)
      case (1 e)
      with only_listened_ran [OF waitFor_listened(1) [OF 1(1)]] obtain b where "ran u t [] b" by blast
      from start [OF ran_trans [OF a this]] show ?thesis using 1(2) by (auto simp: cli_asked_def)
    next
      case (2 y v)
      with only_listened_ran [OF waitFor_listened(1) [OF 2(1)]] obtain b where "ran u v [] b" by blast
      note v = start [OF ran_trans [OF a this]]
      have g: "goal_met Prompt_seen (cliBuffer v)" using waitFor_listened(2) [OF 2(1)] by simp
      from cliAsk_ran [OF 2(2)] obtain c where c: "cliHistory t = cliHistory v @ c"
        "cliWrites c = [cliCommand command]" "\<forall>x. r = Inr x \<longrightarrow> x = cliHeard c \<and> x \<noteq> []" by blast
      have "cli_asked command [] ((a @ b) @ c) r"
        unfolding cli_asked_def using v g c by (intro disjI2 exI [of _ "a @ b"] exI [of _ c]) (simp add: goal_met_def)
      then show ?thesis using v c(1) by (intro exI [of _ "(a @ b) @ c"]) simp
    qed
  qed
qed

lemma captureCliCommand_stages:
  "captureCliCommand link command te tc q =
     then_io cliClear (then_io (bind_io (cliNow link) cliTouch)
       (finally_io (cliEnterAndAsk link command te tc q) (catch_io (cliSend link CLI_EXIT) (\<lambda>_. return_io ()))))"
  by (simp add: captureCliCommand_def cliEnterAndAsk_def cliAsk_def)

lemma captureCliCommand_ran:
  assumes "captureCliCommand link command te tc q s = Some (r, t)"
  shows "\<exists>tr. cliHistory t = cliHistory s @ tr \<and> cli_asked command [CLI_EXIT] tr r"
proof -
  define s1 where "s1 = (cliEvent Cli_time (s\<lparr>cliBuffer := []\<rparr>))\<lparr>cliLastByteAt := linkClock link (cliHistory s)\<rparr>"
  have "finally_io (cliEnterAndAsk link command te tc q) (catch_io (cliSend link CLI_EXIT) (\<lambda>_. return_io ())) s1 = Some (r, t)"
    using assms by (simp add: captureCliCommand_stages then_io_def bind_io_def cliClear_def cliNow_def cliTouch_def s1_def cliEvent_def)
  then obtain u where u: "cliEnterAndAsk link command te tc q s1 = Some (r, u)"
    and x: "\<exists>r'. cliSend link CLI_EXIT u = Some (r', t)"
    by (auto simp: finally_io_def bind_io_def then_io_def try_io_def catch_io_def return_io_def throw_io_def
        split: option.splits sum.splits)
  from cliEnterAndAsk_ran [OF u] obtain a where a: "cliHistory u = cliHistory s1 @ a" "cli_asked command [] a r" by blast
  from x cliSend_ran obtain b where b: "ran u t [CLI_EXIT] b" by blast
  have "cli_asked command [CLI_EXIT] (Cli_time # a @ b) r"
    using a(2) unfolding cli_asked_def
  proof (elim disjE exE conjE)
    fix c d
    assume "a = c @ d" "cliWrites c = [CLI_ENTER]" "textIncludes CLI_PROMPT (cliHeard c)"
      "cliWrites d = [cliCommand command]" "\<forall>x. r = Inr x \<longrightarrow> x \<noteq> [] \<and> (\<exists>y. cliHeard d = x @ y)"
    with b show "(isl r \<and> cliWrites (Cli_time # a @ b) = [CLI_ENTER, CLI_EXIT]) \<or>
      (\<exists>a' b'. Cli_time # a @ b = a' @ b' \<and> cliWrites a' = [CLI_ENTER] \<and> textIncludes CLI_PROMPT (cliHeard a')
         \<and> cliWrites b' = [cliCommand command, CLI_EXIT]
         \<and> (\<forall>x. r = Inr x \<longrightarrow> x \<noteq> [] \<and> (\<exists>y. cliHeard b' = x @ y)))"
      by (intro disjI2 exI [of _ "Cli_time # c"] exI [of _ "d @ b"]) (auto simp: ran_def)
  qed (use b in \<open>simp add: ran_def\<close>)
  moreover have "cliHistory t = cliHistory s @ Cli_time # a @ b"
    using a(1) b by (simp add: ran_def s1_def cliEvent_def)
  ultimately show ?thesis by blast
qed

subsection \<open>The capture ends\<close>

definition cli_ticking :: "cli_link \<Rightarrow> bool" where
  "cli_ticking link \<longleftrightarrow> clock_ticks length (linkClock link)"

lemma only_listened_longer: "only_listened s t \<Longrightarrow> length (cliHistory s) \<le> length (cliHistory t)"
  by (auto simp: only_listened_def listened_def)

lemma returns_cliReached [returns_rules]: "returns (cliReached link goal)"
  unfolding returns_def cliReached_def
  by (auto simp: bind_io_def cliNow_def return_io_def split: cli_goal.split)

lemma returns_cliWait [returns_rules]:
  assumes "cli_ticking link"
  shows "returns (cliWait link goal d)"
  unfolding returns_def
proof (rule allI, rule clock_ticks_polling
    [of "\<lambda>s. length (cliHistory s)" "\<lambda>s. linkClock link (cliHistory (snd (the (cliReached link goal s))))" _ d])
  obtain K c where K: "0 < K" "\<And>h. int (length h) \<le> K * (linkClock link h + c)"
    using assms by (auto simp: cli_ticking_def clock_ticks_def)
  have "int (length (cliHistory s)) \<le> K * (linkClock link (cliHistory (snd (the (cliReached link goal s)))) + c)" for s
  proof -
    obtain r t where t: "cliReached link goal s = Some (r, t)"
      using returns_cliReached [of link goal] by (fastforce simp: returns_def)
    from only_listened_longer [OF cliReached_listened [OF t]] K(2) [of "cliHistory t"] t show ?thesis by simp
  qed
  then show "clock_ticks (\<lambda>s. length (cliHistory s)) (\<lambda>s. linkClock link (cliHistory (snd (the (cliReached link goal s)))))"
    unfolding clock_ticks_def using K(1) by blast
next
  fix s assume none: "cliWait link goal d s = None"
  from none [unfolded cliWait.simps [of link goal d s]]
  obtain u v where u: "cliReached link goal s = Some (Inr False, u)"
    and t: "linkClock link (cliHistory u) \<le> d"
    and v: "cliSleep link (cliEvent Cli_time u) = Some (Inr (), v)" "cliWait link goal d v = None"
    by (auto simp del: not_None_eq split_paired_All simp: bind_io_None cliNow_def throw_io_def return_io_def cliSleep_def
        returns_not_None [OF returns_cliReached] split: if_splits)
  have "length (cliHistory s) < length (cliHistory v)"
    using only_listened_longer [OF cliReached_listened [OF u]] only_listened_longer [OF cliSleep_listened [OF v(1)]]
    by (simp add: cliEvent_def)
  then show "linkClock link (cliHistory (snd (the (cliReached link goal s)))) \<le> d
      \<and> (\<exists>t. length (cliHistory s) < length (cliHistory t) \<and> cliWait link goal d t = None)"
    using u t v(2) by auto
qed

lemma returns_cliPrimitives [returns_rules]:
  "returns (cliSend link bs)" "returns (cliNow link)" "returns cliClear" "returns (cliTouch n)" "returns cliRead"
  by (simp_all add: returns_def cliSend_def cliNow_def cliClear_def cliTouch_def cliRead_def split: option.split)

lemma returns_waitFor [returns_rules]: "cli_ticking link \<Longrightarrow> returns (waitFor link goal ms)"
  unfolding waitFor_def by (intro returns_rules)

lemma returns_finally [returns_rules]: "returns m \<Longrightarrow> returns f \<Longrightarrow> returns (finally_io m f)"
  unfolding finally_io_def by (intro returns_rules)

lemma returns_captureCliCommand: "cli_ticking link \<Longrightarrow> returns (captureCliCommand link command te tc q)"
  unfolding captureCliCommand_def by (intro returns_rules)

end
