(* ===== verification/Msp_Guarantees.thy ===== *)
theory Msp_Guarantees
  imports Msp_Session Msp_Cli
begin

text \<open>
  The properties of the MSP package: the stream decoder against what a board sends, the session
  that matches replies to requests, and the capture of a command's output.
\<close>

subsection \<open>The decoder\<close>

text \<open>C20 msp_stream_roundtrip: frames of any direction, command and payload of at most 255 bytes,
  with console text without a dollar sign before, between and after them, come out of the
  decoder exactly and in order, in whatever chunks the bytes arrive; at most one byte stays
  buffered. An encoded request is such a frame.\<close>

theorem msp_stream_roundtrip:
  assumes "\<forall>s\<in>set ss. spoken_ok s" and "0x24 \<notin> set junk"
    and "concat chunks = concat (map spoken_bytes ss) @ junk"
  shows "snd (mspPushAll chunks []) = map spoken_frame ss \<and> length (fst (mspPushAll chunks [])) \<le> 1
    \<and> (\<forall>s\<in>set ss. spokenDirection s = MSP_REQUEST \<longrightarrow>
        encodeMspV1Request (uint (spokenCommand s)) (spokenPayload s)
          = Inr (msp_wire (spokenDirection s) (spokenCommand s) (spokenPayload s)))"
  using encodeMspV1Request_wire mspPushAll_concat [OF msp_waiting_Nil, of chunks] mspLoop_spoken [OF assms(1,2)]
    mspResync_only_junk [OF assms(2)] assms
  by (simp add: mspPush_def spoken_ok_def)

definition spokenSample :: "msp_spoken list" where
  "spokenSample =
     [\<lparr>spokenJunk = [0x62, 0x6F, 0x6F, 0x74], spokenDirection = MSP_RESPONSE, spokenCommand = 2,
       spokenPayload = [0x42, 0x54, 0x46, 0x4C]\<rparr>,
      \<lparr>spokenJunk = [], spokenDirection = MSP_ERROR, spokenCommand = 68, spokenPayload = [0x24, 0x4D]\<rparr>]"

theorem msp_stream_roundtrip_witness:
  "snd (mspPushAll (map (\<lambda>b. [b]) (concat (map spoken_bytes spokenSample) @ [0x0D])) [])
     = map spoken_frame spokenSample"
  using msp_stream_roundtrip [of spokenSample "[0x0D]" "map (\<lambda>b. [b]) (concat (map spoken_bytes spokenSample) @ [0x0D])"]
  by (simp add: spokenSample_def spoken_ok_def)

subsection \<open>The session\<close>

text \<open>C18 msp_session_settles_requests: whatever connects, disconnects, requests, chunks and timers
  happened, a request is unsettled exactly while its timer is armed, so none waits for ever; a
  waiter belongs to an unsettled request for its command; a reply that settled a request
  carries its command; a settled request is never settled again; the first complete frame with
  a waiting command settles its request; and fewer than 261 bytes are buffered.\<close>

theorem msp_session_settles_requests:
  assumes "msp_reachable s"
  shows "length (sessBuffer s) < 261
    \<and> (\<forall>i<length (sessRequests s). sessReplies s i = None \<longleftrightarrow> sessTimers s i = Some (sessRequests s ! i))
    \<and> (\<forall>c i. sessWaiters s c = Some i \<longrightarrow> i < length (sessRequests s) \<and> sessRequests s ! i = c \<and> sessReplies s i = None)
    \<and> (\<forall>i f. sessReplies s i = Some (Reply f) \<longrightarrow> mspCommand f = sessRequests s ! i)
    \<and> (\<forall>e s' i r. msp_step s e s' \<longrightarrow> sessReplies s i = Some r \<longrightarrow> sessReplies s' i = Some r)
    \<and> (\<forall>bs c i f. sessWaiters s c = Some i \<longrightarrow> find (\<lambda>f. mspCommand f = c) (snd (mspPush bs (sessBuffer s))) = Some f
         \<longrightarrow> sessReplies (mspOnFrame bs s) i = Some (Reply f))"
proof (intro conjI allI impI)
  note inv = msp_reachable_inv [OF assms]
  note D = msp_session_invD [OF inv]
  show "length (sessBuffer s) < 261" using D(1) by (rule msp_waiting_bounded)
  show "sessReplies s i = None \<longleftrightarrow> sessTimers s i = Some (sessRequests s ! i)" if "i < length (sessRequests s)" for i
    using D(3) [of i] D(4) [of i] that by auto
  fix c i assume w: "sessWaiters s c = Some i"
  show "i < length (sessRequests s)" "sessReplies s i = None" "sessRequests s ! i = c"
    using D(2) [OF w] D(3) [of i] D(4) [of i c] by simp_all
next
  show "mspCommand f = sessRequests s ! i" if "sessReplies s i = Some (Reply f)" for i f
    using msp_session_invD(5) [OF msp_reachable_inv [OF assms] that] by simp
  show "sessReplies s' i = Some r" if "msp_step s e s'" "sessReplies s i = Some r" for e s' i r
    using msp_step_inv [OF that(1) msp_reachable_inv [OF assms]] that(2) by (simp add: settled_kept_def)
  show "sessReplies (mspOnFrame bs s) i = Some (Reply f)"
    if "sessWaiters s c = Some i" "find (\<lambda>f. mspCommand f = c) (snd (mspPush bs (sessBuffer s))) = Some f" for bs c i f
    using mspOnFrame_settles [OF msp_reachable_inv [OF assms] that] .
qed

lemma staleSession_reachable: "msp_reachable staleSession"
  unfolding staleSession_def
  by (intro msp_reachable.more [OF _ msp_step.request] msp_reachable.more [OF _ msp_step.connect]
      msp_reachable.more [OF _ msp_step.disconnect] msp_reachable.fresh)

theorem msp_session_settles_requests_witness:
  "sessReplies (mspOnFrame (msp_wire MSP_RESPONSE 160 [7]) staleSession) 1
    = Some (Reply (msp_received MSP_RESPONSE 160 [7]))"
proof -
  have b: "sessBuffer staleSession = []"
    by (simp add: staleSession_def mspRequest_def mspConnect_def mspDisconnect_def newMspSession_def Let_def)
  have "snd (mspPush (msp_wire MSP_RESPONSE 160 [7]) []) = [msp_received MSP_RESPONSE 160 [7]]"
    using mspLoop_wire [of "[7]" "[]" MSP_RESPONSE 160 "[]"] msp_waiting_Nil
    by (simp add: mspPush_def msp_waiting_def)
  then show ?thesis
    using msp_session_settles_requests [OF staleSession_reachable] stale_timer_drops_reply(1) b
    by (simp add: MSP_UID_def msp_received_def)
qed

subsection \<open>The command line\<close>

text \<open>C19 cli_capture_asks_after_prompt: with a clock that advances, a capture returns or throws,
  and what it wrote is either the character that enters the command line and the command that
  leaves it, without the question, and then it threw; or the entering character, then, after
  a prompt was heard, the question, and the leaving command last. What it returns is not empty
  and is what was heard after the question.\<close>

theorem cli_capture_asks_after_prompt:
  assumes "cli_ticking link"
  shows "\<exists>r t tr. captureCliCommand link command te tc q s = Some (r, t) \<and> cliHistory t = cliHistory s @ tr
    \<and> ((isl r \<and> cliWrites tr = [CLI_ENTER, CLI_EXIT])
      \<or> (\<exists>a b. tr = a @ b \<and> cliWrites a = [CLI_ENTER] \<and> textIncludes CLI_PROMPT (cliHeard a)
           \<and> cliWrites b = [cliCommand command, CLI_EXIT]
           \<and> (\<forall>x. r = Inr x \<longrightarrow> x \<noteq> [] \<and> (\<exists>y. cliHeard b = x @ y))))"
proof -
  obtain r t where run: "captureCliCommand link command te tc q s = Some (r, t)"
    using returns_captureCliCommand [OF assms] by (fastforce simp: returns_def)
  from captureCliCommand_ran [OF run] run show ?thesis unfolding cli_asked_def by blast
qed

definition quietLink :: cli_link where
  "quietLink = \<lparr>linkSends = \<lambda>h bs. None, linkArrivals = \<lambda>h. [(int (length h), [0x23, 0x20])],
     linkClock = \<lambda>h. int (length h)\<rparr>"

theorem cli_capture_asks_after_prompt_witness:
  "\<exists>r t tr. captureCliCommand quietLink [100] 3000 15000 400
       \<lparr>cliHistory = [], cliBuffer = [], cliLastByteAt = 0, cliDecoder = \<lparr>streamState = utf8_start, streamStarted = False\<rparr>\<rparr>
     = Some (r, t) \<and> cliHistory t = tr \<and> CLI_EXIT \<in> set (cliWrites tr)"
proof -
  have "cli_ticking quietLink"
    unfolding cli_ticking_def clock_ticks_def by (intro exI [of _ 1] exI [of _ 0] conjI) (simp_all add: quietLink_def)
  from cli_capture_asks_after_prompt [OF this, of "[100]" 3000 15000 400
      "\<lparr>cliHistory = [], cliBuffer = [], cliLastByteAt = 0, cliDecoder = \<lparr>streamState = utf8_start, streamStarted = False\<rparr>\<rparr>"]
  show ?thesis by (elim exE conjE disjE) (auto intro!: exI)
qed

end
