(* ===== verification/Dfu_Plan.thy ===== *)
theory Dfu_Plan
  imports Intel_Hex Bootloader
begin

unbundle bit_operations_syntax

text \<open>
  The planning part of \<open>firmware-flash/src/dfu.ts\<close>: the DfuSe memory layout, the sectors an image
  needs, the writes it is cut into, and where its application starts. Addresses of segments and
  sectors are not negative, as the Intel HEX parser makes them.
\<close>

subsection \<open>The memory layout\<close>

record dfu_sector =
  sectStart :: int
  sectSize :: nat
  sectReadable :: bool
  sectErasable :: bool
  sectWritable :: bool

definition sectEnd :: "dfu_sector \<Rightarrow> int" where
  "sectEnd s = sectStart s + int (sectSize s)"

text \<open>\<open>(\d+)\<close>: the longest run of digits, and \<open>Number.parseInt\<close> of it.\<close>

definition isDigit :: "nat \<Rightarrow> bool" where
  "isDigit c \<longleftrightarrow> 48 \<le> c \<and> c \<le> 57"

definition digitsValue :: "js_text \<Rightarrow> nat" where
  "digitsValue ds = fold (\<lambda>c n. n * 10 + (c - 48)) ds 0"

definition lowerCode :: "nat \<Rightarrow> nat" where
  "lowerCode c = (if 65 \<le> c \<and> c \<le> 90 then c + 32 else c)"

text \<open>One definition, \<open>/^(\d+)\*(\d+)([\sKMkm])([a-gA-G])?/\<close>: count, size and permission mask.\<close>

definition sectorDef :: "js_text \<Rightarrow> (nat \<times> nat \<times> nat) option" where
  "sectorDef def =
     (let count = takeWhile isDigit def; rest = dropWhile isDigit def
      in if count = [] \<or> rest = [] \<or> hd rest \<noteq> 42 then None
         else
           (let number = takeWhile isDigit (tl rest); rest = dropWhile isDigit (tl rest)
            in if number = [] \<or> rest = [] \<or> \<not> (jsSpace (hd rest) \<or> lowerCode (hd rest) \<in> {107, 109}) then None
               else
                 (let unit = lowerCode (hd rest);
                      size = digitsValue number * (if unit = 109 then 0x100000 else if unit = 107 then 0x400 else 1);
                      letter = tl rest;
                      mask = (if letter \<noteq> [] \<and> 97 \<le> lowerCode (hd letter) \<and> lowerCode (hd letter) \<le> 103
                              then (lowerCode (hd letter) - 0x60) mod 8 else 7)
                  in Some (digitsValue count, size, mask))))"

fun sectorRun :: "nat \<Rightarrow> nat \<Rightarrow> nat \<Rightarrow> int \<Rightarrow> dfu_sector list" where
  "sectorRun 0 len perms address = []"
| "sectorRun (Suc n) len perms address =
     \<lparr>sectStart = address, sectSize = len, sectReadable = (perms AND 1 \<noteq> 0),
      sectErasable = (perms AND 2 \<noteq> 0), sectWritable = (perms AND 4 \<noteq> 0)\<rparr>
     # sectorRun n len perms (address + int len)"

fun sectorDefs :: "js_text list \<Rightarrow> int \<Rightarrow> dfu_sector list" where
  "sectorDefs [] address = []"
| "sectorDefs (d # ds) address =
     (case sectorDef (jsTrim d) of
        None \<Rightarrow> sectorDefs ds address
      | Some (count, len, perms) \<Rightarrow>
          sectorRun count len perms address @ sectorDefs ds (address + int (count * len)))"

fun layoutTokens :: "js_text list \<Rightarrow> dfu_sector list" where
  "layoutTokens (a # d # ts) =
     (case parseIntHex a of
        None \<Rightarrow> layoutTokens ts
      | Some address \<Rightarrow> sectorDefs (splitWhere (\<lambda>c. c = 44) d) address @ layoutTokens ts)"
| "layoutTokens _ = []"

definition parseDfuSeMemoryLayout :: "js_text \<Rightarrow> dfu_sector list" where
  "parseDfuSeMemoryLayout name =
     (if name = [] \<or> hd name \<noteq> 64 then []
      else if 47 \<notin> set name then []
      else layoutTokens (filter (\<lambda>t. t \<noteq> [])
        (map jsTrim (splitWhere (\<lambda>c. c = 47) (dropWhile (\<lambda>c. c \<noteq> 47) name)))))"

subsection \<open>Sectors and segments\<close>

definition sectorTouches :: "dfu_sector \<Rightarrow> hex_segment \<Rightarrow> bool" where
  "sectorTouches sector segment \<longleftrightarrow>
     sectStart sector < segAddress segment + int (length (segData segment)) \<and> sectEnd sector > segAddress segment"

record protected_sector =
  protStart :: int
  protSize :: nat
  protErasable :: bool
  protWritable :: bool

definition findProtectedSectors :: "dfu_sector list \<Rightarrow> hex_segment list \<Rightarrow> protected_sector list" where
  "findProtectedSectors sectors segs =
     sort_key protStart
       (map (\<lambda>s. \<lparr>protStart = sectStart s, protSize = sectSize s, protErasable = sectErasable s,
           protWritable = sectWritable s\<rparr>)
         (filter (\<lambda>s. \<not> (sectErasable s \<and> sectWritable s) \<and> (\<exists>g\<in>set segs. sectorTouches s g)) sectors))"

definition sectorsToErase :: "dfu_sector list \<Rightarrow> hex_segment list \<Rightarrow> int list" where
  "sectorsToErase sectors segs =
     sort (remdups (concat (map (\<lambda>g. map sectStart (filter (\<lambda>s. sectorTouches s g) sectors)) segs)))"

subsection \<open>Chunks\<close>

record dfu_chunk =
  chunkAddress :: int
  chunkData :: bytes

definition chunkEnd :: "dfu_chunk \<Rightarrow> int" where
  "chunkEnd c = chunkAddress c + int (length (chunkData c))"

definition "FLASH_WORD_BYTES = (32 :: nat)"

definition segmentChunk :: "nat \<Rightarrow> hex_segment \<Rightarrow> int option \<Rightarrow> nat \<Rightarrow> dfu_chunk" where
  "segmentChunk transferSize segment next offset =
     (let data = slice offset (offset + transferSize) (segData segment);
          e = segAddress segment + int offset + int (length data);
          short = e mod int FLASH_WORD_BYTES;
          pad = (let word = int FLASH_WORD_BYTES - short; left = int transferSize - int (length data)
                 in case next of None \<Rightarrow> min word left | Some a \<Rightarrow> min word (min (a - e) left));
          data = (if offset + transferSize \<ge> length (segData segment) \<and> short \<noteq> 0 \<and> pad > 0
                  then data @ replicate (nat pad) 0xFF else data)
      in \<lparr>chunkAddress = segAddress segment + int offset, chunkData = data\<rparr>)"

text \<open>\<open>None\<close>: a transfer size of 0 never gets past the first offset.\<close>

partial_function (option) segmentChunks :: "nat \<Rightarrow> hex_segment \<Rightarrow> int option \<Rightarrow> nat \<Rightarrow> dfu_chunk list option" where
  "segmentChunks transferSize segment next offset =
     (if offset < length (segData segment)
      then Option.bind (segmentChunks transferSize segment next (offset + transferSize))
        (\<lambda>cs. Some (segmentChunk transferSize segment next offset # cs))
      else Some [])"

fun sortedChunks :: "nat \<Rightarrow> hex_segment list \<Rightarrow> dfu_chunk list option" where
  "sortedChunks transferSize [] = Some []"
| "sortedChunks transferSize (g # gs) =
     Option.bind (segmentChunks transferSize g (case gs of [] \<Rightarrow> None | g' # _ \<Rightarrow> Some (segAddress g')) 0)
       (\<lambda>cs. Option.bind (sortedChunks transferSize gs) (\<lambda>ds. Some (cs @ ds)))"

definition planDfuChunks :: "hex_segment list \<Rightarrow> nat \<Rightarrow> dfu_chunk list option" where
  "planDfuChunks segs transferSize = sortedChunks transferSize (sort_key segAddress segs)"

subsection \<open>The application\<close>

fun readWord :: "hex_segment list \<Rightarrow> int \<Rightarrow> int option" where
  "readWord [] address = None"
| "readWord (g # gs) address =
     (let offset = address - segAddress g
      in if offset \<ge> 0 \<and> offset + 4 \<le> int (length (segData g))
         then Some (int (fromLe32 (take 4 (drop (nat offset) (segData g)))))
         else readWord gs address)"

definition looksLikeVectorTable :: "hex_segment list \<Rightarrow> int \<Rightarrow> int \<Rightarrow> bool" where
  "looksLikeVectorTable segs address imageEnd =
     (case (readWord segs address, readWord segs (address + 4)) of
        (Some stack, Some reset) \<Rightarrow>
          (let ram = list_ex (\<lambda>base. stack > base \<and> stack \<le> base + 0x100000)
                 [0x10000000, 0x20000000, 0x24000000, 0x30000000];
               target = (if reset \<ge> 0x00200000 \<and> reset < 0x00400000
                         then reset - 0x00200000 + 0x08000000 else reset)
           in ram \<and> stack AND 3 = 0 \<and> reset AND 1 = 1 \<and> target > address \<and> target < imageEnd)
      | _ \<Rightarrow> False)"

definition imageStart :: "hex_segment list \<Rightarrow> int" where
  "imageStart segs = Min (set (map segAddress segs))"

definition imageEnd :: "hex_segment list \<Rightarrow> int" where
  "imageEnd segs = Max (set (map segEnd segs))"

definition findAppStart :: "hex_segment list \<Rightarrow> dfu_sector list \<Rightarrow> int option" where
  "findAppStart segs sectors =
     (if segs = [] then None
      else
        (case find (\<lambda>s. sectStart s > imageStart segs \<and> sectStart s < imageEnd segs
                  \<and> looksLikeVectorTable segs (sectStart s) (imageEnd segs)) sectors of
           Some s \<Rightarrow> Some (sectStart s)
         | None \<Rightarrow> if looksLikeVectorTable segs (imageStart segs) (imageEnd segs)
                   then Some (imageStart segs) else None))"

definition encodeCommand :: "byte \<Rightarrow> int \<Rightarrow> bytes" where
  "encodeCommand command address = command # le32 address"

definition bytesEqual :: "bytes \<Rightarrow> bytes \<Rightarrow> bool" where
  "bytesEqual got expected \<longleftrightarrow>
     \<not> length got < length expected \<and> list_all (\<lambda>i. got ! i = expected ! i) [0..<length expected]"

subsection \<open>What the plan covers\<close>

lemma bytesEqual_take: "bytesEqual got expected \<longleftrightarrow> length expected \<le> length got \<and> take (length expected) got = expected"
proof (cases "length expected \<le> length got")
  case True
  then have "take (length expected) got = expected \<longleftrightarrow> (\<forall>i<length expected. got ! i = expected ! i)"
    by (simp add: list_eq_iff_nth_eq)
  with True show ?thesis by (simp add: bytesEqual_def list_all_iff Ball_def)
qed (simp add: bytesEqual_def)

lemma findProtectedSectors_iff:
  "p \<in> set (findProtectedSectors sectors segs) \<longleftrightarrow>
     (\<exists>s\<in>set sectors. p = \<lparr>protStart = sectStart s, protSize = sectSize s, protErasable = sectErasable s,
        protWritable = sectWritable s\<rparr> \<and> \<not> (sectErasable s \<and> sectWritable s) \<and> (\<exists>g\<in>set segs. sectorTouches s g))"
  by (auto simp: findProtectedSectors_def)

lemma sectorsToErase_iff:
  "a \<in> set (sectorsToErase sectors segs) \<longleftrightarrow>
     (\<exists>s\<in>set sectors. a = sectStart s \<and> (\<exists>g\<in>set segs. sectorTouches s g))"
  by (auto simp: sectorsToErase_def)

text \<open>A sector that touches a segment shares an address with it, unless one of the two is empty.\<close>

lemma sectorTouches_iff:
  assumes "segData g \<noteq> []" "0 < sectSize s"
  shows "sectorTouches s g \<longleftrightarrow> (\<exists>x. sectStart s \<le> x \<and> x < sectEnd s \<and> segAddress g \<le> x \<and> x < segEnd g)"
proof
  assume "sectorTouches s g"
  then show "\<exists>x. sectStart s \<le> x \<and> x < sectEnd s \<and> segAddress g \<le> x \<and> x < segEnd g"
    using assms by (intro exI [of _ "max (sectStart s) (segAddress g)"])
      (auto simp: sectorTouches_def sectEnd_def segEnd_def)
qed (auto simp: sectorTouches_def sectEnd_def segEnd_def)

text \<open>The pieces of one segment, with a transfer size that is not 0.\<close>

function piecesFrom :: "nat \<Rightarrow> hex_segment \<Rightarrow> int option \<Rightarrow> nat \<Rightarrow> dfu_chunk list" where
  "piecesFrom transferSize g next offset =
     (if transferSize = 0 \<or> length (segData g) \<le> offset then []
      else segmentChunk transferSize g next offset # piecesFrom transferSize g next (offset + transferSize))"
  by pat_completeness auto
termination by (relation "measure (\<lambda>(n, g, x, offset). length (segData g) - offset)") auto

declare piecesFrom.simps [simp del]

lemma segmentChunks_pieces:
  "0 < transferSize \<Longrightarrow> segmentChunks transferSize g next offset = Some (piecesFrom transferSize g next offset)"
proof (induction transferSize g "next" offset rule: piecesFrom.induct)
  case (1 transferSize g "next" offset)
  show ?case
  proof (cases "length (segData g) \<le> offset")
    case True
    then show ?thesis by (simp add: segmentChunks.simps [of _ _ _ offset] piecesFrom.simps [of _ _ _ offset])
  next
    case False
    with 1 have "segmentChunks transferSize g next (offset + transferSize)
        = Some (piecesFrom transferSize g next (offset + transferSize))" by simp
    then show ?thesis using False "1.prems"
      by (simp add: segmentChunks.simps [of _ _ _ offset] piecesFrom.simps [of _ _ _ offset])
  qed
qed

fun allPieces :: "nat \<Rightarrow> hex_segment list \<Rightarrow> dfu_chunk list" where
  "allPieces transferSize [] = []"
| "allPieces transferSize (g # gs) =
     piecesFrom transferSize g (case gs of [] \<Rightarrow> None | g' # _ \<Rightarrow> Some (segAddress g')) 0 @ allPieces transferSize gs"

lemma planDfuChunks_Some:
  "0 < transferSize \<Longrightarrow> planDfuChunks segs transferSize = Some (allPieces transferSize (sort_key segAddress segs))"
proof -
  assume "0 < transferSize"
  then have "sortedChunks transferSize gs = Some (allPieces transferSize gs)" for gs
    by (induction gs) (simp_all add: segmentChunks_pieces)
  then show ?thesis by (simp add: planDfuChunks_def)
qed

text \<open>One piece: a slice of the segment, filled up with erased bytes in front of the next segment.\<close>

lemma segmentChunk_data:
  obtains k where "chunkData (segmentChunk ts g nx off) = slice off (off + ts) (segData g) @ replicate k 0xFF"
    and "int k \<le> int ts - int (length (slice off (off + ts) (segData g))) \<or> k = 0"
    and "\<And>a. nx = Some a \<Longrightarrow> k = 0 \<or> segAddress g + int off + int (length (slice off (off + ts) (segData g))) + int k \<le> a"
    and "off + ts < length (segData g) \<Longrightarrow> k = 0"
proof -
  define d where "d = slice off (off + ts) (segData g)"
  define e where "e = segAddress g + int off + int (length d)"
  define w where "w = int FLASH_WORD_BYTES - e mod int FLASH_WORD_BYTES"
  define l where "l = int ts - int (length d)"
  define pad where "pad = (case nx of None \<Rightarrow> min w l | Some a \<Rightarrow> min w (min (a - e) l))"
  define k where "k = (if off + ts \<ge> length (segData g) \<and> e mod int FLASH_WORD_BYTES \<noteq> 0 \<and> pad > 0 then nat pad else 0)"
  have pad: "k = 0 \<or> int k = pad" by (simp add: k_def)
  have "chunkData (segmentChunk ts g nx off) = d @ replicate k 0xFF"
    by (cases nx) (simp_all add: segmentChunk_def Let_def d_def e_def w_def l_def pad_def k_def del: length_slice cong: if_cong)
  moreover have "pad \<le> l" by (cases nx) (simp_all add: pad_def min.coboundedI2)
  then have "int k \<le> l \<or> k = 0" using pad by auto
  moreover have "k = 0 \<or> e + int k \<le> a" if "nx = Some a" for a using pad that by (auto simp: pad_def)
  moreover have "off + ts < length (segData g) \<Longrightarrow> k = 0" by (simp add: k_def)
  ultimately show thesis by (rule that [unfolded d_def [symmetric], folded e_def l_def])
qed

lemma segmentChunk_address [simp]: "chunkAddress (segmentChunk ts g nx off) = segAddress g + int off"
  by (simp add: segmentChunk_def Let_def)

lemma segmentChunk_length:
  assumes "off < length (segData g)" "0 < ts"
  shows "0 < length (chunkData (segmentChunk ts g nx off))" "length (chunkData (segmentChunk ts g nx off)) \<le> ts"
proof -
  obtain k where k: "chunkData (segmentChunk ts g nx off) = slice off (off + ts) (segData g) @ replicate k 0xFF"
    "int k \<le> int ts - int (length (slice off (off + ts) (segData g))) \<or> k = 0"
    by (rule segmentChunk_data)
  then show "0 < length (chunkData (segmentChunk ts g nx off))" "length (chunkData (segmentChunk ts g nx off)) \<le> ts"
    using assms by auto
qed

lemma segmentChunk_end:
  assumes "\<And>a. nx = Some a \<Longrightarrow> segEnd g \<le> a" "off < length (segData g)" "nx = Some a"
  shows "chunkEnd (segmentChunk ts g nx off) \<le> a"
proof -
  obtain k where k: "chunkData (segmentChunk ts g nx off) = slice off (off + ts) (segData g) @ replicate k 0xFF"
    "k = 0 \<or> segAddress g + int off + int (length (slice off (off + ts) (segData g))) + int k \<le> a"
    by (rule segmentChunk_data [of ts g nx off]) (use assms(3) in blast)
  have "segAddress g + int off + int (length (slice off (off + ts) (segData g))) \<le> segEnd g"
    using assms(2) by (simp add: segEnd_def slice_def)
  then show ?thesis using k assms(1) [OF assms(3)] by (auto simp: chunkEnd_def)
qed

lemma segmentChunk_inner:
  assumes "off + ts < length (segData g)"
  shows "chunkEnd (segmentChunk ts g nx off) = segAddress g + int (off + ts)"
proof -
  obtain k where "chunkData (segmentChunk ts g nx off) = slice off (off + ts) (segData g) @ replicate k 0xFF"
    "k = 0" by (rule segmentChunk_data [of ts g nx off]) (use assms in blast)
  then show ?thesis using assms by (simp add: chunkEnd_def slice_def)
qed

lemma piecesFrom_in:
  assumes "c \<in> set (piecesFrom ts g nx off)"
  obtains k where "off + k * ts < length (segData g)" "c = segmentChunk ts g nx (off + k * ts)"
  using assms
proof (induction ts g nx off arbitrary: thesis rule: piecesFrom.induct)
  case (1 ts g nx off)
  from "1.prems"(2) have n: "\<not> (ts = 0 \<or> length (segData g) \<le> off)"
    and c: "c = segmentChunk ts g nx off \<or> c \<in> set (piecesFrom ts g nx (off + ts))"
    by (auto simp: piecesFrom.simps [of ts g nx off] split: if_splits)
  from c show ?case
  proof
    assume "c = segmentChunk ts g nx off"
    then show ?thesis using n by (intro "1.prems"(1) [of 0]) simp_all
  next
    assume "c \<in> set (piecesFrom ts g nx (off + ts))"
    then obtain k where "off + ts + k * ts < length (segData g)" "c = segmentChunk ts g nx (off + ts + k * ts)"
      using "1.IH" [OF n] by blast
    then show ?thesis by (intro "1.prems"(1) [of "Suc k"]) (simp_all add: add.assoc)
  qed
qed

text \<open>Every byte of the segment is in a piece, at its address.\<close>

definition chunkHolds :: "dfu_chunk \<Rightarrow> int \<Rightarrow> byte \<Rightarrow> bool" where
  "chunkHolds c x b \<longleftrightarrow> chunkAddress c \<le> x \<and> x < chunkEnd c \<and> chunkData c ! nat (x - chunkAddress c) = b"

lemma segmentChunk_holds:
  assumes "off \<le> i" "i < off + ts" "i < length (segData g)"
  shows "chunkHolds (segmentChunk ts g nx off) (segAddress g + int i) (segData g ! i)"
proof -
  obtain k where k: "chunkData (segmentChunk ts g nx off) = slice off (off + ts) (segData g) @ replicate k 0xFF"
    by (rule segmentChunk_data)
  have "i - off < length (slice off (off + ts) (segData g))" using assms by simp linarith
  moreover have "slice off (off + ts) (segData g) ! (i - off) = segData g ! i"
    using assms by (simp add: slice_def)
  moreover have "nat (int i - int off) = i - off" using assms(1) by simp
  moreover have "i - off < ts" "i - off < length (segData g) - off" using assms by linarith+
  then have "int i < int off + (int (min ts (length (segData g) - off)) + int k)" using assms by linarith
  ultimately show ?thesis using assms(1) by (simp add: chunkHolds_def chunkEnd_def k nth_append)
qed

lemma piecesFrom_holds:
  "off \<le> i \<Longrightarrow> i < length (segData g) \<Longrightarrow> 0 < ts \<Longrightarrow>
   \<exists>c\<in>set (piecesFrom ts g nx off). chunkHolds c (segAddress g + int i) (segData g ! i)"
proof (induction ts g nx off rule: piecesFrom.induct)
  case (1 ts g nx off)
  then have n: "\<not> (ts = 0 \<or> length (segData g) \<le> off)" by simp
  show ?case
  proof (cases "i < off + ts")
    case True
    then show ?thesis using segmentChunk_holds [of off i ts g nx] "1.prems" n
      by (simp add: piecesFrom.simps [of ts g nx off])
  next
    case False
    then show ?thesis using "1.IH" [OF n] "1.prems" n by (simp add: piecesFrom.simps [of ts g nx off])
  qed
qed

text \<open>Image-wide.\<close>

lemma allPieces_holds:
  "g \<in> set gs \<Longrightarrow> i < length (segData g) \<Longrightarrow> 0 < ts \<Longrightarrow>
   \<exists>c\<in>set (allPieces ts gs). chunkHolds c (segAddress g + int i) (segData g ! i)"
proof (induction gs)
  case (Cons g' gs)
  show ?case
  proof (cases "g = g'")
    case True
    then show ?thesis using piecesFrom_holds [of 0 i g ts "case gs of [] \<Rightarrow> None | g' # _ \<Rightarrow> Some (segAddress g')"] Cons.prems
      by auto
  next
    case False
    then show ?thesis using Cons by auto
  qed
qed simp

lemma allPieces_in:
  "c \<in> set (allPieces ts gs) \<Longrightarrow>
   \<exists>g\<in>set gs. \<exists>nx k. k * ts < length (segData g) \<and> c = segmentChunk ts g nx (k * ts)"
proof (induction gs)
  case (Cons g gs)
  then show ?case
  proof (cases "c \<in> set (allPieces ts gs)")
    case False
    then have "c \<in> set (piecesFrom ts g (case gs of [] \<Rightarrow> None | g' # _ \<Rightarrow> Some (segAddress g')) 0)"
      using Cons.prems by simp
    then obtain k where "0 + k * ts < length (segData g)"
      "c = segmentChunk ts g (case gs of [] \<Rightarrow> None | g' # _ \<Rightarrow> Some (segAddress g')) (0 + k * ts)"
      by (rule piecesFrom_in)
    then show ?thesis by auto
  qed (use Cons in auto)
qed simp

end
