(* ===== verification/Dfu_Device.thy ===== *)
theory Dfu_Device
  imports Dfu_Plan
begin

text \<open>
  The device client \<open>DfuSeDevice\<close> of \<open>firmware-flash/src/dfu.ts\<close>. The USB interface and
  \<open>Date.now()\<close> are a \<open>dfu_usb\<close> record whose answers may depend on the whole conversation; a
  rejection is an error with the name and the message the code looks at. A progress callback is
  an event (its ratio and label are not modelled); \<open>progress\<close> says whether the caller passed
  one.
\<close>

subsection \<open>Constants\<close>

definition "DFU_DNLOAD = (1 :: nat)"
definition "DFU_UPLOAD = (2 :: nat)"
definition "DFU_GETSTATUS = (3 :: nat)"
definition "DFU_CLRSTATUS = (4 :: nat)"
definition "DFU_ABORT = (6 :: nat)"
definition "STATE_DFU_IDLE = (2 :: byte)"
definition "STATE_DFU_DNLOAD_SYNC = (3 :: byte)"
definition "STATE_DFU_DNBUSY = (4 :: byte)"
definition "STATE_DFU_DNLOAD_IDLE = (5 :: byte)"
definition "STATE_DFU_MANIFEST_SYNC = (6 :: byte)"
definition "STATE_DFU_MANIFEST = (7 :: byte)"
definition "STATE_DFU_ERROR = (10 :: byte)"
definition "STATUS_OK = (0 :: byte)"
definition "MAX_STATUS_STALLS = (3 :: nat)"
definition "STALL_BACKOFF_MS = (5 :: int)"
definition "MAX_CHUNK_ATTEMPTS = (3 :: nat)"
definition "ERASE_WEDGED_AFTER_MS = (10000 :: int)"
definition "DFUSE_SET_ADDRESS = (0x21 :: byte)"
definition "DFUSE_ERASE = (0x41 :: byte)"

subsection \<open>The link\<close>

record dfu_status =
  dfuStatus :: byte
  pollTimeoutMs :: int
  dfuState :: byte

datatype dfu_phase = Phase_erase | Phase_program | Phase_verify | Phase_manifest

datatype dfu_event =
    Usb_out nat int bytes | Usb_out_failed nat int bytes
  | Usb_in nat int bytes | Usb_in_failed nat int nat
  | Usb_slept int | Usb_time | Usb_progress dfu_phase

type_synonym dfu_history = "dfu_event list"

datatype dfu_error =
    Usb_error string string | Short_status | State_error byte byte | Stayed_busy
  | Verification_failed int | Short_upload nat nat int | Nothing_to_flash
  | Protected_sectors "protected_sector list" | Outside_memory_map | No_chunk

record dfu_usb =
  controlOut :: "dfu_history \<Rightarrow> nat \<Rightarrow> int \<Rightarrow> bytes \<Rightarrow> (string \<times> string) option"
  controlIn :: "dfu_history \<Rightarrow> nat \<Rightarrow> int \<Rightarrow> nat \<Rightarrow> (string \<times> string) + bytes"
  usbClock :: "dfu_history \<Rightarrow> int"

record dfu_device =
  devUsb :: dfu_usb
  devMemory :: "dfu_sector list"
  devTransferSize :: nat

type_synonym 'a dfu = "(dfu_history, dfu_error, 'a) io"

definition dfuOut :: "dfu_usb \<Rightarrow> nat \<Rightarrow> int \<Rightarrow> bytes \<Rightarrow> unit dfu" where
  "dfuOut usb request val data = (\<lambda>h. case controlOut usb h request val data of
     None \<Rightarrow> Some (Inr (), h @ [Usb_out request val data])
   | Some (name, message) \<Rightarrow> Some (Inl (Usb_error name message), h @ [Usb_out_failed request val data]))"

definition dfuIn :: "dfu_usb \<Rightarrow> nat \<Rightarrow> int \<Rightarrow> nat \<Rightarrow> bytes dfu" where
  "dfuIn usb request val len = (\<lambda>h. case controlIn usb h request val len of
     Inr got \<Rightarrow> Some (Inr got, h @ [Usb_in request val got])
   | Inl (name, message) \<Rightarrow> Some (Inl (Usb_error name message), h @ [Usb_in_failed request val len]))"

definition dfuSleep :: "int \<Rightarrow> unit dfu" where
  "dfuSleep ms = (\<lambda>h. Some (Inr (), h @ [Usb_slept ms]))"

definition dfuNow :: "dfu_usb \<Rightarrow> int dfu" where
  "dfuNow usb = (\<lambda>h. Some (Inr (usbClock usb h), h @ [Usb_time]))"

definition dfuReport :: "bool \<Rightarrow> dfu_phase \<Rightarrow> unit dfu" where
  "dfuReport progress phase = (\<lambda>h. Some (Inr (), if progress then h @ [Usb_progress phase] else h))"

text \<open>\<open>/\bstall\b/i\<close>, with the previous character's class.\<close>

definition wordCode :: "nat \<Rightarrow> bool" where
  "wordCode c \<longleftrightarrow> isDigit c \<or> (97 \<le> lowerCode c \<and> lowerCode c \<le> 122) \<or> c = 95"

fun hasWord :: "nat list \<Rightarrow> bool \<Rightarrow> nat list \<Rightarrow> bool" where
  "hasWord w after [] \<longleftrightarrow> False"
| "hasWord w after (c # cs) \<longleftrightarrow>
     (\<not> after \<and> take (length w) (c # cs) = w
        \<and> (drop (length w) (c # cs) = [] \<or> \<not> wordCode (hd (drop (length w) (c # cs)))))
     \<or> hasWord w (wordCode c) cs"

fun isStall :: "dfu_error \<Rightarrow> bool" where
  "isStall (Usb_error name message) \<longleftrightarrow>
     hasWord (map lowerAscii ''stall'') False (map lowerAscii message)
     \<or> name = ''NetworkError'' \<or> mentionsText ''transfer error has occurred'' message"
| "isStall _ \<longleftrightarrow> False"

fun isStateError :: "dfu_error \<Rightarrow> bool" where
  "isStateError (State_error _ _) \<longleftrightarrow> True"
| "isStateError _ \<longleftrightarrow> False"

subsection \<open>Status\<close>

definition getStatus :: "dfu_usb \<Rightarrow> dfu_status dfu" where
  "getStatus usb =
     bind_io (dfuIn usb DFU_GETSTATUS 0 6) (\<lambda>bs.
       if length bs < 6 then throw_io Short_status
       else return_io \<lparr>dfuStatus = bs ! 0,
         pollTimeoutMs = uint (bs ! 1) + uint (bs ! 2) * 2 ^ 8 + uint (bs ! 3) * 2 ^ 16, dfuState = bs ! 4\<rparr>)"

definition clearStatus :: "dfu_usb \<Rightarrow> unit dfu" where
  "clearStatus usb = dfuOut usb DFU_CLRSTATUS 0 []"

definition dfuAbort :: "dfu_usb \<Rightarrow> unit dfu" where
  "dfuAbort usb = dfuOut usb DFU_ABORT 0 []"

definition clearErrorState :: "dfu_usb \<Rightarrow> unit dfu" where
  "clearErrorState usb =
     bind_io (getStatus usb) (\<lambda>status.
     bind_io (if dfuState status = STATE_DFU_ERROR then then_io (clearStatus usb) (getStatus usb)
              else return_io status) (\<lambda>status.
       if dfuState status \<noteq> STATE_DFU_IDLE \<and> dfuState status \<noteq> STATE_DFU_DNLOAD_IDLE
       then dfuAbort usb else return_io ()))"

definition download :: "dfu_usb \<Rightarrow> int \<Rightarrow> bytes \<Rightarrow> unit dfu" where
  "download usb blockNumber data = dfuOut usb DFU_DNLOAD blockNumber data"

text \<open>\<open>stallsLeft\<close> counts \<open>MAX_STATUS_STALLS - stalls\<close>.\<close>

primrec getStatusTolerant :: "dfu_usb \<Rightarrow> nat \<Rightarrow> dfu_status dfu" where
  "getStatusTolerant usb 0 = getStatus usb"
| "getStatusTolerant usb (Suc stallsLeft) =
     catch_io (getStatus usb) (\<lambda>e.
       if \<not> isStall e then throw_io e
       else then_io (dfuSleep STALL_BACKOFF_MS) (getStatusTolerant usb stallsLeft))"

abbreviation statusTolerant :: "dfu_usb \<Rightarrow> dfu_status dfu" where
  "statusTolerant usb \<equiv> getStatusTolerant usb MAX_STATUS_STALLS"

datatype poll_kind = Poll_command | Poll_erase | Poll_mass_erase | Poll_block

definition busyState :: "byte \<Rightarrow> bool" where
  "busyState s \<longleftrightarrow> s = STATE_DFU_DNBUSY \<or> s = STATE_DFU_DNLOAD_SYNC \<or> s = STATE_DFU_MANIFEST_SYNC
     \<or> s = STATE_DFU_MANIFEST"

primrec unwedge :: "dfu_usb \<Rightarrow> nat \<Rightarrow> dfu_status dfu" where
  "unwedge usb 0 = throw_io Stayed_busy"
| "unwedge usb (Suc n) =
     then_io (clearStatus usb) (bind_io (statusTolerant usb) (\<lambda>status.
       if dfuState status = STATE_DFU_IDLE then return_io status else unwedge usb n))"

definition unwedgeAfterErase :: "dfu_usb \<Rightarrow> dfu_status dfu" where
  "unwedgeAfterErase usb = unwedge usb 2"

partial_function (option) pollLoop ::
  "dfu_usb \<Rightarrow> poll_kind \<Rightarrow> int \<Rightarrow> int \<Rightarrow> dfu_status \<Rightarrow> dfu_history \<Rightarrow> ((dfu_error + dfu_status) \<times> dfu_history) option" where
  "pollLoop usb kind started waitedMs status h =
     (if busyState (dfuState status)
      then bind_io (dfuNow usb) (\<lambda>t h.
        if kind = Poll_erase \<and> max waitedMs (t - started) \<ge> ERASE_WEDGED_AFTER_MS
           \<and> dfuState status = STATE_DFU_DNBUSY
        then unwedgeAfterErase usb h
        else bind_io (then_io (dfuSleep (max (pollTimeoutMs status) 1)) (statusTolerant usb))
               (pollLoop usb kind started (waitedMs + max (pollTimeoutMs status) 1)) h) h
      else if dfuStatus status \<noteq> STATUS_OK \<or> dfuState status = STATE_DFU_ERROR
      then throw_io (State_error (dfuStatus status) (dfuState status)) h
      else return_io status h)"

definition pollUntilIdle :: "dfu_usb \<Rightarrow> poll_kind \<Rightarrow> unit dfu" where
  "pollUntilIdle usb kind =
     bind_io (statusTolerant usb) (\<lambda>status.
     bind_io (dfuNow usb) (\<lambda>started.
     bind_io (pollLoop usb kind started 0 status) (\<lambda>_. return_io ())))"

definition recover :: "dfu_usb \<Rightarrow> unit dfu" where
  "recover usb =
     bind_io (statusTolerant usb) (\<lambda>status.
       if dfuState status = STATE_DFU_ERROR then clearStatus usb
       else if dfuState status \<noteq> STATE_DFU_IDLE then dfuAbort usb
       else return_io ())"

text \<open>The retry loops: \<open>n\<close> more attempts after this one.\<close>

primrec attempts :: "dfu_usb \<Rightarrow> (dfu_error \<Rightarrow> bool) \<Rightarrow> nat \<Rightarrow> 'a dfu \<Rightarrow> 'a dfu" where
  "attempts usb again 0 m = m"
| "attempts usb again (Suc n) m =
     catch_io m (\<lambda>e. if \<not> again e then throw_io e else then_io (recover usb) (attempts usb again n m))"

subsection \<open>Commands\<close>

definition setAddress :: "dfu_usb \<Rightarrow> int \<Rightarrow> unit dfu" where
  "setAddress usb address =
     then_io (download usb 0 (encodeCommand DFUSE_SET_ADDRESS address)) (pollUntilIdle usb Poll_command)"

definition eraseSector :: "dfu_usb \<Rightarrow> int \<Rightarrow> unit dfu" where
  "eraseSector usb address =
     attempts usb isStall (MAX_CHUNK_ATTEMPTS - 1)
       (then_io (download usb 0 (encodeCommand DFUSE_ERASE address)) (pollUntilIdle usb Poll_erase))"

definition massErase :: "dfu_usb \<Rightarrow> unit dfu" where
  "massErase usb = then_io (download usb 0 [DFUSE_ERASE]) (pollUntilIdle usb Poll_mass_erase)"

fun eachSector :: "dfu_usb \<Rightarrow> bool \<Rightarrow> int list \<Rightarrow> unit dfu" where
  "eachSector usb progress [] = return_io ()"
| "eachSector usb progress (a # as) =
     then_io (dfuReport progress Phase_erase) (then_io (eraseSector usb a) (eachSector usb progress as))"

definition eraseSectors :: "dfu_usb \<Rightarrow> bool \<Rightarrow> int list \<Rightarrow> unit dfu" where
  "eraseSectors usb progress starts =
     then_io (eachSector usb progress starts) (dfuReport progress Phase_erase)"

definition writeChunk :: "dfu_usb \<Rightarrow> dfu_chunk \<Rightarrow> unit dfu" where
  "writeChunk usb chunk =
     attempts usb (\<lambda>e. isStall e \<or> isStateError e) (MAX_CHUNK_ATTEMPTS - 1)
       (then_io (setAddress usb (chunkAddress chunk))
       (then_io (download usb 2 (chunkData chunk)) (pollUntilIdle usb Poll_block)))"

subsection \<open>Reading back\<close>

definition retryReads :: "dfu_usb \<Rightarrow> 'a dfu \<Rightarrow> 'a dfu" where
  "retryReads usb m = attempts usb isStall (MAX_CHUNK_ATTEMPTS - 1) m"

text \<open>The inner loop of \<open>verifyRun\<close>; what is left of the list stands for the index.\<close>

fun verifyBlocks :: "dfu_usb \<Rightarrow> nat \<Rightarrow> bool \<Rightarrow> int \<Rightarrow> dfu_chunk list \<Rightarrow> dfu_chunk list dfu" where
  "verifyBlocks usb transferSize progress block [] = return_io []"
| "verifyBlocks usb transferSize progress block (c # cs) =
     bind_io (dfuIn usb DFU_UPLOAD block (length (chunkData c))) (\<lambda>got.
       if \<not> bytesEqual got (chunkData c) then throw_io (Verification_failed (chunkAddress c))
       else then_io (dfuReport progress Phase_verify)
         (if cs = [] \<or> length (chunkData c) \<noteq> transferSize \<or> chunkAddress (hd cs) \<noteq> chunkEnd c
          then return_io cs
          else verifyBlocks usb transferSize progress (block + 1) cs))"

definition verifyRun :: "dfu_usb \<Rightarrow> nat \<Rightarrow> bool \<Rightarrow> dfu_chunk list \<Rightarrow> dfu_chunk list dfu" where
  "verifyRun usb transferSize progress chunks =
     catch_io
       (then_io (dfuAbort usb)
       (then_io (setAddress usb (chunkAddress (hd chunks)))
       (then_io (dfuAbort usb) (verifyBlocks usb transferSize progress 2 chunks))))
       (\<lambda>e. then_io (dfuReport progress Phase_verify) (throw_io e))"

partial_function (option) verifyChunks ::
  "dfu_usb \<Rightarrow> nat \<Rightarrow> bool \<Rightarrow> dfu_chunk list \<Rightarrow> dfu_history \<Rightarrow> ((dfu_error + unit) \<times> dfu_history) option" where
  "verifyChunks usb transferSize progress chunks h =
     (if chunks = [] then return_io () h
      else bind_io (retryReads usb (verifyRun usb transferSize progress chunks))
             (verifyChunks usb transferSize progress) h)"

partial_function (option) readBlocks ::
  "dfu_usb \<Rightarrow> nat \<Rightarrow> int \<Rightarrow> nat \<Rightarrow> int \<Rightarrow> nat \<Rightarrow> bytes \<Rightarrow> dfu_history \<Rightarrow> ((dfu_error + bytes) \<times> dfu_history) option" where
  "readBlocks usb transferSize address len block offset bs h =
     (if offset < len
      then bind_io (dfuIn usb DFU_UPLOAD block (min transferSize (len - offset))) (\<lambda>got h.
        if length got < min transferSize (len - offset)
        then throw_io (Short_upload (length got) (min transferSize (len - offset)) (address + int offset)) h
        else readBlocks usb transferSize address len (block + 1) (offset + transferSize)
               (put offset (take (min transferSize (len - offset)) got) bs) h) h
      else return_io bs h)"

definition readRange :: "dfu_usb \<Rightarrow> nat \<Rightarrow> int \<Rightarrow> nat \<Rightarrow> bytes dfu" where
  "readRange usb transferSize address len =
     then_io (dfuAbort usb)
    (then_io (setAddress usb address)
    (then_io (dfuAbort usb)
    (bind_io (readBlocks usb transferSize address len 2 0 (newBytes len)) (\<lambda>bs.
       then_io (dfuAbort usb) (return_io bs)))))"

text \<open>What the image would put into a sector.\<close>

definition overlay :: "dfu_sector \<Rightarrow> hex_segment \<Rightarrow> bytes \<Rightarrow> bytes" where
  "overlay sector segment expected =
     (let start = max (sectStart sector) (segAddress segment);
          stop = min (sectEnd sector) (segAddress segment + int (length (segData segment)))
      in if start < stop
         then put (nat (start - sectStart sector))
           (slice (nat (start - segAddress segment)) (nat (stop - segAddress segment)) (segData segment)) expected
         else expected)"

definition expectedSector :: "dfu_sector \<Rightarrow> hex_segment list \<Rightarrow> bytes" where
  "expectedSector sector segs = fold (overlay sector) segs (replicate (sectSize sector) 0xFF)"

fun unchangedSectors ::
  "dfu_usb \<Rightarrow> nat \<Rightarrow> int \<Rightarrow> hex_segment list \<Rightarrow> dfu_sector list \<Rightarrow> int list \<Rightarrow> int list dfu" where
  "unchangedSectors usb transferSize appStart segs [] kept = return_io kept"
| "unchangedSectors usb transferSize appStart segs (s # ss) kept =
     (if sectStart s < imageStart segs \<or> sectEnd s > appStart \<or> \<not> sectReadable s
      then unchangedSectors usb transferSize appStart segs ss kept
      else bind_io (retryReads usb (readRange usb transferSize (sectStart s) (sectSize s))) (\<lambda>actual.
        unchangedSectors usb transferSize appStart segs ss
          (if bytesEqual actual (expectedSector s segs) then kept @ [sectStart s] else kept)))"

definition unchangedSectorsBelow :: "dfu_device \<Rightarrow> int \<Rightarrow> hex_segment list \<Rightarrow> int list dfu" where
  "unchangedSectorsBelow dev appStart segs =
     unchangedSectors (devUsb dev) (devTransferSize dev) appStart segs (devMemory dev) []"

subsection \<open>flash\<close>

definition inKeptSector :: "dfu_sector list \<Rightarrow> int list \<Rightarrow> int \<Rightarrow> bool" where
  "inKeptSector memory kept address \<longleftrightarrow>
     list_ex (\<lambda>s. sectStart s \<in> set kept \<and> address \<ge> sectStart s \<and> address < sectEnd s) memory"

text \<open>Step 1.\<close>

definition flashErase :: "dfu_device \<Rightarrow> bool \<Rightarrow> bool \<Rightarrow> int list \<Rightarrow> hex_segment list \<Rightarrow> unit dfu" where
  "flashErase dev progress fullErase kept segs =
     (let usb = devUsb dev; memory = devMemory dev;
          wholeChip = then_io (dfuReport progress Phase_erase)
            (then_io (massErase usb) (dfuReport progress Phase_erase))
      in if fullErase then
           (if memory \<noteq> [] then
              eraseSectors usb progress
                (map sectStart (filter (\<lambda>s. sectEnd s > imageStart segs \<and> sectStart s \<notin> set kept) memory))
            else wholeChip)
         else if memory = [] then wholeChip
         else
           (let touched = sectorsToErase memory segs
            in if touched = [] then throw_io Outside_memory_map
               else eraseSectors usb progress (filter (\<lambda>a. a \<notin> set kept) touched)))"

text \<open>The held first flash word, and all other writes.\<close>

definition splitHeld :: "int option \<Rightarrow> dfu_chunk list \<Rightarrow> (dfu_chunk \<times> dfu_chunk list) option" where
  "splitHeld appStart chunks =
     (if chunks = [] then None
      else
        (let isFirst = (\<lambda>c. Some (chunkAddress c) = appStart);
             before = (if list_ex isFirst chunks then takeWhile (\<lambda>c. \<not> isFirst c) chunks else []);
             first = chunks ! length before;
             behind = drop (Suc (length before)) chunks;
             tail = (if length (chunkData first) > FLASH_WORD_BYTES
               then [\<lparr>chunkAddress = chunkAddress first + int FLASH_WORD_BYTES,
                      chunkData = drop FLASH_WORD_BYTES (chunkData first)\<rparr>] else [])
         in Some (\<lparr>chunkAddress = chunkAddress first, chunkData = take FLASH_WORD_BYTES (chunkData first)\<rparr>,
                  before @ tail @ behind)))"

fun writeAll :: "dfu_usb \<Rightarrow> bool \<Rightarrow> dfu_chunk list \<Rightarrow> unit dfu" where
  "writeAll usb progress [] = return_io ()"
| "writeAll usb progress (c # cs) =
     then_io (writeChunk usb c) (then_io (dfuReport progress Phase_program) (writeAll usb progress cs))"

text \<open>Steps 2 and 3.\<close>

definition flashProgram :: "dfu_device \<Rightarrow> bool \<Rightarrow> dfu_chunk \<Rightarrow> dfu_chunk list \<Rightarrow> unit dfu" where
  "flashProgram dev progress held rest =
     (let usb = devUsb dev; transferSize = devTransferSize dev
      in then_io (writeAll usb progress rest)
        (then_io (verifyChunks usb transferSize progress rest)
        (then_io (dfuReport progress Phase_verify)
        (then_io (writeChunk usb held)
          (verifyChunks usb transferSize progress [held])))))"

text \<open>Step 4: whatever the board answers while it leaves is ignored.\<close>

definition flashLeave :: "dfu_usb \<Rightarrow> bool \<Rightarrow> int \<Rightarrow> unit dfu" where
  "flashLeave usb progress address =
     then_io (dfuReport progress Phase_manifest)
    (then_io
       (catch_io
          (then_io (setAddress usb address)
          (then_io (download usb 0 []) (bind_io (getStatus usb) (\<lambda>_. return_io ()))))
          (\<lambda>_. return_io ()))
       (dfuReport progress Phase_manifest))"

definition never_io :: "('s, 'e, 'a) io" where
  "never_io = (\<lambda>_. None)"

definition dfuFlash :: "dfu_device \<Rightarrow> hex_segment list \<Rightarrow> bool \<Rightarrow> bool \<Rightarrow> bool \<Rightarrow> unit dfu" where
  "dfuFlash dev segs progress fullErase allowProtected =
     (let usb = devUsb dev; memory = devMemory dev;
          blocked = findProtectedSectors memory segs;
          appStart = findAppStart segs memory
      in if segs = [] then throw_io Nothing_to_flash
         else if \<not> allowProtected \<and> blocked \<noteq> [] then throw_io (Protected_sectors blocked)
         else then_io (clearErrorState usb)
           (bind_io
             (case appStart of
                None \<Rightarrow> return_io []
              | Some a \<Rightarrow>
                  if a > imageStart segs \<and> memory \<noteq> []
                  then then_io (dfuReport progress Phase_erase) (unchangedSectorsBelow dev a segs)
                  else return_io [])
             (\<lambda>kept. then_io (flashErase dev progress fullErase kept segs)
               (case planDfuChunks segs (devTransferSize dev) of
                  None \<Rightarrow> never_io
                | Some chunks \<Rightarrow>
                    (case splitHeld appStart (filter (\<lambda>c. \<not> inKeptSector memory kept (chunkAddress c)) chunks) of
                       None \<Rightarrow> throw_io No_chunk
                     | Some (held, rest) \<Rightarrow>
                         then_io (flashProgram dev progress held rest)
                           (flashLeave usb progress (segAddress (hd segs))))))))"

end
