(* ===== verification/Dfu_Trace.thy ===== *)
theory Dfu_Trace
  imports Dfu_Device
begin

text \<open>
  What a conversation does to the flash. DfuSe (ST AN3156) addresses a block \<open>n \<ge> 2\<close> at the
  address pointer plus \<open>(n - 2)\<close> transfer sizes; the pointer is set by command \<open>0x21\<close>. The events
  of a conversation are read as erases, writes and reads of addresses; a write that was refused
  counts as a write, since it may have reached the flash.
\<close>

subsection \<open>Acts\<close>

datatype dfu_act = Act_erase int | Act_mass_erase | Act_write int bytes | Act_read int bytes

definition commandAct :: "bytes \<Rightarrow> int \<Rightarrow> int \<times> dfu_act list" where
  "commandAct data p =
     (if length data = 5 \<and> data ! 0 = DFUSE_SET_ADDRESS then (int (fromLe32 (tl data)), [])
      else if length data = 5 \<and> data ! 0 = DFUSE_ERASE then (p, [Act_erase (int (fromLe32 (tl data)))])
      else if data = [DFUSE_ERASE] then (p, [Act_mass_erase])
      else (p, []))"

definition outAct :: "nat \<Rightarrow> nat \<Rightarrow> int \<Rightarrow> bytes \<Rightarrow> int \<Rightarrow> int \<times> dfu_act list" where
  "outAct ts request val data p =
     (if request \<noteq> DFU_DNLOAD then (p, [])
      else if val = 0 then commandAct data p
      else if val \<ge> 2 then (p, [Act_write (p + (val - 2) * int ts) data])
      else (p, []))"

fun eventAct :: "nat \<Rightarrow> dfu_event \<Rightarrow> int \<Rightarrow> int \<times> dfu_act list" where
  "eventAct ts (Usb_out request val data) p = outAct ts request val data p"
| "eventAct ts (Usb_out_failed request val data) p = outAct ts request val data p"
| "eventAct ts (Usb_in request val got) p =
     (if request = DFU_UPLOAD \<and> val \<ge> 2 then (p, [Act_read (p + (val - 2) * int ts) got]) else (p, []))"
| "eventAct ts _ p = (p, [])"

primrec dfuRun :: "nat \<Rightarrow> int \<Rightarrow> dfu_history \<Rightarrow> int \<times> dfu_act list" where
  "dfuRun ts p [] = (p, [])"
| "dfuRun ts p (e # es) = (let (q, xs) = eventAct ts e p; (r, ys) = dfuRun ts q es in (r, xs @ ys))"

definition dfuActs :: "nat \<Rightarrow> dfu_history \<Rightarrow> dfu_act list" where
  "dfuActs ts h = snd (dfuRun ts 0 h)"

lemma dfuRun_append:
  "dfuRun ts p (g @ h) = (let (q, xs) = dfuRun ts p g; (r, ys) = dfuRun ts q h in (r, xs @ ys))"
  by (induction g arbitrary: p) (simp_all split: prod.split)

lemma dfuRun_snoc: "dfuRun ts p (g @ [e]) = (let (q, xs) = dfuRun ts p g; (r, ys) = eventAct ts e q in (r, xs @ ys))"
  by (simp add: dfuRun_append split: prod.split)

subsection \<open>Silent methods\<close>

text \<open>Events that neither move the pointer nor touch the flash.\<close>

definition quietTrace :: "dfu_history \<Rightarrow> bool" where
  "quietTrace tr \<longleftrightarrow> (\<forall>ts p. dfuRun ts p tr = (p, []))"

definition quietSince :: "dfu_history \<Rightarrow> dfu_history \<Rightarrow> bool" where
  "quietSince g h \<longleftrightarrow> (\<exists>tr. h = g @ tr \<and> quietTrace tr)"

definition silent :: "'a dfu \<Rightarrow> bool" where
  "silent m \<longleftrightarrow> (\<forall>g. keeps (quietSince g) m)"

lemma quietSince_refl [simp]: "quietSince g g"
  by (simp add: quietSince_def quietTrace_def)

lemma quietSince_event: "quietSince g h \<Longrightarrow> \<forall>ts p. eventAct ts e p = (p, []) \<Longrightarrow> quietSince g (h @ [e])"
  by (auto simp: quietSince_def quietTrace_def dfuRun_snoc)

lemma silentD: "silent m \<Longrightarrow> m h = Some (r, h') \<Longrightarrow> \<exists>tr. h' = h @ tr \<and> quietTrace tr"
  unfolding silent_def using keepsD [of "quietSince h" m h r h'] by (auto simp: quietSince_def)

lemma keeps_silent [keeps_rules]: "silent m \<Longrightarrow> keeps (quietSince g) m"
  by (simp add: silent_def)

lemma silent_out: "request \<noteq> DFU_DNLOAD \<or> (val = 0 \<and> data = []) \<Longrightarrow> silent (dfuOut usb request val data)"
  unfolding silent_def keeps_def dfuOut_def
  by (auto simp: outAct_def commandAct_def intro!: quietSince_event split: option.splits)

lemma silent_in: "request \<noteq> DFU_UPLOAD \<Longrightarrow> silent (dfuIn usb request val len)"
  unfolding silent_def keeps_def dfuIn_def
  by (auto intro!: quietSince_event split: sum.splits)

named_theorems silent_rules "methods that do not touch the flash"

lemma silent_sleep [silent_rules]: "silent (dfuSleep ms)"
  unfolding silent_def keeps_def dfuSleep_def by (auto intro!: quietSince_event)

lemma silent_now [silent_rules]: "silent (dfuNow usb)"
  unfolding silent_def keeps_def dfuNow_def by (auto intro!: quietSince_event)

lemma silent_report [silent_rules]: "silent (dfuReport progress phase)"
  unfolding silent_def keeps_def dfuReport_def by (auto intro!: quietSince_event)

lemma silent_getStatus [silent_rules]: "silent (getStatus usb)"
  unfolding silent_def getStatus_def
  by (intro allI keeps_rules silent_in) (simp add: DFU_GETSTATUS_def DFU_UPLOAD_def)

lemma silent_clearStatus [silent_rules]: "silent (clearStatus usb)"
  unfolding clearStatus_def by (rule silent_out) (simp add: DFU_CLRSTATUS_def DFU_DNLOAD_def)

lemma silent_abort [silent_rules]: "silent (dfuAbort usb)"
  unfolding dfuAbort_def by (rule silent_out) (simp add: DFU_ABORT_def DFU_DNLOAD_def)

lemma silent_leave [silent_rules]: "silent (download usb 0 [])"
  unfolding download_def by (rule silent_out) simp

lemma silent_return [silent_rules]: "silent (return_io x)"
  unfolding silent_def by (intro allI keeps_rules)

lemma silent_throw [silent_rules]: "silent (throw_io e)"
  unfolding silent_def by (intro allI keeps_rules)

lemma silent_bind [silent_rules]: "silent m \<Longrightarrow> (\<And>x. silent (k x)) \<Longrightarrow> silent (bind_io m k)"
  unfolding silent_def by (intro allI keeps_bind) simp_all

lemma silent_then [silent_rules]: "silent m \<Longrightarrow> silent k \<Longrightarrow> silent (then_io m k)"
  unfolding then_io_def by (rule silent_bind)

lemma silent_catch [silent_rules]: "silent m \<Longrightarrow> (\<And>e. silent (k e)) \<Longrightarrow> silent (catch_io m k)"
  unfolding silent_def by (intro allI keeps_catch) simp_all

lemma silent_if [silent_rules]: "(b \<Longrightarrow> silent m) \<Longrightarrow> (\<not> b \<Longrightarrow> silent n) \<Longrightarrow> silent (if b then m else n)"
  by simp

lemma silent_tolerant [silent_rules]: "silent (getStatusTolerant usb n)"
  by (induction n) (auto intro!: silent_rules)

lemma silent_unwedge [silent_rules]: "silent (unwedge usb n)"
  by (induction n) (auto intro!: silent_rules)

lemma silent_clearErrorState [silent_rules]: "silent (clearErrorState usb)"
  unfolding clearErrorState_def by (intro silent_rules)

lemma silent_recover [silent_rules]: "silent (recover usb)"
  unfolding recover_def by (intro silent_rules)

lemma silent_pollLoop [silent_rules]: "silent (pollLoop usb kind started waited status)"
proof -
  have "quietSince g h \<longrightarrow> quietSince g (snd y)" if "pollLoop usb kind started waited status h = Some y" for g h y
  proof (rule pollLoop.raw_induct [where P = "\<lambda>_ _ _ _ _ h y. quietSince g h \<longrightarrow> quietSince g (snd y)", OF _ that])
    fix f :: "dfu_usb \<Rightarrow> poll_kind \<Rightarrow> int \<Rightarrow> int \<Rightarrow> dfu_status \<Rightarrow> dfu_status dfu" and usb kind started waited
      and status :: dfu_status and h and y :: "(dfu_error + dfu_status) \<times> dfu_history"
    assume IH: "\<And>usb kind started waited status h y. f usb kind started waited status h = Some y
      \<Longrightarrow> quietSince g h \<longrightarrow> quietSince g (snd y)"
    have rec: "keeps (quietSince g) (f usb kind started waited status)" for waited status
      unfolding keeps_def by (auto dest: IH)
    let ?turn = "\<lambda>t h. if kind = Poll_erase \<and> max waited (t - started) \<ge> ERASE_WEDGED_AFTER_MS
           \<and> dfuState status = STATE_DFU_DNBUSY
        then unwedgeAfterErase usb h
        else bind_io (then_io (dfuSleep (max (pollTimeoutMs status) 1)) (statusTolerant usb))
               (f usb kind started (waited + max (pollTimeoutMs status) 1)) h"
    have "keeps (quietSince g) (?turn t)" for t
      unfolding unwedgeAfterErase_def by (intro keeps_lambda_if keeps_bind keeps_then keeps_silent silent_rules rec)
    then have "keeps (quietSince g) (bind_io (dfuNow usb) ?turn)"
      by (rule keeps_bind [OF keeps_silent [OF silent_now]])
    moreover have "keeps (quietSince g) (throw_io e)" "keeps (quietSince g) (return_io x)" for e and x :: dfu_status
      by (intro keeps_rules)+
    moreover assume "(if busyState (dfuState status) then bind_io (dfuNow usb) ?turn h
      else if dfuStatus status \<noteq> STATUS_OK \<or> dfuState status = STATE_DFU_ERROR
      then throw_io (State_error (dfuStatus status) (dfuState status)) h
      else return_io status h) = Some y"
    ultimately show "quietSince g h \<longrightarrow> quietSince g (snd y)"
      by (cases y) (auto dest: keepsD simp: return_io_def throw_io_def split: if_splits)
  qed
  then show ?thesis by (fastforce simp: silent_def keeps_def)
qed

lemma silent_poll [silent_rules]: "silent (pollUntilIdle usb kind)"
  unfolding pollUntilIdle_def by (intro silent_rules)

subsection \<open>What a method does\<close>

text \<open>\<open>Q r p q acts\<close>: with the pointer at \<open>p\<close> the method ended in \<open>r\<close>, left it at \<open>q\<close> and did \<open>acts\<close>.\<close>

definition does :: "nat \<Rightarrow> 'a dfu \<Rightarrow> (dfu_error + 'a \<Rightarrow> int \<Rightarrow> int \<Rightarrow> dfu_act list \<Rightarrow> bool) \<Rightarrow> bool" where
  "does ts m Q \<longleftrightarrow> (\<forall>h r h'. m h = Some (r, h') \<longrightarrow>
     (\<exists>tr. h' = h @ tr \<and> (\<forall>p. Q r p (fst (dfuRun ts p tr)) (snd (dfuRun ts p tr)))))"

lemma does_weaken: "does ts m Q \<Longrightarrow> (\<And>r p q xs. Q r p q xs \<Longrightarrow> R r p q xs) \<Longrightarrow> does ts m R"
  unfolding does_def by blast

lemma does_silent: "silent m \<Longrightarrow> (\<And>r p. Q r p p []) \<Longrightarrow> does ts m Q"
  unfolding does_def
proof (intro allI impI)
  assume m: "silent m" and Q: "\<And>r p. Q r p p []"
  fix h r h' assume "m h = Some (r, h')"
  from silentD [OF m this] obtain tr where "h' = h @ tr" "quietTrace tr" by blast
  then show "\<exists>tr. h' = h @ tr \<and> (\<forall>p. Q r p (fst (dfuRun ts p tr)) (snd (dfuRun ts p tr)))"
    using Q by (intro exI [of _ tr]) (simp add: quietTrace_def)
qed

lemma does_return: "(\<And>p. Q (Inr x) p p []) \<Longrightarrow> does ts (return_io x) Q"
  by (auto simp: does_def return_io_def)

lemma does_throw: "(\<And>p. Q (Inl e) p p []) \<Longrightarrow> does ts (throw_io e) Q"
  by (auto simp: does_def throw_io_def)

lemma does_bind:
  assumes "does ts m R" "\<And>x. does ts (k x) (S x)"
    and "\<And>e p q xs. R (Inl e) p q xs \<Longrightarrow> Q (Inl e) p q xs"
    and "\<And>x r p q t xs ys. R (Inr x) p q xs \<Longrightarrow> S x r q t ys \<Longrightarrow> Q r p t (xs @ ys)"
  shows "does ts (bind_io m k) Q"
  unfolding does_def bind_io_Some
proof (intro allI impI)
  fix h r h''
  assume "(\<exists>e. m h = Some (Inl e, h'') \<and> r = Inl e) \<or> (\<exists>x h'. m h = Some (Inr x, h') \<and> k x h' = Some (r, h''))"
  then show "\<exists>tr. h'' = h @ tr \<and> (\<forall>p. Q r p (fst (dfuRun ts p tr)) (snd (dfuRun ts p tr)))"
  proof (elim disjE exE conjE)
    fix e assume "m h = Some (Inl e, h'')" "r = Inl e"
    then show ?thesis using assms(1,3) unfolding does_def by blast
  next
    fix x h' assume m: "m h = Some (Inr x, h')" and k: "k x h' = Some (r, h'')"
    from m assms(1) obtain a where a: "h' = h @ a" "\<And>p. R (Inr x) p (fst (dfuRun ts p a)) (snd (dfuRun ts p a))"
      unfolding does_def by blast
    from k assms(2) obtain b where b: "h'' = h' @ b" "\<And>p. S x r p (fst (dfuRun ts p b)) (snd (dfuRun ts p b))"
      unfolding does_def by blast
    have "Q r p (fst (dfuRun ts p (a @ b))) (snd (dfuRun ts p (a @ b)))" for p
      using assms(4) [OF a(2) b(2)] by (simp add: dfuRun_append split_beta)
    then show ?thesis using a(1) b(1) by (intro exI [of _ "a @ b"]) simp
  qed
qed

lemma does_then:
  assumes "does ts m R" "does ts k S"
    and "\<And>e p q xs. R (Inl e) p q xs \<Longrightarrow> Q (Inl e) p q xs"
    and "\<And>x r p q t xs ys. R (Inr x) p q xs \<Longrightarrow> S r q t ys \<Longrightarrow> Q r p t (xs @ ys)"
  shows "does ts (then_io m k) Q"
  unfolding then_io_def by (rule does_bind [OF assms(1,2)]) (fact assms(3,4))+

lemma does_catch:
  assumes "does ts m R" "\<And>e. does ts (k e) (S e)"
    and "\<And>x p q xs. R (Inr x) p q xs \<Longrightarrow> Q (Inr x) p q xs"
    and "\<And>e r p q t xs ys. R (Inl e) p q xs \<Longrightarrow> S e r q t ys \<Longrightarrow> Q r p t (xs @ ys)"
  shows "does ts (catch_io m k) Q"
  unfolding does_def catch_io_Some
proof (intro allI impI)
  fix h r h''
  assume "(\<exists>x. m h = Some (Inr x, h'') \<and> r = Inr x) \<or> (\<exists>e h'. m h = Some (Inl e, h') \<and> k e h' = Some (r, h''))"
  then show "\<exists>tr. h'' = h @ tr \<and> (\<forall>p. Q r p (fst (dfuRun ts p tr)) (snd (dfuRun ts p tr)))"
  proof (elim disjE exE conjE)
    fix x assume "m h = Some (Inr x, h'')" "r = Inr x"
    then show ?thesis using assms(1,3) unfolding does_def by blast
  next
    fix e h' assume m: "m h = Some (Inl e, h')" and k: "k e h' = Some (r, h'')"
    from m assms(1) obtain a where a: "h' = h @ a" "\<And>p. R (Inl e) p (fst (dfuRun ts p a)) (snd (dfuRun ts p a))"
      unfolding does_def by blast
    from k assms(2) obtain b where b: "h'' = h' @ b" "\<And>p. S e r p (fst (dfuRun ts p b)) (snd (dfuRun ts p b))"
      unfolding does_def by blast
    have "Q r p (fst (dfuRun ts p (a @ b))) (snd (dfuRun ts p (a @ b)))" for p
      using assms(4) [OF a(2) b(2)] by (simp add: dfuRun_append split_beta)
    then show ?thesis using a(1) b(1) by (intro exI [of _ "a @ b"]) simp
  qed
qed

text \<open>Retrying: the acts of a few failed attempts, and then those of the last one.\<close>

lemma does_attempts:
  assumes m: "does ts m Q"
    and err: "\<And>e e' p q xs. Q (Inl e) p q xs \<Longrightarrow> Q (Inl e') p q xs"
    and Q: "\<And>e r p q t xs ys. Q (Inl e) p q xs \<Longrightarrow> Q r q t ys \<Longrightarrow> Q r p t (xs @ ys)"
  shows "does ts (attempts usb again n m) Q"
proof (induction n)
  case (Suc n)
  let ?S = "\<lambda>r p q xs. (isl r \<and> q = p \<and> xs = []) \<or> Q r p q xs"
  have "does ts (if \<not> again e then throw_io e else then_io (recover usb) (attempts usb again n m)) ?S" for e
  proof (cases "again e")
    case True
    have "does ts (then_io (recover usb) (attempts usb again n m)) ?S"
      by (rule does_then [OF does_silent [OF silent_recover, of "\<lambda>r p q xs. q = p \<and> xs = []"] Suc.IH]) auto
    then show ?thesis using True by simp
  qed (auto intro: does_throw)
  then show ?case
    unfolding attempts.simps
  proof (rule does_catch [OF m])
    fix e r p q t xs ys
    assume x: "Q (Inl e) p q xs" and y: "(isl r \<and> t = q \<and> ys = []) \<or> Q r q t ys"
    from y show "Q r p t (xs @ ys)"
    proof
      assume "isl r \<and> t = q \<and> ys = []"
      then show ?thesis using err [OF x] by (cases r) simp_all
    qed (rule Q [OF x])
  qed
qed (simp add: m)

subsection \<open>Commands\<close>

abbreviation address32 :: "int \<Rightarrow> int" where
  "address32 a \<equiv> a mod 2 ^ 32"

lemma does_event:
  assumes "\<And>h r h'. m h = Some (r, h') \<Longrightarrow> \<exists>e. h' = h @ [e] \<and> (\<forall>p. Q r p (fst (eventAct ts e p)) (snd (eventAct ts e p)))"
  shows "does ts m Q"
  unfolding does_def
proof (intro allI impI)
  fix h r h' assume "m h = Some (r, h')"
  from assms [OF this] obtain e where e: "h' = h @ [e]" "\<forall>p. Q r p (fst (eventAct ts e p)) (snd (eventAct ts e p))" by blast
  then show "\<exists>tr. h' = h @ tr \<and> (\<forall>p. Q r p (fst (dfuRun ts p tr)) (snd (dfuRun ts p tr)))"
    by (intro exI [of _ "[e]"]) (simp add: split_beta)
qed

lemma does_download:
  "does ts (download usb val data) (\<lambda>r p q xs. (q, xs) = outAct ts DFU_DNLOAD val data p)"
  unfolding download_def dfuOut_def
  by (rule does_event) (auto split: option.splits prod.splits)

lemma does_setAddress: "does ts (setAddress usb a) (\<lambda>r p q xs. q = address32 a \<and> xs = [])"
  unfolding setAddress_def
  by (rule does_then [OF does_download does_silent [OF silent_poll, of "\<lambda>r p q xs. q = p \<and> xs = []"]])
    (auto simp: outAct_def commandAct_def encodeCommand_def fromLe32_le32_mod)

lemma does_writeChunk:
  "does ts (writeChunk usb c) (\<lambda>r p q xs.
     set xs \<subseteq> {Act_write (address32 (chunkAddress c)) (chunkData c)} \<and> (\<not> isl r \<longrightarrow> xs \<noteq> []))"
  unfolding writeChunk_def
proof (rule does_attempts)
  show "does ts (then_io (setAddress usb (chunkAddress c)) (then_io (download usb 2 (chunkData c)) (pollUntilIdle usb Poll_block)))
    (\<lambda>r p q xs. set xs \<subseteq> {Act_write (address32 (chunkAddress c)) (chunkData c)} \<and> (\<not> isl r \<longrightarrow> xs \<noteq> []))"
    by (rule does_then [OF does_setAddress does_then [OF does_download does_silent [OF silent_poll, of "\<lambda>r p q xs. q = p \<and> xs = []"],
          where Q = "\<lambda>r p q xs. xs = [Act_write p (chunkData c)]"]])
      (auto simp: outAct_def)
qed auto

lemma does_eraseSector:
  "does ts (eraseSector usb a) (\<lambda>r p q xs. set xs \<subseteq> {Act_erase (address32 a)} \<and> (\<not> isl r \<longrightarrow> xs \<noteq> []))"
  unfolding eraseSector_def
proof (rule does_attempts)
  show "does ts (then_io (download usb 0 (encodeCommand DFUSE_ERASE a)) (pollUntilIdle usb Poll_erase))
    (\<lambda>r p q xs. set xs \<subseteq> {Act_erase (address32 a)} \<and> (\<not> isl r \<longrightarrow> xs \<noteq> []))"
    by (rule does_then [OF does_download does_silent [OF silent_poll, of "\<lambda>r p q xs. q = p \<and> xs = []"]])
      (auto simp: outAct_def commandAct_def encodeCommand_def fromLe32_le32_mod DFUSE_SET_ADDRESS_def DFUSE_ERASE_def)
qed auto

lemma does_massErase: "does ts (massErase usb) (\<lambda>r p q xs. xs = [Act_mass_erase])"
  unfolding massErase_def
  by (rule does_then [OF does_download does_silent [OF silent_poll, of "\<lambda>r p q xs. q = p \<and> xs = []"]])
    (auto simp: outAct_def commandAct_def)

lemma does_report: "does ts (dfuReport progress phase) (\<lambda>r p q xs. q = p \<and> xs = [] \<and> r = Inr ())"
  unfolding does_def dfuReport_def
  by (cases progress) (auto intro: exI [of _ "[Usb_progress phase]"])

lemma does_reportThen:
  assumes "does ts m Q"
  shows "does ts (then_io (dfuReport progress phase) m) Q"
  by (rule does_then [OF does_report assms]) auto

end
