(* ===== verification/Dfu_Order.thy ===== *)
theory Dfu_Order
  imports Dfu_Trace
begin

text \<open>
  What \<open>flash\<close> does to the board and in which order: reads of the bootloader, erases, writes of
  everything but the held word, reads of it, the write of the held word, and its read.
\<close>

subsection \<open>Reads\<close>

fun isRead :: "dfu_act \<Rightarrow> bool" where
  "isRead (Act_read a got) \<longleftrightarrow> True"
| "isRead _ \<longleftrightarrow> False"

abbreviation onlyReads :: "dfu_act list \<Rightarrow> bool" where
  "onlyReads xs \<equiv> \<forall>x\<in>set xs. isRead x"

text \<open>A read showed the byte \<open>b\<close> at address \<open>x\<close>.\<close>

definition shown :: "dfu_act list \<Rightarrow> int \<Rightarrow> byte \<Rightarrow> bool" where
  "shown xs x b \<longleftrightarrow>
     (\<exists>a got. Act_read a got \<in> set xs \<and> a \<le> x \<and> x < a + int (length got) \<and> got ! nat (x - a) = b)"

definition confirmed :: "dfu_act list \<Rightarrow> dfu_chunk \<Rightarrow> bool" where
  "confirmed xs c \<longleftrightarrow> (\<exists>got. Act_read (chunkAddress c) got \<in> set xs \<and> bytesEqual got (chunkData c))"

definition chunkWrite :: "dfu_chunk \<Rightarrow> dfu_act" where
  "chunkWrite c = Act_write (chunkAddress c) (chunkData c)"

definition inRange :: "int \<Rightarrow> bool" where
  "inRange a \<longleftrightarrow> 0 \<le> a \<and> a < 2 ^ 32"

lemma address32_inRange: "inRange a \<Longrightarrow> address32 a = a"
  by (simp add: inRange_def)

lemma inRange_mod [simp]: "inRange a \<Longrightarrow> a mod 4294967296 = a"
  by (simp add: inRange_def)

lemma confirmed_mono: "confirmed xs c \<Longrightarrow> set xs \<subseteq> set ys \<Longrightarrow> confirmed ys c"
  by (auto simp: confirmed_def)

lemma shown_mono: "shown xs x b \<Longrightarrow> set xs \<subseteq> set ys \<Longrightarrow> shown ys x b"
  unfolding shown_def by blast

lemma confirmed_shown: "confirmed xs c \<Longrightarrow> chunkHolds c x b \<Longrightarrow> shown xs x b"
proof -
  assume c: "confirmed xs c" and h: "chunkHolds c x b"
  from c obtain got where got: "Act_read (chunkAddress c) got \<in> set xs" "length (chunkData c) \<le> length got"
    "take (length (chunkData c)) got = chunkData c" by (auto simp: confirmed_def bytesEqual_take)
  have i: "nat (x - chunkAddress c) < length (chunkData c)" using h by (auto simp: chunkHolds_def chunkEnd_def)
  have "got ! nat (x - chunkAddress c) = take (length (chunkData c)) got ! nat (x - chunkAddress c)"
    using i by simp
  also have "\<dots> = b" using h unfolding got(3) by (simp add: chunkHolds_def)
  finally show ?thesis using got(1,2) h
    by (auto simp: shown_def chunkHolds_def chunkEnd_def intro!: exI [of _ "chunkAddress c"] exI [of _ got])
qed

lemma does_upload:
  "2 \<le> val \<Longrightarrow> does ts (dfuIn usb DFU_UPLOAD val len)
     (\<lambda>r p q xs. q = p \<and> (case r of Inl e \<Rightarrow> xs = [] | Inr got \<Rightarrow> xs = [Act_read (p + (val - 2) * int ts) got]))"
  unfolding dfuIn_def by (rule does_event) (auto split: sum.splits)

subsection \<open>Verification\<close>

lemma does_verifyBlocks:
  assumes "2 \<le> block"
  shows "does ts (verifyBlocks usb ts progress block cs) (\<lambda>r p q xs. onlyReads xs
    \<and> (cs \<noteq> [] \<longrightarrow> p + (block - 2) * int ts = chunkAddress (hd cs) \<longrightarrow>
        (\<forall>rest. r = Inr rest \<longrightarrow> (\<exists>run. run \<noteq> [] \<and> cs = run @ rest \<and> (\<forall>c\<in>set run. confirmed xs c)))))"
  using assms
proof (induction cs arbitrary: block)
  case Nil
  show ?case by (auto intro: does_return)
next
  case (Cons c cs)
  let ?stop = "cs = [] \<or> length (chunkData c) \<noteq> ts \<or> chunkAddress (hd cs) \<noteq> chunkEnd c"
  let ?T = "\<lambda>r p q xs. onlyReads xs \<and> q = q \<and> (if ?stop then xs = [] \<and> r = Inr cs
     else p + (block + 1 - 2) * int ts = chunkAddress (hd cs) \<longrightarrow>
        (\<forall>rest. r = Inr rest \<longrightarrow> (\<exists>run. run \<noteq> [] \<and> cs = run @ rest \<and> (\<forall>c\<in>set run. confirmed xs c))))"
  have t: "does ts (if ?stop then return_io cs else verifyBlocks usb ts progress (block + 1) cs) ?T"
  proof (cases ?stop)
    case False
    have "does ts (verifyBlocks usb ts progress (block + 1) cs) ?T"
      by (rule does_weaken [OF Cons.IH]) (use Cons.prems False in auto)
    then show ?thesis using False by simp
  qed (auto intro: does_return)
  have k: "does ts (if \<not> bytesEqual got (chunkData c) then throw_io (Verification_failed (chunkAddress c))
       else then_io (dfuReport progress Phase_verify) (if ?stop then return_io cs else verifyBlocks usb ts progress (block + 1) cs))
     (\<lambda>r p q xs. (isl r \<and> xs = []) \<or> (bytesEqual got (chunkData c) \<and> ?T r p q xs))" for got
    using does_weaken [OF does_reportThen [OF t]] by (cases "bytesEqual got (chunkData c)") (auto intro: does_throw)
  show ?case
    unfolding verifyBlocks.simps
  proof (rule does_bind [OF does_upload [OF Cons.prems] k])
    fix got r p q t xs ys
    assume x: "q = p \<and> (case Inr got of Inl e \<Rightarrow> xs = [] | Inr got \<Rightarrow> xs = [Act_read (p + (block - 2) * int ts) got])"
      and y: "(isl r \<and> ys = []) \<or> (bytesEqual got (chunkData c) \<and> ?T r q t ys)"
    have reads: "onlyReads (xs @ ys)" using x y by auto
    have "\<exists>run. run \<noteq> [] \<and> c # cs = run @ rest \<and> (\<forall>d\<in>set run. confirmed (xs @ ys) d)"
      if p: "p + (block - 2) * int ts = chunkAddress c" and r: "r = Inr rest" for rest
    proof -
      from y r have eq: "bytesEqual got (chunkData c)" and T: "?T (Inr rest) q t ys" by auto
      have c: "confirmed (xs @ ys) c" using x p eq by (auto simp: confirmed_def)
      show ?thesis
      proof (cases ?stop)
        case True
        then show ?thesis using T c by (intro exI [of _ "[c]"]) (simp split: if_splits)
      next
        case False
        then have "q + (block + 1 - 2) * int ts = chunkAddress (hd cs)"
          using x p by (simp add: chunkEnd_def algebra_simps)
        then obtain run where "run \<noteq> []" "cs = run @ rest" "\<forall>c\<in>set run. confirmed ys c"
          using T False by auto
        then show ?thesis using c confirmed_mono [of ys _ "xs @ ys"] by (intro exI [of _ "c # run"]) auto
      qed
    qed
    with reads show "onlyReads (xs @ ys) \<and> (c # cs \<noteq> [] \<longrightarrow> p + (block - 2) * int ts = chunkAddress (hd (c # cs)) \<longrightarrow>
        (\<forall>rest. r = Inr rest \<longrightarrow> (\<exists>run. run \<noteq> [] \<and> c # cs = run @ rest \<and> (\<forall>c\<in>set run. confirmed (xs @ ys) c))))"
      by simp
  qed auto
qed

definition runPost :: "dfu_chunk list \<Rightarrow> dfu_error + dfu_chunk list \<Rightarrow> dfu_act list \<Rightarrow> bool" where
  "runPost cs r xs \<longleftrightarrow> onlyReads xs
     \<and> (\<forall>rest. r = Inr rest \<longrightarrow> (\<exists>run. run \<noteq> [] \<and> cs = run @ rest \<and> (\<forall>c\<in>set run. confirmed xs c)))"

lemma does_verifyRun:
  assumes "cs \<noteq> []" "inRange (chunkAddress (hd cs))"
  shows "does ts (verifyRun usb ts progress cs) (\<lambda>r p q xs. runPost cs r xs)"
proof -
  let ?z = "\<lambda>(r :: dfu_error + unit) p q (xs :: dfu_act list). q = p \<and> xs = []"
  have b: "does ts (then_io (dfuAbort usb) (verifyBlocks usb ts progress 2 cs))
     (\<lambda>r p q xs. onlyReads xs \<and> (p = chunkAddress (hd cs) \<longrightarrow> runPost cs r xs))"
    by (rule does_then [OF does_silent [OF silent_abort, of ?z] does_verifyBlocks [OF order_refl]])
      (use assms(1) in \<open>auto simp: runPost_def\<close>)
  have c: "does ts (then_io (setAddress usb (chunkAddress (hd cs))) (then_io (dfuAbort usb) (verifyBlocks usb ts progress 2 cs)))
     (\<lambda>r p q xs. runPost cs r xs)"
    by (rule does_then [OF does_setAddress b]) (use address32_inRange [OF assms(2)] in \<open>auto simp: runPost_def\<close>)
  have d: "does ts (then_io (dfuAbort usb) (then_io (setAddress usb (chunkAddress (hd cs))) (then_io (dfuAbort usb) (verifyBlocks usb ts progress 2 cs))))
     (\<lambda>r p q xs. runPost cs r xs)"
    by (rule does_then [OF does_silent [OF silent_abort, of ?z] c]) (auto simp: runPost_def)
  have e: "does ts (then_io (dfuReport progress Phase_verify) (throw_io e)) (\<lambda>r p q xs. isl r \<and> xs = [])" for e :: dfu_error and T :: "dfu_chunk list"
    by (rule does_reportThen [OF does_throw]) simp
  show ?thesis
    unfolding verifyRun_def
    by (rule does_catch [OF d e]) (auto simp: runPost_def)
qed

lemma does_retryRun:
  assumes "cs \<noteq> []" "inRange (chunkAddress (hd cs))"
  shows "does ts (retryReads usb (verifyRun usb ts progress cs)) (\<lambda>r p q xs. runPost cs r xs)"
  unfolding retryReads_def
proof (rule does_attempts [OF does_verifyRun [OF assms]])
  fix e r xs ys
  assume x: "runPost cs (Inl e) xs" and y: "runPost cs r ys"
  have "\<exists>run. run \<noteq> [] \<and> cs = run @ rest \<and> (\<forall>c\<in>set run. confirmed (xs @ ys) c)" if r: "r = Inr rest" for rest
  proof -
    from y r obtain run where "run \<noteq> []" "cs = run @ rest" "\<forall>c\<in>set run. confirmed ys c"
      unfolding runPost_def by blast
    then show ?thesis using confirmed_mono [of ys _ "xs @ ys"] by (intro exI [of _ run]) auto
  qed
  then show "runPost cs r (xs @ ys)" using x y by (auto simp: runPost_def)
qed (simp add: runPost_def)

definition verifyPost :: "dfu_chunk list \<Rightarrow> dfu_error + unit \<Rightarrow> dfu_act list \<Rightarrow> bool" where
  "verifyPost cs r xs \<longleftrightarrow> onlyReads xs \<and> (r = Inr () \<longrightarrow> (\<forall>c\<in>set cs. confirmed xs c))"

lemma does_verifyChunks:
  assumes "\<forall>c\<in>set cs. inRange (chunkAddress c)"
  shows "does ts (verifyChunks usb ts progress cs) (\<lambda>r p q xs. verifyPost cs r xs)"
proof -
  let ?P = "\<lambda>usb ts progress cs h y. (\<forall>c\<in>set cs. inRange (chunkAddress c)) \<longrightarrow>
    (\<exists>tr. snd y = h @ tr \<and> (\<forall>p. verifyPost cs (fst y) (snd (dfuRun ts p tr))))"
  have "?P usb ts progress cs h y" if "verifyChunks usb ts progress cs h = Some y" for h y
  proof (rule verifyChunks.raw_induct [where P = ?P, OF _ that])
    fix f :: "dfu_usb \<Rightarrow> nat \<Rightarrow> bool \<Rightarrow> dfu_chunk list \<Rightarrow> unit dfu" and usb ts progress cs h
      and y :: "(dfu_error + unit) \<times> dfu_history"
    assume IH: "\<And>usb ts progress cs h y. f usb ts progress cs h = Some y \<Longrightarrow> ?P usb ts progress cs h y"
      and run: "(if cs = [] then return_io () h
        else bind_io (retryReads usb (verifyRun usb ts progress cs)) (f usb ts progress) h) = Some y"
    show "?P usb ts progress cs h y"
    proof
      assume ok: "\<forall>c\<in>set cs. inRange (chunkAddress c)"
      show "\<exists>tr. snd y = h @ tr \<and> (\<forall>p. verifyPost cs (fst y) (snd (dfuRun ts p tr)))"
      proof (cases "cs = []")
        case True
        then show ?thesis using run by (auto simp: return_io_def verifyPost_def)
      next
        case False
        from False have "bind_io (retryReads usb (verifyRun usb ts progress cs)) (f usb ts progress) h = Some (fst y, snd y)"
          using run by simp
        then show ?thesis
          unfolding bind_io_Some
        proof (elim disjE exE conjE)
          fix e assume "retryReads usb (verifyRun usb ts progress cs) h = Some (Inl e, snd y)" "fst y = Inl e"
          then show ?thesis using does_retryRun [OF False, of ts usb progress] ok False
            unfolding does_def runPost_def verifyPost_def by (fastforce dest: hd_in_set)
        next
          fix rest h'
          assume m: "retryReads usb (verifyRun usb ts progress cs) h = Some (Inr rest, h')"
            and k: "f usb ts progress rest h' = Some (fst y, snd y)"
          have "inRange (chunkAddress (hd cs))" using ok False by simp
          from does_retryRun [OF False this, of ts usb progress] m
          obtain a where a: "h' = h @ a" "\<And>p. runPost cs (Inr rest) (snd (dfuRun ts p a))"
            unfolding does_def by blast
          obtain run where run: "cs = run @ rest" using a(2) [of 0] unfolding runPost_def by blast
          then have "\<forall>c\<in>set rest. inRange (chunkAddress c)" using ok by simp
          with IH [OF k] obtain b where b: "snd y = h' @ b" "\<And>p. verifyPost rest (fst y) (snd (dfuRun ts p b))"
            by auto
          have "verifyPost cs (fst y) (snd (dfuRun ts p (a @ b)))" for p
          proof -
            let ?xs = "snd (dfuRun ts p a)" and ?ys = "snd (dfuRun ts (fst (dfuRun ts p a)) b)"
            from a(2) [of p] obtain run where run: "cs = run @ rest" "\<forall>c\<in>set run. confirmed ?xs c" "onlyReads ?xs"
              unfolding runPost_def by blast
            have "verifyPost rest (fst y) ?ys" by (rule b(2))
            then have "verifyPost cs (fst y) (?xs @ ?ys)"
              using run confirmed_mono [of ?xs _ "?xs @ ?ys"] confirmed_mono [of ?ys _ "?xs @ ?ys"]
              by (auto simp: verifyPost_def)
            then show ?thesis by (simp add: dfuRun_append split_beta)
          qed
          then show ?thesis using a(1) b(1) by (intro exI [of _ "a @ b"]) simp
        qed
      qed
    qed
  qed
  then show ?thesis unfolding does_def by (metis assms fst_conv snd_conv)
qed

subsection \<open>Reading a range\<close>

definition readPost :: "int \<Rightarrow> nat \<Rightarrow> nat \<Rightarrow> bytes \<Rightarrow> dfu_error + bytes \<Rightarrow> dfu_act list \<Rightarrow> bool" where
  "readPost address len offset bs r xs \<longleftrightarrow> (\<forall>out. r = Inr out \<longrightarrow> length out = len
     \<and> (\<forall>i<len. if i < offset then out ! i = bs ! i else shown xs (address + int i) (out ! i)))"

lemma readPost_step:
  assumes p: "p + (block - 2) * int ts = address + int offset" and len: "offset < len" "length bs = len"
    and got: "min ts (len - offset) \<le> length got"
    and rest: "readPost address len (offset + ts) (put offset (take (min ts (len - offset)) got) bs) r ys"
  shows "readPost address len offset bs r (Act_read (p + (block - 2) * int ts) got # ys)"
  unfolding readPost_def
proof (intro allI impI conjI)
  fix out assume r: "r = Inr out"
  let ?n = "min ts (len - offset)" and ?xs = "Act_read (p + (block - 2) * int ts) got # ys"
  from rest r have o: "length out = len"
    "\<And>i. i < len \<Longrightarrow> if i < offset + ts then out ! i = put offset (take ?n got) bs ! i else shown ys (address + int i) (out ! i)"
    unfolding readPost_def by blast+
  show "length out = len" by (rule o(1))
  fix i assume i: "i < len"
  show "if i < offset then out ! i = bs ! i else shown ?xs (address + int i) (out ! i)"
  proof (cases "i < offset")
    case True
    then show ?thesis using o(2) [OF i] len by (simp add: put_def nth_append)
  next
    case low: False
    show ?thesis
    proof (cases "i < offset + ts")
      case True
      then have j: "i - offset < ?n" using i low by linarith
      have "out ! i = put offset (take ?n got) bs ! i" using o(2) [OF i] True by simp
      also have "\<dots> = got ! (i - offset)" using low j len got i by (simp add: put_def nth_append)
      finally have e: "got ! (i - offset) = out ! i" by simp
      have "nat (address + int i - (address + int offset)) = i - offset" using low by simp
      then have "shown ?xs (address + int i) (out ! i)"
        unfolding shown_def p using e low j got
        by (intro exI [of _ "address + int offset"] exI [of _ got] conjI) auto
      then show ?thesis using low by simp
    next
      case False
      then show ?thesis using o(2) [OF i] low shown_mono [of ys _ _ ?xs] by auto
    qed
  qed
qed

lemma does_readBlocks:
  assumes "2 \<le> block" "length bs = len"
  shows "does ts (readBlocks usb ts address len block offset bs) (\<lambda>r p q xs. onlyReads xs
    \<and> (p + (block - 2) * int ts = address + int offset \<longrightarrow> readPost address len offset bs r xs))"
proof -
  let ?Q = "\<lambda>ts address len block offset bs r p xs. onlyReads xs
    \<and> (p + (block - 2) * int ts = address + int offset \<longrightarrow> readPost address len offset bs r xs)"
  let ?P = "\<lambda>usb ts address len block offset bs h y. 2 \<le> block \<longrightarrow> length bs = len \<longrightarrow>
    (\<exists>tr. snd y = h @ tr \<and> (\<forall>p. ?Q ts address len block offset bs (fst y) p (snd (dfuRun ts p tr))))"
  have "?P usb ts address len block offset bs h y" if "readBlocks usb ts address len block offset bs h = Some y" for h y
  proof (rule readBlocks.raw_induct [where P = ?P, OF _ that])
    fix f :: "dfu_usb \<Rightarrow> nat \<Rightarrow> int \<Rightarrow> nat \<Rightarrow> int \<Rightarrow> nat \<Rightarrow> bytes \<Rightarrow> bytes dfu" and usb
      and ts :: nat and address :: int and len :: nat and block :: int and offset :: nat and bs :: bytes and h
      and y :: "(dfu_error + bytes) \<times> dfu_history"
    let ?n = "min ts (len - offset)"
    assume IH: "\<And>usb ts address len block offset bs h y. f usb ts address len block offset bs h = Some y
        \<Longrightarrow> ?P usb ts address len block offset bs h y"
      and run: "(if offset < len
        then bind_io (dfuIn usb DFU_UPLOAD block ?n) (\<lambda>got h. if length got < ?n
          then throw_io (Short_upload (length got) ?n (address + int offset)) h
          else f usb ts address len (block + 1) (offset + ts) (put offset (take ?n got) bs) h) h
        else return_io bs h) = Some y"
    show "?P usb ts address len block offset bs h y"
    proof (intro impI)
      assume ok: "2 \<le> block" "length bs = len"
      show "\<exists>tr. snd y = h @ tr \<and> (\<forall>p. ?Q ts address len block offset bs (fst y) p (snd (dfuRun ts p tr)))"
      proof (cases "offset < len")
        case False
        then show ?thesis using run ok by (auto simp: return_io_def readPost_def)
      next
        case True
        from True run have "bind_io (dfuIn usb DFU_UPLOAD block ?n) (\<lambda>got h. if length got < ?n
          then throw_io (Short_upload (length got) ?n (address + int offset)) h
          else f usb ts address len (block + 1) (offset + ts) (put offset (take ?n got) bs) h) h = Some (fst y, snd y)"
          by simp
        then show ?thesis
          unfolding bind_io_Some
        proof (elim disjE exE conjE)
          fix e assume m: "dfuIn usb DFU_UPLOAD block ?n h = Some (Inl e, snd y)" and e: "fst y = Inl e"
          from does_upload [OF ok(1), of ts usb ?n] m obtain a where "snd y = h @ a" "\<And>p. snd (dfuRun ts p a) = []"
            unfolding does_def by fastforce
          then show ?thesis using e by (intro exI [of _ a]) (simp add: readPost_def)
        next
          fix got h' assume m: "dfuIn usb DFU_UPLOAD block ?n h = Some (Inr got, h')"
            and k: "(if length got < ?n then throw_io (Short_upload (length got) ?n (address + int offset)) h'
              else f usb ts address len (block + 1) (offset + ts) (put offset (take ?n got) bs) h') = Some (fst y, snd y)"
          from does_upload [OF ok(1), of ts usb ?n] m obtain a where a: "h' = h @ a"
            "\<And>p. dfuRun ts p a = (p, [Act_read (p + (block - 2) * int ts) got])"
            unfolding does_def by (fastforce simp: prod_eq_iff)
          show ?thesis
          proof (cases "length got < ?n")
            case True
            then have "snd y = h @ a" "isl (fst y)" using k a(1) by (auto simp: throw_io_def)
            then show ?thesis using a(2) by (intro exI [of _ a]) (auto simp: readPost_def)
          next
            case False
            then have f: "f usb ts address len (block + 1) (offset + ts) (put offset (take ?n got) bs) h' = Some (fst y, snd y)"
              using k by (simp only: if_False)
            have l: "length (put offset (take ?n got) bs) = len"
              using False True ok(2) by (subst length_put) auto
            from IH [OF f] l ok(1) obtain b where b: "snd y = h' @ b"
              "\<And>p. ?Q ts address len (block + 1) (offset + ts) (put offset (take ?n got) bs) (fst y) p (snd (dfuRun ts p b))"
              by auto
            have "?Q ts address len block offset bs (fst y) p (snd (dfuRun ts p (a @ b)))" for p
            proof (intro conjI impI)
              show "onlyReads (snd (dfuRun ts p (a @ b)))" using b(2) [of p] a(2) [of p] by (simp add: dfuRun_append split_beta)
              assume p: "p + (block - 2) * int ts = address + int offset"
              then have "p + (block + 1 - 2) * int ts = address + int (offset + ts)" by (simp add: algebra_simps)
              with b(2) [of p] have "readPost address len (offset + ts) (put offset (take ?n got) bs) (fst y) (snd (dfuRun ts p b))"
                by blast
              from readPost_step [OF p True ok(2) _ this] False
              show "readPost address len offset bs (fst y) (snd (dfuRun ts p (a @ b)))"
                using a(2) [of p] by (simp add: dfuRun_append split_beta)
            qed
            then show ?thesis using a(1) b(1) by (intro exI [of _ "a @ b"]) simp
          qed
        qed
      qed
    qed
  qed
  then show ?thesis unfolding does_def by (metis assms fst_conv snd_conv)
qed

definition rangePost :: "int \<Rightarrow> nat \<Rightarrow> dfu_error + bytes \<Rightarrow> dfu_act list \<Rightarrow> bool" where
  "rangePost address len r xs \<longleftrightarrow> onlyReads xs
     \<and> (\<forall>out. r = Inr out \<longrightarrow> length out = len \<and> (\<forall>i<len. shown xs (address + int i) (out ! i)))"

lemma does_readRange:
  assumes "inRange address"
  shows "does ts (readRange usb ts address len) (\<lambda>r p q xs. rangePost address len r xs)"
proof -
  let ?z = "\<lambda>r p q (xs :: dfu_act list). q = p \<and> xs = []"
  have a: "does ts (bind_io (readBlocks usb ts address len 2 0 (newBytes len)) (\<lambda>bs. then_io (dfuAbort usb) (return_io bs)))
     (\<lambda>r p q xs. onlyReads xs \<and> (p = address \<longrightarrow> rangePost address len r xs))"
  proof (rule does_bind [OF does_readBlocks])
    show "does ts (then_io (dfuAbort usb) (return_io bs)) (\<lambda>r p q xs. xs = [] \<and> (isl r \<or> r = Inr bs))" for bs
      by (rule does_then [OF does_silent [OF silent_abort, of ?z] does_return [where Q = "\<lambda>r p q xs. xs = [] \<and> r = Inr bs"]]) auto
  qed (auto simp: rangePost_def readPost_def)
  have b: "does ts (then_io (dfuAbort usb) (bind_io (readBlocks usb ts address len 2 0 (newBytes len)) (\<lambda>bs. then_io (dfuAbort usb) (return_io bs))))
     (\<lambda>r p q xs. onlyReads xs \<and> (p = address \<longrightarrow> rangePost address len r xs))"
    by (rule does_then [OF does_silent [OF silent_abort, of ?z] a]) (auto simp: rangePost_def)
  have c: "does ts (then_io (setAddress usb address) (then_io (dfuAbort usb) (bind_io (readBlocks usb ts address len 2 0 (newBytes len)) (\<lambda>bs. then_io (dfuAbort usb) (return_io bs)))))
     (\<lambda>r p q xs. rangePost address len r xs)"
    by (rule does_then [OF does_setAddress b]) (use address32_inRange [OF assms] in \<open>auto simp: rangePost_def\<close>)
  show ?thesis unfolding readRange_def
    by (rule does_then [OF does_silent [OF silent_abort, of ?z] c]) (auto simp: rangePost_def)
qed

lemma does_retryRange:
  assumes "inRange address"
  shows "does ts (retryReads usb (readRange usb ts address len)) (\<lambda>r p q xs. rangePost address len r xs)"
  unfolding retryReads_def
proof (rule does_attempts [OF does_readRange [OF assms]])
  fix e r xs ys
  assume "rangePost address len (Inl e) xs" "rangePost address len r ys"
  then show "rangePost address len r (xs @ ys)"
    using shown_mono [of ys _ _ "xs @ ys"] by (auto simp: rangePost_def)
qed (simp add: rangePost_def)

end
