(* ===== verification/Dfu_Cover.thy ===== *)
theory Dfu_Cover
  imports Dfu_Device
begin

text \<open>
  How the planned writes relate to the image: they do not overlap, together with the held word
  they contain every byte of it, and the expected contents of a sector are the image's bytes.
\<close>

subsection \<open>Chunks do not overlap\<close>

definition ordered :: "dfu_chunk list \<Rightarrow> bool" where
  "ordered cs \<longleftrightarrow> sorted_wrt (\<lambda>c d. chunkEnd c \<le> chunkAddress d) cs"

lemma spaced_sort: "spaced gs \<Longrightarrow> sort_key segAddress gs = gs"
proof (rule sort_key_id_if_sorted)
  assume "spaced gs"
  then show "sorted (map segAddress gs)"
    unfolding spaced_def sorted_map by (rule sorted_wrt_mono_rel [rotated]) (simp add: segEnd_def)
qed

lemma piecesFrom_bounds:
  assumes "c \<in> set (piecesFrom ts g nx off)"
  shows "segAddress g + int off \<le> chunkAddress c" "chunkAddress c < segEnd g"
    "\<And>a. nx = Some a \<Longrightarrow> segEnd g \<le> a \<Longrightarrow> chunkEnd c \<le> a"
proof -
  from assms obtain k where k: "off + k * ts < length (segData g)" "c = segmentChunk ts g nx (off + k * ts)"
    by (rule piecesFrom_in)
  then show "segAddress g + int off \<le> chunkAddress c" "chunkAddress c < segEnd g"
    by (simp_all add: segEnd_def del: of_nat_add of_nat_mult)
  show "chunkEnd c \<le> a" if "nx = Some a" "segEnd g \<le> a" for a
    using segmentChunk_end [of nx g "off + k * ts" a ts] that k by simp
qed

lemma piecesFrom_ordered: "ordered (piecesFrom ts g nx off)"
proof (induction ts g nx off rule: piecesFrom.induct)
  case (1 ts g nx off)
  show ?case
  proof (cases "ts = 0 \<or> length (segData g) \<le> off")
    case True
    then show ?thesis by (simp add: ordered_def piecesFrom.simps [of ts g nx off])
  next
    case False
    have "chunkEnd (segmentChunk ts g nx off) \<le> chunkAddress d" if d: "d \<in> set (piecesFrom ts g nx (off + ts))" for d
    proof -
      have "off + ts < length (segData g)" using d by (auto simp: piecesFrom.simps [of ts g nx "off + ts"] split: if_splits)
      from segmentChunk_inner [OF this] piecesFrom_bounds(1) [OF d] show ?thesis by simp
    qed
    then show ?thesis using "1.IH" [OF False] False
      by (simp add: ordered_def piecesFrom.simps [of ts g nx off])
  qed
qed

lemma allPieces_ordered:
  assumes "spaced gs"
  shows "ordered (allPieces ts gs)"
  using assms
proof (induction gs)
  case (Cons g gs)
  let ?nx = "case gs of [] \<Rightarrow> None | g' # _ \<Rightarrow> Some (segAddress g')"
  have "chunkEnd c \<le> chunkAddress d" if c: "c \<in> set (piecesFrom ts g ?nx 0)" and d: "d \<in> set (allPieces ts gs)" for c d
  proof -
    from allPieces_in [OF d] obtain g2 nx k where g2: "g2 \<in> set gs" "d = segmentChunk ts g2 nx (k * ts)" by blast
    then obtain g1 rest where gs: "gs = g1 # rest" by (cases gs) auto
    have "segEnd g \<le> segAddress g1" using Cons.prems gs by (simp add: spaced_def)
    then have "chunkEnd c \<le> segAddress g1" using piecesFrom_bounds(3) [OF c, of "segAddress g1"] gs by simp
    also have "\<dots> \<le> segAddress g2" using Cons.prems g2(1) gs by (auto simp: spaced_def segEnd_def)
    also have "segAddress g2 \<le> chunkAddress d" using g2(2) by simp
    finally show ?thesis .
  qed
  moreover have "ordered (allPieces ts gs)" using Cons by (simp add: spaced_def)
  ultimately show ?case using piecesFrom_ordered [of ts g ?nx 0] by (simp add: ordered_def sorted_wrt_append)
qed (simp add: ordered_def)

lemma allPieces_image:
  assumes "holds gs x b" "0 < ts"
  shows "\<exists>c\<in>set (allPieces ts gs). chunkHolds c x b"
proof -
  from assms(1) obtain g where g: "g \<in> set gs" "segAddress g \<le> x" "x < segEnd g" "segData g ! nat (x - segAddress g) = b"
    by (auto simp: holds_def segByte_def split: if_splits)
  then have "nat (x - segAddress g) < length (segData g)" "segAddress g + int (nat (x - segAddress g)) = x"
    by (simp_all add: segEnd_def)
  with allPieces_holds [OF g(1) this(1) assms(2)] g(4) show ?thesis by simp
qed

lemma allPieces_facts:
  assumes "c \<in> set (allPieces ts gs)" "0 < ts"
  shows "\<exists>g\<in>set gs. segAddress g \<le> chunkAddress c \<and> chunkAddress c < segEnd g \<and> int ts dvd chunkAddress c - segAddress g"
    "0 < length (chunkData c)" "length (chunkData c) \<le> ts"
proof -
  from allPieces_in [OF assms(1)] obtain g nx k where g: "g \<in> set gs" "k * ts < length (segData g)"
    "c = segmentChunk ts g nx (k * ts)" by blast
  then show "0 < length (chunkData c)" "length (chunkData c) \<le> ts"
    using segmentChunk_length [of "k * ts" g ts nx] assms(2) by simp_all
  show "\<exists>g\<in>set gs. segAddress g \<le> chunkAddress c \<and> chunkAddress c < segEnd g \<and> int ts dvd chunkAddress c - segAddress g"
    using g by (intro bexI [of _ g]) (simp_all add: segEnd_def flip: of_nat_mult)
qed

subsection \<open>The held word\<close>

lemma takeWhile_shorter: "\<exists>x\<in>set xs. P x \<Longrightarrow> length (takeWhile (\<lambda>x. \<not> P x) xs) < length xs"
  by (induction xs) auto

lemma splitHeld_Some:
  assumes "splitHeld appStart cs = Some (held, rest)"
  obtains before first behind where "cs = before @ first # behind"
    "held = \<lparr>chunkAddress = chunkAddress first, chunkData = take FLASH_WORD_BYTES (chunkData first)\<rparr>"
    "rest = before @ (if length (chunkData first) > FLASH_WORD_BYTES
       then [\<lparr>chunkAddress = chunkAddress first + int FLASH_WORD_BYTES,
              chunkData = drop FLASH_WORD_BYTES (chunkData first)\<rparr>] else []) @ behind"
    "(\<exists>c\<in>set cs. Some (chunkAddress c) = appStart) \<longrightarrow> Some (chunkAddress first) = appStart"
proof -
  let ?is = "\<lambda>c. Some (chunkAddress c) = appStart"
  define before where "before = (if list_ex ?is cs then takeWhile (\<lambda>c. \<not> ?is c) cs else [])"
  have ne: "cs \<noteq> []" using assms by (auto simp: splitHeld_def)
  have pre: "before = take (length before) cs" by (simp add: before_def flip: takeWhile_eq_take)
  have n: "length before < length cs"
  proof (cases "list_ex ?is cs")
    case True
    then have "\<exists>c\<in>set cs. ?is c" by (simp add: list_ex_iff)
    from takeWhile_shorter [OF this] True show ?thesis by (simp add: before_def)
  qed (simp add: before_def ne)
  have split: "cs = before @ cs ! length before # drop (Suc (length before)) cs"
    using pre n by (metis append_take_drop_id Cons_nth_drop_Suc)
  have eq: "(held, rest) = (\<lparr>chunkAddress = chunkAddress (cs ! length before),
      chunkData = take FLASH_WORD_BYTES (chunkData (cs ! length before))\<rparr>,
    before @ (if length (chunkData (cs ! length before)) > FLASH_WORD_BYTES
       then [\<lparr>chunkAddress = chunkAddress (cs ! length before) + int FLASH_WORD_BYTES,
              chunkData = drop FLASH_WORD_BYTES (chunkData (cs ! length before))\<rparr>] else []) @ drop (Suc (length before)) cs)"
    using assms ne unfolding splitHeld_def Let_def before_def [symmetric] by simp
  have "(\<exists>c\<in>set cs. ?is c) \<longrightarrow> ?is (cs ! length before)"
  proof
    assume "\<exists>c\<in>set cs. ?is c"
    then have l: "list_ex ?is cs" by (simp add: list_ex_iff)
    then have "before = takeWhile (\<lambda>c. \<not> ?is c) cs" by (simp add: before_def)
    with nth_length_takeWhile [of "\<lambda>c. \<not> ?is c" cs] n show "?is (cs ! length before)" by simp
  qed
  with split eq show thesis by (intro that) simp_all
qed

lemma splitHeld_holds:
  assumes "splitHeld appStart cs = Some (held, rest)" "c \<in> set cs" "chunkHolds c x b"
  shows "\<exists>d\<in>set (held # rest). chunkHolds d x b"
proof -
  from assms(1) obtain before first behind where s: "cs = before @ first # behind"
    "held = \<lparr>chunkAddress = chunkAddress first, chunkData = take FLASH_WORD_BYTES (chunkData first)\<rparr>"
    "rest = before @ (if length (chunkData first) > FLASH_WORD_BYTES
       then [\<lparr>chunkAddress = chunkAddress first + int FLASH_WORD_BYTES,
              chunkData = drop FLASH_WORD_BYTES (chunkData first)\<rparr>] else []) @ behind"
    by (rule splitHeld_Some)
  show ?thesis
  proof (cases "c = first")
    case True
    show ?thesis
    proof (cases "nat (x - chunkAddress first) < FLASH_WORD_BYTES")
      case True
      then have "chunkHolds held x b" using assms(3) \<open>c = first\<close> s(2) by (auto simp: chunkHolds_def chunkEnd_def)
      then show ?thesis by simp
    next
      case False
      then have l: "length (chunkData first) > FLASH_WORD_BYTES"
        using assms(3) \<open>c = first\<close> by (auto simp: chunkHolds_def chunkEnd_def)
      let ?t = "\<lparr>chunkAddress = chunkAddress first + int FLASH_WORD_BYTES, chunkData = drop FLASH_WORD_BYTES (chunkData first)\<rparr>"
      have "FLASH_WORD_BYTES + nat (x - (chunkAddress first + int FLASH_WORD_BYTES)) = nat (x - chunkAddress first)"
        using False by linarith
      then have "chunkHolds ?t x b"
        using False assms(3) \<open>c = first\<close> l by (auto simp: chunkHolds_def chunkEnd_def)
      then show ?thesis using s(3) l by auto
    qed
  next
    case False
    then show ?thesis using assms(2,3) s by auto
  qed
qed

text \<open>No other write overlaps the held word.\<close>

lemma splitHeld_apart:
  assumes "splitHeld appStart cs = Some (held, rest)" "ordered cs" "c \<in> set rest"
  shows "chunkEnd c \<le> chunkAddress held \<or> chunkEnd held \<le> chunkAddress c"
proof -
  from assms(1) obtain before first behind where s: "cs = before @ first # behind"
    "held = \<lparr>chunkAddress = chunkAddress first, chunkData = take FLASH_WORD_BYTES (chunkData first)\<rparr>"
    "rest = before @ (if length (chunkData first) > FLASH_WORD_BYTES
       then [\<lparr>chunkAddress = chunkAddress first + int FLASH_WORD_BYTES,
              chunkData = drop FLASH_WORD_BYTES (chunkData first)\<rparr>] else []) @ behind"
    by (rule splitHeld_Some)
  have "chunkEnd held \<le> chunkEnd first" using s(2) by (simp add: chunkEnd_def)
  then show ?thesis using assms(2,3) s
    by (fastforce simp: ordered_def sorted_wrt_append chunkEnd_def split: if_splits)
qed

lemma splitHeld_range:
  assumes "splitHeld appStart cs = Some (held, rest)" "\<forall>c\<in>set cs. 0 \<le> chunkAddress c \<and> chunkAddress c + 32 < m"
  shows "0 \<le> chunkAddress held \<and> chunkAddress held < m" "\<forall>c\<in>set rest. 0 \<le> chunkAddress c \<and> chunkAddress c < m"
proof -
  from assms(1) obtain before first behind where s: "cs = before @ first # behind"
    "held = \<lparr>chunkAddress = chunkAddress first, chunkData = take FLASH_WORD_BYTES (chunkData first)\<rparr>"
    "rest = before @ (if length (chunkData first) > FLASH_WORD_BYTES
       then [\<lparr>chunkAddress = chunkAddress first + int FLASH_WORD_BYTES,
              chunkData = drop FLASH_WORD_BYTES (chunkData first)\<rparr>] else []) @ behind"
    by (rule splitHeld_Some)
  have f: "0 \<le> chunkAddress first" "chunkAddress first + 32 < m" using assms(2) s(1) by simp_all
  then show "0 \<le> chunkAddress held \<and> chunkAddress held < m" using s(2) by simp
  have "0 \<le> chunkAddress c \<and> chunkAddress c < m" if "c \<in> set before \<union> set behind" for c
  proof -
    have "0 \<le> chunkAddress c" "chunkAddress c + 32 < m" using assms(2) s(1) that by auto
    then show ?thesis by simp
  qed
  then show "\<forall>c\<in>set rest. 0 \<le> chunkAddress c \<and> chunkAddress c < m"
    using f s(3) by (auto simp: FLASH_WORD_BYTES_def)
qed

subsection \<open>The expected contents of a sector\<close>

lemma nat_window:
  "S \<le> a \<Longrightarrow> A \<le> a \<Longrightarrow> a < b \<Longrightarrow> b \<le> S + int n \<Longrightarrow> nat (a - S) + (nat (b - A) - nat (a - A)) \<le> n"
  by linarith

lemma length_overlay [simp]: "length expected = sectSize s \<Longrightarrow> length (overlay s g expected) = sectSize s"
proof -
  assume e: "length expected = sectSize s"
  let ?a = "max (sectStart s) (segAddress g)" and ?b = "min (sectEnd s) (segAddress g + int (length (segData g)))"
  have "nat (?a - sectStart s) + length (slice (nat (?a - segAddress g)) (nat (?b - segAddress g)) (segData g)) \<le> sectSize s"
    if "?a < ?b"
  proof -
    have "?b \<le> sectStart s + int (sectSize s)" unfolding sectEnd_def by (rule min.cobounded1)
    from nat_window [OF max.cobounded1 max.cobounded2 that this]
    have w: "nat (?a - sectStart s) + (nat (?b - segAddress g) - nat (?a - segAddress g)) \<le> sectSize s" .
    have "length (slice (nat (?a - segAddress g)) (nat (?b - segAddress g)) (segData g))
      \<le> nat (?b - segAddress g) - nat (?a - segAddress g)" by (simp only: length_slice min.cobounded1)
    from add_left_mono [OF this] w show ?thesis by (rule order_trans)
  qed
  then have "length (put (nat (?a - sectStart s)) (slice (nat (?a - segAddress g)) (nat (?b - segAddress g)) (segData g)) expected)
    = sectSize s" if "?a < ?b" using that e by (subst length_put) (simp_all only:)
  then show ?thesis using e by (auto simp only: overlay_def Let_def split: if_splits)
qed

lemma length_expectedSector [simp]: "length (expectedSector s segs) = sectSize s"
proof -
  have "length (fold (overlay s) gs e) = sectSize s" if "length e = sectSize s" for gs e
    using that by (induction gs arbitrary: e) simp_all
  then show ?thesis by (simp add: expectedSector_def)
qed

lemma overlay_nth:
  assumes "length e = sectSize s" "i < sectSize s"
  shows "overlay s g e ! i = (case segByte g (sectStart s + int i) of None \<Rightarrow> e ! i | Some b \<Rightarrow> b)"
proof -
  define a where "a = max (sectStart s) (segAddress g)"
  define z where "z = min (sectEnd s) (segEnd g)"
  have a: "sectStart s \<le> a" "segAddress g \<le> a" "a = sectStart s \<or> a = segAddress g" by (simp_all add: a_def max_def)
  have z: "z \<le> sectStart s + int (sectSize s)" "z \<le> segEnd g" "z = sectStart s + int (sectSize s) \<or> z = segEnd g"
    by (simp_all add: z_def sectEnd_def min_def)
  have o: "overlay s g e = (if a < z then put (nat (a - sectStart s)) (slice (nat (a - segAddress g)) (nat (z - segAddress g)) (segData g)) e else e)"
    by (simp add: overlay_def Let_def a_def z_def segEnd_def)
  show ?thesis
  proof (cases "a \<le> sectStart s + int i \<and> sectStart s + int i < z")
    case True
    let ?d = "slice (nat (a - segAddress g)) (nat (z - segAddress g)) (segData g)"
    let ?j = "i - nat (a - sectStart s)"
    have j: "nat (a - sectStart s) \<le> i" "nat (a - segAddress g) + ?j = nat (sectStart s + int i - segAddress g)"
      using True a by linarith+
    have l: "nat (sectStart s + int i - segAddress g) < length (segData g)"
      "nat (sectStart s + int i - segAddress g) < nat (z - segAddress g)"
      using True a z(2) by (simp_all add: segEnd_def) linarith+
    have "?j < length ?d" using j l unfolding length_slice by linarith
    moreover have "?d ! ?j = segData g ! nat (sectStart s + int i - segAddress g)"
    proof -
      have "?j < nat (z - segAddress g) - nat (a - segAddress g)" using j l by linarith
      moreover have "nat (a - segAddress g) \<le> length (segData g)" using j l by linarith
      ultimately have "?d ! ?j = segData g ! (nat (a - segAddress g) + ?j)" by (simp add: slice_def)
      then show ?thesis unfolding j(2) .
    qed
    moreover have "nat (a - sectStart s) \<le> length e" using j assms by linarith
    ultimately have "put (nat (a - sectStart s)) ?d e ! i = segData g ! nat (sectStart s + int i - segAddress g)"
      using j(1) by (simp add: put_def nth_append min_absorb2 del: length_slice)
    moreover have "a < z" using True by linarith
    moreover have "segByte g (sectStart s + int i) = Some (segData g ! nat (sectStart s + int i - segAddress g))"
      using True a z(2) by (simp add: segByte_def)
    ultimately show ?thesis by (simp add: o)
  next
    case False
    have none: "segByte g (sectStart s + int i) = None"
      using False a(3) z(3) assms(2) by (auto simp: segByte_def)
    show ?thesis
    proof (cases "a < z")
      case True
      let ?d = "slice (nat (a - segAddress g)) (nat (z - segAddress g)) (segData g)"
      have "length ?d = nat (z - a)"
        using True a(2) z(2) unfolding length_slice by (simp add: segEnd_def)
      moreover have "i < nat (a - sectStart s) \<or> nat (a - sectStart s) + nat (z - a) \<le> i"
        using False True a(1) by linarith
      moreover have "nat (a - sectStart s) + nat (z - a) \<le> length e" using True a(1) z(1) assms(1) by linarith
      ultimately have "put (nat (a - sectStart s)) ?d e ! i = e ! i"
        by (auto simp: put_def nth_append min_absorb2 simp del: length_slice)
      then show ?thesis using True none by (simp add: o)
    qed (simp add: o none)
  qed
qed

lemma fold_overlay_nth:
  assumes "length e = sectSize s" "i < sectSize s" "\<forall>g\<in>set gs. segByte g (sectStart s + int i) \<in> {None, Some b}"
    and "(\<exists>g\<in>set gs. segByte g (sectStart s + int i) = Some b) \<or> e ! i = b"
  shows "fold (overlay s) gs e ! i = b"
  using assms
proof (induction gs arbitrary: e)
  case (Cons g gs)
  have l: "length (overlay s g e) = sectSize s"
    using Cons.prems(1) by simp
  show ?case using Cons.IH [OF l] overlay_nth [OF Cons.prems(1,2), of g] Cons.prems by auto
qed simp

lemma expectedSector_image:
  assumes "spaced gs" "holds gs x b" "sectStart s \<le> x" "x < sectEnd s"
  shows "expectedSector s gs ! nat (x - sectStart s) = b"
proof -
  define i where "i = nat (x - sectStart s)"
  have i: "i < sectSize s" "sectStart s + int i = x" using assms(3,4) by (simp_all add: i_def sectEnd_def)
  have "segByte g x \<in> {None, Some b}" if "g \<in> set gs" for g
    using spaced_unique [OF assms(1,2)] that by (cases "segByte g x") (auto simp: holds_def)
  moreover have "\<exists>g\<in>set gs. segByte g x = Some b" using assms(2) by (simp add: holds_def)
  ultimately show ?thesis
    unfolding expectedSector_def i_def [symmetric] by (intro fold_overlay_nth) (use i in simp_all)
qed

end
