(* ===== verification/Dfu_Flash.thy ===== *)
theory Dfu_Flash
  imports Dfu_Order Dfu_Cover
begin

text \<open>
  The acts of a whole \<open>flash\<close>, stage by stage, and what they mean for the image: where the
  held word is written, which sectors are left alone, and what was read back.
\<close>

subsection \<open>Sectors left alone\<close>

text \<open>The sector was read and holds what the image would put there.\<close>

definition sectorShown :: "hex_segment list \<Rightarrow> dfu_act list \<Rightarrow> dfu_sector \<Rightarrow> bool" where
  "sectorShown segs xs s \<longleftrightarrow> (\<forall>i < sectSize s. shown xs (sectStart s + int i) (expectedSector s segs ! i))"

definition keptPost :: "int \<Rightarrow> hex_segment list \<Rightarrow> dfu_sector list \<Rightarrow> int list \<Rightarrow> dfu_act list \<Rightarrow> bool" where
  "keptPost appStart segs ss kept xs \<longleftrightarrow> (\<forall>a\<in>set kept. \<exists>s\<in>set ss. sectStart s = a
     \<and> imageStart segs \<le> a \<and> sectEnd s \<le> appStart \<and> sectorShown segs xs s)"

lemma sectorShown_mono: "sectorShown segs xs s \<Longrightarrow> set xs \<subseteq> set ys \<Longrightarrow> sectorShown segs ys s"
  unfolding sectorShown_def using shown_mono by blast

lemma does_unchangedSectors:
  assumes "\<forall>s\<in>set ss. inRange (sectStart s)"
  shows "does ts (unchangedSectors usb ts appStart segs ss kept) (\<lambda>r p q xs. onlyReads xs
    \<and> (\<forall>kept'. r = Inr kept' \<longrightarrow> (\<forall>a\<in>set kept'. a \<in> set kept \<or> keptPost appStart segs ss [a] xs)))"
  using assms
proof (induction ss arbitrary: kept)
  case Nil
  show ?case by (auto intro: does_return)
next
  case (Cons s ss)
  note IH = Cons.IH
  show ?case
  proof (cases "sectStart s < imageStart segs \<or> sectEnd s > appStart \<or> \<not> sectReadable s")
    case True
    have "does ts (unchangedSectors usb ts appStart segs ss kept) (\<lambda>r p q xs. onlyReads xs
      \<and> (\<forall>kept'. r = Inr kept' \<longrightarrow> (\<forall>a\<in>set kept'. a \<in> set kept \<or> keptPost appStart segs (s # ss) [a] xs)))"
      by (rule does_weaken [OF IH]) (use Cons.prems in \<open>auto simp: keptPost_def\<close>)
    then show ?thesis using True by simp
  next
    case False
    let ?k = "\<lambda>actual. unchangedSectors usb ts appStart segs ss
          (if bytesEqual actual (expectedSector s segs) then kept @ [sectStart s] else kept)"
    have "does ts (bind_io (retryReads usb (readRange usb ts (sectStart s) (sectSize s))) ?k) (\<lambda>r p q xs. onlyReads xs
      \<and> (\<forall>kept'. r = Inr kept' \<longrightarrow> (\<forall>a\<in>set kept'. a \<in> set kept \<or> keptPost appStart segs (s # ss) [a] xs)))"
    proof (rule does_bind [OF does_retryRange IH])
      show "inRange (sectStart s)" using Cons.prems by simp
      show "\<forall>s\<in>set ss. inRange (sectStart s)" using Cons.prems by simp
    next
      fix actual r p q t xs ys
      let ?kept = "if bytesEqual actual (expectedSector s segs) then kept @ [sectStart s] else kept"
      assume x: "rangePost (sectStart s) (sectSize s) (Inr actual) xs"
        and y: "onlyReads ys \<and> (\<forall>kept'. r = Inr kept' \<longrightarrow>
          (\<forall>a\<in>set kept'. a \<in> set ?kept \<or> keptPost appStart segs ss [a] ys))"
      have s: "keptPost appStart segs (s # ss) [sectStart s] (xs @ ys)" if "bytesEqual actual (expectedSector s segs)"
      proof -
        have "length actual = sectSize s" "\<And>i. i < sectSize s \<Longrightarrow> shown xs (sectStart s + int i) (actual ! i)"
          using x by (auto simp: rangePost_def)
        moreover from this(1) have "actual = expectedSector s segs" using that by (simp add: bytesEqual_take)
        ultimately have "sectorShown segs xs s" by (simp add: sectorShown_def)
        then have "sectorShown segs (xs @ ys) s" by (rule sectorShown_mono) simp
        then show ?thesis using False by (simp add: keptPost_def not_less)
      qed
      have m: "keptPost appStart segs (s # ss) [a] (xs @ ys)" if "keptPost appStart segs ss [a] ys" for a
        using that sectorShown_mono [of segs ys _ "xs @ ys"] by (auto simp: keptPost_def)
      have "a \<in> set kept \<or> keptPost appStart segs (s # ss) [a] (xs @ ys)" if "r = Inr kept'" "a \<in> set kept'" for kept' a
      proof -
        have "a \<in> set ?kept \<or> keptPost appStart segs ss [a] ys" using y that by blast
        then show ?thesis using s m by (cases "bytesEqual actual (expectedSector s segs)") auto
      qed
      then show "onlyReads (xs @ ys) \<and> (\<forall>kept'. r = Inr kept' \<longrightarrow>
          (\<forall>a\<in>set kept'. a \<in> set kept \<or> keptPost appStart segs (s # ss) [a] (xs @ ys)))"
        using x y by (auto simp: rangePost_def)
    qed (auto simp: rangePost_def)
    then show ?thesis using False by simp
  qed
qed

lemma does_unchangedBelow:
  assumes "\<forall>s\<in>set (devMemory dev). inRange (sectStart s)"
  shows "does (devTransferSize dev) (unchangedSectorsBelow dev appStart segs) (\<lambda>r p q xs. onlyReads xs
    \<and> (\<forall>kept. r = Inr kept \<longrightarrow> keptPost appStart segs (devMemory dev) kept xs))"
  unfolding unchangedSectorsBelow_def
  by (rule does_weaken [OF does_unchangedSectors [OF assms]]) (auto simp: keptPost_def)

subsection \<open>Erasing and writing\<close>

definition erasePost :: "dfu_device \<Rightarrow> bool \<Rightarrow> int list \<Rightarrow> hex_segment list \<Rightarrow> dfu_act list \<Rightarrow> bool" where
  "erasePost dev fullErase kept segs xs \<longleftrightarrow> (\<forall>x\<in>set xs.
     (x = Act_mass_erase \<and> devMemory dev = [])
     \<or> (\<exists>s\<in>set (devMemory dev). x = Act_erase (address32 (sectStart s)) \<and> sectStart s \<notin> set kept
          \<and> (if fullErase then sectEnd s > imageStart segs else \<exists>g\<in>set segs. sectorTouches s g)))"

lemma does_eachSector:
  "does ts (eachSector usb progress as) (\<lambda>r p q xs. set xs \<subseteq> (\<lambda>a. Act_erase (address32 a)) ` set as)"
proof (induction as)
  case Nil
  show ?case by (auto intro: does_return)
next
  case (Cons a as)
  show ?case unfolding eachSector.simps
    by (rule does_reportThen, rule does_then [OF does_eraseSector Cons.IH]) auto
qed

lemma does_eraseSectors:
  "does ts (eraseSectors usb progress as) (\<lambda>r p q xs. set xs \<subseteq> (\<lambda>a. Act_erase (address32 a)) ` set as)"
  unfolding eraseSectors_def by (rule does_then [OF does_eachSector does_report]) auto

lemma does_flashErase:
  "does ts (flashErase dev progress fullErase kept segs) (\<lambda>r p q xs. erasePost dev fullErase kept segs xs)"
proof -
  have whole: "does ts (then_io (dfuReport progress Phase_erase)
      (then_io (massErase (devUsb dev)) (dfuReport progress Phase_erase))) (\<lambda>r p q xs. xs = [Act_mass_erase])"
    by (rule does_reportThen, rule does_then [OF does_massErase does_report]) auto
  have sectors: "does ts (eraseSectors (devUsb dev) progress as) (\<lambda>r p q xs. erasePost dev fullErase kept segs xs)"
    if "\<And>a. a \<in> set as \<Longrightarrow> \<exists>s\<in>set (devMemory dev). a = sectStart s \<and> sectStart s \<notin> set kept
          \<and> (if fullErase then sectEnd s > imageStart segs else \<exists>g\<in>set segs. sectorTouches s g)" for as
    by (rule does_weaken [OF does_eraseSectors]) (use that in \<open>fastforce simp: erasePost_def\<close>)
  show ?thesis
  proof (cases "devMemory dev = []")
    case True
    then show ?thesis unfolding flashErase_def Let_def
      by (auto intro!: does_weaken [OF whole] simp: erasePost_def)
  next
    case mem: False
    show ?thesis
    proof (cases fullErase)
      case True
      have "does ts (eraseSectors (devUsb dev) progress
          (map sectStart (filter (\<lambda>s. sectEnd s > imageStart segs \<and> sectStart s \<notin> set kept) (devMemory dev))))
        (\<lambda>r p q xs. erasePost dev fullErase kept segs xs)"
        by (rule sectors) (use True in auto)
      then show ?thesis using mem True by (simp add: flashErase_def Let_def)
    next
      case False
      have "does ts (if sectorsToErase (devMemory dev) segs = [] then throw_io Outside_memory_map
          else eraseSectors (devUsb dev) progress (filter (\<lambda>a. a \<notin> set kept) (sectorsToErase (devMemory dev) segs)))
        (\<lambda>r p q xs. erasePost dev fullErase kept segs xs)"
      proof (cases "sectorsToErase (devMemory dev) segs = []")
        case True
        then show ?thesis by (simp add: does_throw erasePost_def)
      next
        case ne: False
        have "does ts (eraseSectors (devUsb dev) progress (filter (\<lambda>a. a \<notin> set kept) (sectorsToErase (devMemory dev) segs)))
          (\<lambda>r p q xs. erasePost dev fullErase kept segs xs)"
          by (rule sectors) (use False sectorsToErase_iff in auto)
        then show ?thesis using ne by simp
      qed
      then show ?thesis using False mem by (simp add: flashErase_def Let_def)
    qed
  qed
qed

lemma does_writeAll:
  assumes "\<forall>c\<in>set cs. inRange (chunkAddress c)"
  shows "does ts (writeAll usb progress cs) (\<lambda>r p q xs. set xs \<subseteq> chunkWrite ` set cs
    \<and> (r = Inr () \<longrightarrow> chunkWrite ` set cs \<subseteq> set xs))"
  using assms
proof (induction cs)
  case Nil
  show ?case by (auto intro: does_return)
next
  case (Cons c cs)
  have c: "Act_write (address32 (chunkAddress c)) (chunkData c) = chunkWrite c"
    using Cons.prems by (simp add: chunkWrite_def address32_inRange)
  have "\<forall>c\<in>set cs. inRange (chunkAddress c)" using Cons.prems by simp
  note rest = does_reportThen [OF Cons.IH [OF this], of progress Phase_program]
  show ?case unfolding writeAll.simps
    by (rule does_then [OF does_writeChunk [of ts usb c, unfolded c] rest]) (auto simp: neq_Nil_conv)
qed

definition programPost :: "dfu_chunk \<Rightarrow> dfu_chunk list \<Rightarrow> dfu_error + unit \<Rightarrow> dfu_act list \<Rightarrow> bool" where
  "programPost held rest r xs \<longleftrightarrow> (\<exists>P V H W. xs = P @ V @ H @ W \<and> set P \<subseteq> chunkWrite ` set rest
     \<and> onlyReads V \<and> set H \<subseteq> {chunkWrite held} \<and> onlyReads W
     \<and> (H \<noteq> [] \<longrightarrow> chunkWrite ` set rest \<subseteq> set P \<and> (\<forall>c\<in>set rest. confirmed V c))
     \<and> (r = Inr () \<longrightarrow> H \<noteq> [] \<and> confirmed W held))"

lemma programPostI:
  assumes "xs = P @ V @ H @ W" "set P \<subseteq> chunkWrite ` set rest" "onlyReads V" "set H \<subseteq> {chunkWrite held}" "onlyReads W"
    and "H \<noteq> [] \<Longrightarrow> chunkWrite ` set rest \<subseteq> set P \<and> (\<forall>c\<in>set rest. confirmed V c)"
    and "r = Inr () \<Longrightarrow> H \<noteq> [] \<and> confirmed W held"
  shows "programPost held rest r xs"
  unfolding programPost_def using assms by blast

lemma does_flashProgram:
  assumes "inRange (chunkAddress held)" "\<forall>c\<in>set rest. inRange (chunkAddress c)"
  shows "does (devTransferSize dev) (flashProgram dev progress held rest) (\<lambda>r p q xs. programPost held rest r xs)"
proof -
  let ?usb = "devUsb dev" and ?ts = "devTransferSize dev"
  let ?W = "\<lambda>r (xs :: dfu_act list). verifyPost [held] r xs"
  have w: "does ?ts (verifyChunks ?usb ?ts progress [held]) (\<lambda>r p q xs. ?W r xs)"
    by (rule does_verifyChunks) (simp add: assms(1))
  have held: "does ?ts (writeChunk ?usb held) (\<lambda>r p q xs. set xs \<subseteq> {chunkWrite held} \<and> (\<not> isl r \<longrightarrow> xs \<noteq> []))"
    using does_writeChunk [of ?ts ?usb held] address32_inRange [OF assms(1)] by (simp add: chunkWrite_def)
  let ?H = "\<lambda>r xs. \<exists>H W. xs = H @ W \<and> set H \<subseteq> {chunkWrite held} \<and> onlyReads W \<and> (r = Inr () \<longrightarrow> H \<noteq> [] \<and> confirmed W held)"
  have h: "does ?ts (then_io (writeChunk ?usb held) (verifyChunks ?usb ?ts progress [held])) (\<lambda>r p q xs. ?H r xs)"
  proof (rule does_then [OF held w])
    fix e :: dfu_error and xs
    assume "set xs \<subseteq> {chunkWrite held} \<and> (\<not> isl (Inl e :: dfu_error + unit) \<longrightarrow> xs \<noteq> [])"
    then show "?H (Inl e) xs" by (intro exI [of _ xs] exI [of _ "[]"]) simp
  next
    fix x r xs ys
    assume "set xs \<subseteq> {chunkWrite held} \<and> (\<not> isl (Inr x :: dfu_error + unit) \<longrightarrow> xs \<noteq> [])" "?W r ys"
    then show "?H r (xs @ ys)" by (intro exI [of _ xs] exI [of _ ys]) (auto simp: verifyPost_def)
  qed
  note h = does_reportThen [OF h, of progress Phase_verify]
  let ?V = "\<lambda>r xs. \<exists>V H W. xs = V @ H @ W \<and> onlyReads V \<and> set H \<subseteq> {chunkWrite held} \<and> onlyReads W
     \<and> (H \<noteq> [] \<longrightarrow> (\<forall>c\<in>set rest. confirmed V c)) \<and> (r = Inr () \<longrightarrow> H \<noteq> [] \<and> confirmed W held)"
  have v: "does ?ts (then_io (verifyChunks ?usb ?ts progress rest) (then_io (dfuReport progress Phase_verify)
      (then_io (writeChunk ?usb held) (verifyChunks ?usb ?ts progress [held])))) (\<lambda>r p q xs. ?V r xs)"
  proof (rule does_then [OF does_verifyChunks [OF assms(2)] h])
    fix e xs assume "verifyPost rest (Inl e) xs"
    then show "?V (Inl e) xs" by (intro exI [of _ xs] exI [of _ "[]"]) (simp add: verifyPost_def)
  next
    fix x r xs ys assume x: "verifyPost rest (Inr x) xs" and "?H r ys"
    then obtain H W where "ys = H @ W" "set H \<subseteq> {chunkWrite held}" "onlyReads W"
      "r = Inr () \<longrightarrow> H \<noteq> [] \<and> confirmed W held" by blast
    with x show "?V r (xs @ ys)" by (intro exI [of _ xs] exI [of _ H] exI [of _ W]) (simp add: verifyPost_def)
  qed
  show ?thesis
    unfolding flashProgram_def Let_def
  proof (rule does_then [OF does_writeAll [OF assms(2)] v])
    fix e :: dfu_error and xs assume "set xs \<subseteq> chunkWrite ` set rest \<and> (Inl e = Inr () \<longrightarrow> chunkWrite ` set rest \<subseteq> set xs)"
    then show "programPost held rest (Inl e) xs" by (intro programPostI [of xs xs "[]" "[]" "[]"]) simp_all
  next
    fix x :: unit and r :: "dfu_error + unit" and xs ys
    assume x: "set xs \<subseteq> chunkWrite ` set rest \<and> (Inr x = Inr () \<longrightarrow> chunkWrite ` set rest \<subseteq> set xs)" and "?V r ys"
    then obtain V H W where y: "ys = V @ H @ W" "onlyReads V" "set H \<subseteq> {chunkWrite held}" "onlyReads W"
      "H \<noteq> [] \<longrightarrow> (\<forall>c\<in>set rest. confirmed V c)" "r = Inr () \<longrightarrow> H \<noteq> [] \<and> confirmed W held" by blast
    show "programPost held rest r (xs @ ys)"
      by (rule programPostI [of _ xs V H W]) (use x y in simp_all)
  qed
qed

lemma does_flashLeave: "does ts (flashLeave usb progress a) (\<lambda>r p q xs. xs = [])"
proof -
  have "silent (then_io (download usb 0 []) (bind_io (getStatus usb) (\<lambda>_. return_io ())))"
    by (intro silent_rules)
  then have s: "does ts (then_io (setAddress usb a) (then_io (download usb 0 []) (bind_io (getStatus usb) (\<lambda>_. return_io ()))))
     (\<lambda>r p q xs. xs = [])"
    by (intro does_then [OF does_setAddress does_silent [where Q = "\<lambda>r p q xs. xs = []"]]) auto
  have "does ts (catch_io (then_io (setAddress usb a) (then_io (download usb 0 []) (bind_io (getStatus usb) (\<lambda>_. return_io ()))))
      (\<lambda>_. return_io ())) (\<lambda>r p q xs. xs = [])"
    by (rule does_catch [OF s does_return [where Q = "\<lambda>r p q xs. xs = []"]]) auto
  then show ?thesis unfolding flashLeave_def
    by (intro does_reportThen does_then [OF _ does_report, where R = "\<lambda>r p q xs. xs = []"]) auto
qed

subsection \<open>The whole flash\<close>

text \<open>Addresses that fit the address pointer.\<close>

definition image_ok :: "dfu_device \<Rightarrow> hex_segment list \<Rightarrow> bool" where
  "image_ok dev segs \<longleftrightarrow> (\<forall>g\<in>set segs. 0 \<le> segAddress g \<and> segEnd g + 32 \<le> 2 ^ 32)
     \<and> (\<forall>s\<in>set (devMemory dev). inRange (sectStart s))"

text \<open>The writes that remain when the kept sectors are left out.\<close>

definition flashPlan :: "dfu_device \<Rightarrow> hex_segment list \<Rightarrow> int list \<Rightarrow> (dfu_chunk \<times> dfu_chunk list) option" where
  "flashPlan dev segs kept = Option.bind (planDfuChunks segs (devTransferSize dev))
     (\<lambda>chunks. splitHeld (findAppStart segs (devMemory dev))
       (filter (\<lambda>c. \<not> inKeptSector (devMemory dev) kept (chunkAddress c)) chunks))"

definition keptOk :: "dfu_device \<Rightarrow> hex_segment list \<Rightarrow> int list \<Rightarrow> dfu_act list \<Rightarrow> bool" where
  "keptOk dev segs kept K \<longleftrightarrow> onlyReads K
     \<and> (kept = [] \<or> (\<exists>a. findAppStart segs (devMemory dev) = Some a \<and> keptPost a segs (devMemory dev) kept K))"

definition flashPost :: "dfu_device \<Rightarrow> bool \<Rightarrow> hex_segment list \<Rightarrow> dfu_error + unit \<Rightarrow> dfu_act list \<Rightarrow> bool" where
  "flashPost dev fullErase segs r xs \<longleftrightarrow> (\<exists>kept K E B. xs = K @ E @ B \<and> keptOk dev segs kept K
     \<and> erasePost dev fullErase kept segs E
     \<and> ((isl r \<and> B = []) \<or> (\<exists>held rest. flashPlan dev segs kept = Some (held, rest) \<and> programPost held rest r B)))"

lemma flashPlan_range:
  assumes "flashPlan dev segs kept = Some (held, rest)" "image_ok dev segs" "0 < devTransferSize dev"
  shows "inRange (chunkAddress held)" "\<forall>c\<in>set rest. inRange (chunkAddress c)"
proof -
  let ?cs = "filter (\<lambda>c. \<not> inKeptSector (devMemory dev) kept (chunkAddress c))
    (allPieces (devTransferSize dev) (sort_key segAddress segs))"
  have s: "splitHeld (findAppStart segs (devMemory dev)) ?cs = Some (held, rest)"
    using assms(1) planDfuChunks_Some [OF assms(3), of segs] by (simp add: flashPlan_def)
  have "0 \<le> chunkAddress c \<and> chunkAddress c + 32 < 2 ^ 32" if "c \<in> set ?cs" for c
  proof -
    have "c \<in> set (allPieces (devTransferSize dev) (sort_key segAddress segs))" using that by simp
    from allPieces_facts(1) [OF this assms(3)] obtain g where g: "g \<in> set segs"
      "segAddress g \<le> chunkAddress c" "chunkAddress c < segEnd g" by auto
    then have "0 \<le> segAddress g" "segEnd g + 32 \<le> 2 ^ 32" using assms(2) by (auto simp: image_ok_def)
    then show ?thesis using g(2,3) by simp
  qed
  then have "\<forall>c\<in>set ?cs. 0 \<le> chunkAddress c \<and> chunkAddress c + 32 < 2 ^ 32" by blast
  from splitHeld_range [OF s this]
  show "inRange (chunkAddress held)" "\<forall>c\<in>set rest. inRange (chunkAddress c)" by (simp_all add: inRange_def)
qed

lemma does_if: "(b \<Longrightarrow> does ts m Q) \<Longrightarrow> (\<not> b \<Longrightarrow> does ts n Q) \<Longrightarrow> does ts (if b then m else n) Q"
  by simp

lemma does_never [simp]: "does ts never_io Q"
  by (simp add: does_def never_io_def)

lemma planDfuChunks_zero:
  assumes "planDfuChunks segs 0 = Some chunks"
  shows "chunks = []"
proof -
  have loop: "segmentChunks 0 g nx off = Some cs \<Longrightarrow> cs = [] \<or> off < length (segData g)" for g nx off cs
    by (cases "off < length (segData g)") (simp, subst (asm) segmentChunks.simps, simp)
  have none: "segmentChunks ts g nx off = Some cs \<Longrightarrow> ts = 0 \<Longrightarrow> \<not> off < length (segData g)" for ts g nx off cs
  proof (rule segmentChunks.raw_induct [where P = "\<lambda>ts g nx off cs. ts = 0 \<longrightarrow> \<not> off < length (segData g)", THEN mp])
    fix f :: "nat \<Rightarrow> hex_segment \<Rightarrow> int option \<Rightarrow> nat \<Rightarrow> dfu_chunk list option" and ts g nx off cs
    assume IH: "\<And>ts g nx off cs. f ts g nx off = Some cs \<Longrightarrow> ts = 0 \<longrightarrow> \<not> off < length (segData g)"
      and run: "(if off < length (segData g) then Option.bind (f ts g nx (off + ts)) (\<lambda>cs. Some (segmentChunk ts g nx off # cs))
        else Some []) = Some cs"
    show "ts = 0 \<longrightarrow> \<not> off < length (segData g)"
      using IH [of 0 g nx off] run by (cases "ts = 0") (auto split: if_splits simp: bind_eq_Some_conv)
  qed
  have "sortedChunks 0 gs = Some cs \<Longrightarrow> cs = []" for gs cs
  proof (induction gs arbitrary: cs)
    case (Cons g gs)
    let ?nx = "case gs of [] \<Rightarrow> None | g' # _ \<Rightarrow> Some (segAddress g')"
    from Cons.prems obtain a b where a: "segmentChunks 0 g ?nx 0 = Some a" "sortedChunks 0 gs = Some b" "cs = a @ b"
      unfolding sortedChunks.simps bind_eq_Some_conv by blast
    then show ?case using none [OF a(1) refl] loop [OF a(1)] Cons.IH by simp
  qed simp
  then show ?thesis using assms by (simp add: planDfuChunks_def)
qed

lemma does_programAndLeave:
  assumes "image_ok dev segs" "0 < devTransferSize dev" "flashPlan dev segs kept = Some (held, rest)"
  shows "does (devTransferSize dev) (then_io (flashProgram dev progress held rest) (flashLeave usb progress a))
    (\<lambda>r p q xs. programPost held rest r xs)"
  by (rule does_then [OF does_flashProgram [OF flashPlan_range [OF assms(3,1,2)]] does_flashLeave])
    (auto simp: programPost_def)

lemma does_afterErase:
  assumes "image_ok dev segs"
  shows "does (devTransferSize dev)
    (case planDfuChunks segs (devTransferSize dev) of
       None \<Rightarrow> never_io
     | Some chunks \<Rightarrow>
         (case splitHeld (findAppStart segs (devMemory dev))
             (filter (\<lambda>c. \<not> inKeptSector (devMemory dev) kept (chunkAddress c)) chunks) of
            None \<Rightarrow> throw_io No_chunk
          | Some (held, rest) \<Rightarrow> then_io (flashProgram dev progress held rest) (flashLeave (devUsb dev) progress a)))
    (\<lambda>r p q xs. (isl r \<and> xs = []) \<or> (\<exists>held rest. flashPlan dev segs kept = Some (held, rest) \<and> programPost held rest r xs))"
proof (cases "planDfuChunks segs (devTransferSize dev)")
  case (Some chunks)
  let ?cs = "filter (\<lambda>c. \<not> inKeptSector (devMemory dev) kept (chunkAddress c)) chunks"
  show ?thesis
  proof (cases "splitHeld (findAppStart segs (devMemory dev)) ?cs")
    case None
    then show ?thesis using Some by (simp add: does_throw)
  next
    case (Some hr)
    obtain held rest where hr: "hr = (held, rest)" by fastforce
    have plan: "flashPlan dev segs kept = Some (held, rest)"
      using \<open>planDfuChunks segs (devTransferSize dev) = Some chunks\<close> Some hr by (simp add: flashPlan_def)
    have "chunks \<noteq> []" using Some by (auto simp: splitHeld_def)
    then have "0 < devTransferSize dev"
      using \<open>planDfuChunks segs (devTransferSize dev) = Some chunks\<close> planDfuChunks_zero by (cases "devTransferSize dev") auto
    from does_programAndLeave [OF assms this plan, of progress "devUsb dev" a]
    show ?thesis using \<open>planDfuChunks segs (devTransferSize dev) = Some chunks\<close> Some hr plan
      by (auto elim: does_weaken)
  qed
qed simp

lemma does_dfuFlash:
  assumes "image_ok dev segs"
  shows "does (devTransferSize dev) (dfuFlash dev segs progress fullErase allow) (\<lambda>r p q xs. flashPost dev fullErase segs r xs)"
proof -
  let ?ts = "devTransferSize dev" and ?usb = "devUsb dev" and ?mem = "devMemory dev"
  let ?K = "case findAppStart segs ?mem of None \<Rightarrow> return_io []
    | Some a \<Rightarrow> if a > imageStart segs \<and> ?mem \<noteq> []
        then then_io (dfuReport progress Phase_erase) (unchangedSectorsBelow dev a segs) else return_io []"
  have empty: "flashPost dev fullErase segs (Inl e) []" for e
    unfolding flashPost_def by (intro exI [of _ "[]"]) (simp add: keptOk_def erasePost_def)
  have k: "does ?ts ?K (\<lambda>r p q xs. onlyReads xs \<and> (\<forall>kept. r = Inr kept \<longrightarrow> keptOk dev segs kept xs))"
  proof (cases "findAppStart segs ?mem")
    case (Some a)
    have "\<forall>s\<in>set ?mem. inRange (sectStart s)" using assms by (simp add: image_ok_def)
    from does_reportThen [OF does_unchangedBelow [OF this, of a segs], of progress Phase_erase] show ?thesis
      using Some by (auto elim!: does_weaken intro: does_return simp: keptOk_def)
  qed (auto intro: does_return simp: keptOk_def)
  let ?B = "\<lambda>kept. case planDfuChunks segs ?ts of
       None \<Rightarrow> never_io
     | Some chunks \<Rightarrow> (case splitHeld (findAppStart segs ?mem)
             (filter (\<lambda>c. \<not> inKeptSector ?mem kept (chunkAddress c)) chunks) of
            None \<Rightarrow> throw_io No_chunk
          | Some (held, rest) \<Rightarrow> then_io (flashProgram dev progress held rest) (flashLeave ?usb progress (segAddress (hd segs))))"
  have e: "does ?ts (then_io (flashErase dev progress fullErase kept segs) (?B kept)) (\<lambda>r p q xs. \<exists>E B. xs = E @ B
     \<and> erasePost dev fullErase kept segs E
     \<and> ((isl r \<and> B = []) \<or> (\<exists>held rest. flashPlan dev segs kept = Some (held, rest) \<and> programPost held rest r B)))" for kept
  proof (rule does_then [OF does_flashErase does_afterErase [OF assms]])
    fix e :: dfu_error and xs assume "erasePost dev fullErase kept segs xs"
    then show "\<exists>E B. xs = E @ B \<and> erasePost dev fullErase kept segs E
     \<and> ((isl (Inl e :: dfu_error + unit) \<and> B = [])
       \<or> (\<exists>held rest. flashPlan dev segs kept = Some (held, rest) \<and> programPost held rest (Inl e) B))"
      by (intro exI [of _ xs] exI [of _ "[]"]) simp
  next
    fix r :: "dfu_error + unit" and xs ys
    assume "erasePost dev fullErase kept segs xs" "(isl r \<and> ys = [])
      \<or> (\<exists>held rest. flashPlan dev segs kept = Some (held, rest) \<and> programPost held rest r ys)"
    then show "\<exists>E B. xs @ ys = E @ B \<and> erasePost dev fullErase kept segs E
     \<and> ((isl r \<and> B = []) \<or> (\<exists>held rest. flashPlan dev segs kept = Some (held, rest) \<and> programPost held rest r B))"
      by (intro exI [of _ xs] exI [of _ ys]) simp
  qed
  have "does ?ts (bind_io ?K (\<lambda>kept. then_io (flashErase dev progress fullErase kept segs) (?B kept)))
    (\<lambda>r p q xs. flashPost dev fullErase segs r xs)"
  proof (rule does_bind [OF k e])
    fix e :: dfu_error and xs assume "onlyReads xs \<and> (\<forall>kept. Inl e = Inr kept \<longrightarrow> keptOk dev segs kept xs)"
    then show "flashPost dev fullErase segs (Inl e) xs"
      unfolding flashPost_def by (intro exI [of _ "[]"] exI [of _ xs]) (simp add: keptOk_def erasePost_def)
  next
    fix kept and r :: "dfu_error + unit" and xs ys
    assume x: "onlyReads xs \<and> (\<forall>kept'. Inr kept = Inr kept' \<longrightarrow> keptOk dev segs kept' xs)"
      and "\<exists>E B. ys = E @ B \<and> erasePost dev fullErase kept segs E
        \<and> ((isl r \<and> B = []) \<or> (\<exists>held rest. flashPlan dev segs kept = Some (held, rest) \<and> programPost held rest r B))"
    then show "flashPost dev fullErase segs r (xs @ ys)"
      unfolding flashPost_def by (elim exE conjE) (intro exI [of _ kept] exI [of _ xs] exI conjI, auto)
  qed
  note body = this
  have "does ?ts (then_io (clearErrorState ?usb)
      (bind_io ?K (\<lambda>kept. then_io (flashErase dev progress fullErase kept segs) (?B kept))))
    (\<lambda>r p q xs. flashPost dev fullErase segs r xs)"
    by (rule does_then [OF does_silent [OF silent_clearErrorState, of "\<lambda>r p q xs. xs = []"] body]) (auto intro: empty)
  note start = this
  have "does ?ts (throw_io e) (\<lambda>r p q xs. flashPost dev fullErase segs r xs)" for e
    by (rule does_throw) (rule empty)
  then show ?thesis
    unfolding dfuFlash_def Let_def by (intro does_if start)
qed

end
