(* ===== verification/Dfu_Guarantees.thy ===== *)
theory Dfu_Guarantees
  imports Dfu_Flash
begin

text \<open>
  The properties of the DFU client: what a flash refuses, the order of what it does to the board
  whatever the board answers, and what a successful flash has shown of the image.
\<close>

subsection \<open>The last act on a byte\<close>




subsection \<open>Layouts\<close>








subsection \<open>A concrete board\<close>

text \<open>A board that is always idle and answers every upload with the same bytes.\<close>

definition idleBoard :: "bytes \<Rightarrow> dfu_usb" where
  "idleBoard img = \<lparr>controlOut = \<lambda>h request val data. None,
     controlIn = \<lambda>h request val len. Inr (if request = DFU_GETSTATUS then [0, 0, 0, 0, 2, 0] else img),
     usbClock = \<lambda>h. 0\<rparr>"















definition sampleSegment :: hex_segment where
  "sampleSegment = \<lparr>segAddress = 0x08000000, segData = replicate 32 0\<rparr>"

definition sampleSector :: dfu_sector where
  "sampleSector = \<lparr>sectStart = 0x08000000, sectSize = 16384, sectReadable = True, sectErasable = True, sectWritable = True\<rparr>"

definition sampleBoard :: dfu_device where
  "sampleBoard = \<lparr>devUsb = idleBoard (replicate 32 0), devMemory = [sampleSector], devTransferSize = 2048\<rparr>"




subsection \<open>Refusals\<close>

text \<open>C32 dfu_refuses_protected: when a sector that cannot be erased or written holds an address the
  image writes, and the caller did not allow it, \<open>flash\<close> throws before anything is transferred,
  and names exactly the protected sectors the image touches, in ascending order.\<close>

theorem dfu_refuses_protected:
  assumes "s \<in> set (devMemory dev)" and "\<not> (sectErasable s \<and> sectWritable s)"
    and "g \<in> set segs" and "sectStart s \<le> x" and "x < sectEnd s" and "segAddress g \<le> x" and "x < segEnd g"
  shows "\<exists>ps. dfuFlash dev segs progress fullErase False h = Some (Inl (Protected_sectors ps), h)
    \<and> sorted (map protStart ps)
    \<and> set ps = {\<lparr>protStart = sectStart t, protSize = sectSize t, protErasable = sectErasable t, protWritable = sectWritable t\<rparr> |t.
        t \<in> set (devMemory dev) \<and> \<not> (sectErasable t \<and> sectWritable t) \<and> (\<exists>g\<in>set segs. sectorTouches t g)}"
proof -
  let ?ps = "findProtectedSectors (devMemory dev) segs"
  have "sectorTouches s g" using assms(4-7) by (simp add: sectorTouches_def segEnd_def)
  then have "?ps \<noteq> []" using assms(1-3) findProtectedSectors_iff [of _ "devMemory dev" segs] by (metis empty_iff empty_set)
  moreover have "segs \<noteq> []" using assms(3) by auto
  ultimately have "dfuFlash dev segs progress fullErase False h = Some (Inl (Protected_sectors ?ps), h)"
    by (simp add: dfuFlash_def throw_io_def)
  moreover have "sorted (map protStart ?ps)" by (simp add: findProtectedSectors_def)
  moreover have "set ?ps = {\<lparr>protStart = sectStart t, protSize = sectSize t, protErasable = sectErasable t, protWritable = sectWritable t\<rparr> |t.
        t \<in> set (devMemory dev) \<and> \<not> (sectErasable t \<and> sectWritable t) \<and> (\<exists>g\<in>set segs. sectorTouches t g)}"
    unfolding set_eq_iff findProtectedSectors_iff by blast
  ultimately show ?thesis by blast
qed

theorem dfu_refuses_protected_witness:
  "\<exists>ps. dfuFlash (sampleBoard\<lparr>devMemory := [sampleSector\<lparr>sectWritable := False\<rparr>]\<rparr>) [sampleSegment] True True False []
     = Some (Inl (Protected_sectors ps), [])"
proof -
  let ?s = "sampleSector\<lparr>sectWritable := False\<rparr>" and ?dev = "sampleBoard\<lparr>devMemory := [sampleSector\<lparr>sectWritable := False\<rparr>]\<rparr>"
  have "?s \<in> set (devMemory ?dev)" "\<not> (sectErasable ?s \<and> sectWritable ?s)" "sampleSegment \<in> set [sampleSegment]"
    "sectStart ?s \<le> 0x08000000" "0x08000000 < sectEnd ?s" "segAddress sampleSegment \<le> 0x08000000" "0x08000000 < segEnd sampleSegment"
    by (simp_all add: sampleSector_def sampleSegment_def sectEnd_def segEnd_def)
  from dfu_refuses_protected [OF this, of True True "[]"] show ?thesis by blast
qed


subsection \<open>The order of a flash\<close>






subsection \<open>A successful flash\<close>







end
