(* ===== verification/Transfer_Base.thy ===== *)
theory Transfer_Base
  imports Js_Bytes
begin

text \<open>
  What the two transfer services of \<open>ardupilot-core\<close>, the log download and MAVFTP, have in common:
  the identity of the vehicle, and a file that arrives in chunks at their offsets, in any order
  and with gaps, in a zeroed buffer of the announced size with a frontier below which every byte
  is there.
\<close>

record vehicle_identity =
  vehicleSystemId :: int
  vehicleComponentId :: int

text \<open>The announced number of bytes of the file; past its end the buffer stays zero.\<close>

definition file_image :: "bytes \<Rightarrow> nat \<Rightarrow> bytes" where
  "file_image content n = take n content @ replicate (n - length content) 0"

definition arrived :: "bytes \<Rightarrow> nat \<Rightarrow> bytes \<Rightarrow> nat \<Rightarrow> bool" where
  "arrived content n buffer frontier \<longleftrightarrow>
     length buffer = n \<and> frontier \<le> n \<and> frontier \<le> length content
     \<and> (\<forall>k<n. k < frontier \<or> length content \<le> k \<longrightarrow> buffer ! k = file_image content n ! k)"

lemma length_file_image [simp]: "length (file_image content n) = n"
  by (simp add: file_image_def)

lemma nth_file_image: "k < n \<Longrightarrow> file_image content n ! k = (if k < length content then content ! k else 0)"
  by (simp add: file_image_def nth_append)

lemma file_image_exact: "n \<le> length content \<Longrightarrow> file_image content n = take n content"
  by (simp add: file_image_def)

lemma arrived_fresh: "arrived content n (newBytes n) 0"
  by (simp add: arrived_def newBytes_def nth_file_image)

text \<open>A chunk of the file written at its offset keeps what is there, and the frontier may pass
  over it when there is no gap before it.\<close>

lemma nth_put:
  "off + length bs \<le> length p \<Longrightarrow> k < length p \<Longrightarrow>
   put off bs p ! k = (if off \<le> k \<and> k < off + length bs then bs ! (k - off) else p ! k)"
  by (auto simp: put_def nth_append min_def not_less)

lemma arrived_write:
  assumes "arrived content n buffer r" "off + w \<le> n" "w = 0 \<or> off + w \<le> length content"
  shows "arrived content n (put off (take w (drop off content)) buffer) r"
    and "off \<le> r \<Longrightarrow> arrived content n (put off (take w (drop off content)) buffer) (max r (off + w))"
proof -
  let ?c = "take w (drop off content)"
  have w: "length ?c = w" using assms(3) by auto
  have n: "length buffer = n" using assms(1) by (simp add: arrived_def)
  have k: "put off ?c buffer ! k = (if off \<le> k \<and> k < off + w then content ! k else buffer ! k)" if "k < n" for k
    using that assms(2,3) n w by (subst nth_put) auto
  have len: "length (put off ?c buffer) = n" using assms(2) n w by (subst length_put) simp_all
  show "arrived content n (put off ?c buffer) r"
    using assms k len by (auto simp: arrived_def nth_file_image)
  show "arrived content n (put off ?c buffer) (max r (off + w))" if "off \<le> r"
    using assms k len that by (auto simp: arrived_def nth_file_image less_max_iff_disj)
qed

lemma arrived_all: "arrived content n buffer r \<Longrightarrow> n \<le> r \<or> length content \<le> r \<Longrightarrow> buffer = file_image content n"
  by (intro nth_equalityI) (auto simp: arrived_def)

lemma arrived_prefix: "arrived content n buffer r \<Longrightarrow> take r buffer = take r content"
  by (intro nth_equalityI) (auto simp: arrived_def nth_file_image)

end
