(* ===== verification/Log_Download.thy ===== *)
theory Log_Download
  imports Mav_Messages Transfer_Base "HOL-Library.AList"
begin

text \<open>
  \<open>ardupilot-core/src/runtime-log-download-service.ts\<close>: the list of onboard logs and the download
  of one of them, over \<open>LOG_*\<close> messages that carry no sequence number. Every call of the service
  gets the next number; \<open>logCalls\<close> remembers what was asked and \<open>logSettled\<close> how the promise was
  settled. \<open>logTimers\<close> are the armed timers and \<open>logSent\<close> the messages given to the session;
  each of those sends may be refused later. What \<open>getVehicle()\<close> answers is an argument.
\<close>

subsection \<open>State\<close>

definition LOG_DATA_CHUNK :: int where
  "LOG_DATA_CHUNK = 90"

definition MAX_STALL_RETRIES :: nat where
  "MAX_STALL_RETRIES = 3"

definition MAX_LOG_DOWNLOAD_BYTES :: int where
  "MAX_LOG_DOWNLOAD_BYTES = 512 * 1024 * 1024"

record onboard_log =
  onboardId :: int
  onboardSizeBytes :: int
  onboardTimeUtc :: int

datatype log_error =
    Log_busy
  | Log_no_vehicle
  | Log_size_refused "int option"
  | No_log_data
  | Log_list_timeout
  | Log_data_timeout
  | Log_given string

datatype log_outcome = Log_listed "onboard_log list" | Log_bytes bytes | Log_failed log_error

record list_operation =
  listEntries :: "(int \<times> onboard_log) list"
  listNumLogs :: "int option"
  listTimer :: nat
  listPromise :: nat

record data_operation =
  dataId :: int
  dataTotal :: int
  dataBuffer :: bytes
  dataReceived :: int
  dataRetries :: nat
  dataTimer :: nat
  dataPromise :: nat

datatype active_operation = List_op list_operation | Data_op data_operation

fun opTimer :: "active_operation \<Rightarrow> nat" where
  "opTimer (List_op l) = listTimer l"
| "opTimer (Data_op d) = dataTimer d"

fun opPromise :: "active_operation \<Rightarrow> nat" where
  "opPromise (List_op l) = listPromise l"
| "opPromise (Data_op d) = dataPromise d"

text \<open>A size that is not finite is \<open>None\<close>.\<close>

datatype log_call = Call_list | Call_download int "int option"

record log_service =
  logActive :: "active_operation option"
  logTimers :: "nat set"
  logNextTimer :: nat
  logCalls :: "log_call list"
  logSettled :: "nat \<rightharpoonup> log_outcome"
  logSent :: "mavlink_message list"
  logProgress :: "(nat \<times> int \<times> int) list"

definition newLogService :: log_service where
  "newLogService = \<lparr>logActive = None, logTimers = {}, logNextTimer = 0, logCalls = [],
     logSettled = Map.empty, logSent = [], logProgress = []\<rparr>"

subsection \<open>Timers, sends and promises\<close>

definition logArm :: "log_service \<Rightarrow> nat \<times> log_service" where
  "logArm s = (logNextTimer s,
     s\<lparr>logTimers := insert (logNextTimer s) (logTimers s), logNextTimer := logNextTimer s + 1\<rparr>)"

definition logClear :: "nat \<Rightarrow> log_service \<Rightarrow> log_service" where
  "logClear t s = s\<lparr>logTimers := logTimers s - {t}\<rparr>"

definition logSend :: "mavlink_message \<Rightarrow> log_service \<Rightarrow> log_service" where
  "logSend m s = s\<lparr>logSent := logSent s @ [m]\<rparr>"

text \<open>A promise keeps the first settlement.\<close>

definition logSettle :: "nat \<Rightarrow> log_outcome \<Rightarrow> log_service \<Rightarrow> log_service" where
  "logSettle p r s = (if logSettled s p = None then s\<lparr>logSettled := (logSettled s)(p \<mapsto> r)\<rparr> else s)"

subsection \<open>How an operation ends\<close>

definition sendRequestEnd :: "vehicle_identity option \<Rightarrow> log_service \<Rightarrow> log_service" where
  "sendRequestEnd vehicle s =
     (case vehicle of
        None \<Rightarrow> s
      | Some v \<Rightarrow> logSend (LOG_REQUEST_END \<lparr>log_request_end.targetSystem = vehicleSystemId v,
          log_request_end.targetComponent = vehicleComponentId v\<rparr>) s)"

text \<open>\<open>this.active === op\<close>: an operation is known by its promise.\<close>

definition clearActive :: "active_operation \<Rightarrow> log_service \<Rightarrow> log_service" where
  "clearActive op s =
     (let s = logClear (opTimer op) s
      in if map_option opPromise (logActive s) = Some (opPromise op) then s\<lparr>logActive := None\<rparr> else s)"

definition finishList :: "vehicle_identity option \<Rightarrow> list_operation \<Rightarrow> log_service \<Rightarrow> log_service" where
  "finishList vehicle l s =
     logSettle (listPromise l) (Log_listed (sort_key onboardId (map snd (listEntries l))))
       (sendRequestEnd vehicle (clearActive (List_op l) s))"

definition finishData :: "vehicle_identity option \<Rightarrow> data_operation \<Rightarrow> log_service \<Rightarrow> log_service" where
  "finishData vehicle d s =
     logSettle (dataPromise d) (Log_bytes (dataBuffer d))
       (sendRequestEnd vehicle (clearActive (Data_op d) s))"

definition failActive :: "vehicle_identity option \<Rightarrow> log_error \<Rightarrow> log_service \<Rightarrow> log_service" where
  "failActive vehicle e s =
     (case logActive s of
        None \<Rightarrow> s
      | Some op \<Rightarrow> logSettle (opPromise op) (Log_failed e) (sendRequestEnd vehicle (clearActive op s)))"

definition requestData :: "vehicle_identity option \<Rightarrow> data_operation \<Rightarrow> int \<Rightarrow> log_service \<Rightarrow> log_service" where
  "requestData vehicle d offset s =
     (case vehicle of
        None \<Rightarrow> failActive vehicle Log_no_vehicle s
      | Some v \<Rightarrow> logSend (LOG_REQUEST_DATA \<lparr>log_request_data.targetSystem = vehicleSystemId v,
          log_request_data.targetComponent = vehicleComponentId v, log_request_data.id = dataId d,
          log_request_data.ofs = offset, log_request_data.count = 0xFFFFFFFF\<rparr>) s)"

subsection \<open>Calls\<close>

definition requireIdle :: "vehicle_identity option \<Rightarrow> log_service \<Rightarrow> log_error + vehicle_identity" where
  "requireIdle vehicle s =
     (if logActive s \<noteq> None then Inl Log_busy
      else case vehicle of None \<Rightarrow> Inl Log_no_vehicle | Some v \<Rightarrow> Inr v)"

definition listLogs :: "vehicle_identity option \<Rightarrow> log_service \<Rightarrow> log_service" where
  "listLogs vehicle s =
     (let p = length (logCalls s); idle = requireIdle vehicle s; s = s\<lparr>logCalls := logCalls s @ [Call_list]\<rparr>
      in case idle of
           Inl e \<Rightarrow> logSettle p (Log_failed e) s
         | Inr v \<Rightarrow>
             (let (t, s) = logArm s
              in logSend (LOG_REQUEST_LIST \<lparr>log_request_list.targetSystem = vehicleSystemId v,
                     log_request_list.targetComponent = vehicleComponentId v,
                     log_request_list.start = 0, log_request_list.end = 0xFFFF\<rparr>)
                   (s\<lparr>logActive := Some (List_op \<lparr>listEntries = [], listNumLogs = None, listTimer = t, listPromise = p\<rparr>)\<rparr>)))"

definition sizeAllowed :: "int option \<Rightarrow> int option" where
  "sizeAllowed sizeBytes =
     (case sizeBytes of
        None \<Rightarrow> None
      | Some n \<Rightarrow> if n < 0 \<or> MAX_LOG_DOWNLOAD_BYTES < n then None else Some n)"

definition downloadLog :: "vehicle_identity option \<Rightarrow> int \<Rightarrow> int option \<Rightarrow> log_service \<Rightarrow> log_service" where
  "downloadLog vehicle i sizeBytes s =
     (let p = length (logCalls s); idle = requireIdle vehicle s;
          s = s\<lparr>logCalls := logCalls s @ [Call_download i sizeBytes]\<rparr>
      in case idle of
           Inl e \<Rightarrow> logSettle p (Log_failed e) s
         | Inr _ \<Rightarrow>
             (case sizeAllowed sizeBytes of
                None \<Rightarrow> logSettle p (Log_failed (Log_size_refused sizeBytes)) s
              | Some n \<Rightarrow>
                  (let (t, s) = logArm s;
                       d = \<lparr>dataId = i, dataTotal = n, dataBuffer = newBytes (nat n), dataReceived = 0,
                            dataRetries = 0, dataTimer = t, dataPromise = p\<rparr>;
                       s = s\<lparr>logActive := Some (Data_op d)\<rparr>
                   in if n = 0 then finishData vehicle d s else requestData vehicle d 0 s)))"

subsection \<open>Messages\<close>

definition handleLogEntry :: "vehicle_identity option \<Rightarrow> log_entry \<Rightarrow> log_service \<Rightarrow> log_service" where
  "handleLogEntry vehicle m s =
     (case logActive s of
        Some (List_op l) \<Rightarrow>
          (let (t, s) = logArm (logClear (listTimer l) s);
               l = l\<lparr>listTimer := t\<rparr>; s = s\<lparr>logActive := Some (List_op l)\<rparr>
           in if log_entry.numLogs m = 0 then finishList vehicle l s
              else
                (let l = l\<lparr>listNumLogs := Some (log_entry.numLogs m),
                       listEntries := AList.update (log_entry.id m)
                         \<lparr>onboardId = log_entry.id m, onboardSizeBytes = log_entry.size m,
                          onboardTimeUtc = log_entry.timeUtc m\<rparr> (listEntries l)\<rparr>;
                     s = s\<lparr>logActive := Some (List_op l)\<rparr>
                 in if log_entry.numLogs m \<le> int (length (listEntries l)) then finishList vehicle l s else s))
      | _ \<Rightarrow> s)"

text \<open>How many bytes of a chunk go into the buffer, the buffer with them at their offset, and
  whether the chunk starts at or before the first missing byte.\<close>

definition chunkWritable :: "log_data \<Rightarrow> data_operation \<Rightarrow> int" where
  "chunkWritable m d =
     (if log_data.ofs m < dataTotal d
      then min (log_data.count m) (min LOG_DATA_CHUNK (dataTotal d - log_data.ofs m)) else 0)"

definition chunkContiguous :: "log_data \<Rightarrow> data_operation \<Rightarrow> bool" where
  "chunkContiguous m d \<longleftrightarrow> log_data.ofs m \<le> dataReceived d \<and> log_data.ofs m < dataTotal d"

definition storeChunk :: "log_data \<Rightarrow> data_operation \<Rightarrow> data_operation" where
  "storeChunk m d =
     (let w = chunkWritable m d;
          d' = (if log_data.ofs m < dataTotal d
                then d\<lparr>dataBuffer := put (nat (log_data.ofs m)) (take (nat w) (log_data.data m)) (dataBuffer d)\<rparr>
                else d)
      in if chunkContiguous m d then d'\<lparr>dataReceived := max (dataReceived d) (log_data.ofs m + w)\<rparr> else d')"

definition handleLogData :: "vehicle_identity option \<Rightarrow> log_data \<Rightarrow> log_service \<Rightarrow> log_service" where
  "handleLogData vehicle m s =
     (case logActive s of
        Some (Data_op d) \<Rightarrow>
          if log_data.id m \<noteq> dataId d then s
          else
            (let (t, s) = logArm (logClear (dataTimer d) s);
                 contiguous = chunkContiguous m d;
                 d = (storeChunk m d)\<lparr>dataTimer := t\<rparr>;
                 s = s\<lparr>logActive := Some (Data_op d)\<rparr>;
                 s = (if contiguous then s\<lparr>logProgress := logProgress s @ [(dataPromise d, dataReceived d, dataTotal d)]\<rparr> else s)
             in if dataTotal d \<le> dataReceived d \<or> (log_data.count m < LOG_DATA_CHUNK \<and> contiguous)
                then finishData vehicle d s else s)
      | _ \<Rightarrow> s)"

definition logCancelAll :: "vehicle_identity option \<Rightarrow> log_error \<Rightarrow> log_service \<Rightarrow> log_service" where
  "logCancelAll vehicle e s = (if logActive s = None then s else failActive vehicle e s)"

subsection \<open>Timeouts and refused sends\<close>

definition timeoutError :: "active_operation \<Rightarrow> log_error" where
  "timeoutError op =
     (case op of
        List_op l \<Rightarrow> Log_list_timeout
      | Data_op d \<Rightarrow> if dataReceived d = 0 then No_log_data else Log_data_timeout)"

definition logOnTimeout :: "vehicle_identity option \<Rightarrow> log_service \<Rightarrow> log_service" where
  "logOnTimeout vehicle s =
     (case logActive s of
        None \<Rightarrow> s
      | Some (List_op l) \<Rightarrow> failActive vehicle (timeoutError (List_op l)) s
      | Some (Data_op d) \<Rightarrow>
          if dataRetries d < MAX_STALL_RETRIES \<and> dataReceived d < dataTotal d
          then
            (let (t, s) = logArm s;
                 d = d\<lparr>dataRetries := dataRetries d + 1, dataTimer := t\<rparr>;
                 s = s\<lparr>logActive := Some (Data_op d)\<rparr>;
                 s = (if dataReceived d = 0 then sendRequestEnd vehicle s else s)
             in requestData vehicle d (dataReceived d) s)
          else failActive vehicle (timeoutError (Data_op d)) s)"

definition logTimerFires :: "vehicle_identity option \<Rightarrow> nat \<Rightarrow> log_service \<Rightarrow> log_service" where
  "logTimerFires vehicle t s = logOnTimeout vehicle (logClear t s)"

text \<open>The session refuses the \<open>k\<close>th message: the refusal of a \<open>LOG_REQUEST_END\<close> is ignored, any
  other fails the operation in progress at that moment.\<close>

definition logSendFails :: "vehicle_identity option \<Rightarrow> nat \<Rightarrow> log_error \<Rightarrow> log_service \<Rightarrow> log_service" where
  "logSendFails vehicle k e s =
     (case logSent s ! k of LOG_REQUEST_END _ \<Rightarrow> s | _ \<Rightarrow> failActive vehicle e s)"

subsection \<open>Steps\<close>

datatype log_event =
    List_logs
  | Download_log int "int option"
  | Entry_arrives log_entry
  | Data_arrives log_data
  | Log_timer nat
  | Send_refused nat log_error
  | Cancel_logs log_error

inductive log_step :: "log_service \<Rightarrow> log_event \<Rightarrow> log_service \<Rightarrow> bool" where
  list: "log_step s List_logs (listLogs v s)"
| download: "log_step s (Download_log i n) (downloadLog v i n s)"
| entry: "log_step s (Entry_arrives m) (handleLogEntry v m s)"
| data: "log_step s (Data_arrives c) (handleLogData v c s)"
| timer: "t \<in> logTimers s \<Longrightarrow> log_step s (Log_timer t) (logTimerFires v t s)"
| refused: "k < length (logSent s) \<Longrightarrow> log_step s (Send_refused k e) (logSendFails v k e s)"
| cancel: "log_step s (Cancel_logs e) (logCancelAll v e s)"

inductive log_run :: "log_service \<Rightarrow> log_event list \<Rightarrow> log_service \<Rightarrow> bool" where
  none: "log_run s [] s"
| more: "log_run s es t \<Longrightarrow> log_step t e u \<Longrightarrow> log_run s (es @ [e]) u"

inductive_cases log_stepE: "log_step s e s'"
inductive_simps log_run_Nil: "log_run s [] s'"

subsection \<open>The invariant of the service\<close>

text \<open>
  A download in progress satisfies \<open>good\<close> and the bytes of a finished one satisfy \<open>claim\<close> of its id
  and size; both are chosen by the properties.
\<close>

definition entries_ok :: "(int \<times> onboard_log) list \<Rightarrow> bool" where
  "entries_ok es \<longleftrightarrow> distinct (map fst es) \<and> (\<forall>(k, e)\<in>set es. onboardId e = k)"

definition op_ok :: "(data_operation \<Rightarrow> bool) \<Rightarrow> log_call \<Rightarrow> active_operation \<Rightarrow> bool" where
  "op_ok good call op \<longleftrightarrow>
     (case op of
        List_op l \<Rightarrow> call = Call_list \<and> entries_ok (listEntries l)
      | Data_op d \<Rightarrow> call = Call_download (dataId d) (Some (dataTotal d)) \<and> dataRetries d \<le> MAX_STALL_RETRIES \<and> good d)"

definition outcome_ok :: "(int \<Rightarrow> int \<Rightarrow> bytes \<Rightarrow> bool) \<Rightarrow> log_call \<Rightarrow> log_outcome \<Rightarrow> bool" where
  "outcome_ok claim call r \<longleftrightarrow>
     (case r of
        Log_listed logs \<Rightarrow> call = Call_list \<and> sorted (map onboardId logs) \<and> distinct (map onboardId logs)
      | Log_bytes bs \<Rightarrow> \<exists>i n. call = Call_download i (Some n) \<and> claim i n bs
      | Log_failed e \<Rightarrow> True)"

definition log_inv :: "(data_operation \<Rightarrow> bool) \<Rightarrow> (int \<Rightarrow> int \<Rightarrow> bytes \<Rightarrow> bool) \<Rightarrow> log_service \<Rightarrow> bool" where
  "log_inv good claim s \<longleftrightarrow>
     logTimers s = set_option (map_option opTimer (logActive s))
     \<and> (\<forall>op. logActive s = Some op \<longrightarrow> opPromise op < length (logCalls s) \<and> opTimer op < logNextTimer s
          \<and> op_ok good (logCalls s ! opPromise op) op)
     \<and> (\<forall>p. p < length (logCalls s) \<and> logSettled s p = None \<longleftrightarrow> map_option opPromise (logActive s) = Some p)
     \<and> (\<forall>p r. logSettled s p = Some r \<longrightarrow> p < length (logCalls s) \<and> outcome_ok claim (logCalls s ! p) r)"

lemma update_member: "e \<in> set (AList.update k v al) \<Longrightarrow> e = (k, v) \<or> e \<in> set al"
  by (induction al) (auto split: if_splits)

lemma distinct_sort_key: "distinct (map f xs) \<Longrightarrow> distinct (map f (sort_key f xs))"
  by (simp add: distinct_map)

lemma log_inv_timers: "log_inv good claim s \<Longrightarrow> logTimers s = set_option (map_option opTimer (logActive s))"
  by (simp add: log_inv_def)

lemma log_inv_active:
  assumes "log_inv good claim s" "logActive s = Some op"
  shows "opPromise op < length (logCalls s)" "logSettled s (opPromise op) = None" "opTimer op < logNextTimer s"
    "op_ok good (logCalls s ! opPromise op) op" "logTimers s = {opTimer op}"
  using assms by (auto simp: log_inv_def)

lemma log_inv_settled:
  "log_inv good claim s \<Longrightarrow> logSettled s p = Some r \<Longrightarrow> p < length (logCalls s) \<and> outcome_ok claim (logCalls s ! p) r"
  by (simp add: log_inv_def)

lemma log_inv_open_promise:
  "log_inv good claim s \<Longrightarrow>
     p < length (logCalls s) \<and> logSettled s p = None \<longleftrightarrow> map_option opPromise (logActive s) = Some p"
  by (simp add: log_inv_def)

lemma log_inv_logSend: "log_inv good claim (logSend m s) = log_inv good claim s"
  by (simp add: log_inv_def logSend_def)

text \<open>The operation goes on, ends, is refused, or starts.\<close>

lemma log_inv_goes_on:
  assumes "log_inv good claim s" "logActive s = Some op"
    and "logActive s' = Some op'" "opPromise op' = opPromise op" "logTimers s' = {opTimer op'}"
    and "opTimer op' < logNextTimer s'" "logCalls s' = logCalls s" "logSettled s' = logSettled s"
    and "op_ok good (logCalls s ! opPromise op) op'"
  shows "log_inv good claim s'"
  using assms by (simp add: log_inv_def)

lemma log_inv_ends:
  assumes "log_inv good claim s" "logActive s = Some op"
    and "logActive s' = None" "logTimers s' = {}" "logCalls s' = logCalls s"
    and "logSettled s' = (logSettled s)(opPromise op \<mapsto> r)" "outcome_ok claim (logCalls s ! opPromise op) r"
  shows "log_inv good claim s'"
proof -
  have "logSettled s p \<noteq> None" if "p < length (logCalls s)" "p \<noteq> opPromise op" for p
    using log_inv_open_promise [OF assms(1), of p] assms(2) that by auto
  then show ?thesis using assms by (simp add: log_inv_def)
qed

lemma log_inv_refused:
  assumes "log_inv good claim s" "logActive s' = logActive s" "logTimers s' = logTimers s"
    and "logNextTimer s' = logNextTimer s"
    and "logCalls s' = logCalls s @ [c]" "logSettled s' = (logSettled s)(length (logCalls s) \<mapsto> Log_failed e)"
  shows "log_inv good claim s'"
  using assms by (auto simp: log_inv_def outcome_ok_def nth_append less_Suc_eq)

lemma log_inv_starts:
  assumes "log_inv good claim s" "logActive s = None"
    and "logActive s' = Some op" "logTimers s' = {opTimer op}" "opTimer op < logNextTimer s'"
    and "logCalls s' = logCalls s @ [c]" "logSettled s' = logSettled s" "opPromise op = length (logCalls s)"
    and "op_ok good c op"
  shows "log_inv good claim s'"
proof -
  have "logSettled s (length (logCalls s)) = None"
    using assms(1) by (cases "logSettled s (length (logCalls s))") (auto simp: log_inv_def)
  then show ?thesis using assms by (auto simp: log_inv_def nth_append less_Suc_eq)
qed

subsection \<open>Evaluating the endings\<close>

lemma sendRequestEnd_fields [simp]:
  "logActive (sendRequestEnd v s) = logActive s" "logTimers (sendRequestEnd v s) = logTimers s"
  "logNextTimer (sendRequestEnd v s) = logNextTimer s" "logCalls (sendRequestEnd v s) = logCalls s"
  "logSettled (sendRequestEnd v s) = logSettled s" "logProgress (sendRequestEnd v s) = logProgress s"
  by (simp_all add: sendRequestEnd_def logSend_def split: option.split)

lemma logSettle_fields [simp]:
  "logActive (logSettle p r s) = logActive s" "logTimers (logSettle p r s) = logTimers s"
  "logNextTimer (logSettle p r s) = logNextTimer s" "logCalls (logSettle p r s) = logCalls s"
  "logSettled s p = None \<Longrightarrow> logSettled (logSettle p r s) = (logSettled s)(p \<mapsto> r)"
  by (simp_all add: logSettle_def)

lemma clearActive_fields [simp]:
  "logTimers (clearActive op s) = logTimers s - {opTimer op}"
  "logNextTimer (clearActive op s) = logNextTimer s" "logCalls (clearActive op s) = logCalls s"
  "logSettled (clearActive op s) = logSettled s"
  by (simp_all add: clearActive_def logClear_def Let_def)

lemma clearActive_active [simp]:
  "map_option opPromise (logActive s) = Some (opPromise op) \<Longrightarrow> logActive (clearActive op s) = None"
  by (simp add: clearActive_def logClear_def Let_def)

text \<open>What every ending does to an operation that still holds its place.\<close>

definition log_ended :: "log_service \<Rightarrow> active_operation \<Rightarrow> log_outcome \<Rightarrow> log_service \<Rightarrow> bool" where
  "log_ended s op r s' \<longleftrightarrow> logActive s' = None \<and> logTimers s' = logTimers s - {opTimer op}
     \<and> logCalls s' = logCalls s \<and> logSettled s' = (logSettled s)(opPromise op \<mapsto> r)"

lemma finishList_ended:
  "map_option opPromise (logActive s) = Some (listPromise l) \<Longrightarrow> logSettled s (listPromise l) = None \<Longrightarrow>
   log_ended s (List_op l) (Log_listed (sort_key onboardId (map snd (listEntries l)))) (finishList v l s)"
  by (simp add: log_ended_def finishList_def)

lemma finishData_ended:
  "map_option opPromise (logActive s) = Some (dataPromise d) \<Longrightarrow> logSettled s (dataPromise d) = None \<Longrightarrow>
   log_ended s (Data_op d) (Log_bytes (dataBuffer d)) (finishData v d s)"
  by (simp add: log_ended_def finishData_def)

lemma failActive_ended:
  "logActive s = Some op \<Longrightarrow> logSettled s (opPromise op) = None \<Longrightarrow>
   log_ended s op (Log_failed e) (failActive v e s)"
  by (simp add: log_ended_def failActive_def)

text \<open>The request for data goes out, or the operation fails.\<close>

lemma requestData_cases:
  assumes "logActive s = Some op" "logSettled s (opPromise op) = None"
  shows "(\<exists>m. requestData v d off s = logSend m s) \<or> log_ended s op (Log_failed Log_no_vehicle) (requestData v d off s)"
  using failActive_ended [OF assms] by (auto simp: requestData_def split: option.split)

lemma failed_ok [simp]: "outcome_ok claim c (Log_failed e)"
  by (simp add: outcome_ok_def)

lemma log_inv_ended:
  assumes "log_inv good claim s" "log_ended t op' r s'"
    and "logActive s = Some op" "opPromise op' = opPromise op" "logTimers t = {opTimer op'}"
    and "logCalls t = logCalls s" "logSettled t = logSettled s" "outcome_ok claim (logCalls s ! opPromise op) r"
  shows "log_inv good claim s'"
  by (rule log_inv_ends [OF assms(1,3), where r = r]) (use assms in \<open>simp_all add: log_ended_def\<close>)

subsection \<open>Every step keeps the invariant\<close>

lemma storeChunk_fields [simp]:
  "dataId (storeChunk m d) = dataId d" "dataTotal (storeChunk m d) = dataTotal d"
  "dataRetries (storeChunk m d) = dataRetries d" "dataTimer (storeChunk m d) = dataTimer d"
  "dataPromise (storeChunk m d) = dataPromise d"
  by (simp_all add: storeChunk_def Let_def)

locale log_contract =
  fixes ok :: "log_data \<Rightarrow> bool" and good :: "data_operation \<Rightarrow> bool"
    and claim :: "int \<Rightarrow> int \<Rightarrow> bytes \<Rightarrow> bool"
  assumes fresh: "0 \<le> n \<Longrightarrow> n \<le> MAX_LOG_DOWNLOAD_BYTES \<Longrightarrow>
      good \<lparr>dataId = i, dataTotal = n, dataBuffer = newBytes (nat n), dataReceived = 0, dataRetries = 0,
        dataTimer = t, dataPromise = p\<rparr>"
    and retimed: "good d \<Longrightarrow> good (d\<lparr>dataTimer := t\<rparr>)"
    and retried: "good d \<Longrightarrow> good (d\<lparr>dataRetries := r, dataTimer := t\<rparr>)"
    and stored: "good d \<Longrightarrow> ok m \<Longrightarrow> log_data.id m = dataId d \<Longrightarrow> good (storeChunk m d)"
    and complete: "good d \<Longrightarrow> dataTotal d \<le> dataReceived d \<Longrightarrow> claim (dataId d) (dataTotal d) (dataBuffer d)"
    and short: "good d \<Longrightarrow> ok m \<Longrightarrow> log_data.id m = dataId d \<Longrightarrow> log_data.count m < LOG_DATA_CHUNK \<Longrightarrow>
      chunkContiguous m d \<Longrightarrow> claim (dataId d) (dataTotal d) (dataBuffer (storeChunk m d))"
begin

lemma settled_none: "log_inv good claim s \<Longrightarrow> logSettled s (length (logCalls s)) = None"
  using log_inv_settled [of good claim s "length (logCalls s)"]
  by (cases "logSettled s (length (logCalls s))") auto

lemma listLogs_inv:
  assumes "log_inv good claim s"
  shows "log_inv good claim (listLogs v s)"
proof (cases "requireIdle v s")
  case (Inl e)
  show ?thesis using settled_none [OF assms]
    by (intro log_inv_refused [OF assms]) (simp_all add: listLogs_def Inl Let_def)
next
  case (Inr w)
  then have a: "logActive s = None" by (auto simp: requireIdle_def split: if_splits)
  show ?thesis using log_inv_timers [OF assms] a
    by (intro log_inv_starts [OF assms a, where c = Call_list and op = "List_op \<lparr>listEntries = [],
        listNumLogs = None, listTimer = logNextTimer s, listPromise = length (logCalls s)\<rparr>"])
      (simp_all add: listLogs_def Inr Let_def logArm_def logSend_def op_ok_def entries_ok_def)
qed

lemma downloadLog_inv:
  assumes "log_inv good claim s"
  shows "log_inv good claim (downloadLog v i n s)"
proof (cases "requireIdle v s")
  case (Inl e)
  show ?thesis using settled_none [OF assms]
    by (intro log_inv_refused [OF assms]) (simp_all add: downloadLog_def Inl Let_def)
next
  case (Inr w)
  then have a: "logActive s = None" by (auto simp: requireIdle_def split: if_splits)
  show ?thesis
  proof (cases "sizeAllowed n")
    case None
    then show ?thesis using settled_none [OF assms]
      by (intro log_inv_refused [OF assms]) (simp_all add: downloadLog_def Inr Let_def)
  next
    case (Some k)
    then have k: "n = Some k" "0 \<le> k" "k \<le> MAX_LOG_DOWNLOAD_BYTES"
      by (auto simp: sizeAllowed_def split: option.splits if_splits)
    let ?d = "\<lparr>dataId = i, dataTotal = k, dataBuffer = newBytes (nat k), dataReceived = 0, dataRetries = 0,
        dataTimer = logNextTimer s, dataPromise = length (logCalls s)\<rparr>"
    let ?t = "s\<lparr>logCalls := logCalls s @ [Call_download i n], logTimers := insert (logNextTimer s) (logTimers s),
        logNextTimer := logNextTimer s + 1, logActive := Some (Data_op ?d)\<rparr>"
    have g: "good ?d" using k by (simp add: fresh)
    have t: "log_inv good claim ?t" using log_inv_timers [OF assms] a k g
      by (intro log_inv_starts [OF assms a, where c = "Call_download i n" and op = "Data_op ?d"])
        (simp_all add: op_ok_def)
    have e: "downloadLog v i n s = (if k = 0 then finishData v ?d ?t else requestData v ?d 0 ?t)"
      by (simp add: downloadLog_def Inr Some Let_def logArm_def)
    note act = log_inv_active [OF t, of "Data_op ?d"]
    show ?thesis
    proof (cases "k = 0")
      case True
      then have "claim i 0 (newBytes 0)" using complete [OF g] by simp
      then have "log_inv good claim (finishData v ?d ?t)"
        by (intro log_inv_ended [OF t finishData_ended [where d = ?d], where op = "Data_op ?d"])
          (use act k True in \<open>simp_all add: outcome_ok_def\<close>)
      with True e show ?thesis by simp
    next
      case False
      have "logActive ?t = Some (Data_op ?d)" "logSettled ?t (opPromise (Data_op ?d)) = None"
        using act by simp_all
      from requestData_cases [OF this, of v ?d 0] show ?thesis
      proof
        assume "\<exists>m. requestData v ?d 0 ?t = logSend m ?t"
        then obtain m where "requestData v ?d 0 ?t = logSend m ?t" ..
        then have "log_inv good claim (requestData v ?d 0 ?t)" using t by (simp only: log_inv_logSend)
        then show ?thesis using False e by simp
      next
        assume "log_ended ?t (Data_op ?d) (Log_failed Log_no_vehicle) (requestData v ?d 0 ?t)"
        then have "log_inv good claim (requestData v ?d 0 ?t)"
          by (rule log_inv_ended [OF t, where op = "Data_op ?d"]) (use act in simp_all)
        then show ?thesis using False e by simp
      qed
    qed
  qed
qed

lemma handleLogEntry_inv:
  assumes "log_inv good claim s"
  shows "log_inv good claim (handleLogEntry v m s)"
proof (cases "logActive s")
  case (Some op)
  show ?thesis
  proof (cases op)
    case (List_op l)
    note act = log_inv_active [OF assms Some, unfolded List_op]
    let ?l = "l\<lparr>listTimer := logNextTimer s\<rparr>"
    let ?m = "?l\<lparr>listNumLogs := Some (log_entry.numLogs m), listEntries := AList.update (log_entry.id m)
        \<lparr>onboardId = log_entry.id m, onboardSizeBytes = log_entry.size m, onboardTimeUtc = log_entry.timeUtc m\<rparr>
        (listEntries l)\<rparr>"
    let ?t = "\<lambda>l. s\<lparr>logTimers := {logNextTimer s}, logNextTimer := logNextTimer s + 1, logActive := Some (List_op l)\<rparr>"
    have ok: "entries_ok (listEntries l)" using act by (simp add: op_ok_def)
    then have ok': "entries_ok (listEntries ?m)"
      by (auto simp: entries_ok_def distinct_update dest!: update_member)
    have t: "log_inv good claim (?t ?m)" "log_inv good claim (?t ?l)"
      by (rule log_inv_goes_on [OF assms Some, where op' = "List_op ?m"];
          use act ok' List_op in \<open>simp add: op_ok_def\<close>)
        (rule log_inv_goes_on [OF assms Some, where op' = "List_op ?l"];
          use act ok List_op in \<open>simp add: op_ok_def\<close>)
    have e: "handleLogEntry v m s =
        (if log_entry.numLogs m = 0 then finishList v ?l (?t ?l)
         else if log_entry.numLogs m \<le> int (length (listEntries ?m)) then finishList v ?m (?t ?m) else ?t ?m)"
      using act by (simp add: handleLogEntry_def Some List_op Let_def logArm_def logClear_def)
    have fin: "log_inv good claim (finishList v k (?t k))"
      if "log_inv good claim (?t k)" "listPromise k = listPromise l" "listTimer k = logNextTimer s" "entries_ok (listEntries k)" for k
    proof (rule log_inv_ended [OF that(1) finishList_ended [where l = k]])
      have e: "map onboardId (map snd (listEntries k)) = map fst (listEntries k)"
        using that(4) by (auto simp: entries_ok_def)
      have "distinct (map onboardId (map snd (listEntries k)))"
        using that(4) unfolding e by (simp add: entries_ok_def)
      then have "distinct (map onboardId (sort_key onboardId (map snd (listEntries k))))"
        by (rule distinct_sort_key)
      then show "outcome_ok claim (logCalls (?t k) ! opPromise (List_op k))
          (Log_listed (sort_key onboardId (map snd (listEntries k))))"
        using that(2) act(4) by (simp add: outcome_ok_def op_ok_def)
    qed (use act that in simp_all)
    show ?thesis using t fin [of ?l] fin [of ?m] ok ok' by (simp add: e)
  qed (use assms Some in \<open>simp add: handleLogEntry_def\<close>)
qed (use assms in \<open>simp add: handleLogEntry_def\<close>)

lemma handleLogData_inv:
  assumes "log_inv good claim s" "ok m"
  shows "log_inv good claim (handleLogData v m s)"
proof (cases "\<exists>d. logActive s = Some (Data_op d) \<and> log_data.id m = dataId d")
  case True
  then obtain d where d: "logActive s = Some (Data_op d)" "log_data.id m = dataId d" by blast
  note act = log_inv_active [OF assms(1) d(1)]
  have g: "good d" using act by (simp add: op_ok_def)
  let ?d = "storeChunk m d\<lparr>dataTimer := logNextTimer s\<rparr>"
  have g': "good ?d" using stored [OF g assms(2) d(2)] by (rule retimed)
  let ?t = "\<lambda>pr. s\<lparr>logTimers := {logNextTimer s}, logNextTimer := logNextTimer s + 1, logActive := Some (Data_op ?d),
      logProgress := pr\<rparr>"
  have t: "log_inv good claim (?t pr)" for pr
    by (rule log_inv_goes_on [OF assms(1) d(1), where op' = "Data_op ?d"])
      (use act g' in \<open>simp_all add: op_ok_def\<close>)
  obtain pr where e: "handleLogData v m s =
      (if dataTotal d \<le> dataReceived ?d \<or> (log_data.count m < LOG_DATA_CHUNK \<and> chunkContiguous m d)
       then finishData v ?d (?t pr) else ?t pr)"
  proof
    show "handleLogData v m s = (if dataTotal d \<le> dataReceived ?d \<or> (log_data.count m < LOG_DATA_CHUNK \<and> chunkContiguous m d)
       then finishData v ?d (?t (if chunkContiguous m d then logProgress s @ [(dataPromise d, dataReceived ?d, dataTotal d)] else logProgress s))
       else ?t (if chunkContiguous m d then logProgress s @ [(dataPromise d, dataReceived ?d, dataTotal d)] else logProgress s))"
      using act by (simp add: handleLogData_def d Let_def logArm_def logClear_def)
  qed
  show ?thesis
  proof (cases "dataTotal d \<le> dataReceived ?d \<or> (log_data.count m < LOG_DATA_CHUNK \<and> chunkContiguous m d)")
    case True
    then have "claim (dataId d) (dataTotal d) (dataBuffer ?d)"
      using complete [OF g'] short [OF g assms(2) d(2)] by auto
    then have "log_inv good claim (finishData v ?d (?t pr))"
      by (intro log_inv_ended [OF t finishData_ended [where d = ?d], where op = "Data_op ?d"])
        (use act in \<open>simp_all add: outcome_ok_def op_ok_def\<close>)
    then show ?thesis using True e by simp
  next
    case False
    show ?thesis unfolding e if_not_P [OF False] by (rule t)
  qed
next
  case False
  then have "handleLogData v m s = s"
    by (auto simp: handleLogData_def split: option.split active_operation.split)
  then show ?thesis using assms(1) by simp
qed

lemma failActive_inv:
  assumes "log_inv good claim s"
  shows "log_inv good claim (failActive v e s)"
proof (cases "logActive s")
  case (Some op)
  note act = log_inv_active [OF assms Some]
  show ?thesis by (rule log_inv_ended [OF assms failActive_ended [OF Some act(2)] Some]) (use act in simp_all)
qed (use assms in \<open>simp add: failActive_def\<close>)

text \<open>The timer that fires is the one of the operation in progress.\<close>

lemma logTimerFires_inv:
  assumes "log_inv good claim s" "t \<in> logTimers s"
  shows "log_inv good claim (logTimerFires v t s)"
proof -
  obtain op where op: "logActive s = Some op" "t = opTimer op"
    using assms(2) unfolding log_inv_timers [OF assms(1)] by auto
  note act = log_inv_active [OF assms(1) op(1)]
  let ?s = "s\<lparr>logTimers := {}\<rparr>"
  have s: "logClear t s = ?s" using act op by (simp add: logClear_def)
  have fail: "log_inv good claim (failActive v e ?s)" for e
    by (rule log_inv_ends [OF assms(1) op(1), where r = "Log_failed e"])
      (use failActive_ended [of ?s op e v] act op(1) in \<open>simp_all add: log_ended_def\<close>)
  show ?thesis
  proof (cases "\<exists>d. op = Data_op d \<and> dataRetries d < MAX_STALL_RETRIES \<and> dataReceived d < dataTotal d")
    case True
    then obtain d where d: "op = Data_op d" "dataRetries d < MAX_STALL_RETRIES" "dataReceived d < dataTotal d" by blast
    let ?d = "d\<lparr>dataRetries := dataRetries d + 1, dataTimer := logNextTimer s\<rparr>"
    let ?t = "s\<lparr>logTimers := {logNextTimer s}, logNextTimer := logNextTimer s + 1, logActive := Some (Data_op ?d)\<rparr>"
    let ?u = "if dataReceived d = 0 then sendRequestEnd v ?t else ?t"
    have "good ?d" using act d by (simp add: op_ok_def retried)
    then have u: "log_inv good claim ?u"
      by (intro log_inv_goes_on [OF assms(1) op(1), where op' = "Data_op ?d"])
        (use act d in \<open>simp_all add: op_ok_def\<close>)
    have e: "logTimerFires v t s = requestData v ?d (dataReceived d) ?u"
      using op d s by (simp add: logTimerFires_def logOnTimeout_def logArm_def Let_def)
    have a: "logActive ?u = Some (Data_op ?d)" "logSettled ?u (opPromise (Data_op ?d)) = None"
      using act d by simp_all
    from requestData_cases [OF a, of v ?d "dataReceived d"] show ?thesis
    proof
      assume "\<exists>m. requestData v ?d (dataReceived d) ?u = logSend m ?u"
      then obtain m where m: "requestData v ?d (dataReceived d) ?u = logSend m ?u" ..
      show ?thesis unfolding e m log_inv_logSend by (rule u)
    next
      assume "log_ended ?u (Data_op ?d) (Log_failed Log_no_vehicle) (requestData v ?d (dataReceived d) ?u)"
      from log_inv_ended [OF u this a(1)] log_inv_active [OF u a(1)] show ?thesis unfolding e by simp
    qed
  next
    case False
    then have "logTimerFires v t s = failActive v (timeoutError op) ?s"
      using op s by (auto simp: logTimerFires_def logOnTimeout_def split: active_operation.split)
    then show ?thesis using fail by simp
  qed
qed

text \<open>Data messages are assumed to be \<open>ok\<close>; nothing is asked of the other events.\<close>

lemma log_step_inv:
  assumes "log_step s e s'" "log_inv good claim s" "\<And>m. e = Data_arrives m \<Longrightarrow> ok m"
  shows "log_inv good claim s'"
  using assms(1)
proof cases
  case (refused k e v)
  then show ?thesis using assms(2) failActive_inv by (simp add: logSendFails_def split: mavlink_message.split)
next
  case (cancel v e)
  then show ?thesis using assms(2) failActive_inv by (simp add: logCancelAll_def)
qed (use assms(2,3) listLogs_inv downloadLog_inv handleLogEntry_inv handleLogData_inv logTimerFires_inv in simp_all)

lemma log_run_inv:
  assumes "log_run s es s'" "s = newLogService" "\<forall>m. Data_arrives m \<in> set es \<longrightarrow> ok m"
  shows "log_inv good claim s'"
  using assms
proof induction
  case (none s)
  then show ?case by (simp add: log_inv_def newLogService_def)
next
  case (more s es t e u)
  then show ?case by (intro log_step_inv [OF more.hyps(2)]) auto
qed

end

end
