(* ===== verification/Log_Transfer.thy ===== *)
theory Log_Transfer
  imports Log_Download
begin

text \<open>
  What the log download returns and when it ends: the contract of \<open>Log_Download\<close> is met with the
  bytes of the logs the vehicle holds, and without any assumption on the vehicle.
\<close>

subsection \<open>A vehicle that sends its logs\<close>

text \<open>A \<open>LOG_DATA\<close> message of a log: at most 90 of its bytes at their offset, fewer only at its end.\<close>

definition chunk_of :: "(int \<Rightarrow> bytes) \<Rightarrow> log_data \<Rightarrow> bool" where
  "chunk_of logs m \<longleftrightarrow>
     (let content = logs (log_data.id m)
      in 0 \<le> log_data.ofs m
        \<and> log_data.count m = min LOG_DATA_CHUNK (max 0 (int (length content) - log_data.ofs m))
        \<and> take (nat (log_data.count m)) (log_data.data m)
            = take (nat (log_data.count m)) (drop (nat (log_data.ofs m)) content))"

definition received_of :: "(int \<Rightarrow> bytes) \<Rightarrow> data_operation \<Rightarrow> bool" where
  "received_of logs d \<longleftrightarrow>
     0 \<le> dataReceived d \<and> 0 \<le> dataTotal d
     \<and> arrived (logs (dataId d)) (nat (dataTotal d)) (dataBuffer d) (nat (dataReceived d))"

lemma storeChunk_received:
  assumes "received_of logs d" "chunk_of logs m" "log_data.id m = dataId d"
  shows "received_of logs (storeChunk m d)"
    and "log_data.count m < LOG_DATA_CHUNK \<Longrightarrow> chunkContiguous m d \<Longrightarrow>
      dataBuffer (storeChunk m d) = file_image (logs (dataId d)) (nat (dataTotal d))"
proof -
  let ?c = "logs (dataId d)" and ?o = "nat (log_data.ofs m)" and ?w = "chunkWritable m d"
  have o: "0 \<le> log_data.ofs m" and n: "log_data.count m = min LOG_DATA_CHUNK (max 0 (int (length ?c) - log_data.ofs m))"
    and b: "take (nat (log_data.count m)) (log_data.data m) = take (nat (log_data.count m)) (drop ?o ?c)"
    using assms(2,3) by (auto simp: chunk_of_def Let_def)
  have r: "0 \<le> dataReceived d" "0 \<le> dataTotal d" "arrived ?c (nat (dataTotal d)) (dataBuffer d) (nat (dataReceived d))"
    using assms(1) by (simp_all add: received_of_def)
  show "received_of logs (storeChunk m d)"
  proof (cases "log_data.ofs m < dataTotal d")
    case False
    then show ?thesis using assms(1) by (simp add: storeChunk_def chunkContiguous_def Let_def)
  next
    case True
    have w: "0 \<le> ?w" "?w \<le> log_data.count m" "log_data.ofs m + ?w \<le> dataTotal d"
      using True n by (auto simp: chunkWritable_def LOG_DATA_CHUNK_def)
    have c: "take (nat ?w) (log_data.data m) = take (nat ?w) (drop ?o ?c)"
    proof -
      have "take (nat ?w) (take (nat (log_data.count m)) (log_data.data m))
          = take (nat ?w) (take (nat (log_data.count m)) (drop ?o ?c))" by (simp add: b)
      then show ?thesis using w by (simp add: min_def nat_mono)
    qed
    have f: "?o + nat ?w \<le> nat (dataTotal d)" "nat ?w = 0 \<or> ?o + nat ?w \<le> length ?c"
      using o w n by auto
    note fw = arrived_write [OF r(3) f]
    show ?thesis
    proof (cases "log_data.ofs m \<le> dataReceived d")
      case True
      have "nat (max (dataReceived d) (log_data.ofs m + ?w)) = max (nat (dataReceived d)) (?o + nat ?w)"
        using r o w by (simp add: max_def nat_add_distrib)
      then show ?thesis using fw(2) True \<open>log_data.ofs m < dataTotal d\<close> r c o
        by (simp add: storeChunk_def received_of_def Let_def chunkContiguous_def le_max_iff_disj nat_mono)
    next
      case False
      then show ?thesis using fw(1) True r c
        by (simp add: storeChunk_def received_of_def Let_def chunkContiguous_def)
    qed
  qed
  then have s: "arrived ?c (nat (dataTotal d)) (dataBuffer (storeChunk m d)) (nat (dataReceived (storeChunk m d)))"
    by (simp add: received_of_def)
  assume short: "log_data.count m < LOG_DATA_CHUNK" and cont: "chunkContiguous m d"
  have e: "int (length ?c) \<le> log_data.ofs m + log_data.count m"
    using short n by (auto simp: LOG_DATA_CHUNK_def)
  have "dataReceived (storeChunk m d) = max (dataReceived d) (log_data.ofs m + ?w)"
    using cont by (simp add: storeChunk_def Let_def)
  moreover have "?w = min (log_data.count m) (dataTotal d - log_data.ofs m)"
    using cont short by (simp add: chunkWritable_def chunkContiguous_def)
  ultimately have "dataTotal d \<le> dataReceived (storeChunk m d) \<or> int (length ?c) \<le> dataReceived (storeChunk m d)"
    using e by linarith
  then have "nat (dataTotal d) \<le> nat (dataReceived (storeChunk m d)) \<or> length ?c \<le> nat (dataReceived (storeChunk m d))"
    by linarith
  from arrived_all [OF s this] show "dataBuffer (storeChunk m d) = file_image ?c (nat (dataTotal d))" .
qed

definition log_of :: "(int \<Rightarrow> bytes) \<Rightarrow> int \<Rightarrow> int \<Rightarrow> bytes \<Rightarrow> bool" where
  "log_of logs i n bs \<longleftrightarrow> 0 \<le> n \<and> bs = file_image (logs i) (nat n)"

interpretation log_content: log_contract "chunk_of logs" "received_of logs" "log_of logs" for logs
proof
  show "received_of logs \<lparr>dataId = i, dataTotal = n, dataBuffer = newBytes (nat n), dataReceived = 0,
      dataRetries = 0, dataTimer = t, dataPromise = p\<rparr>" if "0 \<le> n" for i n t p
    using that by (simp add: received_of_def arrived_fresh)
  show "log_of logs (dataId d) (dataTotal d) (dataBuffer d)"
    if "received_of logs d" "dataTotal d \<le> dataReceived d" for d
    using that arrived_all [of "logs (dataId d)" "nat (dataTotal d)" "dataBuffer d" "nat (dataReceived d)"]
    by (simp add: received_of_def log_of_def nat_mono)
  show "log_of logs (dataId d) (dataTotal d) (dataBuffer (storeChunk m d))"
    if "received_of logs d" "chunk_of logs m" "log_data.id m = dataId d"
      "log_data.count m < LOG_DATA_CHUNK" "chunkContiguous m d" for d m
    using storeChunk_received(2) [OF that] that(1) by (simp add: log_of_def received_of_def)
qed (simp_all add: storeChunk_received(1), simp_all add: received_of_def)

interpretation log_any: log_contract "\<lambda>_. True" "\<lambda>_. True" "\<lambda>_ _ _. True"
  by unfold_locales simp_all

subsection \<open>How long a call can take\<close>

text \<open>A settled call stays as it is.\<close>

definition log_kept :: "log_service \<Rightarrow> log_service \<Rightarrow> bool" where
  "log_kept s s' \<longleftrightarrow> (\<forall>p r. logSettled s p = Some r \<longrightarrow> logSettled s' p = Some r)"

lemma log_kept_refl [simp]: "log_kept s s"
  by (simp add: log_kept_def)

lemma log_kept_settle: "log_kept s t \<Longrightarrow> log_kept s (logSettle p r t)"
  by (auto simp: log_kept_def logSettle_def)

lemma log_kept_same: "logSettled t = logSettled s \<Longrightarrow> log_kept s t"
  by (simp add: log_kept_def)

lemma logClear_settled [simp]: "logSettled (logClear t s) = logSettled s"
  by (simp add: logClear_def)

lemma logSend_settled [simp]: "logSettled (logSend m s) = logSettled s"
  by (simp add: logSend_def)

lemma log_kept_fail: "logSettled t = logSettled s \<Longrightarrow> log_kept s (failActive v e t)"
  by (auto simp: failActive_def simp: log_kept_settle log_kept_same split: option.split)

lemma log_kept_request: "logSettled t = logSettled s \<Longrightarrow> log_kept s (requestData v d off t)"
  by (auto simp: requestData_def simp: log_kept_fail log_kept_same split: option.split)

lemma log_kept_finishData: "logSettled t = logSettled s \<Longrightarrow> log_kept s (finishData v d t)"
  by (simp add: finishData_def log_kept_settle log_kept_same)

lemma log_kept_finishList: "logSettled t = logSettled s \<Longrightarrow> log_kept s (finishList v l t)"
  by (simp add: finishList_def log_kept_settle log_kept_same)

lemmas log_kept_intros = log_kept_fail log_kept_request log_kept_finishData log_kept_finishList log_kept_settle log_kept_same

lemma log_step_kept: "log_step s e s' \<Longrightarrow> log_kept s s'"
proof (induction rule: log_step.induct)
  case (list s v)
  show ?case by (auto simp: listLogs_def logArm_def Let_def simp: log_kept_intros split: sum.split)
next
  case (download s i n v)
  show ?case by (auto simp: downloadLog_def logArm_def Let_def simp: log_kept_intros split: sum.split option.split)
next
  case (entry s v m)
  show ?case
    by (auto simp: handleLogEntry_def logArm_def Let_def simp: log_kept_intros split: option.split active_operation.split)
next
  case (data s v c)
  show ?case
    by (auto simp: handleLogData_def logArm_def Let_def simp: log_kept_intros split: option.split active_operation.split)
next
  case (timer t s v)
  show ?case
    by (auto simp: logTimerFires_def logOnTimeout_def logArm_def Let_def simp: log_kept_intros
        split: option.split active_operation.split)
next
  case (refused k s v e)
  show ?case by (auto simp: logSendFails_def simp: log_kept_intros split: mavlink_message.split)
next
  case (cancel s e v)
  show ?case by (auto simp: logCancelAll_def simp: log_kept_intros)
qed

text \<open>How many more times the timer can fire before the operation in progress gives up.\<close>

definition firesLeft :: "log_service \<Rightarrow> nat" where
  "firesLeft s =
     (case logActive s of
        None \<Rightarrow> 0
      | Some (List_op l) \<Rightarrow> 1
      | Some (Data_op d) \<Rightarrow> 1 + (MAX_STALL_RETRIES - dataRetries d))"

lemma firesLeft_bound: "firesLeft s \<le> 1 + MAX_STALL_RETRIES"
  by (simp add: firesLeft_def split: option.split active_operation.split)

lemma failActive_no_fires: "firesLeft (failActive v e s) = 0"
  by (auto simp: firesLeft_def failActive_def split: option.split)

lemma requestData_fires: "firesLeft (requestData v d off s) \<le> firesLeft s"
  using failActive_no_fires [of v Log_no_vehicle s]
  by (auto simp: requestData_def logSend_def firesLeft_def split: option.split)

lemma logTimerFires_fewer:
  assumes "log_inv good claim s" "t \<in> logTimers s"
  shows "firesLeft (logTimerFires v t s) < firesLeft s"
proof -
  obtain op where op: "logActive s = Some op" "t = opTimer op"
    using assms(2) unfolding log_inv_timers [OF assms(1)] by auto
  have a: "logActive (logClear t s) = Some op" using op by (simp add: logClear_def)
  have pos: "0 < firesLeft s" using op by (simp add: firesLeft_def split: active_operation.split)
  show ?thesis
  proof (cases "\<exists>d. op = Data_op d \<and> dataRetries d < MAX_STALL_RETRIES \<and> dataReceived d < dataTotal d")
    case True
    then obtain d where d: "op = Data_op d" "dataRetries d < MAX_STALL_RETRIES" "dataReceived d < dataTotal d" by blast
    obtain d' u where e: "logTimerFires v t s = requestData v d' (dataReceived d') u"
      and u: "logActive u = Some (Data_op d')" "dataRetries d' = dataRetries d + 1"
    proof
      let ?d = "d\<lparr>dataRetries := dataRetries d + 1, dataTimer := logNextTimer s\<rparr>"
      let ?t = "(logClear t s)\<lparr>logTimers := insert (logNextTimer s) (logTimers (logClear t s)),
        logNextTimer := logNextTimer s + 1, logActive := Some (Data_op ?d)\<rparr>"
      let ?u = "if dataReceived d = 0 then sendRequestEnd v ?t else ?t"
      show "logTimerFires v t s = requestData v ?d (dataReceived ?d) ?u"
        using a d by (simp add: logTimerFires_def logOnTimeout_def logArm_def Let_def) (simp add: logClear_def)
      show "logActive ?u = Some (Data_op ?d)" "dataRetries ?d = dataRetries d + 1" by simp_all
    qed
    have "firesLeft u < firesLeft s" using op d u by (simp add: firesLeft_def)
    then show ?thesis using requestData_fires [of v d' "dataReceived d'" u] e by simp
  next
    case False
    then have "logTimerFires v t s = failActive v (timeoutError op) (logClear t s)"
      using a by (auto simp: logTimerFires_def logOnTimeout_def split: active_operation.split)
    then show ?thesis using pos failActive_no_fires by simp
  qed
qed

definition log_silent :: "log_event list \<Rightarrow> bool" where
  "log_silent es \<longleftrightarrow> (\<forall>e\<in>set es. \<exists>t. e = Log_timer t)"

lemma log_silent_run:
  assumes "log_run s es s'" "log_silent es" "log_inv (\<lambda>_. True) (\<lambda>_ _ _. True) s"
  shows "length es + firesLeft s' \<le> firesLeft s \<and> log_inv (\<lambda>_. True) (\<lambda>_ _ _. True) s'"
  using assms
proof induction
  case (more s es t e u)
  then have t: "length es + firesLeft t \<le> firesLeft s" "log_inv (\<lambda>_. True) (\<lambda>_ _ _. True) t"
    by (simp_all add: log_silent_def)
  obtain k where k: "e = Log_timer k" using more.prems(1) by (auto simp: log_silent_def)
  from more.hyps(2) obtain v where "u = logTimerFires v k t" "k \<in> logTimers t"
    unfolding k by cases simp
  then show ?case
    using t logTimerFires_fewer [OF t(2), of k v] log_any.logTimerFires_inv [OF t(2), of k v] by simp
qed simp

lemma log_run_kept: "log_run s es s' \<Longrightarrow> log_kept s s'"
proof (induction rule: log_run.induct)
  case (more s es t e u)
  then show ?case using log_step_kept [OF more.hyps(2)] by (simp add: log_kept_def)
qed simp

text \<open>
  A refused send fails whatever operation is in progress when the refusal arrives: here the data
  request of a call that was cancelled is refused while the next call waits.
\<close>

definition lateRefusal :: log_service where
  "lateRefusal =
     (let v = Some \<lparr>vehicleSystemId = 1, vehicleComponentId = 1\<rparr>;
          s = logCancelAll v (Log_given ''stop'') (downloadLog v 7 (Some 100) newLogService);
          s = downloadLog v 8 (Some 100) s
      in logSendFails v 0 (Log_given ''refused'') s)"

lemma late_refusal_fails_next_call:
  "logCalls lateRefusal = [Call_download 7 (Some 100), Call_download 8 (Some 100)]"
  "logSettled lateRefusal 0 = Some (Log_failed (Log_given ''stop''))"
  "logSettled lateRefusal 1 = Some (Log_failed (Log_given ''refused''))"
  "\<exists>m. logSent lateRefusal ! 0 = LOG_REQUEST_DATA m \<and> log_request_data.id m = 7"
  by (simp_all add: lateRefusal_def newLogService_def downloadLog_def requireIdle_def sizeAllowed_def
      MAX_LOG_DOWNLOAD_BYTES_def logArm_def requestData_def logSend_def logCancelAll_def failActive_def
      logSettle_def sendRequestEnd_def clearActive_def logClear_def logSendFails_def Let_def)

end
