(* ===== verification/Mavftp_Payload.thy ===== *)
theory Mavftp_Payload
  imports Mav_Fields Mav_Messages Js_Text
begin

unbundle bit_operations_syntax

text \<open>
  The payload of a \<open>FILE_TRANSFER_PROTOCOL\<close> message, from \<open>ardupilot-core/src/mavftp.ts\<close>, and the
  operation and error codes of \<open>protocol-mavlink/src/constants.ts\<close> that the client uses.
\<close>

subsection \<open>Payload\<close>

definition MAVFTP_DATA_OFFSET :: nat where
  "MAVFTP_DATA_OFFSET = 12"

definition MAVFTP_MAX_DATA_SIZE :: nat where
  "MAVFTP_MAX_DATA_SIZE = 239"

datatype ftp_opcode_name =
    TERMINATE_SESSION | RESET_SESSIONS | LIST_DIRECTORY | OPEN_FILE_RO | READ_FILE | CREATE_FILE
  | WRITE_FILE | REMOVE_FILE | REMOVE_DIRECTORY | BURST_READ_FILE | FTP_ACK | FTP_NAK

primrec MAV_FTP_OPCODE :: "ftp_opcode_name \<Rightarrow> int" where
  "MAV_FTP_OPCODE TERMINATE_SESSION = 1"
| "MAV_FTP_OPCODE RESET_SESSIONS = 2"
| "MAV_FTP_OPCODE LIST_DIRECTORY = 3"
| "MAV_FTP_OPCODE OPEN_FILE_RO = 4"
| "MAV_FTP_OPCODE READ_FILE = 5"
| "MAV_FTP_OPCODE CREATE_FILE = 6"
| "MAV_FTP_OPCODE WRITE_FILE = 7"
| "MAV_FTP_OPCODE REMOVE_FILE = 8"
| "MAV_FTP_OPCODE REMOVE_DIRECTORY = 10"
| "MAV_FTP_OPCODE BURST_READ_FILE = 15"
| "MAV_FTP_OPCODE FTP_ACK = 128"
| "MAV_FTP_OPCODE FTP_NAK = 129"

datatype ftp_err_name = FTP_FAIL | FTP_EOF | FTP_FILE_EXISTS

primrec MAV_FTP_ERR :: "ftp_err_name \<Rightarrow> int" where
  "MAV_FTP_ERR FTP_FAIL = 1"
| "MAV_FTP_ERR FTP_EOF = 6"
| "MAV_FTP_ERR FTP_FILE_EXISTS = 8"

record mavftp_payload =
  seqNumber :: int
  ftpSession :: int
  ftpOpcode :: int
  ftpSize :: int
  reqOpcode :: int
  burstComplete :: int
  ftpOffset :: int
  ftpData :: bytes

definition decodeMavftpPayload :: "bytes \<Rightarrow> mavftp_payload option" where
  "decodeMavftpPayload bs = do {
     let n = byteOr0 4 bs;
     seq \<leftarrow> getUint16 0 bs;
     off \<leftarrow> getUint32 8 bs;
     Some \<lparr>seqNumber = seq, ftpSession = byteOr0 2 bs, ftpOpcode = byteOr0 3 bs, ftpSize = n,
       reqOpcode = byteOr0 5 bs, burstComplete = byteOr0 6 bs, ftpOffset = off,
       ftpData = slice MAVFTP_DATA_OFFSET (MAVFTP_DATA_OFFSET + nat n) bs\<rparr> }"

definition encodeMavftpPayload :: "mavftp_payload \<Rightarrow> bytes option" where
  "encodeMavftpPayload p = do {
     let bs = newBytes 251;
     bs \<leftarrow> setUint16 0 (seqNumber p AND 0xFFFF) bs;
     let bs = putByte 2 (ftpSession p AND 0xFF) bs;
     let bs = putByte 3 (ftpOpcode p AND 0xFF) bs;
     let bs = putByte 4 (ftpSize p AND 0xFF) bs;
     let bs = putByte 5 (reqOpcode p AND 0xFF) bs;
     let bs = putByte 6 (burstComplete p AND 0xFF) bs;
     let bs = putByte 7 0 bs;
     bs \<leftarrow> setUint32 8 (toUint32 (ftpOffset p)) bs;
     setBytes MAVFTP_DATA_OFFSET (take (min (nat (ftpSize p)) MAVFTP_MAX_DATA_SIZE) (ftpData p)) bs }"

definition mavftp_ok :: "mavftp_payload \<Rightarrow> bool" where
  "mavftp_ok p \<longleftrightarrow> u16_ok (seqNumber p) \<and> u8_ok (ftpSession p) \<and> u8_ok (ftpOpcode p)
     \<and> ftpSize p = int (length (ftpData p)) \<and> length (ftpData p) \<le> MAVFTP_MAX_DATA_SIZE
     \<and> u8_ok (reqOpcode p) \<and> u8_ok (burstComplete p) \<and> u32_ok (ftpOffset p)"

lemma mask_u16: "u16_ok v \<Longrightarrow> v AND 0xFFFF = v"
  using take_bit_int_eq_self [of v 16] by (simp add: u16_ok_def take_bit_eq_mask mask_eq_exp_minus_1)

lemma mavftp_roundtrip:
  assumes "mavftp_ok p"
  shows "\<exists>bs. encodeMavftpPayload p = Some bs \<and> length bs = 251 \<and> decodeMavftpPayload bs = Some p"
proof -
  have n: "u8_ok (ftpSize p)" "length (ftpData p) \<le> 239" "unat (word_of_nat (length (ftpData p)) :: byte) = length (ftpData p)"
    using assms by (simp_all add: mavftp_ok_def u8_ok_def MAVFTP_MAX_DATA_SIZE_def unat_of_nat_byte)
  have u: "uint (word_of_nat (length (ftpData p)) :: byte) = int (length (ftpData p))"
    using n(3) by (metis uint_nat)
  show ?thesis
    using assms n u
    by (cases p) (simp add: encodeMavftpPayload_def decodeMavftpPayload_def mavftp_ok_def wire mask_u16
        MAVFTP_DATA_OFFSET_def MAVFTP_MAX_DATA_SIZE_def Let_def)
qed

end
