(* ===== verification/Mavftp_Service.thy ===== *)
theory Mavftp_Service
  imports Mavftp_Payload Transfer_Base
begin

unbundle bit_operations_syntax

text \<open>
  The message level of \<open>ardupilot-core/src/runtime-mavftp-service.ts\<close>: requests matched to replies
  by sequence number, and the burst download, which many packets answer. Requests and bursts are
  numbered in the order they were made; \<open>ftpReplies\<close> and \<open>ftpResults\<close> hold how each was settled,
  \<open>ftpRequestTimers\<close> and \<open>ftpBurstTimers\<close> the armed timers. What \<open>getVehicle()\<close> answers is an
  argument, and each send may be refused later.
\<close>

subsection \<open>State\<close>

definition MAVFTP_BURST_READ_SIZE :: int where
  "MAVFTP_BURST_READ_SIZE = 239"

definition MAX_MAVFTP_BURST_RETRIES :: nat where
  "MAX_MAVFTP_BURST_RETRIES = 6"

datatype ftp_error =
    Ftp_no_vehicle
  | Ftp_request_error int "int option"
  | Ftp_timeout
  | Ftp_gap int int
  | Ftp_no_burst_data
  | Ftp_aborted
  | Ftp_given string

record ftp_waiter =
  waiterSeq :: int
  waiterTimer :: nat
  waiterPromise :: nat

record ftp_burst =
  burstSession :: int
  burstSize :: int
  burstBuffer :: bytes
  burstReceived :: int
  burstHighWater :: int
  burstRetries :: nat
  burstTimer :: nat
  burstPromise :: nat

text \<open>\<open>PartialTransfer\<close> is attached to the error when bytes were received.\<close>

record partial_transfer =
  partialBytes :: bytes
  partialDeclared :: int

datatype burst_outcome = Burst_bytes bytes | Burst_failed ftp_error "partial_transfer option"

datatype ftp_sender = From_request nat | From_burst nat

record ftp_service =
  ftpSequence :: int
  ftpWaiters :: "ftp_waiter list"
  ftpRequestTimers :: "nat set"
  ftpNextRequestTimer :: nat
  ftpRequests :: "int list"
  ftpReplies :: "nat \<rightharpoonup> ftp_error + mavftp_payload"
  ftpActive :: "ftp_burst option"
  ftpBurstTimers :: "nat set"
  ftpNextBurstTimer :: nat
  ftpBursts :: "(int \<times> int) list"
  ftpResults :: "nat \<rightharpoonup> burst_outcome"
  ftpProgress :: "(nat \<times> int \<times> int) list"
  ftpSent :: "(ftp_sender \<times> vehicle_identity \<times> mavftp_payload) list"
  ftpStaleCleared :: bool

definition newFtpService :: ftp_service where
  "newFtpService = \<lparr>ftpSequence = 0, ftpWaiters = [], ftpRequestTimers = {}, ftpNextRequestTimer = 0,
     ftpRequests = [], ftpReplies = Map.empty, ftpActive = None, ftpBurstTimers = {}, ftpNextBurstTimer = 0,
     ftpBursts = [], ftpResults = Map.empty, ftpProgress = [], ftpSent = [], ftpStaleCleared = False\<rparr>"

text \<open>The message of an entry of \<open>ftpSent\<close>.\<close>

definition ftpMessage :: "vehicle_identity \<Rightarrow> mavftp_payload \<Rightarrow> mavlink_message option" where
  "ftpMessage v p = map_option (\<lambda>bs. FILE_TRANSFER_PROTOCOL
     \<lparr>file_transfer_protocol.targetNetwork = 0, file_transfer_protocol.targetSystem = vehicleSystemId v,
      file_transfer_protocol.targetComponent = vehicleComponentId v, file_transfer_protocol.payload = bs\<rparr>)
     (encodeMavftpPayload p)"

subsection \<open>Sequence numbers\<close>

definition nextSequence :: "ftp_service \<Rightarrow> int \<times> ftp_service" where
  "nextSequence s = (ftpSequence s, s\<lparr>ftpSequence := (ftpSequence s + 1) AND 0xFFFF\<rparr>)"

definition adoptServerSequence :: "int \<Rightarrow> ftp_service \<Rightarrow> ftp_service" where
  "adoptServerSequence serverSeq s =
     (let normalized = serverSeq AND 0xFFFF
      in if (normalized - ftpSequence s) AND 0xFFFF < 0x8000 then s\<lparr>ftpSequence := normalized\<rparr> else s)"

subsection \<open>Requests\<close>

definition settleRequest :: "nat \<Rightarrow> (ftp_error + mavftp_payload) \<Rightarrow> ftp_service \<Rightarrow> ftp_service" where
  "settleRequest p r s = (if ftpReplies s p = None then s\<lparr>ftpReplies := (ftpReplies s)(p \<mapsto> r)\<rparr> else s)"

text \<open>\<open>send\<close> up to the wait: the waiter is there before the message goes out.\<close>

definition ftpSend :: "vehicle_identity option \<Rightarrow> int \<Rightarrow> int \<Rightarrow> int \<Rightarrow> int \<Rightarrow> bytes \<Rightarrow> ftp_service \<Rightarrow> ftp_service" where
  "ftpSend vehicle session opcode n offset bs s =
     (let p = length (ftpRequests s)
      in case vehicle of
           None \<Rightarrow> settleRequest p (Inl Ftp_no_vehicle) (s\<lparr>ftpRequests := ftpRequests s @ [ftpSequence s]\<rparr>)
         | Some v \<Rightarrow>
             (let (seq, s) = nextSequence s;
                  expected = (seq + 1) AND 0xFFFF;
                  t = ftpNextRequestTimer s
              in s\<lparr>ftpRequests := ftpRequests s @ [seq],
                   ftpRequestTimers := insert t (ftpRequestTimers s), ftpNextRequestTimer := t + 1,
                   ftpWaiters := ftpWaiters s @ [\<lparr>waiterSeq = expected, waiterTimer = t, waiterPromise = p\<rparr>],
                   ftpSent := ftpSent s @ [(From_request p, v, \<lparr>seqNumber = seq, ftpSession = session,
                     ftpOpcode = opcode, ftpSize = n, reqOpcode = 0, burstComplete = 0, ftpOffset = offset,
                     ftpData = bs\<rparr>)]\<rparr>))"

definition resolveWaiters :: "mavftp_payload \<Rightarrow> ftp_service \<Rightarrow> ftp_service" where
  "resolveWaiters m s =
     (let hit = filter (\<lambda>w. waiterSeq w = seqNumber m) (ftpWaiters s)
      in fold (\<lambda>w s. settleRequest (waiterPromise w) (Inr m)
           (s\<lparr>ftpRequestTimers := ftpRequestTimers s - {waiterTimer w}, ftpWaiters := remove1 w (ftpWaiters s)\<rparr>)) hit s)"

definition requestTimerFires :: "nat \<Rightarrow> ftp_service \<Rightarrow> ftp_service" where
  "requestTimerFires t s =
     (case find (\<lambda>w. waiterTimer w = t) (ftpWaiters s) of
        None \<Rightarrow> s\<lparr>ftpRequestTimers := ftpRequestTimers s - {t}\<rparr>
      | Some w \<Rightarrow> settleRequest (waiterPromise w) (Inl Ftp_timeout)
          (s\<lparr>ftpRequestTimers := ftpRequestTimers s - {t}, ftpWaiters := remove1 w (ftpWaiters s)\<rparr>))"

text \<open>\<open>waiter.cancel\<close>, which does nothing once the waiter is settled.\<close>

definition cancelWaiter :: "nat \<Rightarrow> ftp_error \<Rightarrow> ftp_service \<Rightarrow> ftp_service" where
  "cancelWaiter p e s =
     (case find (\<lambda>w. waiterPromise w = p) (ftpWaiters s) of
        None \<Rightarrow> s
      | Some w \<Rightarrow> settleRequest p (Inl e)
          (s\<lparr>ftpRequestTimers := ftpRequestTimers s - {waiterTimer w}, ftpWaiters := remove1 w (ftpWaiters s)\<rparr>))"

text \<open>The value of a request: an \<open>ACK\<close> is the answer, anything else an error.\<close>

definition requestAnswer :: "mavftp_payload \<Rightarrow> ftp_error + mavftp_payload" where
  "requestAnswer r =
     (if ftpOpcode r = MAV_FTP_OPCODE FTP_ACK then Inr r
      else Inl (Ftp_request_error (byteOr0 0 (ftpData r)) (byteAt 1 (ftpData r))))"

subsection \<open>The burst\<close>

definition settleBurst :: "nat \<Rightarrow> burst_outcome \<Rightarrow> ftp_service \<Rightarrow> ftp_service" where
  "settleBurst p r s = (if ftpResults s p = None then s\<lparr>ftpResults := (ftpResults s)(p \<mapsto> r)\<rparr> else s)"

definition closeBurst :: "ftp_burst \<Rightarrow> ftp_service \<Rightarrow> ftp_service" where
  "closeBurst op s = s\<lparr>ftpBurstTimers := ftpBurstTimers s - {burstTimer op}, ftpActive := None\<rparr>"

definition finishBurst :: "ftp_burst \<Rightarrow> ftp_service \<Rightarrow> ftp_service" where
  "finishBurst op s =
     settleBurst (burstPromise op)
       (Burst_bytes (if burstSize op \<le> burstReceived op then burstBuffer op
                     else slice 0 (nat (burstReceived op)) (burstBuffer op)))
       (closeBurst op s)"

definition burstPartial :: "ftp_burst \<Rightarrow> partial_transfer option" where
  "burstPartial op =
     (if 0 < burstReceived op
      then Some \<lparr>partialBytes = slice 0 (nat (burstReceived op)) (burstBuffer op), partialDeclared = burstSize op\<rparr>
      else None)"

definition failBurst :: "ftp_error \<Rightarrow> ftp_service \<Rightarrow> ftp_service" where
  "failBurst e s =
     (case ftpActive s of
        None \<Rightarrow> s
      | Some op \<Rightarrow> settleBurst (burstPromise op) (Burst_failed e (burstPartial op)) (closeBurst op s))"

definition sendBurstReadRequest :: "vehicle_identity option \<Rightarrow> ftp_burst \<Rightarrow> int \<Rightarrow> ftp_service \<Rightarrow> ftp_service" where
  "sendBurstReadRequest vehicle op offset s =
     (case vehicle of
        None \<Rightarrow> failBurst Ftp_no_vehicle s
      | Some v \<Rightarrow>
          (let (seq, s) = nextSequence s
           in s\<lparr>ftpSent := ftpSent s @ [(From_burst (burstPromise op), v, \<lparr>seqNumber = seq,
                ftpSession = burstSession op, ftpOpcode = MAV_FTP_OPCODE BURST_READ_FILE,
                ftpSize = MAVFTP_BURST_READ_SIZE, reqOpcode = 0, burstComplete = 0, ftpOffset = offset,
                ftpData = []\<rparr>)]\<rparr>))"

text \<open>A timer for the burst, in place of the one it had if \<open>clear\<close>.\<close>

definition armBurst :: "bool \<Rightarrow> ftp_burst \<Rightarrow> ftp_service \<Rightarrow> ftp_burst \<times> ftp_service" where
  "armBurst clear op s =
     (let t = ftpNextBurstTimer s; op' = op\<lparr>burstTimer := t\<rparr>
      in (op', s\<lparr>ftpBurstTimers := insert t (if clear then ftpBurstTimers s - {burstTimer op} else ftpBurstTimers s),
                 ftpNextBurstTimer := t + 1, ftpActive := Some op'\<rparr>))"

definition runBurst :: "vehicle_identity option \<Rightarrow> int \<Rightarrow> int \<Rightarrow> ftp_service \<Rightarrow> ftp_service" where
  "runBurst vehicle session declaredSize s =
     (let op = \<lparr>burstSession = session, burstSize = declaredSize, burstBuffer = newBytes (nat declaredSize),
                burstReceived = 0, burstHighWater = 0, burstRetries = 0, burstTimer = ftpNextBurstTimer s,
                burstPromise = length (ftpBursts s)\<rparr>;
          (op, s) = armBurst False op (s\<lparr>ftpBursts := ftpBursts s @ [(session, declaredSize)]\<rparr>)
      in sendBurstReadRequest vehicle op 0 s)"

text \<open>The bytes of a packet placed, and the frontier moved over it when there is no gap.\<close>

definition packetWritable :: "mavftp_payload \<Rightarrow> ftp_burst \<Rightarrow> int" where
  "packetWritable m op =
     (if ftpOffset m < burstSize op \<and> 0 < length (ftpData m)
      then min (int (length (ftpData m))) (burstSize op - ftpOffset m) else 0)"

definition placePacket :: "mavftp_payload \<Rightarrow> ftp_burst \<Rightarrow> ftp_burst" where
  "placePacket m op =
     (if ftpOffset m < burstSize op \<and> 0 < length (ftpData m)
      then op\<lparr>burstBuffer := put (nat (ftpOffset m)) (take (nat (packetWritable m op)) (ftpData m)) (burstBuffer op),
              burstHighWater := max (burstHighWater op) (ftpOffset m + packetWritable m op)\<rparr>
      else op)"

definition packetContiguous :: "mavftp_payload \<Rightarrow> ftp_burst \<Rightarrow> bool" where
  "packetContiguous m op \<longleftrightarrow> ftpOffset m \<le> burstReceived op \<and> ftpOffset m < burstSize op"

definition advanceBurst :: "mavftp_payload \<Rightarrow> ftp_burst \<Rightarrow> ftp_burst" where
  "advanceBurst m op =
     (let r = max (burstReceived op) (ftpOffset m + packetWritable m op)
      in if packetContiguous m op
         then if burstReceived op < r then op\<lparr>burstReceived := r, burstRetries := 0\<rparr> else op\<lparr>burstReceived := r\<rparr>
         else op)"

text \<open>
  \<open>highWaterBefore\<close> is read after the packet has been placed, as in the code, so that only the
  contiguous frontier counts as progress.
\<close>

definition burstData :: "vehicle_identity option \<Rightarrow> mavftp_payload \<Rightarrow> ftp_burst \<Rightarrow> ftp_service \<Rightarrow> ftp_service" where
  "burstData vehicle m op s =
     (let op = placePacket m op;
          highWaterBefore = burstHighWater op;
          receivedBefore = burstReceived op;
          op = advanceBurst m op;
          s = s\<lparr>ftpActive := Some op\<rparr>;
          s = (if receivedBefore < burstReceived op
               then s\<lparr>ftpProgress := ftpProgress s @ [(burstPromise op, burstReceived op, burstSize op)]\<rparr> else s);
          (op, s) = (if highWaterBefore < burstHighWater op \<or> receivedBefore < burstReceived op
                     then armBurst True op s else (op, s))
      in if burstSize op \<le> burstReceived op then finishBurst op s
         else if burstComplete m \<noteq> 0 then sendBurstReadRequest vehicle op (burstReceived op) s
         else s)"

definition burstNak :: "vehicle_identity option \<Rightarrow> mavftp_payload \<Rightarrow> ftp_burst \<Rightarrow> ftp_service \<Rightarrow> ftp_service" where
  "burstNak vehicle m op s =
     (let errorCode = byteOr0 0 (ftpData m)
      in if errorCode = MAV_FTP_ERR FTP_EOF then
           if burstHighWater op \<le> burstReceived op then finishBurst op s
           else if burstRetries op < MAX_MAVFTP_BURST_RETRIES then
             (let (op, s) = armBurst True (op\<lparr>burstRetries := burstRetries op + 1\<rparr>) s
              in sendBurstReadRequest vehicle op (burstReceived op) s)
           else failBurst (Ftp_gap (burstReceived op) (burstSize op)) s
         else failBurst (Ftp_request_error errorCode (byteAt 1 (ftpData m))) s)"

definition handleBurstPacket :: "vehicle_identity option \<Rightarrow> mavftp_payload \<Rightarrow> ftp_service \<Rightarrow> ftp_service" where
  "handleBurstPacket vehicle m s =
     (case ftpActive s of
        None \<Rightarrow> s
      | Some op \<Rightarrow>
          if ftpSession m \<noteq> burstSession op then s
          else if ftpOpcode m = MAV_FTP_OPCODE FTP_NAK then burstNak vehicle m op s
          else burstData vehicle m op s)"

definition onBurstTimeout :: "vehicle_identity option \<Rightarrow> ftp_service \<Rightarrow> ftp_service" where
  "onBurstTimeout vehicle s =
     (case ftpActive s of
        None \<Rightarrow> s
      | Some op \<Rightarrow>
          if burstRetries op < MAX_MAVFTP_BURST_RETRIES then
            (let (op, s) = armBurst False (op\<lparr>burstRetries := burstRetries op + 1\<rparr>) s
             in sendBurstReadRequest vehicle op (burstReceived op) s)
          else failBurst Ftp_no_burst_data s)"

definition burstTimerFires :: "vehicle_identity option \<Rightarrow> nat \<Rightarrow> ftp_service \<Rightarrow> ftp_service" where
  "burstTimerFires vehicle t s = onBurstTimeout vehicle (s\<lparr>ftpBurstTimers := ftpBurstTimers s - {t}\<rparr>)"

subsection \<open>Arrivals\<close>

definition handleFileTransferProtocol :: "vehicle_identity option \<Rightarrow> bytes \<Rightarrow> ftp_service \<Rightarrow> ftp_service option" where
  "handleFileTransferProtocol vehicle bs s = do {
     m \<leftarrow> decodeMavftpPayload bs;
     let s = adoptServerSequence (seqNumber m) s;
     Some (if ftpActive s \<noteq> None \<and> reqOpcode m = MAV_FTP_OPCODE BURST_READ_FILE
           then handleBurstPacket vehicle m s else resolveWaiters m s) }"

definition ftpCancelAll :: "ftp_error \<Rightarrow> ftp_service \<Rightarrow> ftp_service" where
  "ftpCancelAll e s =
     (let s = failBurst e s;
          s = fold (\<lambda>w s. settleRequest (waiterPromise w) (Inl e)
                (s\<lparr>ftpRequestTimers := ftpRequestTimers s - {waiterTimer w}\<rparr>)) (ftpWaiters s) s
      in s\<lparr>ftpWaiters := [], ftpStaleCleared := False\<rparr>)"

text \<open>The session refuses the \<open>k\<close>th message.\<close>

definition ftpSendFails :: "nat \<Rightarrow> ftp_error \<Rightarrow> ftp_service \<Rightarrow> ftp_service" where
  "ftpSendFails k e s =
     (case fst (ftpSent s ! k) of From_request p \<Rightarrow> cancelWaiter p e s | From_burst _ \<Rightarrow> failBurst e s)"

subsection \<open>Steps\<close>

datatype ftp_event =
    Ftp_request int int int int bytes
  | Ftp_burst int int
  | Ftp_arrives bytes
  | Ftp_request_timer nat
  | Ftp_burst_timer nat
  | Ftp_refused nat ftp_error
  | Ftp_cancel ftp_error
  | Ftp_abort

text \<open>A burst starts only when none runs: \<open>downloadRemoteFileBurst\<close> tests it and holds the session.\<close>

inductive ftp_step :: "ftp_service \<Rightarrow> ftp_event \<Rightarrow> ftp_service \<Rightarrow> bool" where
  request: "ftp_step s (Ftp_request session opcode n off d) (ftpSend v session opcode n off d s)"
| burst: "ftpActive s = None \<Longrightarrow> 0 < n \<Longrightarrow> ftp_step s (Ftp_burst session n) (runBurst v session n s)"
| arrives: "handleFileTransferProtocol v bs s = Some s' \<Longrightarrow> ftp_step s (Ftp_arrives bs) s'"
| request_timer: "t \<in> ftpRequestTimers s \<Longrightarrow> ftp_step s (Ftp_request_timer t) (requestTimerFires t s)"
| burst_timer: "t \<in> ftpBurstTimers s \<Longrightarrow> ftp_step s (Ftp_burst_timer t) (burstTimerFires v t s)"
| refused: "k < length (ftpSent s) \<Longrightarrow> ftp_step s (Ftp_refused k e) (ftpSendFails k e s)"
| cancel: "ftp_step s (Ftp_cancel e) (ftpCancelAll e s)"
| abort: "ftp_step s Ftp_abort (failBurst Ftp_aborted s)"

inductive ftp_run :: "ftp_service \<Rightarrow> ftp_event list \<Rightarrow> ftp_service \<Rightarrow> bool" where
  none: "ftp_run s [] s"
| more: "ftp_run s es t \<Longrightarrow> ftp_step t e u \<Longrightarrow> ftp_run s (es @ [e]) u"

inductive_cases ftp_stepE: "ftp_step s e s'"
inductive_simps ftp_run_Nil: "ftp_run s [] s'"

end
