(* ===== verification/Mavftp_Burst.thy ===== *)
theory Mavftp_Burst
  imports Mavftp_Service
begin

unbundle bit_operations_syntax

text \<open>
  The burst download: what it returns, for a vehicle that sends the file, and how often its timer
  can be armed, for any vehicle.
\<close>

subsection \<open>The invariant\<close>

text \<open>\<open>claim\<close> is what a finished burst returns, \<open>part\<close> what a failed one hands back.\<close>

type_synonym burst_claim = "int \<Rightarrow> int \<Rightarrow> bytes \<Rightarrow> bool"

definition burst_outcome_ok :: "burst_claim \<Rightarrow> burst_claim \<Rightarrow> int \<times> int \<Rightarrow> burst_outcome \<Rightarrow> bool" where
  "burst_outcome_ok claim part call r \<longleftrightarrow>
     (case r of
        Burst_bytes bs \<Rightarrow> claim (fst call) (snd call) bs
      | Burst_failed e None \<Rightarrow> True
      | Burst_failed e (Some q) \<Rightarrow> partialDeclared q = snd call \<and> part (fst call) (snd call) (partialBytes q))"

definition burst_op_ok :: "(ftp_burst \<Rightarrow> bool) \<Rightarrow> int \<times> int \<Rightarrow> ftp_burst \<Rightarrow> bool" where
  "burst_op_ok good call op \<longleftrightarrow>
     call = (burstSession op, burstSize op) \<and> burstRetries op \<le> MAX_MAVFTP_BURST_RETRIES
     \<and> 0 \<le> burstReceived op \<and> burstReceived op < burstSize op \<and> good op"

definition burst_inv :: "(ftp_burst \<Rightarrow> bool) \<Rightarrow> burst_claim \<Rightarrow> burst_claim \<Rightarrow> ftp_service \<Rightarrow> bool" where
  "burst_inv good claim part s \<longleftrightarrow>
     ftpBurstTimers s = set_option (map_option burstTimer (ftpActive s))
     \<and> (\<forall>op. ftpActive s = Some op \<longrightarrow> burstPromise op < length (ftpBursts s) \<and> burstTimer op < ftpNextBurstTimer s
          \<and> burst_op_ok good (ftpBursts s ! burstPromise op) op)
     \<and> (\<forall>p. p < length (ftpBursts s) \<and> ftpResults s p = None \<longleftrightarrow> map_option burstPromise (ftpActive s) = Some p)
     \<and> (\<forall>p r. ftpResults s p = Some r \<longrightarrow> p < length (ftpBursts s) \<and> burst_outcome_ok claim part (ftpBursts s ! p) r)"

lemma burst_inv_active:
  assumes "burst_inv good claim part s" "ftpActive s = Some op"
  shows "burstPromise op < length (ftpBursts s)" "ftpResults s (burstPromise op) = None"
    "burstTimer op < ftpNextBurstTimer s" "burst_op_ok good (ftpBursts s ! burstPromise op) op"
    "ftpBurstTimers s = {burstTimer op}"
  using assms by (auto simp: burst_inv_def)

lemma burst_inv_timers:
  "burst_inv good claim part s \<Longrightarrow> ftpBurstTimers s = set_option (map_option burstTimer (ftpActive s))"
  by (simp add: burst_inv_def)

lemma burst_inv_settled:
  "burst_inv good claim part s \<Longrightarrow> ftpResults s p = Some r \<Longrightarrow>
   p < length (ftpBursts s) \<and> burst_outcome_ok claim part (ftpBursts s ! p) r"
  by (simp add: burst_inv_def)

lemma burst_inv_open_promise:
  "burst_inv good claim part s \<Longrightarrow>
   p < length (ftpBursts s) \<and> ftpResults s p = None \<longleftrightarrow> map_option burstPromise (ftpActive s) = Some p"
  by (simp add: burst_inv_def)

text \<open>What the burst's part of a state is; steps that leave it alone keep the invariant.\<close>

definition burst_part :: "ftp_service \<Rightarrow> ftp_burst option \<times> nat set \<times> nat \<times> (int \<times> int) list \<times> (nat \<rightharpoonup> burst_outcome)" where
  "burst_part s = (ftpActive s, ftpBurstTimers s, ftpNextBurstTimer s, ftpBursts s, ftpResults s)"

lemma burst_inv_same: "burst_part s' = burst_part s \<Longrightarrow> burst_inv good claim part s' = burst_inv good claim part s"
  by (simp add: burst_inv_def burst_part_def)

lemma burst_inv_goes_on:
  assumes "burst_inv good claim part s" "ftpActive s = Some op"
    and "ftpActive s' = Some op'" "burstPromise op' = burstPromise op" "ftpBurstTimers s' = {burstTimer op'}"
    and "burstTimer op' < ftpNextBurstTimer s'" "ftpBursts s' = ftpBursts s" "ftpResults s' = ftpResults s"
    and "burst_op_ok good (ftpBursts s ! burstPromise op) op'"
  shows "burst_inv good claim part s'"
  using assms by (simp add: burst_inv_def)

lemma burst_inv_ends:
  assumes "burst_inv good claim part s" "ftpActive s = Some op"
    and "ftpActive s' = None" "ftpBurstTimers s' = {}" "ftpBursts s' = ftpBursts s"
    and "ftpResults s' = (ftpResults s)(burstPromise op \<mapsto> r)"
    and "burst_outcome_ok claim part (ftpBursts s ! burstPromise op) r"
  shows "burst_inv good claim part s'"
proof -
  have "ftpResults s p \<noteq> None" if "p < length (ftpBursts s)" "p \<noteq> burstPromise op" for p
    using burst_inv_open_promise [OF assms(1), of p] assms(2) that by auto
  then show ?thesis using assms by (simp add: burst_inv_def)
qed

lemma burst_inv_starts:
  assumes "burst_inv good claim part s" "ftpActive s = None"
    and "ftpActive s' = Some op" "ftpBurstTimers s' = {burstTimer op}" "burstTimer op < ftpNextBurstTimer s'"
    and "ftpBursts s' = ftpBursts s @ [c]" "ftpResults s' = ftpResults s" "burstPromise op = length (ftpBursts s)"
    and "burst_op_ok good c op"
  shows "burst_inv good claim part s'"
proof -
  have "ftpResults s (length (ftpBursts s)) = None"
    using assms(1) by (cases "ftpResults s (length (ftpBursts s))") (auto simp: burst_inv_def)
  then show ?thesis using assms by (auto simp: burst_inv_def nth_append less_Suc_eq)
qed

subsection \<open>The parts of a step\<close>

lemma burst_part_nextSequence [simp]: "burst_part (snd (nextSequence s)) = burst_part s"
  by (simp add: nextSequence_def burst_part_def)

lemma burst_part_adopt [simp]: "burst_part (adoptServerSequence q s) = burst_part s"
  by (simp add: adoptServerSequence_def burst_part_def Let_def)

lemma settleRequest_part [simp]: "burst_part (settleRequest p r s) = burst_part s"
  by (simp add: settleRequest_def burst_part_def)

lemma ftpSend_part [simp]: "burst_part (ftpSend v session opcode n off d s) = burst_part s"
  by (simp add: ftpSend_def Let_def nextSequence_def burst_part_def settleRequest_def split: option.split)

lemma resolveWaiters_part [simp]: "burst_part (resolveWaiters m s) = burst_part s"
proof -
  have "burst_part (fold (\<lambda>w s. settleRequest (waiterPromise w) (Inr m)
      (s\<lparr>ftpRequestTimers := ftpRequestTimers s - {waiterTimer w}, ftpWaiters := remove1 w (ftpWaiters s)\<rparr>)) ws s)
    = burst_part s" for ws
    by (induction ws arbitrary: s) (simp_all add: burst_part_def settleRequest_def)
  then show ?thesis by (simp add: resolveWaiters_def)
qed

lemma requestTimerFires_part [simp]: "burst_part (requestTimerFires t s) = burst_part s"
  by (simp add: requestTimerFires_def burst_part_def settleRequest_def split: option.split)

lemma cancelWaiter_part [simp]: "burst_part (cancelWaiter p e s) = burst_part s"
  by (simp add: cancelWaiter_def burst_part_def settleRequest_def split: option.split)

lemma ftpCancelAll_part [simp]: "burst_part (ftpCancelAll e s) = burst_part (failBurst e s)"
proof -
  have "burst_part (fold (\<lambda>w s. settleRequest (waiterPromise w) (Inl e)
      (s\<lparr>ftpRequestTimers := ftpRequestTimers s - {waiterTimer w}\<rparr>)) ws s) = burst_part s" for ws s
    by (induction ws arbitrary: s) (simp_all add: burst_part_def settleRequest_def)
  then show ?thesis by (simp add: ftpCancelAll_def Let_def burst_part_def)
qed

lemma sendBurst_part:
  "v \<noteq> None \<Longrightarrow> burst_part (sendBurstReadRequest v op off s) = burst_part s"
  by (auto simp: sendBurstReadRequest_def nextSequence_def burst_part_def)

subsection \<open>Every step keeps the invariant\<close>

lemma placePacket_fields [simp]:
  "burstSession (placePacket m op) = burstSession op" "burstSize (placePacket m op) = burstSize op"
  "burstReceived (placePacket m op) = burstReceived op" "burstRetries (placePacket m op) = burstRetries op"
  "burstTimer (placePacket m op) = burstTimer op" "burstPromise (placePacket m op) = burstPromise op"
  by (simp_all add: placePacket_def)

lemma advanceBurst_fields [simp]:
  "burstSession (advanceBurst m op) = burstSession op" "burstSize (advanceBurst m op) = burstSize op"
  "burstBuffer (advanceBurst m op) = burstBuffer op" "burstHighWater (advanceBurst m op) = burstHighWater op"
  "burstTimer (advanceBurst m op) = burstTimer op" "burstPromise (advanceBurst m op) = burstPromise op"
  by (simp_all add: advanceBurst_def Let_def)

lemma packetWritable_place [simp]: "packetWritable m (placePacket m op) = packetWritable m op"
  by (simp add: packetWritable_def)

lemma advance_received:
  "burstReceived (advanceBurst m op) =
     (if packetContiguous m op then max (burstReceived op) (ftpOffset m + packetWritable m op) else burstReceived op)"
  by (simp add: advanceBurst_def Let_def)

lemma advance_retries:
  "burstRetries (advanceBurst m op) = (if burstReceived op < burstReceived (advanceBurst m op) then 0 else burstRetries op)"
  by (auto simp: advanceBurst_def Let_def)

text \<open>What is assumed of the packets of a run that answer a burst.\<close>

definition packets_ok :: "(mavftp_payload \<Rightarrow> bool) \<Rightarrow> ftp_event list \<Rightarrow> bool" where
  "packets_ok ok es \<longleftrightarrow> (\<forall>bs m. Ftp_arrives bs \<in> set es \<longrightarrow> decodeMavftpPayload bs = Some m
     \<longrightarrow> reqOpcode m = MAV_FTP_OPCODE BURST_READ_FILE \<longrightarrow> ok m)"

lemma decode_offset: "decodeMavftpPayload bs = Some m \<Longrightarrow> 0 \<le> ftpOffset m"
  using le_val_range by (auto simp: decodeMavftpPayload_def getUint32_def Let_def bind_eq_Some_conv)

locale burst_contract =
  fixes ok :: "mavftp_payload \<Rightarrow> bool" and good :: "ftp_burst \<Rightarrow> bool"
    and claim :: burst_claim and part :: burst_claim
  assumes fresh: "0 < n \<Longrightarrow>
      good \<lparr>burstSession = session, burstSize = n, burstBuffer = newBytes (nat n), burstReceived = 0,
        burstHighWater = 0, burstRetries = 0, burstTimer = t, burstPromise = p\<rparr>"
    and retimed: "good op \<Longrightarrow> good (op\<lparr>burstTimer := t\<rparr>)"
    and retried: "good op \<Longrightarrow> good (op\<lparr>burstRetries := r, burstTimer := t\<rparr>)"
    and stored: "good op \<Longrightarrow> ok m \<Longrightarrow> 0 \<le> ftpOffset m \<Longrightarrow> ftpSession m = burstSession op \<Longrightarrow>
      ftpOpcode m \<noteq> MAV_FTP_OPCODE FTP_NAK \<Longrightarrow> good (advanceBurst m (placePacket m op))"
    and complete: "good op \<Longrightarrow> burstSize op \<le> burstReceived op \<Longrightarrow>
      claim (burstSession op) (burstSize op) (burstBuffer op)"
    and ended: "good op \<Longrightarrow> ok m \<Longrightarrow> ftpSession m = burstSession op \<Longrightarrow> ftpOpcode m = MAV_FTP_OPCODE FTP_NAK \<Longrightarrow>
      byteOr0 0 (ftpData m) = MAV_FTP_ERR FTP_EOF \<Longrightarrow> burstReceived op < burstSize op \<Longrightarrow>
      claim (burstSession op) (burstSize op) (take (nat (burstReceived op)) (burstBuffer op))"
    and salvaged: "good op \<Longrightarrow> 0 < burstReceived op \<Longrightarrow>
      part (burstSession op) (burstSize op) (take (nat (burstReceived op)) (burstBuffer op))"
begin

lemma failBurst_ends:
  assumes "burst_inv good claim part s" "ftpActive s = Some op"
    and "ftpActive t = Some op'" "burstPromise op' = burstPromise op" "ftpBurstTimers t \<subseteq> {burstTimer op'}"
    and "ftpBursts t = ftpBursts s" "ftpResults t = ftpResults s"
    and "good op'" "burstSession op' = burstSession op" "burstSize op' = burstSize op"
  shows "burst_inv good claim part (failBurst e t)"
proof (rule burst_inv_ends [OF assms(1,2)])
  note act = burst_inv_active [OF assms(1,2)]
  show "burst_outcome_ok claim part (ftpBursts s ! burstPromise op) (Burst_failed e (burstPartial op'))"
    using act(4) salvaged [OF assms(8)] assms(9,10)
    by (simp add: burst_outcome_ok_def burst_op_ok_def burstPartial_def slice_def)
qed (use assms burst_inv_active [OF assms(1,2)] in
    \<open>auto simp: failBurst_def settleBurst_def closeBurst_def\<close>)

lemma failBurst_inv:
  assumes "burst_inv good claim part s"
  shows "burst_inv good claim part (failBurst e s)"
proof (cases "ftpActive s")
  case (Some op)
  show ?thesis
    using burst_inv_active [OF assms Some]
    by (intro failBurst_ends [OF assms Some Some]) (simp_all add: burst_op_ok_def)
qed (use assms in \<open>simp add: failBurst_def\<close>)

lemma sendBurst_inv:
  assumes "burst_inv good claim part s"
  shows "burst_inv good claim part (sendBurstReadRequest v op off s)"
proof (cases v)
  case None
  then show ?thesis using failBurst_inv [OF assms] by (simp add: sendBurstReadRequest_def)
next
  case (Some w)
  then show ?thesis using assms burst_inv_same [OF sendBurst_part [of v op off s]] by simp
qed

lemma finishBurst_ends:
  assumes "burst_inv good claim part s" "ftpActive s = Some op"
    and "ftpActive t = Some op'" "burstPromise op' = burstPromise op" "ftpBurstTimers t \<subseteq> {burstTimer op'}"
    and "ftpBursts t = ftpBursts s" "ftpResults t = ftpResults s"
    and "burst_outcome_ok claim part (ftpBursts s ! burstPromise op)
      (Burst_bytes (if burstSize op' \<le> burstReceived op' then burstBuffer op' else slice 0 (nat (burstReceived op')) (burstBuffer op')))"
  shows "burst_inv good claim part (finishBurst op' t)"
  by (rule burst_inv_ends [OF assms(1,2) _ _ _ _ assms(8)])
    (use assms burst_inv_active [OF assms(1,2)] in \<open>auto simp: finishBurst_def settleBurst_def closeBurst_def\<close>)

lemma runBurst_inv:
  assumes "burst_inv good claim part s" "ftpActive s = None" "0 < n"
  shows "burst_inv good claim part (runBurst v session n s)"
proof -
  let ?op = "\<lparr>burstSession = session, burstSize = n, burstBuffer = newBytes (nat n), burstReceived = 0,
      burstHighWater = 0, burstRetries = 0, burstTimer = ftpNextBurstTimer s, burstPromise = length (ftpBursts s)\<rparr>"
  let ?s = "snd (armBurst False ?op (s\<lparr>ftpBursts := ftpBursts s @ [(session, n)]\<rparr>))"
  have e: "runBurst v session n s = sendBurstReadRequest v ?op 0 ?s"
    by (simp add: runBurst_def armBurst_def Let_def)
  have "good ?op" using assms(3) by (rule fresh)
  then have "burst_inv good claim part ?s"
    using burst_inv_timers [OF assms(1)] assms(2,3)
    by (intro burst_inv_starts [OF assms(1,2), where op = ?op and c = "(session, n)"])
      (simp_all add: armBurst_def Let_def burst_op_ok_def)
  then show ?thesis unfolding e by (rule sendBurst_inv)
qed

lemma burstData_inv:
  assumes "burst_inv good claim part s" "ftpActive s = Some op" "ok m" "0 \<le> ftpOffset m"
    and "ftpSession m = burstSession op" "ftpOpcode m \<noteq> MAV_FTP_OPCODE FTP_NAK"
  shows "burst_inv good claim part (burstData v m op s)"
proof -
  note act = burst_inv_active [OF assms(1,2)]
  let ?op = "advanceBurst m (placePacket m op)"
  let ?progress = "burstReceived op < burstReceived ?op"
  have g: "good ?op" using stored [OF _ assms(3,4,5,6)] act(4) by (simp add: burst_op_ok_def)
  have r: "0 \<le> burstReceived ?op" "burstRetries ?op \<le> MAX_MAVFTP_BURST_RETRIES"
    using act(4) by (auto simp: burst_op_ok_def advance_received advance_retries)
  obtain op' t where e: "burstData v m op s =
      (if burstSize op \<le> burstReceived op' then finishBurst op' t
       else if burstComplete m \<noteq> 0 then sendBurstReadRequest v op' (burstReceived op') t else t)"
    and t: "ftpActive t = Some op'" "ftpBurstTimers t = {burstTimer op'}" "burstTimer op' < ftpNextBurstTimer t"
      "ftpBursts t = ftpBursts s" "ftpResults t = ftpResults s"
    and op': "good op'" "burstPromise op' = burstPromise op" "burstReceived op' = burstReceived ?op"
      "burstSize op' = burstSize op" "burstSession op' = burstSession op" "burstRetries op' = burstRetries ?op"
  proof
    let ?s = "s\<lparr>ftpActive := Some ?op\<rparr>"
    let ?u = "if ?progress then ?s\<lparr>ftpProgress := ftpProgress s @ [(burstPromise op, burstReceived ?op, burstSize op)]\<rparr> else ?s"
    let ?p = "if ?progress then armBurst True ?op ?u else (?op, ?u)"
    show "burstData v m op s =
      (if burstSize op \<le> burstReceived (fst ?p) then finishBurst (fst ?p) (snd ?p)
       else if burstComplete m \<noteq> 0 then sendBurstReadRequest v (fst ?p) (burstReceived (fst ?p)) (snd ?p) else snd ?p)"
      by (simp add: burstData_def Let_def armBurst_def)
    show "good (fst ?p)" using g by (simp add: armBurst_def Let_def retimed)
  qed (use act in \<open>simp_all add: armBurst_def Let_def\<close>)
  show ?thesis
  proof (cases "burstSize op \<le> burstReceived op'")
    case True
    then have "claim (burstSession op) (burstSize op) (burstBuffer op')" using complete [OF op'(1)] op' by simp
    then have "burst_inv good claim part (finishBurst op' t)"
      using True act(4) op' t by (intro finishBurst_ends [OF assms(1,2)]) (simp_all add: burst_outcome_ok_def burst_op_ok_def)
    then show ?thesis using e True by simp
  next
    case False
    have "burst_inv good claim part t"
      using act(4) op' t r False by (intro burst_inv_goes_on [OF assms(1,2), where op' = op']) (simp_all add: burst_op_ok_def)
    then show ?thesis using e False sendBurst_inv by simp
  qed
qed

lemma burst_retry_inv:
  assumes "burst_inv good claim part s" "ftpActive s = Some op" "burstRetries op < MAX_MAVFTP_BURST_RETRIES"
    and "ftpActive u = Some op" "ftpBurstTimers u \<subseteq> {burstTimer op}" "ftpBursts u = ftpBursts s" "ftpResults u = ftpResults s"
    and "clear \<or> ftpBurstTimers u = {}"
  shows "burst_inv good claim part (snd (armBurst clear (op\<lparr>burstRetries := burstRetries op + 1\<rparr>) u))"
proof (rule burst_inv_goes_on [OF assms(1,2),
      where op' = "op\<lparr>burstRetries := burstRetries op + 1, burstTimer := ftpNextBurstTimer u\<rparr>"])
  note act = burst_inv_active [OF assms(1,2)]
  show "burst_op_ok good (ftpBursts s ! burstPromise op) (op\<lparr>burstRetries := burstRetries op + 1, burstTimer := ftpNextBurstTimer u\<rparr>)"
    using act(4) assms(3) by (simp add: burst_op_ok_def retried)
qed (use assms in \<open>auto simp: armBurst_def Let_def\<close>)

lemma burstNak_inv:
  assumes "burst_inv good claim part s" "ftpActive s = Some op" "ok m"
    and "ftpSession m = burstSession op" "ftpOpcode m = MAV_FTP_OPCODE FTP_NAK"
  shows "burst_inv good claim part (burstNak v m op s)"
proof -
  note act = burst_inv_active [OF assms(1,2)]
  have "burst_inv good claim part (finishBurst op s)" if "byteOr0 0 (ftpData m) = MAV_FTP_ERR FTP_EOF"
    using act ended [OF _ assms(3,4,5) that, unfolded assms(4)]
    by (intro finishBurst_ends [OF assms(1,2)]) (simp_all add: assms burst_outcome_ok_def burst_op_ok_def slice_def)
  moreover have "burst_inv good claim part (let (op, s) = armBurst True (op\<lparr>burstRetries := burstRetries op + 1\<rparr>) s
      in sendBurstReadRequest v op (burstReceived op) s)" if "burstRetries op < MAX_MAVFTP_BURST_RETRIES"
    using sendBurst_inv [OF burst_retry_inv [OF assms(1,2) that assms(2), of True]] act by (simp add: case_prod_beta Let_def)
  ultimately show ?thesis using failBurst_inv [OF assms(1)] by (simp add: burstNak_def Let_def)
qed

lemma burstTimerFires_inv:
  assumes "burst_inv good claim part s" "t \<in> ftpBurstTimers s"
  shows "burst_inv good claim part (burstTimerFires v t s)"
proof -
  obtain op where op: "ftpActive s = Some op" "t = burstTimer op"
    using assms(2) unfolding burst_inv_timers [OF assms(1)] by auto
  note act = burst_inv_active [OF assms(1) op(1)]
  let ?u = "s\<lparr>ftpBurstTimers := {}\<rparr>"
  have u: "s\<lparr>ftpBurstTimers := ftpBurstTimers s - {t}\<rparr> = ?u" using act op by simp
  show ?thesis
  proof (cases "burstRetries op < MAX_MAVFTP_BURST_RETRIES")
    case True
    then show ?thesis
      using sendBurst_inv [OF burst_retry_inv [OF assms(1) op(1) True, of ?u False]] op act(5)
      by (simp add: burstTimerFires_def u onBurstTimeout_def case_prod_beta Let_def)
  next
    case False
    have "burst_inv good claim part (failBurst Ftp_no_burst_data ?u)"
      using act op by (intro failBurst_ends [OF assms(1) op(1)]) (simp_all add: burst_op_ok_def)
    then show ?thesis using False op act(5) by (simp add: burstTimerFires_def u onBurstTimeout_def)
  qed
qed

lemma handleBurstPacket_inv:
  assumes "burst_inv good claim part s" "ok m" "0 \<le> ftpOffset m"
  shows "burst_inv good claim part (handleBurstPacket v m s)"
proof (cases "ftpActive s")
  case (Some op)
  then show ?thesis
    using assms burstNak_inv [OF assms(1) Some assms(2)] burstData_inv [OF assms(1) Some assms(2,3)]
    by (simp add: handleBurstPacket_def)
qed (use assms in \<open>simp add: handleBurstPacket_def\<close>)

lemma arrives_inv:
  assumes "handleFileTransferProtocol v bs s = Some s'" "burst_inv good claim part s"
    and "\<And>m. decodeMavftpPayload bs = Some m \<Longrightarrow> reqOpcode m = MAV_FTP_OPCODE BURST_READ_FILE \<Longrightarrow> ok m"
  shows "burst_inv good claim part s'"
proof -
  obtain m where m: "decodeMavftpPayload bs = Some m"
    using assms(1) by (auto simp: handleFileTransferProtocol_def split: bind_splits)
  let ?s = "adoptServerSequence (seqNumber m) s"
  have s: "burst_inv good claim part ?s" using assms(2) burst_inv_same [OF burst_part_adopt] by simp
  have e: "s' = (if ftpActive ?s \<noteq> None \<and> reqOpcode m = MAV_FTP_OPCODE BURST_READ_FILE
      then handleBurstPacket v m ?s else resolveWaiters m ?s)"
    using assms(1) m by (simp add: handleFileTransferProtocol_def Let_def)
  show ?thesis
    using s handleBurstPacket_inv [OF s] assms(3) [OF m] decode_offset [OF m] burst_inv_same [OF resolveWaiters_part [of m ?s]]
    by (simp add: e)
qed

lemma ftp_step_inv:
  assumes "ftp_step s e s'" "burst_inv good claim part s" "packets_ok ok [e]"
  shows "burst_inv good claim part s'"
  using assms(1)
proof cases
  case (arrives v bs)
  then show ?thesis using arrives_inv [OF arrives(2) assms(2)] assms(3) by (simp add: packets_ok_def)
next
  case (refused k e)
  then show ?thesis using assms(2) failBurst_inv burst_inv_same [OF cancelWaiter_part]
    by (simp add: ftpSendFails_def split: ftp_sender.split)
next
  case (cancel e)
  then show ?thesis using failBurst_inv [OF assms(2)] burst_inv_same [OF ftpCancelAll_part] by simp
next
  case (burst n session v)
  then show ?thesis using runBurst_inv [OF assms(2)] by simp
qed (use assms(2) failBurst_inv burstTimerFires_inv burst_inv_same [OF ftpSend_part]
      burst_inv_same [OF requestTimerFires_part] in simp_all)

lemma ftp_run_inv: "ftp_run s es s' \<Longrightarrow> burst_inv good claim part s \<Longrightarrow> packets_ok ok es \<Longrightarrow> burst_inv good claim part s'"
proof (induction rule: ftp_run.induct)
  case (more s es t e u)
  then show ?case by (intro ftp_step_inv [OF more.hyps(2)]) (auto simp: packets_ok_def)
qed

end

end
