(* ===== verification/Mavftp_Transfer.thy ===== *)
theory Mavftp_Transfer
  imports Mavftp_Burst
begin

unbundle bit_operations_syntax

text \<open>
  The burst against a vehicle that sends the file of the session, the bound on the times its timer
  is armed, and the sequence numbers.
\<close>

subsection \<open>A vehicle that sends the file\<close>

definition packet_of :: "(int \<Rightarrow> bytes) \<Rightarrow> mavftp_payload \<Rightarrow> bool" where
  "packet_of files m \<longleftrightarrow>
     (ftpOpcode m \<noteq> MAV_FTP_OPCODE FTP_NAK \<longrightarrow>
        nat (ftpOffset m) + length (ftpData m) \<le> length (files (ftpSession m))
        \<and> ftpData m = take (length (ftpData m)) (drop (nat (ftpOffset m)) (files (ftpSession m))))"

definition no_eof :: "mavftp_payload \<Rightarrow> bool" where
  "no_eof m \<longleftrightarrow> \<not> (ftpOpcode m = MAV_FTP_OPCODE FTP_NAK \<and> byteOr0 0 (ftpData m) = MAV_FTP_ERR FTP_EOF)"

definition prefix_of_file :: "(int \<Rightarrow> bytes) \<Rightarrow> burst_claim" where
  "prefix_of_file files session n bs \<longleftrightarrow>
     (\<exists>k. k \<le> nat n \<and> k \<le> length (files session) \<and> bs = take k (files session))"

definition whole_file :: "(int \<Rightarrow> bytes) \<Rightarrow> burst_claim" where
  "whole_file files session n bs \<longleftrightarrow> nat n \<le> length (files session) \<and> bs = take (nat n) (files session)"

definition burst_holds :: "(int \<Rightarrow> bytes) \<Rightarrow> ftp_burst \<Rightarrow> bool" where
  "burst_holds files op \<longleftrightarrow>
     0 \<le> burstReceived op
     \<and> arrived (files (burstSession op)) (nat (burstSize op)) (burstBuffer op) (nat (burstReceived op))"

lemma packet_stored:
  assumes "burst_holds files op" "packet_of files m" "0 \<le> ftpOffset m" "ftpSession m = burstSession op"
    and "ftpOpcode m \<noteq> MAV_FTP_OPCODE FTP_NAK"
  shows "burst_holds files (advanceBurst m (placePacket m op))"
proof -
  let ?c = "files (burstSession op)" and ?o = "nat (ftpOffset m)" and ?w = "nat (packetWritable m op)"
  let ?n = "nat (burstSize op)"
  have h: "0 \<le> burstReceived op" "arrived ?c ?n (burstBuffer op) (nat (burstReceived op))"
    using assms(1) by (simp_all add: burst_holds_def)
  have d: "?o + length (ftpData m) \<le> length ?c" "ftpData m = take (length (ftpData m)) (drop ?o ?c)"
    using assms(2,4,5) by (simp_all add: packet_of_def)
  show ?thesis
  proof (cases "ftpOffset m < burstSize op \<and> 0 < length (ftpData m)")
    case True
    then have w: "packetWritable m op = min (int (length (ftpData m))) (burstSize op - ftpOffset m)"
      by (simp add: packetWritable_def)
    have f: "?o + ?w \<le> ?n" "?o + ?w \<le> length ?c" "0 \<le> packetWritable m op"
      using True d(1) assms(3) unfolding w by auto
    have "?w \<le> length (ftpData m)" unfolding w by simp
    then have t: "take ?w (ftpData m) = take ?w (drop ?o ?c)"
      by (subst d(2)) (simp add: min_def)
    have "arrived ?c ?n (put ?o (take ?w (ftpData m)) (burstBuffer op)) (nat (burstReceived op))"
      unfolding t by (rule arrived_write(1) [OF h(2) f(1)]) (use f(2) in simp)
    moreover have "arrived ?c ?n (put ?o (take ?w (ftpData m)) (burstBuffer op)) (max (nat (burstReceived op)) (?o + ?w))"
      if "?o \<le> nat (burstReceived op)"
      unfolding t by (rule arrived_write(2) [OF h(2) f(1)]) (use f(2) that in simp_all)
    moreover have "nat (max (burstReceived op) (ftpOffset m + packetWritable m op)) = max (nat (burstReceived op)) (?o + ?w)"
      using h(1) f(3) assms(3) by (simp add: max_def nat_add_distrib)
    moreover have "burstBuffer (placePacket m op) = put ?o (take ?w (ftpData m)) (burstBuffer op)"
      using True by (simp add: placePacket_def)
    ultimately show ?thesis
      using h(1) by (auto simp: burst_holds_def advance_received packetContiguous_def nat_mono)
  next
    case False
    then have "packetWritable m op = 0" "placePacket m op = op"
      by (auto simp: packetWritable_def placePacket_def)
    then show ?thesis
      using assms(1) by (auto simp: burst_holds_def advance_received packetContiguous_def max_def)
  qed
qed

lemma burst_holds_prefix:
  assumes "burst_holds files op"
  shows "take (nat (burstReceived op)) (burstBuffer op) = take (nat (burstReceived op)) (files (burstSession op))"
    and "nat (burstReceived op) \<le> nat (burstSize op)" "nat (burstReceived op) \<le> length (files (burstSession op))"
  using assms arrived_prefix [of "files (burstSession op)"] by (auto simp: burst_holds_def arrived_def)

lemma burst_holds_all:
  assumes "burst_holds files op" "burstSize op \<le> burstReceived op"
  shows "whole_file files (burstSession op) (burstSize op) (burstBuffer op)"
proof -
  have n: "nat (burstSize op) \<le> nat (burstReceived op)" using assms(2) by (rule nat_mono)
  have f: "arrived (files (burstSession op)) (nat (burstSize op)) (burstBuffer op) (nat (burstReceived op))"
    using assms(1) by (simp add: burst_holds_def)
  from arrived_all [OF f] n show ?thesis
    using f by (simp add: whole_file_def arrived_def file_image_exact)
qed

lemma whole_is_prefix: "whole_file files session n bs \<Longrightarrow> prefix_of_file files session n bs"
  by (auto simp: whole_file_def prefix_of_file_def)

lemma burst_holds_fresh:
  "0 < n \<Longrightarrow> burst_holds files \<lparr>burstSession = session, burstSize = n, burstBuffer = newBytes (nat n),
     burstReceived = 0, burstHighWater = 0, burstRetries = 0, burstTimer = t, burstPromise = p\<rparr>"
  by (simp add: burst_holds_def arrived_fresh)

lemma burst_holds_part:
  "burst_holds files op \<Longrightarrow>
   prefix_of_file files (burstSession op) (burstSize op) (take (nat (burstReceived op)) (burstBuffer op))"
  using burst_holds_prefix [of files op] by (auto simp: prefix_of_file_def)

interpretation burst_file: burst_contract "packet_of files" "burst_holds files" "prefix_of_file files" "prefix_of_file files"
  for files
  by unfold_locales
    (simp_all add: burst_holds_fresh packet_stored burst_holds_all whole_is_prefix burst_holds_part, simp_all add: burst_holds_def)

interpretation burst_whole: burst_contract "\<lambda>m. packet_of files m \<and> no_eof m" "burst_holds files" "whole_file files"
  "prefix_of_file files" for files
  by unfold_locales
    (simp_all add: burst_holds_fresh packet_stored burst_holds_all burst_holds_part no_eof_def, simp_all add: burst_holds_def)

interpretation burst_any: burst_contract "\<lambda>_. True" "\<lambda>_. True" "\<lambda>_ _ _. True" "\<lambda>_ _ _. True"
  by unfold_locales simp_all

subsection \<open>How often the timer is armed\<close>

definition burstFuel :: "ftp_service \<Rightarrow> nat" where
  "burstFuel s =
     (case ftpActive s of
        None \<Rightarrow> 0
      | Some op \<Rightarrow> 8 * nat (burstSize op - burstReceived op) + (7 - burstRetries op))"

definition any_inv :: "ftp_service \<Rightarrow> bool" where
  "any_inv s \<longleftrightarrow> burst_inv (\<lambda>_. True) (\<lambda>_ _ _. True) (\<lambda>_ _ _. True) s"

definition arms_paid :: "ftp_service \<Rightarrow> ftp_service \<Rightarrow> bool" where
  "arms_paid s s' \<longleftrightarrow> ftpNextBurstTimer s' + burstFuel s' \<le> ftpNextBurstTimer s + burstFuel s"

lemma arms_paid_same: "burst_part s' = burst_part s \<Longrightarrow> arms_paid s s'"
  by (simp add: arms_paid_def burstFuel_def burst_part_def)

lemma arms_paid_trans: "arms_paid s t \<Longrightarrow> arms_paid t u \<Longrightarrow> arms_paid s u"
  by (simp add: arms_paid_def)

lemma failBurst_paid: "arms_paid s (failBurst e s)"
  by (simp add: arms_paid_def burstFuel_def failBurst_def settleBurst_def closeBurst_def split: option.split)

lemma finishBurst_paid: "arms_paid s (finishBurst op s)"
  by (simp add: arms_paid_def burstFuel_def finishBurst_def settleBurst_def closeBurst_def)

lemma sendBurst_paid: "arms_paid s (sendBurstReadRequest v op off s)"
proof (cases v)
  case (Some w)
  show ?thesis by (rule arms_paid_same, rule sendBurst_part) (simp add: Some)
qed (simp add: sendBurstReadRequest_def failBurst_paid)

lemma arm_paid:
  assumes "8 * nat (burstSize op - burstReceived op) + (7 - burstRetries op) < burstFuel s"
    and "ftpNextBurstTimer u = ftpNextBurstTimer s"
  shows "arms_paid s (snd (armBurst clear op u))"
  using assms by (simp add: arms_paid_def armBurst_def Let_def burstFuel_def)

lemma retry_paid:
  assumes "ftpActive s = Some op" "burstRetries op < MAX_MAVFTP_BURST_RETRIES" "ftpNextBurstTimer u = ftpNextBurstTimer s"
  shows "arms_paid s (let (op, u) = armBurst clear (op\<lparr>burstRetries := burstRetries op + 1\<rparr>) u
     in sendBurstReadRequest v op (burstReceived op) u)"
proof -
  have "arms_paid s (snd (armBurst clear (op\<lparr>burstRetries := burstRetries op + 1\<rparr>) u))"
    by (rule arm_paid) (use assms in \<open>simp_all add: burstFuel_def MAX_MAVFTP_BURST_RETRIES_def\<close>)
  from arms_paid_trans [OF this sendBurst_paid] show ?thesis by (simp add: case_prod_beta Let_def)
qed

lemma burstData_paid:
  assumes "ftpActive s = Some op" "burstRetries op \<le> MAX_MAVFTP_BURST_RETRIES" "burstReceived op < burstSize op"
  shows "arms_paid s (burstData v m op s)"
proof -
  let ?op = "advanceBurst m (placePacket m op)"
  let ?s = "s\<lparr>ftpActive := Some ?op\<rparr>"
  let ?progress = "burstReceived op < burstReceived ?op"
  let ?u = "if ?progress then ?s\<lparr>ftpProgress := ftpProgress s @ [(burstPromise op, burstReceived ?op, burstSize op)]\<rparr> else ?s"
  let ?p = "if ?progress then armBurst True ?op ?u else (?op, ?u)"
  have e: "burstData v m op s =
      (if burstSize op \<le> burstReceived (fst ?p) then finishBurst (fst ?p) (snd ?p)
       else if burstComplete m \<noteq> 0 then sendBurstReadRequest v (fst ?p) (burstReceived (fst ?p)) (snd ?p) else snd ?p)"
    by (simp add: burstData_def Let_def armBurst_def)
  have "arms_paid s (snd ?p)"
  proof (cases ?progress)
    case True
    have "nat (burstSize op - burstReceived ?op) < nat (burstSize op - burstReceived op)"
      using True assms(3) by simp
    then have "arms_paid s (snd (armBurst True ?op ?u))"
      using True assms by (intro arm_paid) (simp_all add: burstFuel_def MAX_MAVFTP_BURST_RETRIES_def)
    then show ?thesis using True by simp
  next
    case False
    then have "burstReceived ?op = burstReceived op" "burstRetries ?op = burstRetries op"
      by (auto simp: advance_received advance_retries split: if_splits)
    then show ?thesis using assms(1) by (simp add: arms_paid_def burstFuel_def)
  qed
  then show ?thesis
    unfolding e using arms_paid_trans [OF _ finishBurst_paid] arms_paid_trans [OF _ sendBurst_paid] by simp
qed

lemma handleBurstPacket_paid:
  assumes "any_inv s"
  shows "arms_paid s (handleBurstPacket v m s)"
proof (cases "ftpActive s")
  case None
  then show ?thesis by (simp add: handleBurstPacket_def arms_paid_def)
next
  case (Some op)
  have b: "burstRetries op \<le> MAX_MAVFTP_BURST_RETRIES" "burstReceived op < burstSize op"
    using burst_inv_active(4) [OF _ Some] assms by (auto simp: any_inv_def burst_op_ok_def)
  have "arms_paid s (burstNak v m op s)"
    using retry_paid [OF Some, of s True v] failBurst_paid finishBurst_paid by (simp add: burstNak_def Let_def)
  then show ?thesis using Some burstData_paid [OF Some b] by (simp add: handleBurstPacket_def arms_paid_def)
qed

lemma ftp_step_paid:
  assumes "ftp_step s e s'" "any_inv s" "\<forall>session n. e \<noteq> Ftp_burst session n"
  shows "arms_paid s s'"
  using assms(1)
proof cases
  case (arrives v bs)
  obtain m where m: "decodeMavftpPayload bs = Some m"
    using arrives(2) by (auto simp: handleFileTransferProtocol_def split: bind_splits)
  let ?s = "adoptServerSequence (seqNumber m) s"
  have "any_inv ?s" using assms(2) burst_inv_same [OF burst_part_adopt] by (simp add: any_inv_def)
  then have "arms_paid ?s s'"
    using arrives(2) m handleBurstPacket_paid arms_paid_same [OF resolveWaiters_part]
    by (auto simp: handleFileTransferProtocol_def Let_def split: if_splits)
  then show ?thesis using arms_paid_trans [OF arms_paid_same [OF burst_part_adopt]] by blast
next
  case (burst_timer t v)
  show ?thesis
  proof (cases "ftpActive s")
    case (Some op)
    let ?u = "s\<lparr>ftpBurstTimers := ftpBurstTimers s - {t}\<rparr>"
    have "arms_paid s (failBurst e ?u)" for e
      using failBurst_paid [of ?u e] by (simp add: arms_paid_def burstFuel_def)
    then show ?thesis
      using burst_timer(2) Some retry_paid [OF Some, of ?u False v]
      by (simp add: burstTimerFires_def onBurstTimeout_def)
  qed (simp add: burst_timer(2) burstTimerFires_def onBurstTimeout_def arms_paid_def burstFuel_def)
next
  case (refused k e)
  then show ?thesis using failBurst_paid arms_paid_same [OF cancelWaiter_part]
    by (simp add: ftpSendFails_def split: ftp_sender.split)
next
  case (cancel e)
  then show ?thesis using failBurst_paid [of s e] ftpCancelAll_part [of e s]
    by (simp add: arms_paid_def burstFuel_def burst_part_def)
qed (use assms(3) failBurst_paid arms_paid_same [OF ftpSend_part] arms_paid_same [OF requestTimerFires_part] in auto)

lemma any_inv_step: "ftp_step s e s' \<Longrightarrow> any_inv s \<Longrightarrow> any_inv s'"
  unfolding any_inv_def by (erule burst_any.ftp_step_inv) (simp_all add: packets_ok_def)

definition no_new_burst :: "ftp_event list \<Rightarrow> bool" where
  "no_new_burst es \<longleftrightarrow> (\<forall>session n. Ftp_burst session n \<notin> set es)"

lemma ftp_run_paid:
  "ftp_run s es s' \<Longrightarrow> any_inv s \<Longrightarrow> no_new_burst es \<Longrightarrow> arms_paid s s' \<and> any_inv s'"
proof (induction rule: ftp_run.induct)
  case (more s es t e u)
  then have "arms_paid s t" "any_inv t" by (simp_all add: no_new_burst_def)
  moreover have "arms_paid t u"
    using more.prems(2) by (intro ftp_step_paid [OF more.hyps(2) \<open>any_inv t\<close>]) (auto simp: no_new_burst_def)
  ultimately show ?case using any_inv_step [OF more.hyps(2)] arms_paid_trans by blast
qed (simp add: arms_paid_def)

lemma runBurst_fuel:
  assumes "0 < n"
  shows "ftpNextBurstTimer (runBurst v session n s) + burstFuel (runBurst v session n s) \<le> ftpNextBurstTimer s + 8 * nat n + 8"
proof -
  let ?op = "\<lparr>burstSession = session, burstSize = n, burstBuffer = newBytes (nat n), burstReceived = 0,
      burstHighWater = 0, burstRetries = 0, burstTimer = ftpNextBurstTimer s, burstPromise = length (ftpBursts s)\<rparr>"
  let ?s = "snd (armBurst False ?op (s\<lparr>ftpBursts := ftpBursts s @ [(session, n)]\<rparr>))"
  have "runBurst v session n s = sendBurstReadRequest v ?op 0 ?s" by (simp add: runBurst_def armBurst_def Let_def)
  moreover have "ftpNextBurstTimer ?s + burstFuel ?s = ftpNextBurstTimer s + 8 * nat n + 8"
    by (simp add: armBurst_def Let_def burstFuel_def)
  ultimately show ?thesis using sendBurst_paid [of ?s v ?op 0] by (simp add: arms_paid_def)
qed

subsection \<open>Sequence numbers\<close>

text \<open>After any packet of the vehicle, the next request does not repeat the one it answered.\<close>

lemma and_ffff: "v AND 0xFFFF = v mod 65536" for v :: int
  using take_bit_eq_mask [of 16 v] by (simp add: mask_eq_exp_minus_1 take_bit_eq_mod)

lemma adopt_not_replayed:
  assumes "0 \<le> ftpSequence s" "ftpSequence s < 65536"
  shows "(ftpSequence (adoptServerSequence q s) + 1) AND 0xFFFF \<noteq> q AND 0xFFFF"
    and "0 \<le> ftpSequence (adoptServerSequence q s)" "ftpSequence (adoptServerSequence q s) < 65536"
proof -
  have m: "(r + 1) mod 65536 \<noteq> r mod 65536" for r :: int
    using mod_eq_dvd_iff [of "r + 1" 65536 r] by simp
  have "(ftpSequence s + 1) mod 65536 \<noteq> q mod 65536" if "32768 \<le> (q mod 65536 - ftpSequence s) mod 65536"
  proof
    assume "(ftpSequence s + 1) mod 65536 = q mod 65536"
    then have "(q mod 65536 - ftpSequence s) mod 65536 = (ftpSequence s + 1 - ftpSequence s) mod 65536"
      by (metis mod_diff_left_eq)
    then show False using that by simp
  qed
  with m [of "q mod 65536"] show "(ftpSequence (adoptServerSequence q s) + 1) AND 0xFFFF \<noteq> q AND 0xFFFF"
    by (simp add: adoptServerSequence_def and_ffff Let_def not_less)
  show "0 \<le> ftpSequence (adoptServerSequence q s)" "ftpSequence (adoptServerSequence q s) < 65536"
    using assms by (simp_all add: adoptServerSequence_def and_ffff Let_def)
qed

subsection \<open>Two behaviours the comments do not describe\<close>

text \<open>
  A file of three bytes whose packets after the first are lost: the end-of-file that closes the
  burst makes the first byte the whole download, although three were announced.
\<close>

definition dataPacket :: "int \<Rightarrow> bytes \<Rightarrow> mavftp_payload" where
  "dataPacket off bs = \<lparr>seqNumber = 1, ftpSession = 0, ftpOpcode = 128, ftpSize = int (length bs), reqOpcode = 15,
     burstComplete = 0, ftpOffset = off, ftpData = bs\<rparr>"

definition eofPacket :: mavftp_payload where
  "eofPacket = \<lparr>seqNumber = 2, ftpSession = 0, ftpOpcode = 129, ftpSize = 1, reqOpcode = 15,
     burstComplete = 0, ftpOffset = 0, ftpData = [6]\<rparr>"

lemma burstData_progress:
  assumes "burstReceived op < burstReceived (advanceBurst m (placePacket m op))"
    and "burstReceived (advanceBurst m (placePacket m op)) < burstSize op" "burstComplete m = 0"
  shows "ftpActive (burstData v m op s) = Some (advanceBurst m (placePacket m op)\<lparr>burstTimer := ftpNextBurstTimer s\<rparr>)"
    and "ftpResults (burstData v m op s) = ftpResults s"
  using assms by (simp_all add: burstData_def Let_def armBurst_def)

lemma eof_finishes:
  assumes "ftpActive t = Some op" "burstSession op = 0" "burstHighWater op \<le> burstReceived op"
    and "burstReceived op < burstSize op" "ftpResults t (burstPromise op) = None"
  shows "ftpResults (handleBurstPacket v eofPacket t) (burstPromise op)
    = Some (Burst_bytes (take (nat (burstReceived op)) (burstBuffer op)))"
  using assms
  by (simp add: handleBurstPacket_def eofPacket_def burstNak_def byteOr0_def finishBurst_def settleBurst_def
      closeBurst_def slice_def)

lemma burst_lost_tail_succeeds:
  "ftpResults (handleBurstPacket (Some v) eofPacket
     (handleBurstPacket (Some v) (dataPacket 0 [7]) (runBurst (Some v) 0 3 newFtpService))) 0 = Some (Burst_bytes [7])"
  "packet_of (\<lambda>_. [7, 8, 9]) (dataPacket 0 [7])" "packet_of (\<lambda>_. [7, 8, 9]) eofPacket"
proof -
  let ?op = "\<lparr>burstSession = 0, burstSize = 3, burstBuffer = [0, 0, 0], burstReceived = 0,
      burstHighWater = 0, burstRetries = 0, burstTimer = 0, burstPromise = 0\<rparr>"
  let ?op1 = "\<lparr>burstSession = 0, burstSize = 3, burstBuffer = [7, 0, 0], burstReceived = 1,
      burstHighWater = 1, burstRetries = 0, burstTimer = 0, burstPromise = 0\<rparr>"
  let ?s = "runBurst (Some v) 0 3 newFtpService"
  let ?t = "handleBurstPacket (Some v) (dataPacket 0 [7]) ?s"
  have s: "ftpActive ?s = Some ?op" "ftpResults ?s = Map.empty"
    by (simp_all add: runBurst_def armBurst_def newFtpService_def sendBurstReadRequest_def nextSequence_def
        newBytes_def numeral_3_eq_3 Let_def)
  have w: "packetWritable (dataPacket 0 [7]) ?op = 1" by (simp add: packetWritable_def dataPacket_def)
  have p: "placePacket (dataPacket 0 [7]) ?op = ?op1\<lparr>burstReceived := 0\<rparr>"
    by (simp add: placePacket_def w) (simp add: dataPacket_def put_def)
  have a: "advanceBurst (dataPacket 0 [7]) (placePacket (dataPacket 0 [7]) ?op) = ?op1"
    unfolding p by (simp add: advanceBurst_def packetContiguous_def packetWritable_def dataPacket_def Let_def)
  have "?t = burstData (Some v) (dataPacket 0 [7]) ?op ?s"
    by (simp add: handleBurstPacket_def s) (simp add: dataPacket_def)
  then have t: "ftpActive ?t = Some (?op1\<lparr>burstTimer := ftpNextBurstTimer ?s\<rparr>)" "ftpResults ?t = Map.empty"
    using burstData_progress [of ?op "dataPacket 0 [7]" "Some v" ?s] unfolding a
    by (simp_all add: s) (simp_all add: dataPacket_def)
  show "ftpResults (handleBurstPacket (Some v) eofPacket ?t) 0 = Some (Burst_bytes [7])"
    using eof_finishes [OF t(1), of "Some v"] t(2) by simp
qed (simp_all add: packet_of_def dataPacket_def eofPacket_def)

text \<open>
  A packet beyond a gap moves \<open>highWater\<close> and nothing else: the timer is not armed again, because
  \<open>highWaterBefore\<close> is read after the packet has moved it.
\<close>

lemma gap_packet_not_progress:
  assumes "burstReceived op < ftpOffset m"
  shows "ftpNextBurstTimer (burstData v m op s) = ftpNextBurstTimer s"
proof -
  have "advanceBurst m (placePacket m op) = placePacket m op"
    using assms by (simp add: advanceBurst_def packetContiguous_def Let_def)
  then show ?thesis
    by (auto simp: burstData_def Let_def finishBurst_def settleBurst_def closeBurst_def sendBurstReadRequest_def
        nextSequence_def failBurst_def split: option.split)
qed

end
