(* ===== verification/Mavftp_Requests.thy ===== *)
theory Mavftp_Requests
  imports Mavftp_Transfer
begin

unbundle bit_operations_syntax

text \<open>
  The requests of \<open>runtime-mavftp-service.ts\<close>: each has a timer until it is settled, and a reply
  that settles it carries the sequence number after its own.
\<close>

definition expectedSeq :: "int \<Rightarrow> int" where
  "expectedSeq seq = (seq + 1) AND 0xFFFF"

definition reply_matches :: "int \<Rightarrow> ftp_error + mavftp_payload \<Rightarrow> bool" where
  "reply_matches seq r \<longleftrightarrow> (\<forall>m. r = Inr m \<longrightarrow> seqNumber m = expectedSeq seq)"

definition wait_inv :: "ftp_service \<Rightarrow> bool" where
  "wait_inv s \<longleftrightarrow>
     distinct (map waiterPromise (ftpWaiters s)) \<and> distinct (map waiterTimer (ftpWaiters s))
     \<and> ftpRequestTimers s = waiterTimer ` set (ftpWaiters s)
     \<and> (\<forall>w\<in>set (ftpWaiters s). waiterTimer w < ftpNextRequestTimer s
          \<and> waiterSeq w = expectedSeq (ftpRequests s ! waiterPromise w))
     \<and> (\<forall>p. p < length (ftpRequests s) \<and> ftpReplies s p = None \<longleftrightarrow> p \<in> waiterPromise ` set (ftpWaiters s))
     \<and> (\<forall>p r. ftpReplies s p = Some r \<longrightarrow> p < length (ftpRequests s) \<and> reply_matches (ftpRequests s ! p) r)"

definition replies_kept :: "ftp_service \<Rightarrow> ftp_service \<Rightarrow> bool" where
  "replies_kept s s' \<longleftrightarrow> (\<forall>p r. ftpReplies s p = Some r \<longrightarrow> ftpReplies s' p = Some r)"

lemma replies_kept_refl [simp]: "replies_kept s s"
  by (simp add: replies_kept_def)

lemma replies_kept_trans: "replies_kept s t \<Longrightarrow> replies_kept t u \<Longrightarrow> replies_kept s u"
  by (simp add: replies_kept_def)

text \<open>The requests' part of a state.\<close>

definition wait_part :: "ftp_service \<Rightarrow> ftp_waiter list \<times> nat set \<times> nat \<times> int list \<times> (nat \<rightharpoonup> ftp_error + mavftp_payload)" where
  "wait_part s = (ftpWaiters s, ftpRequestTimers s, ftpNextRequestTimer s, ftpRequests s, ftpReplies s)"

lemma wait_same:
  "wait_part s' = wait_part s \<Longrightarrow> wait_inv s' = wait_inv s"
  "wait_part s' = wait_part s \<Longrightarrow> replies_kept s s'"
  by (simp_all add: wait_inv_def wait_part_def replies_kept_def)

subsection \<open>A waiter leaves\<close>

definition dropWaiter :: "(ftp_error + mavftp_payload) \<Rightarrow> ftp_waiter \<Rightarrow> ftp_service \<Rightarrow> ftp_service" where
  "dropWaiter r w s = settleRequest (waiterPromise w) r
     (s\<lparr>ftpRequestTimers := ftpRequestTimers s - {waiterTimer w}, ftpWaiters := remove1 w (ftpWaiters s)\<rparr>)"

lemma dropWaiter_inv:
  assumes "wait_inv s" "w \<in> set (ftpWaiters s)" "\<forall>m. r = Inr m \<longrightarrow> seqNumber m = waiterSeq w"
  shows "wait_inv (dropWaiter r w s) \<and> replies_kept s (dropWaiter r w s)"
proof -
  have d: "distinct (map waiterPromise (ftpWaiters s))" "distinct (map waiterTimer (ftpWaiters s))"
    using assms(1) by (simp_all add: wait_inv_def)
  then have D: "distinct (ftpWaiters s)" by (simp add: distinct_map)
  have inj: "inj_on waiterPromise (set (ftpWaiters s))" "inj_on waiterTimer (set (ftpWaiters s))"
    using d by (simp_all add: distinct_map)
  have p: "waiterPromise w < length (ftpRequests s)" "ftpReplies s (waiterPromise w) = None"
    using assms(1,2) unfolding wait_inv_def by blast+
  have e: "ftpWaiters (dropWaiter r w s) = remove1 w (ftpWaiters s)"
    "ftpRequestTimers (dropWaiter r w s) = ftpRequestTimers s - {waiterTimer w}"
    "ftpNextRequestTimer (dropWaiter r w s) = ftpNextRequestTimer s" "ftpRequests (dropWaiter r w s) = ftpRequests s"
    "ftpReplies (dropWaiter r w s) = (ftpReplies s)(waiterPromise w \<mapsto> r)"
    using p by (simp_all add: dropWaiter_def settleRequest_def)
  have set: "set (remove1 w (ftpWaiters s)) = set (ftpWaiters s) - {w}" using D by simp
  have "wait_inv (dropWaiter r w s)"
    unfolding wait_inv_def e set
  proof (intro conjI)
    show "distinct (map waiterPromise (remove1 w (ftpWaiters s)))" "distinct (map waiterTimer (remove1 w (ftpWaiters s)))"
      using D inj by (simp_all add: distinct_map inj_on_diff)
    show "ftpRequestTimers s - {waiterTimer w} = waiterTimer ` (set (ftpWaiters s) - {w})"
      using assms(1,2) inj(2) by (simp add: wait_inv_def inj_on_image_set_diff [of _ "set (ftpWaiters s)"])
    show "\<forall>v\<in>set (ftpWaiters s) - {w}. waiterTimer v < ftpNextRequestTimer s
        \<and> waiterSeq v = expectedSeq (ftpRequests s ! waiterPromise v)"
      using assms(1) by (simp add: wait_inv_def)
    have "waiterPromise ` (set (ftpWaiters s) - {w}) = waiterPromise ` set (ftpWaiters s) - {waiterPromise w}"
      using assms(2) inj(1) by (simp add: inj_on_image_set_diff [of _ "set (ftpWaiters s)"])
    then show "\<forall>p. p < length (ftpRequests s) \<and> ((ftpReplies s)(waiterPromise w \<mapsto> r)) p = None
        \<longleftrightarrow> p \<in> waiterPromise ` (set (ftpWaiters s) - {w})"
      using assms(1) by (auto simp: wait_inv_def)
    have "waiterSeq w = expectedSeq (ftpRequests s ! waiterPromise w)" using assms(1,2) by (simp add: wait_inv_def)
    then show "\<forall>p r'. ((ftpReplies s)(waiterPromise w \<mapsto> r)) p = Some r'
        \<longrightarrow> p < length (ftpRequests s) \<and> reply_matches (ftpRequests s ! p) r'"
      using assms(1,3) p(1) by (simp add: wait_inv_def reply_matches_def)
  qed
  then show ?thesis using p by (simp add: replies_kept_def e)
qed

lemma dropWaiters_inv:
  assumes "wait_inv s" "distinct ws" "set ws \<subseteq> set (ftpWaiters s)"
    and "\<forall>w\<in>set ws. \<forall>m. r = Inr m \<longrightarrow> seqNumber m = waiterSeq w"
  shows "wait_inv (fold (dropWaiter r) ws s) \<and> replies_kept s (fold (dropWaiter r) ws s)"
  using assms
proof (induction ws arbitrary: s)
  case (Cons w ws)
  have d: "wait_inv (dropWaiter r w s)" "replies_kept s (dropWaiter r w s)"
    using dropWaiter_inv [of s w r] Cons.prems by simp_all
  have "distinct (ftpWaiters s)" using Cons.prems(1) by (simp add: wait_inv_def distinct_map)
  then have "set ws \<subseteq> set (ftpWaiters (dropWaiter r w s))"
    using Cons.prems(2,3) by (auto simp: dropWaiter_def settleRequest_def)
  then show ?case using Cons.IH [OF d(1)] Cons.prems(2,4) replies_kept_trans [OF d(2)] by simp
qed simp

lemma wait_distinct: "wait_inv s \<Longrightarrow> distinct (ftpWaiters s)"
  by (simp add: wait_inv_def distinct_map)

subsection \<open>Every step\<close>

lemma resolveWaiters_drops:
  "resolveWaiters m s = fold (dropWaiter (Inr m)) (filter (\<lambda>w. waiterSeq w = seqNumber m) (ftpWaiters s)) s"
  by (simp add: resolveWaiters_def dropWaiter_def [abs_def])

lemma resolveWaiters_inv:
  "wait_inv s \<Longrightarrow> wait_inv (resolveWaiters m s) \<and> replies_kept s (resolveWaiters m s)"
  unfolding resolveWaiters_drops by (rule dropWaiters_inv) (auto dest: wait_distinct)

lemma requestTimerFires_inv:
  assumes "wait_inv s" "t \<in> ftpRequestTimers s"
  shows "wait_inv (requestTimerFires t s) \<and> replies_kept s (requestTimerFires t s)"
proof -
  obtain w where w: "find (\<lambda>w. waiterTimer w = t) (ftpWaiters s) = Some w"
    using assms by (cases "find (\<lambda>w. waiterTimer w = t) (ftpWaiters s)") (auto simp: wait_inv_def find_None_iff)
  then have "w \<in> set (ftpWaiters s)" "waiterTimer w = t" by (auto simp: find_Some_iff)
  then show ?thesis using dropWaiter_inv [OF assms(1), of w "Inl Ftp_timeout"] w
    by (simp add: requestTimerFires_def dropWaiter_def)
qed

lemma cancelWaiter_inv:
  assumes "wait_inv s"
  shows "wait_inv (cancelWaiter p e s) \<and> replies_kept s (cancelWaiter p e s)"
proof (cases "find (\<lambda>w. waiterPromise w = p) (ftpWaiters s)")
  case (Some w)
  then have "w \<in> set (ftpWaiters s)" "waiterPromise w = p" by (auto simp: find_Some_iff)
  then show ?thesis using dropWaiter_inv [OF assms, of w "Inl e"] Some
    by (simp add: cancelWaiter_def dropWaiter_def)
qed (use assms in \<open>simp add: cancelWaiter_def\<close>)

lemma fold_clears:
  "(fold (\<lambda>w s. settleRequest (waiterPromise w) r (s\<lparr>ftpRequestTimers := ftpRequestTimers s - {waiterTimer w}\<rparr>)) ws s)
      \<lparr>ftpWaiters := []\<rparr>
   = fold (dropWaiter r) ws (s\<lparr>ftpWaiters := ws\<rparr>)"
proof (induction ws arbitrary: s)
  case (Cons w ws)
  have "dropWaiter r w (s\<lparr>ftpWaiters := w # ws\<rparr>)
      = (settleRequest (waiterPromise w) r (s\<lparr>ftpRequestTimers := ftpRequestTimers s - {waiterTimer w}\<rparr>))\<lparr>ftpWaiters := ws\<rparr>"
    by (simp add: dropWaiter_def settleRequest_def)
  then show ?case using Cons.IH by simp
qed simp

lemma failBurst_wait [simp]: "wait_part (failBurst e s) = wait_part s"
  by (simp add: failBurst_def settleBurst_def closeBurst_def wait_part_def split: option.split)

lemma finishBurst_wait [simp]: "wait_part (finishBurst op s) = wait_part s"
  by (simp add: finishBurst_def settleBurst_def closeBurst_def wait_part_def)

lemma armBurst_wait [simp]: "wait_part (snd (armBurst clear op s)) = wait_part s"
  by (simp add: armBurst_def Let_def wait_part_def)

lemma sendBurst_wait [simp]: "wait_part (sendBurstReadRequest v op off s) = wait_part s"
proof (cases v)
  case (Some w)
  then show ?thesis by (simp add: sendBurstReadRequest_def nextSequence_def wait_part_def)
qed (simp add: sendBurstReadRequest_def)

lemma ftpCancelAll_inv:
  assumes "wait_inv s"
  shows "wait_inv (ftpCancelAll e s) \<and> replies_kept s (ftpCancelAll e s)"
proof -
  let ?s = "failBurst e s"
  have w: "wait_inv ?s" "replies_kept s ?s" using assms wait_same [of ?s s] by simp_all
  let ?t = "fold (dropWaiter (Inl e)) (ftpWaiters ?s) ?s"
  have t: "wait_inv ?t \<and> replies_kept ?s ?t"
    by (rule dropWaiters_inv) (use w wait_distinct in auto)
  have "ftpCancelAll e s = ?t\<lparr>ftpStaleCleared := False\<rparr>"
    using fold_clears [of "Inl e" "ftpWaiters ?s" ?s] by (simp add: ftpCancelAll_def Let_def)
  then have "wait_part (ftpCancelAll e s) = wait_part ?t" by (simp add: wait_part_def)
  then show ?thesis using t w wait_same [of "ftpCancelAll e s" ?t] replies_kept_trans by blast
qed

lemma ftpSend_inv:
  assumes "wait_inv s"
  shows "wait_inv (ftpSend v session opcode n off d s) \<and> replies_kept s (ftpSend v session opcode n off d s)"
proof -
  have n: "ftpReplies s (length (ftpRequests s)) = None"
    using assms by (cases "ftpReplies s (length (ftpRequests s))") (auto simp: wait_inv_def)
  have w: "\<forall>w\<in>set (ftpWaiters s). waiterPromise w < length (ftpRequests s)"
    using assms unfolding wait_inv_def by blast
  have lt: "\<forall>w\<in>set (ftpWaiters s). waiterTimer w < ftpNextRequestTimer s" using assms by (simp add: wait_inv_def)
  show ?thesis
  proof (cases v)
    case None
    let ?s = "ftpSend v session opcode n off d s"
    have e: "ftpWaiters ?s = ftpWaiters s" "ftpRequestTimers ?s = ftpRequestTimers s"
      "ftpNextRequestTimer ?s = ftpNextRequestTimer s" "ftpRequests ?s = ftpRequests s @ [ftpSequence s]"
      "ftpReplies ?s = (ftpReplies s)(length (ftpRequests s) \<mapsto> Inl Ftp_no_vehicle)"
      using n None by (simp_all add: ftpSend_def settleRequest_def)
    have "wait_inv ?s"
      using assms w unfolding wait_inv_def e
      by (auto simp: nth_append less_Suc_eq reply_matches_def)
    then show ?thesis using n by (simp add: replies_kept_def e)
  next
    case (Some u)
    let ?s = "ftpSend v session opcode n off d s"
    let ?w = "\<lparr>waiterSeq = expectedSeq (ftpSequence s), waiterTimer = ftpNextRequestTimer s, waiterPromise = length (ftpRequests s)\<rparr>"
    have e: "ftpWaiters ?s = ftpWaiters s @ [?w]" "ftpRequestTimers ?s = insert (ftpNextRequestTimer s) (ftpRequestTimers s)"
      "ftpNextRequestTimer ?s = ftpNextRequestTimer s + 1" "ftpRequests ?s = ftpRequests s @ [ftpSequence s]"
      "ftpReplies ?s = ftpReplies s"
      using Some by (simp_all add: ftpSend_def nextSequence_def expectedSeq_def Let_def)
    have "wait_inv ?s"
      unfolding wait_inv_def e
    proof (intro conjI)
      show "distinct (map waiterPromise (ftpWaiters s @ [?w]))" "distinct (map waiterTimer (ftpWaiters s @ [?w]))"
        using assms w lt by (auto simp: wait_inv_def)
      show "insert (ftpNextRequestTimer s) (ftpRequestTimers s) = waiterTimer ` set (ftpWaiters s @ [?w])"
        using assms by (simp add: wait_inv_def)
      show "\<forall>v\<in>set (ftpWaiters s @ [?w]). waiterTimer v < ftpNextRequestTimer s + 1
          \<and> waiterSeq v = expectedSeq ((ftpRequests s @ [ftpSequence s]) ! waiterPromise v)"
        using assms w by (auto simp: wait_inv_def nth_append)
      show "\<forall>p. p < length (ftpRequests s @ [ftpSequence s]) \<and> ftpReplies s p = None
          \<longleftrightarrow> p \<in> waiterPromise ` set (ftpWaiters s @ [?w])"
        using assms n w by (auto simp: wait_inv_def less_Suc_eq)
      show "\<forall>p r. ftpReplies s p = Some r \<longrightarrow>
          p < length (ftpRequests s @ [ftpSequence s]) \<and> reply_matches ((ftpRequests s @ [ftpSequence s]) ! p) r"
        using assms by (auto simp: wait_inv_def nth_append intro: less_SucI)
    qed
    then show ?thesis by (simp add: replies_kept_def e)
  qed
qed

lemma burstData_wait [simp]: "wait_part (burstData v m op s) = wait_part s"
proof -
  have "wait_part (s\<lparr>ftpActive := a\<rparr>) = wait_part s" "wait_part (s\<lparr>ftpActive := a, ftpProgress := b\<rparr>) = wait_part s" for a b
    by (simp_all add: wait_part_def)
  then show ?thesis by (simp add: burstData_def Let_def case_prod_beta)
qed

lemma burstNak_wait [simp]: "wait_part (burstNak v m op s) = wait_part s"
  by (simp add: burstNak_def Let_def case_prod_beta)

lemma handleBurstPacket_wait [simp]: "wait_part (handleBurstPacket v m s) = wait_part s"
  by (simp add: handleBurstPacket_def split: option.split)

lemma burstTimerFires_wait [simp]: "wait_part (burstTimerFires v t s) = wait_part s"
proof -
  have "wait_part (s\<lparr>ftpBurstTimers := a\<rparr>) = wait_part s" for a by (simp add: wait_part_def)
  then show ?thesis by (simp add: burstTimerFires_def onBurstTimeout_def case_prod_beta Let_def split: option.split)
qed

lemma runBurst_wait [simp]: "wait_part (runBurst v session n s) = wait_part s"
  by (simp add: runBurst_def case_prod_beta Let_def) (simp add: wait_part_def)

lemma adopt_wait [simp]: "wait_part (adoptServerSequence q s) = wait_part s"
  by (simp add: adoptServerSequence_def Let_def wait_part_def)

lemma ftp_step_wait:
  assumes "ftp_step s e s'" "wait_inv s"
  shows "wait_inv s' \<and> replies_kept s s'"
  using assms(1)
proof cases
  case (arrives v bs)
  obtain m where m: "decodeMavftpPayload bs = Some m"
    using arrives(2) by (auto simp: handleFileTransferProtocol_def split: bind_splits)
  let ?s = "adoptServerSequence (seqNumber m) s"
  have s: "wait_inv ?s" "replies_kept s ?s" using assms(2) wait_same [of ?s s] by simp_all
  from arrives(2) m have "s' = handleBurstPacket v m ?s \<or> s' = resolveWaiters m ?s"
    by (auto simp: handleFileTransferProtocol_def Let_def split: if_splits)
  then have "wait_inv s' \<and> replies_kept ?s s'"
    using s(1) wait_same [of "handleBurstPacket v m ?s" ?s] resolveWaiters_inv [OF s(1), of m] by auto
  then show ?thesis using replies_kept_trans [OF s(2)] by blast
next
  case (refused k e)
  then show ?thesis using assms(2) cancelWaiter_inv wait_same [of "failBurst e s" s]
    by (simp add: ftpSendFails_def split: ftp_sender.split)
next
  case (burst n session v)
  then show ?thesis using assms(2) wait_same [of "runBurst v session n s" s] by simp
next
  case (burst_timer t v)
  then show ?thesis using assms(2) wait_same [of "burstTimerFires v t s" s] by simp
next
  case abort
  then show ?thesis using assms(2) wait_same [of "failBurst Ftp_aborted s" s] by simp
qed (use assms(2) ftpSend_inv requestTimerFires_inv ftpCancelAll_inv in simp_all)

lemma ftp_run_wait:
  "ftp_run s es s' \<Longrightarrow> wait_inv s \<Longrightarrow> wait_inv s' \<and> replies_kept s s'"
proof (induction rule: ftp_run.induct)
  case (more s es t e u)
  then show ?case using ftp_step_wait [OF more.hyps(2)] replies_kept_trans by blast
qed simp

lemma wait_inv_new: "wait_inv newFtpService"
  by (simp add: wait_inv_def newFtpService_def)

subsection \<open>The sequence number stays in range\<close>

definition seq_ok :: "ftp_service \<Rightarrow> bool" where
  "seq_ok s \<longleftrightarrow> 0 \<le> ftpSequence s \<and> ftpSequence s < 65536"

lemma and_ffff_range [simp]: "0 \<le> v AND 0xFFFF" "v AND 0xFFFF < 65536" for v :: int
  by (simp_all add: and_ffff)

lemma sequence_fields [simp]:
  "ftpSequence (settleRequest p r s) = ftpSequence s" "ftpSequence (settleBurst p b s) = ftpSequence s"
  "ftpSequence (closeBurst op s) = ftpSequence s" "ftpSequence (failBurst e s) = ftpSequence s"
  "ftpSequence (finishBurst op s) = ftpSequence s" "ftpSequence (snd (armBurst clear op s)) = ftpSequence s"
  "ftpSequence (cancelWaiter p e s) = ftpSequence s" "ftpSequence (requestTimerFires t s) = ftpSequence s"
  by (simp_all add: settleRequest_def settleBurst_def closeBurst_def failBurst_def finishBurst_def armBurst_def
      cancelWaiter_def requestTimerFires_def Let_def split: option.split)

lemma fold_sequence:
  "ftpSequence (fold (\<lambda>w s. settleRequest (f w) r (s\<lparr>ftpRequestTimers := ftpRequestTimers s - {waiterTimer w},
     ftpWaiters := remove1 w (ftpWaiters s)\<rparr>)) ws s) = ftpSequence s"
  "ftpSequence (fold (\<lambda>w s. settleRequest (f w) r (s\<lparr>ftpRequestTimers := ftpRequestTimers s - {waiterTimer w}\<rparr>)) ws s)
     = ftpSequence s"
  by (induction ws arbitrary: s) simp_all

lemma sendBurst_seq: "seq_ok s \<Longrightarrow> seq_ok (sendBurstReadRequest v op off s)"
  by (auto simp: sendBurstReadRequest_def nextSequence_def Let_def seq_ok_def split: option.split)

lemma arm_seq: "seq_ok (snd (armBurst clear op s)) = seq_ok s"
  by (simp add: seq_ok_def)

lemma ftpSend_seq: "seq_ok s \<Longrightarrow> seq_ok (ftpSend v session opcode n off d s)"
  by (auto simp: ftpSend_def nextSequence_def Let_def seq_ok_def split: option.split)

lemma burstData_seq:
  assumes "seq_ok s"
  shows "seq_ok (burstData v m op s)"
proof -
  have s: "seq_ok (s\<lparr>ftpActive := a, ftpProgress := b\<rparr>)" "seq_ok (s\<lparr>ftpActive := a\<rparr>)" for a b
    using assms by (simp_all add: seq_ok_def)
  have fin: "seq_ok t \<Longrightarrow> seq_ok (finishBurst op t)" for op t by (simp add: seq_ok_def)
  show ?thesis
    using s by (simp add: burstData_def Let_def case_prod_beta fin sendBurst_seq arm_seq)
qed

lemma burstNak_seq: "seq_ok s \<Longrightarrow> seq_ok (burstNak v m op s)"
  using sendBurst_seq [of "snd (armBurst True (op\<lparr>burstRetries := burstRetries op + 1\<rparr>) s)" v]
  by (simp add: burstNak_def Let_def case_prod_beta arm_seq) (simp add: seq_ok_def)

lemma handleBurstPacket_seq: "seq_ok s \<Longrightarrow> seq_ok (handleBurstPacket v m s)"
  using burstData_seq burstNak_seq by (simp add: handleBurstPacket_def split: option.split)

lemma ftp_step_sequence:
  assumes "ftp_step s e s'" "seq_ok s"
  shows "seq_ok s'"
  using assms(1)
proof cases
  case (arrives v bs)
  obtain m where m: "decodeMavftpPayload bs = Some m"
    using arrives(2) by (auto simp: handleFileTransferProtocol_def split: bind_splits)
  let ?s = "adoptServerSequence (seqNumber m) s"
  have s: "seq_ok ?s" using adopt_not_replayed(2,3) [of s "seqNumber m"] assms(2) by (simp add: seq_ok_def)
  from arrives(2) m have "s' = handleBurstPacket v m ?s \<or> s' = resolveWaiters m ?s"
    by (auto simp: handleFileTransferProtocol_def Let_def split: if_splits)
  then show ?thesis using handleBurstPacket_seq [OF s] s by (auto simp: resolveWaiters_def fold_sequence seq_ok_def)
next
  case (burst n session v)
  have "seq_ok (s\<lparr>ftpBursts := b\<rparr>)" for b using assms(2) by (simp add: seq_ok_def)
  then show ?thesis using burst(2) by (simp add: runBurst_def Let_def case_prod_beta sendBurst_seq arm_seq)
next
  case (burst_timer t v)
  have "seq_ok (s\<lparr>ftpBurstTimers := b\<rparr>)" for b using assms(2) by (simp add: seq_ok_def)
  then show ?thesis using burst_timer(2)
    by (simp add: burstTimerFires_def onBurstTimeout_def case_prod_beta Let_def sendBurst_seq arm_seq split: option.split)
      (simp add: seq_ok_def)
next
  case (refused k e)
  then show ?thesis using assms(2) by (simp add: ftpSendFails_def seq_ok_def split: ftp_sender.split)
next
  case (cancel e)
  then show ?thesis using assms(2) by (simp add: ftpCancelAll_def Let_def fold_sequence seq_ok_def)
qed (use assms(2) ftpSend_seq in \<open>auto simp: seq_ok_def\<close>)

lemma ftp_run_sequence: "ftp_run s es s' \<Longrightarrow> seq_ok s \<Longrightarrow> seq_ok s'"
  by (induction rule: ftp_run.induct) (auto intro: ftp_step_sequence)

lemma seq_ok_new: "seq_ok newFtpService"
  by (simp add: seq_ok_def newFtpService_def)

end
