(* ===== verification/Mavftp_Files.thy ===== *)
theory Mavftp_Files
  imports Mavftp_Service Io_Monad
begin

unbundle bit_operations_syntax

text \<open>
  The file operations of \<open>runtime-mavftp-service.ts\<close>, each a conversation of requests. \<open>server\<close> is what
  a request comes back with after the ones before it: a message or the error \<open>send\<close> throws (no
  vehicle, a timeout, a refused send), by \<open>Mavftp_Requests\<close> always one of them. Paths are given as
  the bytes of the normalised path, \<open>support\<close> as the error \<open>ensureSupport\<close> throws, if any; the queue
  that runs one operation at a time is not part of the model.
\<close>

subsection \<open>Requests\<close>

definition MAVFTP_TRANSFER_CHUNK_SIZE :: nat where
  "MAVFTP_TRANSFER_CHUNK_SIZE = 200"

definition MAX_MAVFTP_FILE_BYTES :: int where
  "MAX_MAVFTP_FILE_BYTES = 16 * 1024 * 1024"

record ftp_ask =
  askSession :: int
  askOpcode :: int
  askSize :: int
  askOffset :: int
  askData :: bytes

type_synonym ftp_turn = "ftp_ask \<times> (ftp_error + mavftp_payload)"

record ftp_files =
  askLog :: "ftp_turn list"
  sessionsCleared :: bool

type_synonym ftp_server = "ftp_turn list \<Rightarrow> ftp_ask \<Rightarrow> ftp_error + mavftp_payload"

datatype files_error =
    Files_request ftp_error
  | Files_read_cap
  | Files_rejected files_error
  | Files_too_big int
  | Files_aborted
  | Files_burst_busy
  | Files_unsupported string

type_synonym 'a ftp_io = "(ftp_files, files_error, 'a) io"

definition sendAsk :: "ftp_server \<Rightarrow> ftp_ask \<Rightarrow> mavftp_payload ftp_io" where
  "sendAsk server a = (\<lambda>h.
     let r = (case server (askLog h) a of Inl e \<Rightarrow> Inl e | Inr m \<Rightarrow> requestAnswer m)
     in Some (map_sum Files_request (\<lambda>m. m) r, h\<lparr>askLog := askLog h @ [(a, r)]\<rparr>))"

definition plainAsk :: "int \<Rightarrow> ftp_opcode_name \<Rightarrow> ftp_ask" where
  "plainAsk session op = \<lparr>askSession = session, askOpcode = MAV_FTP_OPCODE op, askSize = 0, askOffset = 0, askData = []\<rparr>"

definition pathAsk :: "ftp_opcode_name \<Rightarrow> bytes \<Rightarrow> ftp_ask" where
  "pathAsk op path = \<lparr>askSession = 0, askOpcode = MAV_FTP_OPCODE op, askSize = int (length path), askOffset = 0,
     askData = path\<rparr>"

definition nakOf :: "ftp_err_name \<Rightarrow> files_error \<Rightarrow> bool" where
  "nakOf code e = (case e of Files_request (Ftp_request_error c errno) \<Rightarrow> c = MAV_FTP_ERR code | _ \<Rightarrow> False)"

definition ensureSupport :: "string option \<Rightarrow> unit ftp_io" where
  "ensureSupport support = (case support of None \<Rightarrow> return_io () | Some e \<Rightarrow> throw_io (Files_unsupported e))"

definition quietly :: "'a ftp_io \<Rightarrow> unit ftp_io" where
  "quietly m = catch_io (then_io m (return_io ())) (\<lambda>_. return_io ())"

definition resetSessions :: "ftp_server \<Rightarrow> unit ftp_io" where
  "resetSessions server = then_io (sendAsk server (plainAsk 0 RESET_SESSIONS)) (return_io ())"

definition clearStaleSessionsOnce :: "ftp_server \<Rightarrow> unit ftp_io" where
  "clearStaleSessionsOnce server = (\<lambda>h.
     if sessionsCleared h then return_io () h else quietly (resetSessions server) (h\<lparr>sessionsCleared := True\<rparr>))"

definition terminateSession :: "ftp_server \<Rightarrow> int \<Rightarrow> unit ftp_io" where
  "terminateSession server session = quietly (sendAsk server (plainAsk session TERMINATE_SESSION))"

definition openFileForRead :: "ftp_server \<Rightarrow> bytes \<Rightarrow> mavftp_payload ftp_io" where
  "openFileForRead server path =
     catch_io (sendAsk server (pathAsk OPEN_FILE_RO path))
       (\<lambda>e. if \<not> nakOf FTP_FAIL e then throw_io e
            else then_io (quietly (resetSessions server)) (sendAsk server (pathAsk OPEN_FILE_RO path)))"

definition declaredSizeOf :: "mavftp_payload \<Rightarrow> int" where
  "declaredSizeOf m = (case getUint32 0 (ftpData m) of None \<Rightarrow> 0 | Some n \<Rightarrow> n)"

subsection \<open>Reading\<close>

definition readDone :: "int option \<Rightarrow> int \<Rightarrow> int \<Rightarrow> bool" where
  "readDone limit declared off = (case limit of Some b \<Rightarrow> b \<le> off | None \<Rightarrow> 0 < declared \<and> declared \<le> off)"

definition readAsk :: "int option \<Rightarrow> int \<Rightarrow> int \<Rightarrow> int \<Rightarrow> ftp_ask" where
  "readAsk limit declared session off =
     (let remaining = (case limit of Some b \<Rightarrow> Some (b - off) | None \<Rightarrow> if 0 < declared then Some (declared - off) else None);
          chunk = (case remaining of Some r \<Rightarrow> min (int MAVFTP_TRANSFER_CHUNK_SIZE) r | None \<Rightarrow> int MAVFTP_TRANSFER_CHUNK_SIZE)
      in \<lparr>askSession = session, askOpcode = MAV_FTP_OPCODE READ_FILE, askSize = chunk, askOffset = off, askData = []\<rparr>)"

partial_function (option) readLoop ::
  "ftp_server \<Rightarrow> int option \<Rightarrow> int \<Rightarrow> int \<Rightarrow> int \<Rightarrow> bytes list \<Rightarrow> ftp_files \<Rightarrow> ((files_error + bytes list) \<times> ftp_files) option" where
  "readLoop server limit declared session off chunks h =
     (if readDone limit declared off then return_io chunks h
      else if MAX_MAVFTP_FILE_BYTES \<le> off then throw_io Files_read_cap h
      else bind_io (try_io (sendAsk server (readAsk limit declared session off)))
        (\<lambda>r h. case r of
             Inl e \<Rightarrow> if nakOf FTP_EOF e then return_io chunks h else throw_io e h
           | Inr m \<Rightarrow>
               if ftpData m = [] then return_io chunks h
               else readLoop server limit declared session (off + int (length (ftpData m))) (chunks @ [ftpData m]) h) h)"

definition readRemoteFile :: "ftp_server \<Rightarrow> int option \<Rightarrow> bytes \<Rightarrow> bytes ftp_io" where
  "readRemoteFile server limit path =
     then_io (clearStaleSessionsOnce server)
       (bind_io (openFileForRead server path)
         (\<lambda>m. bind_io (try_io (readLoop server limit (declaredSizeOf m) (ftpSession m) 0 []))
           (\<lambda>r. then_io (terminateSession server (ftpSession m))
             (case r of Inl e \<Rightarrow> throw_io e | Inr chunks \<Rightarrow> return_io (concat chunks)))))"

text \<open>A limit that is not finite is \<open>None\<close>.\<close>

definition readRemoteFilePrefix :: "ftp_server \<Rightarrow> int option \<Rightarrow> bytes \<Rightarrow> bytes ftp_io" where
  "readRemoteFilePrefix server limit path =
     (case limit of None \<Rightarrow> return_io [] | Some b \<Rightarrow> if b \<le> 0 then return_io [] else readRemoteFile server (Some b) path)"

definition downloadRemoteFile :: "ftp_server \<Rightarrow> string option \<Rightarrow> bytes \<Rightarrow> bytes ftp_io" where
  "downloadRemoteFile server support path = then_io (ensureSupport support) (readRemoteFile server None path)"

text \<open>The burst itself, \<open>runBurst\<close> of \<open>Mavftp_Service\<close>, is an argument: its promise as an outcome.\<close>

definition downloadRemoteFileBurst ::
  "ftp_server \<Rightarrow> string option \<Rightarrow> bool \<Rightarrow> bool \<Rightarrow> int option \<Rightarrow> (int \<Rightarrow> int \<Rightarrow> bytes ftp_io) \<Rightarrow> bytes \<Rightarrow> bytes ftp_io" where
  "downloadRemoteFileBurst server support aborted busy maxBytes burst path =
     then_io (ensureSupport support)
      (if aborted then throw_io Files_aborted
       else if busy then throw_io Files_burst_busy
       else then_io (clearStaleSessionsOnce server)
         (bind_io (openFileForRead server path)
           (\<lambda>m. let session = ftpSession m; declared = declaredSizeOf m in
              if declared \<le> 0 then then_io (terminateSession server session) (readRemoteFile server None path)
              else if (case maxBytes of None \<Rightarrow> MAX_MAVFTP_FILE_BYTES | Some b \<Rightarrow> b) < declared
              then then_io (terminateSession server session) (throw_io (Files_too_big declared))
              else bind_io (try_io (burst session declared))
                (\<lambda>r. then_io (terminateSession server session) (case r of Inl e \<Rightarrow> throw_io e | Inr bs \<Rightarrow> return_io bs)))))"

subsection \<open>Writing and deleting\<close>

definition deleteRemotePath :: "ftp_server \<Rightarrow> string option \<Rightarrow> bytes \<Rightarrow> bool \<Rightarrow> unit ftp_io" where
  "deleteRemotePath server support path directory =
     then_io (ensureSupport support)
      (then_io (sendAsk server (pathAsk (if directory then REMOVE_DIRECTORY else REMOVE_FILE) path)) (return_io ()))"

definition writeAsk :: "int \<Rightarrow> bytes \<Rightarrow> nat \<Rightarrow> ftp_ask" where
  "writeAsk session bs off =
     (let chunk = slice off (off + MAVFTP_TRANSFER_CHUNK_SIZE) bs
      in \<lparr>askSession = session, askOpcode = MAV_FTP_OPCODE WRITE_FILE, askSize = int (length chunk), askOffset = int off,
          askData = chunk\<rparr>)"

function writeLoop :: "ftp_server \<Rightarrow> int \<Rightarrow> bytes \<Rightarrow> nat \<Rightarrow> unit ftp_io" where
  "writeLoop server session bs off =
     (if off < length bs
      then then_io (sendAsk server (writeAsk session bs off))
        (writeLoop server session bs (off + length (askData (writeAsk session bs off))))
      else return_io ())"
  by pat_completeness auto
termination
  by (relation "measure (\<lambda>(server, session, bs, off). length bs - off)")
    (auto simp: writeAsk_def Let_def slice_def MAVFTP_TRANSFER_CHUNK_SIZE_def)

declare writeLoop.simps [simp del]

definition createFile :: "ftp_server \<Rightarrow> string option \<Rightarrow> bytes \<Rightarrow> bool \<Rightarrow> mavftp_payload ftp_io" where
  "createFile server support path overwrite =
     catch_io (sendAsk server (pathAsk CREATE_FILE path))
       (\<lambda>e. if \<not> (overwrite \<and> nakOf FTP_FILE_EXISTS e) then throw_io e
            else then_io (deleteRemotePath server support path False) (sendAsk server (pathAsk CREATE_FILE path)))"

definition uploadRemoteFile :: "ftp_server \<Rightarrow> string option \<Rightarrow> bytes \<Rightarrow> bytes \<Rightarrow> bool \<Rightarrow> unit ftp_io" where
  "uploadRemoteFile server support path bs overwrite =
     then_io (ensureSupport support)
      (then_io (clearStaleSessionsOnce server)
        (bind_io (createFile server support path overwrite)
          (\<lambda>m. bind_io (try_io (writeLoop server (ftpSession m) bs 0))
            (\<lambda>written. bind_io (try_io (sendAsk server (plainAsk (ftpSession m) TERMINATE_SESSION)))
              (\<lambda>closed. case written of
                  Inl e \<Rightarrow> throw_io e
                | Inr _ \<Rightarrow> (case closed of Inl e \<Rightarrow> throw_io (Files_rejected e) | Inr _ \<Rightarrow> return_io ()))))))"

end
