(* ===== verification/Mavftp_Stored.thy ===== *)
theory Mavftp_Stored
  imports Mavftp_Files
begin

text \<open>
  What the file operations leave on the vehicle and bring from it, for any sequence of answers.
\<close>

subsection \<open>The conversation\<close>

lemma sendAsk_run:
  assumes "sendAsk server a h = Some (r, h')"
  obtains x where "askLog h' = askLog h @ [(a, x)]" "sessionsCleared h' = sessionsCleared h"
    "r = map_sum Files_request (\<lambda>m. m) x"
    "x = (case server (askLog h) a of Inl e \<Rightarrow> Inl e | Inr m \<Rightarrow> requestAnswer m)"
  using assms by (auto simp: sendAsk_def Let_def)

lemma returns_sendAsk [returns_rules]: "returns (sendAsk server a)"
  by (simp add: returns_def sendAsk_def Let_def)

lemma quietly_run: "quietly m h = Some (r, h') \<Longrightarrow> r = Inr () \<and> (\<exists>x. m h = Some (x, h'))"
  by (auto simp: quietly_def catch_io_Some then_io_def bind_io_Some return_io_def)

lemma returns_quietly [returns_rules]: "returns m \<Longrightarrow> returns (quietly m)"
  by (simp add: quietly_def returns_rules)

lemma returns_reset [returns_rules]: "returns (resetSessions server)"
  by (simp add: resetSessions_def returns_rules)

lemma returns_clear [returns_rules]: "returns (clearStaleSessionsOnce server)"
  using returns_not_None [OF returns_quietly [OF returns_reset]]
  by (simp add: returns_def clearStaleSessionsOnce_def return_io_def)

lemma returns_support [returns_rules]: "returns (ensureSupport support)"
  by (simp add: ensureSupport_def returns_rules split: option.split)

lemma returns_delete [returns_rules]: "returns (deleteRemotePath server support path directory)"
  by (simp add: deleteRemotePath_def returns_rules)

lemma returns_create [returns_rules]: "returns (createFile server support path overwrite)"
  by (simp add: createFile_def returns_rules)

lemma returns_open [returns_rules]: "returns (openFileForRead server path)"
  by (simp add: openFileForRead_def returns_rules)

lemma returns_terminate [returns_rules]: "returns (terminateSession server session)"
  by (simp add: terminateSession_def returns_rules)

lemma returns_writeLoop [returns_rules]: "returns (writeLoop server session bs off)"
proof (induction server session bs off rule: writeLoop.induct)
  case (1 server session bs off)
  then show ?case
    by (subst writeLoop.simps) (simp add: returns_rules)
qed

lemma readLoop_returns: "readLoop server limit declared session off chunks h \<noteq> None"
proof (induction "nat (MAX_MAVFTP_FILE_BYTES - off)" arbitrary: off chunks h rule: less_induct)
  case less
  have "readLoop server limit declared session (off + int (length (ftpData m))) chunks' h' \<noteq> None"
    if "\<not> MAX_MAVFTP_FILE_BYTES \<le> off" "ftpData m \<noteq> []" for m chunks' h'
    using that by (intro less) (simp add: zless_nat_eq_int_zless)
  then show ?case
    by (subst readLoop.simps)
      (auto simp: bind_io_def try_io_def return_io_def throw_io_def sendAsk_def Let_def split: sum.splits option.splits)
qed

lemma returns_readLoop [returns_rules]: "returns (readLoop server limit declared session off chunks)"
  using readLoop_returns by (simp add: returns_def)

lemma returns_read [returns_rules]: "returns (readRemoteFile server limit path)"
  by (auto simp: readRemoteFile_def intro!: returns_rules split: sum.split)

lemma returns_upload: "returns (uploadRemoteFile server support path bs overwrite)"
  by (auto simp: uploadRemoteFile_def intro!: returns_rules split: sum.split)

subsection \<open>Uploads\<close>

text \<open>The file open for writing on a vehicle that does what it acknowledges.\<close>

definition writeAt :: "nat \<Rightarrow> bytes \<Rightarrow> bytes \<Rightarrow> bytes" where
  "writeAt off d content = take off content @ replicate (off - length content) 0 @ d @ drop (off + length d) content"

fun ftpStore :: "bytes option \<Rightarrow> ftp_turn list \<Rightarrow> bytes option" where
  "ftpStore f [] = f"
| "ftpStore f ((a, Inl e) # ts) = ftpStore f ts"
| "ftpStore f ((a, Inr m) # ts) =
     ftpStore (if askOpcode a = MAV_FTP_OPCODE CREATE_FILE then Some []
       else if askOpcode a = MAV_FTP_OPCODE WRITE_FILE then map_option (writeAt (nat (askOffset a)) (askData a)) f
       else f) ts"

lemma ftpStore_append: "ftpStore f (xs @ ys) = ftpStore (ftpStore f xs) ys"
  by (induction f xs rule: ftpStore.induct) simp_all

lemma writeAt_next:
  "off \<le> length bs \<Longrightarrow> d = take n (drop off bs) \<Longrightarrow> writeAt off d (take off bs) = take (off + length d) bs"
  by (simp add: writeAt_def take_add min_def)

lemma writeLoop_run:
  assumes "writeLoop server session bs off h = Some (r, h')" "off \<le> length bs"
  shows "\<exists>ts. askLog h' = askLog h @ ts \<and> (\<forall>t\<in>set ts. askOpcode (fst t) = MAV_FTP_OPCODE WRITE_FILE \<and> askSession (fst t) = session)
    \<and> (isl r \<or> ftpStore (Some (take off bs)) ts = Some bs)"
  using assms
proof (induction server session bs off arbitrary: h rule: writeLoop.induct)
  case (1 server session bs off)
  let ?a = "writeAsk session bs off"
  let ?off = "off + length (askData ?a)"
  show ?case
  proof (cases "off < length bs")
    case False
    then show ?thesis using "1.prems" by (subst (asm) writeLoop.simps) (simp add: return_io_def)
  next
    case True
    then have run: "then_io (sendAsk server ?a) (writeLoop server session bs ?off) h = Some (r, h')"
      using "1.prems"(1) by (subst (asm) writeLoop.simps) simp
    have a: "askData ?a = slice off (off + MAVFTP_TRANSFER_CHUNK_SIZE) bs" "askOpcode ?a = MAV_FTP_OPCODE WRITE_FILE"
      "askSession ?a = session" "askOffset ?a = int off" by (simp_all add: writeAsk_def Let_def)
    have len: "?off \<le> length bs" using True by (simp add: a slice_def)
    obtain x h1 where s: "sendAsk server ?a h = Some (x, h1)" by (simp add: sendAsk_def Let_def)
    obtain y where y: "askLog h1 = askLog h @ [(?a, y)]" "x = map_sum Files_request (\<lambda>m. m) y"
      using sendAsk_run [OF s] by blast
    show ?thesis
    proof (cases y)
      case (Inl e)
      then have "h' = h1" "isl r" using run s y(2) by (auto simp: then_io_def bind_io_def)
      then show ?thesis using y(1) a by (intro exI [of _ "[(?a, y)]"]) simp
    next
      case (Inr m)
      then have "writeLoop server session bs ?off h1 = Some (r, h')"
        using run s y(2) by (simp add: then_io_def bind_io_def)
      from "1.IH" [OF True this len] obtain ts where ts: "askLog h' = askLog h1 @ ts"
        "\<forall>t\<in>set ts. askOpcode (fst t) = MAV_FTP_OPCODE WRITE_FILE \<and> askSession (fst t) = session"
        "isl r \<or> ftpStore (Some (take ?off bs)) ts = Some bs" by blast
      have "writeAt off (askData ?a) (take off bs) = take ?off bs"
        using True by (intro writeAt_next [where n = MAVFTP_TRANSFER_CHUNK_SIZE]) (simp_all add: a slice_def)
      then show ?thesis using ts y(1) a Inr by (intro exI [of _ "(?a, y) # ts"]) auto
    qed
  qed
qed

lemma map_sum_Inr: "map_sum f (\<lambda>m. m) v = Inr m \<longleftrightarrow> v = Inr m"
  by (cases v) auto

lemma sendAsk_log: "sendAsk server a h = Some (r, h') \<Longrightarrow> \<exists>x. askLog h' = askLog h @ [(a, x)] \<and> (\<forall>m. r = Inr m \<longleftrightarrow> x = Inr m)"
  by (erule sendAsk_run) (auto simp: map_sum_Inr)

text \<open>A step adds turns to the conversation.\<close>

definition grows :: "'a ftp_io \<Rightarrow> bool" where
  "grows m \<longleftrightarrow> (\<forall>h r h'. m h = Some (r, h') \<longrightarrow> (\<exists>ts. askLog h' = askLog h @ ts))"

lemma growsD: "grows m \<Longrightarrow> m h = Some (r, h') \<Longrightarrow> \<exists>ts. askLog h' = askLog h @ ts"
  by (simp add: grows_def)

lemma grows_return: "grows (return_io v)" "grows (throw_io e)"
  by (simp_all add: grows_def return_io_def throw_io_def)

lemma grows_bind: "grows m \<Longrightarrow> (\<And>x. grows (k x)) \<Longrightarrow> grows (bind_io m k)"
  unfolding grows_def bind_io_Some by (metis append.assoc)

lemma grows_then: "grows m \<Longrightarrow> grows k \<Longrightarrow> grows (then_io m k)"
  unfolding then_io_def by (rule grows_bind)

lemma grows_catch: "grows m \<Longrightarrow> (\<And>e. grows (k e)) \<Longrightarrow> grows (catch_io m k)"
  unfolding grows_def catch_io_Some by (metis append.assoc)

lemma grows_send: "grows (sendAsk server a)"
  unfolding grows_def using sendAsk_log by blast

lemma grows_support: "grows (ensureSupport support)"
  by (simp add: ensureSupport_def grows_return split: option.split)

lemmas grows_rules = grows_return grows_bind grows_then grows_catch grows_send grows_support

lemma grows_quietly: "grows m \<Longrightarrow> grows (quietly m)"
  by (simp add: quietly_def grows_rules)

lemma grows_reset: "grows (resetSessions server)"
  by (simp add: resetSessions_def grows_rules)

lemma grows_clear: "grows (clearStaleSessionsOnce server)"
  unfolding grows_def
proof (intro allI impI)
  fix h r h' assume run: "clearStaleSessionsOnce server h = Some (r, h')"
  show "\<exists>ts. askLog h' = askLog h @ ts"
  proof (cases "sessionsCleared h")
    case False
    then show ?thesis using run growsD [OF grows_quietly [OF grows_reset]] by (fastforce simp: clearStaleSessionsOnce_def)
  qed (use run in \<open>simp add: clearStaleSessionsOnce_def return_io_def\<close>)
qed

lemma grows_delete: "grows (deleteRemotePath server support path directory)"
  by (simp add: deleteRemotePath_def grows_rules)

lemma grows_create: "grows (createFile server support path overwrite)"
  by (simp add: createFile_def grows_rules grows_delete)

lemma createFile_run:
  assumes "createFile server support path overwrite h = Some (Inr m, h')"
  shows "\<exists>ts. askLog h' = askLog h @ ts @ [(pathAsk CREATE_FILE path, Inr m)]"
proof -
  let ?a = "pathAsk CREATE_FILE path"
  have "\<exists>ts. askLog h' = askLog h1 @ ts @ [(?a, Inr m)]"
    if "then_io (deleteRemotePath server support path False) (sendAsk server ?a) h1 = Some (Inr m, h')" for h1
  proof -
    note again = that
    obtain u h2 where "deleteRemotePath server support path False h1 = Some (Inr u, h2)" "sendAsk server ?a h2 = Some (Inr m, h')"
      using again unfolding then_io_Inr by blast
    then show ?thesis using growsD [OF grows_delete] sendAsk_log by fastforce
  qed
  moreover have "sendAsk server ?a h = Some (Inr m, h') \<or> (\<exists>e h1. sendAsk server ?a h = Some (Inl e, h1)
      \<and> then_io (deleteRemotePath server support path False) (sendAsk server ?a) h1 = Some (Inr m, h'))"
    using assms unfolding createFile_def catch_io_Some by (auto simp: throw_io_def split: if_splits)
  ultimately show ?thesis using sendAsk_log [of server ?a h "Inr m" h'] growsD [OF grows_send, of server ?a h] by fastforce
qed

text \<open>What happens once the file is created.\<close>

definition uploadBody :: "ftp_server \<Rightarrow> int \<Rightarrow> bytes \<Rightarrow> unit ftp_io" where
  "uploadBody server session bs =
     bind_io (try_io (writeLoop server session bs 0))
      (\<lambda>written. bind_io (try_io (sendAsk server (plainAsk session TERMINATE_SESSION)))
        (\<lambda>closed. case written of
            Inl e \<Rightarrow> throw_io e
          | Inr _ \<Rightarrow> (case closed of Inl e \<Rightarrow> throw_io (Files_rejected e) | Inr _ \<Rightarrow> return_io ())))"

definition not_rejected :: "(files_error + 'a) \<Rightarrow> bool" where
  "not_rejected r \<longleftrightarrow> (\<forall>e. r \<noteq> Inl (Files_rejected e))"

lemma sendAsk_error: "sendAsk server a h = Some (r, h') \<Longrightarrow> not_rejected r"
  by (erule sendAsk_run) (auto simp: not_rejected_def map_sum_def split: sum.splits)

lemma writeLoop_error: "writeLoop server session bs off h = Some (r, h') \<Longrightarrow> not_rejected r"
proof (induction server session bs off arbitrary: h rule: writeLoop.induct)
  case (1 server session bs off)
  then show ?case
    by (subst (asm) (2) writeLoop.simps)
      (auto simp: then_io_def bind_io_Some return_io_def not_rejected_def dest: sendAsk_error [unfolded not_rejected_def] split: if_splits)
qed

lemma uploadBody_run:
  assumes "uploadBody server session bs h = Some (r, h')"
  shows "\<exists>ts c. askLog h' = askLog h @ ts @ [(plainAsk session TERMINATE_SESSION, c)]
    \<and> (\<forall>t\<in>set ts. askOpcode (fst t) = MAV_FTP_OPCODE WRITE_FILE \<and> askSession (fst t) = session)
    \<and> (r = Inr () \<longrightarrow> ftpStore (Some []) ts = Some bs \<and> \<not> isl c)
    \<and> (\<not> not_rejected r \<longrightarrow> ftpStore (Some []) ts = Some bs \<and> isl c)"
proof -
  let ?t = "plainAsk session TERMINATE_SESSION"
  obtain w h1 where w: "writeLoop server session bs 0 h = Some (w, h1)"
    using returns_not_None [OF returns_writeLoop] by fastforce
  obtain ts where ts: "askLog h1 = askLog h @ ts"
    "\<forall>t\<in>set ts. askOpcode (fst t) = MAV_FTP_OPCODE WRITE_FILE \<and> askSession (fst t) = session"
    "isl w \<or> ftpStore (Some []) ts = Some bs"
    using writeLoop_run [OF w] by auto
  obtain c h2 where c: "sendAsk server ?t h1 = Some (c, h2)" by (simp add: sendAsk_def Let_def)
  obtain y where y: "askLog h2 = askLog h1 @ [(?t, y)]" "\<forall>m. c = Inr m \<longleftrightarrow> y = Inr m" using sendAsk_log [OF c] by blast
  have "(\<exists>m. y = Inr m) = (\<exists>m. c = Inr m)" using y(2) by blast
  then have "isl y = isl c" by (cases c; cases y) simp_all
  moreover have "h' = h2" "r = (case w of Inl e \<Rightarrow> Inl e | Inr _ \<Rightarrow> (case c of Inl e \<Rightarrow> Inl (Files_rejected e) | Inr _ \<Rightarrow> Inr ()))"
    using assms w c
    by (auto simp: uploadBody_def bind_io_def try_io_def throw_io_def return_io_def split: sum.splits)
  ultimately show ?thesis
    using ts y(1) writeLoop_error [OF w]
    by (intro exI [of _ ts] exI [of _ y]) (auto simp: not_rejected_def split: sum.splits)
qed

definition never_rejected :: "'a ftp_io \<Rightarrow> bool" where
  "never_rejected m \<longleftrightarrow> (\<forall>h r h'. m h = Some (r, h') \<longrightarrow> not_rejected r)"

lemma never_rejected_basic:
  "never_rejected (return_io v)" "never_rejected (sendAsk server a)" "never_rejected (ensureSupport support)"
proof -
  show "never_rejected (return_io v)" by (simp add: never_rejected_def return_io_def not_rejected_def)
  show "never_rejected (sendAsk server a)" unfolding never_rejected_def using sendAsk_error by blast
  show "never_rejected (ensureSupport support)"
    by (cases support) (simp_all add: never_rejected_def ensureSupport_def return_io_def throw_io_def not_rejected_def)
qed

lemma never_rejected_then: "never_rejected m \<Longrightarrow> never_rejected k \<Longrightarrow> never_rejected (then_io m k)"
  unfolding never_rejected_def then_io_def bind_io_Some not_rejected_def by blast

lemma createFile_error: "createFile server support path overwrite h = Some (r, h') \<Longrightarrow> not_rejected r"
proof -
  let ?again = "then_io (deleteRemotePath server support path False) (sendAsk server (pathAsk CREATE_FILE path))"
  assume run: "createFile server support path overwrite h = Some (r, h')"
  have "never_rejected ?again"
    unfolding deleteRemotePath_def by (intro never_rejected_then never_rejected_basic)
  moreover have "not_rejected r \<or> (\<exists>h1. ?again h1 = Some (r, h'))"
    using run sendAsk_error [of server _ h "Inl _"] unfolding createFile_def catch_io_Some
    by (auto simp: throw_io_def not_rejected_def split: if_splits)
  ultimately show ?thesis unfolding never_rejected_def by blast
qed

lemma uploadRemoteFile_run:
  assumes "uploadRemoteFile server support path bs overwrite h = Some (r, h')"
  shows "(isl r \<and> not_rejected r \<and> (\<exists>ts. askLog h' = askLog h @ ts))
    \<or> (\<exists>pre ts m c. askLog h' = askLog h @ pre @ [(pathAsk CREATE_FILE path, Inr m)] @ ts
          @ [(plainAsk (ftpSession m) TERMINATE_SESSION, c)]
        \<and> (\<forall>t\<in>set ts. askOpcode (fst t) = MAV_FTP_OPCODE WRITE_FILE \<and> askSession (fst t) = ftpSession m)
        \<and> (r = Inr () \<longrightarrow> ftpStore (Some []) ts = Some bs \<and> \<not> isl c)
        \<and> (\<not> not_rejected r \<longrightarrow> ftpStore (Some []) ts = Some bs \<and> isl c))"
proof -
  have e: "uploadRemoteFile server support path bs overwrite =
      then_io (ensureSupport support) (then_io (clearStaleSessionsOnce server)
        (bind_io (createFile server support path overwrite) (\<lambda>m. uploadBody server (ftpSession m) bs)))"
    by (simp add: uploadRemoteFile_def uploadBody_def)
  show ?thesis
  proof (cases support)
    case (Some e')
    then have "r = Inl (Files_unsupported e')" "h' = h" using assms
      unfolding e by (simp_all add: then_io_def bind_io_def ensureSupport_def throw_io_def)
    then show ?thesis by (simp add: not_rejected_def)
  next
    case None
    obtain y h1 where c: "clearStaleSessionsOnce server h = Some (y, h1)"
      using returns_not_None [OF returns_clear] by fastforce
    have "y = Inr ()" using c by (auto simp: clearStaleSessionsOnce_def return_io_def dest: quietly_run split: if_splits)
    moreover obtain pre where pre: "askLog h1 = askLog h @ pre" using growsD [OF grows_clear c] by blast
    ultimately have run: "bind_io (createFile server support path overwrite) (\<lambda>m. uploadBody server (ftpSession m) bs) h1 = Some (r, h')"
      using assms c None unfolding e by (simp add: then_io_def bind_io_def ensureSupport_def return_io_def)
    obtain w h2 where w: "createFile server support path overwrite h1 = Some (w, h2)"
      using returns_not_None [OF returns_create] by fastforce
    obtain cs where cs: "askLog h2 = askLog h1 @ cs" using growsD [OF grows_create w] by blast
    show ?thesis
    proof (cases w)
      case (Inl e')
      then have "r = Inl e'" "h' = h2" using run w by (simp_all add: bind_io_def)
      then show ?thesis using createFile_error [OF w] Inl pre cs by (auto simp: not_rejected_def)
    next
      case (Inr m)
      then have b: "uploadBody server (ftpSession m) bs h2 = Some (r, h')" using run w by (simp add: bind_io_def)
      obtain cs' where "askLog h2 = askLog h1 @ cs' @ [(pathAsk CREATE_FILE path, Inr m)]"
        using createFile_run w Inr by blast
      then have "askLog h2 = askLog h @ (pre @ cs') @ [(pathAsk CREATE_FILE path, Inr m)]" using pre by simp
      then show ?thesis using uploadBody_run [OF b] by (metis append.assoc)
    qed
  qed
qed

subsection \<open>Reads\<close>

text \<open>
  A vehicle that answers reads with the bytes of the file, and ends only at its end; an error code
  comes only in an answer.
\<close>

definition reads_file :: "bytes \<Rightarrow> ftp_server \<Rightarrow> bool" where
  "reads_file file server \<longleftrightarrow>
     (\<forall>log a m. askOpcode a = MAV_FTP_OPCODE READ_FILE \<longrightarrow> 0 \<le> askOffset a \<longrightarrow> server log a = Inr m \<longrightarrow>
        (if ftpOpcode m = MAV_FTP_OPCODE FTP_ACK
         then nat (askOffset a) + length (ftpData m) \<le> length file \<and> int (length (ftpData m)) \<le> askSize a
           \<and> ftpData m = take (length (ftpData m)) (drop (nat (askOffset a)) file)
           \<and> (ftpData m = [] \<longrightarrow> length file \<le> nat (askOffset a))
         else byteOr0 0 (ftpData m) = MAV_FTP_ERR FTP_EOF \<longrightarrow> length file \<le> nat (askOffset a)))
     \<and> (\<forall>log a code errno. server log a \<noteq> Inl (Ftp_request_error code errno))"

text \<open>How much of the file a read is to bring.\<close>

definition readGoal :: "int option \<Rightarrow> int \<Rightarrow> nat \<Rightarrow> nat" where
  "readGoal limit declared all_bytes = (case limit of Some b \<Rightarrow> nat b | None \<Rightarrow> if 0 < declared then nat declared else all_bytes)"

definition read_so_far :: "bytes \<Rightarrow> int option \<Rightarrow> int \<Rightarrow> int \<Rightarrow> bytes list \<Rightarrow> bool" where
  "read_so_far content limit declared off chunks \<longleftrightarrow>
     0 \<le> off \<and> nat off \<le> length content \<and> nat off \<le> readGoal limit declared (length content)
     \<and> concat chunks = take (nat off) content"

lemma readAsk_fields:
  "askOpcode (readAsk limit declared session off) = MAV_FTP_OPCODE READ_FILE"
  "askOffset (readAsk limit declared session off) = off" "askSession (readAsk limit declared session off) = session"
  by (simp_all add: readAsk_def Let_def)

lemma readAsk_size:
  assumes "\<not> readDone limit declared off" "0 \<le> off" "nat off \<le> all_bytes"
    and "int n \<le> askSize (readAsk limit declared session off)" "nat off + n \<le> all_bytes"
  shows "nat (off + int n) \<le> readGoal limit declared all_bytes"
  using assms by (auto simp: readAsk_def readGoal_def readDone_def Let_def split: option.splits if_splits)

lemma sendAsk_answer:
  assumes "sendAsk server a h = Some (r, h')" "reads_file content server" "askOpcode a = MAV_FTP_OPCODE READ_FILE" "0 \<le> askOffset a"
  shows "r = Inr m \<Longrightarrow> nat (askOffset a) + length (ftpData m) \<le> length content \<and> int (length (ftpData m)) \<le> askSize a
      \<and> ftpData m = take (length (ftpData m)) (drop (nat (askOffset a)) content)
      \<and> (ftpData m = [] \<longrightarrow> length content \<le> nat (askOffset a))"
    and "r = Inl e \<Longrightarrow> nakOf FTP_EOF e \<Longrightarrow> length content \<le> nat (askOffset a)"
proof -
  have answer: "if ftpOpcode m = MAV_FTP_OPCODE FTP_ACK
      then nat (askOffset a) + length (ftpData m) \<le> length content \<and> int (length (ftpData m)) \<le> askSize a
        \<and> ftpData m = take (length (ftpData m)) (drop (nat (askOffset a)) content)
        \<and> (ftpData m = [] \<longrightarrow> length content \<le> nat (askOffset a))
      else byteOr0 0 (ftpData m) = MAV_FTP_ERR FTP_EOF \<longrightarrow> length content \<le> nat (askOffset a)"
    if "server (askLog h) a = Inr m" for m
    using assms(2-4) that unfolding reads_file_def by blast
  show "nat (askOffset a) + length (ftpData m) \<le> length content \<and> int (length (ftpData m)) \<le> askSize a
      \<and> ftpData m = take (length (ftpData m)) (drop (nat (askOffset a)) content)
      \<and> (ftpData m = [] \<longrightarrow> length content \<le> nat (askOffset a))" if "r = Inr m"
  proof -
    have "server (askLog h) a = Inr m" "ftpOpcode m = MAV_FTP_OPCODE FTP_ACK"
      using assms(1) that by (auto simp: sendAsk_def Let_def map_sum_Inr requestAnswer_def split: sum.splits if_splits)
    then show ?thesis using answer [of m] by simp
  qed
  show "length content \<le> nat (askOffset a)" if "r = Inl e" "nakOf FTP_EOF e"
  proof (cases "server (askLog h) a")
    case (Inl e')
    then have "\<forall>code errno. e' \<noteq> Ftp_request_error code errno" using assms(2) unfolding reads_file_def by metis
    then show ?thesis using assms(1) that Inl by (cases e') (auto simp: sendAsk_def Let_def nakOf_def)
  next
    case (Inr m)
    then show ?thesis using assms(1) that answer [OF Inr]
      by (auto simp: sendAsk_def Let_def nakOf_def requestAnswer_def split: if_splits)
  qed
qed

lemma readLoop_run:
  assumes "readLoop server limit declared session off chunks h = Some (Inr got, h')"
    and "reads_file content server" "read_so_far content limit declared off chunks"
  shows "concat got = take (readGoal limit declared (length content)) content"
proof -
  let ?P = "\<lambda>server limit declared session off chunks h y. reads_file content server \<longrightarrow>
     read_so_far content limit declared off chunks \<longrightarrow>
     (\<forall>got. fst y = Inr got \<longrightarrow> concat got = take (readGoal limit declared (length content)) content)"
  have "?P server limit declared session off chunks h (Inr got :: files_error + bytes list, h')"
  proof (rule readLoop.raw_induct [where P = ?P, OF _ assms(1)])
    fix f :: "ftp_server \<Rightarrow> int option \<Rightarrow> int \<Rightarrow> int \<Rightarrow> int \<Rightarrow> bytes list \<Rightarrow> bytes list ftp_io"
      and server limit declared session off chunks h and y :: "(files_error + bytes list) \<times> ftp_files"
    let ?a = "readAsk limit declared session off"
    assume IH: "\<And>server limit declared session off chunks h y.
        f server limit declared session off chunks h = Some y \<Longrightarrow> ?P server limit declared session off chunks h y"
      and run: "(if readDone limit declared off then return_io chunks h
      else if MAX_MAVFTP_FILE_BYTES \<le> off then throw_io Files_read_cap h
      else bind_io (try_io (sendAsk server ?a))
        (\<lambda>r h. case r of
             Inl e \<Rightarrow> if nakOf FTP_EOF e then return_io chunks h else throw_io e h
           | Inr m \<Rightarrow>
               if ftpData m = [] then return_io chunks h
               else f server limit declared session (off + int (length (ftpData m))) (chunks @ [ftpData m]) h) h) = Some y"
    show "?P server limit declared session off chunks h y"
    proof (intro impI allI)
      fix got
      assume ok: "reads_file content server" "read_so_far content limit declared off chunks" "fst y = Inr got"
      have off: "0 \<le> off" "nat off \<le> length content" "nat off \<le> readGoal limit declared (length content)"
        "concat chunks = take (nat off) content" using ok(2) by (simp_all add: read_so_far_def)
      have atEnd: "concat chunks = take (readGoal limit declared (length content)) content" if "length content \<le> nat off"
        using that off by simp
      show "concat got = take (readGoal limit declared (length content)) content"
      proof (cases "readDone limit declared off")
        case True
        then have "nat off = readGoal limit declared (length content)"
          using off by (auto simp: readDone_def readGoal_def split: option.splits if_splits)
        then show ?thesis using True run ok(3) off(4) by (auto simp: return_io_def)
      next
        case False
        obtain r h1 where s: "sendAsk server ?a h = Some (r, h1)" by (simp add: sendAsk_def Let_def)
        note ans = sendAsk_answer [OF s ok(1) readAsk_fields(1), unfolded readAsk_fields(2), OF off(1)]
        have y: "Some y = (case r of
             Inl e \<Rightarrow> if nakOf FTP_EOF e then return_io chunks h1 else throw_io e h1
           | Inr m \<Rightarrow> if ftpData m = [] then return_io chunks h1
               else f server limit declared session (off + int (length (ftpData m))) (chunks @ [ftpData m]) h1)"
          using run False ok(3) s by (auto simp: bind_io_def try_io_def throw_io_def split: if_splits)
        show ?thesis
        proof (cases r)
          case (Inl e)
          then have "nakOf FTP_EOF e" "got = chunks" using y ok(3) by (auto simp: throw_io_def return_io_def split: if_splits)
          then show ?thesis using ans(2) [OF Inl] atEnd by simp
        next
          case (Inr m)
          note m = ans(1) [OF Inr]
          show ?thesis
          proof (cases "ftpData m = []")
            case True
            then have "got = chunks" using y ok(3) Inr by (simp add: return_io_def)
            then show ?thesis using m True atEnd by simp
          next
            case False
            let ?off = "off + int (length (ftpData m))"
            have n: "nat ?off = nat off + length (ftpData m)" using off(1) by simp
            have "take (nat ?off) content = take (nat off) content @ ftpData m"
              unfolding n take_add using m by simp
            then have "read_so_far content limit declared ?off (chunks @ [ftpData m])"
              using off m n readAsk_size [OF \<open>\<not> readDone limit declared off\<close> off(1,2), of "length (ftpData m)" session]
              by (simp add: read_so_far_def)
            moreover have "f server limit declared session ?off (chunks @ [ftpData m]) h1 = Some y"
              using y Inr False by simp
            ultimately show ?thesis using IH ok(1,3) by blast
          qed
        qed
      qed
    qed
  qed
  then show ?thesis using assms(2,3) by simp
qed

text \<open>A read, its session and what it declared.\<close>

lemma readRemoteFile_run:
  assumes "readRemoteFile server limit path h = Some (r, h')"
  shows "(\<exists>e. r = Inl e) \<or> (\<exists>m c pre. askLog h' = pre @ [(plainAsk (ftpSession m) TERMINATE_SESSION, c)]
     \<and> (\<exists>h1 h2 chunks. readLoop server limit (declaredSizeOf m) (ftpSession m) 0 [] h1 = Some (Inr chunks, h2) \<and> r = Inr (concat chunks)))"
proof (cases r)
  case (Inr bs)
  then obtain m h1 h2 v where run: "readLoop server limit (declaredSizeOf m) (ftpSession m) 0 [] h1 = Some (v, h2)"
    "then_io (terminateSession server (ftpSession m)) (case v of Inl e \<Rightarrow> throw_io e | Inr chunks \<Rightarrow> return_io (concat chunks)) h2
      = Some (Inr bs, h')"
    using assms unfolding readRemoteFile_def by (auto simp: then_io_Inr bind_io_Inr try_io_Some)
  then obtain u h3 where t: "terminateSession server (ftpSession m) h2 = Some (Inr u, h3)"
    "(case v of Inl e \<Rightarrow> throw_io e | Inr chunks \<Rightarrow> return_io (concat chunks)) h3 = Some (Inr bs, h')"
    unfolding then_io_Inr by blast
  obtain chunks where v: "v = Inr chunks" "bs = concat chunks" "h' = h3"
    using t(2) by (cases v) (auto simp: throw_io_def return_io_def)
  obtain w where "sendAsk server (plainAsk (ftpSession m) TERMINATE_SESSION) h2 = Some (w, h3)"
    using t(1) unfolding terminateSession_def quietly_def
    by (auto simp: catch_io_Some then_io_def bind_io_Some return_io_def)
  then show ?thesis using sendAsk_log run(1) v Inr by blast
qed simp

end
