(* ===== verification/Transfer_Guarantees.thy ===== *)
theory Transfer_Guarantees
  imports Log_Transfer Mavftp_Requests Mavftp_Stored
begin

unbundle bit_operations_syntax

text \<open>
  What the log download and the MAVFTP service guarantee: the bytes of a finished transfer are the
  bytes of the vehicle, every call ends, a request gets its own reply, and an upload that returns is
  stored.
\<close>

subsection \<open>Log download\<close>

text \<open>
  C0 log_download_is_the_log: however the calls, the messages, the timeouts, the refused sends and
  the cancellations of a session interleave, if the \<open>LOG_DATA\<close> messages are chunks of the vehicle's
  logs, lost, repeated and reordered as they may be, a download that returns bytes was asked for a
  log and a size and returns that log, cut at the size and padded with zeros when the log is shorter.
\<close>

theorem log_download_is_the_log:
  assumes "log_run newLogService es s"
    and "\<forall>m. Data_arrives m \<in> set es \<longrightarrow> chunk_of logs m"
    and "logSettled s p = Some (Log_bytes bs)"
  shows "\<exists>i n. p < length (logCalls s) \<and> logCalls s ! p = Call_download i (Some n) \<and> 0 \<le> n
    \<and> bs = file_image (logs i) (nat n)"
  using log_inv_settled [OF log_content.log_run_inv [OF assms(1) refl assms(2)] assms(3)]
  by (auto simp: outcome_ok_def log_of_def)

definition demoChunk :: log_data where
  "demoChunk = \<lparr>log_data.id = 7, log_data.ofs = 0, log_data.count = 2, log_data.data = [5, 6]\<rparr>"

definition demoVehicle :: vehicle_identity where
  "demoVehicle = \<lparr>vehicleSystemId = 1, vehicleComponentId = 1\<rparr>"

definition demoLog :: log_service where
  "demoLog = handleLogData (Some demoVehicle) demoChunk (downloadLog (Some demoVehicle) 7 (Some 3) newLogService)"

lemma demoLog_run: "log_run newLogService [Download_log 7 (Some 3), Data_arrives demoChunk] demoLog"
  using log_run.more [OF log_run.more [OF log_run.none [of newLogService] log_step.download [of _ 7 "Some 3" "Some demoVehicle"]]
      log_step.data [of _ demoChunk "Some demoVehicle"]]
  by (simp add: demoLog_def)

lemma demoLog_settled: "logSettled demoLog 0 = Some (Log_bytes [5, 6, 0])"
  by (simp add: demoLog_def newLogService_def downloadLog_def requireIdle_def sizeAllowed_def demoVehicle_def
      MAX_LOG_DOWNLOAD_BYTES_def logArm_def requestData_def logSend_def handleLogData_def demoChunk_def
      logClear_def storeChunk_def chunkWritable_def chunkContiguous_def LOG_DATA_CHUNK_def finishData_def
      clearActive_def sendRequestEnd_def logSettle_def newBytes_def put_def numeral_3_eq_3 Let_def)

lemma log_download_is_the_log_witness:
  "\<exists>i n. 0 < length (logCalls demoLog) \<and> logCalls demoLog ! 0 = Call_download i (Some n) \<and> 0 \<le> n
    \<and> [5, 6, 0] = file_image (if i = 7 then [5, 6] else []) (nat n)"
  by (rule log_download_is_the_log [OF demoLog_run _ demoLog_settled, where logs = "\<lambda>i. if i = 7 then [5, 6] else []"])
    (simp add: demoChunk_def chunk_of_def LOG_DATA_CHUNK_def Let_def)

text \<open>
  C0 log_calls_settle: after any session the only armed timer is the one of the call in progress, and
  without further messages the service ends every call: at most four timeouts can follow, as long
  as a call is not settled one timer is armed, and a call keeps the result it got.
\<close>

theorem log_calls_settle:
  assumes "log_run newLogService es s" "log_run s ts s'" "log_silent ts"
  shows "length ts \<le> 1 + MAX_STALL_RETRIES
    \<and> (\<forall>p<length (logCalls s'). logSettled s' p = None \<longrightarrow>
        (\<exists>t. logTimers s' = {t} \<and> map_option opPromise (logActive s') = Some p \<and> map_option opTimer (logActive s') = Some t))
    \<and> (\<forall>p r. logSettled s p = Some r \<longrightarrow> logSettled s' p = Some r)"
proof -
  have i: "log_inv (\<lambda>_. True) (\<lambda>_ _ _. True) s" by (rule log_any.log_run_inv [OF assms(1) refl]) simp
  note r = log_silent_run [OF assms(2,3) i]
  then have i': "log_inv (\<lambda>_. True) (\<lambda>_ _ _. True) s'" by simp
  have "length ts \<le> 1 + MAX_STALL_RETRIES" using r firesLeft_bound [of s] by linarith
  moreover have "\<exists>t. logTimers s' = {t} \<and> map_option opPromise (logActive s') = Some p \<and> map_option opTimer (logActive s') = Some t"
    if "p < length (logCalls s')" "logSettled s' p = None" for p
  proof -
    have "map_option opPromise (logActive s') = Some p" using log_inv_open_promise [OF i', of p] that by blast
    then obtain op where "logActive s' = Some op" "opPromise op = p" by auto
    then show ?thesis using log_inv_active(5) [OF i'] by simp
  qed
  ultimately show ?thesis using log_run_kept [OF assms(2)] unfolding log_kept_def by blast
qed

lemma demoSilent_run:
  "log_run (downloadLog (Some demoVehicle) 7 (Some 3) newLogService) [Log_timer 0]
     (logTimerFires (Some demoVehicle) 0 (downloadLog (Some demoVehicle) 7 (Some 3) newLogService))"
  using log_run.more [OF log_run.none log_step.timer [of 0 "downloadLog (Some demoVehicle) 7 (Some 3) newLogService" "Some demoVehicle"]]
  by (simp add: newLogService_def downloadLog_def requireIdle_def sizeAllowed_def demoVehicle_def
      MAX_LOG_DOWNLOAD_BYTES_def logArm_def requestData_def logSend_def Let_def)

lemma log_calls_settle_witness:
  "length [Log_timer 0] \<le> 1 + MAX_STALL_RETRIES"
  using log_calls_settle [OF _ demoSilent_run, of "[Download_log 7 (Some 3)]"]
    log_run.more [OF log_run.none [of newLogService] log_step.download [of _ 7 "Some 3" "Some demoVehicle"]]
  by (simp add: log_silent_def)

subsection \<open>Burst download\<close>

text \<open>
  C0 ftp_burst_is_the_file: if the packets that answer a burst carry bytes of the file open in their
  session, lost, repeated and reordered as they may be, what a burst returns is a beginning of the
  file; so is the partial result of one that fails; and when no end-of-file packet comes, a burst
  that returns has the whole announced size.
\<close>

theorem ftp_burst_is_the_file:
  assumes "ftp_run newFtpService es s" "packets_ok (packet_of files) es"
    and "ftpResults s p = Some r" "ftpBursts s ! p = (session, n)"
  shows "(case r of
       Burst_bytes bs \<Rightarrow> prefix_of_file files session n bs \<and> (packets_ok no_eof es \<longrightarrow> whole_file files session n bs)
     | Burst_failed e (Some q) \<Rightarrow> partialDeclared q = n \<and> prefix_of_file files session n (partialBytes q)
     | Burst_failed e None \<Rightarrow> True)"
proof -
  have new: "burst_inv good claim part newFtpService" for good claim part by (simp add: burst_inv_def newFtpService_def)
  have settled: "burst_outcome_ok claim part (session, n) r" if "burst_inv good claim part s" for good claim part
    using that assms(3) unfolding burst_inv_def assms(4) [symmetric] by blast
  have a: "burst_outcome_ok (prefix_of_file files) (prefix_of_file files) (session, n) r"
    by (rule settled [OF burst_file.ftp_run_inv [OF assms(1) new assms(2)]])
  have b: "burst_outcome_ok (whole_file files) (prefix_of_file files) (session, n) r" if "packets_ok no_eof es"
    by (rule settled [OF burst_whole.ftp_run_inv [OF assms(1) new]]) (use assms(2) that in \<open>auto simp: packets_ok_def\<close>)
  show ?thesis using a b by (auto simp: burst_outcome_ok_def split: burst_outcome.splits option.splits)
qed

definition demoPacket :: bytes where
  "demoPacket = [1, 0, 0, 128, 1, 15, 0, 0, 0, 0, 0, 0, 7]"

definition demoBurst :: ftp_service where
  "demoBurst = runBurst (Some demoVehicle) 0 1 newFtpService"

definition demoBurstEnd :: ftp_service where
  "demoBurstEnd = handleBurstPacket (Some demoVehicle) (dataPacket 0 [7]) (adoptServerSequence 1 demoBurst)"

lemma demoPacket_decodes: "decodeMavftpPayload demoPacket = Some (dataPacket 0 [7])"
  by (simp add: demoPacket_def decodeMavftpPayload_def getUint16_def getUint32_def getBytes_def slice_def
      MAVFTP_DATA_OFFSET_def byteOr0_def dataPacket_def Let_def)

lemma demoBurst_active: "ftpActive demoBurst \<noteq> None"
  by (simp add: demoBurst_def runBurst_def armBurst_def newFtpService_def sendBurstReadRequest_def nextSequence_def
      demoVehicle_def Let_def)

lemma demoBurst_arrives: "handleFileTransferProtocol (Some demoVehicle) demoPacket demoBurst = Some demoBurstEnd"
proof -
  have "ftpActive (adoptServerSequence 1 demoBurst) \<noteq> None"
    using demoBurst_active by (simp add: adoptServerSequence_def Let_def)
  moreover have "seqNumber (dataPacket 0 [7]) = 1" "reqOpcode (dataPacket 0 [7]) = MAV_FTP_OPCODE BURST_READ_FILE"
    by (simp_all add: dataPacket_def)
  ultimately show ?thesis by (simp add: handleFileTransferProtocol_def demoPacket_decodes demoBurstEnd_def Let_def)
qed

lemma demoBurst_run:
  "ftp_run newFtpService [Ftp_burst 0 1] demoBurst"
  "ftp_run newFtpService [Ftp_burst 0 1, Ftp_arrives demoPacket] demoBurstEnd"
proof -
  have "ftp_step newFtpService (Ftp_burst 0 1) demoBurst"
    unfolding demoBurst_def by (rule ftp_step.burst) (simp_all add: newFtpService_def)
  from ftp_run.more [OF ftp_run.none this] show r: "ftp_run newFtpService [Ftp_burst 0 1] demoBurst" by simp
  from ftp_run.more [OF r ftp_step.arrives [OF demoBurst_arrives]]
  show "ftp_run newFtpService [Ftp_burst 0 1, Ftp_arrives demoPacket] demoBurstEnd" by simp
qed

lemma demoBurst_settled: "ftpResults demoBurstEnd 0 = Some (Burst_bytes [7])" "ftpBursts demoBurstEnd ! 0 = (0, 1)"
  by (simp_all add: demoBurstEnd_def demoBurst_def runBurst_def armBurst_def newFtpService_def sendBurstReadRequest_def
      nextSequence_def demoVehicle_def adoptServerSequence_def handleBurstPacket_def dataPacket_def burstData_def
      placePacket_def advanceBurst_def packetWritable_def packetContiguous_def finishBurst_def settleBurst_def
      closeBurst_def newBytes_def put_def Let_def)

lemma ftp_burst_is_the_file_witness:
  "prefix_of_file (\<lambda>_. [7, 8]) 0 1 [7] \<and> whole_file (\<lambda>_. [7, 8]) 0 1 [7]"
proof -
  have ok: "packets_ok (packet_of (\<lambda>_. [7, 8])) [Ftp_burst 0 1, Ftp_arrives demoPacket]"
    "packets_ok no_eof [Ftp_burst 0 1, Ftp_arrives demoPacket]"
    by (auto simp: packets_ok_def demoPacket_decodes) (simp_all add: packet_of_def no_eof_def dataPacket_def)
  show ?thesis using ftp_burst_is_the_file [OF demoBurst_run(2) ok(1) demoBurst_settled] ok(2) by simp
qed

text \<open>
  C0 ftp_burst_bounded: whatever packets arrive, a burst of \<open>n\<close> bytes arms its timer at most
  \<open>8 * n + 8\<close> times before the next burst, and while it is not settled exactly one is armed: the burst
  ends, and no packets of the vehicle can keep it going for ever.
\<close>

theorem ftp_burst_bounded:
  assumes "ftp_run newFtpService es s" "ftpActive s = None" "0 < n"
    and "ftp_run (runBurst v session n s) ts s'" "no_new_burst ts"
  shows "ftpNextBurstTimer s' \<le> ftpNextBurstTimer s + (8 * nat n + 8)
    \<and> (\<forall>p<length (ftpBursts s'). ftpResults s' p = None \<longrightarrow> (\<exists>t. ftpBurstTimers s' = {t}))"
proof -
  have "any_inv newFtpService" by (simp add: any_inv_def burst_inv_def newFtpService_def)
  then have "any_inv s"
    unfolding any_inv_def by (rule burst_any.ftp_run_inv [OF assms(1)]) (simp add: packets_ok_def)
  then have i: "any_inv (runBurst v session n s)"
    using burst_any.runBurst_inv [OF _ assms(2,3)] by (simp add: any_inv_def)
  note r = ftp_run_paid [OF assms(4) i assms(5)]
  have "ftpNextBurstTimer s' \<le> ftpNextBurstTimer s + (8 * nat n + 8)"
    using r runBurst_fuel [OF assms(3), of v session s] by (simp add: arms_paid_def)
  moreover have "\<exists>t. ftpBurstTimers s' = {t}" if "p < length (ftpBursts s')" "ftpResults s' p = None" for p
  proof -
    have b: "burst_inv (\<lambda>_. True) (\<lambda>_ _ _. True) (\<lambda>_ _ _. True) s'" using r by (simp add: any_inv_def)
    have "map_option burstPromise (ftpActive s') = Some p" using burst_inv_open_promise [OF b, of p] that by blast
    then show ?thesis using burst_inv_active(5) [OF b] by auto
  qed
  ultimately show ?thesis by blast
qed

lemma ftp_burst_bounded_witness:
  "ftpNextBurstTimer demoBurstEnd \<le> 16"
proof -
  have "handleFileTransferProtocol (Some demoVehicle) demoPacket demoBurst = Some demoBurstEnd"
    using demoBurst_arrives .
  then have "ftp_run demoBurst [Ftp_arrives demoPacket] demoBurstEnd"
    using ftp_run.more [OF ftp_run.none ftp_step.arrives] by fastforce
  then show ?thesis
    using ftp_burst_bounded [OF ftp_run.none, of 1 "Some demoVehicle" 0 "[Ftp_arrives demoPacket]" demoBurstEnd]
    by (simp add: demoBurst_def no_new_burst_def) (simp add: newFtpService_def)
qed

subsection \<open>Requests\<close>

text \<open>
  C0 ftp_requests_answered: every reply a request gets carries the number after its own, a request
  without a reply has one armed timer of its own, no other timer is armed, and a request keeps the
  reply it got. The number a packet of the vehicle leaves behind is in range and is not the one whose
  reply the packet would be mistaken for.
\<close>

theorem ftp_requests_answered:
  assumes "ftp_run newFtpService es s" "ftp_run s ts s'"
  shows "(\<forall>p m. ftpReplies s' p = Some (Inr m) \<longrightarrow>
        p < length (ftpRequests s') \<and> seqNumber m = (ftpRequests s' ! p + 1) AND 0xFFFF)
    \<and> (\<forall>p<length (ftpRequests s'). ftpReplies s' p = None \<longrightarrow>
        (\<exists>!w. w \<in> set (ftpWaiters s') \<and> waiterPromise w = p) \<and> (\<exists>w\<in>set (ftpWaiters s'). waiterPromise w = p
           \<and> waiterTimer w \<in> ftpRequestTimers s'))
    \<and> ftpRequestTimers s' = waiterTimer ` set (ftpWaiters s')
    \<and> (\<forall>p r. ftpReplies s p = Some r \<longrightarrow> ftpReplies s' p = Some r)
    \<and> (ftpSequence (adoptServerSequence q s') + 1) AND 0xFFFF \<noteq> q AND 0xFFFF"
proof -
  have i: "wait_inv s" using ftp_run_wait [OF assms(1) wait_inv_new] by simp
  note r = ftp_run_wait [OF assms(2) i]
  then have i': "wait_inv s'" by simp
  have "(\<exists>!w. w \<in> set (ftpWaiters s') \<and> waiterPromise w = p)
    \<and> (\<exists>w\<in>set (ftpWaiters s'). waiterPromise w = p \<and> waiterTimer w \<in> ftpRequestTimers s')"
    if pending: "p < length (ftpRequests s')" "ftpReplies s' p = None" for p
  proof -
    have "p \<in> waiterPromise ` set (ftpWaiters s')" using i' pending unfolding wait_inv_def by blast
    then obtain w where w: "w \<in> set (ftpWaiters s')" "waiterPromise w = p" by blast
    moreover have "inj_on waiterPromise (set (ftpWaiters s'))" using i' by (simp add: wait_inv_def distinct_map)
    moreover have "waiterTimer w \<in> ftpRequestTimers s'" using i' w(1) by (simp add: wait_inv_def)
    ultimately show ?thesis by (auto dest: inj_onD)
  qed
  moreover have "p < length (ftpRequests s') \<and> seqNumber m = (ftpRequests s' ! p + 1) AND 0xFFFF"
    if "ftpReplies s' p = Some (Inr m)" for p m
    using that i' by (simp add: wait_inv_def reply_matches_def expectedSeq_def)
  moreover have "0 \<le> ftpSequence s'" "ftpSequence s' < 65536"
    using ftp_run_sequence [OF assms(2) ftp_run_sequence [OF assms(1) seq_ok_new]] by (simp_all add: seq_ok_def)
  ultimately show ?thesis
    using r i' adopt_not_replayed(1) [of s' q] by (simp add: replies_kept_def wait_inv_def)
qed

lemma ftp_requests_answered_witness:
  "(ftpSequence (adoptServerSequence 3 demoBurstEnd) + 1) AND 0xFFFF \<noteq> 3"
  using ftp_requests_answered [OF demoBurst_run(2) ftp_run.none, of 3] by simp

subsection \<open>Files\<close>

text \<open>
  C0 ftp_upload_is_stored: whatever was asked before and whatever the vehicle answers, an upload ends;
  if it returns, a vehicle that does what it acknowledged holds exactly the bytes when the last
  request, the close of the session they were written in, is acknowledged; and if it reports a
  refusal, the bytes were all acknowledged and the close was not.
\<close>

theorem ftp_upload_is_stored:
  "\<exists>r h'. uploadRemoteFile server support path bs overwrite h = Some (r, h')
     \<and> ((r = Inr () \<or> (\<exists>e. r = Inl (Files_rejected e))) \<longrightarrow>
         (\<exists>pre m ts c. askLog h' = askLog h @ pre @ [(pathAsk CREATE_FILE path, Inr m)] @ ts
              @ [(plainAsk (ftpSession m) TERMINATE_SESSION, c)]
            \<and> (\<forall>t\<in>set ts. askOpcode (fst t) = MAV_FTP_OPCODE WRITE_FILE \<and> askSession (fst t) = ftpSession m)
            \<and> ftpStore f (pre @ [(pathAsk CREATE_FILE path, Inr m)] @ ts) = Some bs
            \<and> (r = Inr () \<longleftrightarrow> \<not> isl c)))"
proof -
  obtain r h' where run: "uploadRemoteFile server support path bs overwrite h = Some (r, h')"
    using returns_not_None [OF returns_upload] by fastforce
  have stored: "ftpStore f (pre @ [(pathAsk CREATE_FILE path, Inr m)] @ ts) = ftpStore (Some []) ts" for pre m ts
    by (simp add: ftpStore_append) (simp add: pathAsk_def)
  have "\<exists>pre m ts c. askLog h' = askLog h @ pre @ [(pathAsk CREATE_FILE path, Inr m)] @ ts
        @ [(plainAsk (ftpSession m) TERMINATE_SESSION, c)]
      \<and> (\<forall>t\<in>set ts. askOpcode (fst t) = MAV_FTP_OPCODE WRITE_FILE \<and> askSession (fst t) = ftpSession m)
      \<and> ftpStore f (pre @ [(pathAsk CREATE_FILE path, Inr m)] @ ts) = Some bs \<and> (r = Inr () \<longleftrightarrow> \<not> isl c)"
    if ended: "r = Inr () \<or> (\<exists>e. r = Inl (Files_rejected e))"
  proof -
    have "\<not> (isl r \<and> not_rejected r)" "r = Inr () \<longleftrightarrow> not_rejected r" using ended by (auto simp: not_rejected_def)
    then show ?thesis using uploadRemoteFile_run [OF run] unfolding stored by blast
  qed
  then show ?thesis using run by blast
qed

definition ackPayload :: "bytes \<Rightarrow> mavftp_payload" where
  "ackPayload d = \<lparr>seqNumber = 0, ftpSession = 3, ftpOpcode = 128, ftpSize = int (length d), reqOpcode = 0,
     burstComplete = 0, ftpOffset = 0, ftpData = d\<rparr>"

definition demoFiles :: ftp_files where
  "demoFiles = \<lparr>askLog = [], sessionsCleared = True\<rparr>"

lemma ftp_upload_is_stored_witness:
  "\<exists>h' pre m ts. uploadRemoteFile (\<lambda>_ _. Inr (ackPayload [])) None [1] [9] True demoFiles = Some (Inr (), h')
     \<and> ftpStore None (pre @ [(pathAsk CREATE_FILE [1], Inr m)] @ ts) = Some [9]"
proof -
  have ack: "sendAsk (\<lambda>_ _. Inr (ackPayload [])) a h = Some (Inr (ackPayload []), h\<lparr>askLog := askLog h @ [(a, Inr (ackPayload []))]\<rparr>)"
    for a h by (simp add: sendAsk_def requestAnswer_def) (simp add: ackPayload_def requestAnswer_def)
  have "fst (the (uploadRemoteFile (\<lambda>_ _. Inr (ackPayload [])) None [1] [9] True demoFiles)) = Inr ()"
    by (simp add: uploadRemoteFile_def ensureSupport_def clearStaleSessionsOnce_def createFile_def demoFiles_def
        then_io_def bind_io_def catch_io_def try_io_def return_io_def ack writeLoop.simps writeAsk_def slice_def
        MAVFTP_TRANSFER_CHUNK_SIZE_def)
  then show ?thesis
    using ftp_upload_is_stored [of "\<lambda>_ _. Inr (ackPayload [])" None "[1]" "[9]" True demoFiles None] by auto
qed






end
