(* ===== verification/Motor_Outputs.thy ===== *)
theory Motor_Outputs
  imports Complex_Main Js_Text
begin

text \<open>
  Which motor is which: \<open>ardupilot-core/src/airframe-outputs.ts\<close> (the output channels that drive
  motors, from the \<open>SERVOn_FUNCTION\<close> parameters), the motor numbers of
  \<open>param-metadata/src/arducopter-enums.ts\<close>, and \<open>ardupilot-core/src/motor-test-order.ts\<close> (the number
  by which the autopilot's motor test knows a motor of a frame). Parameter values are finite
  numbers; the labels and notes the summaries carry for display are left out.
\<close>

subsection \<open>Output channels\<close>

definition jsRound :: "real \<Rightarrow> int" where
  "jsRound v = \<lfloor>v + 1 / 2\<rfloor>"

text \<open>Parameters in the order of the snapshot; \<open>find\<close> takes the first of an id, a \<open>Map\<close> the last.\<close>

type_synonym parameters = "(js_text \<times> real) list"

definition arducopterMotorNumberForServoFunction :: "int \<Rightarrow> int option" where
  "arducopterMotorNumberForServoFunction v =
     (if 33 \<le> v \<and> v \<le> 40 then Some (v - 32)
      else if 82 \<le> v \<and> v \<le> 85 then Some (v - 73)
      else if 160 \<le> v \<and> v \<le> 179 then Some (v - 147)
      else None)"

datatype output_kind = Motor | Control_surface | Unused | Pass_through | Peripheral | Other_output

definition classifyServoOutput :: "int \<Rightarrow> int option \<Rightarrow> output_kind" where
  "classifyServoOutput v m =
     (if m \<noteq> None then Motor
      else if v = 0 then Unused
      else if (51 \<le> v \<and> v \<le> 66) \<or> (140 \<le> v \<and> v \<le> 155) \<or> v = 1 then Pass_through
      else if v \<in> {-1, 6, 7, 8, 9, 10, 12, 13, 14, 15, 27, 29, 30, 31, 32, 41, 45, 46, 47, 70, 73, 74, 75, 76,
          81, 88, 90, 91, 92, 93} \<or> (120 \<le> v \<and> v \<le> 123) then Peripheral
      else if v \<in> {2, 3, 4, 16, 17, 19, 21, 24, 25, 26, 77, 78, 79, 80, 86, 87} then Control_surface
      else Other_output)"

record servo_output =
  channelNumber :: nat
  servoParamId :: js_text
  functionValue :: int
  outputKind :: output_kind
  motorNumber :: "int option"

definition servoFunctionId :: "nat \<Rightarrow> js_text" where
  "servoFunctionId n = textOf ''SERVO'' @ decimal n @ textOf ''_FUNCTION''"

definition DEFAULT_MAX_SERVO_OUTPUTS :: nat where
  "DEFAULT_MAX_SERVO_OUTPUTS = 32"

definition servoAssignment :: "nat \<Rightarrow> real \<Rightarrow> servo_output" where
  "servoAssignment n raw =
     (let v = jsRound raw; m = arducopterMotorNumberForServoFunction v
      in \<lparr>channelNumber = n, servoParamId = servoFunctionId n, functionValue = v,
          outputKind = classifyServoOutput v m, motorNumber = m\<rparr>)"

definition deriveServoOutputAssignments :: "parameters \<Rightarrow> nat \<Rightarrow> servo_output list" where
  "deriveServoOutputAssignments ps most =
     concat (map (\<lambda>n. case map_of (rev ps) (servoFunctionId n) of None \<Rightarrow> [] | Some raw \<Rightarrow> [servoAssignment n raw])
       [1..<most + 1])"

definition MAX_SAFE_INTEGER :: int where
  "MAX_SAFE_INTEGER = 2 ^ 53 - 1"

definition motorKey :: "servo_output \<Rightarrow> int" where
  "motorKey out = (case motorNumber out of None \<Rightarrow> MAX_SAFE_INTEGER | Some m \<Rightarrow> m)"

record output_summary =
  summaryOutputs :: "servo_output list"
  motorOutputs :: "servo_output list"
  configuredAuxOutputs :: "servo_output list"
  disabledOutputs :: "servo_output list"

definition deriveOutputMappingSummary :: "parameters \<Rightarrow> output_summary" where
  "deriveOutputMappingSummary ps =
     (let outputs = deriveServoOutputAssignments ps DEFAULT_MAX_SERVO_OUTPUTS
      in \<lparr>summaryOutputs = outputs,
          motorOutputs = sort_key motorKey (filter (\<lambda>out. outputKind out = Motor) outputs),
          configuredAuxOutputs = filter (\<lambda>out. outputKind out \<noteq> Motor \<and> outputKind out \<noteq> Unused) outputs,
          disabledOutputs = filter (\<lambda>out. outputKind out = Unused) outputs\<rparr>)"

lemma motor_outputs_member:
  assumes "out \<in> set (motorOutputs (deriveOutputMappingSummary ps))"
  shows "\<exists>raw m. map_of (rev ps) (servoFunctionId (channelNumber out)) = Some raw
    \<and> arducopterMotorNumberForServoFunction (jsRound raw) = Some m \<and> motorNumber out = Some m
    \<and> 1 \<le> channelNumber out \<and> channelNumber out \<le> DEFAULT_MAX_SERVO_OUTPUTS \<and> 1 \<le> m \<and> m \<le> 32"
proof -
  from assms have k: "outputKind out = Motor" and mem: "out \<in> set (deriveServoOutputAssignments ps DEFAULT_MAX_SERVO_OUTPUTS)"
    by (simp_all add: deriveOutputMappingSummary_def Let_def)
  from mem obtain n where n: "n \<in> set [1..<DEFAULT_MAX_SERVO_OUTPUTS + 1]"
    and c: "out \<in> set (case map_of (rev ps) (servoFunctionId n) of None \<Rightarrow> [] | Some raw \<Rightarrow> [servoAssignment n raw])"
    unfolding deriveServoOutputAssignments_def set_concat set_map by blast
  from c obtain raw where raw: "map_of (rev ps) (servoFunctionId n) = Some raw" "out = servoAssignment n raw"
    by (cases "map_of (rev ps) (servoFunctionId n)") simp_all
  from k raw(2) obtain m where m: "arducopterMotorNumberForServoFunction (jsRound raw) = Some m"
    by (auto simp: servoAssignment_def Let_def classifyServoOutput_def split: if_splits)
  then have "1 \<le> m \<and> m \<le> 32" by (auto simp: arducopterMotorNumberForServoFunction_def split: if_splits)
  then show ?thesis using n raw m by (auto simp: servoAssignment_def Let_def)
qed

text \<open>The outputs are sorted by motor and no channel comes twice.\<close>

lemma assignments_channels:
  "map channelNumber (deriveServoOutputAssignments ps most)
    = filter (\<lambda>n. map_of (rev ps) (servoFunctionId n) \<noteq> None) [1..<most + 1]"
proof -
  have "map channelNumber (concat (map (\<lambda>n. case map_of (rev ps) (servoFunctionId n) of None \<Rightarrow> [] | Some raw \<Rightarrow> [servoAssignment n raw]) ns))
      = filter (\<lambda>n. map_of (rev ps) (servoFunctionId n) \<noteq> None) ns" for ns
    by (induction ns) (auto simp: servoAssignment_def Let_def split: option.split)
  then show ?thesis by (simp add: deriveServoOutputAssignments_def)
qed

lemma motor_outputs_sorted: "sorted (map motorKey (motorOutputs (deriveOutputMappingSummary ps)))"
  by (simp add: deriveOutputMappingSummary_def Let_def)

lemma motor_outputs_distinct: "distinct (map channelNumber (motorOutputs (deriveOutputMappingSummary ps)))"
proof -
  have "distinct (map channelNumber (deriveServoOutputAssignments ps DEFAULT_MAX_SERVO_OUTPUTS))"
    unfolding assignments_channels by (intro distinct_filter distinct_upt)
  then show ?thesis
    by (simp add: deriveOutputMappingSummary_def Let_def distinct_map inj_on_def)
qed

subsection \<open>Test order\<close>

text \<open>Entry \<open>k\<close> of a table is the testing order of motor \<open>k + 1\<close>; the keys are \<open>FRAME_CLASS\<close> and \<open>FRAME_TYPE\<close>.\<close>

definition TEST_ORDER_TABLES :: "(int \<times> (int \<times> int list) list) list" where
  "TEST_ORDER_TABLES =
     [(1, [(0, [2, 4, 1, 3]), (1, [1, 3, 4, 2]), (2, [1, 3, 4, 2]), (3, [1, 3, 4, 2]), (12, [2, 1, 3, 4]),
           (13, [1, 4, 3, 2]), (14, [1, 2, 3, 4]), (16, [2, 4, 1, 3]), (17, [1, 3, 4, 2]), (18, [2, 1, 3, 4])]),
      (2, [(0, [1, 4, 5, 2, 6, 3]), (1, [2, 5, 6, 3, 1, 4]), (3, [2, 5, 6, 3, 1, 4]), (13, [1, 6, 5, 4, 3, 2]),
           (14, [1, 2, 3, 4, 5, 6])]),
      (3, [(0, [1, 5, 2, 4, 8, 6, 7, 3]), (1, [1, 5, 2, 4, 8, 6, 7, 3]), (2, [7, 3, 6, 4, 8, 2, 1, 5]),
           (3, [1, 5, 2, 4, 8, 6, 7, 3]), (15, [5, 1, 6, 8, 4, 2, 3, 7]), (13, [1, 8, 7, 6, 5, 4, 3, 2]),
           (14, [1, 2, 3, 4, 5, 6, 7, 8])]),
      (4, [(0, [1, 7, 5, 3, 8, 2, 4, 6]), (1, [1, 7, 5, 3, 8, 2, 4, 6]), (2, [1, 7, 5, 3, 8, 2, 4, 6]),
           (3, [1, 7, 5, 3, 8, 2, 4, 6]), (12, [3, 1, 5, 7, 4, 2, 6, 8]), (18, [3, 1, 5, 7, 4, 2, 6, 8]),
           (14, [1, 2, 3, 4, 5, 6, 7, 8]), (20, [1, 7, 5, 3, 8, 2, 4, 6])]),
      (5, [(10, [1, 2, 3, 4, 5, 6]), (11, [3, 1, 5, 4, 2, 6])]),
      (12, [(0, [1, 2, 3, 4, 5, 6, 7, 8, 9, 10, 11, 12]), (1, [1, 2, 3, 4, 5, 6, 7, 8, 9, 10, 11, 12])]),
      (14, [(0, [1, 2, 3, 4, 5, 6, 7, 8, 9, 10]), (1, [1, 2, 3, 4, 5, 6, 7, 8, 9, 10]),
            (14, [1, 2, 3, 4, 5, 6, 7, 8, 9, 10])])]"

definition Y6_DEFAULT_TEST_ORDER :: "int list" where
  "Y6_DEFAULT_TEST_ORDER = [2, 5, 6, 4, 1, 3]"

definition testOrderTable :: "real \<Rightarrow> real \<Rightarrow> int list option" where
  "testOrderTable frameClass frameType =
     (case Option.bind (map_of TEST_ORDER_TABLES (jsRound frameClass)) (\<lambda>t. map_of t (jsRound frameType)) of
        Some t \<Rightarrow> Some t
      | None \<Rightarrow> if jsRound frameClass = 5 then Some Y6_DEFAULT_TEST_ORDER else None)"

definition motorTestSequenceForMotor :: "real option \<Rightarrow> real option \<Rightarrow> int \<Rightarrow> int \<times> bool" where
  "motorTestSequenceForMotor frameClass frameType m =
     (case (frameClass, frameType) of
        (Some c, Some t) \<Rightarrow>
          if m < 1 then (m, False)
          else (case testOrderTable c t of
                  None \<Rightarrow> (m, False)
                | Some table \<Rightarrow> if int (length table) < m then (m, False) else (table ! nat (m - 1), True))
      | _ \<Rightarrow> (m, False))"

text \<open>Every table is a permutation of the motors of its frame.\<close>

definition order_ok :: "int list \<Rightarrow> bool" where
  "order_ok t \<longleftrightarrow> sort t = map int [1..<length t + 1]"

lemma tables_ok: "list_all (\<lambda>(c, ts). list_all (\<lambda>(k, t). order_ok t) ts) TEST_ORDER_TABLES" "order_ok Y6_DEFAULT_TEST_ORDER"
  by (simp_all add: TEST_ORDER_TABLES_def Y6_DEFAULT_TEST_ORDER_def order_ok_def upt_rec)

lemma testOrderTable_ok: "testOrderTable c t = Some table \<Longrightarrow> order_ok table"
  using tables_ok
  by (auto simp: testOrderTable_def list_all_iff bind_eq_Some_conv split: option.splits if_splits dest!: map_of_SomeD)

lemma order_okD: "order_ok t \<Longrightarrow> sort t = map int [1..<length t + 1]"
  by (simp add: order_ok_def)

lemma order_ok_permutes:
  assumes "order_ok t"
  shows "distinct t" "set t = {1..int (length t)}"
proof -
  have "distinct (sort t)" unfolding order_okD [OF assms] by (simp add: distinct_map)
  then show "distinct t" by simp
  have "set (sort t) = int ` {1..length t}" unfolding order_okD [OF assms]
    by (simp only: set_map set_upt Suc_eq_plus1 [symmetric] atLeastLessThanSuc_atLeastAtMost)
  also have "\<dots> = {1..int (length t)}" by (simp add: image_int_atLeastAtMost)
  finally have "set (sort t) = {1..int (length t)}" .
  then show "set t = {1..int (length t)}" by simp
qed

end
