(* ===== verification/Motor_Eligibility.thy ===== *)
theory Motor_Eligibility
  imports Motor_Outputs
begin

text \<open>
  \<open>ardupilot-core/src/motor-test.ts\<close>: when a motor test may run. The reasons of a refusal are data
  here and sentences there; the snapshot has the fields the gate reads. \<open>Date.now()\<close> is an argument.
\<close>

definition MAX_MOTOR_TEST_THROTTLE_PERCENT :: real where
  "MAX_MOTOR_TEST_THROTTLE_PERCENT = 100"

definition MAX_MOTOR_TEST_DURATION_SECONDS :: real where
  "MAX_MOTOR_TEST_DURATION_SECONDS = 5"

definition EXPERT_MAX_MOTOR_TEST_DURATION_SECONDS :: real where
  "EXPERT_MAX_MOTOR_TEST_DURATION_SECONDS = 30"

definition MIN_MOTOR_TEST_DURATION_SECONDS :: real where
  "MIN_MOTOR_TEST_DURATION_SECONDS = 1 / 10"

definition MOTOR_TEST_ARMED_GRACE_MS :: int where
  "MOTOR_TEST_ARMED_GRACE_MS = 5000"

text \<open>A JavaScript number; comparing anything with NaN is false.\<close>

datatype js_float = Js_nan | Js_number real | Js_infinite bool

fun jsLess :: "js_float \<Rightarrow> js_float \<Rightarrow> bool" where
  "jsLess (Js_number a) (Js_number b) = (a < b)"
| "jsLess (Js_infinite p) (Js_number b) = (\<not> p)"
| "jsLess (Js_number a) (Js_infinite p) = p"
| "jsLess (Js_infinite p) (Js_infinite q) = (\<not> p \<and> q)"
| "jsLess Js_nan b = False"
| "jsLess a Js_nan = False"

datatype motor_status = Idle | Requested | Running | Succeeded | Failed

datatype action_status = Action_idle | Action_requested | Action_running | Action_succeeded | Action_failed

record motor_snapshot =
  snapConnected :: bool
  snapArmed :: "bool option"
  snapStatus :: motor_status
  snapCompletedAt :: "int option"
  snapSyncComplete :: bool
  snapGuided :: "action_status list"
  snapParameters :: parameters

record motor_request =
  reqChannel :: "nat option"
  reqAll :: bool
  reqSimultaneous :: bool
  reqThrottle :: "js_float option"
  reqDuration :: "js_float option"

record motor_options =
  optExpert :: bool
  optUncapped :: bool
  optReplace :: bool

datatype motor_reason =
    Not_connected
  | No_vehicle
  | Vehicle_armed
  | Sync_incomplete
  | Guided_action_running
  | Test_in_progress
  | No_motor_outputs
  | Not_contiguous
  | Select_output
  | Not_a_motor nat
  | Throttle_missing
  | Throttle_range
  | Duration_missing
  | Duration_range
  | Confirm_props_removed
  | Confirm_area_clear

record motor_eligibility =
  eligAllowed :: bool
  eligReasons :: "motor_reason list"
  eligSelected :: "servo_output option"
  eligOutputs :: "servo_output list"

definition hasContiguousMotorSequence :: "servo_output list \<Rightarrow> bool" where
  "hasContiguousMotorSequence outs \<longleftrightarrow> (\<forall>k<length outs. motorNumber (outs ! k) = Some (int k + 1))"

definition maxDuration :: "motor_options \<Rightarrow> js_float" where
  "maxDuration opts =
     (if optUncapped opts then Js_infinite True
      else if optExpert opts then Js_number EXPERT_MAX_MOTOR_TEST_DURATION_SECONDS
      else Js_number MAX_MOTOR_TEST_DURATION_SECONDS)"

definition activeStatus :: "motor_status \<Rightarrow> bool" where
  "activeStatus st \<longleftrightarrow> st = Requested \<or> st = Running"

definition armedReasons :: "int \<Rightarrow> motor_snapshot \<Rightarrow> motor_reason list" where
  "armedReasons now snap =
     (if snapArmed snap = Some True \<and> \<not> activeStatus (snapStatus snap)
         \<and> \<not> (case snapCompletedAt snap of None \<Rightarrow> False | Some c \<Rightarrow> now - c < MOTOR_TEST_ARMED_GRACE_MS)
      then [Vehicle_armed] else [])"

definition outputReasons :: "motor_request \<Rightarrow> servo_output list \<Rightarrow> servo_output option \<times> motor_reason list" where
  "outputReasons req outs =
     (if reqAll req \<or> reqSimultaneous req
      then (None, if hasContiguousMotorSequence outs then [] else [Not_contiguous])
      else (case reqChannel req of
              None \<Rightarrow> (None, [Select_output])
            | Some c \<Rightarrow>
                (case find (\<lambda>out. channelNumber out = c) outs of
                   None \<Rightarrow> (None, [Not_a_motor c])
                 | Some out \<Rightarrow> (Some out, []))))"

definition throttleReasons :: "motor_request \<Rightarrow> motor_reason list" where
  "throttleReasons req =
     (case reqThrottle req of
        None \<Rightarrow> [Throttle_missing]
      | Some t \<Rightarrow>
          if t = Js_nan then [Throttle_missing]
          else if jsLess t (Js_number 1) \<or> jsLess (Js_number MAX_MOTOR_TEST_THROTTLE_PERCENT) t then [Throttle_range]
          else [])"

definition durationReasons :: "motor_options \<Rightarrow> motor_request \<Rightarrow> motor_reason list" where
  "durationReasons opts req =
     (case reqDuration req of
        None \<Rightarrow> [Duration_missing]
      | Some t \<Rightarrow>
          if t = Js_nan then [Duration_missing]
          else if jsLess t (Js_number MIN_MOTOR_TEST_DURATION_SECONDS) \<or> jsLess (maxDuration opts) t then [Duration_range]
          else [])"

definition evaluateMotorTestEligibility ::
  "int \<Rightarrow> motor_snapshot \<Rightarrow> motor_request \<Rightarrow> motor_options \<Rightarrow> motor_eligibility" where
  "evaluateMotorTestEligibility now snap req opts =
     (let outs = motorOutputs (deriveOutputMappingSummary (snapParameters snap));
          (selected, outReasons) = outputReasons req outs;
          reasons =
            (if snapConnected snap then [] else [Not_connected])
            @ (if snapArmed snap = None then [No_vehicle] else [])
            @ armedReasons now snap
            @ (if snapSyncComplete snap then [] else [Sync_incomplete])
            @ (if \<exists>a\<in>set (snapGuided snap). a = Action_requested \<or> a = Action_running then [Guided_action_running] else [])
            @ (if \<not> optReplace opts \<and> activeStatus (snapStatus snap) then [Test_in_progress] else [])
            @ (if outs = [] then [No_motor_outputs] else [])
            @ outReasons @ throttleReasons req @ durationReasons opts req
      in \<lparr>eligAllowed = (reasons = []), eligReasons = reasons, eligSelected = selected, eligOutputs = outs\<rparr>)"

record motor_acknowledgements =
  propsRemoved :: bool
  testAreaClear :: bool

definition motorTestGuardReasons ::
  "int \<Rightarrow> motor_snapshot \<Rightarrow> motor_request \<Rightarrow> motor_acknowledgements \<Rightarrow> motor_options \<Rightarrow> motor_reason list" where
  "motorTestGuardReasons now snap req acks opts =
     eligReasons (evaluateMotorTestEligibility now snap req opts)
     @ (if propsRemoved acks then [] else [Confirm_props_removed])
     @ (if testAreaClear acks then [] else [Confirm_area_clear])"

subsection \<open>What an allowed request satisfies\<close>

definition within_range :: "js_float \<Rightarrow> js_float \<Rightarrow> js_float \<Rightarrow> bool" where
  "within_range a b v \<longleftrightarrow> v \<noteq> Js_nan \<and> \<not> jsLess v a \<and> \<not> jsLess b v"

text \<open>The safety conditions of a motor test, whatever the request.\<close>

definition bench_safe :: "int \<Rightarrow> motor_snapshot \<Rightarrow> motor_options \<Rightarrow> bool" where
  "bench_safe now snap opts \<longleftrightarrow>
     snapConnected snap \<and> snapSyncComplete snap
     \<and> (\<forall>a\<in>set (snapGuided snap). a \<noteq> Action_requested \<and> a \<noteq> Action_running)
     \<and> (snapArmed snap = Some False \<or> (snapArmed snap = Some True \<and>
          (activeStatus (snapStatus snap) \<or> (\<exists>c. snapCompletedAt snap = Some c \<and> now - c < MOTOR_TEST_ARMED_GRACE_MS))))
     \<and> (optReplace opts \<or> \<not> activeStatus (snapStatus snap))"

lemma eligible_safe:
  assumes "eligAllowed (evaluateMotorTestEligibility now snap req opts)"
  shows "bench_safe now snap opts"
  using assms
  by (cases "snapArmed snap")
    (auto simp: evaluateMotorTestEligibility_def bench_safe_def armedReasons_def Let_def case_prod_beta split: if_splits option.splits)

lemma eligible_throttle:
  assumes "eligAllowed (evaluateMotorTestEligibility now snap req opts)"
  shows "\<exists>v. reqThrottle req = Some (Js_number v) \<and> 1 \<le> v \<and> v \<le> 100"
proof -
  have "throttleReasons req = []"
    using assms by (simp add: evaluateMotorTestEligibility_def Let_def case_prod_beta)
  then obtain t where t: "reqThrottle req = Some t" "t \<noteq> Js_nan" "\<not> jsLess t (Js_number 1)" "\<not> jsLess (Js_number 100) t"
    by (auto simp: throttleReasons_def MAX_MOTOR_TEST_THROTTLE_PERCENT_def split: option.splits if_splits)
  then show ?thesis by (cases t) auto
qed

lemma eligible_duration:
  assumes "eligAllowed (evaluateMotorTestEligibility now snap req opts)"
  shows "\<exists>t. reqDuration req = Some t \<and> within_range (Js_number MIN_MOTOR_TEST_DURATION_SECONDS) (maxDuration opts) t"
proof -
  have "durationReasons opts req = []"
    using assms by (simp add: evaluateMotorTestEligibility_def Let_def case_prod_beta)
  then show ?thesis by (auto simp: durationReasons_def within_range_def split: option.splits if_splits)
qed

lemma find_member: "find P xs = Some y \<Longrightarrow> P y \<and> y \<in> set xs"
  by (auto simp: find_Some_iff)

lemma eligible_outputs:
  assumes "eligAllowed (evaluateMotorTestEligibility now snap req opts)"
  shows "eligOutputs (evaluateMotorTestEligibility now snap req opts)
      = motorOutputs (deriveOutputMappingSummary (snapParameters snap))"
    "eligOutputs (evaluateMotorTestEligibility now snap req opts) \<noteq> []"
    "reqAll req \<or> reqSimultaneous req \<Longrightarrow>
      hasContiguousMotorSequence (eligOutputs (evaluateMotorTestEligibility now snap req opts))
      \<and> eligSelected (evaluateMotorTestEligibility now snap req opts) = None"
    "\<not> reqAll req \<Longrightarrow> \<not> reqSimultaneous req \<Longrightarrow>
      \<exists>out. eligSelected (evaluateMotorTestEligibility now snap req opts) = Some out \<and> reqChannel req = Some (channelNumber out)
        \<and> out \<in> set (eligOutputs (evaluateMotorTestEligibility now snap req opts))"
  using assms
  by (auto simp: evaluateMotorTestEligibility_def Let_def case_prod_beta outputReasons_def
      split: if_splits option.splits dest: find_member)

end
