(* ===== verification/Motor_Service.thy ===== *)
theory Motor_Service
  imports Motor_Eligibility
begin

text \<open>
  \<open>ardupilot-core/src/runtime-motor-test-service.ts\<close>: running and stopping motor tests. An \<open>async\<close>
  method runs to its next \<open>await\<close> at once and goes on when the command is acknowledged or fails,
  or when its pause is over, so a call in progress is a task and calls interleave. Calls are
  numbered; \<open>motorSent\<close> lists the \<open>DO_MOTOR_TEST\<close> commands given to the host and \<open>motorRuns\<close> the
  requests that passed the gate, with the snapshot they passed it in.
\<close>

subsection \<open>State\<close>

record run_context =
  ctxNow :: int
  ctxSnapshot :: motor_snapshot
  ctxRequest :: motor_request
  ctxOptions :: motor_options

definition ctxEligibility :: "run_context \<Rightarrow> motor_eligibility" where
  "ctxEligibility c = evaluateMotorTestEligibility (ctxNow c) (ctxSnapshot c) (ctxRequest c) (ctxOptions c)"

record motor_command =
  cmdSequence :: int
  cmdThrottle :: js_float
  cmdDuration :: js_float

text \<open>The seven parameters of the command: by percent, one motor, default order.\<close>

definition motorParams :: "motor_command \<Rightarrow> js_float list" where
  "motorParams c = [Js_number (of_int (cmdSequence c)), Js_number 0, cmdThrottle c, cmdDuration c, Js_number 1,
     Js_number 0, Js_number 0]"

record motor_state =
  testStatus :: motor_status
  testAll :: bool
  testSimultaneous :: bool
  testChannel :: "nat option"
  testCount :: nat
  testMotor :: "int option"
  testThrottle :: "js_float option"
  testDuration :: "js_float option"
  testStartedAt :: "int option"
  testUpdatedAt :: "int option"
  testCompletedAt :: "int option"

datatype motor_task =
    Starting_all run_context "servo_output list"
  | Starting_sweep run_context nat "servo_output list" "int list"
  | Starting_one run_context
  | Sweep_pause run_context nat "servo_output list" "int list" nat
  | Sweep_send run_context nat "servo_output list" "int list" nat
  | Stopping "int list" bool

datatype motor_result = Run_refused "motor_reason list" | Run_started | Run_failed | Stop_result bool bool

record motor_service =
  motorState :: motor_state
  activeSequences :: "int list"
  sweepToken :: nat
  completionArmed :: bool
  motorTasks :: "(nat \<times> motor_task) list"
  motorCalls :: nat
  motorResults :: "nat \<rightharpoonup> motor_result"
  motorSent :: "motor_command list"
  motorRuns :: "run_context list"

definition createIdleMotorTestState :: motor_state where
  "createIdleMotorTestState = \<lparr>testStatus = Idle, testAll = False, testSimultaneous = False, testChannel = None,
     testCount = 0, testMotor = None, testThrottle = None, testDuration = None, testStartedAt = None,
     testUpdatedAt = None, testCompletedAt = None\<rparr>"

definition newMotorService :: motor_service where
  "newMotorService = \<lparr>motorState = createIdleMotorTestState, activeSequences = [], sweepToken = 0,
     completionArmed = False, motorTasks = [], motorCalls = 0, motorResults = Map.empty, motorSent = [], motorRuns = []\<rparr>"

definition hasActiveTest :: "motor_service \<Rightarrow> bool" where
  "hasActiveTest s \<longleftrightarrow> activeStatus (testStatus (motorState s))"

definition motorReset :: "motor_service \<Rightarrow> motor_service" where
  "motorReset s = s\<lparr>motorState := createIdleMotorTestState, completionArmed := False,
     sweepToken := sweepToken s + 1, activeSequences := []\<rparr>"

subsection \<open>Running\<close>

definition ctxThrottle :: "run_context \<Rightarrow> js_float" where
  "ctxThrottle c = (case reqThrottle (ctxRequest c) of None \<Rightarrow> Js_nan | Some t \<Rightarrow> t)"

definition ctxDuration :: "run_context \<Rightarrow> js_float" where
  "ctxDuration c = (case reqDuration (ctxRequest c) of None \<Rightarrow> Js_nan | Some t \<Rightarrow> t)"

definition frameParameter :: "js_text \<Rightarrow> run_context \<Rightarrow> real option" where
  "frameParameter key c = map_of (snapParameters (ctxSnapshot c)) key"

definition testSequence :: "run_context \<Rightarrow> servo_output \<Rightarrow> int" where
  "testSequence c out =
     (case motorNumber out of
        None \<Rightarrow> 1
      | Some m \<Rightarrow> fst (motorTestSequenceForMotor (frameParameter (textOf ''FRAME_CLASS'') c)
                   (frameParameter (textOf ''FRAME_TYPE'') c) m))"

definition spin :: "run_context \<Rightarrow> int \<Rightarrow> motor_service \<Rightarrow> motor_service" where
  "spin c seq s = s\<lparr>motorSent := motorSent s @
     [\<lparr>cmdSequence = seq, cmdThrottle = ctxThrottle c, cmdDuration = ctxDuration c\<rparr>]\<rparr>"

definition motorAwait :: "nat \<Rightarrow> motor_task \<Rightarrow> motor_service \<Rightarrow> motor_service" where
  "motorAwait p task s = s\<lparr>motorTasks := motorTasks s @ [(p, task)]\<rparr>"

definition motorReturn :: "nat \<Rightarrow> motor_result \<Rightarrow> motor_service \<Rightarrow> motor_service" where
  "motorReturn p r s = s\<lparr>motorResults := (motorResults s)(p \<mapsto> r)\<rparr>"

text \<open>The commands are acknowledged: the test is running and its completion is awaited.\<close>

definition runStarted :: "int \<Rightarrow> nat \<Rightarrow> motor_service \<Rightarrow> motor_service" where
  "runStarted now p s = motorReturn p Run_started
     (s\<lparr>motorState := (motorState s)\<lparr>testStatus := Running, testUpdatedAt := Some now, testCompletedAt := None\<rparr>,
        completionArmed := True\<rparr>)"

definition motorFailed :: "int \<Rightarrow> motor_service \<Rightarrow> motor_service" where
  "motorFailed now s = s\<lparr>completionArmed := False,
     motorState := (motorState s)\<lparr>testStatus := Failed, testUpdatedAt := Some now, testCompletedAt := Some now\<rparr>\<rparr>"

definition runFailed :: "int \<Rightarrow> nat \<Rightarrow> motor_service \<Rightarrow> motor_service" where
  "runFailed now p s = motorReturn p Run_failed (motorFailed now s)"

fun startAll :: "int \<Rightarrow> nat \<Rightarrow> run_context \<Rightarrow> servo_output list \<Rightarrow> motor_service \<Rightarrow> motor_service" where
  "startAll now p c [] s = runStarted now p s"
| "startAll now p c (out # rest) s =
     motorAwait p (Starting_all c rest)
       (spin c (testSequence c out) (s\<lparr>activeSequences := activeSequences s @ [testSequence c out]\<rparr>))"

definition sweepOrder :: "servo_output list \<Rightarrow> servo_output list" where
  "sweepOrder outs = sort_key motorKey (sort_key channelNumber outs)"

definition startSweep :: "nat \<Rightarrow> run_context \<Rightarrow> servo_output list \<Rightarrow> motor_service \<Rightarrow> motor_service" where
  "startSweep p c outs s =
     (let s = s\<lparr>sweepToken := sweepToken s + 1\<rparr>;
          ordered = sweepOrder outs;
          sequences = map (testSequence c) ordered
      in motorAwait p (Starting_sweep c (sweepToken s) ordered sequences)
           (spin c (hd sequences) (s\<lparr>activeSequences := [hd sequences]\<rparr>)))"

definition startOne :: "nat \<Rightarrow> run_context \<Rightarrow> servo_output option \<Rightarrow> motor_service \<Rightarrow> motor_service" where
  "startOne p c selected s =
     motorAwait p (Starting_one c)
       (spin c (case selected of None \<Rightarrow> 1 | Some out \<Rightarrow> testSequence c out) (s\<lparr>activeSequences := []\<rparr>))"

text \<open>Simultaneous takes precedence when both are asked.\<close>

definition requestedState :: "run_context \<Rightarrow> motor_state" where
  "requestedState c =
     (let req = ctxRequest c; e = ctxEligibility c; all = reqAll req \<or> reqSimultaneous req
      in \<lparr>testStatus = Requested, testAll = all, testSimultaneous = reqSimultaneous req,
          testChannel = (if all then None else case eligSelected e of None \<Rightarrow> reqChannel req
            | Some out \<Rightarrow> Some (channelNumber out)),
          testCount = (if all then length (eligOutputs e) else 1),
          testMotor = (if all then None else Option.bind (eligSelected e) motorNumber),
          testThrottle = reqThrottle req, testDuration = reqDuration req,
          testStartedAt = Some (ctxNow c), testUpdatedAt = Some (ctxNow c), testCompletedAt = None\<rparr>)"

definition startTest :: "nat \<Rightarrow> run_context \<Rightarrow> motor_service \<Rightarrow> motor_service" where
  "startTest p c s =
     (let req = ctxRequest c; e = ctxEligibility c
      in if reqSimultaneous req then startAll (ctxNow c) p c (eligOutputs e) (s\<lparr>activeSequences := []\<rparr>)
         else if reqAll req then startSweep p c (eligOutputs e) s
         else startOne p c (eligSelected e) s)"

text \<open>The gate sees the service's own state in the snapshot.\<close>

definition testContext :: "int \<Rightarrow> motor_snapshot \<Rightarrow> motor_request \<Rightarrow> motor_options \<Rightarrow> motor_service \<Rightarrow> run_context" where
  "testContext now env req opts s =
     \<lparr>ctxNow = now, ctxSnapshot = env\<lparr>snapStatus := testStatus (motorState s), snapCompletedAt := testCompletedAt (motorState s)\<rparr>,
      ctxRequest = req, ctxOptions = opts\<rparr>"

definition runMotorTest ::
  "int \<Rightarrow> motor_snapshot \<Rightarrow> motor_request \<Rightarrow> motor_options \<Rightarrow> motor_service \<Rightarrow> motor_service" where
  "runMotorTest now env req opts s =
     (let p = motorCalls s; c = testContext now env req opts s; e = ctxEligibility c; s = s\<lparr>motorCalls := p + 1\<rparr>
      in if \<not> eligAllowed e then motorReturn p (Run_refused (eligReasons e)) s
         else startTest p c (s\<lparr>motorRuns := motorRuns s @ [c], motorState := requestedState c\<rparr>))"

text \<open>The next turn of the sweep: it pauses, or it is over.\<close>

definition sweepTurn :: "nat \<Rightarrow> run_context \<Rightarrow> nat \<Rightarrow> servo_output list \<Rightarrow> int list \<Rightarrow> nat \<Rightarrow> motor_service \<Rightarrow> motor_service" where
  "sweepTurn p c token ordered sequences k s =
     (if k < length ordered then motorAwait p (Sweep_pause c token ordered sequences k) s else s)"

subsection \<open>Stopping\<close>

definition abortMotor :: "int \<Rightarrow> motor_service \<Rightarrow> motor_service" where
  "abortMotor seq s = s\<lparr>motorSent := motorSent s @ [\<lparr>cmdSequence = seq, cmdThrottle = Js_number 0, cmdDuration = Js_number 0\<rparr>]\<rparr>"

definition abortSequences :: "motor_service \<Rightarrow> int list" where
  "abortSequences s = (if activeSequences s = [] then [1] else activeSequences s)"

fun stopTurn :: "int \<Rightarrow> nat \<Rightarrow> int list \<Rightarrow> bool \<Rightarrow> motor_service \<Rightarrow> motor_service" where
  "stopTurn now p [] acknowledged s =
     motorReturn p (Stop_result True acknowledged)
       (s\<lparr>activeSequences := [], motorState := (motorState s)\<lparr>testStatus := Failed, testUpdatedAt := Some now,
           testCompletedAt := Some now\<rparr>\<rparr>)"
| "stopTurn now p (seq # rest) acknowledged s = motorAwait p (Stopping rest acknowledged) (abortMotor seq s)"

definition stopMotorTest :: "int \<Rightarrow> motor_service \<Rightarrow> motor_service" where
  "stopMotorTest now s =
     (let p = motorCalls s; s = s\<lparr>motorCalls := p + 1\<rparr>
      in if \<not> hasActiveTest s then motorReturn p (Stop_result False True) s
         else stopTurn now p (abortSequences s) True (s\<lparr>completionArmed := False, sweepToken := sweepToken s + 1\<rparr>))"

subsection \<open>Going on\<close>

text \<open>A task whose command was acknowledged (\<open>ok\<close>) or failed; for a pause, when it is over.\<close>

fun motorContinue :: "int \<Rightarrow> nat \<Rightarrow> bool \<Rightarrow> motor_task \<Rightarrow> motor_service \<Rightarrow> motor_service" where
  "motorContinue now p ok (Starting_all c rest) s = (if ok then startAll now p c rest s else runFailed now p s)"
| "motorContinue now p ok (Starting_sweep c token ordered sequences) s =
     (if ok then runStarted now p (sweepTurn p c token ordered sequences 1 s) else runFailed now p s)"
| "motorContinue now p ok (Starting_one c) s = (if ok then runStarted now p s else runFailed now p s)"
| "motorContinue now p ok (Sweep_pause c token ordered sequences k) s =
     (if token \<noteq> sweepToken s \<or> testStatus (motorState s) \<noteq> Running then s
      else motorAwait p (Sweep_send c token ordered sequences k)
        (spin c (sequences ! k) (s\<lparr>activeSequences := [sequences ! k]\<rparr>)))"
| "motorContinue now p ok (Sweep_send c token ordered sequences k) s =
     (if token \<noteq> sweepToken s then s
      else if \<not> ok then motorFailed now s
      else sweepTurn p c token ordered sequences (k + 1)
        (s\<lparr>motorState := (motorState s)\<lparr>testUpdatedAt := Some now\<rparr>\<rparr>))"
| "motorContinue now p ok (Stopping rest acknowledged) s = stopTurn now p rest (acknowledged \<and> ok) s"

definition motorResume :: "int \<Rightarrow> nat \<Rightarrow> bool \<Rightarrow> motor_service \<Rightarrow> motor_service" where
  "motorResume now k ok s =
     (case motorTasks s ! k of (p, task) \<Rightarrow>
        motorContinue now p ok task (s\<lparr>motorTasks := take k (motorTasks s) @ drop (k + 1) (motorTasks s)\<rparr>))"

definition motorCompletion :: "int \<Rightarrow> motor_service \<Rightarrow> motor_service" where
  "motorCompletion now s =
     (let s = s\<lparr>completionArmed := False\<rparr>
      in if testStatus (motorState s) \<noteq> Running then s
         else s\<lparr>motorState := (motorState s)\<lparr>testStatus := Succeeded, testUpdatedAt := Some now, testCompletedAt := Some now\<rparr>\<rparr>)"

text \<open>How long after the start the completion fires, in milliseconds.\<close>

definition MOTOR_TEST_SWEEP_GAP_MS :: real where
  "MOTOR_TEST_SWEEP_GAP_MS = 500"

definition MOTOR_TEST_COMPLETION_BUFFER_MS :: real where
  "MOTOR_TEST_COMPLETION_BUFFER_MS = 250"

definition completionDelay :: "motor_state \<Rightarrow> real \<Rightarrow> real" where
  "completionDelay st seconds =
     (let motorCount = real (max (testCount st) 1);
          durationMs = max (seconds * 1000) 0
      in (if testSimultaneous st then durationMs
          else if testAll st then durationMs * motorCount + MOTOR_TEST_SWEEP_GAP_MS * max (motorCount - 1) 0
          else durationMs) + MOTOR_TEST_COMPLETION_BUFFER_MS)"

subsection \<open>Steps\<close>

datatype motor_event =
    Run_test int motor_snapshot motor_request motor_options
  | Stop_test int
  | Resume int nat bool
  | Completion int
  | Reset_tests
  | Clear_completion

inductive motor_step :: "motor_service \<Rightarrow> motor_event \<Rightarrow> motor_service \<Rightarrow> bool" where
  run: "motor_step s (Run_test now env req opts) (runMotorTest now env req opts s)"
| stop: "motor_step s (Stop_test now) (stopMotorTest now s)"
| resume: "k < length (motorTasks s) \<Longrightarrow> motor_step s (Resume now k ok) (motorResume now k ok s)"
| completion: "completionArmed s \<Longrightarrow> motor_step s (Completion now) (motorCompletion now s)"
| reset: "motor_step s Reset_tests (motorReset s)"
| clear: "motor_step s Clear_completion (s\<lparr>completionArmed := False\<rparr>)"

inductive motor_run :: "motor_service \<Rightarrow> motor_event list \<Rightarrow> motor_service \<Rightarrow> bool" where
  none: "motor_run s [] s"
| more: "motor_run s es t \<Longrightarrow> motor_step t e u \<Longrightarrow> motor_run s (es @ [e]) u"

inductive_cases motor_stepE: "motor_step s e s'"

end
