(* ===== verification/Motor_Safety.thy ===== *)
theory Motor_Safety
  imports Motor_Service
begin

text \<open>
  What the motor test service commands: only what passed the gate, and after a stop nothing but
  aborts, for every order in which calls, acknowledgements and pauses come.
\<close>

subsection \<open>Commands come from requests that passed the gate\<close>

definition ctxTargets :: "run_context \<Rightarrow> servo_output list" where
  "ctxTargets c =
     (if reqAll (ctxRequest c) \<or> reqSimultaneous (ctxRequest c) then eligOutputs (ctxEligibility c)
      else case eligSelected (ctxEligibility c) of None \<Rightarrow> [] | Some out \<Rightarrow> [out])"

definition abortCommand :: "int \<Rightarrow> motor_command" where
  "abortCommand seq = \<lparr>cmdSequence = seq, cmdThrottle = Js_number 0, cmdDuration = Js_number 0\<rparr>"

definition spinCommand :: "run_context \<Rightarrow> int \<Rightarrow> motor_command" where
  "spinCommand c seq = \<lparr>cmdSequence = seq, cmdThrottle = ctxThrottle c, cmdDuration = ctxDuration c\<rparr>"

definition isAbort :: "motor_command \<Rightarrow> bool" where
  "isAbort m \<longleftrightarrow> m = abortCommand (cmdSequence m)"

definition requested_by :: "run_context \<Rightarrow> motor_command \<Rightarrow> bool" where
  "requested_by c m \<longleftrightarrow> (\<exists>out\<in>set (ctxTargets c). m = spinCommand c (testSequence c out))"

definition sequences_ok :: "run_context \<Rightarrow> servo_output list \<Rightarrow> int list \<Rightarrow> bool" where
  "sequences_ok c ordered sequences \<longleftrightarrow>
     set sequences \<subseteq> testSequence c ` set (ctxTargets c) \<and> length sequences = length ordered"

fun task_ok :: "run_context set \<Rightarrow> motor_task \<Rightarrow> bool" where
  "task_ok R (Starting_all c rest) \<longleftrightarrow> c \<in> R \<and> set rest \<subseteq> set (ctxTargets c)"
| "task_ok R (Starting_sweep c token ordered sequences) \<longleftrightarrow> c \<in> R \<and> sequences_ok c ordered sequences"
| "task_ok R (Starting_one c) \<longleftrightarrow> c \<in> R"
| "task_ok R (Sweep_pause c token ordered sequences k) \<longleftrightarrow> c \<in> R \<and> sequences_ok c ordered sequences \<and> k < length ordered"
| "task_ok R (Sweep_send c token ordered sequences k) \<longleftrightarrow> c \<in> R \<and> sequences_ok c ordered sequences"
| "task_ok R (Stopping rest acknowledged) \<longleftrightarrow> True"

definition gate_inv :: "motor_service \<Rightarrow> bool" where
  "gate_inv s \<longleftrightarrow>
     (\<forall>c\<in>set (motorRuns s). eligAllowed (ctxEligibility c))
     \<and> (\<forall>m\<in>set (motorSent s). isAbort m \<or> (\<exists>c\<in>set (motorRuns s). requested_by c m))
     \<and> (\<forall>t\<in>set (motorTasks s). task_ok (set (motorRuns s)) (snd t))"

lemma spin_sent [simp]: "motorSent (spin c seq s) = motorSent s @ [spinCommand c seq]"
  by (simp add: spin_def spinCommand_def)

lemma abort_sent [simp]: "motorSent (abortMotor seq s) = motorSent s @ [abortCommand seq]"
  by (simp add: abortMotor_def abortCommand_def)

lemma isAbort_abort [simp]: "isAbort (abortCommand seq)"
  by (simp add: isAbort_def abortCommand_def)

lemma motor_fields [simp]:
  "motorRuns (spin c seq s) = motorRuns s" "motorTasks (spin c seq s) = motorTasks s"
  "motorRuns (abortMotor seq s) = motorRuns s" "motorTasks (abortMotor seq s) = motorTasks s"
  "motorRuns (motorAwait p task s) = motorRuns s" "motorSent (motorAwait p task s) = motorSent s"
  "motorTasks (motorAwait p task s) = motorTasks s @ [(p, task)]"
  "motorRuns (motorReturn p r s) = motorRuns s" "motorSent (motorReturn p r s) = motorSent s"
  "motorTasks (motorReturn p r s) = motorTasks s"
  "motorRuns (motorFailed now s) = motorRuns s" "motorSent (motorFailed now s) = motorSent s"
  "motorTasks (motorFailed now s) = motorTasks s"
  "motorRuns (runStarted now p s) = motorRuns s" "motorSent (runStarted now p s) = motorSent s"
  "motorTasks (runStarted now p s) = motorTasks s"
  "motorRuns (runFailed now p s) = motorRuns s" "motorSent (runFailed now p s) = motorSent s"
  "motorTasks (runFailed now p s) = motorTasks s"
  by (simp_all add: spin_def abortMotor_def motorAwait_def motorReturn_def motorFailed_def runStarted_def runFailed_def)

text \<open>The parts a step has to account for.\<close>

lemma gate_inv_parts:
  "gate_inv s \<Longrightarrow> motorRuns s' = motorRuns s \<Longrightarrow>
   \<forall>m\<in>set (motorSent s'). m \<in> set (motorSent s) \<or> isAbort m \<or> (\<exists>c\<in>set (motorRuns s). requested_by c m) \<Longrightarrow>
   \<forall>t\<in>set (motorTasks s'). t \<in> set (motorTasks s) \<or> task_ok (set (motorRuns s)) (snd t) \<Longrightarrow> gate_inv s'"
  unfolding gate_inv_def by fastforce

lemma requested_target: "out \<in> set (ctxTargets c) \<Longrightarrow> requested_by c (spinCommand c (testSequence c out))"
  by (auto simp: requested_by_def)

lemma requested_sequence:
  "sequences_ok c ordered sequences \<Longrightarrow> q \<in> set sequences \<Longrightarrow> requested_by c (spinCommand c q)"
  by (auto simp: sequences_ok_def requested_by_def)

lemma startAll_gate:
  assumes "gate_inv s" "c \<in> set (motorRuns s)" "set outs \<subseteq> set (ctxTargets c)"
  shows "gate_inv (startAll now p c outs s)"
proof (cases outs)
  case (Cons out rest)
  have "requested_by c (spinCommand c (testSequence c out))" using assms(3) Cons by (intro requested_target) simp
  then show ?thesis using assms Cons by (intro gate_inv_parts [OF assms(1)]) auto
qed (rule gate_inv_parts [OF assms(1)]; simp)

lemma stopTurn_gate: "gate_inv s \<Longrightarrow> gate_inv (stopTurn now p rest ack s)"
  by (cases rest) (auto intro!: gate_inv_parts [of s])

lemma sweepTurn_gate:
  "gate_inv s \<Longrightarrow> c \<in> set (motorRuns s) \<Longrightarrow> sequences_ok c ordered sequences \<Longrightarrow>
   gate_inv (sweepTurn p c token ordered sequences k s)"
  by (auto simp: sweepTurn_def intro!: gate_inv_parts [of s])

lemma same_gate: "gate_inv s \<Longrightarrow> motorRuns s' = motorRuns s \<Longrightarrow> motorSent s' = motorSent s \<Longrightarrow>
    motorTasks s' = motorTasks s \<Longrightarrow> gate_inv s'"
  by (simp add: gate_inv_def)

lemma motorContinue_gate:
  assumes "gate_inv s" "task_ok (set (motorRuns s)) task"
  shows "gate_inv (motorContinue now p ok task s)"
proof (cases task)
  case (Starting_all c rest)
  then show ?thesis using assms startAll_gate same_gate [OF assms(1)] by simp
next
  case (Starting_sweep c token ordered sequences)
  then have "gate_inv (sweepTurn p c token ordered sequences 1 s)"
    using assms by (intro sweepTurn_gate) simp_all
  then show ?thesis using Starting_sweep same_gate same_gate [OF assms(1)] by simp
next
  case (Starting_one c)
  then show ?thesis using same_gate [OF assms(1)] by simp
next
  case (Sweep_pause c token ordered sequences k)
  have k: "k < length sequences" "c \<in> set (motorRuns s)" "sequences_ok c ordered sequences"
    using assms(2) Sweep_pause by (simp_all add: sequences_ok_def)
  then have "requested_by c (spinCommand c (sequences ! k))" by (intro requested_sequence [OF k(3)]) simp
  then have "gate_inv (motorAwait p (Sweep_send c token ordered sequences k)
      (spin c (sequences ! k) (s\<lparr>activeSequences := [sequences ! k]\<rparr>)))"
    using k by (intro gate_inv_parts [OF assms(1)]) auto
  then show ?thesis using assms(1) unfolding Sweep_pause by (cases "token = sweepToken s") simp_all
next
  case (Sweep_send c token ordered sequences k)
  let ?s = "s\<lparr>motorState := (motorState s)\<lparr>testUpdatedAt := Some now\<rparr>\<rparr>"
  have "gate_inv (sweepTurn p c token ordered sequences (k + 1) ?s)"
    using assms Sweep_send by (intro sweepTurn_gate) (simp_all add: same_gate)
  then show ?thesis using assms(1) same_gate [OF assms(1)] unfolding Sweep_send by (cases "token = sweepToken s") simp_all
qed (use assms stopTurn_gate in simp)

lemma motorResume_gate:
  assumes "gate_inv s" "k < length (motorTasks s)"
  shows "gate_inv (motorResume now k ok s)"
proof -
  obtain p task where t: "motorTasks s ! k = (p, task)" by fastforce
  then have m: "(p, task) \<in> set (motorTasks s)" using assms(2) by (metis nth_mem)
  let ?s = "s\<lparr>motorTasks := take k (motorTasks s) @ drop (k + 1) (motorTasks s)\<rparr>"
  have "gate_inv ?s"
    by (rule gate_inv_parts [OF assms(1)]) (auto dest: in_set_takeD in_set_dropD)
  moreover have "task_ok (set (motorRuns ?s)) task" using assms(1) m by (auto simp: gate_inv_def)
  ultimately show ?thesis using t motorContinue_gate by (simp add: motorResume_def)
qed

lemma eligible_targets:
  assumes "eligAllowed (ctxEligibility c)"
  shows "reqAll (ctxRequest c) \<or> reqSimultaneous (ctxRequest c) \<Longrightarrow> ctxTargets c = eligOutputs (ctxEligibility c)"
    "\<not> reqAll (ctxRequest c) \<Longrightarrow> \<not> reqSimultaneous (ctxRequest c) \<Longrightarrow>
      \<exists>out. eligSelected (ctxEligibility c) = Some out \<and> ctxTargets c = [out]"
    "eligOutputs (ctxEligibility c) \<noteq> []"
  using assms eligible_outputs(2,4) [of "ctxNow c" "ctxSnapshot c" "ctxRequest c" "ctxOptions c"]
  by (auto simp: ctxTargets_def ctxEligibility_def)

lemma startTest_gate:
  assumes "gate_inv s" "c \<in> set (motorRuns s)" "eligAllowed (ctxEligibility c)"
  shows "gate_inv (startTest p c s)"
proof -
  note t = eligible_targets [OF assms(3)]
  let ?e = "ctxEligibility c"
  have one: "gate_inv (startOne p c (eligSelected ?e) s)" if "\<not> reqAll (ctxRequest c)" "\<not> reqSimultaneous (ctxRequest c)"
  proof -
    note single = that
    obtain sel where sel: "eligSelected ?e = Some sel" "ctxTargets c = [sel]" using t(2) [OF single] by blast
    then have "requested_by c (spinCommand c (testSequence c sel))" by (intro requested_target) simp
    then show ?thesis using assms sel(1) unfolding startOne_def
      by (intro gate_inv_parts [OF assms(1)]) auto
  qed
  have sweep: "gate_inv (startSweep p c (eligOutputs ?e) s)" if all: "reqAll (ctxRequest c)"
  proof -
    let ?seqs = "map (testSequence c) (sweepOrder (eligOutputs ?e))"
    have set: "set (sweepOrder outs) = set outs" "length (sweepOrder outs) = length outs" for outs
      by (simp_all add: sweepOrder_def)
    have ok: "sequences_ok c (sweepOrder (eligOutputs ?e)) ?seqs"
      using t(1) all by (auto simp: sequences_ok_def set)
    have "?seqs \<noteq> []" using t(3) set(2) by (metis length_0_conv map_is_Nil_conv)
    then have "requested_by c (spinCommand c (hd ?seqs))" by (intro requested_sequence [OF ok] hd_in_set)
    then show ?thesis using assms(2) ok unfolding startSweep_def Let_def
      by (intro gate_inv_parts [OF assms(1)]) auto
  qed
  have "gate_inv (startAll (ctxNow c) p c (eligOutputs ?e) (s\<lparr>activeSequences := []\<rparr>))"
    if "reqSimultaneous (ctxRequest c)"
    using t(1) that assms(2) by (intro startAll_gate same_gate [OF assms(1)]) simp_all
  with one sweep show ?thesis by (simp add: startTest_def Let_def)
qed

lemma runMotorTest_gate:
  assumes "gate_inv s"
  shows "gate_inv (runMotorTest now env req opts s)"
proof -
  let ?c = "testContext now env req opts s"
  let ?s = "s\<lparr>motorCalls := motorCalls s + 1, motorRuns := motorRuns s @ [?c], motorState := requestedState ?c\<rparr>"
  show ?thesis
  proof (cases "eligAllowed (ctxEligibility ?c)")
    case True
    have mono: "task_ok (set (motorRuns s)) t \<Longrightarrow> task_ok (set (motorRuns s @ [?c])) t" for t by (cases t) auto
    have "gate_inv ?s" using assms True mono unfolding gate_inv_def by auto
    then show ?thesis using True startTest_gate [of ?s ?c] by (simp add: runMotorTest_def Let_def)
  qed (intro same_gate [OF assms]; simp add: runMotorTest_def Let_def)
qed

lemma motor_step_gate:
  assumes "motor_step s e s'" "gate_inv s"
  shows "gate_inv s'"
  using assms(1)
proof cases
  case (stop now)
  have "gate_inv (s\<lparr>motorCalls := n, completionArmed := a, sweepToken := t\<rparr>)" "gate_inv (s\<lparr>motorCalls := n\<rparr>)" for n a t
    by (rule same_gate [OF assms(2)]; simp)+
  then show ?thesis using stop stopTurn_gate same_gate [of "s\<lparr>motorCalls := motorCalls s + 1\<rparr>"]
    by (auto simp: stopMotorTest_def Let_def)
next
  case (completion now)
  show ?thesis unfolding completion(2) by (rule same_gate [OF assms(2)]) (simp_all add: motorCompletion_def Let_def)
next
  case reset
  show ?thesis unfolding reset(2) by (rule same_gate [OF assms(2)]) (simp_all add: motorReset_def)
next
  case clear
  show ?thesis unfolding clear(2) by (rule same_gate [OF assms(2)]) simp_all
qed (use assms(2) runMotorTest_gate motorResume_gate in simp_all)

lemma motor_run_gate: "motor_run s es s' \<Longrightarrow> gate_inv s \<Longrightarrow> gate_inv s'"
  by (induction rule: motor_run.induct) (auto intro: motor_step_gate)

lemma gate_inv_new: "gate_inv newMotorService"
  by (simp add: gate_inv_def newMotorService_def)

subsection \<open>After a stop\<close>

text \<open>
  A task sends nothing more when it is a sweep of an earlier token; only the start of all motors at
  once has no such test.
\<close>

fun task_token :: "motor_task \<Rightarrow> nat option" where
  "task_token (Starting_sweep c token ordered sequences) = Some token"
| "task_token (Sweep_pause c token ordered sequences k) = Some token"
| "task_token (Sweep_send c token ordered sequences k) = Some token"
| "task_token task = None"

fun startsAll :: "motor_task \<Rightarrow> bool" where
  "startsAll (Starting_all c rest) = True"
| "startsAll task = False"

definition tokens_inv :: "motor_service \<Rightarrow> bool" where
  "tokens_inv s \<longleftrightarrow> (\<forall>t\<in>set (motorTasks s). \<forall>token. task_token (snd t) = Some token \<longrightarrow> token \<le> sweepToken s)"

definition stopped_inv :: "motor_service \<Rightarrow> bool" where
  "stopped_inv s \<longleftrightarrow> (\<forall>t\<in>set (motorTasks s). \<not> startsAll (snd t)
     \<and> (\<forall>token. task_token (snd t) = Some token \<longrightarrow> token < sweepToken s))"

lemma token_fields [simp]:
  "sweepToken (spin c seq s) = sweepToken s" "sweepToken (abortMotor seq s) = sweepToken s"
  "sweepToken (motorAwait p task s) = sweepToken s" "sweepToken (motorReturn p r s) = sweepToken s"
  "sweepToken (motorFailed now s) = sweepToken s" "sweepToken (runStarted now p s) = sweepToken s"
  "sweepToken (runFailed now p s) = sweepToken s"
  by (simp_all add: spin_def abortMotor_def motorAwait_def motorReturn_def motorFailed_def runStarted_def runFailed_def)

text \<open>What is left of the tasks when one is resumed, and what resuming it adds.\<close>

lemma resumed_tasks: "set (take k ts @ drop (k + 1) ts) \<subseteq> set ts"
  by (auto dest: in_set_takeD in_set_dropD)

lemma stopTurn_fields:
  "sweepToken (stopTurn now p rest ack s) = sweepToken s"
  "\<exists>aborts. motorSent (stopTurn now p rest ack s) = motorSent s @ aborts \<and> (\<forall>m\<in>set aborts. isAbort m)"
  "set (motorTasks (stopTurn now p rest ack s)) \<subseteq> set (motorTasks s) \<union> {(p, Stopping (tl rest) ack)}"
  by (cases rest; auto)+

lemma motorContinue_tokens:
  "sweepToken (motorContinue now p ok task s) = sweepToken s"
  "t \<in> set (motorTasks (motorContinue now p ok task s)) \<Longrightarrow> t \<notin> set (motorTasks s) \<Longrightarrow>
     task_token (snd t) = task_token task \<and> startsAll (snd t) = startsAll task"
proof -
  have all: "sweepToken (startAll now p c outs s) = sweepToken s" for c outs s by (cases outs) simp_all
  show "sweepToken (motorContinue now p ok task s) = sweepToken s"
    by (cases task) (simp_all add: all stopTurn_fields sweepTurn_def)
  have all': "t \<in> set (motorTasks (startAll now p c outs s)) \<Longrightarrow> t \<notin> set (motorTasks s) \<Longrightarrow>
      task_token (snd t) = None \<and> startsAll (snd t)" for c outs
    by (cases outs) auto
  assume "t \<in> set (motorTasks (motorContinue now p ok task s))" "t \<notin> set (motorTasks s)"
  then show "task_token (snd t) = task_token task \<and> startsAll (snd t) = startsAll task"
    using all' stopTurn_fields(3) [of now p]
    by (cases task) (fastforce simp: sweepTurn_def split: if_splits)+
qed

text \<open>A task that neither starts all motors nor is a current sweep sends aborts at most.\<close>

lemma motorContinue_sends:
  assumes "\<not> startsAll task" "\<forall>token. task_token task = Some token \<longrightarrow> token < sweepToken s"
  shows "\<exists>aborts. motorSent (motorContinue now p ok task s) = motorSent s @ aborts \<and> (\<forall>m\<in>set aborts. isAbort m)"
  using assms stopTurn_fields(2) by (cases task) (simp_all add: sweepTurn_def)

lemma motorResume_stopped:
  assumes "stopped_inv s" "k < length (motorTasks s)"
  shows "stopped_inv (motorResume now k ok s)
    \<and> (\<exists>aborts. motorSent (motorResume now k ok s) = motorSent s @ aborts \<and> (\<forall>m\<in>set aborts. isAbort m))"
proof -
  obtain p task where t: "motorTasks s ! k = (p, task)" by fastforce
  then have m: "(p, task) \<in> set (motorTasks s)" using assms(2) by (metis nth_mem)
  let ?s = "s\<lparr>motorTasks := take k (motorTasks s) @ drop (k + 1) (motorTasks s)\<rparr>"
  have old: "\<not> startsAll task" "\<forall>token. task_token task = Some token \<longrightarrow> token < sweepToken ?s"
    using assms(1) m by (auto simp: stopped_inv_def)
  have e: "motorResume now k ok s = motorContinue now p ok task ?s" by (simp add: motorResume_def t)
  have "stopped_inv (motorContinue now p ok task ?s)"
    unfolding stopped_inv_def
  proof (intro ballI)
    fix t assume a: "t \<in> set (motorTasks (motorContinue now p ok task ?s))"
    show "\<not> startsAll (snd t) \<and> (\<forall>token. task_token (snd t) = Some token \<longrightarrow> token < sweepToken (motorContinue now p ok task ?s))"
    proof (cases "t \<in> set (motorTasks ?s)")
      case True
      then have "t \<in> set (motorTasks s)" using resumed_tasks by fastforce
      then show ?thesis using assms(1) motorContinue_tokens(1) [of now p ok task ?s] by (simp add: stopped_inv_def)
    next
      case False
      then show ?thesis using motorContinue_tokens(2) [OF a] motorContinue_tokens(1) [of now p ok task ?s] old by simp
    qed
  qed
  then show ?thesis unfolding e using motorContinue_sends [OF old, of now p ok] by simp
qed

lemma stopMotorTest_active:
  "hasActiveTest s \<Longrightarrow> stopMotorTest now s = stopTurn now (motorCalls s) (abortSequences s) True
     (s\<lparr>motorCalls := motorCalls s + 1, completionArmed := False, sweepToken := sweepToken s + 1\<rparr>)"
  by (simp add: stopMotorTest_def Let_def hasActiveTest_def abortSequences_def)

lemma stopMotorTest_idle:
  "\<not> hasActiveTest s \<Longrightarrow> stopMotorTest now s
     = motorReturn (motorCalls s) (Stop_result False True) (s\<lparr>motorCalls := motorCalls s + 1\<rparr>)"
  by (simp add: stopMotorTest_def Let_def hasActiveTest_def)

lemma stopMotorTest_stopped:
  assumes "tokens_inv s" "hasActiveTest s" "\<forall>t\<in>set (motorTasks s). \<not> startsAll (snd t)"
  shows "stopped_inv (stopMotorTest now s)"
proof -
  let ?s = "s\<lparr>motorCalls := motorCalls s + 1, completionArmed := False, sweepToken := sweepToken s + 1\<rparr>"
  have e: "stopMotorTest now s = stopTurn now (motorCalls s) (abortSequences s) True ?s"
    using assms(2) by (rule stopMotorTest_active)
  show ?thesis unfolding stopped_inv_def
  proof (intro ballI)
    fix t assume "t \<in> set (motorTasks (stopMotorTest now s))"
    then have "t \<in> set (motorTasks s) \<or> t = (motorCalls s, Stopping (tl (abortSequences s)) True)"
      using stopTurn_fields(3) [of now "motorCalls s" "abortSequences s" True ?s] unfolding e by auto
    then show "\<not> startsAll (snd t) \<and> (\<forall>token. task_token (snd t) = Some token \<longrightarrow> token < sweepToken (stopMotorTest now s))"
      using assms(1,3) stopTurn_fields(1) [of now "motorCalls s" "abortSequences s" True ?s] unfolding e
      by (auto simp: tokens_inv_def less_Suc_eq_le)
  qed
qed

lemma motor_step_stopped:
  assumes "motor_step s e s'" "stopped_inv s" "\<forall>now env req opts. e \<noteq> Run_test now env req opts"
  shows "stopped_inv s' \<and> (\<exists>aborts. motorSent s' = motorSent s @ aborts \<and> (\<forall>m\<in>set aborts. isAbort m))"
  using assms(1)
proof cases
  case (stop now)
  show ?thesis
  proof (cases "hasActiveTest s")
    case True
    have t: "tokens_inv s" "\<forall>t\<in>set (motorTasks s). \<not> startsAll (snd t)"
      using assms(2) by (auto simp: stopped_inv_def tokens_inv_def)
    show ?thesis
      using stopMotorTest_stopped [OF t(1) True t(2), of now] stopTurn_fields(2) [of now "motorCalls s" "abortSequences s" True
          "s\<lparr>motorCalls := motorCalls s + 1, completionArmed := False, sweepToken := sweepToken s + 1\<rparr>"]
      unfolding stop(2) stopMotorTest_active [OF True] by simp
  next
    case False
    show ?thesis using assms(2) unfolding stop(2) stopMotorTest_idle [OF False] by (simp add: stopped_inv_def)
  qed
next
  case (resume k now ok)
  then show ?thesis using motorResume_stopped [OF assms(2)] by simp
next
  case (completion now)
  then show ?thesis using assms(2) by (simp add: motorCompletion_def Let_def stopped_inv_def)
next
  case reset
  then show ?thesis using assms(2) by (auto simp: motorReset_def stopped_inv_def intro: less_SucI)
qed (use assms(2,3) in \<open>auto simp: stopped_inv_def\<close>)

definition no_new_test :: "motor_event list \<Rightarrow> bool" where
  "no_new_test es \<longleftrightarrow> (\<forall>now env req opts. Run_test now env req opts \<notin> set es)"

lemma motor_run_stopped:
  "motor_run s es s' \<Longrightarrow> stopped_inv s \<Longrightarrow> no_new_test es \<Longrightarrow>
   stopped_inv s' \<and> (\<exists>aborts. motorSent s' = motorSent s @ aborts \<and> (\<forall>m\<in>set aborts. isAbort m))"
proof (induction rule: motor_run.induct)
  case (more s es t e u)
  then obtain as where t: "stopped_inv t" "motorSent t = motorSent s @ as" "\<forall>m\<in>set as. isAbort m"
    by (auto simp: no_new_test_def)
  have "\<forall>now env req opts. e \<noteq> Run_test now env req opts" using more.prems(2) by (auto simp: no_new_test_def)
  from motor_step_stopped [OF more.hyps(2) t(1) this] obtain bs where
    u: "stopped_inv u" "motorSent u = motorSent t @ bs" "\<forall>m\<in>set bs. isAbort m" by blast
  show ?case using t u by (intro conjI exI [of _ "as @ bs"]) auto
qed simp

lemma startTest_tokens:
  "sweepToken s \<le> sweepToken (startTest p c s)"
  "t \<in> set (motorTasks (startTest p c s)) \<Longrightarrow> t \<notin> set (motorTasks s) \<Longrightarrow>
     task_token (snd t) = None \<or> task_token (snd t) = Some (sweepToken (startTest p c s))"
proof -
  have all: "sweepToken (startAll now p c outs s) = sweepToken s" for now outs s by (cases outs) simp_all
  have all': "t \<in> set (motorTasks (startAll now p c outs s')) \<Longrightarrow> t \<notin> set (motorTasks s') \<Longrightarrow> task_token (snd t) = None" for now outs s'
    by (cases outs) auto
  show "sweepToken s \<le> sweepToken (startTest p c s)"
    by (simp add: startTest_def Let_def startSweep_def startOne_def all)
  assume "t \<in> set (motorTasks (startTest p c s))" "t \<notin> set (motorTasks s)"
  then show "task_token (snd t) = None \<or> task_token (snd t) = Some (sweepToken (startTest p c s))"
    using all' [of "ctxNow c" "eligOutputs (ctxEligibility c)" "s\<lparr>activeSequences := []\<rparr>"]
    by (auto simp: startTest_def Let_def startSweep_def startOne_def split: if_splits)
qed

lemma motor_step_tokens:
  assumes "motor_step s e s'" "tokens_inv s"
  shows "tokens_inv s'"
proof -
  have mono: "tokens_inv s'" if "sweepToken s \<le> sweepToken s'"
    and "\<forall>t\<in>set (motorTasks s') - set (motorTasks s). \<forall>token. task_token (snd t) = Some token \<longrightarrow> token \<le> sweepToken s'"
    using that assms(2) unfolding tokens_inv_def by (metis DiffI le_trans)
  show ?thesis using assms(1)
  proof cases
    case (run now env req opts)
    let ?c = "testContext now env req opts s"
    let ?s = "s\<lparr>motorCalls := motorCalls s + 1, motorRuns := motorRuns s @ [?c], motorState := requestedState ?c\<rparr>"
    let ?u = "startTest (motorCalls s) ?c ?s"
    have new: "token \<le> sweepToken ?u"
      if "t \<in> set (motorTasks ?u)" "t \<notin> set (motorTasks s)" "task_token (snd t) = Some token" for t token
      using startTest_tokens(2) [OF that(1)] that(2,3) by auto
    have le: "sweepToken s \<le> sweepToken ?u" using startTest_tokens(1) [of ?s "motorCalls s" ?c] by simp
    show ?thesis
    proof (cases "eligAllowed (ctxEligibility ?c)")
      case True
      then have "s' = ?u" using run(2) by (simp add: runMotorTest_def Let_def)
      then show ?thesis using le new by (intro mono) blast+
    next
      case False
      then show ?thesis using run(2) by (intro mono) (auto simp: runMotorTest_def Let_def)
    qed
  next
    case (stop now)
    let ?s = "s\<lparr>motorCalls := motorCalls s + 1, completionArmed := False, sweepToken := sweepToken s + 1\<rparr>"
    show ?thesis
      using stopTurn_fields(1,3) [of now "motorCalls s" "abortSequences s" True ?s] stop(2)
        stopMotorTest_active [of s now] stopMotorTest_idle [of s now]
      by (cases "hasActiveTest s"; intro mono) auto
  next
    case (resume k now ok)
    obtain p task where t: "motorTasks s ! k = (p, task)" by fastforce
    then have m: "(p, task) \<in> set (motorTasks s)" using resume(3) by (metis nth_mem)
    let ?s = "s\<lparr>motorTasks := take k (motorTasks s) @ drop (k + 1) (motorTasks s)\<rparr>"
    have e: "s' = motorContinue now p ok task ?s" using resume(2) by (simp add: motorResume_def t)
    show ?thesis
    proof (rule mono)
      show "sweepToken s \<le> sweepToken s'" unfolding e by (simp add: motorContinue_tokens(1))
      show "\<forall>t\<in>set (motorTasks s') - set (motorTasks s). \<forall>token. task_token (snd t) = Some token \<longrightarrow> token \<le> sweepToken s'"
      proof (intro ballI allI impI)
        fix t token assume t: "t \<in> set (motorTasks s') - set (motorTasks s)" "task_token (snd t) = Some token"
        then have "t \<notin> set (motorTasks ?s)" using resumed_tasks by fastforce
        then have "task_token task = Some token" using motorContinue_tokens(2) [of t now p ok task ?s] t e by simp
        then show "token \<le> sweepToken s'" using assms(2) m unfolding e by (auto simp: motorContinue_tokens(1) tokens_inv_def)
      qed
    qed
  next
    case (completion now)
    then show ?thesis by (intro mono) (auto simp: motorCompletion_def Let_def)
  next
    case reset
    then show ?thesis by (intro mono) (auto simp: motorReset_def)
  next
    case clear
    then show ?thesis by (intro mono) auto
  qed
qed

lemma motor_run_tokens: "motor_run s es s' \<Longrightarrow> tokens_inv s \<Longrightarrow> tokens_inv s'"
  by (induction rule: motor_run.induct) (auto intro: motor_step_tokens)

lemma tokens_inv_new: "tokens_inv newMotorService"
  by (simp add: tokens_inv_def newMotorService_def)

subsection \<open>A stop aborts every motor it knows of\<close>

text \<open>Call \<open>p\<close> is a stop of the sequences \<open>L\<close>, on its way or done.\<close>

definition aborts_inv :: "nat \<Rightarrow> int list \<Rightarrow> motor_service \<Rightarrow> bool" where
  "aborts_inv p L s \<longleftrightarrow>
     p < motorCalls s
     \<and> (\<forall>t\<in>set (motorTasks s). fst t < motorCalls s)
     \<and> (\<forall>t\<in>set (motorTasks s). fst t = p \<longrightarrow>
          (\<exists>rest ack. snd t = Stopping rest ack \<and> (\<forall>q\<in>set L. q \<in> set rest \<or> abortCommand q \<in> set (motorSent s))))
     \<and> (motorResults s p \<noteq> None \<longrightarrow> (\<forall>q\<in>set L. abortCommand q \<in> set (motorSent s)))"

definition calls_inv :: "motor_service \<Rightarrow> bool" where
  "calls_inv s \<longleftrightarrow> (\<forall>t\<in>set (motorTasks s). fst t < motorCalls s) \<and> (\<forall>p. motorResults s p \<noteq> None \<longrightarrow> p < motorCalls s)"

text \<open>What a step of call \<open>q\<close> does to the calls.\<close>

definition call_step :: "nat \<Rightarrow> motor_service \<Rightarrow> motor_service \<Rightarrow> bool" where
  "call_step q s s' \<longleftrightarrow> motorCalls s \<le> motorCalls s' \<and> set (motorSent s) \<subseteq> set (motorSent s')
     \<and> (\<forall>t\<in>set (motorTasks s'). t \<in> set (motorTasks s) \<or> fst t = q)
     \<and> (\<forall>p. p \<noteq> q \<longrightarrow> motorResults s' p = motorResults s p)"

lemma call_fields [simp]:
  "motorCalls (spin c seq s) = motorCalls s" "motorResults (spin c seq s) = motorResults s"
  "motorCalls (abortMotor seq s) = motorCalls s" "motorResults (abortMotor seq s) = motorResults s"
  "motorCalls (motorAwait p task s) = motorCalls s" "motorResults (motorAwait p task s) = motorResults s"
  "motorCalls (motorReturn p r s) = motorCalls s" "motorResults (motorReturn p r s) = (motorResults s)(p \<mapsto> r)"
  "motorCalls (motorFailed now s) = motorCalls s" "motorResults (motorFailed now s) = motorResults s"
  "motorCalls (runStarted now p s) = motorCalls s" "motorResults (runStarted now p s) = (motorResults s)(p \<mapsto> Run_started)"
  "motorCalls (runFailed now p s) = motorCalls s" "motorResults (runFailed now p s) = (motorResults s)(p \<mapsto> Run_failed)"
  by (simp_all add: spin_def abortMotor_def motorAwait_def motorReturn_def motorFailed_def runStarted_def runFailed_def)

lemma startAll_call: "call_step p s (startAll now p c outs s)"
  by (cases outs) (auto simp: call_step_def)

lemma stopTurn_call: "call_step p s (stopTurn now p rest ack s)"
  by (cases rest) (auto simp: call_step_def)

lemma sweepTurn_call: "call_step p s (sweepTurn p c token ordered sequences k s)"
  by (auto simp: call_step_def sweepTurn_def)

lemma call_step_trans: "call_step p s t \<Longrightarrow> call_step p t u \<Longrightarrow> call_step p s u"
  unfolding call_step_def by fastforce

lemma call_step_same: "motorCalls s' = motorCalls s \<Longrightarrow> motorSent s' = motorSent s \<Longrightarrow> motorTasks s' = motorTasks s \<Longrightarrow>
    (\<And>p. p \<noteq> q \<Longrightarrow> motorResults s' p = motorResults s p) \<Longrightarrow> call_step q s s'"
  by (simp add: call_step_def)

lemma motorContinue_call: "call_step p s (motorContinue now p ok task s)"
proof (cases task)
  case (Starting_sweep c token ordered sequences)
  have "call_step p s (runStarted now p (sweepTurn p c token ordered sequences 1 s))"
    by (rule call_step_trans [OF sweepTurn_call call_step_same]) simp_all
  then show ?thesis using Starting_sweep by (auto intro: call_step_same)
next
  case (Sweep_send c token ordered sequences k)
  have "call_step p s (sweepTurn p c token ordered sequences (k + 1) (s\<lparr>motorState := (motorState s)\<lparr>testUpdatedAt := Some now\<rparr>\<rparr>))"
    by (rule call_step_trans [OF call_step_same sweepTurn_call]) simp_all
  then show ?thesis using Sweep_send by (auto intro: call_step_same)
next
  case (Sweep_pause c token ordered sequences k)
  then show ?thesis by (auto simp: call_step_def)
qed (auto intro: call_step_same simp: startAll_call stopTurn_call)

lemma startTest_call: "call_step p s (startTest p c s)"
proof -
  have "call_step p s (startAll now p c outs (s\<lparr>activeSequences := []\<rparr>))" for now outs
    by (rule call_step_trans [OF call_step_same startAll_call]) simp_all
  then show ?thesis by (auto simp: startTest_def Let_def startSweep_def startOne_def call_step_def)
qed

lemma calls_inv_step: "calls_inv s \<Longrightarrow> call_step q s s' \<Longrightarrow> q < motorCalls s' \<Longrightarrow> calls_inv s'"
  unfolding calls_inv_def call_step_def by (metis order_less_le_trans)

lemma aborts_inv_other:
  assumes "aborts_inv p L s" "call_step q s s'" "q \<noteq> p" "q < motorCalls s'"
  shows "aborts_inv p L s'"
proof -
  have c: "motorCalls s \<le> motorCalls s'" "set (motorSent s) \<subseteq> set (motorSent s')" "motorResults s' p = motorResults s p"
    using assms(2,3) by (auto simp: call_step_def)
  have t: "t \<in> set (motorTasks s) \<or> fst t = q" if "t \<in> set (motorTasks s')" for t
    using assms(2) that by (auto simp: call_step_def)
  have tasks: "\<exists>rest ack. snd t = Stopping rest ack \<and> (\<forall>q\<in>set L. q \<in> set rest \<or> abortCommand q \<in> set (motorSent s'))"
    if new: "t \<in> set (motorTasks s')" "fst t = p" for t
  proof -
    have "t \<in> set (motorTasks s)" using t [OF new(1)] new(2) assms(3) by simp
    then obtain rest ack where "snd t = Stopping rest ack" "\<forall>q\<in>set L. q \<in> set rest \<or> abortCommand q \<in> set (motorSent s)"
      using assms(1) new(2) unfolding aborts_inv_def by blast
    then show ?thesis using c(2) by blast
  qed
  have fresh: "fst t < motorCalls s'" if "t \<in> set (motorTasks s')" for t
    using t [OF that] c(1) assms(1,4) unfolding aborts_inv_def by (auto intro: order_less_le_trans)
  have res: "abortCommand r \<in> set (motorSent s')" if "motorResults s' p \<noteq> None" "r \<in> set L" for r
    using assms(1) c(2,3) that unfolding aborts_inv_def by auto
  have "p < motorCalls s'" using assms(1) c(1) by (simp add: aborts_inv_def)
  then show ?thesis unfolding aborts_inv_def by (intro conjI ballI impI tasks fresh res)
qed

lemma aborts_inv_same:
  assumes "aborts_inv p L s" "motorCalls s' = motorCalls s" "motorSent s' = motorSent s"
    and "set (motorTasks s') \<subseteq> set (motorTasks s)" "motorResults s' p = motorResults s p"
  shows "aborts_inv p L s'"
  using assms(1) subsetD [OF assms(4)] unfolding aborts_inv_def assms(2,3,5) by blast

lemma stopTurn_aborts:
  assumes "aborts_inv p L s" "\<forall>q\<in>set L. q \<in> set rest \<or> abortCommand q \<in> set (motorSent s)"
  shows "aborts_inv p L (stopTurn now p rest ack s)"
proof (cases rest)
  case (Cons q rest')
  have "\<forall>t\<in>set (motorTasks s). fst t = p \<longrightarrow> (\<exists>rest ack. snd t = Stopping rest ack \<and>
      (\<forall>q'\<in>set L. q' \<in> set rest \<or> abortCommand q' = abortCommand q \<or> abortCommand q' \<in> set (motorSent s)))"
    using assms(1) unfolding aborts_inv_def by blast
  then show ?thesis using assms Cons unfolding aborts_inv_def by (auto simp: ball_Un)
qed (use assms in \<open>auto simp: aborts_inv_def\<close>)

lemma motorResume_aborts:
  assumes "aborts_inv p L s" "k < length (motorTasks s)"
  shows "aborts_inv p L (motorResume now k ok s)"
proof -
  obtain q task where t: "motorTasks s ! k = (q, task)" by fastforce
  then have m: "(q, task) \<in> set (motorTasks s)" using assms(2) by (metis nth_mem)
  let ?s = "s\<lparr>motorTasks := take k (motorTasks s) @ drop (k + 1) (motorTasks s)\<rparr>"
  have s: "aborts_inv p L ?s" by (rule aborts_inv_same [OF assms(1)]) (use resumed_tasks [of k "motorTasks s"] in \<open>simp_all del: set_append\<close>)
  have e: "motorResume now k ok s = motorContinue now q ok task ?s" by (simp add: motorResume_def t)
  show ?thesis
  proof (cases "q = p")
    case True
    then obtain rest ack where r: "task = Stopping rest ack"
      "\<forall>q\<in>set L. q \<in> set rest \<or> abortCommand q \<in> set (motorSent s)"
      using assms(1) m unfolding aborts_inv_def by fastforce
    show ?thesis unfolding e True r(1) using stopTurn_aborts [OF s, of rest now "ack \<and> ok"] r(2) by simp
  next
    case False
    have "q < motorCalls s" using assms(1) m unfolding aborts_inv_def by fastforce
    moreover have "motorCalls ?s \<le> motorCalls (motorContinue now q ok task ?s)"
      using motorContinue_call [of q ?s now ok task] by (simp add: call_step_def)
    ultimately have "q < motorCalls (motorContinue now q ok task ?s)" by simp
    from aborts_inv_other [OF s motorContinue_call False this] show ?thesis unfolding e .
  qed
qed

lemma motor_step_aborts:
  assumes "motor_step s e s'" "aborts_inv p L s"
  shows "aborts_inv p L s'"
  using assms(1)
proof cases
  case (run now env req opts)
  let ?c = "testContext now env req opts s"
  let ?s = "s\<lparr>motorCalls := motorCalls s + 1, motorRuns := motorRuns s @ [?c], motorState := requestedState ?c\<rparr>"
  have p: "motorCalls s \<noteq> p" using assms(2) by (simp add: aborts_inv_def)
  have "call_step (motorCalls s) s (startTest (motorCalls s) ?c ?s)"
    by (rule call_step_trans [OF _ startTest_call]) (simp add: call_step_def)
  moreover have "motorCalls s < motorCalls (startTest (motorCalls s) ?c ?s)"
    using startTest_call [of "motorCalls s" ?s ?c] by (simp add: call_step_def)
  ultimately have "aborts_inv p L (startTest (motorCalls s) ?c ?s)" using aborts_inv_other [OF assms(2) _ p] by blast
  moreover have "aborts_inv p L (motorReturn (motorCalls s) r (s\<lparr>motorCalls := motorCalls s + 1\<rparr>))" for r
    by (rule aborts_inv_other [OF assms(2) _ p]) (simp_all add: call_step_def)
  ultimately show ?thesis using run(2) by (simp add: runMotorTest_def Let_def)
next
  case (stop now)
  have p: "motorCalls s \<noteq> p" using assms(2) by (simp add: aborts_inv_def)
  let ?s = "s\<lparr>motorCalls := motorCalls s + 1, completionArmed := False, sweepToken := sweepToken s + 1\<rparr>"
  have "call_step (motorCalls s) s (stopTurn now (motorCalls s) rest True ?s)" for rest
    by (rule call_step_trans [OF _ stopTurn_call]) (simp add: call_step_def)
  moreover have "motorCalls s < motorCalls (stopTurn now (motorCalls s) rest True ?s)" for rest
    using stopTurn_call [of "motorCalls s" ?s now rest True] by (simp add: call_step_def)
  ultimately have "aborts_inv p L (stopTurn now (motorCalls s) rest True ?s)" for rest
    using aborts_inv_other [OF assms(2) _ p] by blast
  moreover have "aborts_inv p L (motorReturn (motorCalls s) r (s\<lparr>motorCalls := motorCalls s + 1\<rparr>))" for r
    by (rule aborts_inv_other [OF assms(2) _ p]) (simp_all add: call_step_def)
  ultimately show ?thesis
    unfolding stop(2) using stopMotorTest_active [of s now] stopMotorTest_idle [of s now] by (cases "hasActiveTest s") simp_all
next
  case (resume k now ok)
  then show ?thesis using motorResume_aborts [OF assms(2)] by simp
next
  case (completion now)
  show ?thesis unfolding completion(2) by (rule aborts_inv_same [OF assms(2)]) (simp_all add: motorCompletion_def Let_def)
next
  case reset
  show ?thesis unfolding reset(2) by (rule aborts_inv_same [OF assms(2)]) (simp_all add: motorReset_def)
next
  case clear
  show ?thesis unfolding clear(2) by (rule aborts_inv_same [OF assms(2)]) simp_all
qed

lemma motor_run_aborts: "motor_run s es s' \<Longrightarrow> aborts_inv p L s \<Longrightarrow> aborts_inv p L s'"
  by (induction rule: motor_run.induct) (auto intro: motor_step_aborts)

lemma motor_step_calls:
  assumes "motor_step s e s'" "calls_inv s"
  shows "calls_inv s'"
  using assms(1)
proof cases
  case (run now env req opts)
  let ?c = "testContext now env req opts s"
  let ?s = "s\<lparr>motorCalls := motorCalls s + 1, motorRuns := motorRuns s @ [?c], motorState := requestedState ?c\<rparr>"
  have "call_step (motorCalls s) s (startTest (motorCalls s) ?c ?s)"
    by (rule call_step_trans [OF _ startTest_call]) (simp add: call_step_def)
  moreover have "motorCalls s < motorCalls (startTest (motorCalls s) ?c ?s)"
    using startTest_call [of "motorCalls s" ?s ?c] by (simp add: call_step_def)
  ultimately have "calls_inv (startTest (motorCalls s) ?c ?s)" using calls_inv_step [OF assms(2)] by blast
  moreover have "calls_inv (motorReturn (motorCalls s) r (s\<lparr>motorCalls := motorCalls s + 1\<rparr>))" for r
    by (rule calls_inv_step [OF assms(2), where q = "motorCalls s"]) (simp_all add: call_step_def)
  ultimately show ?thesis using run(2) by (simp add: runMotorTest_def Let_def)
next
  case (stop now)
  let ?s = "s\<lparr>motorCalls := motorCalls s + 1, completionArmed := False, sweepToken := sweepToken s + 1\<rparr>"
  have "call_step (motorCalls s) s (stopTurn now (motorCalls s) rest True ?s)" for rest
    by (rule call_step_trans [OF _ stopTurn_call]) (simp add: call_step_def)
  moreover have "motorCalls s < motorCalls (stopTurn now (motorCalls s) rest True ?s)" for rest
    using stopTurn_call [of "motorCalls s" ?s now rest True] by (simp add: call_step_def)
  ultimately have "calls_inv (stopTurn now (motorCalls s) rest True ?s)" for rest
    using calls_inv_step [OF assms(2)] by blast
  moreover have "calls_inv (motorReturn (motorCalls s) r (s\<lparr>motorCalls := motorCalls s + 1\<rparr>))" for r
    by (rule calls_inv_step [OF assms(2), where q = "motorCalls s"]) (simp_all add: call_step_def)
  ultimately show ?thesis
    unfolding stop(2) using stopMotorTest_active [of s now] stopMotorTest_idle [of s now] by (cases "hasActiveTest s") simp_all
next
  case (resume k now ok)
  obtain q task where t: "motorTasks s ! k = (q, task)" by fastforce
  then have "(q, task) \<in> set (motorTasks s)" using resume(3) by (metis nth_mem)
  then have q: "q < motorCalls s" using assms(2) unfolding calls_inv_def by fastforce
  let ?s = "s\<lparr>motorTasks := take k (motorTasks s) @ drop (k + 1) (motorTasks s)\<rparr>"
  have s: "calls_inv ?s" using assms(2) by (auto simp: calls_inv_def dest: in_set_takeD in_set_dropD)
  have "motorCalls ?s \<le> motorCalls (motorContinue now q ok task ?s)"
    using motorContinue_call [of q ?s now ok task] by (simp add: call_step_def)
  then show ?thesis using calls_inv_step [OF s motorContinue_call] q resume(2) by (simp add: motorResume_def t)
qed (use assms(2) in \<open>auto simp: calls_inv_def motorCompletion_def motorReset_def Let_def\<close>)

lemma motor_run_calls: "motor_run s es s' \<Longrightarrow> calls_inv s \<Longrightarrow> calls_inv s'"
  by (induction rule: motor_run.induct) (auto intro: motor_step_calls)

lemma calls_inv_new: "calls_inv newMotorService"
  by (simp add: calls_inv_def newMotorService_def)

text \<open>The stop of an active test starts to track the sequences the service knows of.\<close>

lemma stopMotorTest_aborts:
  assumes "calls_inv s" "hasActiveTest s"
  shows "aborts_inv (motorCalls s) (abortSequences s) (stopMotorTest now s)"
proof -
  let ?s = "s\<lparr>motorCalls := motorCalls s + 1, completionArmed := False, sweepToken := sweepToken s + 1\<rparr>"
  have fresh: "fst t \<noteq> motorCalls s" if "t \<in> set (motorTasks s)" for t using assms(1) that by (auto simp: calls_inv_def)
  have none: "motorResults s (motorCalls s) = None" using assms(1) by (auto simp: calls_inv_def)
  have tasks: "\<forall>t\<in>set (motorTasks s). fst t < Suc (motorCalls s)" using assms(1) by (auto simp: calls_inv_def intro: less_SucI)
  have ne: "abortSequences s \<noteq> []" by (simp add: abortSequences_def)
  then obtain q rest where L: "abortSequences s = q # rest" by (cases "abortSequences s") auto
  show ?thesis
    unfolding stopMotorTest_active [OF assms(2)] L
    using fresh none tasks by (auto simp: aborts_inv_def)
qed

end
