(* ===== verification/Motor_Guarantees.thy ===== *)
theory Motor_Guarantees
  imports Motor_Safety
begin

text \<open>
  What the motor test guarantees: a motor is spun only on a request that passed the gate, a stop
  holds, and the number sent for a motor is its own in the frame's testing order.
\<close>

subsection \<open>A bench with one motor\<close>
















subsection \<open>The properties\<close>












text \<open>
  C0 motor_sequence_is_a_permutation: for a frame with a table, the numbers sent for its motors are
  the numbers 1 to n, each for one motor; for a frame without one, for a motor past the table, and
  when the frame parameters are missing, the motor number goes through and is reported as unmapped.
\<close>

theorem motor_sequence_is_a_permutation:
  "(case testOrderTable fc ft of
      Some table \<Rightarrow> bij_betw (\<lambda>m. fst (motorTestSequenceForMotor (Some fc) (Some ft) m)) {1..int (length table)} {1..int (length table)}
        \<and> (\<forall>m. snd (motorTestSequenceForMotor (Some fc) (Some ft) m) = (1 \<le> m \<and> m \<le> int (length table)))
    | None \<Rightarrow> \<forall>m. motorTestSequenceForMotor (Some fc) (Some ft) m = (m, False))
   \<and> (\<forall>m. \<not> snd (motorTestSequenceForMotor a b m) \<longleftrightarrow> motorTestSequenceForMotor a b m = (m, False))"
proof -
  have "bij_betw (\<lambda>m. fst (motorTestSequenceForMotor (Some fc) (Some ft) m)) {1..int (length table)} {1..int (length table)}"
    if table: "testOrderTable fc ft = Some table" for table
  proof -
    note ok = order_ok_permutes [OF testOrderTable_ok [OF table]]
    have e: "fst (motorTestSequenceForMotor (Some fc) (Some ft) m) = table ! nat (m - 1)" if "m \<in> {1..int (length table)}" for m
      using that table by (simp add: motorTestSequenceForMotor_def)
    have "bij_betw ((!) table) {..<length table} (set table)" by (rule bij_betw_nth [OF ok(1) refl refl])
    moreover have "bij_betw (\<lambda>m. nat (m - 1)) {1..int (length table)} {..<length table}"
      by (rule bij_betw_byWitness [where f' = "\<lambda>k. int k + 1"]) auto
    ultimately have "bij_betw ((!) table \<circ> (\<lambda>m. nat (m - 1))) {1..int (length table)} (set table)" by (rule bij_betw_trans [rotated])
    then have "bij_betw ((!) table \<circ> (\<lambda>m. nat (m - 1))) {1..int (length table)} {1..int (length table)}"
      unfolding ok(2) .
    moreover have "bij_betw ((!) table \<circ> (\<lambda>m. nat (m - 1))) {1..int (length table)} {1..int (length table)}
        = bij_betw (\<lambda>m. fst (motorTestSequenceForMotor (Some fc) (Some ft) m)) {1..int (length table)} {1..int (length table)}"
      by (rule bij_betw_cong) (simp add: e)
    ultimately show ?thesis by blast
  qed
  then show ?thesis by (auto simp: motorTestSequenceForMotor_def split: option.splits)
qed

subsection \<open>Where a stop does not hold\<close>

text \<open>
  A start of all motors at once goes on after a stop: its next motor is spun, and when its last
  command is acknowledged the test is running again.
\<close>

lemma simultaneous_start_ignores_stop:
  assumes "motorTasks s ! k = (p, Starting_all c rest)" "k < length (motorTasks s)" "hasActiveTest s"
  shows "rest = out # rest' \<Longrightarrow> motorSent (motorResume now' k True (stopMotorTest now s))
      = motorSent s @ [abortCommand (hd (abortSequences s)), spinCommand c (testSequence c out)]"
    and "rest = [] \<Longrightarrow> testStatus (motorState (motorResume now' k True (stopMotorTest now s))) = Running"
proof -
  obtain q qs where L: "abortSequences s = q # qs" by (cases "abortSequences s") (auto simp: abortSequences_def split: if_splits)
  show "motorSent (motorResume now' k True (stopMotorTest now s))
      = motorSent s @ [abortCommand (hd (abortSequences s)), spinCommand c (testSequence c out)]" if "rest = out # rest'"
    using assms(1,2) that unfolding stopMotorTest_active [OF assms(3)] L by (simp add: motorResume_def nth_append)
  show "testStatus (motorState (motorResume now' k True (stopMotorTest now s))) = Running" if "rest = []"
    using assms(1,2) that unfolding stopMotorTest_active [OF assms(3)] L
    by (simp add: motorResume_def nth_append runStarted_def motorReturn_def)
qed

text \<open>
  The stop of a test of one motor aborts the motor of sequence 1, whichever was spun: only the runs of
  all motors record what they start.
\<close>

lemma single_stop_aborts_first: "abortSequences (startOne p c selected s) = [1]"
  by (simp add: abortSequences_def startOne_def motorAwait_def spin_def)

text \<open>A run of one motor leaves the token, so that a sweep it replaces is not ended by it.\<close>

lemma single_run_keeps_token: "sweepToken (startOne p c selected s) = sweepToken s"
  by (simp add: startOne_def)

end
