(* ===== verification/Node_Transfer.thy ===== *)
theory Node_Transfer
  imports Dronecan_Transfer
begin

unbundle bit_operations_syntax

text \<open>
  The transfer layer of \<open>protocol-mavlink/src/dronecan.ts\<close>, the hand-written DroneCAN codec of the CAN
  tab: identifiers, tail bytes, the reassembler and the frames of an outgoing transfer. It is written
  apart from the bus monitor's decoder in \<open>dronecan-dsdl\<close> (\<open>Dronecan_Transfer\<close>); functions of the same
  name in both carry the suffix \<open>_mav\<close> here. Ids and numbers of nodes, types and transfers are natural
  numbers that the code masks. The text of a map key is the tuple of its parts.
\<close>

subsection \<open>Identifiers\<close>

definition dronecanSourceNodeId :: "32 word \<Rightarrow> nat" where
  "dronecanSourceNodeId canId = unat (canId AND 0x7F)"

definition dronecanIsServiceFrame :: "32 word \<Rightarrow> bool" where
  "dronecanIsServiceFrame canId \<longleftrightarrow> drop_bit 7 canId AND 0x1 = 1"

definition dronecanMessageTypeId :: "32 word \<Rightarrow> nat" where
  "dronecanMessageTypeId canId = unat (drop_bit 8 canId AND 0xFFFF)"

definition dronecanServiceTypeId :: "32 word \<Rightarrow> nat" where
  "dronecanServiceTypeId canId = unat (drop_bit 16 canId AND 0xFF)"

definition dronecanServiceDestinationNodeId :: "32 word \<Rightarrow> nat" where
  "dronecanServiceDestinationNodeId canId = unat (drop_bit 8 canId AND 0x7F)"

definition dronecanIsServiceRequest :: "32 word \<Rightarrow> bool" where
  "dronecanIsServiceRequest canId \<longleftrightarrow> drop_bit 15 canId AND 0x1 = 1"

record tail_byte =
  tailSot :: bool
  tailEot :: bool
  tailToggle :: bool
  tailTransferId :: nat

definition dronecanParseTailByte :: "byte \<Rightarrow> tail_byte" where
  "dronecanParseTailByte t =
     \<lparr>tailSot = (t AND 0x80 \<noteq> 0), tailEot = (t AND 0x40 \<noteq> 0), tailToggle = (t AND 0x20 \<noteq> 0),
      tailTransferId = unat (t AND 0x1F)\<rparr>"

definition dronecanComposeTailByte :: "tail_byte \<Rightarrow> byte" where
  "dronecanComposeTailByte t =
     (if tailSot t then 0x80 else 0) OR (if tailEot t then 0x40 else 0)
     OR (if tailToggle t then 0x20 else 0) OR (of_nat (tailTransferId t) AND 0x1F)"

definition dronecanEncodeMessageCanId :: "nat \<Rightarrow> nat \<Rightarrow> nat \<Rightarrow> 32 word" where
  "dronecanEncodeMessageCanId priority messageTypeId sourceNodeId =
     push_bit 24 (of_nat priority AND 0x1F) OR push_bit 8 (of_nat messageTypeId AND 0xFFFF)
     OR (of_nat sourceNodeId AND 0x7F)"

definition dronecanEncodeServiceCanId :: "nat \<Rightarrow> nat \<Rightarrow> bool \<Rightarrow> nat \<Rightarrow> nat \<Rightarrow> 32 word" where
  "dronecanEncodeServiceCanId priority serviceTypeId isRequest destinationNodeId sourceNodeId =
     push_bit 24 (of_nat priority AND 0x1F) OR push_bit 16 (of_nat serviceTypeId AND 0xFF)
     OR push_bit 15 (if isRequest then 1 else 0) OR push_bit 8 (of_nat destinationNodeId AND 0x7F)
     OR 0x80 OR (of_nat sourceNodeId AND 0x7F)"

subsection \<open>Checksum\<close>

definition crc16Bit_mav :: "16 word \<Rightarrow> 16 word" where
  "crc16Bit_mav crc = (if crc AND 0x8000 \<noteq> 0 then push_bit 1 crc XOR 0x1021 else push_bit 1 crc)"

definition crc16Byte_mav :: "byte \<Rightarrow> 16 word \<Rightarrow> 16 word" where
  "crc16Byte_mav b crc = fold (\<lambda>_. crc16Bit_mav) [0..<8] (crc XOR push_bit 8 (ucast b))"

definition dronecanCrc16_mav :: "bytes \<Rightarrow> 16 word \<Rightarrow> 16 word" where
  "dronecanCrc16_mav bs initial = fold crc16Byte_mav bs initial"

definition dronecanCrcWithSignature :: "nat \<Rightarrow> bytes \<Rightarrow> 16 word" where
  "dronecanCrcWithSignature signatureLe payload =
     (let sig = map (\<lambda>i. of_nat (signatureLe div 2 ^ (8 * i) mod 256)) [0..<8];
          crc = dronecanCrc16_mav sig 0xFFFF
      in dronecanCrc16_mav payload crc)"

subsection \<open>Reassembly\<close>

record node_partial =
  pieces :: bytes
  toggleExpected :: bool
  framesSeen :: nat

text \<open>\<open>isRequest\<close> is undefined for a broadcast.\<close>

record transfer_context =
  ctxSource :: nat
  ctxService :: bool
  ctxType :: nat
  ctxRequest :: "bool option"
  ctxTransferId :: nat

definition MAX_REASSEMBLY_BYTES :: nat where
  "MAX_REASSEMBLY_BYTES = 1024"

type_synonym pending_key = "nat \<times> bool \<times> nat \<times> bool \<times> nat"

type_synonym pending_map = "pending_key \<rightharpoonup> node_partial"

definition keyFor :: "transfer_context \<Rightarrow> pending_key" where
  "keyFor c = (ctxSource c, ctxService c, ctxType c, ctxRequest c = Some True, ctxTransferId c)"

text \<open>\<open>push\<close> returns \<open>undefined\<close>, with or without a call of \<open>onCrcError\<close>, or a transfer.\<close>

datatype node_push_result = Unfinished | Crc_error transfer_context | Finished transfer_context bytes

definition finalizeTransfer ::
  "(transfer_context \<Rightarrow> nat option) \<Rightarrow> transfer_context \<Rightarrow> bytes \<Rightarrow> node_push_result" where
  "finalizeTransfer getDataTypeSignature context ps =
     (if length ps < 2 then Crc_error context
      else
        (let crcReceived = ucast (ps ! 0) OR push_bit 8 (ucast (ps ! 1)) :: 16 word;
             payload = drop 2 ps
         in case getDataTypeSignature context of
              Some sig \<Rightarrow>
                if dronecanCrcWithSignature sig payload \<noteq> crcReceived then Crc_error context
                else Finished context payload
            | None \<Rightarrow> Finished context payload))"

definition reassemblerPush ::
  "(transfer_context \<Rightarrow> nat option) \<Rightarrow> transfer_context \<Rightarrow> bytes \<Rightarrow> pending_map \<Rightarrow> pending_map \<times> node_push_result" where
  "reassemblerPush getDataTypeSignature context framePayload pending =
     (if framePayload = [] then (pending, Unfinished)
      else
        (let t = dronecanParseTailByte (last framePayload);
             dataBytes = butlast framePayload
         in if tailSot t \<and> tailEot t then (pending, Finished context dataBytes)
            else
              (let key = keyFor context
               in if tailSot t then
                    (pending(key \<mapsto> \<lparr>pieces = dataBytes, toggleExpected = True, framesSeen = 1\<rparr>), Unfinished)
                  else
                    (case pending key of
                       None \<Rightarrow> (pending, Unfinished)
                     | Some p \<Rightarrow>
                         if tailToggle t \<noteq> toggleExpected p then (pending(key := None), Unfinished)
                         else
                           (let p = p\<lparr>pieces := pieces p @ dataBytes, toggleExpected := \<not> toggleExpected p,
                                  framesSeen := framesSeen p + 1\<rparr>
                            in if length (pieces p) > MAX_REASSEMBLY_BYTES then
                                 (pending(key := None), Crc_error context)
                               else if \<not> tailEot t then (pending(key \<mapsto> p), Unfinished)
                               else (pending(key := None),
                                     finalizeTransfer getDataTypeSignature context (pieces p)))))))"

definition forgetNode :: "nat \<Rightarrow> pending_map \<Rightarrow> pending_map" where
  "forgetNode nodeId pending = (\<lambda>key. if fst key = nodeId then None else pending key)"

subsection \<open>Outgoing frames\<close>

text \<open>The loop over \<open>withCrc\<close>; the list is what \<open>cursor\<close> has not passed.\<close>

function transferChunks :: "nat \<Rightarrow> bool \<Rightarrow> bool \<Rightarrow> bytes \<Rightarrow> bytes list" where
  "transferChunks transferId sot toggle rest =
     (if rest = [] then []
      else
        (let chunk = min 7 (length rest);
             isEot = (chunk = length rest)
         in (take chunk rest @ [dronecanComposeTailByte \<lparr>tailSot = sot, tailEot = isEot, tailToggle = toggle,
               tailTransferId = transferId\<rparr>])
            # transferChunks transferId False (\<not> toggle) (drop chunk rest)))"
  by auto
termination by (relation "measure (\<lambda>(_, _, _, rest). length rest)") auto

declare transferChunks.simps [simp del]

definition buildFrames :: "nat \<Rightarrow> nat \<Rightarrow> bytes \<Rightarrow> bytes list" where
  "buildFrames sig transferId payload =
     (let transferId = unat (of_nat transferId AND 0x1F :: 32 word)
      in if length payload \<le> 7 then
           [payload @ [dronecanComposeTailByte \<lparr>tailSot = True, tailEot = True, tailToggle = False,
              tailTransferId = transferId\<rparr>]]
         else
           (let crc = dronecanCrcWithSignature sig payload;
                withCrc = ucast (crc AND 0xFF) # ucast (drop_bit 8 crc AND 0xFF) # payload
            in transferChunks transferId True False withCrc))"

record service_call_parts =
  callServiceTypeId :: nat
  callSignature :: nat
  callDestination :: nat
  callSource :: nat
  callTransferId :: nat
  callPriority :: "nat option"
  callIsRequest :: "bool option"

definition orElse :: "'a option \<Rightarrow> 'a \<Rightarrow> 'a" where
  "orElse x d = (case x of None \<Rightarrow> d | Some v \<Rightarrow> v)"

definition dronecanBuildServiceFrames :: "service_call_parts \<Rightarrow> bytes \<Rightarrow> (32 word \<times> bytes) list" where
  "dronecanBuildServiceFrames parts payload =
     (let canId = dronecanEncodeServiceCanId (orElse (callPriority parts) 16) (callServiceTypeId parts)
            (orElse (callIsRequest parts) True) (callDestination parts) (callSource parts)
      in map (Pair canId) (buildFrames (callSignature parts) (callTransferId parts) payload))"

record broadcast_parts =
  castMessageTypeId :: nat
  castSignature :: nat
  castSource :: nat
  castTransferId :: nat
  castPriority :: "nat option"

definition dronecanBuildBroadcastFrames :: "broadcast_parts \<Rightarrow> bytes \<Rightarrow> (32 word \<times> bytes) list" where
  "dronecanBuildBroadcastFrames parts payload =
     (let canId = dronecanEncodeMessageCanId (orElse (castPriority parts) 16) (castMessageTypeId parts)
            (castSource parts)
      in map (Pair canId) (buildFrames (castSignature parts) (castTransferId parts) payload))"

end
