(* ===== verification/Node_Reassembly.thy ===== *)
theory Node_Reassembly
  imports Node_Transfer
begin

unbundle bit_operations_syntax

text \<open>
  What the transfer layer of the CAN tab does with the frames it is given: tail bytes and ids are read
  back, a transfer split by \<open>dronecanBuildServiceFrames\<close> is put together again among the frames of
  other transfers, and unfinished transfers stay bounded.
\<close>

subsection \<open>Tail bytes\<close>

lemma mask_bits_mav:
  "bit (0x1F :: 'a::len word) n \<longleftrightarrow> n < LENGTH('a) \<and> n < 5"
  "bit (0x7F :: 'a word) n \<longleftrightarrow> n < LENGTH('a) \<and> n < 7"
  "bit (0xFF :: 'a word) n \<longleftrightarrow> n < LENGTH('a) \<and> n < 8"
  "bit (0xFFFF :: 'a word) n \<longleftrightarrow> n < LENGTH('a) \<and> n < 16"
proof -
  have e: "(0x1F :: 'a word) = mask 5" "(0x7F :: 'a word) = mask 7" "(0xFF :: 'a word) = mask 8"
    "(0xFFFF :: 'a word) = mask 16"
    by (simp_all add: mask_eq_exp_minus_1)
  show "bit (0x1F :: 'a word) n \<longleftrightarrow> n < LENGTH('a) \<and> n < 5"
    "bit (0x7F :: 'a word) n \<longleftrightarrow> n < LENGTH('a) \<and> n < 7"
    "bit (0xFF :: 'a word) n \<longleftrightarrow> n < LENGTH('a) \<and> n < 8"
    "bit (0xFFFF :: 'a word) n \<longleftrightarrow> n < LENGTH('a) \<and> n < 16"
    unfolding e bit_mask_iff possible_bit_word by auto
qed

lemma flags_mav:
  "t AND 0x80 \<noteq> 0 \<longleftrightarrow> bit t 7" "t AND 0x40 \<noteq> 0 \<longleftrightarrow> bit t 6" "t AND 0x20 \<noteq> 0 \<longleftrightarrow> bit t 5" for t :: byte
  using and_exp_eq_0_iff_not_bit [of t 7] and_exp_eq_0_iff_not_bit [of t 6] and_exp_eq_0_iff_not_bit [of t 5]
  by simp_all

lemma tail_bits:
  "bit (0x80 :: byte) n \<longleftrightarrow> n = 7" "bit (0x40 :: byte) n \<longleftrightarrow> n = 6" "bit (0x20 :: byte) n \<longleftrightarrow> n = 5"
proof -
  have e: "(0x80 :: byte) = push_bit 7 1" "(0x40 :: byte) = push_bit 6 1" "(0x20 :: byte) = push_bit 5 1" by simp_all
  show "bit (0x80 :: byte) n \<longleftrightarrow> n = 7" "bit (0x40 :: byte) n \<longleftrightarrow> n = 6" "bit (0x20 :: byte) n \<longleftrightarrow> n = 5"
    unfolding e bit_push_bit_iff bit_1_iff by auto
qed

lemma composed_bits:
  "bit (dronecanComposeTailByte t) n \<longleftrightarrow>
     (n = 7 \<and> tailSot t) \<or> (n = 6 \<and> tailEot t) \<or> (n = 5 \<and> tailToggle t) \<or> (n < 5 \<and> bit (tailTransferId t) n)"
proof -
  have f: "bit (if b then w else 0) n \<longleftrightarrow> b \<and> bit w n" for b and w :: byte by simp
  have m: "bit (of_nat (tailTransferId t) AND 0x1F :: byte) n \<longleftrightarrow> n < 5 \<and> bit (tailTransferId t) n"
    unfolding bit_and_iff mask_bits_mav bit_of_nat_iff possible_bit_word by auto
  show ?thesis unfolding dronecanComposeTailByte_def bit_or_iff f m tail_bits by (simp only: disj_assoc conj_commute)
qed

lemma parse_compose_tail:
  assumes "tailTransferId t < 32"
  shows "dronecanParseTailByte (dronecanComposeTailByte t) = t"
proof -
  have "unat (dronecanComposeTailByte t AND 0x1F) = take_bit 5 (tailTransferId t)"
    by (rule bit_eqI) (unfold bit_unsigned_iff bit_and_iff composed_bits mask_bits_mav bit_take_bit_iff, auto)
  also have "\<dots> = tailTransferId t" using assms by (simp add: take_bit_nat_eq_self)
  finally have "unat (dronecanComposeTailByte t AND 0x1F) = tailTransferId t" .
  then show ?thesis by (simp add: dronecanParseTailByte_def flags_mav composed_bits)
qed

subsection \<open>Identifiers\<close>

lemma id_bits:
  "bit (0x80 :: 32 word) n \<longleftrightarrow> n = 7"
proof -
  have e: "(0x80 :: 32 word) = push_bit 7 1" by simp
  show ?thesis unfolding e bit_push_bit_iff bit_1_iff by auto
qed

lemma and_one_bit: "drop_bit n w AND 1 = 1 \<longleftrightarrow> bit w n" for w :: "32 word"
proof -
  have "(v AND 1 = 1) = odd v" for v :: "32 word" unfolding and_one_eq odd_iff_mod_2_eq_one ..
  then show ?thesis unfolding bit_iff_odd_drop_bit .
qed

lemmas id_reads = dronecanSourceNodeId_def dronecanIsServiceFrame_def dronecanMessageTypeId_def
  dronecanServiceTypeId_def dronecanServiceDestinationNodeId_def dronecanIsServiceRequest_def

lemma masked_nat: "take_bit n m = m" if "m < 2 ^ n" for m :: nat
  using that by (simp add: take_bit_nat_eq_self)

lemma read_field:
  assumes "m < 2 ^ n" "\<And>i. bit w i \<longleftrightarrow> i < n \<and> bit m i"
  shows "unat (w :: 32 word) = m"
proof (rule bit_eqI)
  fix i
  have "bit m i \<longleftrightarrow> i < n \<and> bit m i" using masked_nat [OF assms(1)] by (metis bit_take_bit_iff)
  then show "bit (unat w) i \<longleftrightarrow> bit m i" using assms(2) by (simp add: bit_unsigned_iff)
qed

lemmas field_bits = bit_drop_bit_eq bit_and_iff mask_bits_mav o_apply

lemma pushed_field:
  assumes "k + w \<le> 32" "\<And>i. bit mk i \<longleftrightarrow> i < LENGTH(32) \<and> i < w"
  shows "bit (push_bit k (of_nat m AND mk) :: 32 word) n \<longleftrightarrow> k \<le> n \<and> n < k + w \<and> bit m (n - k)"
proof -
  have "k \<le> n \<Longrightarrow> (n - k < w) = (n < k + w)" by linarith
  then show ?thesis unfolding bit_push_bit_iff bit_and_iff assms(2) bit_of_nat_iff possible_bit_word
    using assms(1) by auto
qed

lemma low_field:
  "bit (of_nat m AND 0x7F :: 32 word) n \<longleftrightarrow> n < 7 \<and> bit m n"
  unfolding bit_and_iff mask_bits_mav bit_of_nat_iff possible_bit_word by auto

lemma flag_field: "bit (push_bit 15 (if b then 1 else 0) :: 32 word) n \<longleftrightarrow> n = 15 \<and> b"
  unfolding bit_push_bit_iff if_distrib [where f = "\<lambda>w. bit w m" for m] bit_1_iff by (cases b) auto

lemmas pushed_fields = pushed_field [where w = 5, OF _ mask_bits_mav(1)] pushed_field [where w = 7, OF _ mask_bits_mav(2)]
  pushed_field [where w = 8, OF _ mask_bits_mav(3)] pushed_field [where w = 16, OF _ mask_bits_mav(4)]

lemma service_id_bits:
  "bit (dronecanEncodeServiceCanId priority serviceTypeId isRequest dest source) n \<longleftrightarrow>
     (24 \<le> n \<and> n < 29 \<and> bit priority (n - 24)) \<or> (16 \<le> n \<and> n < 24 \<and> bit serviceTypeId (n - 16))
     \<or> (n = 15 \<and> isRequest) \<or> (8 \<le> n \<and> n < 15 \<and> bit dest (n - 8)) \<or> n = 7 \<or> (n < 7 \<and> bit source n)"
proof -
  have f: "bit (push_bit 24 (of_nat priority AND 0x1F) :: 32 word) n \<longleftrightarrow> 24 \<le> n \<and> n < 29 \<and> bit priority (n - 24)"
    "bit (push_bit 16 (of_nat serviceTypeId AND 0xFF) :: 32 word) n \<longleftrightarrow> 16 \<le> n \<and> n < 24 \<and> bit serviceTypeId (n - 16)"
    "bit (push_bit 8 (of_nat dest AND 0x7F) :: 32 word) n \<longleftrightarrow> 8 \<le> n \<and> n < 15 \<and> bit dest (n - 8)"
    by (subst pushed_fields, simp, simp)+
  show ?thesis unfolding dronecanEncodeServiceCanId_def bit_or_iff f low_field flag_field id_bits by blast
qed

lemma message_id_bits:
  "bit (dronecanEncodeMessageCanId priority messageTypeId source) n \<longleftrightarrow>
     (24 \<le> n \<and> n < 29 \<and> bit priority (n - 24)) \<or> (8 \<le> n \<and> n < 24 \<and> bit messageTypeId (n - 8))
     \<or> (n < 7 \<and> bit source n)"
proof -
  have f: "bit (push_bit 24 (of_nat priority AND 0x1F) :: 32 word) n \<longleftrightarrow> 24 \<le> n \<and> n < 29 \<and> bit priority (n - 24)"
    "bit (push_bit 8 (of_nat messageTypeId AND 0xFFFF) :: 32 word) n \<longleftrightarrow> 8 \<le> n \<and> n < 24 \<and> bit messageTypeId (n - 8)"
    by (subst pushed_fields, simp, simp)+
  show ?thesis unfolding dronecanEncodeMessageCanId_def bit_or_iff f low_field by blast
qed

lemma service_id_reads:
  fixes isRequest priority
  assumes "serviceTypeId < 256" "dest < 128" "source < 128"
  defines "i \<equiv> dronecanEncodeServiceCanId priority serviceTypeId isRequest dest source"
  shows "dronecanIsServiceFrame i" "dronecanServiceTypeId i = serviceTypeId"
    "dronecanServiceDestinationNodeId i = dest" "dronecanSourceNodeId i = source"
    "dronecanIsServiceRequest i = isRequest"
proof -
  note b = service_id_bits [of priority serviceTypeId isRequest dest source, folded i_def]
  show "dronecanIsServiceFrame i" "dronecanIsServiceRequest i = isRequest"
    unfolding id_reads and_one_bit b by auto
  show "dronecanServiceTypeId i = serviceTypeId" unfolding id_reads
    by (rule read_field [where n = 8]) (use assms(1) in \<open>simp, unfold field_bits b, auto\<close>)
  show "dronecanServiceDestinationNodeId i = dest" unfolding id_reads
    by (rule read_field [where n = 7]) (use assms(2) in \<open>simp, unfold field_bits b, auto\<close>)
  show "dronecanSourceNodeId i = source" unfolding id_reads
    by (rule read_field [where n = 7]) (use assms(3) in \<open>simp, unfold field_bits b, auto\<close>)
qed

lemma message_id_reads:
  fixes priority
  assumes "messageTypeId < 65536" "source < 128"
  defines "i \<equiv> dronecanEncodeMessageCanId priority messageTypeId source"
  shows "\<not> dronecanIsServiceFrame i" "dronecanMessageTypeId i = messageTypeId" "dronecanSourceNodeId i = source"
proof -
  note b = message_id_bits [of priority messageTypeId source, folded i_def]
  show "\<not> dronecanIsServiceFrame i" unfolding id_reads and_one_bit b by auto
  show "dronecanMessageTypeId i = messageTypeId" unfolding id_reads
    by (rule read_field [where n = 16]) (use assms(1) in \<open>simp, unfold field_bits b, auto\<close>)
  show "dronecanSourceNodeId i = source" unfolding id_reads
    by (rule read_field [where n = 7]) (use assms(2) in \<open>simp, unfold field_bits b, auto\<close>)
qed

subsection \<open>Checksum\<close>

lemma fold_const_funpow: "fold (\<lambda>_. f) xs = f ^^ length xs"
  by (induction xs) (simp_all add: funpow_Suc_right [symmetric] del: funpow.simps)

lemma crc_mav: "dronecanCrcWithSignature sig payload = dronecanTransferCrc sig payload"
proof -
  have b: "crc16Bit_mav = crc16Bit" unfolding fun_eq_iff crc16Bit_mav_def crc16Bit_def by simp
  then have "crc16Byte_mav = crc16Byte" unfolding fun_eq_iff crc16Byte_mav_def crc16Byte_def fold_const_funpow b by simp
  then show ?thesis
    by (simp add: dronecanCrcWithSignature_def dronecanTransferCrc_def dronecanCrc16_mav_def dronecanCrc16_def
        signatureBytes_def)
qed

subsection \<open>Reassembly\<close>

type_synonym node_frames = "(transfer_context \<times> bytes) list"

text \<open>Feeding frames in order, with the result of each.\<close>

fun pushEach :: "(transfer_context \<Rightarrow> nat option) \<Rightarrow> node_frames \<Rightarrow> pending_map
    \<Rightarrow> pending_map \<times> (transfer_context \<times> node_push_result) list" where
  "pushEach sigs [] ps = (ps, [])"
| "pushEach sigs ((c, f) # fs) ps =
     (let (ps, r) = reassemblerPush sigs c f ps; (ps, rs) = pushEach sigs fs ps in (ps, (c, r) # rs))"

definition resultsOf :: "pending_key \<Rightarrow> (transfer_context \<times> node_push_result) list \<Rightarrow> node_push_result list" where
  "resultsOf k rs = map snd (filter (\<lambda>(c, r). keyFor c = k) rs)"

lemma pushEach_Cons:
  "snd (pushEach sigs ((c, f) # fs) ps)
     = (c, snd (reassemblerPush sigs c f ps)) # snd (pushEach sigs fs (fst (reassemblerPush sigs c f ps)))"
  by (simp split: prod.split)

lemma fst_pushEach_Cons:
  "fst (pushEach sigs ((c, f) # fs) ps) = fst (pushEach sigs fs (fst (reassemblerPush sigs c f ps)))"
  by (simp split: prod.split)

lemma resultsOf_Cons: "resultsOf k ((c, r) # rs) = (if keyFor c = k then r # resultsOf k rs else resultsOf k rs)"
  by (simp add: resultsOf_def)

lemma resultsOf_none:
  "filter (\<lambda>(c, f). keyFor c = k) fs = [] \<Longrightarrow> resultsOf k (snd (pushEach sigs fs ps)) = []"
proof (induction fs arbitrary: ps)
  case (Cons e fs)
  obtain c f where e: "e = (c, f)" by force
  then have "keyFor c \<noteq> k" "filter (\<lambda>(c, f). keyFor c = k) fs = []" using Cons.prems by (auto split: if_splits)
  then show ?case using Cons.IH by (simp only: e pushEach_Cons resultsOf_Cons if_False)
qed (simp add: resultsOf_def)

lemma push_other_key:
  "keyFor c \<noteq> k \<Longrightarrow> fst (reassemblerPush sigs c f ps) k = ps k"
  by (simp add: reassemblerPush_def Let_def split: option.split)

text \<open>The frames of one transfer among the frames of others.\<close>

definition frames_of :: "transfer_context \<Rightarrow> node_frames \<Rightarrow> bytes list \<Rightarrow> bool" where
  "frames_of c fs own \<longleftrightarrow> filter (\<lambda>(d, f). keyFor d = keyFor c) fs = map (Pair c) own"

lemma frames_of_Cons:
  assumes "frames_of c ((d, f) # fs) own"
  shows "(keyFor d \<noteq> keyFor c \<and> frames_of c fs own)
    \<or> (d = c \<and> (\<exists>own'. own = f # own' \<and> frames_of c fs own'))"
  using assms by (cases own) (auto simp: frames_of_def split: if_splits)

lemma chunk_tail:
  assumes "tid < 32" "rest \<noteq> []"
  shows "transferChunks tid sot tg rest =
    (take 7 rest @ [dronecanComposeTailByte \<lparr>tailSot = sot, tailEot = (length rest \<le> 7), tailToggle = tg,
       tailTransferId = tid\<rparr>]) # transferChunks tid False (\<not> tg) (drop 7 rest)"
  using assms(2) by (subst transferChunks.simps) (auto simp: Let_def min_def)

lemma transferChunks_Nil [simp]: "transferChunks tid sot tg [] = []"
  by (subst transferChunks.simps) simp

lemma push_middle:
  assumes "tid < 32" "ps (keyFor c) = Some p" "toggleExpected p = tg"
    and "length (pieces p) + length bs \<le> MAX_REASSEMBLY_BYTES"
  shows "reassemblerPush sigs c (bs @ [dronecanComposeTailByte \<lparr>tailSot = False, tailEot = eot,
      tailToggle = tg, tailTransferId = tid\<rparr>]) ps =
    (if eot then (ps(keyFor c := None), finalizeTransfer sigs c (pieces p @ bs))
     else (ps(keyFor c \<mapsto> p\<lparr>pieces := pieces p @ bs, toggleExpected := \<not> tg, framesSeen := framesSeen p + 1\<rparr>),
       Unfinished))"
  using assms by (simp add: reassemblerPush_def parse_compose_tail Let_def)

lemma rest_pieces:
  assumes "tid < 32" "ps (keyFor c) = Some p" "toggleExpected p = tg"
    and "bs \<noteq> []" "length (pieces p) + length bs \<le> MAX_REASSEMBLY_BYTES"
    and "frames_of c fs (transferChunks tid False tg bs)"
  shows "resultsOf (keyFor c) (snd (pushEach sigs fs ps))
      = replicate (length (transferChunks tid False tg bs) - 1) Unfinished
        @ [finalizeTransfer sigs c (pieces p @ bs)]"
  using assms(2-6)
proof (induction fs arbitrary: ps p tg bs)
  case Nil
  then show ?case using chunk_tail [OF assms(1) Nil.prems(3)] by (simp add: frames_of_def)
next
  case (Cons e fs)
  obtain d f where e: "e = (d, f)" by force
  note split = frames_of_Cons [OF Cons.prems(5) [unfolded e]]
  let ?ps = "fst (reassemblerPush sigs d f ps)"
  show ?case
  proof (cases "keyFor d = keyFor c")
    case False
    then have "?ps (keyFor c) = Some p" "frames_of c fs (transferChunks tid False tg bs)"
      using Cons.prems(1) split by (auto simp: push_other_key)
    then show ?thesis using Cons.IH Cons.prems(2-4) False
      by (simp only: e pushEach_Cons resultsOf_Cons if_False)
  next
    case True
    let ?tail = "dronecanComposeTailByte \<lparr>tailSot = False, tailEot = (length bs \<le> 7), tailToggle = tg, tailTransferId = tid\<rparr>"
    have d: "d = c" "f = take 7 bs @ [?tail]" "frames_of c fs (transferChunks tid False (\<not> tg) (drop 7 bs))"
      using split True unfolding chunk_tail [OF assms(1) Cons.prems(3)] by auto
    have len: "length (pieces p) + length (take 7 bs) \<le> MAX_REASSEMBLY_BYTES" using Cons.prems(4) by simp
    note push = push_middle [where bs = "take 7 bs" and c = c and ps = ps and sigs = sigs and eot = "length bs \<le> 7",
        OF assms(1) Cons.prems(1,2) len, folded d(2)]
    show ?thesis
    proof (cases "length bs \<le> 7")
      case last: True
      then have "resultsOf (keyFor c) (snd (pushEach sigs fs ?ps)) = []"
        using d(3) by (intro resultsOf_none) (simp add: frames_of_def)
      then show ?thesis using last d(1) push chunk_tail [OF assms(1) Cons.prems(3)]
        by (simp only: e pushEach_Cons resultsOf_Cons if_True) simp
    next
      case more: False
      let ?p = "p\<lparr>pieces := pieces p @ take 7 bs, toggleExpected := \<not> tg, framesSeen := framesSeen p + 1\<rparr>"
      have s: "?ps (keyFor c) = Some ?p" "snd (reassemblerPush sigs d f ps) = Unfinished"
        using push more d(1) by simp_all
      have "resultsOf (keyFor c) (snd (pushEach sigs fs ?ps))
          = replicate (length (transferChunks tid False (\<not> tg) (drop 7 bs)) - 1) Unfinished
            @ [finalizeTransfer sigs c (pieces ?p @ drop 7 bs)]"
        using Cons.prems(4) more d(3) s(1) by (intro Cons.IH) simp_all
      moreover have "transferChunks tid False (\<not> tg) (drop 7 bs) \<noteq> []"
        using more chunk_tail [OF assms(1), of "drop 7 bs"] by simp
      then obtain n where "length (transferChunks tid False (\<not> tg) (drop 7 bs)) = Suc n"
        by (cases "transferChunks tid False (\<not> tg) (drop 7 bs)") auto
      ultimately show ?thesis using d(1) s(2) more chunk_tail [OF assms(1) Cons.prems(3)]
        by (simp only: e pushEach_Cons resultsOf_Cons if_True) simp
    qed
  qed
qed

lemma push_first:
  assumes "tid < 32"
  shows "reassemblerPush sigs c (bs @ [dronecanComposeTailByte \<lparr>tailSot = True, tailEot = False,
      tailToggle = tg, tailTransferId = tid\<rparr>]) ps
    = (ps(keyFor c \<mapsto> \<lparr>pieces = bs, toggleExpected = True, framesSeen = 1\<rparr>), Unfinished)"
  using assms by (simp add: reassemblerPush_def parse_compose_tail Let_def)

text \<open>A transfer of several frames, put together from whatever state.\<close>

lemma whole_pieces:
  assumes "tid < 32" "7 < length bs" "length bs \<le> MAX_REASSEMBLY_BYTES"
    and "frames_of c fs (transferChunks tid True False bs)"
  shows "resultsOf (keyFor c) (snd (pushEach sigs fs ps))
      = replicate (length (transferChunks tid True False bs) - 1) Unfinished @ [finalizeTransfer sigs c bs]"
  using assms(4)
proof (induction fs arbitrary: ps)
  case Nil
  have "bs \<noteq> []" using assms(2) by auto
  then show ?case using Nil chunk_tail [OF assms(1)] by (simp add: frames_of_def)
next
  case (Cons e fs)
  obtain d f where e: "e = (d, f)" by force
  have ne: "bs \<noteq> []" "drop 7 bs \<noteq> []" "\<not> length bs \<le> 7" using assms(2) by auto
  note own = chunk_tail [OF assms(1) ne(1), of True False] and split = frames_of_Cons [OF Cons.prems [unfolded e]]
  let ?ps = "fst (reassemblerPush sigs d f ps)"
  show ?case
  proof (cases "keyFor d = keyFor c")
    case False
    then have "frames_of c fs (transferChunks tid True False bs)" using split by auto
    then show ?thesis using Cons.IH False by (simp only: e pushEach_Cons resultsOf_Cons if_False)
  next
    case True
    let ?tail = "dronecanComposeTailByte \<lparr>tailSot = True, tailEot = False, tailToggle = False, tailTransferId = tid\<rparr>"
    let ?p = "\<lparr>pieces = take 7 bs, toggleExpected = True, framesSeen = 1\<rparr>"
    have d: "d = c" "f = take 7 bs @ [?tail]" "frames_of c fs (transferChunks tid False True (drop 7 bs))"
      using split True ne(3) unfolding own by auto
    then have s: "?ps (keyFor c) = Some ?p" "snd (reassemblerPush sigs d f ps) = Unfinished"
      using push_first [OF assms(1)] by simp_all
    have "resultsOf (keyFor c) (snd (pushEach sigs fs ?ps))
        = replicate (length (transferChunks tid False True (drop 7 bs)) - 1) Unfinished
          @ [finalizeTransfer sigs c (pieces ?p @ drop 7 bs)]"
      using ne(2) assms(3) d(3) s(1) by (intro rest_pieces [OF assms(1)]) simp_all
    moreover obtain n where "length (transferChunks tid False True (drop 7 bs)) = Suc n"
      using chunk_tail [OF assms(1) ne(2), of False True] by simp
    ultimately show ?thesis using d(1) s(2) own
      by (simp only: e pushEach_Cons resultsOf_Cons if_True) simp
  qed
qed

lemma push_single_frame:
  assumes "tid < 32"
  shows "reassemblerPush sigs c (bs @ [dronecanComposeTailByte \<lparr>tailSot = True, tailEot = True,
      tailToggle = tg, tailTransferId = tid\<rparr>]) ps = (ps, Finished c bs)"
  using assms by (simp add: reassemblerPush_def parse_compose_tail Let_def)

lemma single_result:
  assumes "tid < 32" "frames_of c fs [bs @ [dronecanComposeTailByte \<lparr>tailSot = True, tailEot = True,
      tailToggle = tg, tailTransferId = tid\<rparr>]]"
  shows "resultsOf (keyFor c) (snd (pushEach sigs fs ps)) = [Finished c bs]"
  using assms(2)
proof (induction fs arbitrary: ps)
  case (Cons e fs)
  obtain d f where e: "e = (d, f)" by force
  note split = frames_of_Cons [OF Cons.prems [unfolded e]]
  show ?case
  proof (cases "keyFor d = keyFor c")
    case False
    then show ?thesis using Cons.IH split by (auto simp only: e pushEach_Cons resultsOf_Cons if_False)
  next
    case True
    then have d: "d = c" "frames_of c fs []"
      "f = bs @ [dronecanComposeTailByte \<lparr>tailSot = True, tailEot = True, tailToggle = tg, tailTransferId = tid\<rparr>]"
      using split by auto
    then have "resultsOf (keyFor c) (snd (pushEach sigs fs ps)) = []"
      by (intro resultsOf_none) (simp add: frames_of_def)
    then show ?thesis unfolding e pushEach_Cons resultsOf_Cons d(1,3) push_single_frame [OF assms(1)] by simp
  qed
qed (simp add: frames_of_def)

subsection \<open>Transfers that were built\<close>

lemma low_byte: "ucast (c AND 0xFF) = (ucast c :: byte)" for c :: "16 word"
  by (rule bit_word_eqI) (unfold bit_ucast_iff bit_and_iff mask_bits_mav, auto)

lemma carried_back:
  "(ucast (ucast (c AND 0xFF) :: byte) OR push_bit 8 (ucast (ucast (drop_bit 8 c AND 0xFF) :: byte)) :: 16 word) = c"
proof (rule bit_word_eqI)
  fix n assume "n < LENGTH(16)"
  then show "bit (ucast (ucast (c AND 0xFF) :: byte) OR push_bit 8 (ucast (ucast (drop_bit 8 c AND 0xFF) :: byte)) :: 16 word) n
      = bit c n"
    unfolding low_byte by (auto simp: bit_or_iff bit_push_bit_iff bit_ucast_iff bit_drop_bit_eq)
qed

lemma masked_transfer_id: "unat (of_nat n AND 0x1F :: 32 word) < 32"
proof -
  have "(of_nat n AND 0x1F :: 32 word) \<le> 0x1F" by (rule word_and_le1)
  then show ?thesis unfolding word_le_nat_alt by simp
qed

lemma finalize_built:
  assumes "sigs c = None \<or> sigs c = Some sig"
  shows "finalizeTransfer sigs c (ucast (dronecanCrcWithSignature sig payload AND 0xFF)
      # ucast (drop_bit 8 (dronecanCrcWithSignature sig payload) AND 0xFF) # payload) = Finished c payload"
  using assms by (auto simp: finalizeTransfer_def carried_back Let_def)

lemma built_transfer_delivered:
  assumes "frames_of c fs (buildFrames sig tid payload)"
    and "sigs c = None \<or> sigs c = Some sig" "length payload + 2 \<le> MAX_REASSEMBLY_BYTES"
  shows "resultsOf (keyFor c) (snd (pushEach sigs fs ps))
    = replicate (length (buildFrames sig tid payload) - 1) Unfinished @ [Finished c payload]"
proof -
  define n where "n = unat (of_nat tid AND 0x1F :: 32 word)"
  note n = masked_transfer_id [of tid, folded n_def]
  show ?thesis
  proof (cases "length payload \<le> 7")
    case True
    then have b: "buildFrames sig tid payload = [payload @ [dronecanComposeTailByte \<lparr>tailSot = True, tailEot = True,
        tailToggle = False, tailTransferId = n\<rparr>]]" by (simp add: buildFrames_def n_def Let_def)
    show ?thesis using single_result [OF n assms(1) [unfolded b]] unfolding b by simp
  next
    case False
    let ?bs = "ucast (dronecanCrcWithSignature sig payload AND 0xFF)
      # ucast (drop_bit 8 (dronecanCrcWithSignature sig payload) AND 0xFF) # payload"
    have b: "buildFrames sig tid payload = transferChunks n True False ?bs"
      using False by (simp add: buildFrames_def n_def Let_def)
    have "7 < length ?bs" "length ?bs \<le> MAX_REASSEMBLY_BYTES" using False assms(3) by simp_all
    from whole_pieces [OF n this assms(1) [unfolded b], of sigs ps] show ?thesis
      unfolding b finalize_built [where sigs = sigs and c = c, OF assms(2)] .
  qed
qed

subsection \<open>Bounds\<close>

text \<open>A frame carries at most eight bytes, a pending transfer at most \<open>MAX_REASSEMBLY_BYTES\<close>.\<close>

definition pending_bounded :: "pending_map \<Rightarrow> bool" where
  "pending_bounded ps \<longleftrightarrow> (\<forall>k p. ps k = Some p \<longrightarrow> length (pieces p) \<le> MAX_REASSEMBLY_BYTES)"

lemma push_bounded:
  assumes "pending_bounded ps" "length f \<le> 65"
  shows "pending_bounded (fst (reassemblerPush sigs c f ps))"
  using assms
  by (auto simp: pending_bounded_def reassemblerPush_def MAX_REASSEMBLY_BYTES_def Let_def split: option.splits)

lemma pushEach_bounded:
  "pending_bounded ps \<Longrightarrow> \<forall>(c, f)\<in>set fs. length f \<le> 65 \<Longrightarrow> pending_bounded (fst (pushEach sigs fs ps))"
proof (induction fs arbitrary: ps)
  case (Cons e fs)
  obtain c f where e: "e = (c, f)" by force
  have "pending_bounded (fst (reassemblerPush sigs c f ps))" using Cons.prems e by (intro push_bounded) auto
  then have "pending_bounded (fst (pushEach sigs fs (fst (reassemblerPush sigs c f ps))))"
    using Cons.IH Cons.prems by simp
  then show ?case unfolding e by (metis fst_pushEach_Cons)
qed simp

end
