(* ===== verification/Node_Agreement.thy ===== *)
theory Node_Agreement
  imports Node_Reassembly
begin

unbundle bit_operations_syntax

text \<open>
  The two DroneCAN receivers of the program on the same bus: the reassembler of the CAN tab, fed as
  \<open>CanBusService.processCanFrame\<close> (\<open>ardupilot-core/src/runtime-can-bus-service.ts\<close>) feeds it, and the bus
  monitor's decoder of \<open>Dronecan_Transfer\<close>. They are written apart; on a complete transfer they agree.
\<close>

subsection \<open>What \<open>processCanFrame\<close> feeds the reassembler\<close>

definition GCS_DRONECAN_NODE_ID :: nat where
  "GCS_DRONECAN_NODE_ID = 127"

definition frameContext :: "32 word \<Rightarrow> bytes \<Rightarrow> transfer_context" where
  "frameContext i frame =
     (let isService = dronecanIsServiceFrame i
      in \<lparr>ctxSource = dronecanSourceNodeId i, ctxService = isService,
          ctxType = (if isService then dronecanServiceTypeId i else dronecanMessageTypeId i),
          ctxRequest = (if isService then Some (dronecanIsServiceRequest i) else None),
          ctxTransferId = unat (last frame AND 0x1F)\<rparr>)"

text \<open>The early returns of \<open>processCanFrame\<close>: plain CAN, anonymous messages, other allocators.\<close>

definition reachesReassembler :: "can_bus_frame \<Rightarrow> bool" where
  "reachesReassembler f \<longleftrightarrow>
     frameExtended f \<and> \<not> frameRtr f \<and> \<not> frameError f
     \<and> \<not> (\<not> dronecanIsServiceFrame (frameId f) \<and> dronecanSourceNodeId (frameId f) = 0)
     \<and> \<not> (\<not> dronecanIsServiceFrame (frameId f) \<and> dronecanMessageTypeId (frameId f) = 1
         \<and> dronecanSourceNodeId (frameId f) \<noteq> GCS_DRONECAN_NODE_ID)
     \<and> frameData f \<noteq> []"

definition contextOf :: "can_bus_frame \<Rightarrow> transfer_context" where
  "contextOf f = frameContext (frameId f) (frameData f)"

definition nodeFeed :: "can_bus_frame list \<Rightarrow> node_frames" where
  "nodeFeed fs = map (\<lambda>f. (contextOf f, frameData f)) (filter reachesReassembler fs)"

lemma context_key_inject: "keyFor (contextOf f) = keyFor (contextOf g) \<Longrightarrow> contextOf f = contextOf g"
  by (auto simp: keyFor_def contextOf_def frameContext_def Let_def split: if_splits)

subsection \<open>The reassembler on frames with the flags of a transfer\<close>

lemma flags_parse:
  "dronecanParseTailByte (last (frameData f)) = \<lparr>tailSot = fst (tailFlags f), tailEot = fst (snd (tailFlags f)),
     tailToggle = snd (snd (tailFlags f)), tailTransferId = unat (last (frameData f) AND 0x1F)\<rparr>"
  by (simp add: dronecanParseTailByte_def tailFlags_def Let_def)

lemma node_first:
  assumes "tailFlags f = (True, False, False)" "frameData f \<noteq> []"
  shows "reassemblerPush sigs c (frameData f) ps
    = (ps(keyFor c \<mapsto> \<lparr>pieces = bodyOf f, toggleExpected = True, framesSeen = 1\<rparr>), Unfinished)"
  using assms by (simp add: reassemblerPush_def flags_parse bodyOf_def Let_def)

lemma node_next:
  assumes "ps (keyFor c) = Some p" "tailFlags f = (False, eot, toggleExpected p)" "frameData f \<noteq> []"
    and "length (pieces p) + length (bodyOf f) \<le> MAX_REASSEMBLY_BYTES"
  shows "reassemblerPush sigs c (frameData f) ps =
    (if eot then (ps(keyFor c := None), finalizeTransfer sigs c (pieces p @ bodyOf f))
     else (ps(keyFor c \<mapsto> p\<lparr>pieces := pieces p @ bodyOf f, toggleExpected := \<not> toggleExpected p,
         framesSeen := framesSeen p + 1\<rparr>), Unfinished))"
  using assms by (simp add: reassemblerPush_def flags_parse bodyOf_def Let_def)

text \<open>\<open>own\<close> is what the feed holds of the transfer.\<close>

abbreviation feed_of :: "transfer_context \<Rightarrow> node_frames \<Rightarrow> can_bus_frame list \<Rightarrow> bool" where
  "feed_of c fs own \<equiv> frames_of c fs (map frameData own)"

lemma node_rest:
  assumes "ps (keyFor c) = Some p" "rest_flags (toggleExpected p) own" "feed_of c fs own"
    and "\<forall>f\<in>set own. frameData f \<noteq> []"
    and "length (pieces p) + length (concat (map bodyOf own)) \<le> MAX_REASSEMBLY_BYTES"
  shows "resultsOf (keyFor c) (snd (pushEach sigs fs ps))
    = replicate (length own - 1) Unfinished @ [finalizeTransfer sigs c (pieces p @ concat (map bodyOf own))]"
  using assms
proof (induction fs arbitrary: ps p own)
  case Nil
  then show ?case by (cases own) (auto simp: frames_of_def)
next
  case (Cons e fs)
  obtain d x where e: "e = (d, x)" by force
  note split = frames_of_Cons [OF Cons.prems(3) [unfolded e]]
  let ?ps = "fst (reassemblerPush sigs d x ps)"
  show ?case
  proof (cases "keyFor d = keyFor c")
    case False
    then have "?ps (keyFor c) = Some p" "feed_of c fs own" using Cons.prems(1) split by (auto simp: push_other_key)
    then show ?thesis using Cons.IH Cons.prems(2,4,5) False
      by (simp only: e pushEach_Cons resultsOf_Cons if_False)
  next
    case True
    then obtain f gs where own: "own = f # gs" "x = frameData f" "d = c" "feed_of c fs gs"
      using split by (cases own) auto
    have ne: "frameData f \<noteq> []" and len: "length (pieces p) + length (bodyOf f) \<le> MAX_REASSEMBLY_BYTES"
      using Cons.prems(4,5) own(1) by simp_all
    show ?thesis
    proof (cases gs)
      case Nil
      have "tailFlags f = (False, True, toggleExpected p)" using Cons.prems(2) own(1) Nil by simp
      note s = node_next [where c = c and ps = ps and sigs = sigs, OF Cons.prems(1) this ne len]
      have "resultsOf (keyFor c) (snd (pushEach sigs fs ?ps)) = []"
        using own(4) Nil by (intro resultsOf_none) (simp add: frames_of_def)
      then show ?thesis using s own Nil by (simp only: e pushEach_Cons resultsOf_Cons if_True) simp
    next
      case (Cons g hs)
      have fl: "tailFlags f = (False, False, toggleExpected p)" "rest_flags (\<not> toggleExpected p) gs"
        using Cons.prems(2) own(1) Cons by simp_all
      let ?p = "p\<lparr>pieces := pieces p @ bodyOf f, toggleExpected := \<not> toggleExpected p, framesSeen := framesSeen p + 1\<rparr>"
      have s: "?ps (keyFor c) = Some ?p" "snd (reassemblerPush sigs d x ps) = Unfinished"
        using node_next [where c = c and ps = ps and sigs = sigs, OF Cons.prems(1) fl(1) ne len] own(2,3) by simp_all
      have "resultsOf (keyFor c) (snd (pushEach sigs fs ?ps))
          = replicate (length gs - 1) Unfinished @ [finalizeTransfer sigs c (pieces ?p @ concat (map bodyOf gs))]"
        using s(1) fl(2) own(1,4) Cons.prems(4,5) by (intro Cons.IH) simp_all
      then show ?thesis using s(2) own Cons by (simp only: e pushEach_Cons resultsOf_Cons if_True) simp
    qed
  qed
qed

lemma node_whole:
  assumes "tailFlags f0 = (True, False, False)" "rest_flags True rest" "feed_of c fs (f0 # rest)"
    and "\<forall>f\<in>set (f0 # rest). frameData f \<noteq> []"
    and "length (concat (map bodyOf (f0 # rest))) \<le> MAX_REASSEMBLY_BYTES"
  shows "resultsOf (keyFor c) (snd (pushEach sigs fs ps))
    = replicate (length rest) Unfinished @ [finalizeTransfer sigs c (concat (map bodyOf (f0 # rest)))]"
  using assms(3)
proof (induction fs arbitrary: ps)
  case (Cons e fs)
  obtain d x where e: "e = (d, x)" by force
  note split = frames_of_Cons [OF Cons.prems [unfolded e]]
  let ?ps = "fst (reassemblerPush sigs d x ps)"
  show ?case
  proof (cases "keyFor d = keyFor c")
    case False
    then have "feed_of c fs (f0 # rest)" using split by auto
    then show ?thesis using Cons.IH False by (simp only: e pushEach_Cons resultsOf_Cons if_False)
  next
    case True
    then have d: "d = c" "x = frameData f0" "feed_of c fs rest" using split by auto
    have s: "?ps (keyFor c) = Some \<lparr>pieces = bodyOf f0, toggleExpected = True, framesSeen = 1\<rparr>"
      "snd (reassemblerPush sigs d x ps) = Unfinished"
      using node_first [OF assms(1), of sigs c ps] assms(4) d(1,2) by simp_all
    have "resultsOf (keyFor c) (snd (pushEach sigs fs ?ps))
        = replicate (length rest - 1) Unfinished
          @ [finalizeTransfer sigs c (pieces \<lparr>pieces = bodyOf f0, toggleExpected = True, framesSeen = 1\<rparr> @ concat (map bodyOf rest))]"
      using s(1) assms(2,4,5) d(3) by (intro node_rest) simp_all
    moreover obtain n where "length rest = Suc n" using assms(2) by (cases rest) auto
    ultimately show ?thesis using d(1) s(2)
      by (simp only: e pushEach_Cons resultsOf_Cons if_True) simp
  qed
qed (simp add: frames_of_def)

subsection \<open>Agreement\<close>

text \<open>The frames of one transfer as both receivers see them: none of another bus or destination shares
  the key of the CAN tab.\<close>

definition shared_transfer :: "transfer_key \<Rightarrow> can_bus_frame list \<Rightarrow> can_bus_frame \<Rightarrow> can_bus_frame list \<Rightarrow> bool" where
  "shared_transfer k fs f0 rest \<longleftrightarrow>
     transfer_frames k fs f0 rest
     \<and> filter (\<lambda>f. reachesReassembler f \<and> keyFor (contextOf f) = keyFor (contextOf f0)) fs = f0 # rest
     \<and> length (concat (map bodyOf (f0 # rest))) \<le> MAX_REASSEMBLY_BYTES"

lemma filter_nodeFeed:
  "filter (\<lambda>(d, x). keyFor d = k) (nodeFeed fs)
     = map (\<lambda>f. (contextOf f, frameData f)) (filter (\<lambda>f. reachesReassembler f \<and> keyFor (contextOf f) = k) fs)"
  by (induction fs) (auto simp: nodeFeed_def)

lemma shared_feed:
  assumes "shared_transfer k fs f0 rest"
  shows "feed_of (contextOf f0) (nodeFeed fs) (f0 # rest)" "\<forall>f\<in>set (f0 # rest). frameData f \<noteq> []"
proof -
  let ?P = "\<lambda>f. reachesReassembler f \<and> keyFor (contextOf f) = keyFor (contextOf f0)"
  have f: "filter ?P fs = f0 # rest" using assms by (simp add: shared_transfer_def)
  have own: "?P f" if "f \<in> set (f0 # rest)" for f
  proof -
    have "f \<in> set (filter ?P fs)" using that unfolding f .
    then show ?thesis by simp
  qed
  have c: "contextOf f = contextOf f0" if "f \<in> set (f0 # rest)" for f
    using own [OF that] by (intro context_key_inject) simp
  have "map (\<lambda>f. (contextOf f, frameData f)) (f0 # rest) = map (\<lambda>f. (contextOf f0, frameData f)) (f0 # rest)"
  proof (rule map_cong [OF refl])
    fix f assume "f \<in> set (f0 # rest)"
    then show "(contextOf f, frameData f) = (contextOf f0, frameData f)"
      by (rule c [THEN arg_cong, of _ "\<lambda>d. (d, frameData f)"])
  qed
  then have "map (\<lambda>f. (contextOf f, frameData f)) (f0 # rest) = map (Pair (contextOf f0)) (map frameData (f0 # rest))"
    by (simp add: o_def)
  then show "feed_of (contextOf f0) (nodeFeed fs) (f0 # rest)"
    unfolding frames_of_def filter_nodeFeed f .
  show "\<forall>f\<in>set (f0 # rest). frameData f \<noteq> []" using own by (auto simp: reachesReassembler_def)
qed

lemma finalize_carried:
  assumes "sigs c = Some sig" "2 \<le> length (bodyOf f0)"
  shows "finalizeTransfer sigs c (concat (map bodyOf (f0 # rest)))
    = (let payload = drop 2 (concat (map bodyOf (f0 # rest)))
       in if dronecanTransferCrc sig payload \<noteq> carriedCrc (bodyOf f0) then Crc_error c else Finished c payload)"
proof -
  obtain x y zs where "bodyOf f0 = x # y # zs" using assms(2)
    by (metis One_nat_def Suc_1 Suc_le_length_iff)
  then show ?thesis using assms(1) by (simp add: finalizeTransfer_def carriedCrc_def crc_mav Let_def)
qed

lemma finished_problem:
  assumes "headerKind h \<noteq> Anonymous_transfer" "lookupType types h = Some ty"
  shows "transferPayload (finishTransfer types h f own payload i (Some crc)) = payload"
    "transferProblem (finishTransfer types h f own payload i (Some crc)) = Some Crc_mismatch
      \<longleftrightarrow> dronecanTransferCrc (signature ty) payload \<noteq> crc"
  using assms by (simp_all add: finishTransfer_def Let_def split: sum.split)

end
