(* ===== verification/Node_Messages.thy ===== *)
theory Node_Messages
  imports Node_Transfer Mav_Fields
begin

unbundle bit_operations_syntax

text \<open>
  The DSDL types of \<open>protocol-mavlink/src/dronecan.ts\<close> that the CAN tab reads and writes, each an encoder
  and a decoder of the payload of a transfer. Every field is byte-aligned here; \<open>esc.Status\<close>, which is
  not, is in \<open>Node_Bits\<close>. A decoder that returns \<open>undefined\<close> is \<open>None\<close>.
\<close>

text \<open>\<open>s.replace(/[\dots]+$/, '')\<close> removes the trailing characters of a class.\<close>

definition dropTrailing :: "(nat \<Rightarrow> bool) \<Rightarrow> js_text \<Rightarrow> js_text" where
  "dropTrailing P s = rev (dropWhile P (rev s))"

text \<open>\<open>payload[from + i] ?? 0\<close> for \<open>i < n\<close>, and \<open>out[i] = Number((v >> 8i) & 0xff)\<close> is \<open>le_bytes\<close>.\<close>

definition bytesOr0 :: "nat \<Rightarrow> nat \<Rightarrow> bytes \<Rightarrow> bytes" where
  "bytesOr0 from n body = map (\<lambda>i. nthOr 0 body (from + i)) [0..<n]"

subsection \<open>NodeStatus\<close>

definition DRONECAN_NODE_STATUS_DT_ID :: nat where "DRONECAN_NODE_STATUS_DT_ID = 341"
definition DRONECAN_NODE_STATUS_SIGNATURE :: nat where "DRONECAN_NODE_STATUS_SIGNATURE = 0x0F0868D0C1A7C6F1"

record node_status =
  uptimeSec :: int
  nodeHealth :: int
  nodeMode :: int
  nodeSubMode :: int
  vendorSpecificStatusCode :: int

definition decodeDronecanNodeStatus :: "bytes \<Rightarrow> node_status option" where
  "decodeDronecanNodeStatus body =
     (if length body < 7 then None
      else do {
        uptime \<leftarrow> getUint32 0 body;
        let packed = body ! 4;
        vendor \<leftarrow> getUint16 5 body;
        Some \<lparr>uptimeSec = uptime, nodeHealth = uint (drop_bit 6 packed AND 0x03),
          nodeMode = uint (drop_bit 3 packed AND 0x07), nodeSubMode = uint (packed AND 0x07),
          vendorSpecificStatusCode = vendor\<rparr> })"

definition encodeDronecanNodeStatus :: "node_status \<Rightarrow> bytes" where
  "encodeDronecanNodeStatus s =
     le_bytes 4 (toUint32 (uptimeSec s))
     @ [push_bit 6 (word_of_int (nodeHealth s) AND 0x03) OR push_bit 3 (word_of_int (nodeMode s) AND 0x07)
         OR (word_of_int (nodeSubMode s) AND 0x07)]
     @ le_bytes 2 (vendorSpecificStatusCode s AND 0xFFFF)"

subsection \<open>GetNodeInfo\<close>

definition DRONECAN_GET_NODE_INFO_SERVICE_ID :: nat where "DRONECAN_GET_NODE_INFO_SERVICE_ID = 1"
definition DRONECAN_GET_NODE_INFO_SIGNATURE :: nat where "DRONECAN_GET_NODE_INFO_SIGNATURE = 0xEE468A8121C46A9E"

record node_info =
  infoStatus :: node_status
  swMajor :: int
  swMinor :: int
  swOptionalFieldFlags :: int
  swVcsCommit :: int
  swImageCrc :: int
  hwMajor :: int
  hwMinor :: int
  hwUniqueId :: bytes
  hwCertificate :: bytes
  infoName :: js_text

definition decodeDronecanGetNodeInfoResponse :: "bytes \<Rightarrow> node_info option" where
  "decodeDronecanGetNodeInfoResponse body =
     (if length body < 7 + 15 + 18 + 1 then None
      else do {
        status \<leftarrow> decodeDronecanNodeStatus (take 7 body);
        vcsCommit \<leftarrow> getUint32 10 body;
        imageCrc \<leftarrow> getBigUint64 14 body;
        let coaLen = unat (body ! 40);
        let coaStart = 41;
        if length body < coaStart + coaLen then None
        else Some \<lparr>infoStatus = status, swMajor = uint (body ! 7), swMinor = uint (body ! 8),
          swOptionalFieldFlags = uint (body ! 9), swVcsCommit = vcsCommit, swImageCrc = imageCrc,
          hwMajor = uint (body ! 22), hwMinor = uint (body ! 23), hwUniqueId = slice 24 40 body,
          hwCertificate = slice coaStart (coaStart + coaLen) body,
          infoName = dropTrailing (\<lambda>c. c = 0) (decodeUtf8 (drop (coaStart + coaLen) body))\<rparr> })"

definition encodeDronecanGetNodeInfoResponse :: "node_info \<Rightarrow> bytes" where
  "encodeDronecanGetNodeInfoResponse info =
     (let status = encodeDronecanNodeStatus (infoStatus info);
          sw = [word_of_int (swMajor info), word_of_int (swMinor info), word_of_int (swOptionalFieldFlags info)]
            @ le_bytes 4 (toUint32 (swVcsCommit info)) @ le_bytes 8 (swImageCrc info AND 0xFFFFFFFFFFFFFFFF);
          hw = put 2 (take 16 (hwUniqueId info))
            (word_of_int (hwMajor info) # word_of_int (hwMinor info) # newBytes 16);
          coa = take 255 (hwCertificate info);
          nameBytes = slice 0 80 (encodeUtf8 (infoName info))
      in status @ sw @ hw @ [of_nat (length coa)] @ coa @ nameBytes)"

subsection \<open>Parameters\<close>

definition DRONECAN_PARAM_GETSET_SERVICE_ID :: nat where "DRONECAN_PARAM_GETSET_SERVICE_ID = 11"
definition DRONECAN_PARAM_GETSET_SIGNATURE :: nat where "DRONECAN_PARAM_GETSET_SIGNATURE = 0xA7B622F939D1A4D5"

text \<open>The tag, and the field of the tag when it is there.\<close>

datatype node_param =
    Param_empty
  | Param_int64 "int option"
  | Param_real32 "f32 option"
  | Param_bool "bool option"
  | Param_string "js_text option"

definition blank_end :: "nat \<Rightarrow> bool" where
  "blank_end c \<longleftrightarrow> jsSpace c \<or> c = 0"

definition readDronecanValueBytes :: "bytes \<Rightarrow> nat \<Rightarrow> bool \<Rightarrow> (node_param \<times> nat) option" where
  "readDronecanValueBytes body p isFullValue =
     (if p \<ge> length body then Some (Param_empty, p)
      else
        (let tag = body ! p; after = p + 1
         in if tag = 0 then Some (Param_empty, after)
            else if tag = 1 then
              (let raw = le_val (bytesOr0 after 8 body);
                   raw = (if raw \<ge> 0x8000000000000000 then raw - 2 ^ 64 else raw)
               in Some (Param_int64 (Some raw), after + 8))
            else if tag = 2 then Some (Param_real32 (Some (f32_of_bytes (bytesOr0 after 4 body))), after + 4)
            else if tag = 3 then
              (if \<not> isFullValue then None
               else Some (Param_bool (Some (nthOr 0 body after \<noteq> 0)), after + 1))
            else if tag = 4 then
              (if \<not> isFullValue then None
               else
                 (let len = unat (nthOr 0 body after); strStart = after + 1
                  in Some (Param_string (Some (dropTrailing blank_end (decodeUtf8 (slice strStart (strStart + len) body)))),
                       strStart + len)))
            else None))"

definition writeDronecanValueBytes :: "node_param \<Rightarrow> bool \<Rightarrow> bytes" where
  "writeDronecanValueBytes value isFullValue =
     (case value of
        Param_empty \<Rightarrow> [0]
      | Param_int64 i \<Rightarrow>
          (let v = orElse i 0; v = (if v < 0 then v + 2 ^ 64 else v) in 1 # le_bytes 8 v)
      | Param_real32 r \<Rightarrow> 2 # f32_bytes (orElse r 0)
      | Param_bool b \<Rightarrow> if isFullValue then [3, if b = Some True then 1 else 0] else [0]
      | Param_string s \<Rightarrow>
          if \<not> isFullValue then [0]
          else (let bs = slice 0 128 (encodeUtf8 (orElse s [])) in 4 # of_nat (length bs) # bs))"

record getset_request =
  reqIndex :: int
  reqValue :: node_param
  reqName :: "js_text option"

definition encodeDronecanGetSetRequest :: "getset_request \<Rightarrow> bytes" where
  "encodeDronecanGetSetRequest req =
     (let valueBytes = writeDronecanValueBytes (reqValue req) True;
          nameBytes = (case reqName req of
              Some n \<Rightarrow> if length n > 0 then slice 0 92 (encodeUtf8 n) else []
            | None \<Rightarrow> [])
      in word_of_int (reqIndex req) # valueBytes @ nameBytes)"

record getset_response =
  respValue :: node_param
  respDefault :: node_param
  respMax :: node_param
  respMin :: node_param
  respName :: js_text

definition decodeDronecanGetSetResponse :: "bytes \<Rightarrow> getset_response option" where
  "decodeDronecanGetSetResponse body = do {
     (v, p) \<leftarrow> readDronecanValueBytes body 0 True;
     (d, p) \<leftarrow> readDronecanValueBytes body p True;
     (mx, p) \<leftarrow> readDronecanValueBytes body p False;
     (mn, p) \<leftarrow> readDronecanValueBytes body p False;
     Some \<lparr>respValue = v, respDefault = d, respMax = mx, respMin = mn,
       respName = dropTrailing blank_end (decodeUtf8 (drop p body))\<rparr> }"

definition encodeDronecanGetSetResponse :: "getset_response \<Rightarrow> bytes" where
  "encodeDronecanGetSetResponse resp =
     concat [writeDronecanValueBytes (respValue resp) True, writeDronecanValueBytes (respDefault resp) False,
       writeDronecanValueBytes (respMax resp) False, writeDronecanValueBytes (respMin resp) False,
       slice 0 92 (encodeUtf8 (respName resp))]"

definition DRONECAN_PARAM_EXECUTE_OPCODE_SERVICE_ID :: nat where "DRONECAN_PARAM_EXECUTE_OPCODE_SERVICE_ID = 10"
definition DRONECAN_PARAM_EXECUTE_OPCODE_SIGNATURE :: nat where
  "DRONECAN_PARAM_EXECUTE_OPCODE_SIGNATURE = 0x3B131AC5EB69D2CD"
definition DRONECAN_PARAM_OPCODE_SAVE :: int where "DRONECAN_PARAM_OPCODE_SAVE = 0"

definition encodeDronecanExecuteOpcodeRequest :: "int \<Rightarrow> int \<Rightarrow> bytes" where
  "encodeDronecanExecuteOpcodeRequest opcode argument = word_of_int opcode # le_bytes 6 argument"

definition decodeDronecanExecuteOpcodeResponse :: "bytes \<Rightarrow> (int \<times> bool) option" where
  "decodeDronecanExecuteOpcodeResponse body =
     (if length body < 7 then None
      else
        (let argument = le_val (take 6 body);
             argument = (if argument AND 0x800000000000 \<noteq> 0 then argument - 0x1000000000000 else argument)
         in Some (argument, body ! 6 \<noteq> 0)))"

definition encodeDronecanExecuteOpcodeResponse :: "int \<Rightarrow> bool \<Rightarrow> bytes" where
  "encodeDronecanExecuteOpcodeResponse argument ok =
     le_bytes 6 (if argument < 0 then argument + 0x1000000000000 else argument) @ [if ok then 1 else 0]"

subsection \<open>RestartNode\<close>

definition DRONECAN_RESTART_NODE_SERVICE_ID :: nat where "DRONECAN_RESTART_NODE_SERVICE_ID = 5"
definition DRONECAN_RESTART_NODE_SIGNATURE :: nat where "DRONECAN_RESTART_NODE_SIGNATURE = 0x569E05394A3017F0"
definition DRONECAN_RESTART_NODE_MAGIC :: int where "DRONECAN_RESTART_NODE_MAGIC = 0xACCE551B1E"

definition encodeDronecanRestartNodeRequest :: "int \<Rightarrow> bytes" where
  "encodeDronecanRestartNodeRequest magic = le_bytes 5 magic"

definition decodeDronecanRestartNodeResponse :: "bytes \<Rightarrow> bool option" where
  "decodeDronecanRestartNodeResponse body = (if length body < 1 then None else Some (body ! 0 \<noteq> 0))"

definition encodeDronecanRestartNodeResponse :: "bool \<Rightarrow> bytes" where
  "encodeDronecanRestartNodeResponse ok = [if ok then 1 else 0]"

subsection \<open>Files\<close>

definition DRONECAN_FILE_BEGIN_FIRMWARE_UPDATE_SERVICE_ID :: nat where
  "DRONECAN_FILE_BEGIN_FIRMWARE_UPDATE_SERVICE_ID = 40"
definition DRONECAN_FILE_BEGIN_FIRMWARE_UPDATE_SIGNATURE :: nat where
  "DRONECAN_FILE_BEGIN_FIRMWARE_UPDATE_SIGNATURE = 0xB7D725DF72724126"
definition DRONECAN_FILE_READ_SERVICE_ID :: nat where "DRONECAN_FILE_READ_SERVICE_ID = 48"
definition DRONECAN_FILE_READ_SIGNATURE :: nat where "DRONECAN_FILE_READ_SIGNATURE = 0x8DCDCA939F33F678"
definition DRONECAN_FILE_BFU_ERROR_OK :: int where "DRONECAN_FILE_BFU_ERROR_OK = 0"
definition DRONECAN_FILE_ERROR_OK :: int where "DRONECAN_FILE_ERROR_OK = 0"
definition DRONECAN_FILE_READ_MAX_DATA :: nat where "DRONECAN_FILE_READ_MAX_DATA = 256"
definition DRONECAN_FILE_PATH_MAX :: nat where "DRONECAN_FILE_PATH_MAX = 200"

definition dronecanWriteUint40LE :: "int \<Rightarrow> bytes" where
  "dronecanWriteUint40LE v = le_bytes 5 (max 0 v)"

definition dronecanReadUint40LE :: "bytes \<Rightarrow> nat \<Rightarrow> int" where
  "dronecanReadUint40LE body p = le_val (bytesOr0 p 5 body)"

definition encodeFilePath :: "js_text \<Rightarrow> bytes" where
  "encodeFilePath path = slice 0 DRONECAN_FILE_PATH_MAX (encodeUtf8 path)"

definition encodeDronecanBeginFirmwareUpdateRequest :: "int \<Rightarrow> js_text \<Rightarrow> bytes" where
  "encodeDronecanBeginFirmwareUpdateRequest sourceNodeId path = word_of_int sourceNodeId # encodeFilePath path"

definition decodeDronecanBeginFirmwareUpdateRequest :: "bytes \<Rightarrow> (int \<times> js_text) option" where
  "decodeDronecanBeginFirmwareUpdateRequest body =
     (if length body < 1 then None
      else Some (uint (body ! 0), dropTrailing (\<lambda>c. c = 0) (decodeUtf8 (drop 1 body))))"

definition encodeDronecanBeginFirmwareUpdateResponse :: "int \<Rightarrow> js_text \<Rightarrow> bytes" where
  "encodeDronecanBeginFirmwareUpdateResponse e msg = word_of_int e # slice 0 127 (encodeUtf8 msg)"

definition decodeDronecanBeginFirmwareUpdateResponse :: "bytes \<Rightarrow> (int \<times> js_text option) option" where
  "decodeDronecanBeginFirmwareUpdateResponse body =
     (if length body < 1 then None
      else
        (let msg = dropTrailing (\<lambda>c. c = 0) (decodeUtf8 (drop 1 body))
         in Some (uint (body ! 0), if length msg > 0 then Some msg else None)))"

definition encodeDronecanFileReadRequest :: "int \<Rightarrow> js_text \<Rightarrow> bytes" where
  "encodeDronecanFileReadRequest offset path = dronecanWriteUint40LE offset @ encodeFilePath path"

definition decodeDronecanFileReadRequest :: "bytes \<Rightarrow> (int \<times> js_text) option" where
  "decodeDronecanFileReadRequest body =
     (if length body < 5 then None
      else Some (dronecanReadUint40LE body 0, dropTrailing (\<lambda>c. c = 0) (decodeUtf8 (drop 5 body))))"

definition encodeDronecanFileReadResponse :: "int \<Rightarrow> bytes \<Rightarrow> bytes" where
  "encodeDronecanFileReadResponse e d =
     (let clamped = (if length d > DRONECAN_FILE_READ_MAX_DATA then take DRONECAN_FILE_READ_MAX_DATA d else d)
      in le_bytes 2 e @ clamped)"

definition decodeDronecanFileReadResponse :: "bytes \<Rightarrow> (int \<times> bytes) option" where
  "decodeDronecanFileReadResponse body =
     (if length body < 2 then None
      else
        (let e = le_val (take 2 body); e = (if e AND 0x8000 \<noteq> 0 then e - 0x10000 else e)
         in Some (e, drop 2 body)))"

subsection \<open>Dynamic node ids\<close>

definition DRONECAN_ALLOCATION_DT_ID :: nat where "DRONECAN_ALLOCATION_DT_ID = 1"
definition DRONECAN_ALLOCATION_SIGNATURE :: nat where "DRONECAN_ALLOCATION_SIGNATURE = 0x0B2A812620A11D40"
definition DRONECAN_ALLOCATION_FOLLOWUP_TIMEOUT_MS :: int where "DRONECAN_ALLOCATION_FOLLOWUP_TIMEOUT_MS = 500"

record node_allocation =
  allocNodeId :: nat
  allocFirstPart :: bool
  allocUniqueId :: bytes

definition decodeDronecanAllocation :: "bytes \<Rightarrow> node_allocation option" where
  "decodeDronecanAllocation body =
     (if length body < 1 \<or> length body > 17 then None
      else Some \<lparr>allocNodeId = unat (drop_bit 1 (body ! 0)), allocFirstPart = (body ! 0 AND 1 = 1),
        allocUniqueId = drop 1 body\<rparr>)"

definition encodeDronecanAllocation :: "node_allocation \<Rightarrow> bytes" where
  "encodeDronecanAllocation a =
     (push_bit 1 (of_nat (allocNodeId a) AND 0x7F) OR (if allocFirstPart a then 1 else 0))
     # take 16 (allocUniqueId a)"

definition dronecanIsAnonymousAllocationFrame :: "32 word \<Rightarrow> bool" where
  "dronecanIsAnonymousAllocationFrame canId \<longleftrightarrow>
     canId AND 0x7F = 0 \<and> drop_bit 7 canId AND 1 = 0
     \<and> drop_bit 8 canId AND 0x3 = of_nat DRONECAN_ALLOCATION_DT_ID AND 0x3"

definition dronecanEncodeAnonymousCanId :: "nat \<Rightarrow> nat \<Rightarrow> nat \<Rightarrow> 32 word" where
  "dronecanEncodeAnonymousCanId priority messageTypeId discriminator =
     push_bit 24 (of_nat priority AND 0x1F) OR push_bit 10 (of_nat discriminator AND 0x3FFF)
     OR push_bit 8 (of_nat messageTypeId AND 0x3)"

end
