(* ===== verification/Node_Values.thy ===== *)
theory Node_Values
  imports Node_Messages Node_Reassembly
begin

unbundle bit_operations_syntax

text \<open>
  The payloads of \<open>Node_Messages\<close>: what is written is read back, for parameter values at any place of a
  payload, parameter lists, node status, the file services and node-id allocation.
\<close>

subsection \<open>Parameter values\<close>

text \<open>The trailing characters the decoders drop are not part of a text.\<close>

definition ends_clean :: "(nat \<Rightarrow> bool) \<Rightarrow> js_text \<Rightarrow> bool" where
  "ends_clean P s \<longleftrightarrow> s = [] \<or> \<not> P (last s)"

lemma dropTrailing_clean: "ends_clean P s \<Longrightarrow> dropTrailing P s = s"
  by (cases s rule: rev_cases) (auto simp: ends_clean_def dropTrailing_def)

definition field_text :: "(nat \<Rightarrow> bool) \<Rightarrow> nat \<Rightarrow> js_text \<Rightarrow> bool" where
  "field_text P n s \<longleftrightarrow> text_ok s \<and> ends_clean P s \<and> length (encodeUtf8 s) \<le> n"

lemma field_text_read:
  "field_text P n s \<Longrightarrow> dropTrailing P (decodeUtf8 (encodeUtf8 s)) = s"
  by (simp add: field_text_def decodeUtf8_encodeUtf8 dropTrailing_clean)

lemma field_text_slice: "field_text P n s \<Longrightarrow> slice 0 n (encodeUtf8 s) = encodeUtf8 s"
  by (simp add: field_text_def slice_def)

primrec node_param_ok :: "node_param \<Rightarrow> bool" where
  "node_param_ok Param_empty = True"
| "node_param_ok (Param_int64 i) = (- (2 ^ 63) \<le> orElse i 0 \<and> orElse i 0 < 2 ^ 63)"
| "node_param_ok (Param_real32 r) = f32_ok (orElse r 0)"
| "node_param_ok (Param_bool b) = True"
| "node_param_ok (Param_string s) = field_text blank_end 128 (orElse s [])"

text \<open>What a reader sees: absent fields have their default, and a numeric value has two kinds.\<close>

primrec as_read :: "bool \<Rightarrow> node_param \<Rightarrow> node_param" where
  "as_read full Param_empty = Param_empty"
| "as_read full (Param_int64 i) = Param_int64 (Some (orElse i 0))"
| "as_read full (Param_real32 r) = Param_real32 (Some (orElse r 0))"
| "as_read full (Param_bool b) = (if full then Param_bool (Some (orElse b False)) else Param_empty)"
| "as_read full (Param_string s) = (if full then Param_string (Some (orElse s [])) else Param_empty)"

lemma bytesOr0_inside:
  assumes "length bs = n"
  shows "bytesOr0 (length pre) n (pre @ bs @ post) = bs"
  using assms by (intro nth_equalityI) (auto simp: bytesOr0_def nthOr_def nth_append)

lemma bytesOr0_after:
  assumes "length bs = n"
  shows "bytesOr0 (Suc (length pre)) n (pre @ t # bs @ post) = bs"
  using bytesOr0_inside [OF assms, of "pre @ [t]" post] by simp

lemma int64_wire:
  assumes "- (2 ^ 63) \<le> v" "v < 2 ^ 63"
  shows "(let raw = le_val (le_bytes 8 (if v < 0 then v + 2 ^ 64 else v))
     in if raw \<ge> 0x8000000000000000 then raw - 2 ^ 64 else raw) = v"
proof -
  let ?w = "if v < 0 then v + 2 ^ 64 else v"
  have "u64_ok ?w" using assms by (simp add: u64_ok_def)
  then have "le_val (le_bytes 8 ?w) = ?w" by (rule le_val_u64)
  then show ?thesis using assms by (simp add: Let_def)
qed

lemma length_written: "writeDronecanValueBytes v full \<noteq> []"
  by (cases v) (simp_all add: writeDronecanValueBytes_def Let_def)

lemma read_written:
  assumes "node_param_ok v"
  shows "readDronecanValueBytes (pre @ writeDronecanValueBytes v full @ post) (length pre) full
    = Some (as_read full v, length pre + length (writeDronecanValueBytes v full))"
proof (cases v)
  case Param_empty
  then show ?thesis by (simp add: readDronecanValueBytes_def writeDronecanValueBytes_def)
next
  case (Param_int64 i)
  let ?v = "orElse i 0"
  let ?bs = "le_bytes 8 (if ?v < 0 then ?v + 2 ^ 64 else ?v)"
  have w: "writeDronecanValueBytes v full = 1 # ?bs"
    using Param_int64 by (simp add: writeDronecanValueBytes_def Let_def)
  have "bytesOr0 (Suc (length pre)) 8 (pre @ 1 # ?bs @ post) = ?bs" by (rule bytesOr0_after) (rule length_le_bytes)
  then show ?thesis using assms Param_int64 int64_wire [of ?v] unfolding w
    by (simp only: readDronecanValueBytes_def) (simp add: Let_def del: le_bytes.simps)
next
  case (Param_real32 r)
  have w: "writeDronecanValueBytes v full = 2 # f32_bytes (orElse r 0)"
    using Param_real32 by (simp add: writeDronecanValueBytes_def)
  have "bytesOr0 (Suc (length pre)) 4 (pre @ 2 # f32_bytes (orElse r 0) @ post) = f32_bytes (orElse r 0)"
    by (rule bytesOr0_after) (rule length_f32_bytes)
  then show ?thesis using assms Param_real32 f32_of_bytes_f32 unfolding w
    by (simp add: readDronecanValueBytes_def Let_def)
next
  case (Param_bool b)
  then show ?thesis
    by (cases b) (auto simp: readDronecanValueBytes_def writeDronecanValueBytes_def orElse_def Let_def nthOr_def nth_append)
next
  case (Param_string s)
  show ?thesis
  proof (cases full)
    case False
    then show ?thesis using Param_string by (simp add: readDronecanValueBytes_def writeDronecanValueBytes_def)
  next
    case True
    let ?bs = "encodeUtf8 (orElse s [])"
    have ok: "field_text blank_end 128 (orElse s [])" using assms Param_string by simp
    then have len: "unat (of_nat (length ?bs) :: byte) = length ?bs"
      by (intro unat_of_nat_byte) (simp add: field_text_def)
    have w: "writeDronecanValueBytes v full = 4 # of_nat (length ?bs) # ?bs"
      using Param_string True field_text_slice [OF ok] by (simp add: writeDronecanValueBytes_def Let_def)
    have "slice (length pre + 2) (length pre + 2 + length ?bs) (pre @ 4 # of_nat (length ?bs) # ?bs @ post) = ?bs"
      by (simp add: slice_def)
    then show ?thesis using Param_string True len field_text_read [OF ok] unfolding w
      by (simp add: readDronecanValueBytes_def Let_def nthOr_def nth_append)
  qed
qed

subsection \<open>Parameter responses\<close>

definition getset_ok :: "getset_response \<Rightarrow> bool" where
  "getset_ok r \<longleftrightarrow> node_param_ok (respValue r) \<and> node_param_ok (respDefault r) \<and> node_param_ok (respMax r)
     \<and> node_param_ok (respMin r) \<and> field_text blank_end 92 (respName r)"

lemma getset_response_back:
  assumes "getset_ok r"
  shows "decodeDronecanGetSetResponse (writeDronecanValueBytes (respValue r) True
      @ writeDronecanValueBytes (respDefault r) full @ writeDronecanValueBytes (respMax r) False
      @ writeDronecanValueBytes (respMin r) False @ encodeUtf8 (respName r))
    = Some (r\<lparr>respValue := as_read True (respValue r), respDefault := as_read full (respDefault r),
        respMax := as_read False (respMax r), respMin := as_read False (respMin r)\<rparr>)"
proof -
  let ?a = "writeDronecanValueBytes (respValue r) True" and ?b = "writeDronecanValueBytes (respDefault r) full"
  let ?c = "writeDronecanValueBytes (respMax r) False" and ?d = "writeDronecanValueBytes (respMin r) False"
  let ?n = "encodeUtf8 (respName r)"
  let ?p = "?a @ ?b @ ?c @ ?d @ ?n"
  have ok: "node_param_ok (respValue r)" "node_param_ok (respDefault r)" "node_param_ok (respMax r)"
    "node_param_ok (respMin r)" "field_text blank_end 92 (respName r)"
    using assms by (simp_all add: getset_ok_def)
  have numeric: "readDronecanValueBytes bs k True = Some (as_read full v, m)"
    if "readDronecanValueBytes bs k full = Some (as_read full v, m)" for bs k v m
    using that by (auto simp: readDronecanValueBytes_def Let_def split: if_splits)
  have a: "readDronecanValueBytes ?p 0 True = Some (as_read True (respValue r), length ?a)"
    using read_written [OF ok(1), of "[]" True "?b @ ?c @ ?d @ ?n"] by simp
  have b: "readDronecanValueBytes ?p (length ?a) True = Some (as_read full (respDefault r), length (?a @ ?b))"
    using numeric [OF read_written [OF ok(2), of ?a full "?c @ ?d @ ?n"]] by simp
  have c: "readDronecanValueBytes ?p (length (?a @ ?b)) False = Some (as_read False (respMax r), length (?a @ ?b @ ?c))"
    using read_written [OF ok(3), of "?a @ ?b" False "?d @ ?n"] by simp
  have d: "readDronecanValueBytes ?p (length (?a @ ?b @ ?c)) False = Some (as_read False (respMin r), length (?a @ ?b @ ?c @ ?d))"
    using read_written [OF ok(4), of "?a @ ?b @ ?c" False ?n] by simp
  have n: "drop (length (?a @ ?b @ ?c @ ?d)) ?p = ?n" by simp
  show ?thesis
    by (simp only: decodeDronecanGetSetResponse_def a b c d n field_text_read [OF ok(5)] Option.bind.simps prod.case)
      simp
qed

text \<open>The encoder writes a default value as a numeric one, so a boolean or text default is lost.\<close>

lemma getset_response_roundtrip:
  assumes "getset_ok r"
  shows "decodeDronecanGetSetResponse (encodeDronecanGetSetResponse r)
    = Some (r\<lparr>respValue := as_read True (respValue r), respDefault := as_read False (respDefault r),
        respMax := as_read False (respMax r), respMin := as_read False (respMin r)\<rparr>)"
proof -
  have "slice 0 92 (encodeUtf8 (respName r)) = encodeUtf8 (respName r)"
    using assms by (intro field_text_slice [of blank_end]) (simp add: getset_ok_def)
  then show ?thesis using getset_response_back [OF assms, of False]
    by (simp add: encodeDronecanGetSetResponse_def)
qed

lemma getset_default_lost:
  "encodeDronecanGetSetResponse (r\<lparr>respDefault := Param_bool (Some True)\<rparr>)
    = encodeDronecanGetSetResponse (r\<lparr>respDefault := Param_empty\<rparr>)"
  by (simp add: encodeDronecanGetSetResponse_def writeDronecanValueBytes_def)

text \<open>A write names its parameter and carries its value: a node reads the value after the index byte and
  the name after the value.\<close>

lemma getset_request_read:
  assumes "node_param_ok (reqValue req)" "reqName req = Some n" "field_text blank_end 92 n" "n \<noteq> []"
  defines "w \<equiv> writeDronecanValueBytes (reqValue req) True"
  shows "readDronecanValueBytes (encodeDronecanGetSetRequest req) 1 True
      = Some (as_read True (reqValue req), 1 + length w)
    \<and> dropTrailing blank_end (decodeUtf8 (drop (1 + length w) (encodeDronecanGetSetRequest req))) = n"
proof -
  have e: "encodeDronecanGetSetRequest req = [word_of_int (reqIndex req)] @ w @ encodeUtf8 n"
    using assms(2,4) field_text_slice [OF assms(3)] by (simp add: encodeDronecanGetSetRequest_def w_def)
  have "readDronecanValueBytes (encodeDronecanGetSetRequest req) 1 True
      = Some (as_read True (reqValue req), 1 + length w)"
    using read_written [OF assms(1), of "[word_of_int (reqIndex req)]" True "encodeUtf8 n"]
    unfolding e w_def by simp
  moreover have "drop (1 + length w) (encodeDronecanGetSetRequest req) = encodeUtf8 n" unfolding e by simp
  ultimately show ?thesis using field_text_read [OF assms(3)] by simp
qed

subsection \<open>Files\<close>

lemma file_read_request_roundtrip:
  assumes "0 \<le> offset" "offset < 2 ^ 40" "field_text (\<lambda>c. c = 0) DRONECAN_FILE_PATH_MAX path"
  shows "decodeDronecanFileReadRequest (encodeDronecanFileReadRequest offset path) = Some (offset, path)"
proof -
  have p: "encodeFilePath path = encodeUtf8 path"
    using field_text_slice [OF assms(3)] by (simp add: encodeFilePath_def)
  have "le_val (le_bytes 5 offset) = offset" using assms(1,2) by (simp add: le_val_le_bytes del: le_bytes.simps)
  then show ?thesis
    using bytesOr0_inside [of "le_bytes 5 offset" 5 "[]" "encodeUtf8 path"] field_text_read [OF assms(3)] assms(1)
    by (simp add: decodeDronecanFileReadRequest_def encodeDronecanFileReadRequest_def dronecanReadUint40LE_def
        dronecanWriteUint40LE_def p del: le_bytes.simps)
qed

lemma file_read_response_roundtrip:
  assumes "i16_ok e" "length bs \<le> DRONECAN_FILE_READ_MAX_DATA"
  shows "decodeDronecanFileReadResponse (encodeDronecanFileReadResponse e bs) = Some (e, bs)"
proof -
  have "0x8000 = push_bit 15 (1 :: int)" by simp
  then have m: "x AND 0x8000 \<noteq> 0 \<longleftrightarrow> 0x8000 \<le> x" if "0 \<le> x" "x < 0x10000" for x :: int
  proof -
    have "x AND 0x8000 \<noteq> 0 \<longleftrightarrow> bit x 15" using and_exp_eq_0_iff_not_bit [of x 15] by simp
    also have "\<dots> \<longleftrightarrow> odd (x div 2 ^ 15)" by (simp add: bit_iff_odd)
    also have "\<dots> \<longleftrightarrow> 0x8000 \<le> x"
    proof -
      have "x div 0x8000 = 0 \<or> x div 0x8000 = 1" using that by auto
      then show ?thesis using that by auto
    qed
    finally show ?thesis .
  qed
  have "le_val (le_bytes 2 e) = e mod 65536" by (simp only: le_val_le_bytes) simp
  moreover have "e mod 65536 = (if e < 0 then e + 65536 else e)"
  proof (cases "e < 0")
    case True
    have "e mod 65536 = (e + 65536) mod 65536" by simp
    also have "\<dots> = e + 65536" using True assms(1) by (intro mod_pos_pos_trivial) (simp_all add: i16_ok_def)
    finally show ?thesis using True by simp
  qed (use assms(1) in \<open>simp add: i16_ok_def\<close>)
  ultimately have v: "le_val (le_bytes 2 e) = (if e < 0 then e + 65536 else e)" by simp
  have r: "-32768 \<le> e" "e < 32768" using assms(1) by (simp_all add: i16_ok_def)
  have "(if (if e < 0 then e + 65536 else e) AND 0x8000 \<noteq> 0 then (if e < 0 then e + 65536 else e) - 0x10000
      else (if e < 0 then e + 65536 else e)) = e"
    using m [of "if e < 0 then e + 65536 else e"] r by auto
  then show ?thesis using assms(2) v
    by (simp add: decodeDronecanFileReadResponse_def encodeDronecanFileReadResponse_def Let_def
        del: le_bytes.simps)
qed

subsection \<open>Node status and allocation\<close>

definition node_status_ok :: "node_status \<Rightarrow> bool" where
  "node_status_ok s \<longleftrightarrow> u32_ok (uptimeSec s) \<and> 0 \<le> nodeHealth s \<and> nodeHealth s < 4 \<and> 0 \<le> nodeMode s \<and> nodeMode s < 8
     \<and> 0 \<le> nodeSubMode s \<and> nodeSubMode s < 8 \<and> u16_ok (vendorSpecificStatusCode s)"

lemma packed_fields:
  assumes "0 \<le> h" "h < 4" "0 \<le> m" "m < 8" "0 \<le> k" "k < 8"
  defines "w \<equiv> push_bit 6 (word_of_int h AND 0x03) OR push_bit 3 (word_of_int m AND 0x07) OR (word_of_int k AND 0x07) :: byte"
  shows "uint (drop_bit 6 w AND 0x03) = h \<and> uint (drop_bit 3 w AND 0x07) = m \<and> uint (w AND 0x07) = k"
proof -
  have "h \<in> {0..3}" "m \<in> {0..7}" "k \<in> {0..7}" using assms by auto
  moreover have "\<forall>h\<in>set [0, 1, 2, 3]. \<forall>m\<in>set [0, 1, 2, 3, 4, 5, 6, 7]. \<forall>k\<in>set [0, 1, 2, 3, 4, 5, 6, 7].
    let w = push_bit 6 (word_of_int h AND 0x03) OR push_bit 3 (word_of_int m AND 0x07) OR (word_of_int k AND 0x07) :: byte
    in uint (drop_bit 6 w AND 0x03) = h \<and> uint (drop_bit 3 w AND 0x07) = m \<and> uint (w AND 0x07) = k"
    by code_simp
  moreover have "{0..3} = set [0, 1, 2, 3 :: int]" "{0..7} = set [0, 1, 2, 3, 4, 5, 6, 7 :: int]" by auto
  ultimately show ?thesis unfolding w_def Let_def by blast
qed

lemma node_status_roundtrip:
  assumes "node_status_ok s"
  shows "decodeDronecanNodeStatus (encodeDronecanNodeStatus s) = Some s"
proof -
  let ?b = "push_bit 6 (word_of_int (nodeHealth s) AND 0x03) OR push_bit 3 (word_of_int (nodeMode s) AND 0x07)
         OR (word_of_int (nodeSubMode s) AND 0x07) :: byte"
  have r: "u32_ok (uptimeSec s)" "u16_ok (vendorSpecificStatusCode s)" using assms by (simp_all add: node_status_ok_def)
  have "vendorSpecificStatusCode s AND mask 16 = vendorSpecificStatusCode s mod 2 ^ 16" by (simp only: take_bit_eq_mask [symmetric] take_bit_eq_mod)
  then have v: "vendorSpecificStatusCode s AND 0xFFFF = vendorSpecificStatusCode s"
    using r(2) by (simp add: u16_ok_def mask_eq_exp_minus_1)
  have u: "toUint32 (uptimeSec s) = uptimeSec s" using r(1) by (simp add: toUint32_def u32_ok_def)
  have p: "encodeDronecanNodeStatus s = le_bytes 4 (uptimeSec s) @ ?b # le_bytes 2 (vendorSpecificStatusCode s)"
    by (simp add: encodeDronecanNodeStatus_def u v)
  have g: "getUint32 0 (encodeDronecanNodeStatus s) = Some (uptimeSec s)"
    "getUint16 5 (encodeDronecanNodeStatus s) = Some (vendorSpecificStatusCode s)"
    "encodeDronecanNodeStatus s ! 4 = ?b" "length (encodeDronecanNodeStatus s) = 7"
    unfolding p using le_val_u32 [OF r(1)] le_val_u16 [OF r(2)]
    by (simp_all add: getUint32_def getUint16_def getBytes_def nth_append del: le_bytes.simps)
  have f: "uint (drop_bit 6 ?b AND 0x03) = nodeHealth s \<and> uint (drop_bit 3 ?b AND 0x07) = nodeMode s \<and> uint (?b AND 0x07) = nodeSubMode s"
    using assms by (intro packed_fields) (simp_all add: node_status_ok_def)
  show ?thesis unfolding decodeDronecanNodeStatus_def g(3) using f g(1,2,4) by (simp add: Let_def)
qed

lemma allocation_roundtrip:
  assumes "allocNodeId a < 128" "length (allocUniqueId a) \<le> 16"
  shows "decodeDronecanAllocation (encodeDronecanAllocation a) = Some a"
proof -
  let ?b = "push_bit 1 (of_nat (allocNodeId a) AND 0x7F) OR (if allocFirstPart a then 1 else 0) :: byte"
  have bits: "bit ?b n \<longleftrightarrow> (n = 0 \<and> allocFirstPart a) \<or> (1 \<le> n \<and> n < 8 \<and> bit (allocNodeId a) (n - 1))" for n
  proof -
    have "bit (push_bit 1 (of_nat (allocNodeId a) AND 0x7F) :: byte) n \<longleftrightarrow> 1 \<le> n \<and> n < 8 \<and> bit (allocNodeId a) (n - 1)"
      unfolding bit_push_bit_iff bit_and_iff mask_bits_mav bit_of_nat_iff possible_bit_word by auto
    moreover have "bit (if allocFirstPart a then 1 else 0 :: byte) n \<longleftrightarrow> n = 0 \<and> allocFirstPart a"
      by (simp add: bit_1_iff)
    ultimately show ?thesis unfolding bit_or_iff by blast
  qed
  have "unat (drop_bit 1 ?b) = take_bit 7 (allocNodeId a)"
    by (rule bit_eqI) (unfold bit_unsigned_iff bit_drop_bit_eq o_apply bits bit_take_bit_iff, auto)
  also have "\<dots> = allocNodeId a" using assms(1) by (simp add: take_bit_nat_eq_self)
  finally have n: "unat (drop_bit 1 ?b) = allocNodeId a" .
  have "(?b AND 1 = 1) = bit ?b 0" unfolding and_one_eq bit_0 odd_iff_mod_2_eq_one ..
  then have f: "(?b AND 1 = 1) = allocFirstPart a" unfolding bits by simp
  have "encodeDronecanAllocation a = ?b # allocUniqueId a"
    using assms(2) unfolding encodeDronecanAllocation_def by simp
  then show ?thesis using n f assms(2) by (simp only: decodeDronecanAllocation_def) simp
qed

end
