(* ===== verification/Node_Bits.thy ===== *)
theory Node_Bits
  imports Node_Transfer Js_Float
begin

unbundle bit_operations_syntax

text \<open>
  The bit-packed part of \<open>protocol-mavlink/src/dronecan.ts\<close>: scalars in the bit order of libcanard, the
  hand-written half-precision conversion, and \<open>uavcan.equipment.esc.Status\<close>. Bits are numbered from the
  most significant bit of the first byte. Numbers are the exact IEEE values of \<open>Js_Float\<close>;
  \<open>Math.log2\<close> is taken to be exact, so that its floor is the binary exponent.
\<close>

subsection \<open>Scalars\<close>

definition canardStdByteLength :: "nat \<Rightarrow> nat" where
  "canardStdByteLength bitCount =
     (if bitCount \<le> 8 then 1 else if bitCount \<le> 16 then 2 else if bitCount \<le> 32 then 4 else 8)"

text \<open>\<open>((bytes[i >> 3] ?? 0) >> (7 - (i & 7))) & 1\<close>, and setting or clearing that bit.\<close>

definition canardBit :: "bytes \<Rightarrow> nat \<Rightarrow> bool" where
  "canardBit p i = (i div 8 < length p \<and> bit (p ! (i div 8)) (7 - i mod 8))"

definition putCanardBit :: "nat \<Rightarrow> bool \<Rightarrow> bytes \<Rightarrow> bytes" where
  "putCanardBit i b p =
     (if b then p[i div 8 := p ! (i div 8) OR push_bit (7 - i mod 8) 1]
      else p[i div 8 := p ! (i div 8) AND NOT (push_bit (7 - i mod 8) 1)])"

definition dronecanReadCanardUint :: "bytes \<Rightarrow> nat \<Rightarrow> nat \<Rightarrow> int" where
  "dronecanReadCanardUint payload bitOffset bitCount =
     (let tmp = fold (\<lambda>i tmp. if canardBit payload (bitOffset + i) then putCanardBit i True tmp else tmp)
            [0..<bitCount] (newBytes 8);
          tmp = (if bitCount mod 8 \<noteq> 0
            then tmp[bitCount div 8 := drop_bit (8 - bitCount mod 8) (tmp ! (bitCount div 8))] else tmp)
      in le_val (take (canardStdByteLength bitCount) tmp))"

definition dronecanReadCanardInt :: "bytes \<Rightarrow> nat \<Rightarrow> nat \<Rightarrow> int" where
  "dronecanReadCanardInt payload bitOffset bitCount =
     (let raw = dronecanReadCanardUint payload bitOffset bitCount
      in if raw \<ge> 2 ^ (bitCount - 1) then raw - 2 ^ bitCount else raw)"

definition canardStorage :: "nat \<Rightarrow> int \<Rightarrow> bytes" where
  "canardStorage bitCount v =
     (let stdLen = canardStdByteLength bitCount;
          v = (if v < 0 then v mod 2 ^ (8 * stdLen) else v);
          storage = le_bytes stdLen v @ newBytes (8 - stdLen)
      in if bitCount mod 8 \<noteq> 0
         then storage[bitCount div 8 := push_bit (8 - bitCount mod 8) (storage ! (bitCount div 8))]
         else storage)"

definition dronecanWriteCanardScalar :: "nat \<Rightarrow> nat \<Rightarrow> int \<Rightarrow> bytes \<Rightarrow> bytes" where
  "dronecanWriteCanardScalar bitOffset bitCount v dst =
     fold (\<lambda>i dst. putCanardBit (bitOffset + i) (canardBit (canardStorage bitCount v) i) dst) [0..<bitCount] dst"

subsection \<open>Half precision\<close>

definition dronecanDecodeFloat16 :: "nat \<Rightarrow> ieee_number" where
  "dronecanDecodeFloat16 w =
     (let negative = (w AND 0x8000 \<noteq> 0);
          e = drop_bit 10 w AND 0x1F;
          frac = w AND 0x3FF
      in if e = 0 then Finite_number negative (of_nat frac / 2 ^ 24)
         else if e = 0x1F then (if frac \<noteq> 0 then Not_a_number else Infinite_number negative)
         else Finite_number negative ((1 + of_nat frac / 1024) * 2 ^ e / 2 ^ 15))"

text \<open>\<open>Math.floor(Math.log2(v))\<close> plus 15 for \<open>2 ** -14 \<le> v < 2 ** 16\<close>; 0 below and 31 above.\<close>

definition halfExponent :: "rat \<Rightarrow> nat" where
  "halfExponent v = (if 2 ^ 16 \<le> v then 31
     else case find (\<lambda>e. 2 ^ e / 2 ^ 15 \<le> v) (rev [1..<31]) of None \<Rightarrow> 0 | Some e \<Rightarrow> e)"

text \<open>\<open>Math.round\<close>: halves go up.\<close>

definition roundHalfUp :: "rat \<Rightarrow> nat" where
  "roundHalfUp q = nat \<lfloor>q + 1 / 2\<rfloor>"

definition dronecanEncodeFloat16 :: "ieee_number \<Rightarrow> nat" where
  "dronecanEncodeFloat16 x =
     (case x of
        Not_a_number \<Rightarrow> 0x7E00
      | Infinite_number negative \<Rightarrow> (if negative then 0x8000 else 0) OR 0x7C00
      | Finite_number negative v \<Rightarrow>
          (let sign = (if negative then 0x8000 else 0);
               e = halfExponent v
           in if v = 0 then sign
              else if e = 31 then sign OR 0x7C00
              else if e = 0 then sign OR (roundHalfUp (v * 2 ^ 24) AND 0x3FF)
              else
                (let frac = roundHalfUp ((v * 2 ^ 15 / 2 ^ e - 1) * 1024);
                     (e, frac) = (if frac = 1024 then (e + 1, 0) else (e, frac))
                 in if e = 31 then sign OR 0x7C00
                    else sign OR push_bit 10 e OR (frac AND 0x3FF))))"

subsection \<open>esc.Status\<close>

definition DRONECAN_ESC_STATUS_DT_ID :: nat where "DRONECAN_ESC_STATUS_DT_ID = 1034"
definition DRONECAN_ESC_STATUS_SIGNATURE :: nat where "DRONECAN_ESC_STATUS_SIGNATURE = 0xA9AF28AEA2FBB254"

record esc_status =
  escErrorCount :: int
  escVoltage :: ieee_number
  escCurrent :: ieee_number
  escTemperature :: ieee_number
  escRpm :: int
  escPowerRatingPct :: int
  escIndex :: int

definition decodeDronecanEscStatus :: "bytes \<Rightarrow> esc_status option" where
  "decodeDronecanEscStatus payload =
     (if length payload < 14 then None
      else
        (let half = (\<lambda>off. dronecanDecodeFloat16 (nat (dronecanReadCanardUint payload off 16)))
         in Some \<lparr>escErrorCount = dronecanReadCanardUint payload 0 32,
              escVoltage = half 32, escCurrent = half 48, escTemperature = half 64,
              escRpm = dronecanReadCanardInt payload 80 18,
              escPowerRatingPct = dronecanReadCanardUint payload 98 7,
              escIndex = dronecanReadCanardUint payload 105 5\<rparr>))"

definition encodeDronecanEscStatus :: "esc_status \<Rightarrow> bytes" where
  "encodeDronecanEscStatus status =
     (let out = newBytes 14;
          out = dronecanWriteCanardScalar 0 32 (escErrorCount status) out;
          out = dronecanWriteCanardScalar 32 16 (int (dronecanEncodeFloat16 (escVoltage status))) out;
          out = dronecanWriteCanardScalar 48 16 (int (dronecanEncodeFloat16 (escCurrent status))) out;
          out = dronecanWriteCanardScalar 64 16 (int (dronecanEncodeFloat16 (escTemperature status))) out;
          out = dronecanWriteCanardScalar 80 18 (escRpm status) out;
          out = dronecanWriteCanardScalar 98 7 (escPowerRatingPct status) out
      in dronecanWriteCanardScalar 105 5 (escIndex status) out)"

subsection \<open>Bits that are written and read\<close>

text \<open>The place in the number of the \<open>i\<close>-th bit of a scalar; the map is its own inverse.\<close>

definition canardPlace :: "nat \<Rightarrow> nat \<Rightarrow> nat" where
  "canardPlace n i =
     (if i div 8 = n div 8 then 8 * (i div 8) + (n mod 8 - 1 - i mod 8) else 8 * (i div 8) + (7 - i mod 8))"

lemma canardPlace_less:
  assumes "i < n"
  shows "canardPlace n i < n" "canardPlace n (canardPlace n i) = i" "canardPlace n i div 8 = i div 8"
proof -
  have m: "i = 8 * (i div 8) + i mod 8" "n = 8 * (n div 8) + n mod 8" "i mod 8 < 8" "n mod 8 < 8" by simp_all
  have le: "i div 8 \<le> n div 8" using assms by (simp add: div_le_mono)
  have p: "canardPlace n i = 8 * (i div 8) + (if i div 8 = n div 8 then n mod 8 - 1 - i mod 8 else 7 - i mod 8)"
    by (simp add: canardPlace_def)
  have r: "i div 8 = n div 8 \<Longrightarrow> i mod 8 < n mod 8" using assms m by linarith
  have s: "(if i div 8 = n div 8 then n mod 8 - 1 - i mod 8 else 7 - i mod 8) < 8" by (auto intro: less_imp_diff_less)
  show d: "canardPlace n i div 8 = i div 8" unfolding p using s by (simp only: div_mult_self4 div_less)
  have e: "canardPlace n i mod 8 = (if i div 8 = n div 8 then n mod 8 - 1 - i mod 8 else 7 - i mod 8)"
    unfolding p using s by (simp only: mod_mult_self4 mod_less)
  show "canardPlace n i < n"
  proof (cases "i div 8 = n div 8")
    case True
    then show ?thesis unfolding p using m r by simp
  next
    case False
    then have "i div 8 + 1 \<le> n div 8" using le by simp
    then have "8 * (i div 8) + 8 \<le> n" using m(2) by linarith
    then show ?thesis unfolding p using False by simp
  qed
  have "canardPlace n (canardPlace n i) = 8 * (i div 8) + i mod 8"
  proof (cases "i div 8 = n div 8")
    case True
    have "n mod 8 - 1 - (n mod 8 - 1 - i mod 8) = i mod 8" using r [OF True] by linarith
    then show ?thesis unfolding canardPlace_def [of n "canardPlace n i"] d e if_P [OF True] by (rule arg_cong)
  next
    case False
    have "7 - (7 - i mod 8) = i mod 8" using m(3) by linarith
    then show ?thesis unfolding canardPlace_def [of n "canardPlace n i"] d e if_not_P [OF False] by (rule arg_cong)
  qed
  then show "canardPlace n (canardPlace n i) = i" by (simp only: mult_div_mod_eq)
qed

lemma length_putCanardBit [simp]: "length (putCanardBit i b p) = length p"
  by (simp add: putCanardBit_def)

lemma single_bit: "c < 8 \<Longrightarrow> bit (push_bit a 1 :: byte) c \<longleftrightarrow> c = a"
  unfolding bit_push_bit_iff bit_1_iff by auto

lemma canardBit_put:
  "canardBit (putCanardBit i b p) j = (if j = i \<and> i div 8 < length p then b else canardBit p j)"
proof (cases "j div 8 = i div 8 \<and> i div 8 < length p")
  case True
  have same: "7 - j mod 8 = 7 - i mod 8 \<longleftrightarrow> j = i"
  proof
    assume "7 - j mod 8 = 7 - i mod 8"
    moreover have "j mod 8 < 8" "i mod 8 < 8" by simp_all
    ultimately have "j mod 8 = i mod 8" by linarith
    then show "j = i" using True by (metis div_mult_mod_eq)
  qed simp
  have b: "bit (push_bit (7 - i mod 8) 1 :: byte) (7 - j mod 8) \<longleftrightarrow> j = i"
    using single_bit [of "7 - j mod 8" "7 - i mod 8"] same by auto
  have n: "bit (NOT (push_bit (7 - i mod 8) 1) :: byte) (7 - j mod 8) \<longleftrightarrow> j \<noteq> i"
    unfolding bit_not_iff possible_bit_word b by (simp add: less_imp_diff_less)
  have bi: "j = i \<Longrightarrow> bit (push_bit (7 - i mod 8) 1 :: byte) (7 - i mod 8)"
    "j = i \<Longrightarrow> \<not> bit (NOT (push_bit (7 - i mod 8) 1) :: byte) (7 - i mod 8)"
    using b n by auto
  show ?thesis using True bi
    by (simp add: putCanardBit_def canardBit_def bit_or_iff bit_and_iff b n del: push_bit_of_1)
qed (auto simp: putCanardBit_def canardBit_def nth_list_update)

lemma canardBit_fold:
  assumes "off + n \<le> 8 * length p"
  shows "canardBit (fold (\<lambda>i. putCanardBit (off + i) (f i)) [0..<n] p) j
      = (if off \<le> j \<and> j < off + n then f (j - off) else canardBit p j)
    \<and> length (fold (\<lambda>i. putCanardBit (off + i) (f i)) [0..<n] p) = length p"
  using assms
proof (induction n)
  case (Suc n)
  then have IH: "canardBit (fold (\<lambda>i. putCanardBit (off + i) (f i)) [0..<n] p) j
      = (if off \<le> j \<and> j < off + n then f (j - off) else canardBit p j)"
    "length (fold (\<lambda>i. putCanardBit (off + i) (f i)) [0..<n] p) = length p" by simp_all
  have "(off + n) div 8 < length p" using Suc.prems by (simp add: less_mult_imp_div_less)
  then show ?case using IH by (auto simp: canardBit_put)
qed auto

lemma le_bytes_nth: "j < k \<Longrightarrow> le_bytes k v ! j = word_of_int (v div 2 ^ (8 * j))"
proof (induction k arbitrary: v j)
  case (Suc k)
  then show ?case by (cases j) (simp_all add: zdiv_zmult2_eq power_add)
qed simp

lemma bit_le_bytes: "j < k \<Longrightarrow> m < 8 \<Longrightarrow> bit (le_bytes k v ! j) m = bit v (8 * j + m)"
  by (simp add: le_bytes_nth bit_word_of_int_iff) (simp add: bit_iff_odd power_add zdiv_zmult2_eq)

lemma bit_le_val: "bit (le_val bs) k \<longleftrightarrow> k div 8 < length bs \<and> bit (bs ! (k div 8)) (k mod 8)"
proof (induction bs arbitrary: k)
  case (Cons b bs)
  have "uint b + 256 * le_val bs = uint b OR push_bit 8 (le_val bs)"
  proof -
    have "uint b AND push_bit 8 (le_val bs) = 0"
      by (rule bit_eqI) (auto simp: bit_and_iff bit_push_bit_iff bit_uint_iff)
    then show ?thesis by (simp add: disjunctive_add_eq_or [symmetric] push_bit_eq_mult)
  qed
  then have "bit (le_val (b # bs)) k \<longleftrightarrow> bit b k \<or> (8 \<le> k \<and> bit (le_val bs) (k - 8))"
    by (simp add: bit_or_iff bit_push_bit_iff bit_uint_iff) (use bit_imp_le_length [of b k] in auto)
  moreover have "k < 8 \<Longrightarrow> k div 8 = 0" "8 \<le> k \<Longrightarrow> \<not> bit b k" using bit_imp_le_length [of b k] by auto
  moreover have "8 \<le> k \<Longrightarrow> k div 8 = Suc ((k - 8) div 8)" "8 \<le> k \<Longrightarrow> k mod 8 = (k - 8) mod 8"
    by (simp_all add: le_div_geq le_mod_geq)
  ultimately show ?case using Cons.IH [of "k - 8"] by (cases "k < 8") auto
qed simp

lemma stdByteLength:
  assumes "n \<le> 64"
  shows "n \<le> 8 * canardStdByteLength n" "canardStdByteLength n \<le> 8" "i < n \<Longrightarrow> i div 8 < canardStdByteLength n"
proof -
  show a: "n \<le> 8 * canardStdByteLength n" "canardStdByteLength n \<le> 8" using assms by (auto simp: canardStdByteLength_def)
  show "i < n \<Longrightarrow> i div 8 < canardStdByteLength n"
  proof -
    assume "i < n"
    then have "i < canardStdByteLength n * 8" using a(1) by simp
    then show ?thesis by (rule less_mult_imp_div_less)
  qed
qed

lemma storage_bit:
  assumes "i < n" "n \<le> 64"
  shows "canardBit (canardStorage n v) i = bit v (canardPlace n i)"
proof -
  let ?s = "canardStdByteLength n"
  define w where "w = (if v < 0 then v mod 2 ^ (8 * ?s) else v)"
  define st where "st = le_bytes ?s w @ newBytes (8 - ?s)"
  note s = stdByteLength [OF assms(2)]
  have len: "length st = 8" using s(2) by (simp add: st_def)
  have i8: "i div 8 < ?s" using s(3) assms(1) by simp
  have w: "bit w k = bit v k" if "k < 8 * ?s" for k
    using that by (simp add: w_def take_bit_eq_mod [symmetric] bit_take_bit_iff)
  have st: "bit (st ! (i div 8)) m = bit v (8 * (i div 8) + m)" if "m < 8" for m
  proof -
    have "8 * (i div 8) + m < 8 * ?s" using i8 that by linarith
    then show ?thesis using i8 that w by (simp add: st_def nth_append bit_le_bytes)
  qed
  have r: "i div 8 = n div 8 \<Longrightarrow> i mod 8 < n mod 8"
    using assms(1) by (metis div_mult_mod_eq nat_add_left_cancel_less)
  have m8: "i mod 8 < 8" "n mod 8 < 8" by simp_all
  show ?thesis
  proof (cases "i div 8 = n div 8")
    case True
    then have c: "canardStorage n v = st[n div 8 := push_bit (8 - n mod 8) (st ! (n div 8))]"
      using r unfolding canardStorage_def Let_def w_def [symmetric] st_def [symmetric] by auto
    have "canardBit (canardStorage n v) i = bit (push_bit (8 - n mod 8) (st ! (n div 8))) (7 - i mod 8)"
      using True i8 s(2) len unfolding c by (simp add: canardBit_def)
    also have "\<dots> = bit (st ! (i div 8)) (n mod 8 - 1 - i mod 8)"
    proof -
      have "8 - b \<le> 7 - a \<and> 7 - a - (8 - b) = b - 1 - a" if "a < b" "b < 8" for a b :: nat
        using that by auto
      from this [OF r [OF True] m8(2)] have "8 - n mod 8 \<le> 7 - i mod 8"
        "7 - i mod 8 - (8 - n mod 8) = n mod 8 - 1 - i mod 8" by blast+
      then show ?thesis using True by (simp add: bit_push_bit_iff less_imp_diff_less)
    qed
    also have "\<dots> = bit v (canardPlace n i)"
      using m8 True by (subst st) (auto simp: canardPlace_def intro: less_imp_diff_less)
    finally show ?thesis .
  next
    case False
    have "canardStorage n v ! (i div 8) = st ! (i div 8)"
      using False by (simp add: canardStorage_def Let_def w_def [symmetric] st_def [symmetric])
    moreover have "length (canardStorage n v) = 8"
      using len by (simp add: canardStorage_def Let_def w_def [symmetric] st_def [symmetric])
    ultimately show ?thesis using i8 s(2) st [of "7 - i mod 8"] False by (simp add: canardBit_def canardPlace_def)
  qed
qed

text \<open>What the loop of \<open>dronecanReadCanardUint\<close> gathers.\<close>

lemma gathered:
  assumes "n \<le> 64"
  shows "canardBit (fold (\<lambda>i tmp. if canardBit p (off + i) then putCanardBit i True tmp else tmp) [0..<n] (newBytes 8)) j
      = (j < n \<and> canardBit p (off + j))
    \<and> length (fold (\<lambda>i tmp. if canardBit p (off + i) then putCanardBit i True tmp else tmp) [0..<n] (newBytes 8)) = 8"
  using assms
proof (induction n)
  case 0
  then show ?case by (simp add: canardBit_def newBytes_def)
next
  case (Suc n)
  then have "n div 8 < 8" by (simp add: less_mult_imp_div_less)
  then show ?case using Suc by (auto simp: canardBit_put less_Suc_eq)
qed

lemma byte_bit:
  assumes "j < length p" "m < 8"
  shows "bit (p ! j) m = canardBit p (8 * j + (7 - m))"
proof -
  have "7 - m < 8" by simp
  then have "(8 * j + (7 - m)) div 8 = j" "(8 * j + (7 - m)) mod 8 = 7 - m"
    by (simp_all only: div_mult_self4 mod_mult_self4 div_less mod_less)
  moreover have "7 - (7 - m) = m" using assms(2) by simp
  ultimately show ?thesis using assms(1) unfolding canardBit_def by simp
qed

lemma read_bits:
  assumes "n \<le> 64"
  shows "bit (dronecanReadCanardUint p off n) k \<longleftrightarrow> k < n \<and> canardBit p (off + canardPlace n k)"
proof -
  define tmp where "tmp = fold (\<lambda>i tmp. if canardBit p (off + i) then putCanardBit i True tmp else tmp) [0..<n] (newBytes 8)"
  define t where "t = (if n mod 8 \<noteq> 0 then tmp[n div 8 := drop_bit (8 - n mod 8) (tmp ! (n div 8))] else tmp)"
  let ?s = "canardStdByteLength n"
  have g: "canardBit tmp j = (j < n \<and> canardBit p (off + j))" "length tmp = 8" for j
    using gathered [OF assms] by (simp_all add: tmp_def)
  note s = stdByteLength [OF assms]
  have len: "length t = 8" by (simp add: t_def g(2))
  have km: "k = 8 * (k div 8) + k mod 8" "k mod 8 < 8" and nm: "n = 8 * (n div 8) + n mod 8" "n mod 8 < 8" by simp_all
  have val: "bit (dronecanReadCanardUint p off n) k \<longleftrightarrow> k div 8 < ?s \<and> bit (t ! (k div 8)) (k mod 8)"
    using s(2) len
    unfolding dronecanReadCanardUint_def tmp_def [symmetric] Let_def t_def [symmetric] bit_le_val by auto
  have bound: "8 * q + (7 - m) < n \<longleftrightarrow> 8 * q + m < n" if "m < 8" "q < n div 8" for q m
    using that nm(1) by linarith
  show ?thesis
  proof (cases "k div 8 < ?s")
    case False
    then have "\<not> k < n" using s(3) by blast
    then show ?thesis using val False by simp
  next
    case inside: True
    then have k8: "k div 8 < 8" using s(2) by simp
    consider "k div 8 < n div 8" | "k div 8 = n div 8" | "n div 8 < k div 8" by linarith
    then show ?thesis
    proof cases
      case 1
      then have "t ! (k div 8) = tmp ! (k div 8)" by (simp add: t_def)
      then have "bit (t ! (k div 8)) (k mod 8) = canardBit tmp (8 * (k div 8) + (7 - k mod 8))"
        using byte_bit [of "k div 8" tmp "k mod 8"] k8 by (simp add: g(2))
      moreover have "canardPlace n k = 8 * (k div 8) + (7 - k mod 8)" using 1 by (simp add: canardPlace_def)
      moreover have "8 * (k div 8) + (7 - k mod 8) < n \<longleftrightarrow> k < n" using bound [OF km(2) 1] by simp
      ultimately show ?thesis using val inside by (simp add: g(1))
    next
      case 2
      have "k < n \<longleftrightarrow> k mod 8 < n mod 8" using 2 km(1) nm(1) by linarith
      show ?thesis
      proof (cases "k mod 8 < n mod 8")
        case False
        have "\<not> bit (t ! (k div 8)) (k mod 8)"
        proof (cases "n mod 8 = 0")
          case True
          have "\<not> 8 * (k div 8) + (7 - k mod 8) < n" using 2 nm(1) True by linarith
          then show ?thesis using byte_bit [of "k div 8" tmp "k mod 8"] k8 True by (simp add: t_def g)
        next
          case r: False
          then have "t ! (k div 8) = drop_bit (8 - n mod 8) (tmp ! (n div 8))" using 2 k8 by (simp add: t_def g(2))
          moreover have "8 \<le> 8 - n mod 8 + k mod 8" using False nm(2) by linarith
          ultimately show ?thesis by (simp add: bit_drop_bit_eq) (use bit_imp_le_length [of "tmp ! (n div 8)" "8 - n mod 8 + k mod 8"] in auto)
        qed
        then show ?thesis using val \<open>k < n \<longleftrightarrow> k mod 8 < n mod 8\<close> False by simp
      next
        case True
        have "t ! (k div 8) = drop_bit (8 - n mod 8) (tmp ! (n div 8))" using 2 k8 True by (auto simp: t_def g(2))
        then have "bit (t ! (k div 8)) (k mod 8) = bit (tmp ! (k div 8)) (8 - n mod 8 + k mod 8)"
          using 2 by (simp add: bit_drop_bit_eq)
        also have "\<dots> = canardBit tmp (8 * (k div 8) + (7 - (8 - n mod 8 + k mod 8)))"
          using k8 True nm(2) by (intro byte_bit) (simp_all add: g(2))
        also have "8 * (k div 8) + (7 - (8 - n mod 8 + k mod 8)) = canardPlace n k"
        proof -
          have "7 - (8 - b + a) = b - 1 - a" if "a < b" "b < 8" for a b :: nat using that by auto
          from this [OF True nm(2)] show ?thesis using 2 by (simp add: canardPlace_def)
        qed
        finally have "bit (t ! (k div 8)) (k mod 8) = canardBit tmp (canardPlace n k)" .
        moreover have "k < n" using True \<open>k < n \<longleftrightarrow> k mod 8 < n mod 8\<close> by simp
        ultimately show ?thesis using val inside canardPlace_less(1) [OF \<open>k < n\<close>] by (simp add: g(1))
      qed
    next
      case 3
      then have "t ! (k div 8) = tmp ! (k div 8)" by (simp add: t_def)
      moreover have "\<not> 8 * (k div 8) + (7 - k mod 8) < n" "\<not> k < n" using 3 km nm by linarith+
      ultimately show ?thesis using val byte_bit [of "k div 8" tmp "k mod 8"] k8 by (simp add: g)
    qed
  qed
qed

lemma written_bits:
  assumes "n \<le> 64" "off + n \<le> 8 * length dst"
  shows "canardBit (dronecanWriteCanardScalar off n v dst) j
      = (if off \<le> j \<and> j < off + n then bit v (canardPlace n (j - off)) else canardBit dst j)"
    "length (dronecanWriteCanardScalar off n v dst) = length dst"
  using canardBit_fold [OF assms(2), of "canardBit (canardStorage n v)" j] storage_bit [OF _ assms(1)]
  by (auto simp: dronecanWriteCanardScalar_def)

lemma read_back_scalar:
  assumes "n \<le> 64" "off + n \<le> 8 * length dst"
  shows "dronecanReadCanardUint (dronecanWriteCanardScalar off n v dst) off n = take_bit n v"
proof (rule bit_eqI)
  fix k
  show "bit (dronecanReadCanardUint (dronecanWriteCanardScalar off n v dst) off n) k = bit (take_bit n v) k"
    using canardPlace_less [of k n]
    by (auto simp: read_bits [OF assms(1)] written_bits(1) [OF assms] bit_take_bit_iff)
qed

lemma read_other_scalar:
  assumes "n \<le> 64" "off + n \<le> 8 * length dst" "m \<le> 64" "place + m \<le> off \<or> off + n \<le> place"
  shows "dronecanReadCanardUint (dronecanWriteCanardScalar off n v dst) place m = dronecanReadCanardUint dst place m"
proof (rule bit_eqI)
  fix k
  have "k < m \<Longrightarrow> \<not> (off \<le> place + canardPlace m k \<and> place + canardPlace m k < off + n)"
    using canardPlace_less(1) [of k m] assms(4) by auto
  then show "bit (dronecanReadCanardUint (dronecanWriteCanardScalar off n v dst) place m) k
      = bit (dronecanReadCanardUint dst place m) k"
    by (auto simp: read_bits [OF assms(3)] written_bits(1) [OF assms(1,2)])
qed

subsection \<open>Halves survive\<close>

lemma half_parts:
  assumes "w < 2 ^ 16"
  obtains s e k :: nat where "w = s * 32768 + e * 1024 + k" "s < 2" "e < 32" "k < 1024"
proof
  show "w = w div 32768 * 32768 + w div 1024 mod 32 * 1024 + w mod 1024"
  proof -
    have "w div 32768 = w div 1024 div 32" by (simp add: div_mult2_eq [symmetric])
    then have "w div 32768 * 32 + w div 1024 mod 32 = w div 1024" by (simp only: div_mult_mod_eq)
    moreover have "w div 1024 * 1024 + w mod 1024 = w" by (simp only: div_mult_mod_eq)
    ultimately show ?thesis by linarith
  qed
  show "w div 32768 < 2" using assms by simp
qed simp_all

lemma half_fields:
  fixes w s e k :: nat
  assumes "w = s * 32768 + e * 1024 + k" "s < 2" "e < 32" "k < 1024"
  shows "(w AND 0x8000 \<noteq> 0) = (s = 1)" "drop_bit 10 w AND 0x1F = e" "w AND 0x3FF = k"
proof -
  have m: "x AND 0x1F = x mod 32" "x AND 0x3FF = x mod 1024" for x :: nat
    using take_bit_eq_mask [of 5 x] take_bit_eq_mask [of 10 x] by (simp_all add: take_bit_eq_mod mask_eq_exp_minus_1)
  have w: "w = k + 1024 * (s * 32 + e)" using assms(1) by simp
  have q: "w div 1024 = s * 32 + e" unfolding w using assms(4) by (subst div_mult_self2) simp_all
  have r: "w mod 1024 = k" unfolding w using assms(4) by (subst mod_mult_self2) simp
  show "w AND 0x3FF = k" by (simp add: m r)
  show "drop_bit 10 w AND 0x1F = e" using assms(3) by (simp add: m drop_bit_eq_div q)
  have "w AND 0x8000 \<noteq> 0 \<longleftrightarrow> bit w 15" using and_exp_eq_0_iff_not_bit [of w 15] by simp
  also have "\<dots> \<longleftrightarrow> odd (w div 32768)" by (simp add: bit_iff_odd)
  also have "w div 32768 = w div 1024 div 32" by (simp add: div_mult2_eq [symmetric])
  also have "\<dots> = s" using assms(3) by (simp add: q)
  finally show "(w AND 0x8000 \<noteq> 0) = (s = 1)" using assms(2) by (auto simp: less_2_cases_iff)
qed

text \<open>The sign, the exponent and the fraction put together again.\<close>

lemma half_joined:
  fixes s e k :: nat
  assumes "s < 2" "e < 32" "k < 1024"
  shows "(if s = 1 then 0x8000 else 0) OR push_bit 10 e OR (k AND 0x3FF) = s * 32768 + e * 1024 + k"
proof -
  have m: "k AND 0x3FF = k"
    using take_bit_eq_mask [of 10 k] take_bit_nat_eq_self [of k 10] assms(3) by (simp add: mask_eq_exp_minus_1)
  have sg: "(if s = 1 then 0x8000 else 0) = push_bit 15 s" using assms(1) by (auto simp: less_2_cases_iff push_bit_eq_mult)
  have low: "bit e i \<Longrightarrow> i < 5" "bit k i \<Longrightarrow> i < 10" for i
    using assms(2,3) take_bit_nat_eq_self [of e 5] take_bit_nat_eq_self [of k 10] bit_take_bit_iff [of 5 e i] bit_take_bit_iff [of 10 k i]
    by auto
  have a: "push_bit 10 e OR k = push_bit 10 e + k"
    by (rule disjunctive_add_eq_or [symmetric], rule bit_eqI) (auto simp: bit_and_iff bit_push_bit_iff dest: low)
  have "push_bit 15 s OR (push_bit 10 e OR k) = push_bit 15 s + (push_bit 10 e OR k)"
    by (rule disjunctive_add_eq_or [symmetric], rule bit_eqI) (auto simp: bit_and_iff bit_or_iff bit_push_bit_iff dest!: low)
  then show ?thesis unfolding m sg or.assoc a by (simp add: push_bit_eq_mult)
qed

lemma find_down:
  assumes "1 \<le> e \<and> e < 31" "(2 :: rat) ^ e / 2 ^ 15 \<le> v" "v < 2 ^ (e + 1) / 2 ^ 15"
  shows "find (\<lambda>e. 2 ^ e / 2 ^ 15 \<le> v) (rev [1..<31]) = Some e"
proof -
  have split: "rev [1..<31] = rev [Suc e..<31] @ e # rev [1..<e]"
  proof -
    have "[1..<31] = [1..<e] @ [e..<31]" using assms(1) upt_add_eq_append [of 1 e "31 - e"] by simp
    also have "[e..<31] = e # [Suc e..<31]" using assms(1) by (simp add: upt_conv_Cons)
    finally show ?thesis by simp
  qed
  have "\<forall>i\<in>set (rev [Suc e..<31]). \<not> (2 :: rat) ^ i / 2 ^ 15 \<le> v"
  proof
    fix i assume "i \<in> set (rev [Suc e..<31])"
    then have "(2 :: rat) ^ (e + 1) \<le> 2 ^ i" by (intro power_increasing) auto
    then have "(2 :: rat) ^ (e + 1) / 2 ^ 15 \<le> 2 ^ i / 2 ^ 15" by (rule divide_right_mono) simp
    then show "\<not> (2 :: rat) ^ i / 2 ^ 15 \<le> v" using assms(3) by linarith
  qed
  then have "find (\<lambda>e. 2 ^ e / 2 ^ 15 \<le> v) (rev [Suc e..<31]) = None" by (auto simp: find_None_iff)
  moreover have "find P (xs @ ys) = (case find P xs of None \<Rightarrow> find P ys | Some x \<Rightarrow> Some x)" for P and xs ys :: "nat list"
    by (induction xs) simp_all
  ultimately show ?thesis unfolding split using assms(2) by simp
qed

lemma roundHalfUp_nat [simp]: "roundHalfUp (of_nat k) = k"
proof -
  have "\<lfloor>of_nat k + 1 / 2 :: rat\<rfloor> = int k" by (rule floor_unique) simp_all
  then show ?thesis by (simp add: roundHalfUp_def)
qed

lemma halfExponent_normal:
  assumes "1 \<le> e" "e < 31" "k < 1024"
  shows "halfExponent ((1 + of_nat k / 1024) * 2 ^ e / 2 ^ 15) = e"
proof -
  have k: "(of_nat k :: rat) < 1024" using assms(3) by simp
  have lo: "(2 :: rat) ^ e / 2 ^ 15 \<le> (1 + of_nat k / 1024) * 2 ^ e / 2 ^ 15" by (intro divide_right_mono) simp_all
  have hi: "(1 + of_nat k / 1024) * (2 :: rat) ^ e / 2 ^ 15 < 2 ^ (e + 1) / 2 ^ 15"
  proof -
    have "(1 + of_nat k / 1024) * (2 :: rat) ^ e < 2 * 2 ^ e" using k by (intro mult_strict_right_mono) simp_all
    then show ?thesis by (intro divide_strict_right_mono) simp_all
  qed
  have "(2 :: rat) ^ (e + 1) \<le> 2 ^ 31" using assms(2) by (intro power_increasing) simp_all
  then have "(2 :: rat) ^ (e + 1) / 2 ^ 15 \<le> 2 ^ 16" by simp
  then have "\<not> (2 :: rat) ^ 16 \<le> (1 + of_nat k / 1024) * 2 ^ e / 2 ^ 15" using hi by linarith
  then show ?thesis using find_down [OF _ lo hi] assms(1,2) by (simp add: halfExponent_def del: upt_rec_numeral)
qed

lemma halfExponent_small:
  assumes "v < 2 / 2 ^ 15"
  shows "halfExponent v = 0"
proof -
  have "find (\<lambda>e. (2 :: rat) ^ e / 2 ^ 15 \<le> v) (rev [1..<31]) = None"
  proof -
    have "\<not> (2 :: rat) ^ e / 2 ^ 15 \<le> v" if "e \<in> set (rev [1..<31])" for e
    proof -
      have "(2 :: rat) ^ 1 \<le> 2 ^ e" using that by (intro power_increasing) auto
      then have "(2 :: rat) / 2 ^ 15 \<le> 2 ^ e / 2 ^ 15" by (intro divide_right_mono) simp_all
      then show ?thesis using assms by linarith
    qed
    then show ?thesis unfolding find_None_iff by blast
  qed
  then show ?thesis using assms by (simp add: halfExponent_def del: upt_rec_numeral)
qed

theorem half_survives:
  assumes "w < 2 ^ 16" "dronecanDecodeFloat16 w \<noteq> Not_a_number"
  shows "dronecanEncodeFloat16 (dronecanDecodeFloat16 w) = w"
proof -
  obtain s e k where w: "w = s * 32768 + e * 1024 + k" and r: "s < 2" "e < 32" "k < 1024" by (rule half_parts [OF assms(1)])
  note f = half_fields [OF w r] and j = half_joined [OF r]
  have sg: "(if s = 1 then 0x8000 else 0 :: nat) = s * 32768" using r(1) by (auto simp: less_2_cases_iff)
  consider (zero) "e = 0" "k = 0" | (small) "e = 0" "0 < k" | (big) "e = 31" | (normal) "1 \<le> e" "e < 31" using r(2) by linarith
  then show ?thesis
  proof cases
    case zero
    have d: "dronecanDecodeFloat16 w = Finite_number (s = 1) 0"
      using zero unfolding dronecanDecodeFloat16_def Let_def f by simp
    have "dronecanEncodeFloat16 (Finite_number (s = 1) 0) = s * 32768"
      by (simp only: dronecanEncodeFloat16_def ieee_number.case Let_def simp_thms if_True sg)
    then show ?thesis using zero w unfolding d by simp
  next
    case small
    have d: "dronecanDecodeFloat16 w = Finite_number (s = 1) (of_nat k / 2 ^ 24)"
      using small unfolding dronecanDecodeFloat16_def Let_def f by simp
    have "(of_nat k :: rat) < 1024" using r(3) by simp
    then have h: "halfExponent (of_nat k / 2 ^ 24) = 0" by (intro halfExponent_small) simp
    have "roundHalfUp (of_nat k / 2 ^ 24 * 2 ^ 24) = k" by simp
    then have "dronecanEncodeFloat16 (Finite_number (s = 1) (of_nat k / 2 ^ 24)) = (if s = 1 then 0x8000 else 0) OR (k AND 0x3FF)"
      unfolding dronecanEncodeFloat16_def ieee_number.case Let_def h using small by simp
    then show ?thesis using small j w unfolding d by simp
  next
    case big
    then have "k = 0" using assms(2) unfolding dronecanDecodeFloat16_def Let_def f by (simp split: if_splits)
    then have d: "dronecanDecodeFloat16 w = Infinite_number (s = 1)"
      using big unfolding dronecanDecodeFloat16_def Let_def f by simp
    have "dronecanEncodeFloat16 (Infinite_number (s = 1)) = (if s = 1 then 0x8000 else 0) OR push_bit 10 e OR (k AND 0x3FF)"
      using big \<open>k = 0\<close> by (simp add: dronecanEncodeFloat16_def)
    then show ?thesis using j w unfolding d by simp
  next
    case normal
    let ?v = "(1 + of_nat k / 1024) * 2 ^ e / 2 ^ 15 :: rat"
    have d: "dronecanDecodeFloat16 w = Finite_number (s = 1) ?v"
      using normal unfolding dronecanDecodeFloat16_def Let_def f by simp
    have "0 < 1 + (of_nat k :: rat) / 1024" by (simp add: add_pos_nonneg)
    then have pos: "?v \<noteq> 0" by simp
    have "(?v * 2 ^ 15 / 2 ^ e - 1) * 1024 = of_nat k" by simp
    then have q: "roundHalfUp ((?v * 2 ^ 15 / 2 ^ e - 1) * 1024) = k" by (simp only: roundHalfUp_nat)
    have "dronecanEncodeFloat16 (Finite_number (s = 1) ?v)
        = (if s = 1 then 0x8000 else 0) OR push_bit 10 e OR (k AND 0x3FF)"
      unfolding dronecanEncodeFloat16_def ieee_number.case Let_def halfExponent_normal [OF normal r(3)] q
      using pos normal r(3) by simp
    then show ?thesis using j w unfolding d by simp
  qed
qed

text \<open>A positive number that rounds up to the smallest normal half is encoded as zero: the mask drops the
  carry into the exponent.\<close>

lemma half_encode_drops_carry:
  "dronecanEncodeFloat16 (Finite_number False (2047 / 2 ^ 25)) = 0"
proof -
  have h: "halfExponent (2047 / 2 ^ 25) = 0" by (rule halfExponent_small) simp
  have "\<lfloor>(2047 / 2 ^ 25 * 2 ^ 24 :: rat) + 1 / 2\<rfloor> = 1024" by (rule floor_unique) simp_all
  then have q: "roundHalfUp (2047 / 2 ^ 25 * 2 ^ 24) = 1024" by (simp add: roundHalfUp_def)
  show ?thesis unfolding dronecanEncodeFloat16_def ieee_number.case Let_def h q by simp
qed

subsection \<open>esc.Status survives\<close>

definition half_number :: "ieee_number \<Rightarrow> bool" where
  "half_number x \<longleftrightarrow> (\<exists>w<2 ^ 16. x = dronecanDecodeFloat16 w)"

definition esc_status_ok :: "esc_status \<Rightarrow> bool" where
  "esc_status_ok s \<longleftrightarrow> 0 \<le> escErrorCount s \<and> escErrorCount s < 2 ^ 32
     \<and> half_number (escVoltage s) \<and> half_number (escCurrent s) \<and> half_number (escTemperature s)
     \<and> - (2 ^ 17) \<le> escRpm s \<and> escRpm s < 2 ^ 17
     \<and> 0 \<le> escPowerRatingPct s \<and> escPowerRatingPct s < 2 ^ 7 \<and> 0 \<le> escIndex s \<and> escIndex s < 2 ^ 5"

lemma half_number_back:
  assumes "half_number x"
  shows "dronecanDecodeFloat16 (dronecanEncodeFloat16 x) = x" "dronecanEncodeFloat16 x < 2 ^ 16"
proof -
  obtain w where w: "w < 2 ^ 16" "x = dronecanDecodeFloat16 w" using assms by (auto simp: half_number_def)
  have nan: "dronecanDecodeFloat16 0x7E00 = Not_a_number"
    using half_fields [of "0x7E00" 0 31 512] unfolding dronecanDecodeFloat16_def Let_def by simp
  show "dronecanDecodeFloat16 (dronecanEncodeFloat16 x) = x" "dronecanEncodeFloat16 x < 2 ^ 16"
    using half_survives [OF w(1)] w nan by (cases "x = Not_a_number"; simp add: dronecanEncodeFloat16_def)+
qed

lemma signed_back:
  assumes "- (2 ^ 17) \<le> v" "v < 2 ^ 17"
  shows "(if take_bit 18 v \<ge> 2 ^ 17 then take_bit 18 v - 2 ^ 18 else take_bit 18 v) = (v :: int)"
proof (cases "v < 0")
  case True
  have "take_bit 18 v = (v + 2 ^ 18) mod 2 ^ 18" by (simp add: take_bit_eq_mod)
  also have "\<dots> = v + 2 ^ 18" using assms True by (intro mod_pos_pos_trivial) simp_all
  finally show ?thesis using True assms by simp
qed (use assms in \<open>simp add: take_bit_int_eq_self\<close>)

text \<open>C24 esc_status_roundtrip: an \<open>esc.Status\<close> whose numbers are in range and whose voltage, current and
  temperature are numbers that a half can hold (or none) survives encoding and decoding: the bits of every
  field, of 32, 16, 18, 7 and 5 bits packed without alignment, come back exactly.\<close>

theorem esc_status_roundtrip:
  assumes "esc_status_ok s"
  shows "decodeDronecanEscStatus (encodeDronecanEscStatus s) = Some s"
proof -
  define p where "p = encodeDronecanEscStatus s"
  note ok = assms [unfolded esc_status_ok_def]
  have len: "length p = 14" by (simp add: p_def encodeDronecanEscStatus_def Let_def written_bits(2))
  note rw = read_back_scalar read_other_scalar written_bits(2)
  have r: "dronecanReadCanardUint p 0 32 = take_bit 32 (escErrorCount s)"
    "dronecanReadCanardUint p 32 16 = take_bit 16 (int (dronecanEncodeFloat16 (escVoltage s)))"
    "dronecanReadCanardUint p 48 16 = take_bit 16 (int (dronecanEncodeFloat16 (escCurrent s)))"
    "dronecanReadCanardUint p 64 16 = take_bit 16 (int (dronecanEncodeFloat16 (escTemperature s)))"
    "dronecanReadCanardUint p 80 18 = take_bit 18 (escRpm s)"
    "dronecanReadCanardUint p 98 7 = take_bit 7 (escPowerRatingPct s)"
    "dronecanReadCanardUint p 105 5 = take_bit 5 (escIndex s)"
    unfolding p_def encodeDronecanEscStatus_def Let_def by (simp_all add: rw)
  have half: "dronecanDecodeFloat16 (nat (take_bit 16 (int (dronecanEncodeFloat16 x)))) = x" if "half_number x" for x
    using half_number_back [OF that] by (simp add: take_bit_nat_eq_self flip: of_nat_take_bit)
  show ?thesis
    using ok len unfolding p_def [symmetric] decodeDronecanEscStatus_def dronecanReadCanardInt_def r Let_def
    by (simp add: half signed_back [simplified] take_bit_int_eq_self)
qed

definition sampleEsc :: esc_status where
  "sampleEsc = \<lparr>escErrorCount = 2, escVoltage = Finite_number False 15, escCurrent = Finite_number True (3 / 2),
     escTemperature = Not_a_number, escRpm = -1200, escPowerRatingPct = 42, escIndex = 3\<rparr>"

theorem esc_status_roundtrip_witness:
  "decodeDronecanEscStatus (encodeDronecanEscStatus sampleEsc) = Some sampleEsc"
proof (rule esc_status_roundtrip)
  have "dronecanDecodeFloat16 19328 = Finite_number False 15" "dronecanDecodeFloat16 48640 = Finite_number True (3 / 2)"
    "dronecanDecodeFloat16 0x7E00 = Not_a_number"
    using half_fields [of 19328 0 18 896] half_fields [of 48640 1 15 512] half_fields [of "0x7E00" 0 31 512]
    unfolding dronecanDecodeFloat16_def Let_def by simp_all
  then have "half_number (Finite_number False 15)" "half_number (Finite_number True (3 / 2))" "half_number Not_a_number"
    unfolding half_number_def by (intro exI [of _ 19328] exI [of _ 48640] exI [of _ "0x7E00"]; simp)+
  then show "esc_status_ok sampleEsc" by (simp add: esc_status_ok_def sampleEsc_def)
qed

end
