(* ===== verification/Node_Guarantees.thy ===== *)
theory Node_Guarantees
  imports Node_Agreement Node_Values Node_Bits Dronecan_Guarantees
begin

unbundle bit_operations_syntax

text \<open>
  The properties of the CAN tab's DroneCAN codec: the transfers it sends are put together again by its
  own reassembler and by the bus monitor, through the frames of other nodes.
\<close>

subsection \<open>Outgoing transfers\<close>

lemma transferChunks_short: "f \<in> set (transferChunks tid sot tg bs) \<Longrightarrow> length f \<le> 8"
proof (induction tid sot tg bs rule: transferChunks.induct)
  case (1 tid sot tg rest)
  show ?case
  proof (cases "rest = []")
    case False
    then show ?thesis using 1 by (subst (asm) (2) transferChunks.simps) (auto simp: Let_def)
  qed (use 1 in simp)
qed

lemma buildFrames_short: "f \<in> set (buildFrames sig tid body) \<Longrightarrow> length f \<le> 8"
  by (auto simp: buildFrames_def Let_def transferChunks_short split: if_splits)

text \<open>C22 node_transfer_delivered: the frames of a service call or a broadcast are classic CAN frames of
  at most eight bytes, and whatever frames of other transfers come in between, from whatever state, the
  reassembler delivers the payload once, with the last of them, for payloads up to its limit.\<close>

theorem node_transfer_delivered:
  assumes "length body + 2 \<le> MAX_REASSEMBLY_BYTES"
    and "out = dronecanBuildServiceFrames call body \<and> sig = callSignature call
      \<or> out = dronecanBuildBroadcastFrames cast body \<and> sig = castSignature cast"
    and "sigs c = None \<or> sigs c = Some sig" "frames_of c fs (map snd out)"
  shows "(\<forall>(i, f)\<in>set out. length f \<le> 8)
    \<and> resultsOf (keyFor c) (snd (pushEach sigs fs ps)) = replicate (length out - 1) Unfinished @ [Finished c body]"
proof -
  obtain i tid where out: "out = map (Pair i) (buildFrames sig tid body)"
    using assms(2) by (auto simp: dronecanBuildServiceFrames_def dronecanBuildBroadcastFrames_def Let_def)
  have "\<forall>(j, f)\<in>set out. length f \<le> 8" unfolding out using buildFrames_short by auto
  moreover have "frames_of c fs (buildFrames sig tid body)" using assms(4) by (simp add: out o_def)
  ultimately show ?thesis using built_transfer_delivered assms(1,3) by (simp add: out)
qed

definition sampleCall :: service_call_parts where
  "sampleCall = \<lparr>callServiceTypeId = DRONECAN_FILE_READ_SERVICE_ID, callSignature = DRONECAN_FILE_READ_SIGNATURE,
     callDestination = 42, callSource = 127, callTransferId = 9, callPriority = None, callIsRequest = Some False\<rparr>"

definition sampleContext :: "nat \<Rightarrow> transfer_context" where
  "sampleContext source = \<lparr>ctxSource = source, ctxService = True, ctxType = 48, ctxRequest = Some False, ctxTransferId = 9\<rparr>"

theorem node_transfer_delivered_witness:
  "\<exists>rs. snd (pushEach (\<lambda>_. Some DRONECAN_FILE_READ_SIGNATURE)
      ((sampleContext 5, [1, 0x89]) # map (\<lambda>(i, f). (sampleContext 127, f)) (dronecanBuildServiceFrames sampleCall (replicate 258 7)))
      (\<lambda>_. None)) = rs
    \<and> last (resultsOf (keyFor (sampleContext 127)) rs) = Finished (sampleContext 127) (replicate 258 7)"
proof -
  let ?out = "dronecanBuildServiceFrames sampleCall (replicate 258 7)"
  have "frames_of (sampleContext 127) ((sampleContext 5, [1, 0x89]) # map (\<lambda>(i, f). (sampleContext 127, f)) ?out) (map snd ?out)"
    by (simp add: frames_of_def sampleContext_def keyFor_def filter_map o_def case_prod_unfold)
  from node_transfer_delivered [where call = sampleCall and body = "replicate 258 7" and sigs = "\<lambda>_. Some DRONECAN_FILE_READ_SIGNATURE"
      and sig = DRONECAN_FILE_READ_SIGNATURE, OF _ _ _ this]
  show ?thesis by (simp add: MAX_REASSEMBLY_BYTES_def sampleCall_def)
qed

subsection \<open>Two receivers\<close>



end
