(* ===== verification/Spec2Isabelle.thy ===== *)
theory Spec2Isabelle
  imports Mav_Guarantees Firmware_Guarantees Can_Guarantees Dronecan_Guarantees Msp_Guarantees Dfu_Guarantees
    Transfer_Guarantees Motor_Guarantees Node_Guarantees
begin

text \<open>
  A verification library for arduconfigurator, a ground station for ArduPilot and Betaflight boards.

  \<^bold>\<open>The program.\<close> The applications (\<open>src/apps\<close>) show what a runtime (\<open>packages/ardupilot-core\<close>)
  knows of one vehicle. The runtime talks to it through a transport and a session, which use the codecs
  of the protocol packages: \<open>protocol-mavlink\<close> for ArduPilot, \<open>protocol-msp\<close> for Betaflight,
  \<open>can-core\<close> and \<open>dronecan-dsdl\<close> for the CAN bus behind the autopilot. \<open>firmware-flash\<close> writes
  new firmware, over the serial bootloader or over USB DFU. What is modelled here is this core: the
  bytes that go over the wires, what the stateful services make of the messages, in any order, and
  what is done to a board's flash and its motors. Every path below is relative to \<open>src/packages\<close>.

  \<^bold>\<open>Conventions.\<close> A \<open>Uint8Array\<close> is a list of 8-bit words; numbers that the code masks or
  shifts are words of the width the masks give, other JavaScript integers are \<open>int\<close> or \<open>nat\<close>,
  doubles are exact (rationals or reals, in \<open>Js_Float\<close> with the IEEE roundings of the codec). A throw is
  \<open>None\<close> where only the fact matters, and \<open>Inl\<close> of a datatype of errors where the kind of error
  does. Asynchronous methods are modelled in one of two ways. A method that owns its device while it
  runs (the bootloader, DFU, the CLI capture, a MAVFTP file operation) is a program over the history of
  the conversation (\<open>Io_Monad\<close>); the device is an argument whose answer depends on that whole history,
  so every theorem holds for every device and every timing. A service whose calls, messages and timers
  interleave (the MSP session, the log download, the MAVFTP requests, the motor test) is a state
  machine: a type of events, a step function, and a run over any list of events. A promise is the value
  it is settled with, kept in the state.

  \<^bold>\<open>Foundations.\<close>
    \<^item> \<open>Prelude\<close>: types, theorem collections, lemmas on options and lists. \<open>Js_Bytes\<close>, \<open>Js_Text\<close>,
      \<open>Js_Hex\<close>, \<open>Js_Float\<close>: typed arrays and \<open>DataView\<close>, \<open>TextEncoder\<close> and \<open>TextDecoder\<close> on the texts
      used, \<open>parseInt\<close> and \<open>toString(16)\<close>, IEEE numbers. The locale \<open>view_field\<close> states what a
      \<open>DataView\<close> accessor pair promises and is interpreted at the eight widths.
    \<^item> \<open>Crc_Algebra\<close>: the checksums as linear maps. The locale \<open>byte_crc\<close> gives, for any byte-wise
      CRC, that a changed byte changes the checksum; it is interpreted for the X.25 checksum of frames
      (\<open>Mav_Crc\<close>), the CRC-32 of the bootloader (\<open>Firmware_Crc\<close>) and the CRC-16 of DroneCAN
      (\<open>Dronecan_Catalogue\<close>).
    \<^item> \<open>Stream_Decoder\<close>: the locale of decoders fed in chunks of any size, interpreted for the SLCAN
      splitter and the MSP decoder.
    \<^item> \<open>Io_Monad\<close>: conversations with a device, their loops (\<open>partial_function\<close>, so that a loop that does
      not end is \<open>None\<close>), and rules that carry invariants and termination through a program.
    \<^item> \<open>Transfer_Base\<close>: a file that arrives in chunks, in any order, with a frontier below which it is
      complete.

  \<^bold>\<open>MAVLink\<close> (\<open>protocol-mavlink/src\<close>).
    \<^item> \<open>Mav_Constants\<close> (\<open>constants.ts\<close>), \<open>Mav_Messages\<close> (\<open>messages.ts\<close>): the tables and the message
      types. \<open>Mav_Fields\<close>, \<open>Mav_Payload_A\<close>, \<open>Mav_Payload_B\<close>, \<open>Mav_Payload\<close>: every payload encoder and
      decoder of \<open>mavlink-v2-codec.ts\<close> and the dispatch on the message id. The lemmas show that each
      decoder inverts its encoder on values in range and succeeds on every payload of full length.
    \<^item> \<open>Sha256\<close> (\<open>sha256.ts\<close>), \<open>Mav_Signing\<close>: the signing half of the codec, keys, clocks, signatures,
      the replay window and the rejection handler.
    \<^item> \<open>Mav_Codec\<close>: the frame layer, \<open>encode\<close>, the resynchronising \<open>push\<close>, truncation and single frames.
      \<open>Mav_Frames\<close>: the shape of a frame and one iteration of the decoder. \<open>Mav_Guarantees\<close>: round trips
      of payloads and streams, totality and boundedness, detection of damage, signing safety.

  \<^bold>\<open>CAN\<close> (\<open>can-core/src\<close>). \<open>Can_Frame\<close> (\<open>frame.ts\<close>), \<open>Slcan\<close> (\<open>slcan.ts\<close>), \<open>Capture_Buffer\<close>
  (\<open>capture-buffer.ts\<close>, which refines a bounded log, the locale \<open>bounded_log\<close>), \<open>Can_Filter\<close>
  (\<open>filter.ts\<close>), \<open>Can_Tools\<close> (\<open>trace.ts\<close>, \<open>playback.ts\<close>, the bus load). \<open>Can_Guarantees\<close>: the stream
  from the encoder to the capture, the ring against the log, the filter against the rule its header
  states.

  \<^bold>\<open>DroneCAN\<close> (\<open>dronecan-dsdl/src\<close>). \<open>Dsdl_Types\<close>, \<open>Dsdl_Codec\<close> (\<open>types.ts\<close>, \<open>codec.ts\<close>),
  \<open>Dronecan_Catalogue\<close> (\<open>catalogue.ts\<close>; the generated types are an argument), \<open>Dronecan_Transfer\<close>
  (\<open>transfer.ts\<close>: reassembly of frames). \<open>Dsdl_Roundtrip\<close>, \<open>Dsdl_Float16\<close> and \<open>Dsdl_Total\<close> show that
  decoding inverts encoding, that the half-precision conversions are inverse on finite halves, and that
  the codec ends on every input. \<open>Dronecan_Guarantees\<close>: a message is delivered through interleaved
  frames, a corrupted transfer is flagged.

  \<^bold>\<open>DroneCAN of the CAN tab\<close> (\<open>protocol-mavlink/src/dronecan.ts\<close>), a second codec, written by hand.
  \<open>Node_Transfer\<close>: identifiers, tail bytes, the checksum, the reassembler and the builders of frames.
  \<open>Node_Messages\<close>: the byte-aligned DSDL types, \<open>Node_Bits\<close>: packed scalars, the half-precision conversion and
  \<open>esc.Status\<close>. \<open>Node_Reassembly\<close>: the reassembler among other frames, \<open>Node_Values\<close>: what survives encoding and
  decoding. \<open>Node_Agreement\<close>: what \<open>processCanFrame\<close> (\<open>ardupilot-core/src/runtime-can-bus-service.ts\<close>) feeds the
  reassembler, on which it agrees with the decoder of \<open>Dronecan_Transfer\<close>. \<open>Node_Guarantees\<close>: a call goes out
  in classic frames and is put together again, the two receivers agree.

  \<^bold>\<open>Firmware\<close> (\<open>firmware-flash/src\<close>).
    \<^item> \<open>Firmware_Crc\<close> (\<open>crc.ts\<close>), \<open>Intel_Hex\<close> (\<open>intel-hex.ts\<close>), \<open>Apj\<close> (\<open>apj.ts\<close>), \<open>Board_Guard\<close>
      (\<open>board-guard.ts\<close>): images and the checks before a flash.
    \<^item> \<open>Bootloader\<close>, \<open>Bootloader_Flash\<close> (\<open>bootloader.ts\<close>): every method of the serial client and the
      flash as a whole. \<open>Firmware_Guarantees\<close>: a flash that reports success was verified, a refused one
      touches nothing, only legal frames are sent, a flash ends on every device, and it succeeds on a
      conforming one.
    \<^item> \<open>Dfu_Plan\<close>, \<open>Dfu_Device\<close> (\<open>dfu.ts\<close>): planning and the DfuSe client. \<open>Dfu_Trace\<close>, \<open>Dfu_Order\<close>,
      \<open>Dfu_Cover\<close>, \<open>Dfu_Flash\<close>: what a conversation does to the flash, in which order, and that the
      writes cover the image. \<open>Dfu_Guarantees\<close>: protected boards are refused, the word that makes the
      image bootable is written last, and after a success the image is on the board.

  \<^bold>\<open>MSP\<close> (\<open>protocol-msp/src\<close>). \<open>Msp_Codec\<close> (\<open>constants.ts\<close>, \<open>msp-v1-codec.ts\<close>), \<open>Msp_Messages\<close>
  (\<open>messages.ts\<close>, the texts of \<open>cli.ts\<close>), \<open>Msp_Session\<close> (\<open>msp-session.ts\<close>: waiters, timers, listeners),
  \<open>Msp_Cli\<close> (\<open>cli.ts\<close>: the capture of a command's output). \<open>Msp_Guarantees\<close>: the stream of a board is
  decoded through noise, every request is settled by its own reply or an error, the command is sent
  only after the prompt.

  \<^bold>\<open>Transfers\<close> (\<open>ardupilot-core/src\<close>).
    \<^item> \<open>Log_Download\<close> (\<open>runtime-log-download-service.ts\<close>), \<open>Log_Transfer\<close>: the list and download of
      onboard logs. The locale \<open>log_contract\<close> is what the service keeps for any notion of a right
      message; it is interpreted for a vehicle that sends the logs it holds (\<open>log_content\<close>) and for any
      vehicle (\<open>log_any\<close>).
    \<^item> \<open>Mavftp_Payload\<close> (\<open>mavftp.ts\<close>), \<open>Mavftp_Service\<close> (\<open>runtime-mavftp-service.ts\<close>: requests, replies and
      bursts), \<open>Mavftp_Burst\<close>, \<open>Mavftp_Transfer\<close>, \<open>Mavftp_Requests\<close>. The locale \<open>burst_contract\<close> is
      interpreted for a vehicle that sends the file (\<open>burst_file\<close>, and \<open>burst_whole\<close> when the end of the
      file is never announced early) and for any vehicle (\<open>burst_any\<close>).
    \<^item> \<open>Mavftp_Files\<close>, \<open>Mavftp_Stored\<close>: the file operations over the requests and what they leave on the
      vehicle. \<open>Transfer_Guarantees\<close>: the bytes of a finished transfer are the vehicle's, every call is
      settled, an upload that returns is stored.

  \<^bold>\<open>Motors.\<close> \<open>Motor_Outputs\<close> (\<open>ardupilot-core/src/airframe-outputs.ts\<close>, \<open>motor-test-order.ts\<close>,
  \<open>param-metadata/src/arducopter-enums.ts\<close>): which output is which motor, and its number in the frame's
  testing order. \<open>Motor_Eligibility\<close> (\<open>motor-test.ts\<close>): the gate. \<open>Motor_Service\<close>
  (\<open>runtime-motor-test-service.ts\<close>), \<open>Motor_Safety\<close>: the service and its invariant. \<open>Motor_Guarantees\<close>: a
  motor is spun only on a request that passed the gate, a stop holds, the testing order is a
  permutation.

  \<^bold>\<open>Bounds and fuel.\<close> The recursion of the DSDL codec through named types has a fuel, the nesting depth;
  every level is a named type of the catalogue, possibly of an array, so \<open>codecDepth\<close>, twice the number of
  types and two, is enough; for types nested at most to the fuel no run ends for lack of it
  (\<open>dsdl_codec_terminates\<close>). SHA-256
  is stated for messages of fewer than \<open>2 ^ 32\<close> bytes. The loops of the bootloader, of DFU and of the CLI
  capture are \<open>partial_function (option)\<close>; that they return rests on the clock: every wait or poll moves
  it, and the deadlines of the code do the rest (\<open>flash_always_returns\<close>). A burst of \<open>n\<close> bytes arms
  its timer at most \<open>8 n + 8\<close> times (\<open>ftp_burst_bounded\<close>), a log download settles after at most 4
  timeouts without progress, a file that is read may have 16 MiB. No theorem of the state machines bounds the
  number of events.

  \<^bold>\<open>Not modelled.\<close>
    \<^item> The applications, the UI kit, the assistant, desktop and harness code: rendering, processes and
      prompts. The transports: browser and node I/O.
    \<^item> \<open>runtime.ts\<close>: the event loop that holds the services together and the snapshot it publishes. Its
      services for logs, files and motor tests are modelled, with what they ask of it as arguments.
    \<^item> \<open>mavlink-generic.ts\<close> reads a generated table; it is an argument (\<open>generic_codec\<close>) of the codec.
      \<open>mavlink-session.ts\<close> passes the bytes of a transport to the codec; \<open>mock-scenario.ts\<close> is
      demonstration data.
    \<^item> The candump text of \<open>can-core/src/log-formats.ts\<close> (regular expressions and \<open>toFixed\<close> of
      doubles), \<open>open\<close> and the commands of \<open>SlcanAdapter\<close>.
    \<^item> Firmware manifests, board names and the digest of an image (WebCrypto).
    \<^item> MAVFTP directory listings and path texts, and the queue that runs one operation at a time.
    \<^item> Parameter metadata (generated tables), log analysis and plotting (floating-point signal analysis).
    \<^item> Texts for the operator, labels and progress ratios of the modelled parts.
\<close>

end
